(* ===== verification/Prelude.thy ===== *)
theory Prelude
  imports Main "HOL-Library.Word"
begin

unbundle bit_operations_syntax

text \<open>
  Shared vocabulary of the development: the machine-integer types, the lists of
  named theorems that the component theories extend, and the generic lemmas on
  lists, sums and words that more than one component needs.
\<close>

section \<open>Machine integers\<close>

type_synonym u8 = "8 word"
type_synonym u16 = "16 word"
type_synonym u32 = "32 word"
type_synonym u64 = "64 word"

section \<open>Collections of facts\<close>

named_theorems reader_spec
  \<open>operations of the cursor, rewritten to operations on the bytes not yet read\<close>

named_theorems consumes
  \<open>a successful operation returns its reader moved forward inside its bounds\<close>

section \<open>Sum-valued results\<close>

lemma case_sum_Inr_iff:
  "(case m of Inl e \<Rightarrow> Inl e | Inr x \<Rightarrow> f x) = Inr y \<longleftrightarrow> (\<exists>x. m = Inr x \<and> f x = Inr y)"
  by (cases m) auto

lemma case_sum_prod_Inr_iff:
  "(case m of Inl e \<Rightarrow> Inl e | Inr x \<Rightarrow> (case x of (a, b) \<Rightarrow> f a b)) = Inr y
     \<longleftrightarrow> (\<exists>a b. m = Inr (a, b) \<and> f a b = Inr y)"
  by (cases m) auto

text \<open>The early return \<open>if (rv != Success) return rv;\<close> after a call, as a combinator: long
  sequences of calls are written with it.\<close>

definition bind_res :: "'e + 'a \<Rightarrow> ('a \<Rightarrow> 'e + 'b) \<Rightarrow> 'e + 'b" where
  "bind_res m f = (case m of Inl e \<Rightarrow> Inl e | Inr x \<Rightarrow> f x)"

lemma bind_res_simps [simp]: "bind_res (Inl e) f = Inl e" "bind_res (Inr x) f = f x"
  by (simp_all add: bind_res_def)

lemma bind_res_Inr_iff: "bind_res m f = Inr y \<longleftrightarrow> (\<exists>x. m = Inr x \<and> f x = Inr y)"
  by (cases m) auto

lemma bind_res_prod_Inr_iff:
  "bind_res m (\<lambda>(a, b). f a b) = Inr y \<longleftrightarrow> (\<exists>a b. m = Inr (a, b) \<and> f a b = Inr y)"
  by (cases m) auto

lemma bind_res_Inl_iff:
  "bind_res m f = Inl e \<longleftrightarrow> m = Inl e \<or> (\<exists>x. m = Inr x \<and> f x = Inl e)"
  by (cases m) auto

lemma bind_res_InrE:
  assumes "bind_res m f = Inr y" obtains x where "m = Inr x" "f x = Inr y"
  using assms by (auto simp: bind_res_Inr_iff)

text \<open>A check that either fails with a given error or goes on.\<close>

definition fail_if :: "bool \<Rightarrow> 'e \<Rightarrow> 'e + unit" where
  "fail_if c e = (if c then Inl e else Inr ())"

lemma fail_if_iff [simp]:
  "fail_if c e = Inr u \<longleftrightarrow> \<not> c" "fail_if c e = Inl e' \<longleftrightarrow> c \<and> e' = e"
  by (auto simp: fail_if_def)

lemma if_Inl_Inr_iff: "(if c then Inl e else m) = Inr y \<longleftrightarrow> \<not> c \<and> m = Inr y"
  by simp

text \<open>Folding a fallible step over a list, stopping at the first error.\<close>

fun fold_res :: "('s \<Rightarrow> 'a \<Rightarrow> 'e + 's) \<Rightarrow> 's \<Rightarrow> 'a list \<Rightarrow> 'e + 's" where
  "fold_res f s [] = Inr s"
| "fold_res f s (x # xs) = (case f s x of Inl e \<Rightarrow> Inl e | Inr s' \<Rightarrow> fold_res f s' xs)"

lemma fold_res_append:
  "fold_res f s (xs @ ys) = (case fold_res f s xs of Inl e \<Rightarrow> Inl e | Inr s' \<Rightarrow> fold_res f s' ys)"
  by (induction xs arbitrary: s) (auto split: sum.splits)

lemma fold_res_invariant:
  assumes "fold_res f s xs = Inr s'" and "I s"
    and "\<And>s x t. x \<in> set xs \<Longrightarrow> f s x = Inr t \<Longrightarrow> I s \<Longrightarrow> I t"
  shows "I s'"
  using assms
proof (induction xs arbitrary: s)
  case Nil
  then show ?case by simp
next
  case (Cons x xs)
  then show ?case by (fastforce split: sum.splits)
qed

section \<open>Lists\<close>

lemma take_drop_append: "take n (drop i xs) @ drop (i + n) xs = drop i xs"
  by (metis append_take_drop_id drop_drop add.commute)

lemma hd_take_drop:
  "0 < k \<Longrightarrow> n < length xs \<Longrightarrow> take k (drop n xs) = xs ! n # take (k - 1) (drop (n + 1) xs)"
  by (cases k) (simp_all add: Cons_nth_drop_Suc [symmetric])

lemma append_eq_Cons_conv_length:
  "xs = ys @ zs \<longleftrightarrow> length ys \<le> length xs \<and> take (length ys) xs = ys \<and> drop (length ys) xs = zs"
  by (metis append_eq_conv_conj append_take_drop_id length_append le_add1)

lemma mod_window: "m * q \<le> k \<Longrightarrow> k < m * q + m \<Longrightarrow> k mod m = k - m * q" for m q k :: nat
proof -
  assume "m * q \<le> k" "k < m * q + m"
  then have "k = (k - m * q) + m * q" "k - m * q < m" by simp_all
  then show "k mod m = k - m * q" by (metis mod_less mod_mult_self2)
qed

section \<open>Words\<close>

lemma unat_u8_less [simp]: "unat (b :: u8) < 256"
  using unsigned_less [of b] by simp

lemma of_nat_unat_u8 [simp]: "(of_nat (unat (b :: u8)) :: u8) = b"
  by simp

lemma unat_of_nat_u8: "n < 256 \<Longrightarrow> unat (of_nat n :: u8) = n"
  by (simp add: unat_of_nat take_bit_eq_mod)

lemma unat_of_nat_u16: "n < 65536 \<Longrightarrow> unat (of_nat n :: u16) = n"
  by (simp add: unat_of_nat take_bit_eq_mod)

lemma unat_of_nat_u32: "n < 4294967296 \<Longrightarrow> unat (of_nat n :: u32) = n"
  by (simp add: unat_of_nat take_bit_eq_mod)

lemma unat_of_nat_u64: "n < 18446744073709551616 \<Longrightarrow> unat (of_nat n :: u64) = n"
  by (simp add: unat_of_nat take_bit_eq_mod)

lemma shift8_mod: "(n::nat) < 256 \<Longrightarrow> n mod 65536 * 256 mod 65536 = n * 256"
  by simp

lemma mod16_u8: "(n::nat) < 256 \<Longrightarrow> n mod 65536 = n"
  by simp

text \<open>The big-endian 16-bit value of two bytes, as the code assembles it.\<close>

lemma be16_or_eq:
  "unat ((push_bit 8 (ucast hi :: u16)) OR ucast (lo :: u8)) = 256 * unat (hi :: u8) + unat lo"
proof -
  let ?h = "push_bit 8 (ucast hi :: u16)" and ?l = "ucast lo :: u16"
  have disj: "?h AND ?l = 0"
    by (rule bit_eqI) (auto simp: bit_simps dest: bit_imp_le_length)
  have "?h OR ?l = ?h + ?l"
    using disj by (simp add: disjunctive_add_eq_or)
  moreover have "unat ?h = 256 * unat hi"
  proof -
    have "unat ?h = unat hi mod 65536 * 256 mod 65536"
      by (subst unsigned_push_bit_eq) (simp add: push_bit_eq_mult take_bit_eq_mod unsigned_ucast_eq)
    also have "\<dots> = unat hi * 256"
      by (rule shift8_mod [OF unat_u8_less])
    finally show ?thesis by simp
  qed
  moreover have "unat ?l = unat lo"
    by (simp add: unsigned_ucast_eq take_bit_eq_mod mod16_u8 [OF unat_u8_less])
  moreover have "unat ?h + unat ?l < 65536"
    using calculation(2,3) unat_u8_less [of hi] unat_u8_less [of lo] by linarith
  ultimately show ?thesis by (simp add: unat_word_ariths)
qed

end
