(* ===== verification/PkixResult.thy ===== *)
theory PkixResult
  imports Prelude
begin

text \<open>
  \<^verbatim>\<open>security/pkix/include/pkix/Result.h\<close>: the error codes of mozilla::pkix. The
  enumerator \<open>Success\<close> is not a constructor of \<open>error\<close>: a function that can fail
  returns \<open>Inl e\<close> for the code \<open>e\<close> and \<open>Inr x\<close> for \<open>Success\<close> with its
  out-parameters \<open>x\<close>, so a result is never both.
\<close>

datatype (plugins only: code size) error =
    ERROR_BAD_DER
  | ERROR_CA_CERT_INVALID
  | ERROR_BAD_SIGNATURE
  | ERROR_CERT_BAD_ACCESS_LOCATION
  | ERROR_CERT_NOT_IN_NAME_SPACE
  | ERROR_CERT_SIGNATURE_ALGORITHM_DISABLED
  | ERROR_CONNECT_REFUSED
  | ERROR_EXPIRED_CERTIFICATE
  | ERROR_EXTENSION_VALUE_INVALID
  | ERROR_INADEQUATE_CERT_TYPE
  | ERROR_INADEQUATE_KEY_USAGE
  | ERROR_INVALID_ALGORITHM
  | ERROR_INVALID_DER_TIME
  | ERROR_KEY_PINNING_FAILURE
  | ERROR_PATH_LEN_CONSTRAINT_INVALID
  | ERROR_POLICY_VALIDATION_FAILED
  | ERROR_REVOKED_CERTIFICATE
  | ERROR_UNKNOWN_CRITICAL_EXTENSION
  | ERROR_UNKNOWN_ERROR
  | ERROR_UNKNOWN_ISSUER
  | ERROR_UNTRUSTED_CERT
  | ERROR_UNTRUSTED_ISSUER
  | ERROR_OCSP_BAD_SIGNATURE
  | ERROR_OCSP_INVALID_SIGNING_CERT
  | ERROR_OCSP_MALFORMED_REQUEST
  | ERROR_OCSP_MALFORMED_RESPONSE
  | ERROR_OCSP_OLD_RESPONSE
  | ERROR_OCSP_REQUEST_NEEDS_SIG
  | ERROR_OCSP_RESPONDER_CERT_INVALID
  | ERROR_OCSP_SERVER_ERROR
  | ERROR_OCSP_TRY_SERVER_LATER
  | ERROR_OCSP_UNAUTHORIZED_REQUEST
  | ERROR_OCSP_UNKNOWN_RESPONSE_STATUS
  | ERROR_OCSP_UNKNOWN_CERT
  | ERROR_OCSP_FUTURE_RESPONSE
  | ERROR_INVALID_KEY
  | ERROR_UNSUPPORTED_KEYALG
  | ERROR_EXPIRED_ISSUER_CERTIFICATE
  | ERROR_CA_CERT_USED_AS_END_ENTITY
  | ERROR_INADEQUATE_KEY_SIZE
  | ERROR_V1_CERT_USED_AS_CA
  | ERROR_BAD_CERT_DOMAIN
  | ERROR_NO_RFC822NAME_MATCH
  | ERROR_UNSUPPORTED_ELLIPTIC_CURVE
  | ERROR_NOT_YET_VALID_CERTIFICATE
  | ERROR_NOT_YET_VALID_ISSUER_CERTIFICATE
  | ERROR_UNSUPPORTED_EC_POINT_FORM
  | ERROR_SIGNATURE_ALGORITHM_MISMATCH
  | ERROR_OCSP_RESPONSE_FOR_CERT_MISSING
  | ERROR_VALIDITY_TOO_LONG
  | ERROR_REQUIRED_TLS_FEATURE_MISSING
  | ERROR_INVALID_INTEGER_ENCODING
  | ERROR_EMPTY_ISSUER_NAME
  | FATAL_ERROR_INVALID_ARGS
  | FATAL_ERROR_INVALID_STATE
  | FATAL_ERROR_LIBRARY_FAILURE
  | FATAL_ERROR_NO_MEMORY

type_synonym 'a res = "error + 'a"

definition FATAL_ERROR_FLAG :: u32 where
  "FATAL_ERROR_FLAG = 0x800"

fun error_code :: "error \<Rightarrow> u32" where
  "error_code ERROR_BAD_DER = 1"
| "error_code ERROR_CA_CERT_INVALID = 2"
| "error_code ERROR_BAD_SIGNATURE = 3"
| "error_code ERROR_CERT_BAD_ACCESS_LOCATION = 4"
| "error_code ERROR_CERT_NOT_IN_NAME_SPACE = 5"
| "error_code ERROR_CERT_SIGNATURE_ALGORITHM_DISABLED = 6"
| "error_code ERROR_CONNECT_REFUSED = 7"
| "error_code ERROR_EXPIRED_CERTIFICATE = 8"
| "error_code ERROR_EXTENSION_VALUE_INVALID = 9"
| "error_code ERROR_INADEQUATE_CERT_TYPE = 10"
| "error_code ERROR_INADEQUATE_KEY_USAGE = 11"
| "error_code ERROR_INVALID_ALGORITHM = 12"
| "error_code ERROR_INVALID_DER_TIME = 13"
| "error_code ERROR_KEY_PINNING_FAILURE = 14"
| "error_code ERROR_PATH_LEN_CONSTRAINT_INVALID = 15"
| "error_code ERROR_POLICY_VALIDATION_FAILED = 16"
| "error_code ERROR_REVOKED_CERTIFICATE = 17"
| "error_code ERROR_UNKNOWN_CRITICAL_EXTENSION = 18"
| "error_code ERROR_UNKNOWN_ERROR = 19"
| "error_code ERROR_UNKNOWN_ISSUER = 20"
| "error_code ERROR_UNTRUSTED_CERT = 21"
| "error_code ERROR_UNTRUSTED_ISSUER = 22"
| "error_code ERROR_OCSP_BAD_SIGNATURE = 23"
| "error_code ERROR_OCSP_INVALID_SIGNING_CERT = 24"
| "error_code ERROR_OCSP_MALFORMED_REQUEST = 25"
| "error_code ERROR_OCSP_MALFORMED_RESPONSE = 26"
| "error_code ERROR_OCSP_OLD_RESPONSE = 27"
| "error_code ERROR_OCSP_REQUEST_NEEDS_SIG = 28"
| "error_code ERROR_OCSP_RESPONDER_CERT_INVALID = 29"
| "error_code ERROR_OCSP_SERVER_ERROR = 30"
| "error_code ERROR_OCSP_TRY_SERVER_LATER = 31"
| "error_code ERROR_OCSP_UNAUTHORIZED_REQUEST = 32"
| "error_code ERROR_OCSP_UNKNOWN_RESPONSE_STATUS = 33"
| "error_code ERROR_OCSP_UNKNOWN_CERT = 34"
| "error_code ERROR_OCSP_FUTURE_RESPONSE = 35"
| "error_code ERROR_INVALID_KEY = 36"
| "error_code ERROR_UNSUPPORTED_KEYALG = 37"
| "error_code ERROR_EXPIRED_ISSUER_CERTIFICATE = 38"
| "error_code ERROR_CA_CERT_USED_AS_END_ENTITY = 39"
| "error_code ERROR_INADEQUATE_KEY_SIZE = 40"
| "error_code ERROR_V1_CERT_USED_AS_CA = 41"
| "error_code ERROR_BAD_CERT_DOMAIN = 42"
| "error_code ERROR_NO_RFC822NAME_MATCH = 43"
| "error_code ERROR_UNSUPPORTED_ELLIPTIC_CURVE = 44"
| "error_code ERROR_NOT_YET_VALID_CERTIFICATE = 45"
| "error_code ERROR_NOT_YET_VALID_ISSUER_CERTIFICATE = 46"
| "error_code ERROR_UNSUPPORTED_EC_POINT_FORM = 47"
| "error_code ERROR_SIGNATURE_ALGORITHM_MISMATCH = 48"
| "error_code ERROR_OCSP_RESPONSE_FOR_CERT_MISSING = 49"
| "error_code ERROR_VALIDITY_TOO_LONG = 50"
| "error_code ERROR_REQUIRED_TLS_FEATURE_MISSING = 51"
| "error_code ERROR_INVALID_INTEGER_ENCODING = 52"
| "error_code ERROR_EMPTY_ISSUER_NAME = 53"
| "error_code FATAL_ERROR_INVALID_ARGS = FATAL_ERROR_FLAG OR 1"
| "error_code FATAL_ERROR_INVALID_STATE = FATAL_ERROR_FLAG OR 2"
| "error_code FATAL_ERROR_LIBRARY_FAILURE = FATAL_ERROR_FLAG OR 3"
| "error_code FATAL_ERROR_NO_MEMORY = FATAL_ERROR_FLAG OR 4"

definition result_code :: "'a res \<Rightarrow> u32" where
  "result_code rv = (case rv of Inl e \<Rightarrow> error_code e | Inr _ \<Rightarrow> 0)"

definition IsFatalError :: "error \<Rightarrow> bool" where
  "IsFatalError e \<longleftrightarrow> error_code e AND FATAL_ERROR_FLAG \<noteq> 0"

definition NotReached :: "error \<Rightarrow> 'a res" where
  "NotReached result = Inl result"

lemma IsFatalError_iff:
  "IsFatalError e \<longleftrightarrow>
     e \<in> {FATAL_ERROR_INVALID_ARGS, FATAL_ERROR_INVALID_STATE,
          FATAL_ERROR_LIBRARY_FAILURE, FATAL_ERROR_NO_MEMORY}"
  by (cases e) (simp_all add: IsFatalError_def FATAL_ERROR_FLAG_def)

lemma error_code_nonzero: "error_code e \<noteq> 0"
  by (cases e) (simp_all add: FATAL_ERROR_FLAG_def)

text \<open>The codes are distinct.\<close>

definition all_errors :: "error list" where
  "all_errors =
     [ERROR_BAD_DER,
      ERROR_CA_CERT_INVALID,
      ERROR_BAD_SIGNATURE,
      ERROR_CERT_BAD_ACCESS_LOCATION,
      ERROR_CERT_NOT_IN_NAME_SPACE,
      ERROR_CERT_SIGNATURE_ALGORITHM_DISABLED,
      ERROR_CONNECT_REFUSED,
      ERROR_EXPIRED_CERTIFICATE,
      ERROR_EXTENSION_VALUE_INVALID,
      ERROR_INADEQUATE_CERT_TYPE,
      ERROR_INADEQUATE_KEY_USAGE,
      ERROR_INVALID_ALGORITHM,
      ERROR_INVALID_DER_TIME,
      ERROR_KEY_PINNING_FAILURE,
      ERROR_PATH_LEN_CONSTRAINT_INVALID,
      ERROR_POLICY_VALIDATION_FAILED,
      ERROR_REVOKED_CERTIFICATE,
      ERROR_UNKNOWN_CRITICAL_EXTENSION,
      ERROR_UNKNOWN_ERROR,
      ERROR_UNKNOWN_ISSUER,
      ERROR_UNTRUSTED_CERT,
      ERROR_UNTRUSTED_ISSUER,
      ERROR_OCSP_BAD_SIGNATURE,
      ERROR_OCSP_INVALID_SIGNING_CERT,
      ERROR_OCSP_MALFORMED_REQUEST,
      ERROR_OCSP_MALFORMED_RESPONSE,
      ERROR_OCSP_OLD_RESPONSE,
      ERROR_OCSP_REQUEST_NEEDS_SIG,
      ERROR_OCSP_RESPONDER_CERT_INVALID,
      ERROR_OCSP_SERVER_ERROR,
      ERROR_OCSP_TRY_SERVER_LATER,
      ERROR_OCSP_UNAUTHORIZED_REQUEST,
      ERROR_OCSP_UNKNOWN_RESPONSE_STATUS,
      ERROR_OCSP_UNKNOWN_CERT,
      ERROR_OCSP_FUTURE_RESPONSE,
      ERROR_INVALID_KEY,
      ERROR_UNSUPPORTED_KEYALG,
      ERROR_EXPIRED_ISSUER_CERTIFICATE,
      ERROR_CA_CERT_USED_AS_END_ENTITY,
      ERROR_INADEQUATE_KEY_SIZE,
      ERROR_V1_CERT_USED_AS_CA,
      ERROR_BAD_CERT_DOMAIN,
      ERROR_NO_RFC822NAME_MATCH,
      ERROR_UNSUPPORTED_ELLIPTIC_CURVE,
      ERROR_NOT_YET_VALID_CERTIFICATE,
      ERROR_NOT_YET_VALID_ISSUER_CERTIFICATE,
      ERROR_UNSUPPORTED_EC_POINT_FORM,
      ERROR_SIGNATURE_ALGORITHM_MISMATCH,
      ERROR_OCSP_RESPONSE_FOR_CERT_MISSING,
      ERROR_VALIDITY_TOO_LONG,
      ERROR_REQUIRED_TLS_FEATURE_MISSING,
      ERROR_INVALID_INTEGER_ENCODING,
      ERROR_EMPTY_ISSUER_NAME,
      FATAL_ERROR_INVALID_ARGS,
      FATAL_ERROR_INVALID_STATE,
      FATAL_ERROR_LIBRARY_FAILURE,
      FATAL_ERROR_NO_MEMORY]"

lemma error_in_all: "e \<in> set all_errors"
  by (cases e) (simp_all add: all_errors_def)

lemma distinct_codes: "distinct (map error_code all_errors)"
  by (simp add: all_errors_def FATAL_ERROR_FLAG_def)

lemma error_code_inj: "error_code e = error_code f \<Longrightarrow> e = f"
  using distinct_codes error_in_all [of e] error_in_all [of f]
  by (auto simp: distinct_map dest: inj_onD)

lemma result_code_Success: "result_code rv = 0 \<longleftrightarrow> (\<exists>x. rv = Inr x)"
  by (cases rv) (simp_all add: result_code_def error_code_nonzero)

end
