(* ===== verification/PkixInput.thy ===== *)
theory PkixInput
  imports Prelude PkixResult
begin

text \<open>
  \<^verbatim>\<open>security/pkix/include/pkix/Input.h\<close>: the byte strings (\<open>Input\<close>) and the
  bounds-checked cursor (\<open>Reader\<close>) through which all of mozilla::pkix reads data.

  An \<open>Input\<close> is the list of its bytes; an \<open>Input\<close> that was default-constructed and
  not yet initialised is \<open>None\<close> where that state can be observed (\<open>Input_Init\<close>).
  A \<open>Reader\<close> keeps the array it was made from and the two pointers into it as
  indices; \<open>r_buf ! i\<close> is only reached through \<open>EnsureLength\<close>, and
  \<open>wf_Reader\<close> is what makes that check sufficient. An out-parameter of the code is
  a component of the result; on failure the code leaves the cursor undefined, and the
  model returns none.
\<close>

section \<open>Input\<close>

type_synonym Input = "u8 list"

definition MAX_INPUT :: nat where
  "MAX_INPUT = 0xffff"

fun Input_Init :: "Input option \<Rightarrow> u8 list option \<Rightarrow> Input res" where
  "Input_Init (Some _) _ = Inl FATAL_ERROR_INVALID_ARGS"
| "Input_Init None None = Inl ERROR_BAD_DER"
| "Input_Init None (Some data) =
     (if length data > MAX_INPUT then Inl ERROR_BAD_DER else Inr data)"

definition GetLength :: "Input \<Rightarrow> u16" where
  "GetLength i = of_nat (length i)"

definition InputsAreEqual :: "Input \<Rightarrow> Input \<Rightarrow> bool" where
  "InputsAreEqual a b \<longleftrightarrow>
     GetLength a = GetLength b \<and>
     take (unat (GetLength a)) a = take (unat (GetLength a)) b"

definition wf_Input :: "Input \<Rightarrow> bool" where
  "wf_Input i \<longleftrightarrow> length i \<le> MAX_INPUT"

section \<open>Reader\<close>

record Reader =
  r_buf :: "u8 list"
  r_input :: nat
  r_end :: nat

definition Reader_of :: "Input \<Rightarrow> Reader" where
  "Reader_of i = \<lparr>r_buf = i, r_input = 0, r_end = unat (GetLength i)\<rparr>"

definition EnsureLength :: "Reader \<Rightarrow> nat \<Rightarrow> unit res" where
  "EnsureLength r len = (if r_end r - r_input r < len then Inl ERROR_BAD_DER else Inr ())"

definition AtEnd :: "Reader \<Rightarrow> bool" where
  "AtEnd r \<longleftrightarrow> r_input r = r_end r"

definition Peek :: "Reader \<Rightarrow> u8 \<Rightarrow> bool" where
  "Peek r expectedByte \<longleftrightarrow> r_input r < r_end r \<and> r_buf r ! r_input r = expectedByte"

definition Read8 :: "Reader \<Rightarrow> (u8 \<times> Reader) res" where
  "Read8 r =
     (case EnsureLength r 1 of Inl e \<Rightarrow> Inl e | Inr _ \<Rightarrow>
      Inr (r_buf r ! r_input r, r\<lparr>r_input := r_input r + 1\<rparr>))"

definition Read16 :: "Reader \<Rightarrow> (u16 \<times> Reader) res" where
  "Read16 r =
     (case EnsureLength r 2 of Inl e \<Rightarrow> Inl e | Inr _ \<Rightarrow>
      let out = (ucast (r_buf r ! r_input r) :: u16);
          out = push_bit 8 out;
          out = out OR ucast (r_buf r ! (r_input r + 1))
      in Inr (out, r\<lparr>r_input := r_input r + 2\<rparr>))"

text \<open>Both overloads of \<open>MatchRest\<close> compare the whole rest with a given byte string
  and move to the end if it is equal; a fixed array knows its length, an \<open>Input\<close>
  reports it.\<close>

definition MatchRest :: "Reader \<Rightarrow> u8 list \<Rightarrow> bool \<times> Reader" where
  "MatchRest r toMatch =
     (if r_end r - r_input r \<noteq> length toMatch then (False, r)
      else if take (r_end r - r_input r) (drop (r_input r) (r_buf r)) \<noteq> toMatch then (False, r)
      else (True, r\<lparr>r_input := r_end r\<rparr>))"

definition MatchRestInput :: "Reader \<Rightarrow> Input \<Rightarrow> bool \<times> Reader" where
  "MatchRestInput r toMatch =
     (let remaining = r_end r - r_input r in
      if unat (GetLength toMatch) \<noteq> remaining then (False, r)
      else if take remaining (drop (r_input r) (r_buf r)) \<noteq> take remaining toMatch then (False, r)
      else (True, r\<lparr>r_input := r_end r\<rparr>))"

definition Skip :: "Reader \<Rightarrow> nat \<Rightarrow> Reader res" where
  "Skip r len =
     (case EnsureLength r len of Inl e \<Rightarrow> Inl e | Inr _ \<Rightarrow>
      Inr (r\<lparr>r_input := r_input r + len\<rparr>))"

text \<open>The private \<open>Reader::Init\<close> of the second overload points the fresh reader into
  the same array.\<close>

definition SkipReader :: "Reader \<Rightarrow> nat \<Rightarrow> (Reader \<times> Reader) res" where
  "SkipReader r len =
     (case EnsureLength r len of Inl e \<Rightarrow> Inl e | Inr _ \<Rightarrow>
      Inr (\<lparr>r_buf = r_buf r, r_input = r_input r, r_end = r_input r + len\<rparr>,
           r\<lparr>r_input := r_input r + len\<rparr>))"

definition SkipInput :: "Reader \<Rightarrow> nat \<Rightarrow> (Input \<times> Reader) res" where
  "SkipInput r len =
     (case EnsureLength r len of Inl e \<Rightarrow> Inl e | Inr _ \<Rightarrow>
      case Input_Init None (Some (take len (drop (r_input r) (r_buf r)))) of
        Inl e \<Rightarrow> Inl e
      | Inr skipped \<Rightarrow> Inr (skipped, r\<lparr>r_input := r_input r + len\<rparr>))"

definition SkipToEnd :: "Reader \<Rightarrow> Reader" where
  "SkipToEnd r = r\<lparr>r_input := r_end r\<rparr>"

definition SkipToEndInput :: "Reader \<Rightarrow> (Input \<times> Reader) res" where
  "SkipToEndInput r = SkipInput r (unat (of_nat (r_end r - r_input r) :: u16))"

definition GetMark :: "Reader \<Rightarrow> nat" where
  "GetMark r = r_input r"

definition GetInput :: "Reader \<Rightarrow> nat \<Rightarrow> Input res" where
  "GetInput r mark =
     (if mark > r_input r then Inl FATAL_ERROR_INVALID_ARGS
      else Input_Init None
             (Some (take (unat (of_nat (r_input r - mark) :: u16)) (drop mark (r_buf r)))))"

text \<open>The loop of \<open>InputContains\<close>: read a byte until the read fails or the byte is found.\<close>

function InputContains_loop :: "Reader \<Rightarrow> u8 \<Rightarrow> bool" where
  "InputContains_loop r toFind =
     (case Read8 r of
        Inl e \<Rightarrow> False
      | Inr (b, r') \<Rightarrow> if b = toFind then True else InputContains_loop r' toFind)"
  by pat_completeness auto
termination
  by (relation "measure (\<lambda>(r, _). r_end r - r_input r)")
    (auto simp: Read8_def EnsureLength_def split: sum.splits if_splits)

declare InputContains_loop.simps [simp del]

definition InputContains :: "Input \<Rightarrow> u8 \<Rightarrow> bool" where
  "InputContains i toFind = InputContains_loop (Reader_of i) toFind"

section \<open>The bytes a reader has left\<close>

definition wf_Reader :: "Reader \<Rightarrow> bool" where
  "wf_Reader r \<longleftrightarrow>
     r_input r \<le> r_end r \<and> r_end r \<le> length (r_buf r) \<and> r_end r - r_input r \<le> MAX_INPUT"

definition remaining :: "Reader \<Rightarrow> u8 list" where
  "remaining r = take (r_end r - r_input r) (drop (r_input r) (r_buf r))"

definition advance :: "nat \<Rightarrow> Reader \<Rightarrow> Reader" where
  "advance n r = r\<lparr>r_input := r_input r + n\<rparr>"

lemma advance_0 [simp]: "advance 0 r = r"
  by (simp add: advance_def)

lemma advance_advance [simp]: "advance m (advance n r) = advance (n + m) r"
  by (simp add: advance_def)

lemma remaining_advance [simp]: "remaining (advance n r) = drop n (remaining r)"
  by (simp add: remaining_def advance_def drop_take add.commute)

lemma length_remaining: "wf_Reader r \<Longrightarrow> length (remaining r) = r_end r - r_input r"
  by (auto simp: wf_Reader_def remaining_def)

lemma length_remaining_le: "wf_Reader r \<Longrightarrow> length (remaining r) \<le> MAX_INPUT"
  by (simp add: length_remaining wf_Reader_def)

lemma wf_advance [simp]:
  "wf_Reader r \<Longrightarrow> n \<le> length (remaining r) \<Longrightarrow> wf_Reader (advance n r)"
  by (auto simp: length_remaining) (auto simp: wf_Reader_def advance_def)

lemma r_end_advance [simp]: "r_end (advance n r) = r_end r"
  and r_buf_advance [simp]: "r_buf (advance n r) = r_buf r"
  and r_input_advance [simp]: "r_input (advance n r) = r_input r + n"
  by (simp_all add: advance_def)

lemma GetLength_wf [simp]: "wf_Input i \<Longrightarrow> unat (GetLength i) = length i"
  by (simp add: GetLength_def wf_Input_def MAX_INPUT_def unat_of_nat_u16)

lemma wf_Reader_of [simp]: "wf_Input i \<Longrightarrow> wf_Reader (Reader_of i)"
  by (simp add: wf_Reader_def Reader_of_def) (simp add: wf_Input_def)

lemma remaining_Reader_of [simp]: "wf_Input i \<Longrightarrow> remaining (Reader_of i) = i"
  by (simp add: remaining_def Reader_of_def)

lemma InputsAreEqual_iff:
  "wf_Input a \<Longrightarrow> wf_Input b \<Longrightarrow> InputsAreEqual a b \<longleftrightarrow> a = b"
  unfolding InputsAreEqual_def by (metis GetLength_wf take_all order_refl)

lemma wf_Input_Init:
  "Input_Init old data = Inr i \<longleftrightarrow> old = None \<and> data = Some i \<and> wf_Input i"
  by (cases "(old, data)" rule: Input_Init.cases) (auto simp: wf_Input_def)

section \<open>Each operation, on the bytes left\<close>

lemma remaining_Nil: "wf_Reader r \<Longrightarrow> remaining r = [] \<longleftrightarrow> r_input r = r_end r"
  by (metis length_remaining length_0_conv diff_is_0_eq le_antisym wf_Reader_def order_refl)

lemma remaining_unfold:
  "wf_Reader r \<Longrightarrow> r_input r < r_end r \<Longrightarrow>
     remaining r = r_buf r ! r_input r # remaining (advance 1 r)"
  using hd_take_drop [of "r_end r - r_input r" "r_input r" "r_buf r"]
  by (simp add: remaining_def wf_Reader_def)

lemma AtEnd_iff [reader_spec]: "wf_Reader r \<Longrightarrow> AtEnd r \<longleftrightarrow> remaining r = []"
  by (simp add: AtEnd_def remaining_Nil)

lemma EnsureLength_spec [reader_spec]:
  "wf_Reader r \<Longrightarrow>
     EnsureLength r n = (if length (remaining r) < n then Inl ERROR_BAD_DER else Inr ())"
  by (simp add: EnsureLength_def length_remaining)

lemma Peek_iff [reader_spec]:
  "wf_Reader r \<Longrightarrow> Peek r b \<longleftrightarrow> (\<exists>bs. remaining r = b # bs)"
  by (metis Peek_def remaining_unfold remaining_Nil list.inject list.distinct(1)
      le_neq_implies_less wf_Reader_def)

lemma Read8_spec [reader_spec]:
  "wf_Reader r \<Longrightarrow>
     Read8 r = (case remaining r of [] \<Rightarrow> Inl ERROR_BAD_DER | b # _ \<Rightarrow> Inr (b, advance 1 r))"
proof (cases "r_input r < r_end r")
  case True
  assume wf: "wf_Reader r"
  show ?thesis
    unfolding remaining_unfold [OF wf True] using True
    by (simp add: Read8_def EnsureLength_def advance_def)
next
  case False
  assume wf: "wf_Reader r"
  with False have "remaining r = []" by (simp add: remaining_Nil wf_Reader_def)
  with False show ?thesis by (simp add: Read8_def EnsureLength_def)
qed

lemma Read16_spec [reader_spec]:
  assumes wf: "wf_Reader r"
  shows "Read16 r =
     (case remaining r of
        hi # lo # _ \<Rightarrow> Inr ((push_bit 8 (ucast hi)) OR ucast lo, advance 2 r)
      | _ \<Rightarrow> Inl ERROR_BAD_DER)"
proof (cases "length (remaining r) < 2")
  case True
  then show ?thesis
    by (cases "remaining r"; cases "tl (remaining r)")
      (auto simp: Read16_def EnsureLength_spec [OF wf])
next
  case False
  then have lt: "r_input r < r_end r" and lt': "r_input r + 1 < r_end r"
    using wf by (auto simp: length_remaining)
  have wf': "wf_Reader (advance 1 r)" using wf False by simp
  have e: "remaining (advance 1 r) = r_buf r ! (r_input r + 1) # remaining (advance 1 (advance 1 r))"
    using remaining_unfold [OF wf'] lt' by (simp del: remaining_advance)
  have "remaining r = r_buf r ! r_input r # r_buf r ! (r_input r + 1) # remaining (advance 1 (advance 1 r))"
    using remaining_unfold [OF wf lt] unfolding e .
  then obtain bs where "remaining r = r_buf r ! r_input r # r_buf r ! (r_input r + 1) # bs" ..
  moreover from False have "EnsureLength r 2 = Inr ()"
    by (simp add: EnsureLength_spec [OF wf])
  ultimately show ?thesis
    by (simp add: Read16_def Let_def advance_def)
qed

lemma MatchRest_spec [reader_spec]:
  "wf_Reader r \<Longrightarrow>
     MatchRest r bs = (if remaining r = bs then (True, advance (length bs) r) else (False, r))"
proof -
  assume wf: "wf_Reader r"
  have rest: "take (r_end r - r_input r) (drop (r_input r) (r_buf r)) = remaining r"
    by (simp add: remaining_def)
  show ?thesis
  proof (cases "remaining r = bs")
    case True
    then have "r\<lparr>r_input := r_end r\<rparr> = advance (length bs) r"
      using length_remaining [OF wf] wf by (simp add: advance_def wf_Reader_def)
    with True show ?thesis
      unfolding MatchRest_def rest using length_remaining [OF wf] by simp
  next
    case False
    then show ?thesis unfolding MatchRest_def rest by simp
  qed
qed

lemma MatchRestInput_spec [reader_spec]:
  "wf_Reader r \<Longrightarrow> wf_Input i \<Longrightarrow>
     MatchRestInput r i = (if remaining r = i then (True, advance (length i) r) else (False, r))"
proof -
  assume wf: "wf_Reader r" and wi: "wf_Input i"
  have "MatchRestInput r i = MatchRest r i"
    using wi by (auto simp: MatchRestInput_def MatchRest_def Let_def)
  with wf show ?thesis by (simp add: MatchRest_spec)
qed

lemma Skip_spec [reader_spec]:
  "wf_Reader r \<Longrightarrow>
     Skip r n = (if length (remaining r) < n then Inl ERROR_BAD_DER else Inr (advance n r))"
  by (simp add: Skip_def EnsureLength_spec advance_def)

lemma take_drop_remaining:
  "wf_Reader r \<Longrightarrow> n \<le> length (remaining r) \<Longrightarrow>
     take n (drop (r_input r) (r_buf r)) = take n (remaining r)"
  by (simp add: length_remaining) (simp add: remaining_def min_def)

lemma SkipInput_spec [reader_spec]:
  assumes wf: "wf_Reader r"
  shows "SkipInput r n =
     (if length (remaining r) < n then Inl ERROR_BAD_DER
      else Inr (take n (remaining r), advance n r))"
proof (cases "length (remaining r) < n")
  case True
  then show ?thesis by (simp add: SkipInput_def EnsureLength_spec [OF wf])
next
  case False
  then have "take n (drop (r_input r) (r_buf r)) = take n (remaining r)"
    using wf by (intro take_drop_remaining) auto
  moreover have "length (take n (remaining r)) \<le> MAX_INPUT"
    using length_remaining_le [OF wf] by simp
  ultimately show ?thesis
    using False by (simp add: SkipInput_def EnsureLength_spec [OF wf] advance_def)
qed

lemma SkipToEnd_spec [reader_spec]:
  "wf_Reader r \<Longrightarrow> SkipToEnd r = advance (length (remaining r)) r"
  by (simp add: SkipToEnd_def length_remaining advance_def wf_Reader_def)

lemma SkipToEndInput_spec [reader_spec]:
  assumes wf: "wf_Reader r"
  shows "SkipToEndInput r = Inr (remaining r, advance (length (remaining r)) r)"
proof -
  have "unat (of_nat (r_end r - r_input r) :: u16) = length (remaining r)"
    using wf length_remaining_le [OF wf]
    by (simp add: length_remaining [symmetric] MAX_INPUT_def unat_of_nat_u16)
  then show ?thesis
    by (simp add: SkipToEndInput_def SkipInput_spec [OF wf])
qed

lemma SkipReader_spec:
  assumes wf: "wf_Reader r" and "SkipReader r n = Inr (s, r')"
  shows "n \<le> length (remaining r) \<and> wf_Reader s \<and> remaining s = take n (remaining r) \<and>
         r' = advance n r"
  using assms
  by (auto simp: SkipReader_def EnsureLength_spec length_remaining split: if_splits)
    (auto simp: wf_Reader_def remaining_def advance_def min_def)

lemma GetInput_spec:
  assumes wf: "wf_Reader r" and n: "n \<le> length (remaining r)"
  shows "GetInput (advance n r) (GetMark r) = Inr (take n (remaining r))"
proof -
  have "n \<le> MAX_INPUT" using n length_remaining_le [OF wf] by simp
  then have "unat (of_nat n :: u16) = n" by (simp add: MAX_INPUT_def unat_of_nat_u16)
  then show ?thesis
    using take_drop_remaining [OF wf n] n length_remaining_le [OF wf]
    by (simp add: GetInput_def GetMark_def wf_Input_Init wf_Input_def)
qed

lemma InputContains_loop_spec:
  "wf_Reader r \<Longrightarrow> InputContains_loop r b \<longleftrightarrow> b \<in> set (remaining r)"
proof (induction r b rule: InputContains_loop.induct)
  case (1 r b)
  show ?case
  proof (cases "remaining r")
    case Nil
    with 1 show ?thesis by (subst InputContains_loop.simps) (simp add: reader_spec)
  next
    case (Cons c cs)
    then have rd: "Read8 r = Inr (c, advance 1 r)" using 1 by (simp add: reader_spec)
    show ?thesis
    proof (cases "c = b")
      case True
      with rd Cons show ?thesis by (subst InputContains_loop.simps) simp
    next
      case False
      with rd Cons 1 have "InputContains_loop (advance 1 r) b \<longleftrightarrow> b \<in> set cs" by simp
      with rd Cons False show ?thesis by (subst InputContains_loop.simps) simp
    qed
  qed
qed

lemma InputContains_iff: "wf_Input i \<Longrightarrow> InputContains i b \<longleftrightarrow> b \<in> set i"
  by (simp add: InputContains_def InputContains_loop_spec)

section \<open>Moving forward\<close>

text \<open>\<open>reads r r'\<close>: \<open>r'\<close> is \<open>r\<close> moved forward by bytes that \<open>r\<close> had left. Every
  operation that succeeds returns such a reader, which is the memory-safety contract of
  a decoder: it is an interface, because \<open>der::Nested\<close> and \<open>der::NestedOf\<close> call whatever
  decoder they are given.\<close>

definition reads :: "Reader \<Rightarrow> Reader \<Rightarrow> bool" where
  "reads r r' \<longleftrightarrow> (\<exists>n \<le> length (remaining r). r' = advance n r)"

lemma reads_refl [simp, intro]: "reads r r"
  unfolding reads_def by (metis advance_0 le0)

lemma reads_advance [intro]: "n \<le> length (remaining r) \<Longrightarrow> reads r (advance n r)"
  unfolding reads_def by blast

lemma reads_trans [trans]: "reads r s \<Longrightarrow> reads s t \<Longrightarrow> reads r t"
  unfolding reads_def
  by (metis advance_advance length_drop remaining_advance Nat.le_diff_conv2 add.commute)

lemma reads_wf: "reads r r' \<Longrightarrow> wf_Reader r \<Longrightarrow> wf_Reader r'"
  unfolding reads_def by auto

lemma reads_suffix: "reads r r' \<Longrightarrow> \<exists>bs. remaining r = bs @ remaining r'"
  unfolding reads_def by (metis append_take_drop_id remaining_advance)

locale decoder =
  fixes p :: "Reader \<Rightarrow> ('a \<times> Reader) res"
  assumes reads_ok: "wf_Reader r \<Longrightarrow> p r = Inr (x, r') \<Longrightarrow> reads r r'"
begin

lemma wf_ok: "wf_Reader r \<Longrightarrow> p r = Inr (x, r') \<Longrightarrow> wf_Reader r'"
  using reads_ok reads_wf by blast

lemma suffix_ok: "wf_Reader r \<Longrightarrow> p r = Inr (x, r') \<Longrightarrow> \<exists>bs. remaining r = bs @ remaining r'"
  using reads_ok reads_suffix by blast

lemma no_overrun:
  assumes "wf_Reader r" "p r = Inr (x, r')"
  shows "r_input r \<le> r_input r' \<and> r_input r' \<le> r_end r' \<and> r_end r' \<le> length (r_buf r') \<and>
         r_buf r' = r_buf r \<and> r_end r' = r_end r"
proof -
  have "reads r r'" "wf_Reader r'" using assms reads_ok wf_ok by blast+
  then show ?thesis unfolding reads_def wf_Reader_def by auto
qed

end

interpretation read8: decoder Read8
  by unfold_locales (auto simp: Read8_spec intro!: reads_advance split: list.splits)

interpretation read16: decoder Read16
  by unfold_locales (auto simp: Read16_spec intro!: reads_advance split: list.splits)

interpretation skip_input: decoder "\<lambda>r. SkipInput r n"
  by unfold_locales (auto simp: SkipInput_spec intro!: reads_advance split: if_splits)

interpretation skip_to_end: decoder SkipToEndInput
  by unfold_locales (auto simp: SkipToEndInput_spec intro!: reads_advance)

lemmas [consumes] =
  read8.reads_ok read16.reads_ok skip_input.reads_ok skip_to_end.reads_ok

end
