(* ===== verification/PkixDer.thy ===== *)
theory PkixDer
  imports PkixInput
begin

text \<open>
  \<^verbatim>\<open>security/pkix/lib/pkixder.h\<close> and the type-independent part of
  \<^verbatim>\<open>pkixder.cpp\<close>: the DER tag-length-value decoder, its \<open>Nested\<close> and
  \<open>NestedOf\<close> combinators, and the decoders of the universal types but for the two
  time types (theory \<open>PkixDerTime\<close>). A decoder that the code passes as a lambda is
  an argument here; the variables the lambda captures by reference are the value it
  returns.

  \<open>parse_tlv\<close> and \<open>encode_tlv\<close> are the abstract specification: what a TLV at the front
  of a byte string is, and its only accepted encoding.
\<close>

section \<open>Tags\<close>

definition UNIVERSAL :: u8 where
  "UNIVERSAL = push_bit 6 0"

definition CONTEXT_SPECIFIC :: u8 where
  "CONTEXT_SPECIFIC = push_bit 6 2"

definition CONSTRUCTED :: u8 where
  "CONSTRUCTED = push_bit 5 1"

definition BOOLEAN :: u8 where "BOOLEAN = UNIVERSAL OR 0x01"
definition INTEGER :: u8 where "INTEGER = UNIVERSAL OR 0x02"
definition BIT_STRING :: u8 where "BIT_STRING = UNIVERSAL OR 0x03"
definition OCTET_STRING :: u8 where "OCTET_STRING = UNIVERSAL OR 0x04"
definition NULLTag :: u8 where "NULLTag = UNIVERSAL OR 0x05"
definition OIDTag :: u8 where "OIDTag = UNIVERSAL OR 0x06"
definition ENUMERATED :: u8 where "ENUMERATED = UNIVERSAL OR 0x0a"
definition UTF8String :: u8 where "UTF8String = UNIVERSAL OR 0x0c"
definition SEQUENCE :: u8 where "SEQUENCE = UNIVERSAL OR CONSTRUCTED OR 0x10"
definition SET :: u8 where "SET = UNIVERSAL OR CONSTRUCTED OR 0x11"
definition PrintableString :: u8 where "PrintableString = UNIVERSAL OR 0x13"
definition TeletexString :: u8 where "TeletexString = UNIVERSAL OR 0x14"
definition IA5String :: u8 where "IA5String = UNIVERSAL OR 0x16"
definition UTCTime :: u8 where "UTCTime = UNIVERSAL OR 0x17"
definition GENERALIZED_TIME :: u8 where "GENERALIZED_TIME = UNIVERSAL OR 0x18"

datatype EmptyAllowed = EmptyAllowed_No | EmptyAllowed_Yes

lemma tag_values [simp]:
  "UNIVERSAL = 0" "CONTEXT_SPECIFIC = 0x80" "CONSTRUCTED = 0x20"
  "BOOLEAN = 0x01" "INTEGER = 0x02" "BIT_STRING = 0x03" "OCTET_STRING = 0x04"
  "NULLTag = 0x05" "OIDTag = 0x06" "ENUMERATED = 0x0a" "UTF8String = 0x0c"
  "SEQUENCE = 0x30" "SET = 0x31" "PrintableString = 0x13" "TeletexString = 0x14"
  "IA5String = 0x16" "UTCTime = 0x17" "GENERALIZED_TIME = 0x18"
  by (simp_all add: UNIVERSAL_def CONTEXT_SPECIFIC_def CONSTRUCTED_def BOOLEAN_def INTEGER_def
      BIT_STRING_def OCTET_STRING_def NULLTag_def OIDTag_def ENUMERATED_def UTF8String_def
      SEQUENCE_def SET_def PrintableString_def TeletexString_def IA5String_def UTCTime_def
      GENERALIZED_TIME_def)

section \<open>Tag, length and value\<close>

definition ReadLength :: "Reader \<Rightarrow> (u16 \<times> Reader) res" where
  "ReadLength r =
     (case Read8 r of Inl e \<Rightarrow> Inl e | Inr (length1, r) \<Rightarrow>
      if length1 AND 0x80 = 0 then Inr (ucast length1, r)
      else if length1 = 0x81 then
        (case Read8 r of Inl e \<Rightarrow> Inl e | Inr (length2, r) \<Rightarrow>
         if length2 < 128 then Inl ERROR_BAD_DER
         else Inr (ucast length2, r))
      else if length1 = 0x82 then
        (case Read16 r of Inl e \<Rightarrow> Inl e | Inr (len, r) \<Rightarrow>
         if len < 256 then Inl ERROR_BAD_DER
         else Inr (len, r))
      else Inl ERROR_BAD_DER)"

definition ReadTagAndGetValue :: "Reader \<Rightarrow> (u8 \<times> Input \<times> Reader) res" where
  "ReadTagAndGetValue r =
     (case Read8 r of Inl e \<Rightarrow> Inl e | Inr (tag, r) \<Rightarrow>
      if tag AND 0x1F = 0x1F then Inl ERROR_BAD_DER
      else
        case ReadLength r of Inl e \<Rightarrow> Inl e | Inr (len, r) \<Rightarrow>
        case SkipInput r (unat len) of Inl e \<Rightarrow> Inl e | Inr (v, r) \<Rightarrow>
        Inr (tag, v, r))"

definition ExpectTagAndGetValue :: "Reader \<Rightarrow> u8 \<Rightarrow> (Input \<times> Reader) res" where
  "ExpectTagAndGetValue r tag =
     (case ReadTagAndGetValue r of Inl e \<Rightarrow> Inl e | Inr (actualTag, v, r) \<Rightarrow>
      if tag \<noteq> actualTag then Inl ERROR_BAD_DER else Inr (v, r))"

text \<open>The overload with a \<open>Reader\<close> out-parameter. Every caller passes a fresh reader,
  so \<open>value.Init\<close> succeeds.\<close>

definition ExpectTagAndGetReader :: "Reader \<Rightarrow> u8 \<Rightarrow> (Reader \<times> Reader) res" where
  "ExpectTagAndGetReader r tag =
     (case ExpectTagAndGetValue r tag of Inl e \<Rightarrow> Inl e | Inr (v, r) \<Rightarrow>
      Inr (Reader_of v, r))"

definition End :: "Reader \<Rightarrow> unit res" where
  "End r = (if \<not> AtEnd r then Inl ERROR_BAD_DER else Inr ())"

definition ExpectTagAndEmptyValue :: "Reader \<Rightarrow> u8 \<Rightarrow> Reader res" where
  "ExpectTagAndEmptyValue r tag =
     (case ExpectTagAndGetReader r tag of Inl e \<Rightarrow> Inl e | Inr (v, r) \<Rightarrow>
      case End v of Inl e \<Rightarrow> Inl e | Inr _ \<Rightarrow> Inr r)"

definition ExpectTagAndSkipValue :: "Reader \<Rightarrow> u8 \<Rightarrow> Reader res" where
  "ExpectTagAndSkipValue r tag =
     (case ExpectTagAndGetValue r tag of Inl e \<Rightarrow> Inl e | Inr (ignoredValue, r) \<Rightarrow> Inr r)"

definition ExpectTagAndGetTLV :: "Reader \<Rightarrow> u8 \<Rightarrow> (Input \<times> Reader) res" where
  "ExpectTagAndGetTLV r tag =
     (let mark = GetMark r in
      case ExpectTagAndSkipValue r tag of Inl e \<Rightarrow> Inl e | Inr r \<Rightarrow>
      case GetInput r mark of Inl e \<Rightarrow> Inl e | Inr tlv \<Rightarrow> Inr (tlv, r))"

definition Nested :: "Reader \<Rightarrow> u8 \<Rightarrow> (Reader \<Rightarrow> ('a \<times> Reader) res) \<Rightarrow> ('a \<times> Reader) res" where
  "Nested r tag dec =
     (case ExpectTagAndGetReader r tag of Inl e \<Rightarrow> Inl e | Inr (nested, r) \<Rightarrow>
      case dec nested of Inl e \<Rightarrow> Inl e | Inr (x, nested) \<Rightarrow>
      case End nested of Inl e \<Rightarrow> Inl e | Inr _ \<Rightarrow> Inr (x, r))"

definition Nested2 ::
  "Reader \<Rightarrow> u8 \<Rightarrow> u8 \<Rightarrow> (Reader \<Rightarrow> ('a \<times> Reader) res) \<Rightarrow> ('a \<times> Reader) res" where
  "Nested2 r outerTag innerTag dec =
     (case ExpectTagAndGetReader r outerTag of Inl e \<Rightarrow> Inl e | Inr (nestedInput, r) \<Rightarrow>
      case Nested nestedInput innerTag dec of Inl e \<Rightarrow> Inl e | Inr (x, nestedInput) \<Rightarrow>
      case End nestedInput of Inl e \<Rightarrow> Inl e | Inr _ \<Rightarrow> Inr (x, r))"

text \<open>Reading a TLV shortens what is left, whatever the reader: this is what ends the
  loop of \<open>NestedOf\<close>.\<close>

lemma Read8_shrinks:
  "Read8 r = Inr (b, r') \<Longrightarrow> r_end r' = r_end r \<and> r_input r' = r_input r + 1 \<and> r_input r < r_end r"
  by (auto simp: Read8_def EnsureLength_def split: if_splits)

lemma Read16_shrinks:
  "Read16 r = Inr (b, r') \<Longrightarrow> r_end r' = r_end r \<and> r_input r \<le> r_input r'"
  by (auto simp: Read16_def EnsureLength_def Let_def split: if_splits)

lemma ReadTagAndGetValue_shrinks:
  assumes "ReadTagAndGetValue r = Inr (t, v, r')"
  shows "r_end r' = r_end r \<and> r_input r < r_input r' \<and> r_input r < r_end r"
proof -
  have len: "r_end s' = r_end s \<and> r_input s \<le> r_input s'" if "ReadLength s = Inr (n, s')" for s n s'
    using that
    by (auto simp: ReadLength_def split: sum.splits if_splits dest!: Read8_shrinks Read16_shrinks)
  show ?thesis
    using assms
    by (fastforce simp: ReadTagAndGetValue_def SkipInput_def
        split: sum.splits if_splits dest!: Read8_shrinks len)
qed

lemma Nested_shrinks:
  assumes "Nested r t d = Inr (x, r')"
  shows "r_end r' - r_input r' < r_end r - r_input r"
proof -
  obtain t' v where "ReadTagAndGetValue r = Inr (t', v, r')"
    using assms
    by (auto simp: Nested_def ExpectTagAndGetReader_def ExpectTagAndGetValue_def
        split: sum.splits if_splits prod.splits)
  from ReadTagAndGetValue_shrinks [OF this] show ?thesis by linarith
qed

function NestedOf_loop ::
  "Reader \<Rightarrow> u8 \<Rightarrow> ('s \<Rightarrow> Reader \<Rightarrow> ('s \<times> Reader) res) \<Rightarrow> 's \<Rightarrow> 's res" where
  "NestedOf_loop inner innerTag dec s =
     (case Nested inner innerTag (dec s) of Inl e \<Rightarrow> Inl e | Inr (s', inner') \<Rightarrow>
      if \<not> AtEnd inner' then NestedOf_loop inner' innerTag dec s' else Inr s')"
  by pat_completeness auto
termination
  by (relation "measure (\<lambda>(r, _, _, _). r_end r - r_input r)") (auto dest: Nested_shrinks)

declare NestedOf_loop.simps [simp del]

definition NestedOf ::
  "Reader \<Rightarrow> u8 \<Rightarrow> u8 \<Rightarrow> EmptyAllowed \<Rightarrow> ('s \<Rightarrow> Reader \<Rightarrow> ('s \<times> Reader) res) \<Rightarrow> 's \<Rightarrow>
     ('s \<times> Reader) res" where
  "NestedOf r outerTag innerTag mayBeEmpty dec s =
     (case ExpectTagAndGetReader r outerTag of Inl e \<Rightarrow> Inl e | Inr (inner, r) \<Rightarrow>
      if AtEnd inner then
        (if mayBeEmpty \<noteq> EmptyAllowed_Yes then Inl ERROR_BAD_DER else Inr (s, r))
      else
        case NestedOf_loop inner innerTag dec s of Inl e \<Rightarrow> Inl e | Inr s' \<Rightarrow> Inr (s', r))"

definition ExpectTagAndGetValueAtEnd :: "Input \<Rightarrow> u8 \<Rightarrow> Reader res" where
  "ExpectTagAndGetValueAtEnd outer expectedTag =
     (case ExpectTagAndGetReader (Reader_of outer) expectedTag of Inl e \<Rightarrow> Inl e
      | Inr (inner, outerReader) \<Rightarrow>
        case End outerReader of Inl e \<Rightarrow> Inl e | Inr _ \<Rightarrow> Inr inner)"

section \<open>The abstract specification of a TLV\<close>

definition encode_length :: "nat \<Rightarrow> u8 list" where
  "encode_length n =
     (if n < 128 then [of_nat n]
      else if n < 256 then [0x81, of_nat n]
      else [0x82, of_nat (n div 256), of_nat (n mod 256)])"

definition encode_tlv :: "u8 \<Rightarrow> u8 list \<Rightarrow> u8 list" where
  "encode_tlv t v = t # encode_length (length v) @ v"

fun parse_len :: "u8 list \<Rightarrow> error + (nat \<times> nat)" where
  "parse_len [] = Inl ERROR_BAD_DER"
| "parse_len (l1 # bs) =
     (if unat l1 < 128 then Inr (unat l1, 1)
      else if l1 = 0x81 then
        (case bs of [] \<Rightarrow> Inl ERROR_BAD_DER
         | l2 # _ \<Rightarrow> if unat l2 < 128 then Inl ERROR_BAD_DER else Inr (unat l2, 2))
      else if l1 = 0x82 then
        (case bs of hi # lo # _ \<Rightarrow>
           let n = 256 * unat hi + unat lo in
           if n < 256 then Inl ERROR_BAD_DER else Inr (n, 3)
         | _ \<Rightarrow> Inl ERROR_BAD_DER)
      else Inl ERROR_BAD_DER)"

fun parse_tlv :: "u8 list \<Rightarrow> error + (u8 \<times> u8 list \<times> nat)" where
  "parse_tlv [] = Inl ERROR_BAD_DER"
| "parse_tlv (t # bs) =
     (if t AND 0x1F = 0x1F then Inl ERROR_BAD_DER
      else case parse_len bs of Inl e \<Rightarrow> Inl e | Inr (n, k) \<Rightarrow>
        if length bs < k + n then Inl ERROR_BAD_DER
        else Inr (t, take n (drop k bs), Suc (k + n)))"

lemma odd_div_128: "(n :: nat) < 256 \<Longrightarrow> odd (n div 128) \<longleftrightarrow> \<not> n < 128"
proof (cases "n < 128")
  case False
  assume "n < 256"
  with False have "n div 128 = 1" by linarith
  with False show ?thesis by simp
qed simp

lemma high_bit_clear_iff: "(b :: u8) AND 0x80 = 0 \<longleftrightarrow> unat b < 128"
proof -
  have "b AND 0x80 = 0 \<longleftrightarrow> \<not> bit b 7"
    using and_exp_eq_0_iff_not_bit [of b 7] by simp
  also have "bit b 7 \<longleftrightarrow> odd (unat b div 128)"
  proof -
    have "bit b 7 \<longleftrightarrow> bit (unat b) 7" by (simp add: bit_unsigned_iff)
    also have "\<dots> \<longleftrightarrow> odd (unat b div 2 ^ 7)" by (rule bit_iff_odd)
    finally show ?thesis by simp
  qed
  also have "(\<not> odd (unat b div 128)) \<longleftrightarrow> unat b < 128"
    by (simp add: odd_div_128 [OF unat_u8_less])
  finally show ?thesis .
qed

lemma ReadLength_spec:
  assumes wf: "wf_Reader r"
  shows "ReadLength r =
    (case parse_len (remaining r) of Inl e \<Rightarrow> Inl e | Inr (n, k) \<Rightarrow> Inr (of_nat n, advance k r))"
proof (cases "remaining r")
  case Nil
  then show ?thesis by (simp add: ReadLength_def Read8_spec [OF wf])
next
  case (Cons l1 bs)
  define s where "s = advance 1 r"
  have wf': "wf_Reader s" and rest: "remaining s = bs" using wf Cons by (simp_all add: s_def)
  have rd: "Read8 r = Inr (l1, s)" using Cons by (simp add: Read8_spec [OF wf] s_def)
  have adv: "advance 1 s = advance 2 r" "advance 2 s = advance 3 r" by (simp_all add: s_def)
  have lt: "(l2 :: u8) < 128 \<longleftrightarrow> unat l2 < 128" for l2 by (simp add: word_less_nat_alt)
  have lt16: "(w :: u16) < 256 \<longleftrightarrow> unat w < 256" for w by (simp add: word_less_nat_alt)
  have be: "(push_bit 8 (ucast hi) OR ucast lo :: u16) = 256 * ucast hi + ucast lo" for hi lo :: u8
  proof -
    have "(push_bit 8 (ucast hi) OR ucast lo :: u16) =
        of_nat (unat (push_bit 8 (ucast hi) OR ucast lo :: u16))"
      by simp
    then have "(push_bit 8 (ucast hi) OR ucast lo :: u16) = of_nat (256 * unat hi + unat lo)"
      by (simp only: be16_or_eq)
    then show ?thesis by simp
  qed
  have be': "unat (256 * ucast hi + ucast lo :: u16) = 256 * unat hi + unat lo" for hi lo :: u8
    by (simp only: be [symmetric] be16_or_eq)
  note R = ReadLength_def rd high_bit_clear_iff
  show ?thesis
  proof (cases "unat l1 < 128")
    case True
    then show ?thesis using Cons by (simp add: R s_def)
  next
    case False
    show ?thesis
      unfolding Cons
      using False
      by (simp add: R Read8_spec [OF wf'] Read16_spec [OF wf'] rest lt lt16 be be'
          adv [simplified] Let_def split: list.splits)
  qed
qed

lemma parse_len_bounds: "parse_len bs = Inr (n, k) \<Longrightarrow> n < 65536 \<and> k \<le> length bs"
proof (induction bs rule: parse_len.induct)
  case (2 l1 bs)
  have b: "unat (b :: u8) < 65536" "256 * unat (b :: u8) + unat (c :: u8) < 65536" for b c
    using unat_u8_less [of b] unat_u8_less [of c] by linarith+
  from 2 show ?case by (auto simp: Let_def b split: if_splits list.splits)
qed simp

lemma ReadTagAndGetValue_spec [reader_spec]:
  assumes wf: "wf_Reader r"
  shows "ReadTagAndGetValue r =
    (case parse_tlv (remaining r) of Inl e \<Rightarrow> Inl e | Inr (t, v, n) \<Rightarrow> Inr (t, v, advance n r))"
proof (cases "remaining r")
  case Nil
  then show ?thesis by (simp add: ReadTagAndGetValue_def Read8_spec [OF wf])
next
  case (Cons t bs)
  define s where "s = advance 1 r"
  have wf': "wf_Reader s" and rest: "remaining s = bs" using wf Cons by (simp_all add: s_def)
  have rd: "Read8 r = Inr (t, s)" using Cons by (simp add: Read8_spec [OF wf] s_def)
  show ?thesis
  proof (cases "parse_len bs")
    case (Inl e)
    then show ?thesis
      unfolding Cons by (simp add: ReadTagAndGetValue_def rd ReadLength_spec [OF wf'] rest)
  next
    case (Inr p)
    obtain n k where p: "p = (n, k)" by force
    with Inr have len: "parse_len bs = Inr (n, k)" by simp
    have n: "n < 65536" and k: "k \<le> length bs" using parse_len_bounds [OF len] by auto
    have wf'': "wf_Reader (advance k s)" using wf' k rest by simp
    have "length bs < k + n \<longleftrightarrow> length (drop k bs) < n" using k by auto
    then show ?thesis
      unfolding Cons
      by (simp add: ReadTagAndGetValue_def rd ReadLength_spec [OF wf'] rest len
          unat_of_nat_u16 [OF n] SkipInput_spec [OF wf'']) (simp add: s_def add.commute add.left_commute)
  qed
qed

lemma parse_tlv_encode:
  assumes "t AND 0x1F \<noteq> 0x1F" and len: "length v \<le> MAX_INPUT"
  shows "parse_tlv (encode_tlv t v @ rest) = Inr (t, v, length (encode_tlv t v))"
proof -
  have "parse_len (encode_length (length v) @ v @ rest) =
          Inr (length v, length (encode_length (length v)))"
    using len by (auto simp: encode_length_def Let_def unat_of_nat_u8 MAX_INPUT_def)
  then show ?thesis
    using assms(1) by (simp add: encode_tlv_def)
qed

text \<open>No encoding is the beginning of another.\<close>

lemma encode_tlv_prefix:
  assumes "encode_tlv t v @ rest = encode_tlv t' v' @ rest'" and "wf_Input v" and "wf_Input v'"
    and "t AND 0x1F \<noteq> 0x1F" and "t' AND 0x1F \<noteq> 0x1F"
  shows "t = t' \<and> v = v' \<and> rest = rest'"
proof -
  have "parse_tlv (encode_tlv t v @ rest) = Inr (t, v, length (encode_tlv t v))"
    "parse_tlv (encode_tlv t' v' @ rest') = Inr (t', v', length (encode_tlv t' v'))"
    using assms(2-5) by (simp_all add: parse_tlv_encode wf_Input_def)
  then show ?thesis using assms(1) by simp
qed

lemma parse_len_canonical:
  assumes "parse_len bs = Inr (n, k)"
  shows "take k bs = encode_length n \<and> k = length (encode_length n)"
  using assms
  by (cases bs)
    (auto simp: encode_length_def Let_def split: if_splits list.splits)

lemma parse_tlv_canonical:
  assumes "parse_tlv bs = Inr (t, v, n)"
  shows "t AND 0x1F \<noteq> 0x1F \<and> length v \<le> MAX_INPUT \<and> n = length (encode_tlv t v) \<and>
         take n bs = encode_tlv t v \<and> n \<le> length bs"
proof -
  obtain ds m k where bs: "bs = t # ds" and t: "t AND 0x1F \<noteq> 0x1F"
    and len: "parse_len ds = Inr (m, k)" and le: "k + m \<le> length ds"
    and v: "v = take m (drop k ds)" and n: "n = Suc (k + m)"
    using assms by (cases bs) (auto split: if_splits sum.splits)
  have m: "length v = m" using v le by simp
  have k: "take k ds = encode_length m" "k = length (encode_length m)"
    using parse_len_canonical [OF len] by auto
  have "take (k + m) ds = encode_length m @ v"
    by (simp add: take_add k(1) v)
  moreover have "m \<le> MAX_INPUT"
    using parse_len_bounds [OF len] by (simp add: MAX_INPUT_def)
  ultimately show ?thesis
    using t m k(2) n le by (simp add: bs encode_tlv_def)
qed

text \<open>A reader accepts exactly the shortest-form encodings, and what it returns is what
  was encoded.\<close>

lemma ReadTagAndGetValue_Inr_iff:
  assumes wf: "wf_Reader r"
  shows "ReadTagAndGetValue r = Inr (t, v, r') \<longleftrightarrow>
    t AND 0x1F \<noteq> 0x1F \<and> wf_Input v \<and> remaining r = encode_tlv t v @ remaining r' \<and>
    r' = advance (length (encode_tlv t v)) r"
proof
  assume "ReadTagAndGetValue r = Inr (t, v, r')"
  then obtain n where p: "parse_tlv (remaining r) = Inr (t, v, n)" and r': "r' = advance n r"
    by (auto simp: ReadTagAndGetValue_spec [OF wf] split: sum.splits)
  from parse_tlv_canonical [OF p] r'
  show "t AND 0x1F \<noteq> 0x1F \<and> wf_Input v \<and> remaining r = encode_tlv t v @ remaining r' \<and>
      r' = advance (length (encode_tlv t v)) r"
    by (metis append_take_drop_id remaining_advance wf_Input_def)
next
  assume A: "t AND 0x1F \<noteq> 0x1F \<and> wf_Input v \<and> remaining r = encode_tlv t v @ remaining r' \<and>
      r' = advance (length (encode_tlv t v)) r"
  then have "parse_tlv (remaining r) = Inr (t, v, length (encode_tlv t v))"
    by (metis parse_tlv_encode wf_Input_def)
  with A show "ReadTagAndGetValue r = Inr (t, v, r')"
    by (simp only: ReadTagAndGetValue_spec [OF wf] sum.case prod.case)
qed

section \<open>The combinators, on the encodings they accept\<close>

definition tlv_at :: "Reader \<Rightarrow> u8 \<Rightarrow> Input \<Rightarrow> Reader \<Rightarrow> bool" where
  "tlv_at r t v r' \<longleftrightarrow>
     t AND 0x1F \<noteq> 0x1F \<and> wf_Input v \<and> r' = advance (length (encode_tlv t v)) r \<and>
     (\<exists>rest. remaining r = encode_tlv t v @ rest)"

text \<open>Decoding a whole value: the decoder must consume all of it.\<close>

definition whole :: "(Reader \<Rightarrow> ('a \<times> Reader) res) \<Rightarrow> Input \<Rightarrow> 'a res" where
  "whole d v =
     (case d (Reader_of v) of Inl e \<Rightarrow> Inl e
      | Inr (x, s) \<Rightarrow> if AtEnd s then Inr x else Inl ERROR_BAD_DER)"

lemma whole_iff: "whole d v = Inr x \<longleftrightarrow> (\<exists>s. d (Reader_of v) = Inr (x, s) \<and> AtEnd s)"
  by (auto simp: whole_def split: sum.splits)

lemma tlv_at_split: "tlv_at r t v r' \<Longrightarrow> remaining r = encode_tlv t v @ remaining r'"
  by (auto simp: tlv_at_def)

lemma tlv_at_reads: "tlv_at r t v r' \<Longrightarrow> reads r r'"
  by (auto simp: tlv_at_def)

lemma tlv_at_wf: "tlv_at r t v r' \<Longrightarrow> wf_Reader r \<Longrightarrow> wf_Reader r' \<and> wf_Input v"
  using reads_wf tlv_at_reads by (auto simp: tlv_at_def)

lemma ReadTagAndGetValue_iff:
  "wf_Reader r \<Longrightarrow> ReadTagAndGetValue r = Inr (t, v, r') \<longleftrightarrow> tlv_at r t v r'"
  unfolding ReadTagAndGetValue_Inr_iff
  by (metis tlv_at_split tlv_at_def)

lemma ExpectTagAndGetValue_iff:
  assumes "wf_Reader r"
  shows "ExpectTagAndGetValue r t = Inr (v, r') \<longleftrightarrow> tlv_at r t v r'"
proof -
  have "ExpectTagAndGetValue r t = Inr (v, r') \<longleftrightarrow> ReadTagAndGetValue r = Inr (t, v, r')"
    by (auto simp: ExpectTagAndGetValue_def split: sum.splits)
  then show ?thesis by (simp only: ReadTagAndGetValue_iff [OF assms])
qed

lemma ExpectTagAndGetReader_iff:
  "wf_Reader r \<Longrightarrow>
     ExpectTagAndGetReader r t = Inr (s, r') \<longleftrightarrow> (\<exists>v. tlv_at r t v r' \<and> s = Reader_of v)"
  by (auto simp: ExpectTagAndGetReader_def case_sum_prod_Inr_iff ExpectTagAndGetValue_iff)

lemma ExpectTagAndGetReader_then:
  assumes "wf_Reader r"
    and "\<And>v q. wf_Input v \<Longrightarrow> wf_Reader q \<Longrightarrow> f (Reader_of v) q = Inr y \<longleftrightarrow> P v q"
  shows "(case ExpectTagAndGetReader r t of Inl e \<Rightarrow> Inl e | Inr (s, q) \<Rightarrow> f s q) = Inr y \<longleftrightarrow>
    (\<exists>v q. tlv_at r t v q \<and> P v q)"
  unfolding case_sum_prod_Inr_iff ExpectTagAndGetReader_iff [OF assms(1)]
  using assms(2) tlv_at_wf [OF _ assms(1)] by blast

lemma ExpectTagAndGetValue_then:
  assumes "wf_Reader r"
    and "\<And>v q. wf_Input v \<Longrightarrow> wf_Reader q \<Longrightarrow> f v q = Inr y \<longleftrightarrow> P v q"
  shows "(case ExpectTagAndGetValue r t of Inl e \<Rightarrow> Inl e | Inr (v, q) \<Rightarrow> f v q) = Inr y \<longleftrightarrow>
    (\<exists>v q. tlv_at r t v q \<and> P v q)"
  unfolding case_sum_prod_Inr_iff ExpectTagAndGetValue_iff [OF assms(1)]
  using assms(2) tlv_at_wf [OF _ assms(1)] by blast

lemma ExpectTagAndSkipValue_iff:
  "wf_Reader r \<Longrightarrow> ExpectTagAndSkipValue r t = Inr r' \<longleftrightarrow> (\<exists>v. tlv_at r t v r')"
  by (auto simp: ExpectTagAndSkipValue_def case_sum_prod_Inr_iff ExpectTagAndGetValue_iff)

lemma ExpectTagAndEmptyValue_iff:
  assumes "wf_Reader r"
  shows "ExpectTagAndEmptyValue r t = Inr r' \<longleftrightarrow> tlv_at r t [] r'"
proof -
  have "End (Reader_of v) = Inr () \<longleftrightarrow> v = []" if "wf_Input v" for v
    using that by (simp add: End_def AtEnd_iff)
  then show ?thesis
    using tlv_at_wf [OF _ assms]
    by (auto simp: ExpectTagAndEmptyValue_def case_sum_prod_Inr_iff case_sum_Inr_iff
        ExpectTagAndGetReader_iff [OF assms] cong: conj_cong)
qed

text \<open>The TLV that is cut out of the input by its mark is the canonical encoding.\<close>

lemma ExpectTagAndGetTLV_iff:
  assumes wf: "wf_Reader r"
  shows "ExpectTagAndGetTLV r t = Inr (tlv, r') \<longleftrightarrow>
    (\<exists>v. tlv_at r t v r' \<and> tlv = encode_tlv t v)"
proof -
  have "GetInput s (GetMark r) = Inr (encode_tlv t v)" if at: "tlv_at r t v s" for v s
  proof -
    have s: "s = advance (length (encode_tlv t v)) r" using at by (auto simp: tlv_at_def)
    obtain rest where rest: "remaining r = encode_tlv t v @ rest"
      using tlv_at_split [OF at] ..
    have "length (encode_tlv t v) \<le> length (remaining r)"
      unfolding rest by simp
    from GetInput_spec [OF wf this]
    have "GetInput s (GetMark r) = Inr (take (length (encode_tlv t v)) (remaining r))"
      unfolding s .
    then show ?thesis unfolding rest by simp
  qed
  then show ?thesis
    by (force simp: ExpectTagAndGetTLV_def Let_def case_sum_Inr_iff
        ExpectTagAndSkipValue_iff [OF wf])
qed

lemma Nested_eq_whole:
  "Nested r t d =
     (case ExpectTagAndGetValue r t of Inl e \<Rightarrow> Inl e | Inr (v, r') \<Rightarrow>
      case whole d v of Inl e \<Rightarrow> Inl e | Inr x \<Rightarrow> Inr (x, r'))"
  by (auto simp: Nested_def ExpectTagAndGetReader_def whole_def End_def split: sum.splits)

lemma Nested_iff:
  "wf_Reader r \<Longrightarrow>
     Nested r t d = Inr (x, r') \<longleftrightarrow> (\<exists>v. tlv_at r t v r' \<and> whole d v = Inr x)"
  by (auto simp: Nested_eq_whole case_sum_prod_Inr_iff case_sum_Inr_iff ExpectTagAndGetValue_iff)

lemma whole_Nested_iff:
  assumes "wf_Input w"
  shows "whole (\<lambda>r. Nested r t d) w = Inr x \<longleftrightarrow>
    t AND 0x1F \<noteq> 0x1F \<and> (\<exists>v. wf_Input v \<and> w = encode_tlv t v \<and> whole d v = Inr x)"
  (is "?L \<longleftrightarrow> ?R")
proof -
  have wf: "wf_Reader (Reader_of w)" using assms by simp
  have at: "tlv_at (Reader_of w) t v r' \<and> AtEnd r' \<longleftrightarrow>
      t AND 0x1F \<noteq> 0x1F \<and> wf_Input v \<and> w = encode_tlv t v \<and>
      r' = advance (length (encode_tlv t v)) (Reader_of w)" for v r'
  proof -
    have "tlv_at (Reader_of w) t v r' \<Longrightarrow> AtEnd r' \<longleftrightarrow> remaining r' = []"
      using tlv_at_wf [OF _ wf] by (simp add: AtEnd_iff)
    moreover have "AtEnd (advance (length w) (Reader_of w))"
      using assms by (simp add: AtEnd_iff)
    ultimately show ?thesis using assms by (auto simp: tlv_at_def)
  qed
  have "?L \<longleftrightarrow> (\<exists>r' v. (tlv_at (Reader_of w) t v r' \<and> AtEnd r') \<and> whole d v = Inr x)"
    by (subst whole_def) (auto simp: case_sum_prod_Inr_iff Nested_iff [OF wf])
  also have "\<dots> \<longleftrightarrow> ?R" unfolding at by blast
  finally show ?thesis .
qed

lemma Nested2_eq: "Nested2 r t u d = Nested r t (\<lambda>s. Nested s u d)"
  unfolding Nested2_def Nested_def [of r t] ..

text \<open>\<open>NestedOf\<close> accepts a sequence of one or more encodings that fills the value, and
  runs the decoder over their contents from left to right.\<close>

lemma NestedOf_loop_iff:
  "wf_Reader r \<Longrightarrow>
     NestedOf_loop r t d s = Inr s' \<longleftrightarrow>
       t AND 0x1F \<noteq> 0x1F \<and>
       (\<exists>vs. vs \<noteq> [] \<and> (\<forall>v \<in> set vs. wf_Input v) \<and> remaining r = concat (map (encode_tlv t) vs) \<and>
         fold_res (\<lambda>s v. whole (d s) v) s vs = Inr s')"
proof (induction r t d s rule: NestedOf_loop.induct)
  case (1 r t d s)
  note wf = \<open>wf_Reader r\<close>
  let ?P = "\<lambda>r s vs. (\<forall>v \<in> set vs. wf_Input v) \<and> remaining r = concat (map (encode_tlv t) vs) \<and>
      fold_res (\<lambda>s v. whole (d s) v) s vs = Inr s'"
  show ?case
  proof
    assume "NestedOf_loop r t d s = Inr s'"
    then obtain s1 r1 where n: "Nested r t (d s) = Inr (s1, r1)"
      and step: "if AtEnd r1 then s1 = s' else NestedOf_loop r1 t d s1 = Inr s'"
      by (subst (asm) NestedOf_loop.simps) (auto simp: case_sum_prod_Inr_iff split: if_splits)
    obtain v where v: "tlv_at r t v r1" "whole (d s) v = Inr s1"
      using n by (auto simp: Nested_iff [OF wf])
    have wf1: "wf_Reader r1" and wfv: "wf_Input v" using tlv_at_wf [OF v(1) wf] by auto
    have at: "t AND 0x1F \<noteq> 0x1F" "remaining r = encode_tlv t v @ remaining r1"
      using tlv_at_split [OF v(1)] v(1) by (auto simp only: tlv_at_def)
    obtain vs where "?P r1 s1 vs"
    proof (cases "AtEnd r1")
      case True
      then show ?thesis using that [of "[]"] step wf1 by (simp add: AtEnd_iff)
    next
      case False
      then show ?thesis using that step 1(1) [OF n refl] wf1 by auto
    qed
    then have "?P r s (v # vs)" using at v(2) wfv by simp
    then show "t AND 0x1F \<noteq> 0x1F \<and> (\<exists>vs. vs \<noteq> [] \<and> ?P r s vs)"
      using at(1) by blast
  next
    assume "t AND 0x1F \<noteq> 0x1F \<and> (\<exists>vs. vs \<noteq> [] \<and> ?P r s vs)"
    then obtain v vs where t: "t AND 0x1F \<noteq> 0x1F" and P: "?P r s (v # vs)"
      by (metis list.exhaust)
    define r1 where "r1 = advance (length (encode_tlv t v)) r"
    have v: "tlv_at r t v r1" using P t by (auto simp: tlv_at_def r1_def)
    have wf1: "wf_Reader r1" using tlv_at_wf [OF v wf] by auto
    obtain s1 where s1: "whole (d s) v = Inr s1" "?P r1 s1 vs"
      using P v by (auto simp: tlv_at_def split: sum.splits)
    have n: "Nested r t (d s) = Inr (s1, r1)" using v s1(1) by (auto simp: Nested_iff [OF wf])
    have ne: "encode_tlv t w \<noteq> []" for w by (simp add: encode_tlv_def)
    have end_iff: "AtEnd r1 \<longleftrightarrow> vs = []"
      using s1(2) wf1 ne by (cases vs) (auto simp: AtEnd_iff)
    show "NestedOf_loop r t d s = Inr s'"
    proof (cases vs)
      case Nil
      then show ?thesis
        using n s1(2) end_iff by (subst NestedOf_loop.simps) simp
    next
      case (Cons w ws)
      then have "vs \<noteq> []" "\<not> AtEnd r1" using end_iff by simp_all
      then have "NestedOf_loop r1 t d s1 = Inr s'"
        unfolding 1(1) [OF n refl \<open>\<not> AtEnd r1\<close> wf1] using s1(2) t by blast
      then show ?thesis
        using n end_iff Cons by (subst NestedOf_loop.simps) simp
    qed
  qed
qed

lemma NestedOf_iff:
  assumes wf: "wf_Reader r"
  shows "NestedOf r t u e d s = Inr (s', r') \<longleftrightarrow>
    (\<exists>vs. tlv_at r t (concat (map (encode_tlv u) vs)) r' \<and> (\<forall>v \<in> set vs. wf_Input v) \<and>
       (if vs = [] then e = EmptyAllowed_Yes else u AND 0x1F \<noteq> 0x1F) \<and>
       fold_res (\<lambda>s v. whole (d s) v) s vs = Inr s')"
proof -
  have ne: "vs \<noteq> [] \<Longrightarrow> concat (map (encode_tlv u) vs) \<noteq> []" for vs
    by (cases vs) (auto simp: encode_tlv_def)
  have "(if AtEnd (Reader_of v) then e = EmptyAllowed_Yes \<and> s' = s
         else NestedOf_loop (Reader_of v) u d s = Inr s') \<longleftrightarrow>
     (\<exists>vs. v = concat (map (encode_tlv u) vs) \<and> (\<forall>v \<in> set vs. wf_Input v) \<and>
       (if vs = [] then e = EmptyAllowed_Yes else u AND 0x1F \<noteq> 0x1F) \<and>
       fold_res (\<lambda>s v. whole (d s) v) s vs = Inr s')" (is "?L v \<longleftrightarrow> ?R v")
    if "wf_Input v" for v
  proof (cases "v = []")
    case True
    then have "?R v \<longleftrightarrow> e = EmptyAllowed_Yes \<and> s' = s"
      using ne by (metis concat.simps(1) fold_res.simps(1) list.simps(8) list.set(1) empty_iff
          sum.inject(2))
    then show ?thesis using True that by (simp add: AtEnd_iff)
  next
    case False
    then have "?L v \<longleftrightarrow> NestedOf_loop (Reader_of v) u d s = Inr s'"
      using that by (simp add: AtEnd_iff)
    also have "\<dots> \<longleftrightarrow> ?R v"
      using False that by (auto simp: NestedOf_loop_iff)
    finally show ?thesis .
  qed
  moreover have "NestedOf r t u e d s = Inr (s', r') \<longleftrightarrow> (\<exists>v. tlv_at r t v r' \<and> ?L v)"
  proof -
    have "(if AtEnd i then if e \<noteq> EmptyAllowed_Yes then Inl ERROR_BAD_DER else Inr (s, q)
         else case NestedOf_loop i u d s of Inl e \<Rightarrow> Inl e | Inr x \<Rightarrow> Inr (x, q)) = Inr (s', r') \<longleftrightarrow>
       q = r' \<and> (if AtEnd i then e = EmptyAllowed_Yes \<and> s' = s
         else NestedOf_loop i u d s = Inr s')" for i q
      by (auto simp: case_sum_Inr_iff)
    then show ?thesis
      unfolding NestedOf_def case_sum_prod_Inr_iff ExpectTagAndGetReader_iff [OF wf] by auto
  qed
  ultimately show ?thesis
    using tlv_at_wf [OF _ wf] by blast
qed

lemma ExpectTagAndGetValue_spec [reader_spec]:
  "wf_Reader r \<Longrightarrow> ExpectTagAndGetValue r t =
    (case parse_tlv (remaining r) of Inl e \<Rightarrow> Inl e
     | Inr (u, v, n) \<Rightarrow> if t \<noteq> u then Inl ERROR_BAD_DER else Inr (v, advance n r))"
  by (auto simp: ExpectTagAndGetValue_def ReadTagAndGetValue_spec split: sum.splits)

section \<open>Every decoder stays inside its reader\<close>

interpretation read_tlv: decoder "\<lambda>r. case ReadTagAndGetValue r of Inl e \<Rightarrow> Inl e
    | Inr (t, v, r) \<Rightarrow> Inr ((t, v), r)"
  by unfold_locales (auto simp: case_sum_prod_Inr_iff ReadTagAndGetValue_iff intro: tlv_at_reads
      split: sum.splits)

interpretation expect_value: decoder "\<lambda>r. ExpectTagAndGetValue r t"
  by unfold_locales (auto simp: ExpectTagAndGetValue_iff intro: tlv_at_reads)

interpretation expect_reader: decoder "\<lambda>r. ExpectTagAndGetReader r t"
  by unfold_locales (auto simp: ExpectTagAndGetReader_iff intro: tlv_at_reads)

interpretation expect_tlv: decoder "\<lambda>r. ExpectTagAndGetTLV r t"
  by unfold_locales (auto simp: ExpectTagAndGetTLV_iff intro: tlv_at_reads)

interpretation nested: decoder "\<lambda>r. Nested r t d"
  by unfold_locales (auto simp: Nested_iff intro: tlv_at_reads)

interpretation nested_of: decoder "\<lambda>r. NestedOf r t u e d s"
  by unfold_locales (auto simp: NestedOf_iff intro: tlv_at_reads)

lemma ExpectTagAndSkipValue_reads:
  "wf_Reader r \<Longrightarrow> ExpectTagAndSkipValue r t = Inr r' \<Longrightarrow> reads r r'"
  by (auto simp: ExpectTagAndSkipValue_iff intro: tlv_at_reads)

lemma ExpectTagAndEmptyValue_reads:
  "wf_Reader r \<Longrightarrow> ExpectTagAndEmptyValue r t = Inr r' \<Longrightarrow> reads r r'"
  by (auto simp: ExpectTagAndEmptyValue_iff intro: tlv_at_reads)

lemmas [consumes] =
  expect_value.reads_ok expect_reader.reads_ok expect_tlv.reads_ok nested.reads_ok
  nested_of.reads_ok ExpectTagAndSkipValue_reads ExpectTagAndEmptyValue_reads

section \<open>Properties\<close>

text \<open>C21: \<open>ReadTagAndGetValue\<close> succeeds on exactly those readers whose remaining bytes
  start with the shortest definite-length encoding of a low-numbered tag and a value of
  at most 65535 bytes; it returns that tag and that value and moves the reader just
  behind the encoding. So no byte string has two decodings and no value two accepted
  encodings, and the cursor never leaves its bounds.\<close>

theorem ReadTagAndGetValue_canonical:
  assumes "wf_Reader r"
  shows "ReadTagAndGetValue r = Inr (t, v, r') \<longleftrightarrow>
    t AND 0x1F \<noteq> 0x1F \<and> wf_Input v \<and> remaining r = encode_tlv t v @ remaining r' \<and>
    r' = advance (length (encode_tlv t v)) r"
  by (rule ReadTagAndGetValue_Inr_iff [OF assms])

theorem ReadTagAndGetValue_canonical_witness:
  "wf_Reader (Reader_of [0x30, 0x02, 0x05, 0x00, 0x07]) \<and>
   ReadTagAndGetValue (Reader_of [0x30, 0x02, 0x05, 0x00, 0x07]) =
     Inr (0x30, [0x05, 0x00], advance 4 (Reader_of [0x30, 0x02, 0x05, 0x00, 0x07]))"
proof
  have i: "wf_Input [0x30, 0x02, 0x05, 0x00, 0x07]" "wf_Input [0x05, 0x00 :: u8]"
    by (simp_all add: wf_Input_def MAX_INPUT_def)
  then show wf: "wf_Reader (Reader_of [0x30, 0x02, 0x05, 0x00, 0x07])" by simp
  show "ReadTagAndGetValue (Reader_of [0x30, 0x02, 0x05, 0x00, 0x07]) =
     Inr (0x30, [0x05, 0x00], advance 4 (Reader_of [0x30, 0x02, 0x05, 0x00, 0x07]))"
    unfolding ReadTagAndGetValue_canonical [OF wf]
    using i by (simp add: encode_tlv_def encode_length_def)
qed

text \<open>\<open>NestedOf\<close> succeeds exactly when the outer value is the concatenation of the
  encodings of a list of inner values - none only if \<open>mayBeEmpty\<close> allows it - and the
  decoder, run on these values from left to right with its state threaded through,
  accepts each of them whole; the result is the last state. An element that the decoder
  does not consume to its end, or that it rejects, rejects the sequence.\<close>

lemma NestedOf_sequence:
  assumes "wf_Reader r"
  shows "NestedOf r t u e d s = Inr (s', r') \<longleftrightarrow>
    (\<exists>vs. ReadTagAndGetValue r = Inr (t, concat (map (encode_tlv u) vs), r') \<and>
       (\<forall>v \<in> set vs. wf_Input v) \<and>
       (if vs = [] then e = EmptyAllowed_Yes else u AND 0x1F \<noteq> 0x1F) \<and>
       fold_res (\<lambda>s v. whole (d s) v) s vs = Inr s')"
  unfolding ReadTagAndGetValue_iff [OF assms] by (rule NestedOf_iff [OF assms])

end
