(* ===== verification/PkixTime.thy ===== *)
theory PkixTime
  imports PkixResult
begin

text \<open>
  \<^verbatim>\<open>security/pkix/include/pkix/Time.h\<close>, \<^verbatim>\<open>lib/pkixtime.cpp\<close> and
  \<open>DaysBeforeYear\<close> of \<^verbatim>\<open>lib/pkixutil.h\<close>: seconds since the start of year 1,
  kept in 64 bits, with the overflow checks of the code. The specification is the
  proleptic Gregorian calendar (\<open>leap\<close>, \<open>days_before\<close>).
\<close>

section \<open>Time and Duration\<close>

datatype Time = Time (elapsedSecondsAD: u64)

instantiation Time :: linorder
begin

definition less_Time :: "Time \<Rightarrow> Time \<Rightarrow> bool" where
  "less_Time a b \<longleftrightarrow> elapsedSecondsAD a < elapsedSecondsAD b"

definition less_eq_Time :: "Time \<Rightarrow> Time \<Rightarrow> bool" where
  "less_eq_Time a b \<longleftrightarrow> elapsedSecondsAD a \<le> elapsedSecondsAD b"

instance
  by standard (auto simp: less_Time_def less_eq_Time_def intro: Time.expand)

end

definition TimeFromElapsedSecondsAD :: "u64 \<Rightarrow> Time" where
  "TimeFromElapsedSecondsAD s = Time s"

definition ONE_DAY_IN_SECONDS :: u64 where
  "ONE_DAY_IN_SECONDS = 24 * 60 * 60"

definition AddSeconds :: "Time \<Rightarrow> u64 \<Rightarrow> Time res" where
  "AddSeconds t seconds =
     (if (- 1) - elapsedSecondsAD t < seconds then Inl FATAL_ERROR_INVALID_ARGS
      else Inr (Time (elapsedSecondsAD t + seconds)))"

definition SubtractSeconds :: "Time \<Rightarrow> u64 \<Rightarrow> Time res" where
  "SubtractSeconds t seconds =
     (if seconds > elapsedSecondsAD t then Inl FATAL_ERROR_INVALID_ARGS
      else Inr (Time (elapsedSecondsAD t - seconds)))"

datatype Duration = Duration (durationInSeconds: u64)

instantiation Duration :: linorder
begin

definition less_Duration :: "Duration \<Rightarrow> Duration \<Rightarrow> bool" where
  "less_Duration a b \<longleftrightarrow> durationInSeconds a < durationInSeconds b"

definition less_eq_Duration :: "Duration \<Rightarrow> Duration \<Rightarrow> bool" where
  "less_eq_Duration a b \<longleftrightarrow> durationInSeconds a \<le> durationInSeconds b"

instance
  by standard (auto simp: less_Duration_def less_eq_Duration_def intro: Duration.expand)

end

definition Duration_between :: "Time \<Rightarrow> Time \<Rightarrow> Duration" where
  "Duration_between timeA timeB =
     Duration (if timeA < timeB then elapsedSecondsAD timeB - elapsedSecondsAD timeA
               else elapsedSecondsAD timeA - elapsedSecondsAD timeB)"

definition DaysBeforeYear :: "u32 \<Rightarrow> u32" where
  "DaysBeforeYear year =
     ((year - 1) * 365) + ((year - 1) div 4) - ((year - 1) div 100) + ((year - 1) div 400)"

definition TimeFromEpochInSeconds :: "u64 \<Rightarrow> Time" where
  "TimeFromEpochInSeconds secondsSinceEpoch =
     TimeFromElapsedSecondsAD
       (ucast (DaysBeforeYear 1970) * ONE_DAY_IN_SECONDS + secondsSinceEpoch)"

section \<open>Seconds do not wrap\<close>

lemma AddSeconds_Inr_iff:
  "AddSeconds t s = Inr t' \<longleftrightarrow>
     unat (elapsedSecondsAD t) + unat s < 2 ^ 64 \<and>
     unat (elapsedSecondsAD t') = unat (elapsedSecondsAD t) + unat s"
proof -
  let ?e = "elapsedSecondsAD t"
  have max: "unat ((- 1) - ?e) = 2 ^ 64 - 1 - unat ?e"
  proof -
    have "unat ((- 1) - ?e) = unat (- 1 :: u64) - unat ?e"
      by (rule unat_sub) simp
    then show ?thesis by (simp add: unsigned_minus_1_eq_mask mask_eq_exp_minus_1)
  qed
  have guard: "(- 1) - ?e < s \<longleftrightarrow> \<not> unat ?e + unat s < 2 ^ 64"
    using unsigned_less [of ?e, where 'a = nat] by (auto simp: word_less_nat_alt max)
  show ?thesis
    unfolding AddSeconds_def guard
    by (cases t') (auto simp: unat_word_ariths word_unat_eq_iff)
qed

lemma SubtractSeconds_Inr_iff:
  "SubtractSeconds t s = Inr t' \<longleftrightarrow>
     unat (elapsedSecondsAD t) = unat (elapsedSecondsAD t') + unat s"
proof -
  have eq: "unat (elapsedSecondsAD t - s) = unat (elapsedSecondsAD t) - unat s"
    if "\<not> s > elapsedSecondsAD t"
    using that by (simp add: unat_sub word_le_nat_alt not_less)
  show ?thesis
    by (cases t') (auto simp: SubtractSeconds_def word_less_nat_alt word_unat_eq_iff eq)
qed

section \<open>The calendar\<close>

definition leap :: "nat \<Rightarrow> bool" where
  "leap y \<longleftrightarrow> y mod 4 = 0 \<and> (y mod 100 \<noteq> 0 \<or> y mod 400 = 0)"

definition days_in_year :: "nat \<Rightarrow> nat" where
  "days_in_year y = (if leap y then 366 else 365)"

definition days_before :: "nat \<Rightarrow> nat" where
  "days_before y = (\<Sum>k = 1..<y. days_in_year k)"

lemma div_step: "0 < (m::nat) \<Longrightarrow> Suc n div m = n div m + (if Suc n mod m = 0 then 1 else 0)"
  by (simp add: div_Suc)

lemma days_before_closed:
  "days_before (Suc n) + n div 100 = n * 365 + n div 4 + n div 400"
proof (induction n)
  case 0
  then show ?case by (simp add: days_before_def)
next
  case (Suc n)
  have "days_before (Suc (Suc n)) = days_before (Suc n) + days_in_year (Suc n)"
    by (simp add: days_before_def)
  moreover have "days_in_year (Suc n) + (if Suc n mod 100 = 0 then 1 else 0) =
      365 + (if Suc n mod 4 = 0 then 1 else 0) + (if Suc n mod 400 = 0 then 1 else 0)"
  proof -
    have "Suc n mod 400 mod 100 = Suc n mod 100" "Suc n mod 100 mod 4 = Suc n mod 4"
      by (rule mod_mod_cancel; simp)+
    then have "Suc n mod 400 = 0 \<Longrightarrow> Suc n mod 100 = 0" "Suc n mod 100 = 0 \<Longrightarrow> Suc n mod 4 = 0"
      by (metis mod_0)+
    then show ?thesis unfolding days_in_year_def leap_def by (simp split: if_split)
  qed
  ultimately show ?case
    using Suc.IH div_step [of 4 n] div_step [of 100 n] div_step [of 400 n] by simp
qed

lemma unat_DaysBeforeYear:
  assumes "1 \<le> y" "y \<le> 9999"
  shows "unat (DaysBeforeYear (of_nat y)) = days_before y"
proof -
  define n where "n = y - 1"
  have y: "y = Suc n" and n: "n \<le> 9998" using assms by (auto simp: n_def)
  have yw: "(of_nat y - 1 :: u32) = of_nat n" by (simp add: y)
  have dw: "(of_nat n div of_nat k :: u32) = of_nat (n div k)" if "0 < k" "k < 1000" for k
    using n that by (simp add: word_unat_eq_iff unat_div unat_of_nat_u32
        div_le_dividend le_less_trans [OF div_le_dividend])
  have le: "n div 100 \<le> n * 365 + n div 4"
    by linarith
  have "DaysBeforeYear (of_nat y) =
      of_nat (n * 365 + n div 4) - of_nat (n div 100) + of_nat (n div 400)"
    unfolding DaysBeforeYear_def yw using dw [of 4] dw [of 100] dw [of 400] by simp
  also have "\<dots> = of_nat (n * 365 + n div 4 - n div 100 + n div 400)"
    using le by (simp only: of_nat_diff of_nat_add)
  also have "n * 365 + n div 4 - n div 100 + n div 400 = days_before y"
    using days_before_closed [of n] le unfolding y by linarith
  finally have "DaysBeforeYear (of_nat y) = of_nat (days_before y)" .
  moreover have "days_before y < 4294967296"
    using days_before_closed [of n] n unfolding y by linarith
  ultimately show ?thesis by (simp only: unat_of_nat_u32)
qed

end
