(* ===== verification/PkixTypes.thy ===== *)
theory PkixTypes
  imports PkixInput PkixTime
begin

text \<open>
  \<^verbatim>\<open>security/pkix/include/pkix/pkixtypes.h\<close>: the enumerations, the structures
  passed between the components, and the \<open>TrustDomain\<close> and \<open>NameMatchingPolicy\<close>
  interfaces that the application implements.

  The implementation of a \<open>TrustDomain\<close> is not part of this program, so it is a
  parameter: a record of functions, one per method. The methods that the code calls to
  ask a question are functions of the arguments they get. The two methods whose order
  matters (\<open>IsChainValid\<close>, \<open>CheckRevocation\<close>) and the notification
  \<open>NoteAuxiliaryExtension\<close> are recorded, in order, in a list of events; the first two
  also see the events so far, so that an implementation with a state of its own is an
  instance. \<open>GetCertTrust\<close> returns its status and what its out-parameter holds after the
  call, because one caller reads it even if the status is an error. \<open>FindIssuer\<close> is the
  list of the potential issuers that an implementation offers to the checker, in order,
  and its own status once it has offered all of them; the loop that offers them is
  \<open>FindIssuer_loop\<close> in theory \<open>PkixBuild\<close>.
\<close>

datatype DigestAlgorithm = sha512 | sha384 | sha256 | sha1

datatype NamedCurve = secp521r1 | secp384r1 | secp256r1

datatype PublicKeyAlgorithm = RSA_PKCS1 | ECDSA

record SignedDigest =
  sd_digest :: Input
  sd_digestAlgorithm :: DigestAlgorithm
  sd_signature :: Input

datatype EndEntityOrCA = MustBeEndEntity | MustBeCA

datatype KeyUsage =
    digitalSignature | nonRepudiation | keyEncipherment | dataEncipherment
  | keyAgreement | keyCertSign | noParticularKeyUsageRequired

datatype KeyPurposeId =
    anyExtendedKeyUsage | id_kp_serverAuth | id_kp_clientAuth
  | id_kp_codeSigning | id_kp_emailProtection | id_kp_OCSPSigning

text \<open>\<open>bytes\<close> is the whole array of \<open>MAX_BYTES\<close> entries, \<open>numBytes\<close> how many are used.\<close>

record CertPolicyId =
  numBytes :: u16
  policy_bytes :: "u8 list"

definition CertPolicyId_MAX_BYTES :: nat where
  "CertPolicyId_MAX_BYTES = 24"

datatype TrustLevel = TrustAnchor | ActivelyDistrusted | InheritsTrust

datatype AuxiliaryExtension = EmbeddedSCTList | SCTListFromOCSPResponse

record CertID =
  issuer :: Input
  issuerSubjectPublicKeyInfo :: Input
  serialNumber :: Input

datatype FallBackToSearchWithinSubject = FallBack_No | FallBack_Yes

datatype td_event =
    IsChainValid_called "Input list" Time
  | CheckRevocation_called EndEntityOrCA CertID Time Duration "Input option" "Input option"
  | NoteAuxiliaryExtension_called AuxiliaryExtension Input

record TrustDomain =
  GetCertTrust :: "EndEntityOrCA \<Rightarrow> CertPolicyId \<Rightarrow> Input \<Rightarrow> unit res \<times> TrustLevel"
  FindIssuer :: "Input \<Rightarrow> Time \<Rightarrow> (Input \<times> Input option) list \<times> unit res"
  IsChainValid :: "td_event list \<Rightarrow> Input list \<Rightarrow> Time \<Rightarrow> unit res"
  CheckRevocation ::
    "td_event list \<Rightarrow> EndEntityOrCA \<Rightarrow> CertID \<Rightarrow> Time \<Rightarrow> Duration \<Rightarrow> Input option \<Rightarrow>
       Input option \<Rightarrow> unit res"
  CheckSignatureDigestAlgorithm :: "DigestAlgorithm \<Rightarrow> EndEntityOrCA \<Rightarrow> Time \<Rightarrow> unit res"
  CheckRSAPublicKeyModulusSizeInBits :: "EndEntityOrCA \<Rightarrow> u32 \<Rightarrow> unit res"
  VerifyRSAPKCS1SignedDigest :: "SignedDigest \<Rightarrow> Input \<Rightarrow> unit res"
  CheckECDSACurveIsAcceptable :: "EndEntityOrCA \<Rightarrow> NamedCurve \<Rightarrow> unit res"
  VerifyECDSASignedDigest :: "SignedDigest \<Rightarrow> Input \<Rightarrow> unit res"
  CheckValidityIsAcceptable :: "Time \<Rightarrow> Time \<Rightarrow> EndEntityOrCA \<Rightarrow> KeyPurposeId \<Rightarrow> unit res"
  NetscapeStepUpMatchesServerAuth :: "Time \<Rightarrow> bool res"
  DigestBuf :: "Input \<Rightarrow> DigestAlgorithm \<Rightarrow> nat \<Rightarrow> (u8 list) res"

record NameMatchingPolicy =
  FallBackToCommonName :: "Time \<Rightarrow> FallBackToSearchWithinSubject res"

end
