(* ===== verification/PkixDerTypes.thy ===== *)
theory PkixDerTypes
  imports PkixDer PkixTypes
begin

text \<open>
  The decoders of the universal types and of the structures that certificates and OCSP
  responses share (\<^verbatim>\<open>security/pkix/lib/pkixder.h\<close>, \<^verbatim>\<open>pkixder.cpp\<close>). An
  out-parameter is a component of the result. An extension handler, which the code
  passes as a lambda, is a function that threads the state the lambda captures and
  returns it with the flag \<open>understood\<close>.
\<close>

section \<open>Algorithm identifiers\<close>

definition Null :: "Reader \<Rightarrow> Reader res" where
  "Null r = ExpectTagAndEmptyValue r NULLTag"

definition OptionalNull :: "Reader \<Rightarrow> Reader res" where
  "OptionalNull r = (if Peek r NULLTag then Null r else Inr r)"

definition AlgorithmIdentifierValue :: "Reader \<Rightarrow> (Reader \<times> Reader) res" where
  "AlgorithmIdentifierValue r =
     (case ExpectTagAndGetReader r OIDTag of Inl e \<Rightarrow> Inl e | Inr (algorithmOIDValue, r) \<Rightarrow>
      case OptionalNull r of Inl e \<Rightarrow> Inl e | Inr r \<Rightarrow> Inr (algorithmOIDValue, r))"

definition ecdsa_with_SHA256 :: "u8 list" where
  "ecdsa_with_SHA256 = [0x2a, 0x86, 0x48, 0xce, 0x3d, 0x04, 0x03, 0x02]"
definition ecdsa_with_SHA384 :: "u8 list" where
  "ecdsa_with_SHA384 = [0x2a, 0x86, 0x48, 0xce, 0x3d, 0x04, 0x03, 0x03]"
definition ecdsa_with_SHA512 :: "u8 list" where
  "ecdsa_with_SHA512 = [0x2a, 0x86, 0x48, 0xce, 0x3d, 0x04, 0x03, 0x04]"
definition sha256WithRSAEncryption :: "u8 list" where
  "sha256WithRSAEncryption = [0x2a, 0x86, 0x48, 0x86, 0xf7, 0x0d, 0x01, 0x01, 0x0b]"
definition sha384WithRSAEncryption :: "u8 list" where
  "sha384WithRSAEncryption = [0x2a, 0x86, 0x48, 0x86, 0xf7, 0x0d, 0x01, 0x01, 0x0c]"
definition sha512WithRSAEncryption :: "u8 list" where
  "sha512WithRSAEncryption = [0x2a, 0x86, 0x48, 0x86, 0xf7, 0x0d, 0x01, 0x01, 0x0d]"
definition sha_1WithRSAEncryption :: "u8 list" where
  "sha_1WithRSAEncryption = [0x2a, 0x86, 0x48, 0x86, 0xf7, 0x0d, 0x01, 0x01, 0x05]"
definition sha1WithRSASignature :: "u8 list" where
  "sha1WithRSASignature = [0x2b, 0x0e, 0x03, 0x02, 0x1d]"
definition ecdsa_with_SHA1 :: "u8 list" where
  "ecdsa_with_SHA1 = [0x2a, 0x86, 0x48, 0xce, 0x3d, 0x04, 0x01]"

text \<open>\<open>MatchRest\<close> moves the reader only when it returns true, so in a chain of
  \<open>else if\<close> every call sees the same reader.\<close>

definition SignatureAlgorithmIdentifierValue ::
  "Reader \<Rightarrow> ((PublicKeyAlgorithm \<times> DigestAlgorithm) \<times> Reader) res" where
  "SignatureAlgorithmIdentifierValue r =
     (case AlgorithmIdentifierValue r of Inl e \<Rightarrow> Inl e | Inr (algorithmID, r) \<Rightarrow>
      if fst (MatchRest algorithmID sha256WithRSAEncryption) then Inr ((RSA_PKCS1, sha256), r)
      else if fst (MatchRest algorithmID ecdsa_with_SHA256) then Inr ((ECDSA, sha256), r)
      else if fst (MatchRest algorithmID sha_1WithRSAEncryption) then Inr ((RSA_PKCS1, sha1), r)
      else if fst (MatchRest algorithmID ecdsa_with_SHA1) then Inr ((ECDSA, sha1), r)
      else if fst (MatchRest algorithmID ecdsa_with_SHA384) then Inr ((ECDSA, sha384), r)
      else if fst (MatchRest algorithmID ecdsa_with_SHA512) then Inr ((ECDSA, sha512), r)
      else if fst (MatchRest algorithmID sha384WithRSAEncryption) then Inr ((RSA_PKCS1, sha384), r)
      else if fst (MatchRest algorithmID sha512WithRSAEncryption) then Inr ((RSA_PKCS1, sha512), r)
      else if fst (MatchRest algorithmID sha1WithRSASignature) then Inr ((RSA_PKCS1, sha1), r)
      else Inl ERROR_CERT_SIGNATURE_ALGORITHM_DISABLED)"

definition id_sha1 :: "u8 list" where
  "id_sha1 = [0x2b, 0x0e, 0x03, 0x02, 0x1a]"
definition id_sha256 :: "u8 list" where
  "id_sha256 = [0x60, 0x86, 0x48, 0x01, 0x65, 0x03, 0x04, 0x02, 0x01]"
definition id_sha384 :: "u8 list" where
  "id_sha384 = [0x60, 0x86, 0x48, 0x01, 0x65, 0x03, 0x04, 0x02, 0x02]"
definition id_sha512 :: "u8 list" where
  "id_sha512 = [0x60, 0x86, 0x48, 0x01, 0x65, 0x03, 0x04, 0x02, 0x03]"

definition DigestAlgorithmIdentifier :: "Reader \<Rightarrow> (DigestAlgorithm \<times> Reader) res" where
  "DigestAlgorithmIdentifier input =
     Nested input SEQUENCE (\<lambda>r.
       case AlgorithmIdentifierValue r of Inl e \<Rightarrow> Inl e | Inr (algorithmID, r) \<Rightarrow>
       if fst (MatchRest algorithmID id_sha1) then Inr (sha1, r)
       else if fst (MatchRest algorithmID id_sha256) then Inr (sha256, r)
       else if fst (MatchRest algorithmID id_sha384) then Inr (sha384, r)
       else if fst (MatchRest algorithmID id_sha512) then Inr (sha512, r)
       else Inl ERROR_INVALID_ALGORITHM)"

section \<open>Bit strings and signed data\<close>

definition BitStringWithNoUnusedBits :: "Reader \<Rightarrow> (Input \<times> Reader) res" where
  "BitStringWithNoUnusedBits r =
     (case ExpectTagAndGetReader r BIT_STRING of Inl e \<Rightarrow> Inl e | Inr (valueWithUnusedBits, r) \<Rightarrow>
      case Read8 valueWithUnusedBits of Inl _ \<Rightarrow> Inl ERROR_BAD_DER
      | Inr (unusedBitsAtEnd, valueWithUnusedBits) \<Rightarrow>
        if unusedBitsAtEnd \<noteq> 0 then Inl ERROR_BAD_DER
        else
          case SkipToEndInput valueWithUnusedBits of Inl e \<Rightarrow> Inl e
          | Inr (v, valueWithUnusedBits) \<Rightarrow> Inr (v, r))"

record SignedDataWithSignature =
  sds_data :: Input
  sds_algorithm :: Input
  sds_signature :: Input

definition SignedData :: "Reader \<Rightarrow> ((Reader \<times> SignedDataWithSignature) \<times> Reader) res" where
  "SignedData r =
     (let mark = GetMark r in
      case ExpectTagAndGetReader r SEQUENCE of Inl e \<Rightarrow> Inl e | Inr (tbs, r) \<Rightarrow>
      case GetInput r mark of Inl e \<Rightarrow> Inl e | Inr data \<Rightarrow>
      case ExpectTagAndGetValue r SEQUENCE of Inl e \<Rightarrow> Inl e | Inr (algorithm, r) \<Rightarrow>
      case BitStringWithNoUnusedBits r of
        Inl e \<Rightarrow> Inl (if e = ERROR_BAD_DER then ERROR_BAD_SIGNATURE else e)
      | Inr (signature, r) \<Rightarrow>
          Inr ((tbs, \<lparr>sds_data = data, sds_algorithm = algorithm, sds_signature = signature\<rparr>), r))"

section \<open>Booleans and integers\<close>

definition Boolean :: "Reader \<Rightarrow> (bool \<times> Reader) res" where
  "Boolean r =
     (case ExpectTagAndGetReader r BOOLEAN of Inl e \<Rightarrow> Inl e | Inr (valueReader, r) \<Rightarrow>
      case Read8 valueReader of Inl e \<Rightarrow> Inl e | Inr (intValue, valueReader) \<Rightarrow>
      case End valueReader of Inl e \<Rightarrow> Inl e | Inr _ \<Rightarrow>
      if intValue = 0 then Inr (False, r)
      else if intValue = 0xFF then Inr (True, r)
      else Inl ERROR_BAD_DER)"

definition OptionalBoolean :: "Reader \<Rightarrow> (bool \<times> Reader) res" where
  "OptionalBoolean r = (if Peek r BOOLEAN then Boolean r else Inr (False, r))"

datatype IntegralValueRestriction = NoRestriction | MustBePositive | MustBe0To127

definition IntegralBytes ::
  "Reader \<Rightarrow> u8 \<Rightarrow> IntegralValueRestriction \<Rightarrow> ((Input \<times> u16) \<times> Reader) res" where
  "IntegralBytes r tag valueRestriction =
     (case ExpectTagAndGetValue r tag of Inl e \<Rightarrow> Inl e | Inr (v, r) \<Rightarrow>
      case Read8 (Reader_of v) of
        Inl e \<Rightarrow> Inl (if e = ERROR_BAD_DER then ERROR_INVALID_INTEGER_ENCODING else e)
      | Inr (firstByte, reader) \<Rightarrow>
      let prefixed = \<not> AtEnd reader \<and> (firstByte = 0 \<or> firstByte = 0xff) in
      case (if prefixed then
              (case Read8 reader of Inl _ \<Rightarrow> NotReached FATAL_ERROR_LIBRARY_FAILURE
               | Inr (nextByte, reader) \<Rightarrow>
                   if firstByte AND 0x80 = nextByte AND 0x80
                   then Inl ERROR_INVALID_INTEGER_ENCODING else Inr ())
            else Inr ()) of Inl e \<Rightarrow> Inl e | Inr _ \<Rightarrow>
      case (case valueRestriction of
              MustBe0To127 \<Rightarrow>
                if GetLength v \<noteq> 1 \<or> firstByte AND 0x80 \<noteq> 0
                then Inl ERROR_INVALID_INTEGER_ENCODING else Inr ()
            | MustBePositive \<Rightarrow>
                if (GetLength v = 1 \<and> firstByte = 0) \<or> firstByte AND 0x80 \<noteq> 0
                then Inl ERROR_INVALID_INTEGER_ENCODING else Inr ()
            | NoRestriction \<Rightarrow> Inr ()) of Inl e \<Rightarrow> Inl e | Inr _ \<Rightarrow>
      let significantBytes = (if prefixed then GetLength v - 1 else GetLength v) in
      Inr ((v, significantBytes), r))"

definition IntegralValue :: "Reader \<Rightarrow> u8 \<Rightarrow> (u8 \<times> Reader) res" where
  "IntegralValue r tag =
     (case IntegralBytes r tag MustBe0To127 of Inl e \<Rightarrow> Inl e | Inr ((valueBytes, _), r) \<Rightarrow>
      case Read8 (Reader_of valueBytes) of Inl e \<Rightarrow> NotReached e
      | Inr (v, valueReader) \<Rightarrow>
        case End valueReader of Inl e \<Rightarrow> Inl e | Inr _ \<Rightarrow> Inr (v, r))"

definition Enumerated :: "Reader \<Rightarrow> (u8 \<times> Reader) res" where
  "Enumerated r = IntegralValue r (ENUMERATED OR 0)"

definition PositiveInteger :: "Reader \<Rightarrow> ((Input \<times> u16) \<times> Reader) res" where
  "PositiveInteger r = IntegralBytes r INTEGER MustBePositive"

definition Integer :: "Reader \<Rightarrow> (u8 \<times> Reader) res" where
  "Integer r = IntegralValue r INTEGER"

definition OptionalInteger :: "Reader \<Rightarrow> int \<Rightarrow> (int \<times> Reader) res" where
  "OptionalInteger r defaultValue =
     (if defaultValue \<noteq> -1 then Inl FATAL_ERROR_INVALID_ARGS
      else if \<not> Peek r INTEGER then Inr (defaultValue, r)
      else
        case Integer r of Inl e \<Rightarrow> Inl e | Inr (parsedValue, r) \<Rightarrow> Inr (uint parsedValue, r))"

definition CertificateSerialNumber :: "Reader \<Rightarrow> (Input \<times> Reader) res" where
  "CertificateSerialNumber r =
     (case IntegralBytes r INTEGER NoRestriction of Inl e \<Rightarrow> Inl e | Inr ((v, _), r) \<Rightarrow> Inr (v, r))"

section \<open>Object identifiers, versions and extensions\<close>

definition OID :: "Reader \<Rightarrow> u8 list \<Rightarrow> Reader res" where
  "OID r expectedOid =
     (case ExpectTagAndGetReader r OIDTag of Inl e \<Rightarrow> Inl e | Inr (v, r) \<Rightarrow>
      if \<not> fst (MatchRest v expectedOid) then Inl ERROR_BAD_DER else Inr r)"

datatype Version = v1 | v2 | v3 | v4

definition OptionalVersion :: "Reader \<Rightarrow> (Version \<times> Reader) res" where
  "OptionalVersion input =
     (let TAG = CONTEXT_SPECIFIC OR CONSTRUCTED OR 0 in
      if \<not> Peek input TAG then Inr (v1, input)
      else
        Nested input TAG (\<lambda>r.
          case Integer r of Inl e \<Rightarrow> Inl e | Inr (integerValue, r) \<Rightarrow>
          if integerValue = 2 then Inr (v3, r)
          else if integerValue = 1 then Inr (v2, r)
          else if integerValue = 0 then Inr (v1, r)
          else if integerValue = 3 then Inr (v4, r)
          else Inl ERROR_BAD_DER))"

definition ExtensionDecoder ::
  "('s \<Rightarrow> Reader \<Rightarrow> Input \<Rightarrow> bool \<Rightarrow> ('s \<times> bool) res) \<Rightarrow> 's \<Rightarrow> Reader \<Rightarrow> ('s \<times> Reader) res" where
  "ExtensionDecoder extensionHandler s r =
     (case ExpectTagAndGetReader r OIDTag of Inl e \<Rightarrow> Inl e | Inr (extnID, r) \<Rightarrow>
      case OptionalBoolean r of Inl e \<Rightarrow> Inl e | Inr (critical, r) \<Rightarrow>
      case ExpectTagAndGetValue r OCTET_STRING of Inl e \<Rightarrow> Inl e | Inr (extnValue, r) \<Rightarrow>
      case extensionHandler s extnID extnValue critical of Inl e \<Rightarrow> Inl e | Inr (s, understood) \<Rightarrow>
      if critical \<and> \<not> understood then Inl ERROR_UNKNOWN_CRITICAL_EXTENSION else Inr (s, r))"

definition OptionalExtensions ::
  "Reader \<Rightarrow> u8 \<Rightarrow> ('s \<Rightarrow> Reader \<Rightarrow> Input \<Rightarrow> bool \<Rightarrow> ('s \<times> bool) res) \<Rightarrow> 's \<Rightarrow> ('s \<times> Reader) res" where
  "OptionalExtensions input tag extensionHandler s =
     (if \<not> Peek input tag then Inr (s, input)
      else
        Nested input tag (\<lambda>tagged.
          NestedOf tagged SEQUENCE SEQUENCE EmptyAllowed_Yes (ExtensionDecoder extensionHandler) s))"

section \<open>Two's complement\<close>

definition be_int :: "u8 list \<Rightarrow> int" where
  "be_int bs = foldl (\<lambda>a b. 256 * a + uint b) 0 bs"

fun twos_complement :: "u8 list \<Rightarrow> int" where
  "twos_complement [] = 0"
| "twos_complement (b # bs) =
     (if uint b < 128 then uint b else uint b - 256) * 256 ^ length bs + be_int bs"

lemma uint_u8: "0 \<le> uint (b :: u8)" "uint b < 256"
  using uint_bounded [of b] by simp_all

lemma uint_ff: "uint (0xff :: u8) = 255"
  by code_simp

lemma foldl_be_int:
  "foldl (\<lambda>a b. 256 * a + uint (b :: u8)) a bs = a * 256 ^ length bs + be_int bs"
proof (induction bs rule: rev_induct)
  case (snoc b bs)
  then show ?case by (simp add: be_int_def algebra_simps)
qed (simp add: be_int_def)

lemma be_int_simps [simp]:
  "be_int [] = 0" "be_int (b # bs) = uint b * 256 ^ length bs + be_int bs"
  using foldl_be_int [of "uint b" bs] by (simp_all add: be_int_def)

lemma be_int_bounds: "0 \<le> be_int bs \<and> be_int bs < 256 ^ length bs"
proof (induction bs)
  case (Cons b bs)
  have "(uint b + 1) * 256 ^ length bs \<le> 256 * 256 ^ length bs"
    using uint_u8 [of b] by (intro mult_right_mono) auto
  then have "uint b * 256 ^ length bs + 256 ^ length bs \<le> 256 * 256 ^ length bs"
    by (simp only: distrib_right mult_1_left)
  moreover have "0 \<le> uint b * 256 ^ length bs" using uint_u8 [of b] by simp
  ultimately show ?case
    using Cons unfolding be_int_simps list.size(4) One_nat_def add_Suc_right add_0_right power_Suc
    by linarith
qed simp

lemma twos_complement_bounds:
  "- (128 * 256 ^ length bs) \<le> twos_complement (b # bs) \<and> twos_complement (b # bs) < 128 * 256 ^ length bs"
proof -
  define k where "k = (256 :: int) ^ length bs"
  define s where "s = (if uint b < 128 then uint b else uint b - 256)"
  have s: "-128 \<le> s" "s + 1 \<le> 128"
    using uint_u8 [of b] by (cases "uint b < 128"; simp only: s_def if_True if_False; linarith)+
  have "-128 * k \<le> s * k" using s(1) by (intro mult_right_mono) (auto simp: k_def)
  moreover have "(s + 1) * k \<le> 128 * k" using s(2) by (intro mult_right_mono) (auto simp: k_def)
  then have "s * k + k \<le> 128 * k" by (simp only: distrib_right mult_1_left)
  ultimately show ?thesis
    using be_int_bounds [of bs] unfolding twos_complement.simps s_def [symmetric] k_def [symmetric]
    by linarith
qed

lemma twos_complement_nonneg_iff: "0 \<le> twos_complement (b # bs) \<longleftrightarrow> uint b < 128"
proof (cases "uint b < 128")
  case True
  then show ?thesis using be_int_bounds [of bs] uint_u8 [of b] by simp
next
  case False
  have "(uint b - 256) * 256 ^ length bs \<le> (-1) * 256 ^ length bs"
    using uint_u8 [of b] by (intro mult_right_mono) auto
  then show ?thesis using False be_int_bounds [of bs] by simp
qed

text \<open>A longer encoding is only needed if the shorter ones cannot reach the value; one
  that starts with nine equal bits has a shorter one.\<close>

definition redundant :: "u8 list \<Rightarrow> bool" where
  "redundant v \<longleftrightarrow>
     (case v of b # c # _ \<Rightarrow> (b = 0 \<and> uint c < 128) \<or> (b = 0xff \<and> \<not> uint c < 128) | _ \<Rightarrow> False)"

definition shortest :: "u8 list \<Rightarrow> bool" where
  "shortest v \<longleftrightarrow> v \<noteq> [] \<and>
     (\<forall>w. w \<noteq> [] \<and> twos_complement w = twos_complement v \<longrightarrow> length v \<le> length w)"

lemma redundant_shorter:
  assumes "redundant v"
  shows "\<exists>w. w \<noteq> [] \<and> length w < length v \<and> twos_complement w = twos_complement v"
proof -
  obtain b c bs where v: "v = b # c # bs"
    and "b = 0 \<and> uint c < 128 \<or> uint b = 255 \<and> \<not> uint c < 128"
    using assms uint_ff by (auto simp only: redundant_def split: list.splits)
  then have "twos_complement (c # bs) = twos_complement v" by (auto simp: algebra_simps)
  then show ?thesis using v by (intro exI [of _ "c # bs"]) simp
qed

lemma not_redundant_large:
  assumes "\<not> redundant (b # c # bs)"
  shows "twos_complement (b # c # bs) < - (128 * 256 ^ length bs) \<or>
         128 * 256 ^ length bs \<le> twos_complement (b # c # bs)"
proof -
  define k where "k = (256 :: int) ^ length bs"
  have k: "0 < k" by (simp add: k_def)
  define s where "s = (if uint b < 128 then uint b else uint b - 256)"
  have val: "twos_complement (b # c # bs) = (256 * s + uint c) * k + be_int bs"
    by (simp add: algebra_simps s_def k_def)
  note be = be_int_bounds [of bs, folded k_def]
  have "b = 0 \<longleftrightarrow> uint b = 0" "b = 0xff \<longleftrightarrow> uint b = 255"
    by (simp_all add: word_uint_eq_iff)
  then have nr: "uint b = 0 \<Longrightarrow> \<not> uint c < 128" "uint b = 255 \<Longrightarrow> uint c < 128"
    using assms by (simp_all add: redundant_def)
  define n where "n = uint c"
  have n_bounds: "0 \<le> n" "n < 256" using uint_u8 [of c] by (simp_all add: n_def)
  have "256 * s + uint c + 1 \<le> -128 \<or> 128 \<le> 256 * s + uint c"
  proof (cases "uint b < 128")
    case True
    moreover have "uint b = 0 \<or> 1 \<le> uint b" using uint_u8 [of b] by linarith
    ultimately show ?thesis using nr n_bounds unfolding s_def n_def [symmetric] by auto
  next
    case False
    moreover have "uint b = 255 \<or> uint b \<le> 254" using uint_u8 [of b] by linarith
    ultimately show ?thesis using nr n_bounds unfolding s_def n_def [symmetric] by auto
  qed
  then show ?thesis
  proof
    assume "256 * s + uint c + 1 \<le> -128"
    then have "(256 * s + uint c + 1) * k \<le> -128 * k"
      using k by (intro mult_right_mono) auto
    then have "(256 * s + uint c) * k + k \<le> -128 * k"
      by (simp only: distrib_right mult_1_left)
    then show ?thesis unfolding val k_def [symmetric] using be by linarith
  next
    assume "128 \<le> 256 * s + uint c"
    then have "128 * k \<le> (256 * s + uint c) * k"
      using k by (intro mult_right_mono) auto
    then show ?thesis unfolding val k_def [symmetric] using be by linarith
  qed
qed

lemma shortest_iff: "shortest v \<longleftrightarrow> v \<noteq> [] \<and> \<not> redundant v"
proof
  assume "shortest v"
  then show "v \<noteq> [] \<and> \<not> redundant v"
    using redundant_shorter unfolding shortest_def by (meson not_le)
next
  assume A: "v \<noteq> [] \<and> \<not> redundant v"
  have "length v \<le> length w" if w: "w \<noteq> []" "twos_complement w = twos_complement v" for w
  proof (rule ccontr)
    assume short: "\<not> length v \<le> length w"
    obtain x ws where ws: "w = x # ws" using w by (cases w) auto
    obtain b c bs where v: "v = b # c # bs"
      using short ws by (cases v; cases "tl v") auto
    have "(256 :: int) ^ length ws \<le> 256 ^ length bs"
      using short ws v by (intro power_increasing) auto
    then show False
      using not_redundant_large [of b c bs] twos_complement_bounds [of ws x] A
      unfolding w(2) [unfolded ws v] v by linarith
  qed
  with A show "shortest v" unfolding shortest_def by blast
qed

section \<open>What the decoders accept\<close>

lemma fst_MatchRest_Reader_of [simp]:
  "wf_Input v \<Longrightarrow> fst (MatchRest (Reader_of v) bs) \<longleftrightarrow> v = bs"
  by (simp add: MatchRest_spec)

lemma Read8_Reader_of:
  "wf_Input v \<Longrightarrow>
     Read8 (Reader_of v) = (case v of [] \<Rightarrow> Inl ERROR_BAD_DER | b # _ \<Rightarrow> Inr (b, advance 1 (Reader_of v)))"
  by (simp add: Read8_spec)

lemma AtEnd_advance_Reader_of:
  "wf_Input v \<Longrightarrow> n \<le> length v \<Longrightarrow> AtEnd (advance n (Reader_of v)) \<longleftrightarrow> length v = n"
  by (simp add: AtEnd_iff)

lemma Boolean_iff:
  assumes wf: "wf_Reader r"
  shows "Boolean r = Inr (b, r') \<longleftrightarrow> tlv_at r BOOLEAN [if b then 0xFF else 0] r'"
proof -
  have "Boolean r = Inr (b, r') \<longleftrightarrow>
      (\<exists>v q. tlv_at r BOOLEAN v q \<and> (q = r' \<and> v = [if b then 0xFF else 0]))"
    unfolding Boolean_def
  proof (rule ExpectTagAndGetReader_then [OF wf])
    fix v q assume "wf_Input v"
    then show "(case Read8 (Reader_of v) of Inl e \<Rightarrow> Inl e | Inr (i, s) \<Rightarrow>
          case End s of Inl e \<Rightarrow> Inl e | Inr _ \<Rightarrow>
          if i = 0 then Inr (False, q) else if i = 0xFF then Inr (True, q) else Inl ERROR_BAD_DER)
        = Inr (b, r') \<longleftrightarrow> q = r' \<and> v = [if b then 0xFF else 0]"
      by (cases v) (simp_all add: Read8_Reader_of End_def AtEnd_advance_Reader_of)
  qed
  then show ?thesis by blast
qed

lemma and_80_eq_iff:
  "(b :: u8) AND 0x80 = c AND 0x80 \<longleftrightarrow> (uint b < 128 \<longleftrightarrow> uint c < 128)"
proof -
  have u: "unat b < 128 \<longleftrightarrow> uint b < 128" for b :: u8
    by (metis (mono_tags) uint_nat of_nat_less_iff of_nat_numeral)
  have "x AND push_bit 7 1 = (if bit x 7 then push_bit 7 1 else 0)" for x :: u8
    by (rule bit_eqI)
      (simp only: bit_and_iff bit_push_bit_iff bit_1_iff bit_0_eq diff_is_0_eq split: if_splits;
        auto dest: le_antisym)
  then have "x AND 0x80 = (if bit x 7 then 0x80 else 0)" for x :: u8
    by simp
  then show ?thesis
    using high_bit_clear_iff [of b] high_bit_clear_iff [of c]
    unfolding u by (auto split: if_splits)
qed

fun allowed :: "IntegralValueRestriction \<Rightarrow> int \<Rightarrow> bool" where
  "allowed NoRestriction n \<longleftrightarrow> True"
| "allowed MustBePositive n \<longleftrightarrow> 0 < n"
| "allowed MustBe0To127 n \<longleftrightarrow> 0 \<le> n \<and> n \<le> 127"

lemma shortestD:
  "shortest v \<Longrightarrow> w \<noteq> [] \<Longrightarrow> twos_complement w = twos_complement v \<Longrightarrow> length v \<le> length w"
  by (simp add: shortest_def)

lemma twos_complement_single: "uint (b :: u8) < 128 \<Longrightarrow> twos_complement [b] = uint b"
  by simp

lemma shortest_positive_iff:
  assumes v: "shortest (b # bs)"
  shows "0 < twos_complement (b # bs) \<longleftrightarrow> uint b < 128 \<and> \<not> (b = 0 \<and> bs = [])"
proof -
  have "b # bs = [0]" if "twos_complement (b # bs) = 0"
  proof -
    have "length (b # bs) \<le> length [0 :: u8]"
      using v that by (intro shortestD) simp_all
    then have bs: "bs = []" by simp
    moreover have "uint b = 0"
      using that bs uint_u8 [of b] by (simp split: if_splits)
    ultimately show ?thesis by (simp add: word_uint_eq_iff)
  qed
  then have "twos_complement (b # bs) = 0 \<longleftrightarrow> b = 0 \<and> bs = []" by force
  then show ?thesis
    using twos_complement_nonneg_iff [of b bs] by linarith
qed

lemma shortest_small_iff:
  assumes v: "shortest (b # bs)"
  shows "0 \<le> twos_complement (b # bs) \<and> twos_complement (b # bs) \<le> 127 \<longleftrightarrow> uint b < 128 \<and> bs = []"
proof
  assume n: "0 \<le> twos_complement (b # bs) \<and> twos_complement (b # bs) \<le> 127"
  define x :: u8 where "x = word_of_int (twos_complement (b # bs))"
  have "uint x = twos_complement (b # bs)"
    using n by (simp only: x_def uint_word_of_int) simp
  then have "twos_complement [x] = twos_complement (b # bs)"
    using n twos_complement_single [of x] by linarith
  then have "length (b # bs) \<le> 1"
    using shortestD [OF v, of "[x]"] by simp
  then show "uint b < 128 \<and> bs = []" using n twos_complement_nonneg_iff [of b bs] by auto
next
  assume A: "uint b < 128 \<and> bs = []"
  then have "twos_complement (b # bs) = uint b" using twos_complement_single by blast
  then show "0 \<le> twos_complement (b # bs) \<and> twos_complement (b # bs) \<le> 127"
    using A uint_u8 [of b] by linarith
qed

text \<open>How many bytes carry the value: all but a sign byte.\<close>

fun significant :: "u8 list \<Rightarrow> nat" where
  "significant (b # c # bs) = (if b = 0 \<or> b = 0xff then Suc (length bs) else Suc (Suc (length bs)))"
| "significant v = length v"

lemma high_bit_uint_iff: "(b :: u8) AND 0x80 = 0 \<longleftrightarrow> uint b < 128"
  using and_80_eq_iff [of b 0] by simp

lemma GetLength_eq_1: "wf_Input v \<Longrightarrow> GetLength v = 1 \<longleftrightarrow> length v = 1"
  using GetLength_wf [of v] by (auto simp: word_unat_eq_iff)

lemma IntegralBytes_eq:
  assumes wf: "wf_Reader r"
  shows "IntegralBytes r t k =
    (case ExpectTagAndGetValue r t of Inl e \<Rightarrow> Inl e | Inr (v, q) \<Rightarrow>
     if shortest v \<and> allowed k (twos_complement v) then Inr ((v, of_nat (significant v)), q)
     else Inl ERROR_INVALID_INTEGER_ENCODING)"
proof (cases "ExpectTagAndGetValue r t")
  case (Inl e)
  then show ?thesis by (simp add: IntegralBytes_def)
next
  case (Inr p)
  then obtain v q where p: "ExpectTagAndGetValue r t = Inr (v, q)" by (cases p) auto
  then have wv: "wf_Input v" using tlv_at_wf [OF _ wf] by (simp add: ExpectTagAndGetValue_iff [OF wf])
  note hb = high_bit_uint_iff and_80_eq_iff GetLength_eq_1 [OF wv]
  consider "v = []" | b where "v = [b]" | b c bs where "v = b # c # bs"
    by (metis list.exhaust)
  then show ?thesis
  proof cases
    case 1
    then show ?thesis using wv by (simp add: IntegralBytes_def p Read8_Reader_of shortest_iff)
  next
    case (2 b)
    have s: "shortest v" using 2 by (simp add: shortest_iff redundant_def)
    obtain u where rd: "Read8 (Reader_of v) = Inr (b, u)" "AtEnd u"
      using wv 2 by (simp add: Read8_Reader_of AtEnd_iff)
    have sig: "GetLength v = of_nat (significant v)" "GetLength v = 1"
      using 2 by (simp_all add: GetLength_def)
    have ok: "allowed k (twos_complement v) \<longleftrightarrow>
        (case k of NoRestriction \<Rightarrow> True | MustBePositive \<Rightarrow> uint b < 128 \<and> b \<noteq> 0
         | MustBe0To127 \<Rightarrow> uint b < 128)"
      using shortest_positive_iff [OF s [unfolded 2]] shortest_small_iff [OF s [unfolded 2]] 2
      by (cases k) (simp_all del: twos_complement.simps)
    show ?thesis
      using s sig ok
      by (cases k) (simp_all add: IntegralBytes_def p rd hb)
  next
    case (3 b c bs)
    obtain u u' where rd: "Read8 (Reader_of v) = Inr (b, u)" "\<not> AtEnd u" "Read8 u = Inr (c, u')"
      using wv 3 by (simp add: Read8_spec AtEnd_iff)
    have len: "GetLength v \<noteq> 1" unfolding hb(3) using 3 by simp
    show ?thesis
    proof (cases "shortest v")
      case True
      then have nr: "b = 0 \<or> b = 0xff \<Longrightarrow> (uint b < 128) \<noteq> (uint c < 128)"
        using 3 uint_ff by (auto simp only: shortest_iff redundant_def list.case uint_0_eq)
      have sig: "(if b = 0 \<or> b = 0xff then GetLength v - 1 else GetLength v) = of_nat (significant v)"
        using 3 by (simp add: GetLength_def)
      have ok: "allowed k (twos_complement v) \<longleftrightarrow>
          (case k of NoRestriction \<Rightarrow> True | MustBePositive \<Rightarrow> uint b < 128 | MustBe0To127 \<Rightarrow> False)"
        using shortest_positive_iff [OF True [unfolded 3]] shortest_small_iff [OF True [unfolded 3]] 3
        by (cases k) simp_all
      show ?thesis
      proof (cases "b = 0 \<or> b = 0xff")
        case pre: True
        then have "\<not> (b AND 0x80 = c AND 0x80)" using nr by (simp only: hb) simp
        then show ?thesis
          using True sig pre ok
          by (cases k) (simp_all add: IntegralBytes_def p rd len high_bit_uint_iff Let_def)
      next
        case pre: False
        then show ?thesis
          using True sig ok len
          by (cases k) (simp_all add: IntegralBytes_def p rd high_bit_uint_iff Let_def)
      qed
    next
      case False
      then have "b = 0 \<and> uint c < 128 \<or> b = 0xff \<and> \<not> uint c < 128"
        using 3 by (simp add: shortest_iff redundant_def)
      then have pre: "(b = 0 \<or> b = 0xff) \<and> (uint b < 128 \<longleftrightarrow> uint c < 128)"
        using uint_ff by (elim disjE conjE) simp_all
      then have "b AND 0x80 = c AND 0x80" by (simp only: hb)
      then show ?thesis
        using pre False by (simp add: IntegralBytes_def p rd Let_def)
    qed
  qed
qed

lemma IntegralBytes_iff:
  assumes wf: "wf_Reader r"
  shows "IntegralBytes r t k = Inr ((v, n), r') \<longleftrightarrow>
    tlv_at r t v r' \<and> shortest v \<and> allowed k (twos_complement v) \<and> n = of_nat (significant v)"
  unfolding IntegralBytes_eq [OF wf] case_sum_prod_Inr_iff ExpectTagAndGetValue_iff [OF wf]
  by auto

lemma shortest_small_single:
  "shortest v \<and> allowed MustBe0To127 (twos_complement v) \<longleftrightarrow> (\<exists>b. v = [b] \<and> uint b < 128)"
proof (cases v)
  case (Cons b bs)
  have "shortest [b]" by (simp add: shortest_iff redundant_def)
  then show ?thesis
    using shortest_small_iff [of b bs] unfolding Cons allowed.simps by blast
qed (simp add: shortest_iff)

lemma IntegralValue_iff:
  assumes wf: "wf_Reader r"
  shows "IntegralValue r t = Inr (b, r') \<longleftrightarrow> uint b < 128 \<and> tlv_at r t [b] r'"
proof -
  have one: "(case Read8 (Reader_of [c]) of Inl e \<Rightarrow> NotReached e | Inr (x, s) \<Rightarrow>
      case End s of Inl e \<Rightarrow> Inl e | Inr _ \<Rightarrow> Inr (x, q)) = Inr (c, q)" for c :: u8 and q :: Reader
  proof -
    have "wf_Input [c]" by (simp add: wf_Input_def MAX_INPUT_def)
    then obtain s where "Read8 (Reader_of [c]) = Inr (c, s)" "AtEnd s"
      by (simp add: Read8_Reader_of AtEnd_iff)
    then show ?thesis by (simp add: End_def)
  qed
  have "IntegralValue r t = Inr (b, r') \<longleftrightarrow>
      (\<exists>v n. IntegralBytes r t MustBe0To127 = Inr ((v, n), r') \<and> v = [b])"
    (is "_ \<longleftrightarrow> ?R")
  proof
    assume "IntegralValue r t = Inr (b, r')"
    then obtain v n q where i: "IntegralBytes r t MustBe0To127 = Inr ((v, n), q)"
      and rest: "(case Read8 (Reader_of v) of Inl e \<Rightarrow> NotReached e | Inr (x, s) \<Rightarrow>
        case End s of Inl e \<Rightarrow> Inl e | Inr _ \<Rightarrow> Inr (x, q)) = Inr (b, r')"
      unfolding IntegralValue_def case_sum_prod_Inr_iff split_paired_Ex prod.case by blast
    obtain c where "v = [c]"
      using i shortest_small_single unfolding IntegralBytes_iff [OF wf] by blast
    then show ?R using i rest one by auto
  next
    assume ?R
    then show "IntegralValue r t = Inr (b, r')"
      by (auto simp: IntegralValue_def one)
  qed
  then show ?thesis
    unfolding IntegralBytes_iff [OF wf] using shortest_small_single by blast
qed

lemma CertificateSerialNumber_iff:
  "wf_Reader r \<Longrightarrow>
     CertificateSerialNumber r = Inr (v, r') \<longleftrightarrow> tlv_at r INTEGER v r' \<and> shortest v"
  by (auto simp: CertificateSerialNumber_def case_sum_prod_Inr_iff IntegralBytes_iff)

lemma BitStringWithNoUnusedBits_iff:
  assumes wf: "wf_Reader r"
  shows "BitStringWithNoUnusedBits r = Inr (v, r') \<longleftrightarrow> tlv_at r BIT_STRING (0 # v) r'"
proof -
  have "BitStringWithNoUnusedBits r = Inr (v, r') \<longleftrightarrow>
      (\<exists>w q. tlv_at r BIT_STRING w q \<and> (q = r' \<and> w = 0 # v))"
    unfolding BitStringWithNoUnusedBits_def
  proof (rule ExpectTagAndGetReader_then [OF wf], goal_cases)
    case (1 w q)
    show ?case
    proof (cases w)
      case Nil
      then show ?thesis using 1 by (simp add: Read8_Reader_of)
    next
      case (Cons b bs)
      define u where "u = advance 1 (Reader_of w)"
      have u: "Read8 (Reader_of w) = Inr (b, u)" "wf_Reader u" "remaining u = bs"
        using 1 Cons by (simp_all add: Read8_Reader_of u_def)
      show ?thesis unfolding u using u Cons by (auto simp: SkipToEndInput_spec)
    qed
  qed
  then show ?thesis by blast
qed

lemma OID_iff:
  assumes wf: "wf_Reader r"
  shows "OID r oid = Inr r' \<longleftrightarrow> tlv_at r OIDTag oid r'"
proof -
  have "OID r oid = Inr r' \<longleftrightarrow> (\<exists>v q. tlv_at r OIDTag v q \<and> (v = oid \<and> q = r'))"
    unfolding OID_def by (rule ExpectTagAndGetReader_then [OF wf]) auto
  then show ?thesis by blast
qed

section \<open>Algorithm identifiers and signed data, on their encodings\<close>

lemma tlv_at_intro:
  assumes "t AND 0x1F \<noteq> 0x1F" "wf_Input v" "remaining r = encode_tlv t v @ rest"
  obtains q where "tlv_at r t v q" "remaining q = rest"
proof
  show "tlv_at r t v (advance (length (encode_tlv t v)) r)"
    using assms by (auto simp: tlv_at_def)
  show "remaining (advance (length (encode_tlv t v)) r) = rest"
    using assms by simp
qed

lemma tlv_at_end_iff:
  assumes w: "wf_Input w"
  shows "tlv_at (Reader_of w) t v s \<and> AtEnd s \<longleftrightarrow>
    t AND 0x1F \<noteq> 0x1F \<and> wf_Input v \<and> w = encode_tlv t v \<and> s = advance (length w) (Reader_of w)"
proof -
  have "wf_Reader (Reader_of w)" using w by simp
  then have "tlv_at (Reader_of w) t v s \<Longrightarrow> AtEnd s \<longleftrightarrow> remaining s = []"
    using tlv_at_wf by (metis AtEnd_iff)
  moreover have "AtEnd (advance (length w) (Reader_of w))"
    using w by (simp add: AtEnd_iff)
  ultimately show ?thesis using w by (auto simp: tlv_at_def)
qed

lemma Peek_encode_tlv: "wf_Reader r \<Longrightarrow> remaining r = encode_tlv t v @ rest \<Longrightarrow> Peek r u \<longleftrightarrow> t = u"
  by (auto simp: Peek_iff encode_tlv_def)

definition alg_id_at :: "Reader \<Rightarrow> Input \<Rightarrow> Reader \<Rightarrow> bool" where
  "alg_id_at r oid r' \<longleftrightarrow>
     (\<exists>q. tlv_at r OIDTag oid q \<and> (if Peek q NULLTag then tlv_at q NULLTag [] r' else r' = q))"

lemma alg_id_at_reads: "alg_id_at r oid r' \<Longrightarrow> reads r r'"
  unfolding alg_id_at_def using tlv_at_reads reads_trans by (metis (full_types))

lemma alg_id_at_wf: "alg_id_at r oid r' \<Longrightarrow> wf_Reader r \<Longrightarrow> wf_Reader r' \<and> wf_Input oid"
  using alg_id_at_reads reads_wf tlv_at_wf unfolding alg_id_at_def by blast

lemma AlgorithmIdentifierValue_iff:
  assumes wf: "wf_Reader r"
  shows "AlgorithmIdentifierValue r = Inr (s, r') \<longleftrightarrow> (\<exists>oid. alg_id_at r oid r' \<and> s = Reader_of oid)"
proof -
  have "AlgorithmIdentifierValue r = Inr (s, r') \<longleftrightarrow>
     (\<exists>oid q. tlv_at r OIDTag oid q \<and>
       (s = Reader_of oid \<and> (if Peek q NULLTag then tlv_at q NULLTag [] r' else r' = q)))"
    unfolding AlgorithmIdentifierValue_def
    by (rule ExpectTagAndGetReader_then [OF wf])
      (auto simp: OptionalNull_def Null_def case_sum_Inr_iff ExpectTagAndEmptyValue_iff)
  then show ?thesis unfolding alg_id_at_def by blast
qed

lemma AlgorithmIdentifierValue_then:
  assumes "wf_Reader r"
    and "\<And>oid q. wf_Input oid \<Longrightarrow> wf_Reader q \<Longrightarrow> f (Reader_of oid) q = Inr y \<longleftrightarrow> P oid q"
  shows "(case AlgorithmIdentifierValue r of Inl e \<Rightarrow> Inl e | Inr (s, q) \<Rightarrow> f s q) = Inr y \<longleftrightarrow>
    (\<exists>oid q. alg_id_at r oid q \<and> P oid q)"
  unfolding case_sum_prod_Inr_iff AlgorithmIdentifierValue_iff [OF assms(1)]
  using assms(2) alg_id_at_wf [OF _ assms(1)] by blast

definition signature_algorithms :: "(u8 list \<times> PublicKeyAlgorithm \<times> DigestAlgorithm) list" where
  "signature_algorithms =
    [(sha256WithRSAEncryption, RSA_PKCS1, sha256), (ecdsa_with_SHA256, ECDSA, sha256),
     (sha_1WithRSAEncryption, RSA_PKCS1, sha1), (ecdsa_with_SHA1, ECDSA, sha1),
     (ecdsa_with_SHA384, ECDSA, sha384), (ecdsa_with_SHA512, ECDSA, sha512),
     (sha384WithRSAEncryption, RSA_PKCS1, sha384), (sha512WithRSAEncryption, RSA_PKCS1, sha512),
     (sha1WithRSASignature, RSA_PKCS1, sha1)]"

lemma signature_algorithms_distinct: "distinct (map fst signature_algorithms)"
  by code_simp

lemma SignatureAlgorithmIdentifierValue_iff:
  assumes wf: "wf_Reader r"
  shows "SignatureAlgorithmIdentifierValue r = Inr (alg, r') \<longleftrightarrow>
    (\<exists>oid. (oid, alg) \<in> set signature_algorithms \<and> alg_id_at r oid r')"
proof -
  have "SignatureAlgorithmIdentifierValue r = Inr (alg, r') \<longleftrightarrow>
     (\<exists>oid q. alg_id_at r oid q \<and> (map_of signature_algorithms oid = Some alg \<and> q = r'))"
    unfolding SignatureAlgorithmIdentifierValue_def
    by (rule AlgorithmIdentifierValue_then [OF wf]) (simp add: signature_algorithms_def)
  then show ?thesis
    using map_of_eq_Some_iff [OF signature_algorithms_distinct] by auto
qed

definition digest_algorithms :: "(u8 list \<times> DigestAlgorithm) list" where
  "digest_algorithms =
    [(id_sha1, sha1), (id_sha256, sha256), (id_sha384, sha384), (id_sha512, sha512)]"

lemma digest_algorithms_distinct: "distinct (map fst digest_algorithms)"
  by code_simp

lemma DigestAlgorithmIdentifier_iff:
  assumes wf: "wf_Reader r"
  shows "DigestAlgorithmIdentifier r = Inr (alg, r') \<longleftrightarrow>
    (\<exists>v oid q. tlv_at r SEQUENCE v r' \<and> (oid, alg) \<in> set digest_algorithms \<and>
      alg_id_at (Reader_of v) oid q \<and> AtEnd q)"
proof -
  have "(case AlgorithmIdentifierValue s of Inl e \<Rightarrow> Inl e | Inr (algorithmID, r) \<Rightarrow>
       if fst (MatchRest algorithmID id_sha1) then Inr (sha1, r)
       else if fst (MatchRest algorithmID id_sha256) then Inr (sha256, r)
       else if fst (MatchRest algorithmID id_sha384) then Inr (sha384, r)
       else if fst (MatchRest algorithmID id_sha512) then Inr (sha512, r)
       else Inl ERROR_INVALID_ALGORITHM) = Inr (a, s') \<longleftrightarrow>
     (\<exists>oid q. alg_id_at s oid q \<and> (map_of digest_algorithms oid = Some a \<and> q = s'))"
    if "wf_Reader s" for s a s'
    by (rule AlgorithmIdentifierValue_then [OF that]) (simp add: digest_algorithms_def)
  note dec = this [unfolded map_of_eq_Some_iff [OF digest_algorithms_distinct]]
  have "wf_Reader (Reader_of v)" if "tlv_at r SEQUENCE v r'" for v
    using tlv_at_wf [OF that wf] by simp
  then show ?thesis
    unfolding DigestAlgorithmIdentifier_def Nested_iff [OF wf] whole_iff using dec by blast
qed

text \<open>The signed bytes are the exact encoding of the first sequence.\<close>

lemma SignedData_iff:
  assumes wf: "wf_Reader r"
  shows "SignedData r = Inr ((tbs, sd), r') \<longleftrightarrow>
    (\<exists>v q q'. tlv_at r SEQUENCE v q \<and> tlv_at q SEQUENCE (sds_algorithm sd) q' \<and>
      tlv_at q' BIT_STRING (0 # sds_signature sd) r' \<and>
      tbs = Reader_of v \<and> sds_data sd = encode_tlv SEQUENCE v)"
proof -
  let ?f = "\<lambda>tbs q. case GetInput q (GetMark r) of Inl e \<Rightarrow> Inl e | Inr data \<Rightarrow>
      case ExpectTagAndGetValue q SEQUENCE of Inl e \<Rightarrow> Inl e | Inr (algorithm, q') \<Rightarrow>
      case BitStringWithNoUnusedBits q' of
        Inl e \<Rightarrow> Inl (if e = ERROR_BAD_DER then ERROR_BAD_SIGNATURE else e)
      | Inr (signature, q'') \<Rightarrow>
          Inr ((tbs, \<lparr>sds_data = data, sds_algorithm = algorithm, sds_signature = signature\<rparr>), q'')"
  have cut: "GetInput q (GetMark r) = Inr (encode_tlv SEQUENCE v)" if "tlv_at r SEQUENCE v q" for v q
    using ExpectTagAndGetTLV_iff [OF wf, of SEQUENCE "encode_tlv SEQUENCE v" q] that
    by (auto simp: ExpectTagAndGetTLV_def Let_def case_sum_Inr_iff ExpectTagAndSkipValue_iff [OF wf])
  have rest: "?f s q = Inr ((tbs, sd), r') \<longleftrightarrow>
      (\<exists>q'. tlv_at q SEQUENCE (sds_algorithm sd) q' \<and>
        tlv_at q' BIT_STRING (0 # sds_signature sd) r' \<and>
        tbs = s \<and> sds_data sd = encode_tlv SEQUENCE v)"
    if "tlv_at r SEQUENCE v q" for s v q
  proof -
    have wfq: "wf_Reader q" using tlv_at_wf [OF that wf] ..
    have inj: "\<lparr>sds_data = d, sds_algorithm = a, sds_signature = g\<rparr> = sd \<longleftrightarrow>
        sds_data sd = d \<and> sds_algorithm sd = a \<and> sds_signature sd = g" for d a g
      by (cases sd) auto
    have "?f s q = Inr ((tbs, sd), r') \<longleftrightarrow>
      (\<exists>a q'. tlv_at q SEQUENCE a q' \<and> (\<exists>g. tlv_at q' BIT_STRING (0 # g) r' \<and>
        tbs = s \<and> sds_data sd = encode_tlv SEQUENCE v \<and> sds_algorithm sd = a \<and> sds_signature sd = g))"
      unfolding cut [OF that] sum.case
    proof (rule ExpectTagAndGetValue_then [OF wfq])
      fix a q' assume "wf_Reader q'"
      note bs = BitStringWithNoUnusedBits_iff [OF this]
      show "(case BitStringWithNoUnusedBits q' of
          Inl e \<Rightarrow> Inl (if e = ERROR_BAD_DER then ERROR_BAD_SIGNATURE else e)
        | Inr (signature, q'') \<Rightarrow>
            Inr ((s, \<lparr>sds_data = encode_tlv SEQUENCE v, sds_algorithm = a, sds_signature = signature\<rparr>), q''))
          = Inr ((tbs, sd), r') \<longleftrightarrow>
          (\<exists>g. tlv_at q' BIT_STRING (0 # g) r' \<and> tbs = s \<and> sds_data sd = encode_tlv SEQUENCE v \<and>
            sds_algorithm sd = a \<and> sds_signature sd = g)"
        unfolding bs [symmetric] by (auto simp: inj split: sum.splits)
    qed
    then show ?thesis by blast
  qed
  show ?thesis
    unfolding SignedData_def Let_def case_sum_prod_Inr_iff [where m = "ExpectTagAndGetReader r SEQUENCE"]
      ExpectTagAndGetReader_iff [OF wf]
    using rest by blast
qed

section \<open>Versions and extensions, on their encodings\<close>

lemma OptionalBoolean_iff:
  "wf_Reader r \<Longrightarrow> OptionalBoolean r = Inr (b, r') \<longleftrightarrow>
    (if Peek r BOOLEAN then tlv_at r BOOLEAN [if b then 0xFF else 0] r' else b = False \<and> r' = r)"
  unfolding OptionalBoolean_def by (auto simp only: Boolean_iff split: if_splits)

definition version_of :: "u8 \<Rightarrow> Version option" where
  "version_of n = map_of [(0, v1), (1, v2), (2, v3), (3, v4)] n"

lemma OptionalVersion_iff:
  assumes wf: "wf_Reader r"
  shows "OptionalVersion r = Inr (v, r') \<longleftrightarrow>
    (if Peek r 0xA0
     then \<exists>n. version_of n = Some v \<and> tlv_at r 0xA0 (encode_tlv INTEGER [n]) r'
     else v = v1 \<and> r' = r)"
proof -
  have tag: "CONTEXT_SPECIFIC OR CONSTRUCTED OR 0 = 0xA0" by simp
  define d where "d = (\<lambda>r. case Integer r of Inl e \<Rightarrow> Inl e | Inr (integerValue, r) \<Rightarrow>
          if integerValue = 2 then Inr (v3, r)
          else if integerValue = 1 then Inr (v2, r)
          else if integerValue = 0 then Inr (v1, r)
          else if integerValue = 3 then Inr (v4, r)
          else Inl ERROR_BAD_DER)"
  have small: "version_of n = Some v \<Longrightarrow> uint n < 128" for n
    by (auto simp: version_of_def split: if_splits)
  have dec: "d s = Inr (v, s') \<longleftrightarrow> (\<exists>n. version_of n = Some v \<and> tlv_at s INTEGER [n] s')"
    if "wf_Reader s" for s s'
  proof -
    have "d s = (case Integer s of Inl e \<Rightarrow> Inl e | Inr (n, s) \<Rightarrow>
        case version_of n of None \<Rightarrow> Inl ERROR_BAD_DER | Some v \<Rightarrow> Inr (v, s))"
      unfolding d_def version_of_def by (simp cong: sum.case_cong split: sum.splits)
    then have "d s = Inr (v, s') \<longleftrightarrow> (\<exists>n. Integer s = Inr (n, s') \<and> version_of n = Some v)"
      by (auto simp: case_sum_prod_Inr_iff split: option.splits)
    then show ?thesis
      using small unfolding Integer_def IntegralValue_iff [OF that] by blast
  qed
  have end_iff: "tlv_at (Reader_of w) INTEGER [n] s \<and> AtEnd s \<longleftrightarrow>
      w = encode_tlv INTEGER [n] \<and> s = advance (length w) (Reader_of w)" if "wf_Input w" for w n s
    unfolding tlv_at_end_iff [OF that] by (auto simp: wf_Input_def MAX_INPUT_def)
  have "Nested r 0xA0 d = Inr (v, r') \<longleftrightarrow>
      (\<exists>n. version_of n = Some v \<and> tlv_at r 0xA0 (encode_tlv INTEGER [n]) r')"
  proof -
    have "whole d w = Inr v \<longleftrightarrow> (\<exists>n. version_of n = Some v \<and> w = encode_tlv INTEGER [n])"
      if w: "wf_Input w" for w
    proof -
      have "wf_Reader (Reader_of w)" using w by simp
      from dec [OF this] show ?thesis
        unfolding whole_iff using end_iff [OF w] by blast
    qed
    then show ?thesis
      unfolding Nested_iff [OF wf] using tlv_at_wf [OF _ wf] by blast
  qed
  then show ?thesis
    unfolding OptionalVersion_def Let_def tag d_def by auto
qed

text \<open>An \<open>Extension\<close> whose \<open>critical\<close> is false may leave it out or spell it out.\<close>

definition encodes_extension :: "Input \<Rightarrow> Input \<Rightarrow> bool \<Rightarrow> Input \<Rightarrow> bool" where
  "encodes_extension w oid c v \<longleftrightarrow>
     wf_Input oid \<and> wf_Input v \<and>
     (\<exists>spelled_out. (c \<longrightarrow> spelled_out) \<and>
        w = encode_tlv OIDTag oid @
          ((if spelled_out then encode_tlv BOOLEAN [if c then 0xFF else 0] else []) @
           encode_tlv OCTET_STRING v))"

text \<open>The fields of an extension as the decoder walks over them.\<close>

definition extension_fields :: "Reader \<Rightarrow> Input \<Rightarrow> bool \<Rightarrow> Input \<Rightarrow> Reader \<Rightarrow> bool" where
  "extension_fields r oid c v q \<longleftrightarrow>
     (\<exists>q1 q2. tlv_at r OIDTag oid q1 \<and> OptionalBoolean q1 = Inr (c, q2) \<and> tlv_at q2 OCTET_STRING v q)"

lemma OptionalBoolean_wf: "wf_Reader r \<Longrightarrow> OptionalBoolean r = Inr (c, q) \<Longrightarrow> wf_Reader q"
  using tlv_at_wf by (auto simp: OptionalBoolean_iff split: if_splits)

lemma OptionalBoolean_encode:
  assumes wf: "wf_Reader r" and rest: "remaining r = (if e then encode_tlv BOOLEAN [if c then 0xFF else 0] else []) @ encode_tlv OCTET_STRING v"
    and e: "c \<longrightarrow> e"
  obtains q where "OptionalBoolean r = Inr (c, q)" "remaining q = encode_tlv OCTET_STRING v"
proof (cases e)
  case True
  have "wf_Input [if c then 0xFF else 0 :: u8]" by (simp add: wf_Input_def MAX_INPUT_def)
  then obtain q where "tlv_at r BOOLEAN [if c then 0xFF else 0] q" "remaining q = encode_tlv OCTET_STRING v"
    using tlv_at_intro [of BOOLEAN "[if c then 0xFF else 0]" r "encode_tlv OCTET_STRING v"] True rest
    by auto
  moreover have "Peek r BOOLEAN" using Peek_encode_tlv [OF wf] rest True by (metis (full_types))
  ultimately show ?thesis using that OptionalBoolean_iff [OF wf] by simp
next
  case False
  then have "\<not> Peek r BOOLEAN"
    using Peek_encode_tlv [OF wf, of OCTET_STRING v "[]"] rest by simp
  then show ?thesis using that e False rest OptionalBoolean_iff [OF wf] by simp
qed

lemma extension_fields_encoded:
  assumes wf: "wf_Reader r" and f: "extension_fields r oid c v q" "AtEnd q"
  shows "encodes_extension (remaining r) oid c v"
proof -
  obtain q1 q2 where q1: "tlv_at r OIDTag oid q1" and ob: "OptionalBoolean q1 = Inr (c, q2)"
    and q: "tlv_at q2 OCTET_STRING v q"
    using f(1) unfolding extension_fields_def by blast
  have wf1: "wf_Reader q1" and oid: "wf_Input oid" using tlv_at_wf [OF q1 wf] by auto
  have wf2: "wf_Reader q2" using OptionalBoolean_wf [OF wf1 ob] .
  have "remaining q = []" and v: "wf_Input v" using q f(2) tlv_at_wf [OF q wf2] AtEnd_iff by auto
  with tlv_at_split [OF q] have r2: "remaining q2 = encode_tlv OCTET_STRING v" by simp
  have "(c \<longrightarrow> Peek q1 BOOLEAN) \<and> remaining q1 =
      (if Peek q1 BOOLEAN then encode_tlv BOOLEAN [if c then 0xFF else 0] else []) @
      encode_tlv OCTET_STRING v"
  proof (cases "Peek q1 BOOLEAN")
    case True
    then have "tlv_at q1 BOOLEAN [if c then 0xFF else 0] q2"
      using ob by (simp only: OptionalBoolean_iff [OF wf1] if_True)
    from tlv_at_split [OF this] show ?thesis unfolding r2 using True by simp
  next
    case False
    then show ?thesis using ob r2 by (simp only: OptionalBoolean_iff [OF wf1]) simp
  qed
  then show ?thesis
    unfolding encodes_extension_def tlv_at_split [OF q1] same_append_eq using oid v by blast
qed

lemma encoded_extension_fields:
  assumes wf: "wf_Reader r" and "encodes_extension (remaining r) oid c v"
  shows "\<exists>q. extension_fields r oid c v q \<and> AtEnd q"
proof -
  have wfs: "wf_Input oid" "wf_Input v" using assms(2) by (auto simp: encodes_extension_def)
  obtain e where e: "c \<longrightarrow> e" and r: "remaining r = encode_tlv OIDTag oid @
      ((if e then encode_tlv BOOLEAN [if c then 0xFF else 0] else []) @ encode_tlv OCTET_STRING v)"
    using assms(2) unfolding encodes_extension_def by blast
  obtain q1 where q1: "tlv_at r OIDTag oid q1" "remaining q1 =
      (if e then encode_tlv BOOLEAN [if c then 0xFF else 0] else []) @ encode_tlv OCTET_STRING v"
    by (rule tlv_at_intro [OF _ wfs(1) r]) simp_all
  have wf1: "wf_Reader q1" using tlv_at_wf [OF q1(1) wf] ..
  obtain q2 where q2: "OptionalBoolean q1 = Inr (c, q2)" "remaining q2 = encode_tlv OCTET_STRING v @ []"
    using OptionalBoolean_encode [OF wf1 q1(2) e] by auto
  obtain q where q: "tlv_at q2 OCTET_STRING v q" "remaining q = []"
    by (rule tlv_at_intro [OF _ wfs(2) q2(2)]) simp
  have "wf_Reader q" using OptionalBoolean_wf [OF wf1 q2(1)] tlv_at_wf [OF q(1)] by blast
  then have "AtEnd q" using q(2) by (simp add: AtEnd_iff)
  then show ?thesis unfolding extension_fields_def using q1 q2 q by blast
qed

lemma ExtensionDecoder_fields_iff:
  assumes wf: "wf_Reader r"
  shows "ExtensionDecoder h s r = Inr (s', q) \<longleftrightarrow>
    (\<exists>oid c v u. extension_fields r oid c v q \<and> h s (Reader_of oid) v c = Inr (s', u) \<and> (c \<longrightarrow> u))"
proof -
  let ?g = "\<lambda>q2 c oid. case ExpectTagAndGetValue q2 OCTET_STRING of Inl e \<Rightarrow> Inl e | Inr (v, q3) \<Rightarrow>
          case h s oid v c of Inl e \<Rightarrow> Inl e | Inr (s, u) \<Rightarrow>
          if c \<and> \<not> u then Inl ERROR_UNKNOWN_CRITICAL_EXTENSION else Inr (s, q3)"
  let ?G = "\<lambda>q2 c oid. \<exists>v q3. tlv_at q2 OCTET_STRING v q3 \<and>
          (\<exists>u. h s oid v c = Inr (s', u) \<and> (c \<longrightarrow> u) \<and> q3 = q)"
  have g: "?g q2 c oid = Inr (s', q) \<longleftrightarrow> ?G q2 c oid" if "wf_Reader q2" for q2 c oid
    by (rule ExpectTagAndGetValue_then [OF that]) (auto simp: case_sum_prod_Inr_iff split: if_splits)
  have "ExtensionDecoder h s r = Inr (s', q) \<longleftrightarrow>
      (\<exists>oid q1. tlv_at r OIDTag oid q1 \<and>
        (\<exists>c q2. OptionalBoolean q1 = Inr (c, q2) \<and> ?G q2 c (Reader_of oid)))"
    unfolding ExtensionDecoder_def
  proof (rule ExpectTagAndGetReader_then [OF wf])
    fix oid q1 assume wf1: "wf_Reader q1"
    show "(case OptionalBoolean q1 of Inl e \<Rightarrow> Inl e | Inr (c, q2) \<Rightarrow> ?g q2 c (Reader_of oid)) = Inr (s', q) \<longleftrightarrow>
        (\<exists>c q2. OptionalBoolean q1 = Inr (c, q2) \<and> ?G q2 c (Reader_of oid))"
      unfolding case_sum_prod_Inr_iff [where m = "OptionalBoolean q1"]
      using g OptionalBoolean_wf [OF wf1] by blast
  qed
  then show ?thesis unfolding extension_fields_def by blast
qed

lemma ExtensionDecoder_iff:
  assumes w: "wf_Input w"
  shows "whole (ExtensionDecoder h s) w = Inr s' \<longleftrightarrow>
    (\<exists>oid c v u. encodes_extension w oid c v \<and> h s (Reader_of oid) v c = Inr (s', u) \<and> (c \<longrightarrow> u))"
proof -
  have wf: "wf_Reader (Reader_of w)" using w by simp
  have "(\<exists>q. extension_fields (Reader_of w) oid c v q \<and> AtEnd q) \<longleftrightarrow> encodes_extension w oid c v"
    for oid c v
    using extension_fields_encoded [OF wf] encoded_extension_fields [OF wf]
    unfolding remaining_Reader_of [OF w] by blast
  then show ?thesis
    unfolding whole_iff ExtensionDecoder_fields_iff [OF wf] by blast
qed

text \<open>The handler applied to a parsed extension: it must accept it, and understand it if
  it is critical.\<close>

fun handle_extension ::
  "('s \<Rightarrow> Reader \<Rightarrow> Input \<Rightarrow> bool \<Rightarrow> ('s \<times> bool) res) \<Rightarrow> 's \<Rightarrow> Input \<times> bool \<times> Input \<Rightarrow> 's res" where
  "handle_extension h s (oid, c, v) =
     (case h s (Reader_of oid) v c of Inl e \<Rightarrow> Inl e
      | Inr (t, u) \<Rightarrow> if c \<and> \<not> u then Inl ERROR_UNKNOWN_CRITICAL_EXTENSION else Inr t)"

definition encodes_extensions :: "Input list \<Rightarrow> (Input \<times> bool \<times> Input) list \<Rightarrow> bool" where
  "encodes_extensions ws exts \<longleftrightarrow>
     list_all2 (\<lambda>w (oid, c, v). wf_Input w \<and> encodes_extension w oid c v) ws exts"

lemma encodes_extensions_simps [simp]:
  "encodes_extensions [] exts \<longleftrightarrow> exts = []"
  "encodes_extensions (w # ws) exts \<longleftrightarrow>
     (\<exists>oid c v es. exts = (oid, c, v) # es \<and> wf_Input w \<and> encodes_extension w oid c v \<and>
        encodes_extensions ws es)"
  by (auto simp: encodes_extensions_def list_all2_Cons1)

lemma encodes_extensions_wf: "encodes_extensions ws exts \<Longrightarrow> \<forall>w \<in> set ws. wf_Input w"
  by (induction ws arbitrary: exts) auto

lemma ExtensionDecoder_handle_iff:
  "wf_Input w \<Longrightarrow> whole (ExtensionDecoder h s) w = Inr s' \<longleftrightarrow>
    (\<exists>oid c v. encodes_extension w oid c v \<and> handle_extension h s (oid, c, v) = Inr s')"
  unfolding ExtensionDecoder_iff handle_extension.simps case_sum_prod_Inr_iff
  by (intro iff_exI) (auto split: if_splits)

lemma fold_ExtensionDecoder_iff:
  assumes "\<forall>w \<in> set ws. wf_Input w"
  shows "fold_res (\<lambda>s w. whole (ExtensionDecoder h s) w) s ws = Inr s' \<longleftrightarrow>
    (\<exists>exts. encodes_extensions ws exts \<and> fold_res (handle_extension h) s exts = Inr s')"
  using assms
proof (induction ws arbitrary: s)
  case (Cons w ws)
  have w: "wf_Input w" and ws: "\<forall>w \<in> set ws. wf_Input w" using Cons.prems by simp_all
  show ?case
    unfolding encodes_extensions_simps fold_res.simps case_sum_Inr_iff
      ExtensionDecoder_handle_iff [OF w] Cons.IH [OF ws]
    using w by (fastforce simp only: fold_res.simps case_sum_Inr_iff)
qed simp

lemma OptionalExtensions_iff:
  assumes wf: "wf_Reader r"
  shows "OptionalExtensions r t h s = Inr (s', r') \<longleftrightarrow>
    (if Peek r t
     then \<exists>exts ws. encodes_extensions ws exts \<and> fold_res (handle_extension h) s exts = Inr s' \<and>
            ReadTagAndGetValue r =
              Inr (t, encode_tlv SEQUENCE (concat (map (encode_tlv SEQUENCE) ws)), r')
     else s' = s \<and> r' = r)"
proof -
  let ?d = "\<lambda>tagged. NestedOf tagged SEQUENCE SEQUENCE EmptyAllowed_Yes (ExtensionDecoder h) s"
  let ?enc = "\<lambda>ws. concat (map (encode_tlv SEQUENCE) ws)"
  have len: "wf_Input (encode_tlv SEQUENCE v) \<Longrightarrow> wf_Input v" for v
    by (simp add: wf_Input_def encode_tlv_def)
  have d: "whole ?d w = Inr s' \<longleftrightarrow> (\<exists>exts ws. w = encode_tlv SEQUENCE (?enc ws) \<and>
      encodes_extensions ws exts \<and> fold_res (handle_extension h) s exts = Inr s')"
    if w: "wf_Input w" for w
  proof -
    have wfw: "wf_Reader (Reader_of w)" using w by simp
    have "whole ?d w = Inr s' \<longleftrightarrow> (\<exists>ws. w = encode_tlv SEQUENCE (?enc ws) \<and>
        (\<forall>w \<in> set ws. wf_Input w) \<and> fold_res (\<lambda>s w. whole (ExtensionDecoder h s) w) s ws = Inr s')"
    proof -
      have "(\<exists>q. tlv_at (Reader_of w) SEQUENCE v q \<and> AtEnd q) \<longleftrightarrow> w = encode_tlv SEQUENCE v" for v
        using len w unfolding tlv_at_end_iff [OF w] by auto
      moreover have "if vs = [] then EmptyAllowed_Yes = EmptyAllowed_Yes else SEQUENCE AND 0x1F \<noteq> 0x1F"
        for vs :: "Input list"
        by simp
      ultimately show ?thesis unfolding whole_iff NestedOf_iff [OF wfw] by blast
    qed
    note outer = this
    have "(\<forall>w \<in> set ws. wf_Input w) \<and>
        fold_res (\<lambda>s w. whole (ExtensionDecoder h s) w) s ws = Inr s' \<longleftrightarrow>
        (\<exists>exts. encodes_extensions ws exts \<and> fold_res (handle_extension h) s exts = Inr s')" for ws
      using fold_ExtensionDecoder_iff [of ws h s s'] encodes_extensions_wf [of ws] by auto
    then show ?thesis unfolding outer by blast
  qed
  have "Nested r t ?d = Inr (s', r') \<longleftrightarrow> (\<exists>exts ws. encodes_extensions ws exts \<and>
      fold_res (handle_extension h) s exts = Inr s' \<and> tlv_at r t (encode_tlv SEQUENCE (?enc ws)) r')"
    unfolding Nested_iff [OF wf] using d tlv_at_wf [OF _ wf] by blast
  then show ?thesis
    unfolding OptionalExtensions_def ReadTagAndGetValue_iff [OF wf] by (cases "Peek r t") auto
qed

section \<open>Every decoder stays inside its reader\<close>

interpretation boolean: decoder Boolean
  by unfold_locales (auto simp: Boolean_iff intro: tlv_at_reads)

interpretation optional_boolean: decoder OptionalBoolean
  by unfold_locales (auto simp only: OptionalBoolean_iff intro: tlv_at_reads split: if_splits)

interpretation integral_bytes: decoder "\<lambda>r. IntegralBytes r t k"
  by unfold_locales (auto simp: IntegralBytes_iff intro: tlv_at_reads)

interpretation integral_value: decoder "\<lambda>r. IntegralValue r t"
  by unfold_locales (auto simp: IntegralValue_iff intro: tlv_at_reads)

interpretation serial_number: decoder CertificateSerialNumber
  by unfold_locales (auto simp: CertificateSerialNumber_iff intro: tlv_at_reads)

interpretation bit_string: decoder BitStringWithNoUnusedBits
  by unfold_locales (auto simp: BitStringWithNoUnusedBits_iff intro: tlv_at_reads)

interpretation algorithm_identifier: decoder AlgorithmIdentifierValue
  by unfold_locales (auto simp: AlgorithmIdentifierValue_iff intro: alg_id_at_reads)

interpretation signature_algorithm: decoder SignatureAlgorithmIdentifierValue
  by unfold_locales (auto simp: SignatureAlgorithmIdentifierValue_iff intro: alg_id_at_reads)

interpretation digest_algorithm: decoder DigestAlgorithmIdentifier
  by unfold_locales (auto simp: DigestAlgorithmIdentifier_iff intro: tlv_at_reads)

interpretation optional_version: decoder OptionalVersion
  by unfold_locales (auto simp only: OptionalVersion_iff intro: tlv_at_reads split: if_splits)

interpretation signed_data: decoder SignedData
proof unfold_locales
  fix r x r' assume "wf_Reader r" "SignedData r = Inr (x, r')"
  moreover obtain tbs sd where "x = (tbs, sd)" by fastforce
  ultimately obtain v q q' where "tlv_at r SEQUENCE v q" "tlv_at q SEQUENCE (sds_algorithm sd) q'"
      "tlv_at q' BIT_STRING (0 # sds_signature sd) r'"
    unfolding SignedData_iff [OF \<open>wf_Reader r\<close>] using SignedData_iff by blast
  then show "reads r r'" using tlv_at_reads reads_trans by meson
qed

interpretation optional_extensions: decoder "\<lambda>r. OptionalExtensions r t h s"
  by unfold_locales (auto simp: OptionalExtensions_def nested.reads_ok split: if_splits)

lemma OID_reads: "wf_Reader r \<Longrightarrow> OID r oid = Inr r' \<Longrightarrow> reads r r'"
  by (auto simp: OID_iff intro: tlv_at_reads)

lemmas [consumes] =
  boolean.reads_ok optional_boolean.reads_ok integral_bytes.reads_ok integral_value.reads_ok
  serial_number.reads_ok bit_string.reads_ok algorithm_identifier.reads_ok
  signature_algorithm.reads_ok digest_algorithm.reads_ok optional_version.reads_ok
  signed_data.reads_ok optional_extensions.reads_ok OID_reads

section \<open>Properties\<close>

text \<open>C27: \<open>IntegralBytes\<close> accepts a TLV with the expected tag if and only if its value is
  the shortest two's-complement encoding of an integer that the restriction allows
  (any, a positive one, or one from 0 to 127); it returns these bytes and their number
  without a sign byte, and any other value is \<open>ERROR_INVALID_INTEGER_ENCODING\<close>.\<close>

theorem IntegralBytes_shortest_encoding:
  assumes "wf_Reader r"
  shows "IntegralBytes r t k =
    (case ExpectTagAndGetValue r t of Inl e \<Rightarrow> Inl e | Inr (v, q) \<Rightarrow>
     if shortest v \<and> allowed k (twos_complement v) then Inr ((v, of_nat (significant v)), q)
     else Inl ERROR_INVALID_INTEGER_ENCODING)"
  by (rule IntegralBytes_eq [OF assms])

theorem IntegralBytes_shortest_encoding_witness:
  "shortest [0x00, 0x80] \<and> twos_complement [0x00, 0x80] = 128 \<and>
   IntegralBytes (Reader_of [0x02, 0x02, 0x00, 0x80]) INTEGER MustBePositive =
     Inr (([0x00, 0x80], 1), advance 4 (Reader_of [0x02, 0x02, 0x00, 0x80]))"
proof (intro conjI)
  show s: "shortest [0x00, 0x80]" by (simp add: shortest_iff redundant_def)
  show t: "twos_complement [0x00, 0x80] = 128" by simp
  have wf: "wf_Reader (Reader_of [0x02, 0x02, 0x00, 0x80])"
    by (simp add: wf_Input_def MAX_INPUT_def)
  have "ExpectTagAndGetValue (Reader_of [0x02, 0x02, 0x00, 0x80]) INTEGER =
      Inr ([0x00, 0x80], advance 4 (Reader_of [0x02, 0x02, 0x00, 0x80]))"
    unfolding ExpectTagAndGetValue_spec [OF wf] by (simp add: wf_Input_def MAX_INPUT_def)
  then show "IntegralBytes (Reader_of [0x02, 0x02, 0x00, 0x80]) INTEGER MustBePositive =
     Inr (([0x00, 0x80], 1), advance 4 (Reader_of [0x02, 0x02, 0x00, 0x80]))"
    unfolding IntegralBytes_shortest_encoding [OF wf] using s t by simp
qed

text \<open>C15: When \<open>OptionalExtensions\<close> finds its tag and succeeds, the tagged value is one
  sequence of extensions, each an object identifier, an optional \<open>critical\<close> flag and
  an octet string; the handler has been run on all of them in order, has accepted each,
  and has understood every one that is marked critical. Conversely such a value is
  accepted, and when the tag is absent nothing is read.\<close>

theorem OptionalExtensions_handled:
  assumes "wf_Reader r"
  shows "OptionalExtensions r t h s = Inr (s', r') \<longleftrightarrow>
    (if Peek r t
     then \<exists>exts ws. encodes_extensions ws exts \<and> fold_res (handle_extension h) s exts = Inr s' \<and>
            ReadTagAndGetValue r =
              Inr (t, encode_tlv SEQUENCE (concat (map (encode_tlv SEQUENCE) ws)), r')
     else s' = s \<and> r' = r)"
  by (rule OptionalExtensions_iff [OF assms])

theorem OptionalExtensions_handled_witness:
  "\<exists>r'. OptionalExtensions
     (Reader_of [0xA3, 0x09, 0x30, 0x07, 0x30, 0x05, 0x06, 0x01, 0x2A, 0x04, 0x00]) 0xA3
     (\<lambda>s oid v c. Inr (s @ [remaining oid], True)) [] = Inr ([[0x2A]], r')"
proof -
  let ?i = "[0xA3, 0x09, 0x30, 0x07, 0x30, 0x05, 0x06, 0x01, 0x2A, 0x04, 0x00] :: Input"
  let ?h = "\<lambda>s oid v c. Inr (s @ [remaining oid], True) :: (Input list \<times> bool) res"
  have wf: "wf_Reader (Reader_of ?i)" by (simp add: wf_Input_def MAX_INPUT_def)
  have enc: "encodes_extensions [[0x06, 0x01, 0x2A, 0x04, 0x00]] [([0x2A], False, [])]"
    by (simp add: encodes_extension_def wf_Input_def MAX_INPUT_def encode_tlv_def encode_length_def)
      blast
  have "fold_res (handle_extension ?h) [] [([0x2A], False, [])] = Inr [[0x2A]]"
    by (simp add: wf_Input_def MAX_INPUT_def)
  moreover have "ReadTagAndGetValue (Reader_of ?i) = Inr (0xA3,
      encode_tlv SEQUENCE (concat (map (encode_tlv SEQUENCE) [[0x06, 0x01, 0x2A, 0x04, 0x00]])),
      advance 11 (Reader_of ?i))"
    unfolding ReadTagAndGetValue_spec [OF wf]
    by (simp add: wf_Input_def MAX_INPUT_def encode_tlv_def encode_length_def)
  moreover have "Peek (Reader_of ?i) 0xA3"
    by (simp add: Peek_iff [OF wf] wf_Input_def MAX_INPUT_def)
  ultimately show ?thesis
    using enc unfolding OptionalExtensions_handled [OF wf] by (simp only: if_True) blast
qed

end
