(* ===== verification/PkixCert.thy ===== *)
theory PkixCert
  imports PkixDerTypes
begin

text \<open>
  \<^verbatim>\<open>security/pkix/lib/pkixcert.cpp\<close> and the classes \<open>BackCert\<close> and
  \<open>NonOwningDERArray\<close> of \<^verbatim>\<open>pkixutil.h\<close>: a certificate parsed into its fields,
  with the values of the extensions that path validation uses.

  An \<open>Input\<close> member is \<open>None\<close> until \<open>Init\<close> has been called on it. The pointer
  \<open>childCert\<close> is not a field: a certificate and the certificates below it are a list,
  the certificate first (theory \<open>PkixBuild\<close>).
\<close>

section \<open>The parsed certificate\<close>

record BackCert =
  bc_der :: Input
  endEntityOrCA :: EndEntityOrCA
  signedData :: SignedDataWithSignature
  version :: Version
  bc_serialNumber :: Input
  signature :: Input
  bc_issuer :: Input
  validity :: Input
  subject :: Input
  subjectPublicKeyInfo :: Input
  authorityInfoAccess :: "Input option"
  basicConstraints :: "Input option"
  certificatePolicies :: "Input option"
  extKeyUsage :: "Input option"
  inhibitAnyPolicy :: "Input option"
  keyUsage :: "Input option"
  nameConstraints :: "Input option"
  subjectAltName :: "Input option"
  criticalNetscapeCertificateType :: "Input option"
  requiredTLSFeatures :: "Input option"
  signedCertificateTimestamps :: "Input option"

text \<open>\<open>GetLength\<close> of a member that may not have been initialised.\<close>

fun GetLength_opt :: "Input option \<Rightarrow> u16" where
  "GetLength_opt None = 0"
| "GetLength_opt (Some i) = GetLength i"

definition MaybeInput :: "Input option \<Rightarrow> Input option" where
  "MaybeInput item = (if GetLength_opt item > 0 then item else None)"

definition GetAuthorityInfoAccess :: "BackCert \<Rightarrow> Input option" where
  "GetAuthorityInfoAccess c = MaybeInput (authorityInfoAccess c)"
definition GetBasicConstraints :: "BackCert \<Rightarrow> Input option" where
  "GetBasicConstraints c = MaybeInput (basicConstraints c)"
definition GetCertificatePolicies :: "BackCert \<Rightarrow> Input option" where
  "GetCertificatePolicies c = MaybeInput (certificatePolicies c)"
definition GetExtKeyUsage :: "BackCert \<Rightarrow> Input option" where
  "GetExtKeyUsage c = MaybeInput (extKeyUsage c)"
definition GetKeyUsage :: "BackCert \<Rightarrow> Input option" where
  "GetKeyUsage c = MaybeInput (keyUsage c)"
definition GetInhibitAnyPolicy :: "BackCert \<Rightarrow> Input option" where
  "GetInhibitAnyPolicy c = MaybeInput (inhibitAnyPolicy c)"
definition GetNameConstraints :: "BackCert \<Rightarrow> Input option" where
  "GetNameConstraints c = MaybeInput (nameConstraints c)"
definition GetSubjectAltName :: "BackCert \<Rightarrow> Input option" where
  "GetSubjectAltName c = MaybeInput (subjectAltName c)"
definition GetRequiredTLSFeatures :: "BackCert \<Rightarrow> Input option" where
  "GetRequiredTLSFeatures c = MaybeInput (requiredTLSFeatures c)"
definition GetSignedCertificateTimestamps :: "BackCert \<Rightarrow> Input option" where
  "GetSignedCertificateTimestamps c = MaybeInput (signedCertificateTimestamps c)"

section \<open>Extensions\<close>

definition id_ce_keyUsage :: "u8 list" where "id_ce_keyUsage = [0x55, 0x1d, 0x0f]"
definition id_ce_subjectAltName :: "u8 list" where "id_ce_subjectAltName = [0x55, 0x1d, 0x11]"
definition id_ce_basicConstraints :: "u8 list" where "id_ce_basicConstraints = [0x55, 0x1d, 0x13]"
definition id_ce_nameConstraints :: "u8 list" where "id_ce_nameConstraints = [0x55, 0x1d, 0x1e]"
definition id_ce_certificatePolicies :: "u8 list" where
  "id_ce_certificatePolicies = [0x55, 0x1d, 0x20]"
definition id_ce_policyConstraints :: "u8 list" where
  "id_ce_policyConstraints = [0x55, 0x1d, 0x24]"
definition id_ce_extKeyUsage :: "u8 list" where "id_ce_extKeyUsage = [0x55, 0x1d, 0x25]"
definition id_ce_inhibitAnyPolicy :: "u8 list" where "id_ce_inhibitAnyPolicy = [0x55, 0x1d, 0x36]"
definition id_pe_authorityInfoAccess :: "u8 list" where
  "id_pe_authorityInfoAccess = [0x2b, 0x06, 0x01, 0x05, 0x05, 0x07, 0x01, 0x01]"
definition id_pkix_ocsp_nocheck :: "u8 list" where
  "id_pkix_ocsp_nocheck = [0x2b, 0x06, 0x01, 0x05, 0x05, 0x07, 0x30, 0x01, 0x05]"
definition Netscape_certificate_type :: "u8 list" where
  "Netscape_certificate_type = [0x60, 0x86, 0x48, 0x01, 0x86, 0xf8, 0x42, 0x01, 0x01]"
definition id_pe_tlsfeature :: "u8 list" where
  "id_pe_tlsfeature = [0x2b, 0x06, 0x01, 0x05, 0x05, 0x07, 0x01, 0x18]"
definition id_embeddedSctList :: "u8 list" where
  "id_embeddedSctList = [0x2b, 0x06, 0x01, 0x04, 0x01, 0xd6, 0x79, 0x02, 0x04, 0x02]"

lemmas oid_defs =
  id_ce_keyUsage_def id_ce_subjectAltName_def id_ce_basicConstraints_def id_ce_nameConstraints_def
  id_ce_certificatePolicies_def id_ce_policyConstraints_def id_ce_extKeyUsage_def
  id_ce_inhibitAnyPolicy_def id_pe_authorityInfoAccess_def id_pkix_ocsp_nocheck_def
  Netscape_certificate_type_def id_pe_tlsfeature_def id_embeddedSctList_def

text \<open>The target of the pointer \<open>out\<close>: a member of the certificate, or one of the two
  local variables, which are fresh in every call.\<close>

datatype ext_out =
    Out_keyUsage | Out_subjectAltName | Out_basicConstraints | Out_nameConstraints
  | Out_certificatePolicies | Out_dummyPolicyConstraints | Out_extKeyUsage | Out_inhibitAnyPolicy
  | Out_authorityInfoAccess | Out_requiredTLSFeatures | Out_signedCertificateTimestamps
  | Out_dummyOCSPNocheck | Out_criticalNetscapeCertificateType

fun deref :: "BackCert \<Rightarrow> ext_out \<Rightarrow> Input option" where
  "deref c Out_keyUsage = keyUsage c"
| "deref c Out_subjectAltName = subjectAltName c"
| "deref c Out_basicConstraints = basicConstraints c"
| "deref c Out_nameConstraints = nameConstraints c"
| "deref c Out_certificatePolicies = certificatePolicies c"
| "deref c Out_dummyPolicyConstraints = None"
| "deref c Out_extKeyUsage = extKeyUsage c"
| "deref c Out_inhibitAnyPolicy = inhibitAnyPolicy c"
| "deref c Out_authorityInfoAccess = authorityInfoAccess c"
| "deref c Out_requiredTLSFeatures = requiredTLSFeatures c"
| "deref c Out_signedCertificateTimestamps = signedCertificateTimestamps c"
| "deref c Out_dummyOCSPNocheck = None"
| "deref c Out_criticalNetscapeCertificateType = criticalNetscapeCertificateType c"

fun store :: "BackCert \<Rightarrow> ext_out \<Rightarrow> Input \<Rightarrow> BackCert" where
  "store c Out_keyUsage v = c\<lparr>keyUsage := Some v\<rparr>"
| "store c Out_subjectAltName v = c\<lparr>subjectAltName := Some v\<rparr>"
| "store c Out_basicConstraints v = c\<lparr>basicConstraints := Some v\<rparr>"
| "store c Out_nameConstraints v = c\<lparr>nameConstraints := Some v\<rparr>"
| "store c Out_certificatePolicies v = c\<lparr>certificatePolicies := Some v\<rparr>"
| "store c Out_dummyPolicyConstraints v = c"
| "store c Out_extKeyUsage v = c\<lparr>extKeyUsage := Some v\<rparr>"
| "store c Out_inhibitAnyPolicy v = c\<lparr>inhibitAnyPolicy := Some v\<rparr>"
| "store c Out_authorityInfoAccess v = c\<lparr>authorityInfoAccess := Some v\<rparr>"
| "store c Out_requiredTLSFeatures v = c\<lparr>requiredTLSFeatures := Some v\<rparr>"
| "store c Out_signedCertificateTimestamps v = c\<lparr>signedCertificateTimestamps := Some v\<rparr>"
| "store c Out_dummyOCSPNocheck v = c"
| "store c Out_criticalNetscapeCertificateType v = c\<lparr>criticalNetscapeCertificateType := Some v\<rparr>"

text \<open>The chain of \<open>MatchRest\<close> calls: which member \<open>out\<close> points to (\<open>None\<close> is the null
  pointer) and \<open>emptyValueAllowed\<close>.\<close>

definition select_out :: "Reader \<Rightarrow> bool \<Rightarrow> ext_out option \<times> bool" where
  "select_out extnID critical =
     (if fst (MatchRest extnID id_ce_keyUsage) then (Some Out_keyUsage, False)
      else if fst (MatchRest extnID id_ce_subjectAltName) then (Some Out_subjectAltName, False)
      else if fst (MatchRest extnID id_ce_basicConstraints) then (Some Out_basicConstraints, False)
      else if fst (MatchRest extnID id_ce_nameConstraints) then (Some Out_nameConstraints, False)
      else if fst (MatchRest extnID id_ce_certificatePolicies) then (Some Out_certificatePolicies, False)
      else if fst (MatchRest extnID id_ce_policyConstraints) then (Some Out_dummyPolicyConstraints, False)
      else if fst (MatchRest extnID id_ce_extKeyUsage) then (Some Out_extKeyUsage, False)
      else if fst (MatchRest extnID id_ce_inhibitAnyPolicy) then (Some Out_inhibitAnyPolicy, False)
      else if fst (MatchRest extnID id_pe_authorityInfoAccess) then (Some Out_authorityInfoAccess, False)
      else if fst (MatchRest extnID id_pe_tlsfeature) then (Some Out_requiredTLSFeatures, False)
      else if fst (MatchRest extnID id_embeddedSctList) then (Some Out_signedCertificateTimestamps, False)
      else
        let (m, extnID) = MatchRest extnID id_pkix_ocsp_nocheck in
        if m \<and> critical then (Some Out_dummyOCSPNocheck, True)
        else if fst (MatchRest extnID Netscape_certificate_type) \<and> critical
        then (Some Out_criticalNetscapeCertificateType, False)
        else (None, False))"

definition RememberExtension :: "BackCert \<Rightarrow> Reader \<Rightarrow> Input \<Rightarrow> bool \<Rightarrow> (BackCert \<times> bool) res" where
  "RememberExtension c extnID extnValue critical =
     (case select_out extnID critical of
        (None, _) \<Rightarrow> Inr (c, False)
      | (Some out, emptyValueAllowed) \<Rightarrow>
          if GetLength extnValue = 0 \<and> \<not> emptyValueAllowed then Inl ERROR_EXTENSION_VALUE_INVALID
          else
            (case Input_Init (deref c out) (Some extnValue) of
               Inl _ \<Rightarrow> Inl ERROR_EXTENSION_VALUE_INVALID
             | Inr v \<Rightarrow> Inr (store c out v, True)))"

section \<open>Parsing\<close>

text \<open>The constructor, with no extension seen. The other members have no value before
  \<open>Init\<close>; the model fills them in when it has parsed them.\<close>

definition ReadCertificate :: "Input \<Rightarrow> (Reader \<times> SignedDataWithSignature) res" where
  "ReadCertificate der =
     bind_res (ExpectTagAndGetValueAtEnd der SEQUENCE) (\<lambda>certificate.
     bind_res (SignedData certificate) (\<lambda>((tbsCertificate, signedData), certificate).
     bind_res (End certificate) (\<lambda>_.
     Inr (tbsCertificate, signedData))))"

definition ReadTBSFields ::
  "Input \<Rightarrow> EndEntityOrCA \<Rightarrow> SignedDataWithSignature \<Rightarrow> Reader \<Rightarrow> (BackCert \<times> Reader) res" where
  "ReadTBSFields der eeOrCA sd r =
     bind_res (OptionalVersion r) (\<lambda>(ver, r).
     bind_res (CertificateSerialNumber r) (\<lambda>(serial, r).
     bind_res (ExpectTagAndGetValue r SEQUENCE) (\<lambda>(sig, r).
     bind_res (ExpectTagAndGetTLV r SEQUENCE) (\<lambda>(iss, r).
     bind_res (ExpectTagAndGetValue r SEQUENCE) (\<lambda>(val, r).
     bind_res (ExpectTagAndGetTLV r SEQUENCE) (\<lambda>(subj, r).
     bind_res (ExpectTagAndGetTLV r SEQUENCE) (\<lambda>(spki, r).
     Inr (\<lparr>bc_der = der, endEntityOrCA = eeOrCA, signedData = sd, version = ver,
           bc_serialNumber = serial, signature = sig, bc_issuer = iss, validity = val,
           subject = subj, subjectPublicKeyInfo = spki,
           authorityInfoAccess = None, basicConstraints = None, certificatePolicies = None,
           extKeyUsage = None, inhibitAnyPolicy = None, keyUsage = None, nameConstraints = None,
           subjectAltName = None, criticalNetscapeCertificateType = None,
           requiredTLSFeatures = None, signedCertificateTimestamps = None\<rparr>, r))))))))"

definition CSC :: u8 where
  "CSC = CONTEXT_SPECIFIC OR CONSTRUCTED"

definition SkipOptional :: "Reader \<Rightarrow> u8 \<Rightarrow> Reader res" where
  "SkipOptional r tag = (if Peek r tag then ExpectTagAndSkipValue r tag else Inr r)"

definition BackCert_Init :: "Input \<Rightarrow> EndEntityOrCA \<Rightarrow> BackCert res" where
  "BackCert_Init der eeOrCA =
     bind_res (ReadCertificate der) (\<lambda>(tbsCertificate, sd).
     bind_res (ReadTBSFields der eeOrCA sd tbsCertificate) (\<lambda>(c, tbsCertificate).
     bind_res (SkipOptional tbsCertificate (CSC OR 1)) (\<lambda>tbsCertificate.
     bind_res (SkipOptional tbsCertificate (CSC OR 2)) (\<lambda>tbsCertificate.
     bind_res (OptionalExtensions tbsCertificate (CSC OR 3) RememberExtension c)
       (\<lambda>(c, tbsCertificate).
     bind_res (fail_if (GetLength_opt (criticalNetscapeCertificateType c) > 0 \<and>
         (GetLength_opt (basicConstraints c) = 0 \<or> GetLength_opt (extKeyUsage c) = 0))
         ERROR_UNKNOWN_CRITICAL_EXTENSION) (\<lambda>_.
     bind_res (End tbsCertificate) (\<lambda>_.
     Inr c)))))))"

definition ExtractSignedCertificateTimestampListFromExtension :: "Input \<Rightarrow> Input res" where
  "ExtractSignedCertificateTimestampListFromExtension extnValue =
     bind_res (ExpectTagAndGetValueAtEnd extnValue OCTET_STRING) (\<lambda>decodedValue.
     bind_res (SkipToEndInput decodedValue) (\<lambda>(sctList, decodedValue).
     Inr sctList))"

section \<open>The chain as an array\<close>

text \<open>\<open>items\<close> holds the entries below \<open>numItems\<close>; the storage behind them is never read.\<close>

type_synonym NonOwningDERArray = "Input list"

definition NonOwningDERArray_MAX_LENGTH :: nat where
  "NonOwningDERArray_MAX_LENGTH = 8"

definition DERArray_GetLength :: "NonOwningDERArray \<Rightarrow> nat" where
  "DERArray_GetLength a = length a"

definition DERArray_GetDER :: "NonOwningDERArray \<Rightarrow> nat \<Rightarrow> Input option" where
  "DERArray_GetDER a i = (if i < length a then Some (a ! i) else None)"

definition DERArray_Append :: "NonOwningDERArray \<Rightarrow> Input \<Rightarrow> NonOwningDERArray res" where
  "DERArray_Append a der =
     (if length a \<ge> NonOwningDERArray_MAX_LENGTH then Inl FATAL_ERROR_INVALID_ARGS
      else
        case Input_Init None (Some der) of Inl e \<Rightarrow> Inl e | Inr item \<Rightarrow> Inr (a @ [item]))"

section \<open>What the extensions leave behind\<close>

text \<open>The members proper; the other two targets are local variables.\<close>

definition remembered :: "ext_out \<Rightarrow> bool" where
  "remembered out \<longleftrightarrow> out \<noteq> Out_dummyPolicyConstraints \<and> out \<noteq> Out_dummyOCSPNocheck"

definition slot :: "Input \<times> bool \<times> Input \<Rightarrow> ext_out option" where
  "slot x = (case x of (oid, c, v) \<Rightarrow> fst (select_out (Reader_of oid) c))"

definition member_slots :: "(Input \<times> bool \<times> Input) list \<Rightarrow> ext_out list" where
  "member_slots exts = filter remembered (List.map_filter slot exts)"

lemma deref_store: "deref (store c out v) out' = (if out = out' \<and> remembered out then Some v else deref c out')"
  by (cases out; cases out') (simp_all add: remembered_def)

lemma deref_dummy: "\<not> remembered out \<Longrightarrow> deref c out = None"
  by (cases out) (simp_all add: remembered_def)

lemma handle_RememberExtension:
  "handle_extension RememberExtension c (oid, crit, v) = Inr c' \<longleftrightarrow>
    (case slot (oid, crit, v) of
       None \<Rightarrow> \<not> crit \<and> c' = c
     | Some out \<Rightarrow> (GetLength v = 0 \<longrightarrow> snd (select_out (Reader_of oid) crit)) \<and>
         deref c out = None \<and> wf_Input v \<and> c' = store c out v)"
proof (cases "select_out (Reader_of oid) crit")
  case (Pair out e)
  then show ?thesis
    by (cases out) (auto simp: RememberExtension_def slot_def wf_Input_Init wf_Input_def split: sum.splits if_splits)
qed

lemma member_slots_simps [simp]:
  "member_slots [] = []"
  "member_slots (x # xs) =
     (case slot x of None \<Rightarrow> member_slots xs
      | Some out \<Rightarrow> if remembered out then out # member_slots xs else member_slots xs)"
  by (auto simp: member_slots_def List.map_filter_simps split: option.split)

lemma extensions_remembered:
  "fold_res (handle_extension RememberExtension) c exts = Inr c' \<Longrightarrow>
     distinct (member_slots exts) \<and>
     (\<forall>out \<in> set (member_slots exts). deref c out = None) \<and>
     (\<forall>out v. deref c' out = Some v \<longleftrightarrow> deref c out = Some v \<or>
        remembered out \<and> (\<exists>oid crit. (oid, crit, v) \<in> set exts \<and> slot (oid, crit, v) = Some out)) \<and>
     (\<forall>oid crit v. (oid, crit, v) \<in> set exts \<and> crit \<longrightarrow> slot (oid, crit, v) \<noteq> None)"
proof (induction exts arbitrary: c)
  case Nil
  then show ?case by simp
next
  case (Cons x exts)
  obtain oid crit v where x: "x = (oid, crit, v)" by (cases x) auto
  obtain d where d: "handle_extension RememberExtension c x = Inr d"
    and rest: "fold_res (handle_extension RememberExtension) d exts = Inr c'"
    using Cons.prems by (auto split: sum.splits)
  note IH = Cons.IH [OF rest]
  show ?case
  proof (cases "slot x")
    case None
    then have "d = c" "\<not> crit" using d [unfolded x handle_RememberExtension] by (simp_all add: x)
    with IH None show ?thesis by (auto simp: x)
  next
    case (Some out)
    then have free: "deref c out = None" and dc: "d = store c out v"
      using d [unfolded x handle_RememberExtension] by (simp_all add: x)
    show ?thesis
    proof (cases "remembered out")
      case True
      have "out \<notin> set (member_slots exts)"
        using IH True by (auto simp: dc deref_store)
      moreover have "deref c out' = None" if "out' \<in> set (member_slots exts)" for out'
        using IH that by (auto simp: dc deref_store split: if_splits)
      ultimately show ?thesis
        using IH True Some free by (auto simp: x dc deref_store split: if_splits)
    next
      case False
      then show ?thesis using IH Some by (auto simp: x dc deref_store)
    qed
  qed
qed

section \<open>The bytes of a certificate\<close>

text \<open>\<open>tlv_at\<close> chains concatenate.\<close>

definition optional_tlv :: "u8 \<Rightarrow> u8 list \<Rightarrow> bool" where
  "optional_tlv t bs \<longleftrightarrow> bs = [] \<or> (\<exists>v. wf_Input v \<and> bs = encode_tlv t v)"

lemma SkipOptional_split:
  "wf_Reader r \<Longrightarrow> SkipOptional r t = Inr r' \<Longrightarrow>
     wf_Reader r' \<and> (\<exists>bs. remaining r = bs @ remaining r' \<and> optional_tlv t bs)"
  unfolding SkipOptional_def optional_tlv_def
  by (auto simp: ExpectTagAndSkipValue_iff dest: tlv_at_split tlv_at_wf split: if_splits)

definition encodes_version :: "u8 list \<Rightarrow> Version \<Rightarrow> bool" where
  "encodes_version bs v \<longleftrightarrow>
     bs = [] \<and> v = v1 \<or>
     (\<exists>n. version_of n = Some v \<and> bs = encode_tlv (CSC OR 0) (encode_tlv INTEGER [n]))"

lemma OptionalVersion_split:
  assumes wf: "wf_Reader r" and "OptionalVersion r = Inr (v, r')"
  shows "wf_Reader r' \<and> (\<exists>bs. remaining r = bs @ remaining r' \<and> encodes_version bs v)"
proof -
  have "CSC OR 0 = 0xA0" by (simp add: CSC_def)
  then show ?thesis
    using assms unfolding OptionalVersion_iff [OF wf] encodes_version_def
    by (auto dest: tlv_at_split tlv_at_wf split: if_splits)
qed

definition encodes_extensions_field :: "u8 list \<Rightarrow> (Input \<times> bool \<times> Input) list \<Rightarrow> bool" where
  "encodes_extensions_field bs exts \<longleftrightarrow>
     bs = [] \<and> exts = [] \<or>
     (\<exists>ws. encodes_extensions ws exts \<and>
        bs = encode_tlv (CSC OR 3) (encode_tlv SEQUENCE (concat (map (encode_tlv SEQUENCE) ws))))"

lemma OptionalExtensions_split:
  assumes wf: "wf_Reader r" and ok: "OptionalExtensions r (CSC OR 3) h s = Inr (s', r')"
  shows "wf_Reader r' \<and> (\<exists>bs exts. remaining r = bs @ remaining r' \<and>
    encodes_extensions_field bs exts \<and> fold_res (handle_extension h) s exts = Inr s')"
proof (cases "Peek r (CSC OR 3)")
  case True
  then obtain exts ws where e: "encodes_extensions ws exts" "fold_res (handle_extension h) s exts = Inr s'"
    "tlv_at r (CSC OR 3) (encode_tlv SEQUENCE (concat (map (encode_tlv SEQUENCE) ws))) r'"
    using ok unfolding OptionalExtensions_iff [OF wf] ReadTagAndGetValue_iff [OF wf] by auto
  then show ?thesis
    using tlv_at_split [OF e(3)] tlv_at_wf [OF e(3) wf] unfolding encodes_extensions_field_def by blast
next
  case False
  then have "s' = s" "r' = r" using ok unfolding OptionalExtensions_iff [OF wf] by auto
  then show ?thesis using wf unfolding encodes_extensions_field_def
    by (intro conjI exI [of _ "[]"]) simp_all
qed

lemma ExpectTagAndGetValue_split:
  "wf_Reader r \<Longrightarrow> ExpectTagAndGetValue r t = Inr (v, r') \<Longrightarrow>
     wf_Reader r' \<and> remaining r = encode_tlv t v @ remaining r'"
  by (auto simp: ExpectTagAndGetValue_iff dest: tlv_at_split tlv_at_wf)

lemma ExpectTagAndGetTLV_split:
  "wf_Reader r \<Longrightarrow> ExpectTagAndGetTLV r t = Inr (tlv, r') \<Longrightarrow>
     wf_Reader r' \<and> remaining r = tlv @ remaining r' \<and> (\<exists>v. tlv = encode_tlv t v)"
  by (auto simp: ExpectTagAndGetTLV_iff dest: tlv_at_split tlv_at_wf)

lemma CertificateSerialNumber_split:
  "wf_Reader r \<Longrightarrow> CertificateSerialNumber r = Inr (v, r') \<Longrightarrow>
     wf_Reader r' \<and> remaining r = encode_tlv INTEGER v @ remaining r' \<and> shortest v"
  by (auto simp: CertificateSerialNumber_iff dest: tlv_at_split tlv_at_wf)

text \<open>The handler does not touch the other fields.\<close>

definition core :: "BackCert \<Rightarrow> BackCert \<Rightarrow> bool" where
  "core c d \<longleftrightarrow>
     bc_der c = bc_der d \<and> endEntityOrCA c = endEntityOrCA d \<and> signedData c = signedData d \<and>
     version c = version d \<and> bc_serialNumber c = bc_serialNumber d \<and> signature c = signature d \<and>
     bc_issuer c = bc_issuer d \<and> validity c = validity d \<and> subject c = subject d \<and>
     subjectPublicKeyInfo c = subjectPublicKeyInfo d"

lemma core_store: "core (store c out v) c"
  by (cases out) (simp_all add: core_def)

lemma core_fold:
  assumes "fold_res (handle_extension RememberExtension) c exts = Inr c'"
  shows "core c' c"
  using assms
proof (rule fold_res_invariant)
  show "core c c" by (simp add: core_def)
  fix s x t assume h: "handle_extension RememberExtension s x = Inr t" and s: "core s c"
  obtain oid crit v where x: "x = (oid, crit, v)" by (cases x) auto
  have "t = s \<or> (\<exists>out. t = store s out v)"
    using h unfolding x handle_RememberExtension by (auto split: option.splits)
  then have "core t s" using core_store by (auto simp: core_def)
  then show "core t c" using s by (simp add: core_def)
qed

definition tbs_bytes :: "BackCert \<Rightarrow> u8 list" where
  "tbs_bytes c =
     encode_tlv INTEGER (bc_serialNumber c) @ encode_tlv SEQUENCE (signature c) @ bc_issuer c @
     encode_tlv SEQUENCE (validity c) @ subject c @ subjectPublicKeyInfo c"

definition wf_names :: "BackCert \<Rightarrow> bool" where
  "wf_names c \<longleftrightarrow>
     shortest (bc_serialNumber c) \<and> (\<exists>v. bc_issuer c = encode_tlv SEQUENCE v) \<and>
     (\<exists>v. subject c = encode_tlv SEQUENCE v) \<and> (\<exists>v. subjectPublicKeyInfo c = encode_tlv SEQUENCE v)"

lemma ReadTBSFields_split:
  assumes wf: "wf_Reader r" and ok: "ReadTBSFields der e sd r = Inr (c, r')"
  shows "wf_Reader r' \<and> bc_der c = der \<and> endEntityOrCA c = e \<and> signedData c = sd \<and>
    (\<forall>out. deref c out = None) \<and> wf_names c \<and>
    (\<exists>ver. remaining r = ver @ tbs_bytes c @ remaining r' \<and> encodes_version ver (version c))"
proof -
  obtain r1 r2 r3 r4 r5 r6 where
    "OptionalVersion r = Inr (version c, r1)" "CertificateSerialNumber r1 = Inr (bc_serialNumber c, r2)"
    "ExpectTagAndGetValue r2 SEQUENCE = Inr (signature c, r3)"
    "ExpectTagAndGetTLV r3 SEQUENCE = Inr (bc_issuer c, r4)"
    "ExpectTagAndGetValue r4 SEQUENCE = Inr (validity c, r5)"
    "ExpectTagAndGetTLV r5 SEQUENCE = Inr (subject c, r6)"
    "ExpectTagAndGetTLV r6 SEQUENCE = Inr (subjectPublicKeyInfo c, r')"
    and c: "bc_der c = der" "endEntityOrCA c = e" "signedData c = sd"
    and none: "deref c out = None" for out
  proof -
    fix thesis
    assume that: "\<And>r1 r2 r3 r4 r5 r6. OptionalVersion r = Inr (version c, r1) \<Longrightarrow>
      CertificateSerialNumber r1 = Inr (bc_serialNumber c, r2) \<Longrightarrow>
      ExpectTagAndGetValue r2 SEQUENCE = Inr (signature c, r3) \<Longrightarrow>
      ExpectTagAndGetTLV r3 SEQUENCE = Inr (bc_issuer c, r4) \<Longrightarrow>
      ExpectTagAndGetValue r4 SEQUENCE = Inr (validity c, r5) \<Longrightarrow>
      ExpectTagAndGetTLV r5 SEQUENCE = Inr (subject c, r6) \<Longrightarrow>
      ExpectTagAndGetTLV r6 SEQUENCE = Inr (subjectPublicKeyInfo c, r') \<Longrightarrow>
      bc_der c = der \<Longrightarrow> endEntityOrCA c = e \<Longrightarrow> signedData c = sd \<Longrightarrow>
      (\<And>out. deref c out = None) \<Longrightarrow> thesis"
    have "deref c out = None" for out
      using ok by (cases out) (auto simp: ReadTBSFields_def bind_res_prod_Inr_iff)
    with that ok show thesis
      unfolding ReadTBSFields_def bind_res_prod_Inr_iff by auto
  qed
  note steps = this
  obtain ver where "wf_Reader r1" and ver: "remaining r = ver @ remaining r1" "encodes_version ver (version c)"
    using OptionalVersion_split [OF wf steps(1)] by blast
  note s1 = CertificateSerialNumber_split [OF \<open>wf_Reader r1\<close> steps(2)]
  note s2 = ExpectTagAndGetValue_split [OF conjunct1 [OF s1] steps(3)]
  note s3 = ExpectTagAndGetTLV_split [OF conjunct1 [OF s2] steps(4)]
  note s4 = ExpectTagAndGetValue_split [OF conjunct1 [OF s3] steps(5)]
  note s5 = ExpectTagAndGetTLV_split [OF conjunct1 [OF s4] steps(6)]
  note s6 = ExpectTagAndGetTLV_split [OF conjunct1 [OF s5] steps(7)]
  have "remaining r = ver @ tbs_bytes c @ remaining r'"
    using ver(1) s1 s2 s3 s4 s5 s6 by (simp add: tbs_bytes_def)
  then show ?thesis
    using s1 s3 s5 s6 c none ver(2) unfolding wf_names_def by blast
qed

lemma ExpectTagAndGetValueAtEnd_iff:
  assumes "wf_Input i"
  shows "ExpectTagAndGetValueAtEnd i t = Inr s \<longleftrightarrow>
    t AND 0x1F \<noteq> 0x1F \<and> (\<exists>v. wf_Input v \<and> i = encode_tlv t v \<and> s = Reader_of v)"
proof -
  have wf: "wf_Reader (Reader_of i)" using assms by simp
  have "ExpectTagAndGetValueAtEnd i t = Inr s \<longleftrightarrow>
      (\<exists>v q. (tlv_at (Reader_of i) t v q \<and> AtEnd q) \<and> s = Reader_of v)"
    unfolding ExpectTagAndGetValueAtEnd_def case_sum_prod_Inr_iff ExpectTagAndGetReader_iff [OF wf] End_def
    by auto
  then show ?thesis unfolding tlv_at_end_iff [OF assms] by blast
qed

text \<open>The three parts of a certificate; the signed bytes are the encoding of the first.\<close>

definition encodes_signed :: "Input \<Rightarrow> Input \<Rightarrow> SignedDataWithSignature \<Rightarrow> bool" where
  "encodes_signed der tbs sd \<longleftrightarrow>
     sds_data sd = encode_tlv SEQUENCE tbs \<and>
     der = encode_tlv SEQUENCE (sds_data sd @ encode_tlv SEQUENCE (sds_algorithm sd) @
       encode_tlv BIT_STRING (0 # sds_signature sd))"

lemma ReadCertificate_split:
  assumes "wf_Input der" and ok: "ReadCertificate der = Inr (r, sd)"
  obtains tbs where "wf_Input tbs" "r = Reader_of tbs" "encodes_signed der tbs sd"
proof -
  obtain v q where v: "wf_Input v" "der = encode_tlv SEQUENCE v"
    and sd: "SignedData (Reader_of v) = Inr ((r, sd), q)" and e: "AtEnd q"
    using ok unfolding ReadCertificate_def bind_res_Inr_iff [of "ExpectTagAndGetValueAtEnd der SEQUENCE"]
      ExpectTagAndGetValueAtEnd_iff [OF assms(1)]
    by (auto simp: bind_res_Inr_iff End_def split: if_splits)
  have wf: "wf_Reader (Reader_of v)" using v by simp
  obtain tbs r1 r2 where t: "tlv_at (Reader_of v) SEQUENCE tbs r1"
    "tlv_at r1 SEQUENCE (sds_algorithm sd) r2" "tlv_at r2 BIT_STRING (0 # sds_signature sd) q"
    "r = Reader_of tbs" "sds_data sd = encode_tlv SEQUENCE tbs"
    using sd unfolding SignedData_iff [OF wf] by blast
  have wf1: "wf_Reader r1" "wf_Input tbs" using tlv_at_wf [OF t(1) wf] by auto
  have wf2: "wf_Reader r2" using tlv_at_wf [OF t(2) wf1(1)] by auto
  have wf3: "wf_Reader q" using tlv_at_wf [OF t(3) wf2] by auto
  have "remaining q = []" using e wf3 by (simp add: AtEnd_iff)
  then have "v = encode_tlv SEQUENCE tbs @ encode_tlv SEQUENCE (sds_algorithm sd) @
      encode_tlv BIT_STRING (0 # sds_signature sd)"
    using tlv_at_split [OF t(1)] tlv_at_split [OF t(2)] tlv_at_split [OF t(3)] v(1) by simp
  then show thesis
    using that wf1(2) t(4,5) v(2) unfolding encodes_signed_def by auto
qed

lemma BackCert_Init_split:
  assumes der: "wf_Input der" and ok: "BackCert_Init der e = Inr c"
  obtains ver uid1 uid2 ext exts c0 where
    "bc_der c = der" "endEntityOrCA c = e" "wf_names c" "encodes_version ver (version c)"
    "encodes_signed der (ver @ tbs_bytes c @ uid1 @ uid2 @ ext) (signedData c)"
    "optional_tlv (CSC OR 1) uid1" "optional_tlv (CSC OR 2) uid2"
    "encodes_extensions_field ext exts" "\<forall>out. deref c0 out = None"
    "fold_res (handle_extension RememberExtension) c0 exts = Inr c"
    "GetLength_opt (criticalNetscapeCertificateType c) > 0 \<Longrightarrow>
       GetLength_opt (basicConstraints c) \<noteq> 0 \<and> GetLength_opt (extKeyUsage c) \<noteq> 0"
proof -
  obtain r sd c0 r1 r2 r3 r4 where p: "ReadCertificate der = Inr (r, sd)"
    "ReadTBSFields der e sd r = Inr (c0, r1)" "SkipOptional r1 (CSC OR 1) = Inr r2"
    "SkipOptional r2 (CSC OR 2) = Inr r3"
    "OptionalExtensions r3 (CSC OR 3) RememberExtension c0 = Inr (c, r4)"
    "AtEnd r4" "\<not> (GetLength_opt (criticalNetscapeCertificateType c) > 0 \<and>
         (GetLength_opt (basicConstraints c) = 0 \<or> GetLength_opt (extKeyUsage c) = 0))"
    using ok unfolding BackCert_Init_def
    by (auto simp: bind_res_prod_Inr_iff bind_res_Inr_iff End_def split: if_splits)
  obtain tbs where tbs: "wf_Input tbs" "r = Reader_of tbs" "encodes_signed der tbs sd"
    using ReadCertificate_split [OF der p(1)] .
  have wf: "wf_Reader r" using tbs by simp
  note f = ReadTBSFields_split [OF wf p(2)]
  obtain ver where ver: "remaining r = ver @ tbs_bytes c0 @ remaining r1" "encodes_version ver (version c0)"
    using f by blast
  note u1 = SkipOptional_split [OF conjunct1 [OF f] p(3)]
  note u2 = SkipOptional_split [OF conjunct1 [OF u1] p(4)]
  note x = OptionalExtensions_split [OF conjunct1 [OF u2] p(5)]
  obtain uid1 uid2 ext exts where parts: "remaining r1 = uid1 @ remaining r2" "optional_tlv (CSC OR 1) uid1"
    "remaining r2 = uid2 @ remaining r3" "optional_tlv (CSC OR 2) uid2"
    "remaining r3 = ext @ remaining r4" "encodes_extensions_field ext exts"
    "fold_res (handle_extension RememberExtension) c0 exts = Inr c"
    using u1 u2 x by blast
  have "core c c0" using core_fold [OF parts(7)] .
  then have same: "bc_der c = der" "endEntityOrCA c = e" "signedData c = sd" "version c = version c0"
    "tbs_bytes c = tbs_bytes c0" "wf_names c"
    using f by (auto simp: core_def tbs_bytes_def wf_names_def)
  have "remaining r4 = []" using p(6) x by (simp add: AtEnd_iff)
  then have "tbs = ver @ tbs_bytes c @ uid1 @ uid2 @ ext"
    using ver(1) parts tbs(1,2) same by simp
  then show thesis
    using that same tbs(3) ver(2) parts f p(7) by auto
qed

section \<open>The sizes of the views\<close>

text \<open>Every \<open>Input\<close> in a \<open>BackCert\<close> is a view of at most \<open>MAX_INPUT\<close> bytes, so that its length
  is never cut off by the 16 bits that hold it.\<close>

definition wf_cert :: "BackCert \<Rightarrow> bool" where
  "wf_cert c \<longleftrightarrow> wf_Input (bc_der c) \<and> (\<forall>out v. deref c out = Some v \<longrightarrow> wf_Input v) \<and>
     (\<forall>i \<in> {bc_serialNumber c, signature c, bc_issuer c, validity c, subject c, subjectPublicKeyInfo c,
             sds_data (signedData c), sds_algorithm (signedData c), sds_signature (signedData c)}. wf_Input i)"

lemma length_encode_tlv: "length v \<le> length (encode_tlv t v)"
  by (simp add: encode_tlv_def)

lemma wf_Input_le: "wf_Input w \<Longrightarrow> length v \<le> length w \<Longrightarrow> wf_Input v"
  by (simp add: wf_Input_def)

lemma members_wf:
  assumes "fold_res (handle_extension RememberExtension) c exts = Inr c'" and "\<forall>out. deref c out = None"
  shows "\<forall>out v. deref c' out = Some v \<longrightarrow> wf_Input v"
  using assms(1)
proof (rule fold_res_invariant)
  show "\<forall>out v. deref c out = Some v \<longrightarrow> wf_Input v" using assms(2) by simp
  fix s x t assume h: "handle_extension RememberExtension s x = Inr t"
    and s: "\<forall>out v. deref s out = Some v \<longrightarrow> wf_Input v"
  obtain oid crit v where x: "x = (oid, crit, v)" by (cases x) auto
  have "t = s \<or> (\<exists>out. t = store s out v \<and> wf_Input v)"
    using h unfolding x handle_RememberExtension by (auto split: option.splits)
  then show "\<forall>out v. deref t out = Some v \<longrightarrow> wf_Input v"
    using s by (auto simp: deref_store split: if_splits)
qed

lemma BackCert_Init_wf:
  assumes "wf_Input der" and "BackCert_Init der e = Inr c"
  shows "wf_cert c"
proof -
  obtain ver uid1 uid2 ext exts c0 where x: "bc_der c = der"
    "encodes_signed der (ver @ tbs_bytes c @ uid1 @ uid2 @ ext) (signedData c)"
    "fold_res (handle_extension RememberExtension) c0 exts = Inr c" "\<forall>out. deref c0 out = None"
    using BackCert_Init_split [OF assms] by metis
  let ?sd = "signedData c" and ?tbs = "ver @ tbs_bytes c @ uid1 @ uid2 @ ext"
  have parts: "length (sds_data ?sd) \<le> length der" "length (sds_algorithm ?sd) \<le> length der"
    "length (sds_signature ?sd) \<le> length der" "length (tbs_bytes c) \<le> length (sds_data ?sd)"
    using x(2) length_encode_tlv [of "sds_algorithm ?sd" SEQUENCE] length_encode_tlv [of "0 # sds_signature ?sd" BIT_STRING]
      length_encode_tlv [of ?tbs SEQUENCE]
      length_encode_tlv [of "sds_data ?sd @ encode_tlv SEQUENCE (sds_algorithm ?sd) @
         encode_tlv BIT_STRING (0 # sds_signature ?sd)" SEQUENCE]
    by (auto simp: encodes_signed_def)
  have fields: "\<forall>i \<in> {bc_serialNumber c, signature c, bc_issuer c, validity c, subject c, subjectPublicKeyInfo c}.
      length i \<le> length (tbs_bytes c)"
    using length_encode_tlv [of "bc_serialNumber c" INTEGER] length_encode_tlv [of "signature c" SEQUENCE]
      length_encode_tlv [of "validity c" SEQUENCE]
    by (auto simp: tbs_bytes_def)
  have wf: "wf_Input i" if "length i \<le> length der" for i using wf_Input_le [OF assms(1) that] .
  have "wf_Input i" if "i \<in> {bc_serialNumber c, signature c, bc_issuer c, validity c, subject c, subjectPublicKeyInfo c}" for i
  proof -
    have "length i \<le> length (tbs_bytes c)" using that fields by blast
    then show ?thesis using parts by (intro wf) linarith
  qed
  then show ?thesis
    unfolding wf_cert_def x(1) using members_wf [OF x(3,4)] parts(1,2,3) [THEN wf] assms(1) by simp
qed

section \<open>The array of the chain is a bounded list\<close>

text \<open>What path building relies on: entries are appended up to a bound, an append that
  succeeds keeps the earlier entries, and reading out of range gives the null pointer.\<close>

locale bounded_array =
  fixes append :: "'arr \<Rightarrow> 'x \<Rightarrow> 'arr res" and len :: "'arr \<Rightarrow> nat" and get :: "'arr \<Rightarrow> nat \<Rightarrow> 'x option"
    and ok :: "'x \<Rightarrow> bool" and bound :: nat
  assumes append_ok: "len a < bound \<Longrightarrow> ok x \<Longrightarrow> \<exists>b. append a x = Inr b"
    and append_len: "append a x = Inr b \<Longrightarrow> len a < bound \<and> len b = Suc (len a)"
    and append_get: "append a x = Inr b \<Longrightarrow> get b i = (if i = len a then Some x else get a i)"
    and get_bound: "get a i \<noteq> None \<longleftrightarrow> i < len a"
begin

definition contents :: "'arr \<Rightarrow> 'x list" where
  "contents a = map (\<lambda>i. the (get a i)) [0..<len a]"

lemma contents_append: "append a x = Inr b \<Longrightarrow> contents b = contents a @ [x]"
  using append_get [of a x b] append_len [of a x b] by (simp add: contents_def)

lemma fold_append:
  "fold_res append a xs = Inr b \<Longrightarrow> contents b = contents a @ xs \<and> len b = len a + length xs \<and>
     (xs \<noteq> [] \<longrightarrow> len b \<le> bound)"
proof (induction xs arbitrary: a)
  case (Cons x xs)
  then obtain c where c: "append a x = Inr c" "fold_res append c xs = Inr b"
    by (auto split: sum.splits)
  then show ?case
    using Cons.IH [OF c(2)] contents_append [OF c(1)] append_len [OF c(1)] by (cases xs) auto
qed simp

lemma fold_append_total:
  "len a + length xs \<le> bound \<Longrightarrow> \<forall>x \<in> set xs. ok x \<Longrightarrow> \<exists>b. fold_res append a xs = Inr b"
proof (induction xs arbitrary: a)
  case (Cons x xs)
  then obtain c where c: "append a x = Inr c" using append_ok [of a x] by auto
  then show ?case using Cons.IH [of c] Cons.prems append_len [OF c] by auto
qed simp

end

interpretation der_array: bounded_array DERArray_Append DERArray_GetLength DERArray_GetDER wf_Input
  NonOwningDERArray_MAX_LENGTH
  by unfold_locales
    (auto simp: DERArray_Append_def DERArray_GetLength_def DERArray_GetDER_def wf_Input_Init nth_append
      wf_Input_def split: sum.splits if_splits)

lemma der_array_contents: "der_array.contents a = a"
  by (rule nth_equalityI) (simp_all add: der_array.contents_def DERArray_GetLength_def DERArray_GetDER_def)

section \<open>Evaluation on concrete bytes\<close>

text \<open>The decoders compute on literals; the congruence keeps the simplifier from unfolding
  what follows a step before the step has its value.\<close>

lemma bind_res_weak_cong: "m = m' \<Longrightarrow> bind_res m f = bind_res m' f"
  by simp

lemmas eval_reader = Reader_of_def GetLength_def Read8_def Read16_def EnsureLength_def SkipInput_def
  MAX_INPUT_def AtEnd_def Peek_def MatchRest_def MatchRestInput_def Skip_def SkipReader_def
  SkipToEnd_def SkipToEndInput_def GetMark_def GetInput_def Let_def fail_if_def

lemmas eval_der = ReadLength_def ReadTagAndGetValue_def ExpectTagAndGetValue_def
  ExpectTagAndGetReader_def End_def ExpectTagAndEmptyValue_def ExpectTagAndSkipValue_def
  ExpectTagAndGetTLV_def Nested_def Nested2_def NestedOf_loop.simps NestedOf_def
  ExpectTagAndGetValueAtEnd_def

lemmas eval_types = Null_def AlgorithmIdentifierValue_def BitStringWithNoUnusedBits_def
  SignedData_def Boolean_def OptionalBoolean_def IntegralBytes_def IntegralValue_def
  PositiveInteger_def Integer_def CertificateSerialNumber_def OptionalVersion_def
  ExtensionDecoder_def OptionalExtensions_def

lemmas eval_cert = BackCert_Init_def ReadCertificate_def ReadTBSFields_def SkipOptional_def CSC_def
  RememberExtension_def select_out_def oid_defs MaybeInput_def

lemmas eval_pkix = eval_reader eval_der eval_types eval_cert

text \<open>A version 3 certificate with empty names and one extension, a key usage.\<close>

definition sample_certificate :: Input where
  "sample_certificate =
    [0x30, 0x2A, 0x30, 0x23, 0xA0, 0x03, 0x02, 0x01, 0x02, 0x02, 0x01, 0x01,
     0x30, 0x00, 0x30, 0x00, 0x30, 0x00, 0x30, 0x00, 0x30, 0x00,
     0xA3, 0x0F, 0x30, 0x0D, 0x30, 0x0B, 0x06, 0x03, 0x55, 0x1D, 0x0F, 0x04, 0x04, 0x03, 0x02, 0x05, 0xA0,
     0x30, 0x00, 0x03, 0x01, 0x00]"

lemma sample_certificate_accepted:
  "\<exists>c. BackCert_Init sample_certificate MustBeEndEntity = Inr c \<and> keyUsage c = Some [3, 2, 5, 0xA0]"
  by (simp add: sample_certificate_def eval_pkix cong: bind_res_weak_cong)

lemma wf_sample_certificate: "wf_Input sample_certificate"
  by (simp add: sample_certificate_def wf_Input_def MAX_INPUT_def)

section \<open>Properties\<close>

text \<open>C17: Every byte of an accepted certificate is accounted for: the certificate is the
  encoding of the three parts, the bytes whose signature is checked (\<open>sds_data\<close>) are the
  encoding of the to-be-signed part, and that part is the concatenation of the version,
  the fields that \<open>BackCert\<close> keeps (the names and the key as their complete encodings),
  the two ignored unique identifiers and the extensions. So two certificates that differ
  in a field differ in their signed bytes, and nothing that is used lies outside them.\<close>

theorem BackCert_Init_signed_bytes:
  assumes "wf_Input der" and "BackCert_Init der e = Inr c"
  shows "\<exists>ver uid1 uid2 ext exts.
    der = encode_tlv SEQUENCE (sds_data (signedData c) @
      encode_tlv SEQUENCE (sds_algorithm (signedData c)) @
      encode_tlv BIT_STRING (0 # sds_signature (signedData c))) \<and>
    sds_data (signedData c) = encode_tlv SEQUENCE (ver @
      encode_tlv INTEGER (bc_serialNumber c) @ encode_tlv SEQUENCE (signature c) @ bc_issuer c @
      encode_tlv SEQUENCE (validity c) @ subject c @ subjectPublicKeyInfo c @ uid1 @ uid2 @ ext) \<and>
    bc_der c = der \<and> shortest (bc_serialNumber c) \<and> encodes_version ver (version c) \<and>
    optional_tlv (CSC OR 1) uid1 \<and> optional_tlv (CSC OR 2) uid2 \<and> encodes_extensions_field ext exts"
proof -
  obtain ver uid1 uid2 ext exts where
    "bc_der c = der" "wf_names c" "encodes_version ver (version c)"
    "encodes_signed der (ver @ tbs_bytes c @ uid1 @ uid2 @ ext) (signedData c)"
    "optional_tlv (CSC OR 1) uid1" "optional_tlv (CSC OR 2) uid2" "encodes_extensions_field ext exts"
    using BackCert_Init_split [OF assms] by metis
  then show ?thesis
    unfolding encodes_signed_def wf_names_def tbs_bytes_def append_assoc by blast
qed

theorem BackCert_Init_signed_bytes_witness:
  "\<exists>c ver uid1 uid2 ext. BackCert_Init sample_certificate MustBeEndEntity = Inr c \<and>
    sds_data (signedData c) = encode_tlv SEQUENCE (ver @
      encode_tlv INTEGER (bc_serialNumber c) @ encode_tlv SEQUENCE (signature c) @ bc_issuer c @
      encode_tlv SEQUENCE (validity c) @ subject c @ subjectPublicKeyInfo c @ uid1 @ uid2 @ ext)"
proof -
  obtain c where "BackCert_Init sample_certificate MustBeEndEntity = Inr c"
    using sample_certificate_accepted by blast
  then show ?thesis
    using BackCert_Init_signed_bytes [OF wf_sample_certificate] by blast
qed

text \<open>C16: The extensions of an accepted certificate: no extension that the code remembers
  occurs twice, each member of \<open>BackCert\<close> holds the value of the one extension whose
  object identifier selects it and is unset if there is none, and every extension that
  is marked critical is one the code understands. A critical Netscape certificate type
  is only accepted together with the two standard extensions that replace it.\<close>

theorem BackCert_Init_extensions:
  assumes "wf_Input der" and "BackCert_Init der e = Inr c"
  shows "\<exists>tbs ext exts. sds_data (signedData c) = encode_tlv SEQUENCE (tbs @ ext) \<and>
    encodes_extensions_field ext exts \<and> distinct (member_slots exts) \<and>
    (\<forall>out v. deref c out = Some v \<longleftrightarrow> remembered out \<and>
       (\<exists>oid crit. (oid, crit, v) \<in> set exts \<and> slot (oid, crit, v) = Some out)) \<and>
    (\<forall>oid crit v. (oid, crit, v) \<in> set exts \<and> crit \<longrightarrow> slot (oid, crit, v) \<noteq> None) \<and>
    (MaybeInput (criticalNetscapeCertificateType c) \<noteq> None \<longrightarrow>
       GetBasicConstraints c \<noteq> None \<and> GetExtKeyUsage c \<noteq> None)"
proof -
  obtain ver uid1 uid2 ext exts c0 where x:
    "encodes_signed der (ver @ tbs_bytes c @ uid1 @ uid2 @ ext) (signedData c)"
    "encodes_extensions_field ext exts" "\<forall>out. deref c0 out = None"
    "fold_res (handle_extension RememberExtension) c0 exts = Inr c"
    "GetLength_opt (criticalNetscapeCertificateType c) > 0 \<Longrightarrow>
       GetLength_opt (basicConstraints c) \<noteq> 0 \<and> GetLength_opt (extKeyUsage c) \<noteq> 0"
    using BackCert_Init_split [OF assms] by metis
  have "MaybeInput i \<noteq> None \<longleftrightarrow> GetLength_opt i > 0" for i
    by (cases i) (auto simp: MaybeInput_def)
  then have "MaybeInput (criticalNetscapeCertificateType c) \<noteq> None \<longrightarrow>
       GetBasicConstraints c \<noteq> None \<and> GetExtKeyUsage c \<noteq> None"
    using x(5) by (auto simp: GetBasicConstraints_def GetExtKeyUsage_def word_neq_0_conv)
  moreover have "sds_data (signedData c) = encode_tlv SEQUENCE ((ver @ tbs_bytes c @ uid1 @ uid2) @ ext)"
    using x(1) by (simp add: encodes_signed_def)
  moreover note x(2)
  moreover have "distinct (member_slots exts)"
    "\<forall>out v. deref c out = Some v \<longleftrightarrow> remembered out \<and>
       (\<exists>oid crit. (oid, crit, v) \<in> set exts \<and> slot (oid, crit, v) = Some out)"
    "\<forall>oid crit v. (oid, crit, v) \<in> set exts \<and> crit \<longrightarrow> slot (oid, crit, v) \<noteq> None"
    using extensions_remembered [OF x(4)] x(3) by simp_all
  ultimately show ?thesis by blast
qed

theorem BackCert_Init_extensions_witness:
  "\<exists>c ext exts oid crit. BackCert_Init sample_certificate MustBeEndEntity = Inr c \<and>
    encodes_extensions_field ext exts \<and> (oid, crit, [3, 2, 5, 0xA0]) \<in> set exts \<and>
    slot (oid, crit, [3, 2, 5, 0xA0]) = Some Out_keyUsage"
proof -
  obtain c where c: "BackCert_Init sample_certificate MustBeEndEntity = Inr c"
    "keyUsage c = Some [3, 2, 5, 0xA0]"
    using sample_certificate_accepted by blast
  then have "deref c Out_keyUsage = Some [3, 2, 5, 0xA0]" by simp
  then show ?thesis
    using BackCert_Init_extensions [OF wf_sample_certificate c(1)] c(1) by blast
qed

text \<open>The views of an accepted certificate. Each of them, the fields of the fixed part, the parts
  of the signed data and the values of the extensions, has at most 65535 bytes, and lies in
  the certificate: its length as the code computes it, in 16 bits, is the true length.\<close>

lemma BackCert_Init_views:
  assumes "wf_Input der" and "BackCert_Init der e = Inr c"
  shows "\<forall>i \<in> {bc_serialNumber c, signature c, bc_issuer c, validity c, subject c, subjectPublicKeyInfo c,
      sds_data (signedData c), sds_algorithm (signedData c), sds_signature (signedData c)} \<union>
      {v. \<exists>out. deref c out = Some v}. wf_Input i \<and> unat (GetLength i) = length i"
  using BackCert_Init_wf [OF assms] GetLength_wf unfolding wf_cert_def by blast

end
