(* ===== verification/PkixIp.thy ===== *)
theory PkixIp
  imports PkixCert
begin

text \<open>
  \<^verbatim>\<open>security/pkix/lib/pkixnames.cpp\<close>: the parsers of textual IPv4 and IPv6 addresses.
  They are stricter than the operating system's: no leading zeros in a decimal
  component, at most four hexadecimal digits in a component, one contraction.

  The byte arrays \<open>out\<close> and \<open>address\<close> are lists that are passed in with whatever
  they hold and returned updated; when the code returns \<open>false\<close> the array is not read
  again and the model returns \<open>None\<close>. Characters are their ASCII codes.
\<close>

section \<open>Characters\<close>

abbreviation (input) c_dot :: u8 where "c_dot \<equiv> 0x2E"
abbreviation (input) c_colon :: u8 where "c_colon \<equiv> 0x3A"
abbreviation (input) c_zero :: u8 where "c_zero \<equiv> 0x30"
abbreviation (input) c_nine :: u8 where "c_nine \<equiv> 0x39"
abbreviation (input) c_a :: u8 where "c_a \<equiv> 0x61"
abbreviation (input) c_f :: u8 where "c_f \<equiv> 0x66"
abbreviation (input) c_z :: u8 where "c_z \<equiv> 0x7A"
abbreviation (input) c_A :: u8 where "c_A \<equiv> 0x41"
abbreviation (input) c_F :: u8 where "c_F \<equiv> 0x46"
abbreviation (input) c_Z :: u8 where "c_Z \<equiv> 0x5A"

section \<open>IPv4\<close>

text \<open>The loop of \<open>ReadIPv4AddressComponent\<close>; its variables are \<open>length\<close> and \<open>value\<close>.\<close>

function ReadIPv4AddressComponent_loop ::
  "Reader \<Rightarrow> bool \<Rightarrow> nat \<Rightarrow> u32 \<Rightarrow> (nat \<times> u32 \<times> Reader) option" where
  "ReadIPv4AddressComponent_loop input lastComponent len val =
     (if AtEnd input \<and> lastComponent then Some (len, val, input)
      else case Read8 input of
        Inl _ \<Rightarrow> None
      | Inr (b, input') \<Rightarrow>
          if c_zero \<le> b \<and> b \<le> c_nine then
            if val = 0 \<and> len > 0 then None
            else let val' = val * 10 + (ucast b - ucast c_zero) in
              if val' > 255 then None
              else ReadIPv4AddressComponent_loop input' lastComponent (len + 1) val'
          else if \<not> lastComponent \<and> b = c_dot then Some (len, val, input')
          else None)"
  by pat_completeness auto
termination
  by (relation "measure (\<lambda>(r, _). r_end r - r_input r)")
    (auto simp: Read8_def EnsureLength_def split: sum.splits if_splits)

declare ReadIPv4AddressComponent_loop.simps [simp del]

definition ReadIPv4AddressComponent :: "Reader \<Rightarrow> bool \<Rightarrow> (u8 \<times> Reader) option" where
  "ReadIPv4AddressComponent input lastComponent =
     (case ReadIPv4AddressComponent_loop input lastComponent 0 0 of
        None \<Rightarrow> None
      | Some (len, val, input) \<Rightarrow> if len = 0 then None else Some (ucast val, input))"

definition ParseIPv4Address :: "Input \<Rightarrow> u8 list option" where
  "ParseIPv4Address hostname =
     (case ReadIPv4AddressComponent (Reader_of hostname) False of
        None \<Rightarrow> None
      | Some (b0, input) \<Rightarrow>
        (case ReadIPv4AddressComponent input False of
           None \<Rightarrow> None
         | Some (b1, input) \<Rightarrow>
           (case ReadIPv4AddressComponent input False of
              None \<Rightarrow> None
            | Some (b2, input) \<Rightarrow>
              (case ReadIPv4AddressComponent input True of
                 None \<Rightarrow> None
               | Some (b3, input) \<Rightarrow> Some [b0, b1, b2, b3]))))"

section \<open>IPv6\<close>

text \<open>\<open>memmove\<close> and \<open>std::fill_n\<close> within one array.\<close>

definition memmove :: "nat \<Rightarrow> nat \<Rightarrow> nat \<Rightarrow> 'a list \<Rightarrow> 'a list" where
  "memmove dst src n a = take dst a @ take n (drop src a) @ drop (dst + n) a"

definition fill_n :: "nat \<Rightarrow> nat \<Rightarrow> 'a \<Rightarrow> 'a list \<Rightarrow> 'a list" where
  "fill_n dst n x a = take dst a @ replicate n x @ drop (dst + n) a"

definition FinishIPv6Address :: "u8 list \<Rightarrow> int \<Rightarrow> int \<Rightarrow> u8 list option" where
  "FinishIPv6Address address numComponents contractionIndex =
     (if \<not> (numComponents \<ge> 0 \<and> numComponents \<le> 8 \<and> contractionIndex \<ge> -1 \<and>
            contractionIndex \<le> 8 \<and> contractionIndex \<le> numComponents) then None
      else if contractionIndex = -1 then
        (if numComponents = 8 then Some address else None)
      else if numComponents \<ge> 8 then None
      else
        let componentsToMove = nat (numComponents - contractionIndex);
            address = memmove (2 * (8 - componentsToMove)) (2 * nat contractionIndex)
                        (componentsToMove * 2) address
        in Some (fill_n (2 * nat contractionIndex) ((8 - nat numComponents) * 2) 0 address))"

text \<open>The inner loop reads the digits of one component. It ends at the end of the input
  or before a colon with the value and the number of digits, at a dot with the request
  to parse an IPv4 address instead, or with the \<open>false\<close> of the whole function.\<close>

datatype component =
    Component_Invalid
  | Component_IPv4 Reader
  | Component_Value u16 nat Reader

definition hex_digit :: "u8 \<Rightarrow> u8 option" where
  "hex_digit b =
     (if c_zero \<le> b \<and> b \<le> c_nine then Some (b - c_zero)
      else if c_a \<le> b \<and> b \<le> c_f then Some (b - c_a + 10)
      else if c_A \<le> b \<and> b \<le> c_F then Some (b - c_A + 10)
      else None)"

function ParseIPv6Address_component :: "Reader \<Rightarrow> u16 \<Rightarrow> nat \<Rightarrow> component" where
  "ParseIPv6Address_component input componentValue componentLength =
     (if \<not> AtEnd input \<and> \<not> Peek input c_colon then
        case Read8 input of
          Inl _ \<Rightarrow> Component_Invalid
        | Inr (b, input') \<Rightarrow>
            (case hex_digit b of
               Some val \<Rightarrow>
                 if componentLength \<ge> 4 then Component_Invalid
                 else ParseIPv6Address_component input'
                        (componentValue * 0x10 + ucast val) (componentLength + 1)
             | None \<Rightarrow> if b = c_dot then Component_IPv4 input' else Component_Invalid)
      else Component_Value componentValue componentLength input)"
  by pat_completeness auto
termination
  by (relation "measure (\<lambda>(r, _). r_end r - r_input r)")
    (auto simp: Read8_def EnsureLength_def split: sum.splits if_splits)

declare ParseIPv6Address_component.simps [simp del]

lemma ParseIPv6Address_component_shrinks:
  "ParseIPv6Address_component r v n = Component_Value v' n' r' \<Longrightarrow>
   r_end r' = r_end r \<and> r_input r \<le> r_input r'"
proof (induction r v n rule: ParseIPv6Address_component.induct)
  case (1 r v n)
  show ?case
  proof (cases "\<not> AtEnd r \<and> \<not> Peek r c_colon")
    case True
    then obtain b q d where "Read8 r = Inr (b, q)" "hex_digit b = Some d" "\<not> n \<ge> 4"
      "ParseIPv6Address_component q (v * 0x10 + ucast d) (n + 1) = Component_Value v' n' r'"
      using "1.prems" by (subst (asm) ParseIPv6Address_component.simps)
        (auto split: if_splits sum.splits option.splits)
    with "1.IH" [OF True _ _ _ _] Read8_shrinks show ?thesis by fastforce
  next
    case False
    with "1.prems" show ?thesis by (subst (asm) ParseIPv6Address_component.simps) auto
  qed
qed

text \<open>The case \<open>'.'\<close>: the rest from the start of the component is an IPv4 address.\<close>

definition ParseIPv6Address_ipv4 ::
  "Reader \<Rightarrow> nat \<Rightarrow> u8 list \<Rightarrow> nat \<Rightarrow> int \<Rightarrow> u8 list option" where
  "ParseIPv6Address_ipv4 input startOfComponent out currentComponentIndex contractionIndex =
     (if currentComponentIndex > 6 then None
      else case GetInput (SkipToEnd input) startOfComponent of
        Inl _ \<Rightarrow> None
      | Inr ipv4Component \<Rightarrow>
          (case ParseIPv4Address ipv4Component of
             None \<Rightarrow> None
           | Some ipv4 \<Rightarrow>
               FinishIPv6Address
                 (take (2 * currentComponentIndex) out @ ipv4 @ drop (2 * currentComponentIndex + 4) out)
                 (int currentComponentIndex + 2) contractionIndex))"

function ParseIPv6Address_loop :: "Reader \<Rightarrow> u8 list \<Rightarrow> nat \<Rightarrow> int \<Rightarrow> u8 list option" where
  "ParseIPv6Address_loop input out currentComponentIndex contractionIndex =
     (case ParseIPv6Address_component input 0 0 of
        Component_Invalid \<Rightarrow> None
      | Component_IPv4 input' \<Rightarrow>
          ParseIPv6Address_ipv4 input' (GetMark input) out currentComponentIndex contractionIndex
      | Component_Value componentValue componentLength input' \<Rightarrow>
          if currentComponentIndex \<ge> 8 then None
          else if componentLength = 0 then
            if AtEnd input' \<and> int currentComponentIndex = contractionIndex then
              if contractionIndex = 0 then None
              else FinishIPv6Address out (int currentComponentIndex) contractionIndex
            else None
          else
            let out = out[2 * currentComponentIndex := ucast (componentValue div 0x100),
                          2 * currentComponentIndex + 1 := ucast (componentValue mod 0x100)];
                currentComponentIndex = currentComponentIndex + 1
            in
            if AtEnd input' then FinishIPv6Address out (int currentComponentIndex) contractionIndex
            else case Read8 input' of
              Inl _ \<Rightarrow> None
            | Inr (b, input2) \<Rightarrow>
                if b \<noteq> c_colon then None
                else if Peek input2 c_colon then
                  if contractionIndex \<noteq> -1 then None
                  else case Read8 input2 of
                    Inl _ \<Rightarrow> None
                  | Inr (b, input3) \<Rightarrow>
                      if b \<noteq> c_colon then None
                      else if AtEnd input3 then
                        FinishIPv6Address out (int currentComponentIndex) (int currentComponentIndex)
                      else ParseIPv6Address_loop input3 out currentComponentIndex (int currentComponentIndex)
                else ParseIPv6Address_loop input2 out currentComponentIndex contractionIndex)"
  by pat_completeness auto
termination
  by (relation "measure (\<lambda>(r, _). r_end r - r_input r)")
    (auto dest!: ParseIPv6Address_component_shrinks Read8_shrinks)

declare ParseIPv6Address_loop.simps [simp del]

definition ParseIPv6Address :: "Input \<Rightarrow> u8 list \<Rightarrow> u8 list option" where
  "ParseIPv6Address hostname out =
     (let input = Reader_of hostname in
      if Peek input c_colon then
        case Read8 input of
          Inl _ \<Rightarrow> None
        | Inr (b, input) \<Rightarrow>
            if b \<noteq> c_colon then None
            else case Read8 input of
              Inl _ \<Rightarrow> None
            | Inr (b, input) \<Rightarrow>
                if b \<noteq> c_colon then None else ParseIPv6Address_loop input out 0 0
      else ParseIPv6Address_loop input out 0 (-1))"

section \<open>The textual form of an IPv4 address\<close>

fun decimal :: "nat \<Rightarrow> u8 list" where
  "decimal n = (if n < 10 then [] else decimal (n div 10)) @ [of_nat (48 + n mod 10)]"

declare decimal.simps [simp del]

definition ipv4_text :: "u8 list \<Rightarrow> u8 list" where
  "ipv4_text a = decimal (unat (a ! 0)) @ [c_dot] @ decimal (unat (a ! 1)) @ [c_dot] @
     decimal (unat (a ! 2)) @ [c_dot] @ decimal (unat (a ! 3))"

text \<open>What the loop computes from the bytes left, and on natural numbers.\<close>

fun octet_loop :: "bool \<Rightarrow> nat \<Rightarrow> nat \<Rightarrow> u8 list \<Rightarrow> (nat \<times> nat \<times> u8 list) option" where
  "octet_loop lst len v [] = (if lst then Some (len, v, []) else None)"
| "octet_loop lst len v (b # bs) =
     (if c_zero \<le> b \<and> b \<le> c_nine then
        (if v = 0 \<and> len > 0 then None
         else if v * 10 + (unat b - 48) > 255 then None
         else octet_loop lst (len + 1) (v * 10 + (unat b - 48)) bs)
      else if \<not> lst \<and> b = c_dot then Some (len, v, bs) else None)"

lemma of_nat_u32_greater: "n < 4294967296 \<Longrightarrow> (of_nat n :: u32) > 255 \<longleftrightarrow> n > 255"
  by (simp add: word_less_nat_alt unat_of_nat_u32)

lemma Read8_Nil: "wf_Reader r \<Longrightarrow> remaining r = [] \<Longrightarrow> Read8 r = Inl ERROR_BAD_DER \<and> AtEnd r \<and> \<not> Peek r b"
  by (simp add: Read8_spec AtEnd_iff Peek_iff)

lemma Read8_Cons:
  assumes "wf_Reader r" "remaining r = b # bs"
  obtains q where "Read8 r = Inr (b, q)" "remaining q = bs" "wf_Reader q" "\<not> AtEnd r"
    "\<And>c. Peek r c \<longleftrightarrow> b = c"
  using assms that [of "advance 1 r"] by (simp add: Read8_spec AtEnd_iff Peek_iff)

lemma ReadIPv4AddressComponent_loop_list:
  assumes "wf_Reader r" and "v \<le> 255"
  shows "(case ReadIPv4AddressComponent_loop r lst len (of_nat v) of
      None \<Rightarrow> octet_loop lst len v (remaining r) = None
    | Some (n, w, r') \<Rightarrow> wf_Reader r' \<and> w < 256 \<and>
        octet_loop lst len v (remaining r) = Some (n, unat w, remaining r'))"
  using assms
proof (induction "remaining r" arbitrary: r len v)
  case Nil
  have w: "(of_nat v :: u32) < 256" "unat (of_nat v :: u32) = v"
    using Nil.prems(2) by (simp_all add: word_less_nat_alt unat_of_nat_u32)
  show ?case
    using Read8_Nil [OF Nil.prems(1) Nil.hyps [symmetric]] Nil.hyps [symmetric] w Nil.prems(1)
    by (subst ReadIPv4AddressComponent_loop.simps) simp
next
  case (Cons b bs)
  obtain q where q: "Read8 r = Inr (b, q)" "remaining q = bs" "wf_Reader q" "\<not> AtEnd r"
    using Read8_Cons [OF Cons.prems(1) Cons.hyps(2) [symmetric]] by blast
  note step = ReadIPv4AddressComponent_loop.simps [of r lst len "of_nat v"]
  have zero: "(of_nat v :: u32) = 0 \<longleftrightarrow> v = 0"
    using unat_of_nat_u32 [of v] Cons.prems(2) by (simp add: unat_eq_0 [symmetric])
  have w: "(of_nat v :: u32) < 256" "unat (of_nat v :: u32) = v"
    using Cons.prems(2) by (simp_all add: word_less_nat_alt unat_of_nat_u32)
  show ?case
  proof (cases "c_zero \<le> b \<and> b \<le> c_nine")
    case True
    define m where "m = v * 10 + (unat b - 48)"
    have "48 \<le> unat b" "unat b \<le> 57" using True by (simp_all add: word_le_nat_alt)
    moreover have "(ucast b :: u32) = of_nat (unat b)" by simp
    ultimately have m: "(of_nat v * 10 + (ucast b - ucast c_zero) :: u32) = of_nat m"
      by (simp add: of_nat_diff m_def)
    have "m < 4294967296" using Cons.prems(2) \<open>unat b \<le> 57\<close> by (simp add: m_def)
    then have gt: "(of_nat m :: u32) > 255 \<longleftrightarrow> m > 255" by (rule of_nat_u32_greater)
    have list: "octet_loop lst len v (remaining r) = (if v = 0 \<and> len > 0 then None
        else if m > 255 then None else octet_loop lst (len + 1) m bs)"
      using True by (simp add: Cons.hyps(2) [symmetric] m_def)
    have code: "ReadIPv4AddressComponent_loop r lst len (of_nat v) = (if v = 0 \<and> len > 0 then None
        else if m > 255 then None else ReadIPv4AddressComponent_loop q lst (len + 1) (of_nat m))"
      using True q(4) by (subst step) (simp only: q(1) sum.case prod.case Let_def m gt zero simp_thms if_True if_False)
    show ?thesis
    proof (cases "(v = 0 \<and> len > 0) \<or> m > 255")
      case False
      then show ?thesis
        using Cons.hyps(1) [OF q(2) [symmetric] q(3), of m "len + 1"] unfolding list code q(2) by auto
    next
      case True
      then show ?thesis unfolding list code by auto
    qed
  next
    case False
    have "octet_loop lst len v (remaining r) = (if \<not> lst \<and> b = c_dot then Some (len, v, bs) else None)"
      unfolding Cons.hyps(2) [symmetric] octet_loop.simps if_not_P [OF False] ..
    moreover have "ReadIPv4AddressComponent_loop r lst len (of_nat v) =
        (if \<not> lst \<and> b = c_dot then Some (len, of_nat v, q) else None)"
      unfolding step q(1) sum.case prod.case if_not_P [OF False] using q(4) by simp
    ultimately show ?thesis using q(2,3) w by (auto simp: word_less_nat_alt)
  qed
qed

fun digit_run :: "nat \<Rightarrow> nat \<Rightarrow> u8 list \<Rightarrow> nat option" where
  "digit_run len v [] = Some v"
| "digit_run len v (d # ds) =
     (if c_zero \<le> d \<and> d \<le> c_nine \<and> \<not> (v = 0 \<and> len > 0) \<and> v * 10 + (unat d - 48) \<le> 255
      then digit_run (len + 1) (v * 10 + (unat d - 48)) ds else None)"

lemma digit_run_append:
  "digit_run len v (ds @ es) =
     (case digit_run len v ds of None \<Rightarrow> None | Some w \<Rightarrow> digit_run (len + length ds) w es)"
  by (induction ds arbitrary: len v) (auto split: option.split)

lemma ex_Cons_append:
  "(\<And>c cs. z = c # cs \<Longrightarrow> c \<noteq> b) \<Longrightarrow>
   (\<exists>ds. b # bs = ds @ z \<and> P ds) \<longleftrightarrow> (\<exists>ds. bs = ds @ z \<and> P (b # ds))"
  by (auto simp: Cons_eq_append_conv)

lemma octet_loop_iff:
  "octet_loop lst len v bs = Some (n, w, rest) \<longleftrightarrow>
     (\<exists>ds. bs = ds @ (if lst then [] else c_dot # rest) \<and> (lst \<longrightarrow> rest = []) \<and>
        n = len + length ds \<and> digit_run len v ds = Some w)"
proof (induction bs arbitrary: len v)
  case (Cons b bs)
  show ?case
  proof (cases "c_zero \<le> b \<and> b \<le> c_nine")
    case True
    let ?m = "v * 10 + (unat b - 48)"
    let ?P = "\<lambda>ds. (lst \<longrightarrow> rest = []) \<and> n = len + length ds \<and> digit_run len v ds = Some w"
    have nd: "b \<noteq> c_dot" using True by (auto simp: word_le_nat_alt)
    have run: "digit_run len v (b # ds) =
        (if (v = 0 \<and> len > 0) \<or> ?m > 255 then None else digit_run (len + 1) ?m ds)" for ds
      using True by (simp add: not_le)
    have "(\<exists>ds. b # bs = ds @ (if lst then [] else c_dot # rest) \<and> ?P ds) \<longleftrightarrow>
        (\<exists>ds. bs = ds @ (if lst then [] else c_dot # rest) \<and> ?P (b # ds))"
      using nd by (intro ex_Cons_append) (auto split: if_splits)
    also have "\<dots> \<longleftrightarrow> \<not> ((v = 0 \<and> len > 0) \<or> ?m > 255) \<and>
        octet_loop lst (len + 1) ?m bs = Some (n, w, rest)"
      unfolding Cons.IH run by (cases "(v = 0 \<and> len > 0) \<or> ?m > 255") (simp_all, blast)
    also have "\<dots> \<longleftrightarrow> octet_loop lst len v (b # bs) = Some (n, w, rest)"
      using True by simp
    finally show ?thesis by (rule sym)
  next
    case False
    have run: "digit_run len v (b # ds) = None" for ds using False by auto
    have "octet_loop lst len v (b # bs) = (if \<not> lst \<and> b = c_dot then Some (len, v, bs) else None)"
      unfolding octet_loop.simps if_not_P [OF False] ..
    moreover have "(b # bs = ds @ z \<and> Q \<and> n = len + length ds \<and> digit_run len v ds = Some w) \<longleftrightarrow>
        ds = [] \<and> b # bs = z \<and> Q \<and> n = len \<and> v = w" for ds z Q
      by (cases ds) (use run in \<open>auto\<close>)
    ultimately show ?thesis by auto
  qed
qed auto

lemma unat_digit: "n < 10 \<Longrightarrow> unat (of_nat (48 + n) :: u8) = 48 + n"
  by (rule unat_of_nat_u8) simp

lemma digit_char: "n < 10 \<Longrightarrow> c_zero \<le> (of_nat (48 + n) :: u8) \<and> (of_nat (48 + n) :: u8) \<le> c_nine"
  by (simp add: word_le_nat_alt unat_digit del: of_nat_add)

lemma decimal_not_Nil [simp]: "decimal n \<noteq> []"
  by (subst decimal.simps) simp

lemma digit_run_decimal:
  "digit_run 0 0 ds = Some v \<and> ds \<noteq> [] \<longleftrightarrow> v \<le> 255 \<and> ds = decimal v"
proof
  show "digit_run 0 0 ds = Some v \<and> ds \<noteq> [] \<Longrightarrow> v \<le> 255 \<and> ds = decimal v"
  proof (induction ds arbitrary: v rule: rev_induct)
    case (snoc d ds)
    then obtain u where u: "digit_run 0 0 ds = Some u" "digit_run (length ds) u [d] = Some v"
      by (auto simp: digit_run_append split: option.splits)
    then have d: "48 \<le> unat d" "unat d \<le> 57" "v = u * 10 + (unat d - 48)" "v \<le> 255"
      "ds \<noteq> [] \<Longrightarrow> u \<noteq> 0"
      by (auto simp: word_le_nat_alt split: if_splits)
    obtain x where x: "unat d = 48 + x" "x < 10"
      using d(1,2) le_Suc_ex [OF d(1)] by auto
    then have v: "v mod 10 = x" "v div 10 = u" using d(3) by simp_all
    have "d = of_nat (48 + v mod 10)" unfolding v x(1) [symmetric] by simp
    moreover note v(2)
    moreover have "ds = (if v < 10 then [] else decimal (v div 10))"
    proof (cases "ds = []")
      case True
      with u(1) d show ?thesis by auto
    next
      case False
      with snoc.IH [of u] u(1) d(5) d(3) v(2) show ?thesis by auto
    qed
    ultimately show ?case using d(4) decimal.simps [of v] by simp
  qed simp
  show "v \<le> 255 \<and> ds = decimal v \<Longrightarrow> digit_run 0 0 ds = Some v \<and> ds \<noteq> []"
  proof (induction v arbitrary: ds rule: decimal.induct)
    case (1 v)
    have last: "digit_run len u [of_nat (48 + v mod 10)] = Some v"
      if "v = u * 10 + v mod 10" "\<not> (u = 0 \<and> len > 0)" for u len
      using that digit_char [of "v mod 10"] unat_digit [of "v mod 10"] 1(2) by (simp del: of_nat_add)
    show ?case
    proof (cases "v < 10")
      case True
      then show ?thesis using 1(2) last [of 0 0] decimal.simps [of v] by simp
    next
      case False
      then have "digit_run 0 0 (decimal (v div 10)) = Some (v div 10)" using 1 by auto
      then show ?thesis
        using False 1(2) last [of "v div 10"] decimal.simps [of v]
        by (simp add: digit_run_append div_eq_0_iff)
    qed
  qed
qed

lemma ReadIPv4AddressComponent_iff:
  assumes "wf_Reader r"
  shows "(case ReadIPv4AddressComponent r lst of
      None \<Rightarrow> \<forall>b rest. remaining r \<noteq> decimal (unat (b :: u8)) @ (if lst then [] else c_dot # rest)
    | Some (b, r') \<Rightarrow> wf_Reader r' \<and> (lst \<longrightarrow> remaining r' = []) \<and>
        remaining r = decimal (unat b) @ (if lst then [] else c_dot # remaining r'))"
proof -
  have accept: "octet_loop lst 0 0 bs = Some (n, w, rest) \<and> n \<noteq> 0 \<longleftrightarrow>
      w \<le> 255 \<and> n = length (decimal w) \<and> bs = decimal w @ (if lst then [] else c_dot # rest) \<and>
      (lst \<longrightarrow> rest = [])" for bs n w rest
  proof -
    have "octet_loop lst 0 0 bs = Some (n, w, rest) \<and> n \<noteq> 0 \<longleftrightarrow>
        (\<exists>ds. bs = ds @ (if lst then [] else c_dot # rest) \<and> (lst \<longrightarrow> rest = []) \<and>
          n = length ds \<and> (digit_run 0 0 ds = Some w \<and> ds \<noteq> []))"
      unfolding octet_loop_iff add_0 by (metis length_0_conv)
    then show ?thesis unfolding digit_run_decimal by blast
  qed
  note l = ReadIPv4AddressComponent_loop_list [OF assms, of 0 lst 0]
  show ?thesis
  proof (cases "ReadIPv4AddressComponent_loop r lst 0 0")
    case None
    then have "octet_loop lst 0 0 (remaining r) = None" using l by simp
    then have "remaining r \<noteq> decimal (unat b) @ (if lst then [] else c_dot # rest)" for b :: u8 and rest
      using accept [of "remaining r" "length (decimal (unat b))" "unat b" "if lst then [] else rest"]
        unat_u8_less [of b] by auto
    then show ?thesis using None by (simp add: ReadIPv4AddressComponent_def)
  next
    case (Some x)
    obtain n w r' where x: "x = (n, w, r')" by (cases x)
    then have o: "octet_loop lst 0 0 (remaining r) = Some (n, unat w, remaining r')"
      and r': "wf_Reader r'" and w: "w < 256" using l Some by auto
    show ?thesis
    proof (cases "n = 0")
      case True
      have "remaining r \<noteq> decimal (unat b) @ (if lst then [] else c_dot # rest)" for b :: u8 and rest
        using accept [of "remaining r" "length (decimal (unat b))" "unat b" "if lst then [] else rest"]
          unat_u8_less [of b] o True by auto
      then show ?thesis using Some x True by (simp add: ReadIPv4AddressComponent_def)
    next
      case False
      have "unat (ucast w :: u8) = unat w" using w by (simp add: unsigned_ucast_eq unsigned_take_bit_eq word_less_nat_alt take_bit_nat_eq_self)
      then show ?thesis
        using accept [of "remaining r" n "unat w" "remaining r'"] o r' Some x False
        by (simp add: ReadIPv4AddressComponent_def)
    qed
  qed
qed

lemma ReadIPv4AddressComponent_then:
  assumes "wf_Reader r"
  shows "(case ReadIPv4AddressComponent r lst of None \<Rightarrow> None | Some (b, r') \<Rightarrow> f b r') = Some x \<longleftrightarrow>
    (\<exists>b r'. wf_Reader r' \<and> (lst \<longrightarrow> remaining r' = []) \<and> ReadIPv4AddressComponent r lst = Some (b, r') \<and>
      remaining r = decimal (unat b) @ (if lst then [] else c_dot # remaining r') \<and> f b r' = Some x)"
proof (cases "ReadIPv4AddressComponent r lst")
  case (Some x)
  then show ?thesis using ReadIPv4AddressComponent_iff [OF assms, of lst] by (cases x) auto
qed simp

text \<open>A decimal numeral has no dot, so the text determines the components.\<close>

lemma decimal_digits: "b \<in> set (decimal n) \<Longrightarrow> c_zero \<le> b \<and> b \<le> c_nine"
  by (induction n rule: decimal.induct)
    (subst (asm) decimal.simps, use digit_char in \<open>auto simp del: of_nat_add split: if_splits\<close>)

lemma decimal_no_dot: "c_dot \<notin> set (decimal n)"
  using decimal_digits [of c_dot n] by (auto simp: word_le_nat_alt)

lemma append_sep_inject:
  assumes "x \<notin> set as" "x \<notin> set cs"
  shows "as @ x # bs = cs @ x # ds \<longleftrightarrow> as = cs \<and> bs = ds"
proof (rule iffI)
  assume eq: "as @ x # bs = cs @ x # ds"
  then have "takeWhile (\<lambda>y. y \<noteq> x) (as @ x # bs) = takeWhile (\<lambda>y. y \<noteq> x) (cs @ x # ds)" by simp
  moreover have "takeWhile (\<lambda>y. y \<noteq> x) (zs @ x # ys) = zs" if "x \<notin> set zs" for zs ys
    using that by (induction zs) auto
  ultimately have "as = cs" using assms by simp
  with eq show "as = cs \<and> bs = ds" by simp
qed simp

lemma decimal_inject: "decimal m = decimal n \<Longrightarrow> m \<le> 255 \<Longrightarrow> n \<le> 255 \<Longrightarrow> m = n"
  using digit_run_decimal [of "decimal m" m] digit_run_decimal [of "decimal m" n] by auto

lemma ReadIPv4AddressComponent_decimal:
  assumes "wf_Reader r" and "remaining r = decimal (unat b) @ (if lst then [] else c_dot # rest)"
  obtains r' where "ReadIPv4AddressComponent r lst = Some (b, r')" "wf_Reader r'"
    "\<not> lst \<Longrightarrow> remaining r' = rest"
proof -
  obtain b' r' where *: "ReadIPv4AddressComponent r lst = Some (b', r')" "wf_Reader r'"
    "remaining r = decimal (unat b') @ (if lst then [] else c_dot # remaining r')"
    using ReadIPv4AddressComponent_iff [OF assms(1), of lst] assms(2)
    by (auto split: option.splits)
  have eq: "decimal (unat b') @ (if lst then [] else c_dot # remaining r') =
      decimal (unat b) @ (if lst then [] else c_dot # rest)"
    using *(3) assms(2) by simp
  have "decimal (unat b') = decimal (unat b) \<and> (\<not> lst \<longrightarrow> remaining r' = rest)"
  proof (cases lst)
    case False
    then show ?thesis
      using eq append_sep_inject [OF decimal_no_dot decimal_no_dot] by simp
  qed (use eq in simp)
  moreover have "unat b' \<le> 255" "unat b \<le> 255" using unat_u8_less [of b] unat_u8_less [of b'] by linarith+
  ultimately have "b' = b" "\<not> lst \<longrightarrow> remaining r' = rest"
    using decimal_inject by (auto simp: word_unat_eq_iff)
  with * that show ?thesis by blast
qed

lemma ParseIPv4Address_iff:
  assumes "wf_Input s"
  shows "ParseIPv4Address s = Some a \<longleftrightarrow> length a = 4 \<and> s = ipv4_text a"
proof
  assume A: "ParseIPv4Address s = Some a"
  have wf: "wf_Reader (Reader_of s)" and r: "remaining (Reader_of s) = s" using assms by simp_all
  from A show "length a = 4 \<and> s = ipv4_text a"
    unfolding ParseIPv4Address_def ReadIPv4AddressComponent_then [OF wf]
    using r by (auto simp: ReadIPv4AddressComponent_then ipv4_text_def)
next
  assume A: "length a = 4 \<and> s = ipv4_text a"
  then obtain b0 b1 b2 b3 where a: "a = [b0, b1, b2, b3]"
    by (auto simp: length_Suc_conv numeral_eq_Suc)
  have wf: "wf_Reader (Reader_of s)" and r: "remaining (Reader_of s) = s" using assms by simp_all
  obtain r1 where 1: "ReadIPv4AddressComponent (Reader_of s) False = Some (b0, r1)" "wf_Reader r1"
    "remaining r1 = decimal (unat b1) @ c_dot # decimal (unat b2) @ c_dot # decimal (unat b3)"
    by (rule ReadIPv4AddressComponent_decimal [OF wf, of b0 False
        "decimal (unat b1) @ c_dot # decimal (unat b2) @ c_dot # decimal (unat b3)"])
      (use r A a in \<open>simp_all add: ipv4_text_def\<close>)
  obtain r2 where 2: "ReadIPv4AddressComponent r1 False = Some (b1, r2)" "wf_Reader r2"
    "remaining r2 = decimal (unat b2) @ c_dot # decimal (unat b3)"
    by (rule ReadIPv4AddressComponent_decimal [OF 1(2), of b1 False
        "decimal (unat b2) @ c_dot # decimal (unat b3)"]) (use 1(3) in simp_all)
  obtain r3 where 3: "ReadIPv4AddressComponent r2 False = Some (b2, r3)" "wf_Reader r3"
    "remaining r3 = decimal (unat b3)"
    by (rule ReadIPv4AddressComponent_decimal [OF 2(2), of b2 False "decimal (unat b3)"])
      (use 2(3) in simp_all)
  obtain r4 where 4: "ReadIPv4AddressComponent r3 True = Some (b3, r4)"
    by (rule ReadIPv4AddressComponent_decimal [OF 3(2), of b3 True]) (use 3(3) in simp_all)
  show "ParseIPv4Address s = Some a"
    unfolding ParseIPv4Address_def by (simp add: 1(1) 2(1) 3(1) 4 a)
qed

section \<open>Properties\<close>

text \<open>\<open>ParseIPv4Address\<close> is the inverse of the dotted-decimal notation: it accepts a string
  exactly if it is the text of four bytes - four numbers up to 255 without leading zeros,
  separated by dots, and nothing else - and returns these four bytes. So it has no
  octal, hexadecimal or shortened forms, and every address has one text.\<close>

lemma ParseIPv4Address_roundtrip:
  assumes "wf_Input s"
  shows "ParseIPv4Address s = Some a \<longleftrightarrow> length a = 4 \<and> s = ipv4_text a"
  by (rule ParseIPv4Address_iff [OF assms])

end
