(* ===== verification/PkixDns.thy ===== *)
theory PkixDns
  imports PkixIp
begin

text \<open>
  \<^verbatim>\<open>security/pkix/lib/pkixnames.cpp\<close>: DNS names and mail addresses. The
  syntax of a DNS name in its three roles (\<open>IsValidDNSID\<close>), the comparison of a
  presented name with a reference name or a name constraint, and the same for the
  mail addresses of RFC 822.

  The local variables that the loop of \<open>IsValidDNSID\<close> changes are the record
  \<open>dns_state\<close>, one turn of its \<open>switch\<close> is \<open>IsValidDNSID_switch\<close>.
\<close>

abbreviation (input) c_hyphen :: u8 where "c_hyphen \<equiv> 0x2D"
abbreviation (input) c_star :: u8 where "c_star \<equiv> 0x2A"
abbreviation (input) c_underscore :: u8 where "c_underscore \<equiv> 0x5F"
abbreviation (input) c_at :: u8 where "c_at \<equiv> 0x40"

definition is_digit :: "u8 \<Rightarrow> bool" where
  "is_digit b \<longleftrightarrow> c_zero \<le> b \<and> b \<le> c_nine"

definition is_letter :: "u8 \<Rightarrow> bool" where
  "is_letter b \<longleftrightarrow> c_a \<le> b \<and> b \<le> c_z \<or> c_A \<le> b \<and> b \<le> c_Z"

section \<open>Characters and prefixes\<close>

definition LocaleInsensitveToLower :: "u8 \<Rightarrow> u8" where
  "LocaleInsensitveToLower a = (if a \<ge> c_A \<and> a \<le> c_Z then (a - c_A) + c_a else a)"

definition IDN_ALABEL_PREFIX :: "u8 list" where
  "IDN_ALABEL_PREFIX = [0x78, 0x6E, 0x2D, 0x2D]"

fun StartsWithIDNALabel_loop :: "Reader \<Rightarrow> u8 list \<Rightarrow> bool" where
  "StartsWithIDNALabel_loop input [] = True"
| "StartsWithIDNALabel_loop input (p # ps) =
     (case Read8 input of
        Inl _ \<Rightarrow> False
      | Inr (b, input) \<Rightarrow> if b \<noteq> p then False else StartsWithIDNALabel_loop input ps)"

definition StartsWithIDNALabel :: "Input \<Rightarrow> bool" where
  "StartsWithIDNALabel i = StartsWithIDNALabel_loop (Reader_of i) IDN_ALABEL_PREFIX"

section \<open>Syntax of DNS names\<close>

datatype IDRole = ReferenceID | PresentedID | NameConstraint

datatype AllowWildcards = AllowWildcards_No | AllowWildcards_Yes

datatype AllowDotlessSubdomainMatches = AllowDotless_No | AllowDotless_Yes

record dns_state =
  dotCount :: nat
  labelLength :: nat
  labelIsAllNumeric :: bool
  labelEndsWithHyphen :: bool
  isFirstByte :: bool

definition MAX_LABEL_LENGTH :: nat where
  "MAX_LABEL_LENGTH = 63"

definition count_byte :: "dns_state \<Rightarrow> dns_state option" where
  "count_byte s =
     (let s = s\<lparr>labelLength := labelLength s + 1\<rparr>
      in if labelLength s > MAX_LABEL_LENGTH then None else Some s)"

definition IsValidDNSID_switch :: "IDRole \<Rightarrow> u8 \<Rightarrow> dns_state \<Rightarrow> dns_state option" where
  "IsValidDNSID_switch idRole b s =
     (if b = c_hyphen then
        if labelLength s = 0 then None
        else count_byte (s\<lparr>labelIsAllNumeric := False, labelEndsWithHyphen := True\<rparr>)
      else if is_digit b then
        let s = (if labelLength s = 0 then s\<lparr>labelIsAllNumeric := True\<rparr> else s)
        in count_byte (s\<lparr>labelEndsWithHyphen := False\<rparr>)
      else if is_letter b \<or> b = c_underscore then
        count_byte (s\<lparr>labelIsAllNumeric := False, labelEndsWithHyphen := False\<rparr>)
      else if b = c_dot then
        let s = s\<lparr>dotCount := dotCount s + 1\<rparr> in
        if labelLength s = 0 \<and> (idRole \<noteq> NameConstraint \<or> \<not> isFirstByte s) then None
        else if labelEndsWithHyphen s then None
        else Some (s\<lparr>labelLength := 0\<rparr>)
      else None)"

function IsValidDNSID_loop :: "IDRole \<Rightarrow> Reader \<Rightarrow> dns_state \<Rightarrow> dns_state option" where
  "IsValidDNSID_loop idRole input s =
     (case Read8 input of
        Inl _ \<Rightarrow> None
      | Inr (b, input') \<Rightarrow>
          (case IsValidDNSID_switch idRole b s of
             None \<Rightarrow> None
           | Some s \<Rightarrow>
               let s = s\<lparr>isFirstByte := False\<rparr> in
               if \<not> AtEnd input' then IsValidDNSID_loop idRole input' s else Some s))"
  by pat_completeness auto
termination
  by (relation "measure (\<lambda>(_, r, _). r_end r - r_input r)") (auto dest!: Read8_shrinks)

declare IsValidDNSID_loop.simps [simp del]

text \<open>The wildcard label \<open>*.\<close> at the start: the reader and the number of dots behind it.\<close>

definition SkipWildcard :: "Reader \<Rightarrow> bool \<Rightarrow> (Reader \<times> nat) option" where
  "SkipWildcard input isWildcard =
     (if isWildcard then
        case Skip input 1 of
          Inl _ \<Rightarrow> None
        | Inr input \<Rightarrow>
            (case Read8 input of
               Inl _ \<Rightarrow> None
             | Inr (b, input) \<Rightarrow> if b \<noteq> c_dot then None else Some (input, 1))
      else Some (input, 0))"

definition IsValidDNSID :: "Input \<Rightarrow> IDRole \<Rightarrow> AllowWildcards \<Rightarrow> bool" where
  "IsValidDNSID hostname idRole allowWildcards =
     (if GetLength hostname > 253 then False
      else
        let input = Reader_of hostname in
        if idRole = NameConstraint \<and> AtEnd input then True
        else
          let isWildcard = (allowWildcards = AllowWildcards_Yes \<and> Peek input c_star) in
          case SkipWildcard input isWildcard of
            None \<Rightarrow> False
          | Some (input, dots) \<Rightarrow>
              (case IsValidDNSID_loop idRole input
                      \<lparr>dotCount = dots, labelLength = 0, labelIsAllNumeric = False,
                       labelEndsWithHyphen = False, isFirstByte = \<not> isWildcard\<rparr> of
                 None \<Rightarrow> False
               | Some s \<Rightarrow>
                   if labelLength s = 0 \<and> idRole \<noteq> ReferenceID then False
                   else if labelEndsWithHyphen s then False
                   else if labelIsAllNumeric s then False
                   else if isWildcard then
                     let labelCount = (if labelLength s = 0 then dotCount s else dotCount s + 1) in
                     if labelCount < 3 then False
                     else if StartsWithIDNALabel hostname then False
                     else True
                   else True))"

definition IsValidReferenceDNSID :: "Input \<Rightarrow> bool" where
  "IsValidReferenceDNSID hostname = IsValidDNSID hostname ReferenceID AllowWildcards_No"

definition IsValidPresentedDNSID :: "Input \<Rightarrow> bool" where
  "IsValidPresentedDNSID hostname = IsValidDNSID hostname PresentedID AllowWildcards_Yes"

section \<open>Matching of DNS names\<close>

text \<open>The part of the presented name that a name constraint is compared with. \<open>Decided\<close> is
  a result that is already known, \<open>Continue\<close> the reader to go on with.\<close>

datatype ('a, 'b) decision = Decided 'a | Continue 'b

definition SkipSubdomains ::
  "Input \<Rightarrow> AllowDotlessSubdomainMatches \<Rightarrow> Input \<Rightarrow> Reader \<Rightarrow> Reader \<Rightarrow> (bool, Reader) decision res" where
  "SkipSubdomains presentedDNSID allowDotless referenceDNSID presented reference =
     (if GetLength presentedDNSID > GetLength referenceDNSID then
        if GetLength referenceDNSID = 0 then Inr (Decided True)
        else if Peek reference c_dot then
          case Skip presented (unat (GetLength presentedDNSID - GetLength referenceDNSID)) of
            Inl _ \<Rightarrow> NotReached FATAL_ERROR_LIBRARY_FAILURE
          | Inr presented \<Rightarrow> Inr (Continue presented)
        else if allowDotless = AllowDotless_Yes then
          case Skip presented (unat (GetLength presentedDNSID - GetLength referenceDNSID - 1)) of
            Inl _ \<Rightarrow> NotReached FATAL_ERROR_LIBRARY_FAILURE
          | Inr presented \<Rightarrow>
              (case Read8 presented of
                 Inl _ \<Rightarrow> NotReached FATAL_ERROR_LIBRARY_FAILURE
               | Inr (b, presented) \<Rightarrow>
                   if b \<noteq> c_dot then Inr (Decided False) else Inr (Continue presented))
        else Inr (Continue presented)
      else Inr (Continue presented))"

definition RoleSwitch ::
  "Input \<Rightarrow> AllowDotlessSubdomainMatches \<Rightarrow> IDRole \<Rightarrow> Input \<Rightarrow> Reader \<Rightarrow> Reader \<Rightarrow> (bool, Reader) decision res" where
  "RoleSwitch presentedDNSID allowDotless role referenceDNSID presented reference =
     (case role of
        ReferenceID \<Rightarrow> Inr (Continue presented)
      | NameConstraint \<Rightarrow>
          SkipSubdomains presentedDNSID allowDotless referenceDNSID presented reference
      | PresentedID \<Rightarrow> NotReached FATAL_ERROR_INVALID_ARGS)"

text \<open>The \<open>do\<close> loop that skips one label of the reference name for a wildcard; it ends
  before a dot, or with the result that there is no match at the end of the input.\<close>

function SkipReferenceLabel :: "Reader \<Rightarrow> (bool, Reader) decision res" where
  "SkipReferenceLabel reference =
     (if AtEnd reference then Inr (Decided False)
      else case Read8 reference of
        Inl _ \<Rightarrow> NotReached FATAL_ERROR_INVALID_ARGS
      | Inr (_, reference') \<Rightarrow>
          if \<not> Peek reference' c_dot then SkipReferenceLabel reference' else Inr (Continue reference'))"
  by pat_completeness auto
termination
  by (relation "measure (\<lambda>r. r_end r - r_input r)") (auto dest!: Read8_shrinks)

declare SkipReferenceLabel.simps [simp del]

definition SkipWildcardLabels :: "Reader \<Rightarrow> Reader \<Rightarrow> (bool, Reader \<times> Reader) decision res" where
  "SkipWildcardLabels presented reference =
     (if Peek presented c_star then
        case Skip presented 1 of
          Inl _ \<Rightarrow> NotReached FATAL_ERROR_LIBRARY_FAILURE
        | Inr presented \<Rightarrow>
            (case SkipReferenceLabel reference of
               Inl e \<Rightarrow> Inl e
             | Inr (Decided d) \<Rightarrow> Inr (Decided d)
             | Inr (Continue reference) \<Rightarrow> Inr (Continue (presented, reference)))
      else Inr (Continue (presented, reference)))"

text \<open>The comparison of the bytes goes on to the end of the presented name.\<close>

function MatchBytes :: "Reader \<Rightarrow> Reader \<Rightarrow> (bool, Reader) decision res" where
  "MatchBytes presented reference =
     (case Read8 presented of
        Inl _ \<Rightarrow> Inr (Decided False)
      | Inr (presentedByte, presented') \<Rightarrow>
          (case Read8 reference of
             Inl _ \<Rightarrow> Inr (Decided False)
           | Inr (referenceByte, reference') \<Rightarrow>
               if LocaleInsensitveToLower presentedByte \<noteq> LocaleInsensitveToLower referenceByte
               then Inr (Decided False)
               else if AtEnd presented' then
                 if presentedByte = c_dot then Inl ERROR_BAD_DER else Inr (Continue reference')
               else MatchBytes presented' reference'))"
  by pat_completeness auto
termination
  by (relation "measure (\<lambda>(r, _). r_end r - r_input r)") (auto dest!: Read8_shrinks)

declare MatchBytes.simps [simp del]

definition MatchEnd :: "IDRole \<Rightarrow> Reader \<Rightarrow> bool res" where
  "MatchEnd role reference =
     (if \<not> AtEnd reference then
        if role \<noteq> NameConstraint then
          case Read8 reference of
            Inl _ \<Rightarrow> NotReached FATAL_ERROR_LIBRARY_FAILURE
          | Inr (referenceByte, reference) \<Rightarrow>
              if referenceByte \<noteq> c_dot then Inr False
              else if \<not> AtEnd reference then Inr False else Inr True
        else Inr False
      else Inr True)"

definition MatchPresentedDNSIDWithReferenceDNSID ::
  "Input \<Rightarrow> AllowWildcards \<Rightarrow> AllowDotlessSubdomainMatches \<Rightarrow> IDRole \<Rightarrow> Input \<Rightarrow> bool res" where
  "MatchPresentedDNSIDWithReferenceDNSID presentedDNSID allowWildcards allowDotless
     referenceDNSIDRole referenceDNSID =
     (if \<not> IsValidDNSID presentedDNSID PresentedID allowWildcards then Inl ERROR_BAD_DER
      else if \<not> IsValidDNSID referenceDNSID referenceDNSIDRole AllowWildcards_No then Inl ERROR_BAD_DER
      else
        let presented = Reader_of presentedDNSID;
            reference = Reader_of referenceDNSID
        in case RoleSwitch presentedDNSID allowDotless referenceDNSIDRole referenceDNSID presented reference of
          Inl e \<Rightarrow> Inl e
        | Inr (Decided matches) \<Rightarrow> Inr matches
        | Inr (Continue presented) \<Rightarrow>
            (case SkipWildcardLabels presented reference of
               Inl e \<Rightarrow> Inl e
             | Inr (Decided matches) \<Rightarrow> Inr matches
             | Inr (Continue (presented, reference)) \<Rightarrow>
                 (case MatchBytes presented reference of
                    Inl e \<Rightarrow> Inl e
                  | Inr (Decided matches) \<Rightarrow> Inr matches
                  | Inr (Continue reference) \<Rightarrow> MatchEnd referenceDNSIDRole reference)))"

text \<open>The overload that the unit tests call.\<close>

definition MatchPresentedDNSIDWithReferenceDNSID_default :: "Input \<Rightarrow> Input \<Rightarrow> bool res" where
  "MatchPresentedDNSIDWithReferenceDNSID_default presentedDNSID referenceDNSID =
     MatchPresentedDNSIDWithReferenceDNSID presentedDNSID AllowWildcards_Yes AllowDotless_Yes
       ReferenceID referenceDNSID"

section \<open>Mail addresses\<close>

text \<open>\<open>atext\<close> of RFC 2822: the cases that go on within an atom.\<close>

definition is_atext :: "u8 \<Rightarrow> bool" where
  "is_atext b \<longleftrightarrow> is_letter b \<or> is_digit b \<or>
     b \<in> set [0x21, 0x23, 0x24, 0x25, 0x26, 0x27, 0x2A, 0x2B, 0x2D, 0x2F, 0x3D, 0x3F,
              0x5E, 0x5F, 0x60, 0x7B, 0x7C, 0x7D, 0x7E]"

function IsValidRFC822Name_loop :: "Reader \<Rightarrow> bool \<Rightarrow> bool" where
  "IsValidRFC822Name_loop reader startOfAtom =
     (case Read8 reader of
        Inl _ \<Rightarrow> False
      | Inr (presentedByte, reader') \<Rightarrow>
          if is_atext presentedByte then IsValidRFC822Name_loop reader' False
          else if presentedByte = c_dot then
            if startOfAtom then False else IsValidRFC822Name_loop reader' True
          else if presentedByte = c_at then
            if startOfAtom then False
            else case SkipToEndInput reader' of
              Inl _ \<Rightarrow> False
            | Inr (domain, _) \<Rightarrow> IsValidDNSID domain PresentedID AllowWildcards_No
          else False)"
  by pat_completeness auto
termination
  by (relation "measure (\<lambda>(r, _). r_end r - r_input r)") (auto dest!: Read8_shrinks)

declare IsValidRFC822Name_loop.simps [simp del]

definition IsValidRFC822Name :: "Input \<Rightarrow> bool" where
  "IsValidRFC822Name i = IsValidRFC822Name_loop (Reader_of i) True"

function SkipPastAt :: "Reader \<Rightarrow> Reader res" where
  "SkipPastAt presented =
     (case Read8 presented of
        Inl _ \<Rightarrow> Inl FATAL_ERROR_LIBRARY_FAILURE
      | Inr (presentedByte, presented') \<Rightarrow>
          if presentedByte = c_at then Inr presented' else SkipPastAt presented')"
  by pat_completeness auto
termination
  by (relation "measure (\<lambda>r. r_end r - r_input r)") (auto dest!: Read8_shrinks)

declare SkipPastAt.simps [simp del]

function MatchMailbox :: "Reader \<Rightarrow> Reader \<Rightarrow> bool" where
  "MatchMailbox presented reference =
     (case Read8 presented of
        Inl _ \<Rightarrow> AtEnd reference
      | Inr (presentedByte, presented') \<Rightarrow>
          (case Read8 reference of
             Inl _ \<Rightarrow> False
           | Inr (referenceByte, reference') \<Rightarrow>
               if LocaleInsensitveToLower presentedByte \<noteq> LocaleInsensitveToLower referenceByte
               then False else MatchMailbox presented' reference'))"
  by pat_completeness auto
termination
  by (relation "measure (\<lambda>(r, _). r_end r - r_input r)") (auto dest!: Read8_shrinks)

declare MatchMailbox.simps [simp del]

text \<open>The two branches that end with the comparison of whole mailboxes, and the one in
  which the constraint is a domain.\<close>

definition MatchWholeMailbox :: "Input \<Rightarrow> Input \<Rightarrow> bool res" where
  "MatchWholeMailbox presentedRFC822Name referenceRFC822Name =
     (if \<not> IsValidRFC822Name referenceRFC822Name then Inl ERROR_BAD_DER
      else Inr (MatchMailbox (Reader_of presentedRFC822Name) (Reader_of referenceRFC822Name)))"

definition MatchMailDomain :: "Input \<Rightarrow> Input \<Rightarrow> bool res" where
  "MatchMailDomain presentedRFC822Name referenceRFC822Name =
     (case SkipPastAt (Reader_of presentedRFC822Name) of
        Inl e \<Rightarrow> Inl e
      | Inr presented \<Rightarrow>
          (case SkipToEndInput presented of
             Inl _ \<Rightarrow> Inl FATAL_ERROR_LIBRARY_FAILURE
           | Inr (presentedDNSID, _) \<Rightarrow>
               MatchPresentedDNSIDWithReferenceDNSID presentedDNSID AllowWildcards_No AllowDotless_No
                 NameConstraint referenceRFC822Name))"

definition MatchPresentedRFC822NameWithReferenceRFC822Name ::
  "Input \<Rightarrow> IDRole \<Rightarrow> Input \<Rightarrow> bool res" where
  "MatchPresentedRFC822NameWithReferenceRFC822Name presentedRFC822Name role referenceRFC822Name =
     (if \<not> IsValidRFC822Name presentedRFC822Name then Inl ERROR_BAD_DER
      else case role of
        PresentedID \<Rightarrow> Inl FATAL_ERROR_INVALID_ARGS
      | ReferenceID \<Rightarrow> MatchWholeMailbox presentedRFC822Name referenceRFC822Name
      | NameConstraint \<Rightarrow>
          if InputContains referenceRFC822Name c_at
          then MatchWholeMailbox presentedRFC822Name referenceRFC822Name
          else MatchMailDomain presentedRFC822Name referenceRFC822Name)"

end
