(* ===== verification/PkixNames.thy ===== *)
theory PkixNames
  imports PkixDns
begin

text \<open>
  \<^verbatim>\<open>security/pkix/lib/pkixnames.cpp\<close>: the names of a certificate, searched for a
  reference identifier or checked against the name constraints of an issuer. The two
  uses share one traversal (\<open>SearchNames\<close>); the pseudo name type \<open>GN_nameConstraints\<close>
  stands for the second.

  The in/out parameter \<open>match\<close> is an argument and a component of the result. Where a
  \<open>bool\<close> out-parameter and an error are returned together the model has a \<open>bool res\<close>.
\<close>

section \<open>General names\<close>

datatype GeneralNameType =
    GN_otherName | GN_rfc822Name | GN_dNSName | GN_x400Address | GN_directoryName
  | GN_ediPartyName | GN_uniformResourceIdentifier | GN_iPAddress | GN_registeredID
  | GN_nameConstraints

fun general_name_tag :: "GeneralNameType \<Rightarrow> u8" where
  "general_name_tag GN_otherName = CONTEXT_SPECIFIC OR CONSTRUCTED OR 0"
| "general_name_tag GN_rfc822Name = CONTEXT_SPECIFIC OR 1"
| "general_name_tag GN_dNSName = CONTEXT_SPECIFIC OR 2"
| "general_name_tag GN_x400Address = CONTEXT_SPECIFIC OR CONSTRUCTED OR 3"
| "general_name_tag GN_directoryName = CONTEXT_SPECIFIC OR CONSTRUCTED OR 4"
| "general_name_tag GN_ediPartyName = CONTEXT_SPECIFIC OR CONSTRUCTED OR 5"
| "general_name_tag GN_uniformResourceIdentifier = CONTEXT_SPECIFIC OR 6"
| "general_name_tag GN_iPAddress = CONTEXT_SPECIFIC OR 7"
| "general_name_tag GN_registeredID = CONTEXT_SPECIFIC OR 8"
| "general_name_tag GN_nameConstraints = 0xff"

definition ReadGeneralName :: "Reader \<Rightarrow> ((GeneralNameType \<times> Input) \<times> Reader) res" where
  "ReadGeneralName reader =
     (case ReadTagAndGetValue reader of
        Inl e \<Rightarrow> Inl e
      | Inr (tag, val, reader) \<Rightarrow>
          if tag = general_name_tag GN_otherName then Inr ((GN_otherName, val), reader)
          else if tag = general_name_tag GN_rfc822Name then Inr ((GN_rfc822Name, val), reader)
          else if tag = general_name_tag GN_dNSName then Inr ((GN_dNSName, val), reader)
          else if tag = general_name_tag GN_x400Address then Inr ((GN_x400Address, val), reader)
          else if tag = general_name_tag GN_directoryName then Inr ((GN_directoryName, val), reader)
          else if tag = general_name_tag GN_ediPartyName then Inr ((GN_ediPartyName, val), reader)
          else if tag = general_name_tag GN_uniformResourceIdentifier
            then Inr ((GN_uniformResourceIdentifier, val), reader)
          else if tag = general_name_tag GN_iPAddress then Inr ((GN_iPAddress, val), reader)
          else if tag = general_name_tag GN_registeredID then Inr ((GN_registeredID, val), reader)
          else Inl ERROR_BAD_DER)"

datatype MatchResult = NoNamesOfGivenType | Mismatch | Match

lemma ReadGeneralName_shrinks:
  "ReadGeneralName r = Inr (x, r') \<Longrightarrow> r_end r' - r_input r' < r_end r - r_input r"
  by (auto simp: ReadGeneralName_def split: sum.splits if_splits dest!: ReadTagAndGetValue_shrinks)

lemma ExpectTagAndGetReader_shrinks:
  "ExpectTagAndGetReader r t = Inr (v, r') \<Longrightarrow> r_end r' - r_input r' < r_end r - r_input r"
  by (auto simp: ExpectTagAndGetReader_def ExpectTagAndGetValue_def
      split: sum.splits if_splits dest!: ReadTagAndGetValue_shrinks)

section \<open>Addresses and directory names in constraints\<close>

datatype NameConstraintsSubtrees = permittedSubtrees | excludedSubtrees

fun subtrees_tag :: "NameConstraintsSubtrees \<Rightarrow> u8" where
  "subtrees_tag permittedSubtrees = CONSTRUCTED OR CONTEXT_SPECIFIC OR 0"
| "subtrees_tag excludedSubtrees = CONSTRUCTED OR CONTEXT_SPECIFIC OR 1"

function MatchMaskedBytes :: "Reader \<Rightarrow> Reader \<Rightarrow> Reader \<Rightarrow> bool res" where
  "MatchMaskedBytes presented constraintAddress constraintMask =
     (case Read8 presented of
        Inl e \<Rightarrow> Inl e
      | Inr (presentedByte, presented') \<Rightarrow>
     (case Read8 constraintAddress of
        Inl e \<Rightarrow> Inl e
      | Inr (constraintAddressByte, constraintAddress') \<Rightarrow>
     (case Read8 constraintMask of
        Inl e \<Rightarrow> Inl e
      | Inr (constraintMaskByte, constraintMask') \<Rightarrow>
          let foundMatch = ((presentedByte XOR constraintAddressByte) AND constraintMaskByte = 0) in
          if foundMatch \<and> \<not> AtEnd presented'
          then MatchMaskedBytes presented' constraintAddress' constraintMask'
          else Inr foundMatch)))"
  by pat_completeness auto
termination
  by (relation "measure (\<lambda>(r, _, _). r_end r - r_input r)") (auto dest!: Read8_shrinks)

declare MatchMaskedBytes.simps [simp del]

definition MatchPresentedIPAddressWithConstraint :: "Input \<Rightarrow> Input \<Rightarrow> bool res" where
  "MatchPresentedIPAddressWithConstraint presentedID iPAddressConstraint =
     (if GetLength presentedID \<noteq> 4 \<and> GetLength presentedID \<noteq> 16 then Inl ERROR_BAD_DER
      else if GetLength iPAddressConstraint \<noteq> 8 \<and> GetLength iPAddressConstraint \<noteq> 32 then Inl ERROR_BAD_DER
      else if unat (GetLength presentedID) * 2 \<noteq> unat (GetLength iPAddressConstraint) then Inr False
      else
        bind_res (SkipReader (Reader_of iPAddressConstraint) (unat (GetLength iPAddressConstraint) div 2))
          (\<lambda>(constraintAddress, constraint).
        bind_res (SkipReader constraint (unat (GetLength iPAddressConstraint) div 2))
          (\<lambda>(constraintMask, constraint).
        bind_res (End constraint) (\<lambda>_.
        MatchMaskedBytes (Reader_of presentedID) constraintAddress constraintMask))))"

definition ReadAVA :: "Reader \<Rightarrow> ((Input \<times> u8 \<times> Input) \<times> Reader) res" where
  "ReadAVA rdn =
     Nested rdn SEQUENCE (\<lambda>ava.
       (case ExpectTagAndGetValue ava OIDTag of
          Inl e \<Rightarrow> Inl e
        | Inr (type, ava) \<Rightarrow>
            (case ReadTagAndGetValue ava of
               Inl e \<Rightarrow> Inl e
             | Inr (valueTag, val, ava) \<Rightarrow> Inr ((type, valueTag, val), ava))))"

lemma ReadAVA_shrinks:
  "ReadAVA r = Inr (x, r') \<Longrightarrow> r_end r' - r_input r' < r_end r - r_input r"
  unfolding ReadAVA_def by (rule Nested_shrinks)

definition avasMatch :: "Input \<times> u8 \<times> Input \<Rightarrow> Input \<times> u8 \<times> Input \<Rightarrow> bool" where
  "avasMatch c p =
     (case (c, p) of ((constraintType, constraintValueTag, constraintValue),
                      (presentedType, presentedValueTag, presentedValue)) \<Rightarrow>
        InputsAreEqual constraintType presentedType \<and>
        InputsAreEqual constraintValue presentedValue \<and>
        (constraintValueTag = presentedValueTag \<or>
         constraintValueTag = UTF8String \<and> presentedValueTag = PrintableString \<or>
         constraintValueTag = PrintableString \<and> presentedValueTag = UTF8String))"

function MatchRDN :: "Reader \<Rightarrow> Reader \<Rightarrow> bool res" where
  "MatchRDN constraintRDN presentedRDN =
     (if \<not> AtEnd constraintRDN \<and> \<not> AtEnd presentedRDN then
        case ReadAVA constraintRDN of
          Inl e \<Rightarrow> Inl e
        | Inr (c, constraintRDN') \<Rightarrow>
            (case ReadAVA presentedRDN of
               Inl e \<Rightarrow> Inl e
             | Inr (p, presentedRDN') \<Rightarrow>
                 if \<not> avasMatch c p then Inr False else MatchRDN constraintRDN' presentedRDN')
      else if \<not> AtEnd constraintRDN \<or> \<not> AtEnd presentedRDN then Inr False
      else Inr True)"
  by pat_completeness auto
termination
  by (relation "measure (\<lambda>(r, _). r_end r - r_input r)") (auto dest!: ReadAVA_shrinks)

declare MatchRDN.simps [simp del]

function MatchRDNs :: "Reader \<Rightarrow> Reader \<Rightarrow> bool res" where
  "MatchRDNs constraintRDNs presentedRDNs =
     (if AtEnd constraintRDNs then Inr True
      else if AtEnd presentedRDNs then Inr False
      else case ExpectTagAndGetReader constraintRDNs SET of
        Inl e \<Rightarrow> Inl e
      | Inr (constraintRDN, constraintRDNs') \<Rightarrow>
          (case ExpectTagAndGetReader presentedRDNs SET of
             Inl e \<Rightarrow> Inl e
           | Inr (presentedRDN, presentedRDNs') \<Rightarrow>
               (case MatchRDN constraintRDN presentedRDN of
                  Inl e \<Rightarrow> Inl e
                | Inr matches \<Rightarrow>
                    if \<not> matches then Inr False else MatchRDNs constraintRDNs' presentedRDNs')))"
  by pat_completeness auto
termination
  by (relation "measure (\<lambda>(r, _). r_end r - r_input r)") (auto dest!: ExpectTagAndGetReader_shrinks)

declare MatchRDNs.simps [simp del]

definition MatchPresentedDirectoryNameWithConstraint ::
  "NameConstraintsSubtrees \<Rightarrow> Input \<Rightarrow> Input \<Rightarrow> bool res" where
  "MatchPresentedDirectoryNameWithConstraint subtreesType presentedID directoryNameConstraint =
     (case ExpectTagAndGetValueAtEnd directoryNameConstraint SEQUENCE of
        Inl e \<Rightarrow> Inl e
      | Inr constraintRDNs \<Rightarrow>
          (case ExpectTagAndGetValueAtEnd presentedID SEQUENCE of
             Inl e \<Rightarrow> Inl e
           | Inr presentedRDNs \<Rightarrow>
               (case subtreesType of
                  permittedSubtrees \<Rightarrow> MatchRDNs constraintRDNs presentedRDNs
                | excludedSubtrees \<Rightarrow>
                    if \<not> AtEnd constraintRDNs \<or> \<not> AtEnd presentedRDNs
                    then Inl ERROR_CERT_NOT_IN_NAME_SPACE else Inr True)))"

section \<open>Name constraints\<close>

definition MatchConstraint ::
  "GeneralNameType \<Rightarrow> NameConstraintsSubtrees \<Rightarrow> Input \<Rightarrow> Input \<Rightarrow> bool res" where
  "MatchConstraint presentedIDType subtreesType presentedID base =
     (case presentedIDType of
        GN_dNSName \<Rightarrow>
          MatchPresentedDNSIDWithReferenceDNSID presentedID AllowWildcards_Yes AllowDotless_Yes
            NameConstraint base
      | GN_iPAddress \<Rightarrow> MatchPresentedIPAddressWithConstraint presentedID base
      | GN_directoryName \<Rightarrow> MatchPresentedDirectoryNameWithConstraint subtreesType presentedID base
      | GN_rfc822Name \<Rightarrow>
          MatchPresentedRFC822NameWithReferenceRFC822Name presentedID NameConstraint base
      | GN_otherName \<Rightarrow> Inl ERROR_CERT_NOT_IN_NAME_SPACE
      | GN_x400Address \<Rightarrow> Inl ERROR_CERT_NOT_IN_NAME_SPACE
      | GN_ediPartyName \<Rightarrow> Inl ERROR_CERT_NOT_IN_NAME_SPACE
      | GN_uniformResourceIdentifier \<Rightarrow> Inl ERROR_CERT_NOT_IN_NAME_SPACE
      | GN_registeredID \<Rightarrow> Inl ERROR_CERT_NOT_IN_NAME_SPACE
      | GN_nameConstraints \<Rightarrow> NotReached FATAL_ERROR_LIBRARY_FAILURE)"

text \<open>One turn of the loop over the subtrees, on the flags \<open>hasPermittedSubtreesMatch\<close> and
  \<open>hasPermittedSubtreesMismatch\<close>.\<close>

definition CheckSubtree ::
  "GeneralNameType \<Rightarrow> Input \<Rightarrow> NameConstraintsSubtrees \<Rightarrow> bool \<times> bool \<Rightarrow> GeneralNameType \<Rightarrow> Input \<Rightarrow>
     (bool \<times> bool) res" where
  "CheckSubtree presentedIDType presentedID subtreesType flags nameConstraintType base =
     (if presentedIDType = nameConstraintType then
        case MatchConstraint presentedIDType subtreesType presentedID base of
          Inl e \<Rightarrow> Inl e
        | Inr matches \<Rightarrow>
            (case subtreesType of
               permittedSubtrees \<Rightarrow>
                 Inr (if matches then (True, snd flags) else (fst flags, True))
             | excludedSubtrees \<Rightarrow>
                 if matches then Inl ERROR_CERT_NOT_IN_NAME_SPACE else Inr flags)
      else Inr flags)"

definition ReadSubtree :: "Reader \<Rightarrow> ((GeneralNameType \<times> Input) \<times> Reader) res" where
  "ReadSubtree subtrees =
     (case ExpectTagAndGetReader subtrees SEQUENCE of
        Inl e \<Rightarrow> Inl e
      | Inr (subtree, subtrees) \<Rightarrow>
          (case ReadGeneralName subtree of
             Inl e \<Rightarrow> Inl e
           | Inr (base, subtree) \<Rightarrow>
               (case End subtree of Inl e \<Rightarrow> Inl e | Inr _ \<Rightarrow> Inr (base, subtrees))))"

lemma ReadSubtree_shrinks:
  "ReadSubtree r = Inr (x, r') \<Longrightarrow> r_end r' - r_input r' < r_end r - r_input r"
  by (auto simp: ReadSubtree_def split: sum.splits dest!: ExpectTagAndGetReader_shrinks)

function CheckSubtrees_loop ::
  "GeneralNameType \<Rightarrow> Input \<Rightarrow> NameConstraintsSubtrees \<Rightarrow> Reader \<Rightarrow> bool \<times> bool \<Rightarrow> (bool \<times> bool) res" where
  "CheckSubtrees_loop presentedIDType presentedID subtreesType subtrees flags =
     (case ReadSubtree subtrees of
        Inl e \<Rightarrow> Inl e
      | Inr ((nameConstraintType, base), subtrees') \<Rightarrow>
          (case CheckSubtree presentedIDType presentedID subtreesType flags nameConstraintType base of
             Inl e \<Rightarrow> Inl e
           | Inr flags' \<Rightarrow>
               if \<not> AtEnd subtrees'
               then CheckSubtrees_loop presentedIDType presentedID subtreesType subtrees' flags'
               else Inr flags'))"
  by pat_completeness auto
termination
  by (relation "measure (\<lambda>(_, _, _, r, _). r_end r - r_input r)") (auto dest!: ReadSubtree_shrinks)

declare CheckSubtrees_loop.simps [simp del]

definition CheckPresentedIDConformsToNameConstraintsSubtrees ::
  "GeneralNameType \<Rightarrow> Input \<Rightarrow> Reader \<Rightarrow> NameConstraintsSubtrees \<Rightarrow> Reader res" where
  "CheckPresentedIDConformsToNameConstraintsSubtrees presentedIDType presentedID input
     subtreesType =
     (if \<not> Peek input (subtrees_tag subtreesType) then Inr input
      else case ExpectTagAndGetReader input (subtrees_tag subtreesType) of
        Inl e \<Rightarrow> Inl e
      | Inr (subtrees, input) \<Rightarrow>
          (case CheckSubtrees_loop presentedIDType presentedID subtreesType subtrees (False, False) of
             Inl e \<Rightarrow> Inl e
           | Inr (hasPermittedSubtreesMatch, hasPermittedSubtreesMismatch) \<Rightarrow>
               if hasPermittedSubtreesMismatch \<and> \<not> hasPermittedSubtreesMatch
               then Inl ERROR_CERT_NOT_IN_NAME_SPACE else Inr input))"

definition CheckPresentedIDConformsToConstraints ::
  "GeneralNameType \<Rightarrow> Input \<Rightarrow> Input \<Rightarrow> unit res" where
  "CheckPresentedIDConformsToConstraints presentedIDType presentedID encodedNameConstraints =
     bind_res (ExpectTagAndGetValueAtEnd encodedNameConstraints SEQUENCE) (\<lambda>input.
     bind_res (fail_if (AtEnd input) ERROR_BAD_DER) (\<lambda>_.
     bind_res (CheckPresentedIDConformsToNameConstraintsSubtrees presentedIDType presentedID
                 input permittedSubtrees) (\<lambda>input.
     bind_res (CheckPresentedIDConformsToNameConstraintsSubtrees presentedIDType presentedID
                 input excludedSubtrees) (\<lambda>input.
     End input))))"

section \<open>Matching a presented identifier\<close>

definition MatchPresentedIDWithReferenceID ::
  "GeneralNameType \<Rightarrow> Input \<Rightarrow> GeneralNameType \<Rightarrow> Input \<Rightarrow> MatchResult \<Rightarrow> MatchResult res" where
  "MatchPresentedIDWithReferenceID presentedIDType presentedID referenceIDType referenceID matchResult =
     (if referenceIDType = GN_nameConstraints then
        case CheckPresentedIDConformsToConstraints presentedIDType presentedID referenceID of
          Inl e \<Rightarrow> Inl e
        | Inr _ \<Rightarrow> Inr matchResult
      else if presentedIDType \<noteq> referenceIDType then Inr Mismatch
      else
        let found =
          (case referenceIDType of
             GN_dNSName \<Rightarrow>
               MatchPresentedDNSIDWithReferenceDNSID presentedID AllowWildcards_Yes AllowDotless_Yes
                 ReferenceID referenceID
           | GN_iPAddress \<Rightarrow> Inr (InputsAreEqual presentedID referenceID)
           | GN_rfc822Name \<Rightarrow>
               MatchPresentedRFC822NameWithReferenceRFC822Name presentedID ReferenceID referenceID
           | _ \<Rightarrow> NotReached FATAL_ERROR_INVALID_ARGS)
        in case found of
          Inl e \<Rightarrow> Inl e
        | Inr foundMatch \<Rightarrow> Inr (if foundMatch then Match else Mismatch))"

definition MatchSubjectPresentedIDWithReferenceID ::
  "GeneralNameType \<Rightarrow> Input \<Rightarrow> GeneralNameType \<Rightarrow> Input \<Rightarrow> MatchResult \<Rightarrow> MatchResult" where
  "MatchSubjectPresentedIDWithReferenceID presentedIDType presentedID referenceIDType referenceID m =
     (case MatchPresentedIDWithReferenceID presentedIDType presentedID referenceIDType referenceID m of
        Inl _ \<Rightarrow> Mismatch
      | Inr m \<Rightarrow> m)"

definition id_at_commonName :: "u8 list" where
  "id_at_commonName = [0x55, 0x04, 0x03]"

definition id_emailAddress :: "u8 list" where
  "id_emailAddress = [0x2a, 0x86, 0x48, 0x86, 0xf7, 0x0d, 0x01, 0x09, 0x01]"

text \<open>The common name of a subject, as a DNS name or an IPv4 address.\<close>

definition MatchCommonName ::
  "u8 \<Rightarrow> Input \<Rightarrow> GeneralNameType \<Rightarrow> Input \<Rightarrow> MatchResult" where
  "MatchCommonName valueEncodingTag presentedID referenceIDType referenceID =
     (let m = NoNamesOfGivenType in
      if valueEncodingTag \<noteq> PrintableString \<and> valueEncodingTag \<noteq> UTF8String \<and>
         valueEncodingTag \<noteq> TeletexString then m
      else if IsValidPresentedDNSID presentedID then
        MatchSubjectPresentedIDWithReferenceID GN_dNSName presentedID referenceIDType referenceID m
      else case ParseIPv4Address presentedID of
        Some ipv4 \<Rightarrow>
          MatchSubjectPresentedIDWithReferenceID GN_iPAddress ipv4 referenceIDType referenceID m
      | None \<Rightarrow> m)"

definition MatchAVA ::
  "Input \<Rightarrow> u8 \<Rightarrow> Input \<Rightarrow> GeneralNameType \<Rightarrow> Input \<Rightarrow> FallBackToSearchWithinSubject \<Rightarrow>
     FallBackToSearchWithinSubject \<Rightarrow> MatchResult \<Rightarrow> MatchResult res" where
  "MatchAVA type valueEncodingTag presentedID referenceIDType referenceID fallBackToEmailAddress
     fallBackToCommonName m =
     (if fallBackToCommonName = FallBack_Yes \<and> InputsAreEqual type id_at_commonName then
        Inr (MatchCommonName valueEncodingTag presentedID referenceIDType referenceID)
      else if fallBackToEmailAddress = FallBack_Yes \<and> InputsAreEqual type id_emailAddress then
        if referenceIDType = GN_rfc822Name \<and> m = Match then Inr m
        else if valueEncodingTag \<noteq> IA5String then Inl ERROR_BAD_DER
        else MatchPresentedIDWithReferenceID GN_rfc822Name presentedID referenceIDType referenceID m
      else Inr m)"

function SearchWithinRDN ::
  "GeneralNameType \<Rightarrow> Input \<Rightarrow> FallBackToSearchWithinSubject \<Rightarrow> FallBackToSearchWithinSubject \<Rightarrow>
     MatchResult \<Rightarrow> Reader \<Rightarrow> (MatchResult \<times> Reader) res" where
  "SearchWithinRDN referenceIDType referenceID fallBackToEmailAddress fallBackToCommonName m rdn =
     (case ReadAVA rdn of
        Inl e \<Rightarrow> Inl e
      | Inr ((type, valueTag, val), rdn') \<Rightarrow>
          (case MatchAVA type valueTag val referenceIDType referenceID fallBackToEmailAddress
                  fallBackToCommonName m of
             Inl e \<Rightarrow> Inl e
           | Inr m' \<Rightarrow>
               if \<not> AtEnd rdn'
               then SearchWithinRDN referenceIDType referenceID fallBackToEmailAddress
                      fallBackToCommonName m' rdn'
               else Inr (m', rdn')))"
  by pat_completeness auto
termination
  by (relation "measure (\<lambda>(_, _, _, _, _, r). r_end r - r_input r)") (auto dest!: ReadAVA_shrinks)

declare SearchWithinRDN.simps [simp del]

section \<open>Searching the names of a certificate\<close>

text \<open>The loop over the subject alternative names: \<open>Decided\<close> is the early return with a
  match, otherwise the match result and the fall-back flag go on.\<close>

function SearchAltNames_loop ::
  "GeneralNameType \<Rightarrow> Input \<Rightarrow> Reader \<Rightarrow> MatchResult \<Rightarrow> FallBackToSearchWithinSubject \<Rightarrow>
     (MatchResult, MatchResult \<times> FallBackToSearchWithinSubject) decision res" where
  "SearchAltNames_loop referenceIDType referenceID altNames m fallBackToCommonName =
     (if AtEnd altNames then Inr (Continue (m, fallBackToCommonName))
      else case ReadGeneralName altNames of
        Inl e \<Rightarrow> Inl e
      | Inr ((presentedIDType, presentedID), altNames') \<Rightarrow>
          (case MatchPresentedIDWithReferenceID presentedIDType presentedID referenceIDType referenceID m of
             Inl e \<Rightarrow> Inl e
           | Inr m' \<Rightarrow>
               if referenceIDType \<noteq> GN_nameConstraints \<and> m' = Match then Inr (Decided m')
               else SearchAltNames_loop referenceIDType referenceID altNames' m'
                      (if presentedIDType = GN_dNSName \<or> presentedIDType = GN_iPAddress
                       then FallBack_No else fallBackToCommonName)))"
  by pat_completeness auto
termination
  by (relation "measure (\<lambda>(_, _, r, _, _). r_end r - r_input r)") (auto dest!: ReadGeneralName_shrinks)

declare SearchAltNames_loop.simps [simp del]

definition SearchAltNames ::
  "Input option \<Rightarrow> GeneralNameType \<Rightarrow> Input \<Rightarrow> FallBackToSearchWithinSubject \<Rightarrow>
     (MatchResult, MatchResult \<times> FallBackToSearchWithinSubject) decision res" where
  "SearchAltNames altName referenceIDType referenceID fallBackToCommonName =
     (case altName of
        None \<Rightarrow> Inr (Continue (NoNamesOfGivenType, fallBackToCommonName))
      | Some san \<Rightarrow>
          (case ExpectTagAndGetValueAtEnd san SEQUENCE of
             Inl e \<Rightarrow> Inl e
           | Inr altNames \<Rightarrow>
               SearchAltNames_loop referenceIDType referenceID altNames NoNamesOfGivenType
                 fallBackToCommonName))"

definition SearchSubject ::
  "Input option \<Rightarrow> Input \<Rightarrow> GeneralNameType \<Rightarrow> Input \<Rightarrow> FallBackToSearchWithinSubject \<Rightarrow>
     MatchResult \<Rightarrow> MatchResult res" where
  "SearchSubject altName subj referenceIDType referenceID fallBackToCommonName m =
     (let fallBackToEmailAddress =
            (if altName = None \<and>
                (referenceIDType = GN_rfc822Name \<or> referenceIDType = GN_nameConstraints)
             then FallBack_Yes else FallBack_No)
      in if fallBackToEmailAddress = FallBack_No \<and> fallBackToCommonName = FallBack_No then Inr m
         else case NestedOf (Reader_of subj) SEQUENCE SET EmptyAllowed_Yes
                     (SearchWithinRDN referenceIDType referenceID fallBackToEmailAddress
                        fallBackToCommonName) m of
           Inl e \<Rightarrow> Inl e
         | Inr (m, _) \<Rightarrow> Inr m)"

definition SearchNames ::
  "Input option \<Rightarrow> Input \<Rightarrow> GeneralNameType \<Rightarrow> Input \<Rightarrow> FallBackToSearchWithinSubject \<Rightarrow> MatchResult res" where
  "SearchNames altName subj referenceIDType referenceID fallBackToCommonName =
     (case SearchAltNames altName referenceIDType referenceID fallBackToCommonName of
        Inl e \<Rightarrow> Inl e
      | Inr (Decided m) \<Rightarrow> Inr m
      | Inr (Continue (m, fallBackToCommonName)) \<Rightarrow>
          bind_res (if referenceIDType = GN_nameConstraints
                    then CheckPresentedIDConformsToConstraints GN_directoryName subj referenceID
                    else Inr ()) (\<lambda>_.
          SearchSubject altName subj referenceIDType referenceID fallBackToCommonName m))"

text \<open>\<open>CheckNameConstraints\<close> follows the \<open>childCert\<close> pointers from \<open>firstChild\<close> to the
  end-entity certificate: the chain is the list of these certificates.\<close>

fun CheckNameConstraints :: "Input \<Rightarrow> BackCert list \<Rightarrow> KeyPurposeId \<Rightarrow> unit res" where
  "CheckNameConstraints encodedNameConstraints [] requiredEKUIfPresent = Inr ()"
| "CheckNameConstraints encodedNameConstraints (child # rest) requiredEKUIfPresent =
     (let fallBackToCommonName =
            (if endEntityOrCA child = MustBeEndEntity \<and> requiredEKUIfPresent = id_kp_serverAuth
             then FallBack_Yes else FallBack_No)
      in case SearchNames (GetSubjectAltName child) (subject child) GN_nameConstraints
                encodedNameConstraints fallBackToCommonName of
        Inl e \<Rightarrow> Inl e
      | Inr m \<Rightarrow>
          (case m of
             Mismatch \<Rightarrow> Inl ERROR_CERT_NOT_IN_NAME_SPACE
           | _ \<Rightarrow> CheckNameConstraints encodedNameConstraints rest requiredEKUIfPresent))"

end
