(* ===== verification/PkixDerTime.thy ===== *)
theory PkixDerTime
  imports PkixDer PkixTime
begin

text \<open>
  The two time types of \<^verbatim>\<open>security/pkix/lib/pkixder.cpp\<close> (\<open>ReadDigit\<close>,
  \<open>ReadTwoDigits\<close>, \<open>TimeChoice\<close>) and their wrappers in \<^verbatim>\<open>pkixder.h\<close>. The code
  computes in \<open>unsigned int\<close> and \<open>uint64_t\<close>, so the model computes in 32- and 64-bit
  words. The specification is the Gregorian calendar: \<open>seconds_AD\<close> counts the seconds
  of a date, \<open>time_string\<close> prints it as DER does.
\<close>

section \<open>The decoder\<close>

definition ReadDigit :: "Reader \<Rightarrow> (u32 \<times> Reader) res" where
  "ReadDigit r =
     (case Read8 r of Inl _ \<Rightarrow> Inl ERROR_INVALID_DER_TIME | Inr (b, r) \<Rightarrow>
      if b < 0x30 \<or> b > 0x39 then Inl ERROR_INVALID_DER_TIME
      else Inr (ucast (b - 0x30), r))"

definition ReadTwoDigits :: "Reader \<Rightarrow> u32 \<Rightarrow> u32 \<Rightarrow> (u32 \<times> Reader) res" where
  "ReadTwoDigits r minValue maxValue =
     (case ReadDigit r of Inl e \<Rightarrow> Inl e | Inr (hi, r) \<Rightarrow>
      case ReadDigit r of Inl e \<Rightarrow> Inl e | Inr (lo, r) \<Rightarrow>
      let v = (hi * 10) + lo in
      if v < minValue \<or> v > maxValue then Inl ERROR_INVALID_DER_TIME else Inr (v, r))"

text \<open>The switch over the month: the days of the month and of the months before it.\<close>

definition month_switch :: "u32 \<Rightarrow> u32 \<Rightarrow> (u32 \<times> u32) res" where
  "month_switch feb month =
     (let jan = 31; mar = 31; apr = 30; may = 31; jun = 30; jul = 31; aug = 31; sep = 30;
          oct = 31; nov = 30; dec = 31 in
      if month = 1 then Inr (jan, 0)
      else if month = 2 then Inr (feb, jan)
      else if month = 3 then Inr (mar, jan + feb)
      else if month = 4 then Inr (apr, jan + feb + mar)
      else if month = 5 then Inr (may, jan + feb + mar + apr)
      else if month = 6 then Inr (jun, jan + feb + mar + apr + may)
      else if month = 7 then Inr (jul, jan + feb + mar + apr + may + jun)
      else if month = 8 then Inr (aug, jan + feb + mar + apr + may + jun + jul)
      else if month = 9 then Inr (sep, jan + feb + mar + apr + may + jun + jul + aug)
      else if month = 10 then Inr (oct, jan + feb + mar + apr + may + jun + jul + aug + sep)
      else if month = 11 then Inr (nov, jan + feb + mar + apr + may + jun + jul + aug + sep + oct)
      else if month = 12 then Inr (dec, jan + feb + mar + apr + may + jun + jul + aug + sep + oct + nov)
      else NotReached FATAL_ERROR_INVALID_STATE)"

definition ReadYear :: "Reader \<Rightarrow> u8 \<Rightarrow> ((u32 \<times> u32) \<times> Reader) res" where
  "ReadYear input expectedTag =
     (if expectedTag = GENERALIZED_TIME then
        case ReadTwoDigits input 0 99 of Inl e \<Rightarrow> Inl e | Inr (yearHi, input) \<Rightarrow>
        case ReadTwoDigits input 0 99 of Inl e \<Rightarrow> Inl e | Inr (yearLo, input) \<Rightarrow>
        Inr ((yearHi, yearLo), input)
      else if expectedTag = UTCTime then
        case ReadTwoDigits input 0 99 of Inl e \<Rightarrow> Inl e | Inr (yearLo, input) \<Rightarrow>
        Inr ((if yearLo \<ge> 50 then 19 else 20, yearLo), input)
      else NotReached ERROR_INVALID_DER_TIME)"

text \<open>The month and the day of the month, added to the days before the year; then the
  time of day with its final \<open>Z\<close>, as seconds.\<close>

definition ReadMonthAndDay :: "Reader \<Rightarrow> u32 \<Rightarrow> u32 \<Rightarrow> (u32 \<times> Reader) res" where
  "ReadMonthAndDay input year days =
     (case ReadTwoDigits input 1 12 of Inl e \<Rightarrow> Inl e | Inr (month, input) \<Rightarrow>
      let feb = (if year mod 4 = 0 \<and> (year mod 100 \<noteq> 0 \<or> year mod 400 = 0) then 29 else 28) in
      case month_switch feb month of Inl e \<Rightarrow> Inl e | Inr (daysInMonth, daysBeforeMonth) \<Rightarrow>
      let days = days + daysBeforeMonth in
      case ReadTwoDigits input 1 daysInMonth of Inl e \<Rightarrow> Inl e | Inr (dayOfMonth, input) \<Rightarrow>
      Inr (days + (dayOfMonth - 1), input))"

definition ReadTimeOfDay :: "Reader \<Rightarrow> u32 \<Rightarrow> (u64 \<times> Reader) res" where
  "ReadTimeOfDay input days =
     (case ReadTwoDigits input 0 23 of Inl e \<Rightarrow> Inl e | Inr (hours, input) \<Rightarrow>
      case ReadTwoDigits input 0 59 of Inl e \<Rightarrow> Inl e | Inr (minutes, input) \<Rightarrow>
      case ReadTwoDigits input 0 59 of Inl e \<Rightarrow> Inl e | Inr (seconds, input) \<Rightarrow>
      case Read8 input of Inl _ \<Rightarrow> Inl ERROR_INVALID_DER_TIME | Inr (b, input) \<Rightarrow>
      if b \<noteq> 0x5A then Inl ERROR_INVALID_DER_TIME else
      case End input of Inl _ \<Rightarrow> Inl ERROR_INVALID_DER_TIME | Inr _ \<Rightarrow>
      Inr ((ucast days * 24 * 60 * 60) + (ucast hours * 60 * 60) + (ucast minutes * 60)
           + ucast seconds, input))"

definition TimeChoice_internal :: "Reader \<Rightarrow> u8 \<Rightarrow> (Time \<times> Reader) res" where
  "TimeChoice_internal tagged expectedTag =
     (case ExpectTagAndGetReader tagged expectedTag of Inl e \<Rightarrow> Inl e | Inr (input, tagged) \<Rightarrow>
      case ReadYear input expectedTag of Inl e \<Rightarrow> Inl e | Inr ((yearHi, yearLo), input) \<Rightarrow>
      let year = (yearHi * 100) + yearLo in
      if year < 1970 then Inl ERROR_INVALID_DER_TIME else
      case ReadMonthAndDay input year (DaysBeforeYear year) of Inl e \<Rightarrow> Inl e | Inr (days, input) \<Rightarrow>
      case ReadTimeOfDay input days of Inl e \<Rightarrow> Inl e | Inr (totalSeconds, input) \<Rightarrow>
      Inr (TimeFromElapsedSecondsAD totalSeconds, tagged))"

definition GeneralizedTime :: "Reader \<Rightarrow> (Time \<times> Reader) res" where
  "GeneralizedTime r = TimeChoice_internal r GENERALIZED_TIME"

definition TimeChoice :: "Reader \<Rightarrow> (Time \<times> Reader) res" where
  "TimeChoice r =
     (let expectedTag = (if Peek r UTCTime then UTCTime else GENERALIZED_TIME)
      in TimeChoice_internal r expectedTag)"

section \<open>Dates\<close>

record date =
  yy :: nat
  mo :: nat
  dd :: nat
  hh :: nat
  mi :: nat
  ss :: nat

definition days_in_month :: "nat \<Rightarrow> nat \<Rightarrow> nat" where
  "days_in_month y m =
     (if m = 2 then (if leap y then 29 else 28)
      else if m = 4 \<or> m = 6 \<or> m = 9 \<or> m = 11 then 30 else 31)"

definition days_before_month :: "nat \<Rightarrow> nat \<Rightarrow> nat" where
  "days_before_month y m = (\<Sum>k = 1..<m. days_in_month y k)"

definition valid_date :: "date \<Rightarrow> bool" where
  "valid_date d \<longleftrightarrow>
     1 \<le> yy d \<and> yy d \<le> 9999 \<and> 1 \<le> mo d \<and> mo d \<le> 12 \<and>
     1 \<le> dd d \<and> dd d \<le> days_in_month (yy d) (mo d) \<and> hh d < 24 \<and> mi d < 60 \<and> ss d < 60"

definition day_number :: "date \<Rightarrow> nat" where
  "day_number d = days_before (yy d) + days_before_month (yy d) (mo d) + (dd d - 1)"

definition seconds_AD :: "date \<Rightarrow> nat" where
  "seconds_AD d = day_number d * 86400 + hh d * 3600 + mi d * 60 + ss d"

definition two_digits :: "nat \<Rightarrow> u8 list" where
  "two_digits n = [of_nat (48 + n div 10), of_nat (48 + n mod 10)]"

definition time_string :: "u8 \<Rightarrow> date \<Rightarrow> u8 list" where
  "time_string tag d =
     (if tag = GENERALIZED_TIME then two_digits (yy d div 100) else []) @
     two_digits (yy d mod 100) @ two_digits (mo d) @ two_digits (dd d) @
     two_digits (hh d) @ two_digits (mi d) @ two_digits (ss d) @ [0x5A]"

text \<open>The years that each type can name.\<close>

definition year_ok :: "u8 \<Rightarrow> nat \<Rightarrow> bool" where
  "year_ok tag y \<longleftrightarrow>
     1970 \<le> y \<and> (if tag = GENERALIZED_TIME then y \<le> 9999 else tag = UTCTime \<and> y \<le> 2049)"

section \<open>Digits\<close>

text \<open>\<open>eats r bs r'\<close>: \<open>r'\<close> is \<open>r\<close> behind the bytes \<open>bs\<close>, which \<open>r\<close> starts with.\<close>

definition eats :: "Reader \<Rightarrow> u8 list \<Rightarrow> Reader \<Rightarrow> bool" where
  "eats r bs r' \<longleftrightarrow> (\<exists>rest. remaining r = bs @ rest) \<and> r' = advance (length bs) r"

lemma eats_reads: "eats r bs r' \<Longrightarrow> reads r r'"
  by (auto simp: eats_def)

lemma eats_wf: "eats r bs r' \<Longrightarrow> wf_Reader r \<Longrightarrow> wf_Reader r'"
  using eats_reads reads_wf by blast

lemma eats_append: "eats r (as @ bs) t \<longleftrightarrow> (\<exists>s. eats r as s \<and> eats s bs t)"
  by (auto simp: eats_def)

lemma eats_unique:
  assumes "eats r as s" "eats r bs t" "length as = length bs"
  shows "as = bs \<and> s = t"
proof -
  obtain x y where "remaining r = as @ x" "remaining r = bs @ y"
    using assms(1,2) unfolding eats_def by blast
  then have "as = bs" using assms(3) by simp
  then show ?thesis using assms(1,2) by (simp add: eats_def)
qed

lemma Read8_iff: "wf_Reader r \<Longrightarrow> Read8 r = Inr (b, r') \<longleftrightarrow> eats r [b] r'"
  by (auto simp: Read8_spec eats_def split: list.splits)

lemma ReadDigit_iff:
  assumes wf: "wf_Reader r"
  shows "ReadDigit r = Inr (v, r') \<longleftrightarrow> unat v < 10 \<and> eats r [of_nat (48 + unat v)] r'"
proof -
  have dig: "unat (ucast (b - 0x30) :: u32) = unat b - 48"
    "of_nat (48 + unat (ucast (b - 0x30) :: u32)) = b" if "\<not> (b < 0x30 \<or> b > 0x39)" for b :: u8
  proof -
    have b: "48 \<le> unat b" "unat b \<le> 57" using that by (auto simp: word_less_nat_alt not_less)
    have "unat (b - 0x30) = unat b - unat (0x30 :: u8)"
      by (rule unat_sub) (use b in \<open>simp add: word_le_nat_alt\<close>)
    then show u: "unat (ucast (b - 0x30) :: u32) = unat b - 48"
      using b by (simp add: unsigned_ucast_eq take_bit_eq_mod)
    show "of_nat (48 + unat (ucast (b - 0x30) :: u32)) = b"
      unfolding u using b by simp
  qed
  have val: "b = of_nat (48 + unat v) \<Longrightarrow> unat v < 10 \<Longrightarrow>
      \<not> (b < 0x30 \<or> b > 0x39) \<and> ucast (b - 0x30) = v" for b :: u8 and v :: u32
  proof -
    assume b: "b = of_nat (48 + unat v)" and v: "unat v < 10"
    have u: "unat b = 48 + unat v" unfolding b using v by (subst unat_of_nat_u8) auto
    have ok: "\<not> (b < 0x30 \<or> b > 0x39)" using u v by (simp add: word_less_nat_alt)
    have "unat (ucast (b - 0x30) :: u32) = unat v" using dig(1) [OF ok] u by simp
    then have "ucast (b - 0x30) = v" by (simp only: word_unat_eq_iff)
    with ok show ?thesis by blast
  qed
  have "ReadDigit r = Inr (v, r') \<longleftrightarrow>
      (\<exists>b. Read8 r = Inr (b, r') \<and> \<not> (b < 0x30 \<or> b > 0x39) \<and> v = ucast (b - 0x30))"
    by (auto simp: ReadDigit_def split: sum.splits if_splits)
  also have "\<dots> \<longleftrightarrow> (\<exists>b. eats r [b] r' \<and> unat v < 10 \<and> b = of_nat (48 + unat v))"
  proof (intro iff_exI)
    fix b
    show "(Read8 r = Inr (b, r') \<and> \<not> (b < 0x30 \<or> b > 0x39) \<and> v = ucast (b - 0x30)) \<longleftrightarrow>
        (eats r [b] r' \<and> unat v < 10 \<and> b = of_nat (48 + unat v))"
      unfolding Read8_iff [OF wf]
    proof
      assume A: "eats r [b] r' \<and> \<not> (b < 0x30 \<or> b > 0x39) \<and> v = ucast (b - 0x30)"
      then have "unat b \<le> 57" by (auto simp: word_less_nat_alt not_less)
      with A dig [of b] show "eats r [b] r' \<and> unat v < 10 \<and> b = of_nat (48 + unat v)" by auto
    next
      assume "eats r [b] r' \<and> unat v < 10 \<and> b = of_nat (48 + unat v)"
      with val [of b v] show "eats r [b] r' \<and> \<not> (b < 0x30 \<or> b > 0x39) \<and> v = ucast (b - 0x30)"
        by blast
    qed
  qed
  finally show ?thesis by blast
qed

lemma ReadDigit_error: "ReadDigit r = Inl e \<Longrightarrow> e = ERROR_INVALID_DER_TIME"
  by (auto simp: ReadDigit_def split: sum.splits if_splits)

lemma ReadTwoDigits_error: "ReadTwoDigits r lo hi = Inl e \<Longrightarrow> e = ERROR_INVALID_DER_TIME"
  by (auto simp: ReadTwoDigits_def Let_def dest: ReadDigit_error split: sum.splits if_splits)

lemma ReadTwoDigits_iff:
  assumes wf: "wf_Reader r"
  shows "ReadTwoDigits r lo hi = Inr (v, r') \<longleftrightarrow>
    lo \<le> v \<and> v \<le> hi \<and> unat v < 100 \<and> eats r (two_digits (unat v)) r'"
proof -
  have sum: "unat (h * 10 + l) = unat h * 10 + unat l" if "unat h < 10" "unat l < 10" for h l :: u32
    using that by (simp add: unat_word_ariths)
  have "ReadTwoDigits r lo hi = Inr (v, r') \<longleftrightarrow>
      (\<exists>h l s. ReadDigit r = Inr (h, s) \<and> ReadDigit s = Inr (l, r') \<and> v = h * 10 + l \<and> lo \<le> v \<and> v \<le> hi)"
    by (auto simp: ReadTwoDigits_def Let_def not_less split: sum.splits if_splits)
  also have "\<dots> \<longleftrightarrow> (\<exists>h l s. (unat h < 10 \<and> eats r [of_nat (48 + unat h)] s) \<and>
      (unat l < 10 \<and> eats s [of_nat (48 + unat l)] r') \<and> v = h * 10 + l \<and> lo \<le> v \<and> v \<le> hi)"
    unfolding ReadDigit_iff [OF wf]
    by (intro iff_exI) (use ReadDigit_iff eats_wf [OF _ wf] in blast)
  also have "\<dots> \<longleftrightarrow> lo \<le> v \<and> v \<le> hi \<and> unat v < 100 \<and> eats r (two_digits (unat v)) r'"
  proof
    assume "\<exists>h l s. (unat h < 10 \<and> eats r [of_nat (48 + unat h)] s) \<and>
      (unat l < 10 \<and> eats s [of_nat (48 + unat l)] r') \<and> v = h * 10 + l \<and> lo \<le> v \<and> v \<le> hi"
    then obtain h l s where A: "unat h < 10" "eats r [of_nat (48 + unat h)] s"
      "unat l < 10" "eats s [of_nat (48 + unat l)] r'" "v = h * 10 + l" "lo \<le> v" "v \<le> hi" by blast
    have v: "unat v = unat h * 10 + unat l" using A sum by simp
    have "unat v div 10 = unat h" "unat v mod 10 = unat l" unfolding v using A by auto
    then have "two_digits (unat v) = [of_nat (48 + unat h)] @ [of_nat (48 + unat l)]"
      by (simp add: two_digits_def)
    then have "eats r (two_digits (unat v)) r'" using A by (simp only: eats_append) blast
    then show "lo \<le> v \<and> v \<le> hi \<and> unat v < 100 \<and> eats r (two_digits (unat v)) r'"
      using A v by linarith
  next
    assume A: "lo \<le> v \<and> v \<le> hi \<and> unat v < 100 \<and> eats r (two_digits (unat v)) r'"
    define h l where "h = (of_nat (unat v div 10) :: u32)" and "l = (of_nat (unat v mod 10) :: u32)"
    have hl: "unat h = unat v div 10" "unat l = unat v mod 10"
      unfolding h_def l_def using A by (auto intro!: unat_of_nat_u32)
    have "unat h < 10" "unat l < 10" unfolding hl using A by linarith+
    moreover from this have "v = h * 10 + l"
      using sum [of h l] hl by (simp add: word_unat_eq_iff)
    moreover have "two_digits (unat v) = [of_nat (48 + unat h)] @ [of_nat (48 + unat l)]"
      by (simp add: two_digits_def hl)
    then have "eats r ([of_nat (48 + unat h)] @ [of_nat (48 + unat l)]) r'" using A by simp
    then obtain s where "eats r [of_nat (48 + unat h)] s" "eats s [of_nat (48 + unat l)] r'"
      unfolding eats_append by blast
    ultimately show "\<exists>h l s. (unat h < 10 \<and> eats r [of_nat (48 + unat h)] s) \<and>
      (unat l < 10 \<and> eats s [of_nat (48 + unat l)] r') \<and> v = h * 10 + l \<and> lo \<le> v \<and> v \<le> hi"
      using A by blast
  qed
  finally show ?thesis .
qed

section \<open>The parts of a date\<close>

lemma days_before_month_simps:
  "days_before_month y (Suc 0) = 0"
  "1 \<le> m \<Longrightarrow> days_before_month y (Suc m) = days_before_month y m + days_in_month y m"
  by (simp_all add: days_before_month_def)

lemma month_cases:
  assumes "1 \<le> m" "m \<le> (12 :: nat)"
  shows "m = 1 \<or> m = 2 \<or> m = 3 \<or> m = 4 \<or> m = 5 \<or> m = 6 \<or> m = 7 \<or> m = 8 \<or> m = 9 \<or>
    m = 10 \<or> m = 11 \<or> m = 12"
  using assms by presburger

lemma days_before_month_values:
  "days_before_month y 1 = 0" "days_before_month y 2 = 31"
  "days_before_month y 3 = (if leap y then 60 else 59)"
  "days_before_month y 4 = (if leap y then 91 else 90)"
  "days_before_month y 5 = (if leap y then 121 else 120)"
  "days_before_month y 6 = (if leap y then 152 else 151)"
  "days_before_month y 7 = (if leap y then 182 else 181)"
  "days_before_month y 8 = (if leap y then 213 else 212)"
  "days_before_month y 9 = (if leap y then 244 else 243)"
  "days_before_month y 10 = (if leap y then 274 else 273)"
  "days_before_month y 11 = (if leap y then 305 else 304)"
  "days_before_month y 12 = (if leap y then 335 else 334)"
  by (simp_all add: numeral_eq_Suc days_before_month_simps days_in_month_def)

lemma month_switch_eq:
  assumes "1 \<le> m" "m \<le> 12"
  shows "month_switch (if leap y then 29 else 28) (of_nat m) =
    Inr (of_nat (days_in_month y m), of_nat (days_before_month y m))"
  using month_cases [OF assms]
  by (elim disjE; simp only: days_before_month_values)
    (simp_all add: month_switch_def days_in_month_def)

lemma leap_word_iff:
  fixes year :: u32
  shows "(year mod 4 = 0 \<and> (year mod 100 \<noteq> 0 \<or> year mod 400 = 0)) \<longleftrightarrow> leap (unat year)"
  by (simp add: leap_def word_unat_eq_iff unat_mod)

lemma ReadTwoDigits_nat_iff:
  assumes wf: "wf_Reader r" and lim: "lo \<le> 99" "hi \<le> 99"
  shows "ReadTwoDigits r (of_nat lo) (of_nat hi) = Inr (v, r') \<longleftrightarrow>
    (\<exists>n. v = of_nat n \<and> lo \<le> n \<and> n \<le> hi \<and> eats r (two_digits n) r')"
proof -
  have u: "unat (of_nat n :: u32) = n" if "n \<le> 99" for n
    using that by (intro unat_of_nat_u32) simp
  have "of_nat lo \<le> v \<and> v \<le> of_nat hi \<and> unat v < 100 \<longleftrightarrow> lo \<le> unat v \<and> unat v \<le> hi"
    using lim by (auto simp: word_le_nat_alt u)
  then have "ReadTwoDigits r (of_nat lo) (of_nat hi) = Inr (v, r') \<longleftrightarrow>
      lo \<le> unat v \<and> unat v \<le> hi \<and> eats r (two_digits (unat v)) r'"
    unfolding ReadTwoDigits_iff [OF wf] by blast
  also have "\<dots> \<longleftrightarrow> (\<exists>n. v = of_nat n \<and> lo \<le> n \<and> n \<le> hi \<and> eats r (two_digits n) r')"
  proof
    assume "lo \<le> unat v \<and> unat v \<le> hi \<and> eats r (two_digits (unat v)) r'"
    then show "\<exists>n. v = of_nat n \<and> lo \<le> n \<and> n \<le> hi \<and> eats r (two_digits n) r'"
      by (intro exI [of _ "unat v"]) simp
  next
    assume "\<exists>n. v = of_nat n \<and> lo \<le> n \<and> n \<le> hi \<and> eats r (two_digits n) r'"
    then show "lo \<le> unat v \<and> unat v \<le> hi \<and> eats r (two_digits (unat v)) r'"
      using u lim by auto
  qed
  finally show ?thesis .
qed

lemma ReadTwoDigits_then:
  assumes wf: "wf_Reader r" and lim: "lo \<le> 99" "hi \<le> 99"
    and f: "\<And>n s. lo \<le> n \<Longrightarrow> n \<le> hi \<Longrightarrow> wf_Reader s \<Longrightarrow> f (of_nat n) s = Inr y \<longleftrightarrow> P n s"
  shows "(case ReadTwoDigits r (of_nat lo) (of_nat hi) of Inl e \<Rightarrow> Inl e | Inr (v, s) \<Rightarrow> f v s) = Inr y \<longleftrightarrow>
    (\<exists>n s. lo \<le> n \<and> n \<le> hi \<and> eats r (two_digits n) s \<and> P n s)"
  unfolding case_sum_prod_Inr_iff ReadTwoDigits_nat_iff [OF wf lim]
  using f eats_wf [OF _ wf] by blast

lemmas ReadTwoDigits_then_12 = ReadTwoDigits_then [where lo = 1 and hi = 12, unfolded of_nat_numeral semiring_1_class.of_nat_1]
  and ReadTwoDigits_then_23 = ReadTwoDigits_then [where lo = 0 and hi = 23, unfolded of_nat_numeral semiring_1_class.of_nat_0]
  and ReadTwoDigits_then_59 = ReadTwoDigits_then [where lo = 0 and hi = 59, unfolded of_nat_numeral semiring_1_class.of_nat_0]
  and ReadTwoDigits_then_99 = ReadTwoDigits_then [where lo = 0 and hi = 99, unfolded of_nat_numeral semiring_1_class.of_nat_0]

lemma days_in_month_le: "days_in_month y m \<le> 31"
  by (simp add: days_in_month_def)

lemma ReadMonthAndDay_iff:
  assumes wf: "wf_Reader r" and y: "unat year = y"
  shows "ReadMonthAndDay r year days = Inr (n, r') \<longleftrightarrow>
    (\<exists>m d. 1 \<le> m \<and> m \<le> 12 \<and> 1 \<le> d \<and> d \<le> days_in_month y m \<and>
       eats r (two_digits m @ two_digits d) r' \<and>
       n = days + of_nat (days_before_month y m + (d - 1)))"
proof -
  let ?g = "\<lambda>month s. case month_switch (if leap y then 29 else 28) month of Inl e \<Rightarrow> Inl e
      | Inr (daysInMonth, daysBeforeMonth) \<Rightarrow>
      case ReadTwoDigits s 1 daysInMonth of Inl e \<Rightarrow> Inl e | Inr (dayOfMonth, t) \<Rightarrow>
      Inr (days + daysBeforeMonth + (dayOfMonth - 1), t)"
  have g: "?g (of_nat m) s = Inr (n, r') \<longleftrightarrow>
      (\<exists>d. 1 \<le> d \<and> d \<le> days_in_month y m \<and> eats s (two_digits d) r' \<and>
        n = days + of_nat (days_before_month y m + (d - 1)))"
    if "1 \<le> m" "m \<le> 12" "wf_Reader s" for m s
  proof -
    have "ReadTwoDigits s 1 (of_nat (days_in_month y m)) = Inr (v, r') \<longleftrightarrow>
       (\<exists>d. v = of_nat d \<and> 1 \<le> d \<and> d \<le> days_in_month y m \<and> eats s (two_digits d) r')" for v
      using ReadTwoDigits_nat_iff [OF that(3), of 1 "days_in_month y m"] days_in_month_le [of y m]
      by simp
    then have "?g (of_nat m) s = Inr (n, r') \<longleftrightarrow>
       (\<exists>d. 1 \<le> d \<and> d \<le> days_in_month y m \<and> eats s (two_digits d) r' \<and>
         n = days + of_nat (days_before_month y m) + (of_nat d - 1))"
      unfolding month_switch_eq [OF that(1,2)] by (auto simp: case_sum_prod_Inr_iff)
    moreover have "1 \<le> d \<Longrightarrow> (of_nat d - 1 :: u32) = of_nat (d - 1)" for d
      by (simp add: of_nat_diff)
    ultimately show ?thesis by (auto simp: add.assoc)
  qed
  have "ReadMonthAndDay r year days =
      (case ReadTwoDigits r 1 12 of Inl e \<Rightarrow> Inl e | Inr (month, s) \<Rightarrow> ?g month s)"
    unfolding ReadMonthAndDay_def leap_word_iff Let_def y ..
  also have "\<dots> = Inr (n, r') \<longleftrightarrow> (\<exists>m s. 1 \<le> m \<and> m \<le> 12 \<and> eats r (two_digits m) s \<and>
      (\<exists>d. 1 \<le> d \<and> d \<le> days_in_month y m \<and> eats s (two_digits d) r' \<and>
        n = days + of_nat (days_before_month y m + (d - 1))))"
    by (rule ReadTwoDigits_then_12 [OF wf]) (simp, simp, rule g)
  finally show ?thesis unfolding eats_append by blast
qed

lemma ReadTimeOfDay_iff:
  assumes wf: "wf_Reader r"
  shows "ReadTimeOfDay r days = Inr (t, r') \<longleftrightarrow>
    (\<exists>h m s. h < 24 \<and> m < 60 \<and> s < 60 \<and> AtEnd r' \<and>
       eats r (two_digits h @ two_digits m @ two_digits s @ [0x5A]) r' \<and>
       t = ucast days * 86400 + of_nat (h * 3600 + m * 60 + s))"
proof -
  have u: "n \<le> 59 \<Longrightarrow> (ucast (of_nat n :: u32) :: u64) = of_nat n" for n
    by (simp add: word_unat_eq_iff unsigned_ucast_eq unat_of_nat_u32 unat_of_nat_u64 take_bit_eq_mod)
  have t: "(ucast days * 24 * 60 * 60) + (ucast (of_nat h :: u32) * 60 * 60) +
      (ucast (of_nat m :: u32) * 60) + ucast (of_nat s :: u32) =
      ucast days * 86400 + (of_nat (h * 3600 + m * 60 + s) :: u64)"
    if "h \<le> 23" "m \<le> 59" "s \<le> 59" for h m s
    using that by (simp add: u)
  have z: "(case Read8 q of Inl _ \<Rightarrow> Inl ERROR_INVALID_DER_TIME | Inr (b, q) \<Rightarrow>
      if b \<noteq> 0x5A then Inl ERROR_INVALID_DER_TIME else
      case End q of Inl _ \<Rightarrow> Inl ERROR_INVALID_DER_TIME | Inr _ \<Rightarrow> Inr (x, q)) = Inr (t, r') \<longleftrightarrow>
      x = t \<and> AtEnd r' \<and> eats q [0x5A] r'" if "wf_Reader q" for q and x :: u64
    unfolding Read8_iff [OF that, symmetric] by (auto simp: End_def split: sum.splits if_splits)
  have "ReadTimeOfDay r days = Inr (t, r') \<longleftrightarrow>
     (\<exists>h q. 0 \<le> h \<and> h \<le> 23 \<and> eats r (two_digits h) q \<and> (\<exists>m q'. 0 \<le> m \<and> m \<le> 59 \<and> eats q (two_digits m) q' \<and>
       (\<exists>s q''. 0 \<le> s \<and> s \<le> 59 \<and> eats q' (two_digits s) q'' \<and>
         (ucast days * 86400 + of_nat (h * 3600 + m * 60 + s) = t \<and> AtEnd r' \<and> eats q'' [0x5A] r'))))"
    unfolding ReadTimeOfDay_def
    by (rule ReadTwoDigits_then_23 [OF wf], simp, simp, rule ReadTwoDigits_then_59, assumption, simp,
        simp, rule ReadTwoDigits_then_59, assumption, simp, simp, simp only: z t)
  also have "\<dots> \<longleftrightarrow> (\<exists>h m s. h \<le> 23 \<and> m \<le> 59 \<and> s \<le> 59 \<and> AtEnd r' \<and>
       eats r (two_digits h @ two_digits m @ two_digits s @ [0x5A]) r' \<and>
       t = ucast days * 86400 + of_nat (h * 3600 + m * 60 + s))"
    unfolding eats_append by simp blast
  also have "\<dots> \<longleftrightarrow> (\<exists>h m s. h < 24 \<and> m < 60 \<and> s < 60 \<and> AtEnd r' \<and>
       eats r (two_digits h @ two_digits m @ two_digits s @ [0x5A]) r' \<and>
       t = ucast days * 86400 + of_nat (h * 3600 + m * 60 + s))"
  proof -
    have lt: "h \<le> 23 \<longleftrightarrow> h < 24" "h \<le> 59 \<longleftrightarrow> h < 60" for h :: nat by auto
    show ?thesis unfolding lt ..
  qed
  finally show ?thesis .
qed

definition year_string :: "u8 \<Rightarrow> nat \<Rightarrow> u8 list" where
  "year_string tag y =
     (if tag = GENERALIZED_TIME then two_digits (y div 100) else []) @ two_digits (y mod 100)"

lemma year_less_iff: "(year :: u32) < 1970 \<longleftrightarrow> unat year < 1970"
  by (simp add: word_less_nat_alt)

lemma unat_year: "n \<le> 99 \<Longrightarrow> m \<le> 99 \<Longrightarrow> unat (of_nat n * 100 + of_nat m :: u32) = 100 * n + m"
proof -
  assume "n \<le> 99" "m \<le> 99"
  then have "unat (of_nat (100 * n + m) :: u32) = 100 * n + m" by (intro unat_of_nat_u32) simp
  then show ?thesis by (simp add: mult.commute)
qed

lemma ReadYear_GeneralizedTime_iff:
  assumes wf: "wf_Reader r"
  shows "(\<exists>h l. ReadYear r GENERALIZED_TIME = Inr ((h, l), r') \<and> year = h * 100 + l) \<longleftrightarrow>
    unat year \<le> 9999 \<and> eats r (two_digits (unat year div 100) @ two_digits (unat year mod 100)) r'"
    (is "?L \<longleftrightarrow> ?R")
proof -
  have "ReadYear r GENERALIZED_TIME = Inr ((h, l), r') \<longleftrightarrow>
      (\<exists>n q. 0 \<le> n \<and> n \<le> 99 \<and> eats r (two_digits n) q \<and> (\<exists>m q'. 0 \<le> m \<and> m \<le> 99 \<and>
        eats q (two_digits m) q' \<and> (h = of_nat n \<and> l = of_nat m \<and> q' = r')))" for h l
    unfolding ReadYear_def if_P [OF refl]
    by (rule ReadTwoDigits_then_99 [OF wf], simp, simp, rule ReadTwoDigits_then_99, assumption, simp,
        simp) auto
  then have "?L \<longleftrightarrow> (\<exists>n m. n \<le> 99 \<and> m \<le> 99 \<and> eats r (two_digits n @ two_digits m) r' \<and>
      year = of_nat n * 100 + of_nat m)"
    unfolding eats_append by simp blast
  also have "\<dots> \<longleftrightarrow> ?R"
  proof
    assume "\<exists>n m. n \<le> 99 \<and> m \<le> 99 \<and> eats r (two_digits n @ two_digits m) r' \<and>
      year = of_nat n * 100 + of_nat m"
    then show ?R using unat_year by auto
  next
    assume R: ?R
    define n m where "n = unat year div 100" and "m = unat year mod 100"
    have nm: "n \<le> 99" "m \<le> 99" unfolding n_def m_def using R by auto
    moreover have "year = of_nat n * 100 + of_nat m"
      using unat_year [OF nm] by (simp add: word_unat_eq_iff n_def m_def)
    ultimately show "\<exists>n m. n \<le> 99 \<and> m \<le> 99 \<and> eats r (two_digits n @ two_digits m) r' \<and>
      year = of_nat n * 100 + of_nat m"
      using R unfolding n_def m_def by blast
  qed
  finally show ?thesis .
qed

lemma ReadYear_UTCTime_iff:
  assumes wf: "wf_Reader r"
  shows "(\<exists>h l. ReadYear r UTCTime = Inr ((h, l), r') \<and> year = h * 100 + l) \<longleftrightarrow>
    1950 \<le> unat year \<and> unat year \<le> 2049 \<and> eats r (two_digits (unat year mod 100)) r'"
    (is "?L \<longleftrightarrow> ?R")
proof -
  let ?c = "\<lambda>n :: nat. if 50 \<le> n then 19 else 20 :: nat"
  have "ReadYear r UTCTime = Inr ((h, l), r') \<longleftrightarrow>
      (\<exists>n q. 0 \<le> n \<and> n \<le> 99 \<and> eats r (two_digits n) q \<and>
        (h = of_nat (?c n) \<and> l = of_nat n \<and> q = r'))" for h l
  proof -
    have ge: "(50 :: u32) \<le> of_nat n \<longleftrightarrow> 50 \<le> n" if "n \<le> 99" for n
      using that by (simp add: word_le_nat_alt unat_of_nat_u32)
    have ne: "UTCTime \<noteq> GENERALIZED_TIME" by simp
    show ?thesis
      unfolding ReadYear_def if_not_P [OF ne] if_P [OF refl]
    proof (rule ReadTwoDigits_then_99 [OF wf])
      fix n s assume "n \<le> (99 :: nat)"
      from ge [OF this]
      show "Inr ((if (50 :: u32) \<le> of_nat n then 19 else 20, of_nat n), s) = Inr ((h, l), r') \<longleftrightarrow>
          h = of_nat (?c n) \<and> l = of_nat n \<and> s = r'"
        by (cases "50 \<le> n") auto
    qed simp_all
  qed
  note Y = this
  have "?L \<longleftrightarrow> (\<exists>n. 0 \<le> n \<and> n \<le> 99 \<and> eats r (two_digits n) r' \<and> year = of_nat (?c n) * 100 + of_nat n)"
    unfolding Y
  proof
    assume "\<exists>n. 0 \<le> n \<and> n \<le> 99 \<and> eats r (two_digits n) r' \<and> year = of_nat (?c n) * 100 + of_nat n"
    then show "\<exists>h l. (\<exists>n q. 0 \<le> n \<and> n \<le> 99 \<and> eats r (two_digits n) q \<and>
        (h = of_nat (?c n) \<and> l = of_nat n \<and> q = r')) \<and> year = h * 100 + l" by blast
  qed blast
  also have "\<dots> \<longleftrightarrow> (\<exists>n. n \<le> 99 \<and> eats r (two_digits n) r' \<and> year = of_nat (?c n) * 100 + of_nat n)"
    by simp
  also have "\<dots> \<longleftrightarrow> ?R"
  proof
    assume "\<exists>n. n \<le> 99 \<and> eats r (two_digits n) r' \<and> year = of_nat (?c n) * 100 + of_nat n"
    then obtain n where n: "n \<le> 99" "eats r (two_digits n) r'" and y: "year = of_nat (?c n) * 100 + of_nat n"
      by blast
    have "?c n \<le> 99" by simp
    then have "unat year = 100 * ?c n + n" unfolding y using n(1) by (rule unat_year)
    then show ?R using n by auto
  next
    assume R: ?R
    define n where "n = unat year mod 100"
    have n: "n \<le> 99" unfolding n_def by simp
    have lim: "1950 \<le> unat year" "unat year \<le> 2049" using R by auto
    have y: "unat year = 100 * ?c n + n"
    proof (cases "unat year < 2000")
      case True
      then have "n = unat year - 1900"
        using lim mod_window [of 100 19 "unat year"] unfolding n_def by simp
      then show ?thesis using True lim by simp
    next
      case False
      then have "n = unat year - 2000"
        using lim mod_window [of 100 20 "unat year"] unfolding n_def by simp
      then show ?thesis using False lim by simp
    qed
    have "unat (of_nat (?c n) * 100 + of_nat n :: u32) = 100 * ?c n + n"
      by (rule unat_year [OF _ n]) simp
    then have "year = of_nat (?c n) * 100 + of_nat n" using y by (simp only: word_unat_eq_iff)
    then show "\<exists>n. n \<le> 99 \<and> eats r (two_digits n) r' \<and> year = of_nat (?c n) * 100 + of_nat n"
      using R n unfolding n_def by blast
  qed
  finally show ?thesis .
qed

lemma ReadYear_iff:
  assumes wf: "wf_Reader r"
  shows "(\<exists>h l. ReadYear r tag = Inr ((h, l), r') \<and> year = h * 100 + l) \<and> \<not> year < 1970 \<longleftrightarrow>
    year_ok tag (unat year) \<and> eats r (year_string tag (unat year)) r'"
proof -
  consider "tag = GENERALIZED_TIME" | "tag = UTCTime" | "tag \<noteq> GENERALIZED_TIME" "tag \<noteq> UTCTime"
    by blast
  then show ?thesis
  proof cases
    case 1
    show ?thesis
      unfolding 1 ReadYear_GeneralizedTime_iff [OF wf] year_less_iff year_ok_def year_string_def
        if_P [OF refl] by auto
  next
    case 2
    have ne: "UTCTime \<noteq> GENERALIZED_TIME" by simp
    show ?thesis
      unfolding 2 ReadYear_UTCTime_iff [OF wf] year_less_iff year_ok_def year_string_def
        if_not_P [OF ne] append_Nil by auto
  next
    case 3
    then show ?thesis by (simp add: ReadYear_def year_ok_def NotReached_def)
  qed
qed

section \<open>The whole time\<close>

lemma eats_whole:
  "wf_Input v \<Longrightarrow> eats (Reader_of v) bs s \<and> AtEnd s \<longleftrightarrow> v = bs \<and> s = advance (length v) (Reader_of v)"
  by (auto simp: eats_def AtEnd_iff)

lemma days_before_le: "y \<le> 10000 \<Longrightarrow> days_before y \<le> 3660000"
proof (cases y)
  case (Suc n)
  assume "y \<le> 10000"
  then show ?thesis using days_before_closed [of n] unfolding Suc by linarith
qed (simp add: days_before_def)

lemma days_before_month_le: "1 \<le> m \<Longrightarrow> m \<le> 12 \<Longrightarrow> days_before_month y m \<le> 335"
  by (drule (1) month_cases) (elim disjE; simp only: days_before_month_values; simp)

lemma day_number_le: "valid_date d \<Longrightarrow> day_number d \<le> 3660366"
  using days_before_le [of "yy d"] days_before_month_le [of "mo d" "yy d"]
    days_in_month_le [of "yy d" "mo d"]
  by (auto simp: valid_date_def day_number_def)

lemma seconds_word_eq:
  assumes d: "valid_date d" and y: "unat year = yy d"
  shows "ucast (DaysBeforeYear year + of_nat (days_before_month (yy d) (mo d) + (dd d - 1))) * 86400 +
      of_nat (hh d * 3600 + mi d * 60 + ss d) = (of_nat (seconds_AD d) :: u64)"
proof -
  have "unat (DaysBeforeYear year) = days_before (yy d)"
    using unat_DaysBeforeYear [of "yy d"] d by (simp add: valid_date_def y [symmetric])
  then have "DaysBeforeYear year = of_nat (days_before (yy d))" by (metis of_nat_unat ucast_id)
  then have "DaysBeforeYear year + of_nat (days_before_month (yy d) (mo d) + (dd d - 1)) =
      of_nat (day_number d)"
    by (simp add: day_number_def)
  moreover have "(ucast (of_nat (day_number d) :: u32) :: u64) = of_nat (day_number d)"
  proof -
    have "day_number d < 4294967296" using day_number_le [OF d] by simp
    then have "unat (of_nat (day_number d) :: u32) = day_number d" by (rule unat_of_nat_u32)
    then show ?thesis by (metis of_nat_unat)
  qed
  ultimately show ?thesis
    by (simp only: seconds_AD_def of_nat_add of_nat_mult of_nat_numeral add.assoc)
qed

lemma time_string_split:
  "time_string tag d = year_string tag (yy d) @ (two_digits (mo d) @ two_digits (dd d)) @
     (two_digits (hh d) @ two_digits (mi d) @ two_digits (ss d) @ [0x5A])"
  by (simp add: time_string_def year_string_def)

lemma TimeChoice_internal_iff:
  assumes wf: "wf_Reader r"
  shows "TimeChoice_internal r tag = Inr (t, r') \<longleftrightarrow>
    (\<exists>d. valid_date d \<and> year_ok tag (yy d) \<and> tlv_at r tag (time_string tag d) r' \<and>
       t = Time (of_nat (seconds_AD d)))"
proof -
  have "TimeChoice_internal r tag = Inr (t, r') \<longleftrightarrow>
    (\<exists>v q. tlv_at r tag v q \<and> (q = r' \<and> (\<exists>d. valid_date d \<and> year_ok tag (yy d) \<and>
       v = time_string tag d \<and> t = Time (of_nat (seconds_AD d)))))"
    unfolding TimeChoice_internal_def
  proof (rule ExpectTagAndGetReader_then [OF wf], goal_cases)
    case (1 v q)
    then have wfv: "wf_Reader (Reader_of v)" by simp
    let ?step = "\<lambda>year days s s2 x s3. ((\<exists>h l. ReadYear (Reader_of v) tag = Inr ((h, l), s) \<and>
          year = h * 100 + l) \<and> \<not> year < 1970) \<and>
        ReadMonthAndDay s year (DaysBeforeYear year) = Inr (days, s2) \<and>
        ReadTimeOfDay s2 days = Inr (x, s3) \<and> t = Time x \<and> q = r'"
    have "(case ReadYear (Reader_of v) tag of Inl e \<Rightarrow> Inl e | Inr ((yearHi, yearLo), input) \<Rightarrow>
      let year = (yearHi * 100) + yearLo in
      if year < 1970 then Inl ERROR_INVALID_DER_TIME else
      case ReadMonthAndDay input year (DaysBeforeYear year) of Inl e \<Rightarrow> Inl e | Inr (days, input) \<Rightarrow>
      case ReadTimeOfDay input days of Inl e \<Rightarrow> Inl e | Inr (totalSeconds, input) \<Rightarrow>
      Inr (TimeFromElapsedSecondsAD totalSeconds, q)) = Inr (t, r') \<longleftrightarrow>
      (\<exists>year days s s2 x s3. ?step year days s s2 x s3)"
      unfolding case_sum_prod_Inr_iff Let_def TimeFromElapsedSecondsAD_def split_paired_Ex prod.case
        if_Inl_Inr_iff sum.inject prod.inject by blast
    also have "\<dots> \<longleftrightarrow> q = r' \<and> (\<exists>d. valid_date d \<and> year_ok tag (yy d) \<and>
       v = time_string tag d \<and> t = Time (of_nat (seconds_AD d)))"
    proof
      assume "\<exists>year days s s2 x s3. ?step year days s s2 x s3"
      then obtain year days s s2 x s3 where step: "?step year days s s2 x s3" by blast
      then have y: "year_ok tag (unat year)" "eats (Reader_of v) (year_string tag (unat year)) s"
        using ReadYear_iff [OF wfv] by blast+
      have wf1: "wf_Reader s" using eats_wf [OF y(2) wfv] .
      obtain m d where md: "1 \<le> m" "m \<le> 12" "1 \<le> d" "d \<le> days_in_month (unat year) m"
        "eats s (two_digits m @ two_digits d) s2"
        "days = DaysBeforeYear year + of_nat (days_before_month (unat year) m + (d - 1))"
        using step ReadMonthAndDay_iff [OF wf1 refl] by blast
      have wf2: "wf_Reader s2" using eats_wf [OF md(5) wf1] .
      obtain h i z where tod: "h < 24" "i < 60" "z < 60" "AtEnd s3"
        "eats s2 (two_digits h @ two_digits i @ two_digits z @ [0x5A]) s3"
        "x = ucast days * 86400 + of_nat (h * 3600 + i * 60 + z)"
        using step ReadTimeOfDay_iff [OF wf2] by blast
      let ?d = "\<lparr>yy = unat year, mo = m, dd = d, hh = h, mi = i, ss = z\<rparr>"
      have ok: "valid_date ?d"
        using y(1) md tod by (auto simp: valid_date_def year_ok_def split: if_splits)
      have "eats (Reader_of v) (time_string tag ?d) s3"
        unfolding time_string_split date.simps eats_append [of _ "year_string tag (unat year)"]
          eats_append [of _ "two_digits m @ two_digits d"]
        using y(2) md(5) tod(5) by blast
      then have "v = time_string tag ?d" using eats_whole [OF \<open>wf_Input v\<close>] tod(4) by blast
      moreover have "x = of_nat (seconds_AD ?d)"
        using seconds_word_eq [OF ok, of year] md(6) tod(6) by simp
      ultimately show "q = r' \<and> (\<exists>d. valid_date d \<and> year_ok tag (yy d) \<and>
         v = time_string tag d \<and> t = Time (of_nat (seconds_AD d)))"
        using ok y(1) step by (intro conjI exI [of _ ?d]) simp_all
    next
      assume "q = r' \<and> (\<exists>d. valid_date d \<and> year_ok tag (yy d) \<and>
         v = time_string tag d \<and> t = Time (of_nat (seconds_AD d)))"
      then obtain d where q: "q = r'" and d: "valid_date d" "year_ok tag (yy d)"
        "v = time_string tag d" "t = Time (of_nat (seconds_AD d))" by blast
      define year :: u32 where "year = of_nat (yy d)"
      have y: "unat year = yy d"
        using d(1) unfolding year_def by (intro unat_of_nat_u32) (simp add: valid_date_def)
      obtain s s2 s3 where s: "eats (Reader_of v) (year_string tag (yy d)) s"
        "eats s (two_digits (mo d) @ two_digits (dd d)) s2"
        "eats s2 (two_digits (hh d) @ two_digits (mi d) @ two_digits (ss d) @ [0x5A]) s3"
        and e: "AtEnd s3"
        using eats_whole [OF \<open>wf_Input v\<close>, of "time_string tag d"] d(3)
        unfolding time_string_split eats_append [of _ "year_string tag (yy d)"]
          eats_append [of _ "two_digits (mo d) @ two_digits (dd d)"] by blast
      have wf1: "wf_Reader s" using eats_wf [OF s(1) wfv] .
      have wf2: "wf_Reader s2" using eats_wf [OF s(2) wf1] .
      let ?days = "DaysBeforeYear year + of_nat (days_before_month (yy d) (mo d) + (dd d - 1))"
      have "(\<exists>h l. ReadYear (Reader_of v) tag = Inr ((h, l), s) \<and> year = h * 100 + l) \<and> \<not> year < 1970"
        unfolding ReadYear_iff [OF wfv] y using d(2) s(1) by blast
      moreover have "ReadMonthAndDay s year (DaysBeforeYear year) = Inr (?days, s2)"
        unfolding ReadMonthAndDay_iff [OF wf1 y] using d(1) s(2) unfolding valid_date_def by blast
      moreover have "ReadTimeOfDay s2 ?days = Inr (of_nat (seconds_AD d), s3)"
        unfolding ReadTimeOfDay_iff [OF wf2] seconds_word_eq [OF d(1) y, symmetric]
        using d(1) s(3) e unfolding valid_date_def by blast
      ultimately show "\<exists>year days s s2 x s3. ?step year days s s2 x s3" using d(4) q by blast
    qed
    finally show ?case .
  qed
  then show ?thesis by blast
qed

section \<open>The order of dates\<close>

definition date_less :: "date \<Rightarrow> date \<Rightarrow> bool" where
  "date_less a b \<longleftrightarrow>
     yy a < yy b \<or> yy a = yy b \<and>
    (mo a < mo b \<or> mo a = mo b \<and>
    (dd a < dd b \<or> dd a = dd b \<and>
    (hh a < hh b \<or> hh a = hh b \<and>
    (mi a < mi b \<or> mi a = mi b \<and> ss a < ss b))))"

text \<open>A number in a mixed radix: \<open>f i\<close> is what the digit \<open>i\<close> contributes, \<open>w i\<close> the room
  below it.\<close>

lemma radix_less:
  fixes f w :: "nat \<Rightarrow> nat"
  assumes step: "\<And>i. l \<le> i \<Longrightarrow> f i + w i \<le> f (Suc i)"
    and "l \<le> i" "l \<le> j" "r < w i" "s < w j"
  shows "f i + r < f j + s \<longleftrightarrow> i < j \<or> i = j \<and> r < s"
proof -
  have mono: "l \<le> i \<Longrightarrow> i \<le> j \<Longrightarrow> f i \<le> f j" for i j
  proof (induction j)
    case (Suc j)
    then show ?case using step [of j] by (cases "i = Suc j") auto
  qed simp
  have gap: "l \<le> i \<Longrightarrow> i < j \<Longrightarrow> r < w i \<Longrightarrow> f i + r < f j" for i j r
    using step [of i] mono [of "Suc i" j] by simp
  show ?thesis
    using gap [of i j r] gap [of j i s] assms by (cases i j rule: linorder_cases) auto
qed

lemma month_room: "1 \<le> m \<Longrightarrow> days_before_month y m + days_in_month y m \<le> days_before_month y (Suc m)"
  by (simp add: days_before_month_simps)

lemma days_before_month_12: "days_before_month y 12 + days_in_month y 12 = days_in_year y"
  by (simp only: days_before_month_values) (simp add: days_in_month_def days_in_year_def)

lemma day_of_year_less:
  assumes "valid_date d"
  shows "days_before_month (yy d) (mo d) + (dd d - 1) < days_in_year (yy d)"
proof -
  let ?f = "days_before_month (yy d)" and ?w = "days_in_month (yy d)"
  have v: "1 \<le> mo d" "mo d \<le> 12" "1 \<le> dd d" "dd d \<le> ?w (mo d)"
    using assms by (auto simp: valid_date_def)
  have "?f (mo d) + (dd d - 1) < ?f 12 + ?w 12"
  proof (cases "mo d = 12")
    case True
    then show ?thesis using v by simp
  next
    case False
    have "?f (mo d) + (dd d - 1) < ?f 12 + 0"
      using radix_less [of 1 ?f ?w "mo d" 12 "dd d - 1" 0] month_room v False
      by (auto simp: days_in_month_def)
    then show ?thesis by simp
  qed
  then show ?thesis by (simp only: days_before_month_12)
qed

lemma day_number_less_iff:
  assumes a: "valid_date a" and b: "valid_date b"
  shows "day_number a < day_number b \<longleftrightarrow>
    yy a < yy b \<or> yy a = yy b \<and> (mo a < mo b \<or> mo a = mo b \<and> dd a < dd b)"
proof -
  have va: "1 \<le> yy a" "1 \<le> mo a" "1 \<le> dd a" "dd a - 1 < days_in_month (yy a) (mo a)"
    and vb: "1 \<le> yy b" "1 \<le> mo b" "1 \<le> dd b" "dd b - 1 < days_in_month (yy b) (mo b)"
    using a b by (auto simp: valid_date_def)
  have year: "days_before y + days_in_year y \<le> days_before (Suc y)" if "1 \<le> y" for y
    using that by (simp add: days_before_def)
  have "day_number a < day_number b \<longleftrightarrow> yy a < yy b \<or> yy a = yy b \<and>
      days_before_month (yy a) (mo a) + (dd a - 1) < days_before_month (yy b) (mo b) + (dd b - 1)"
    unfolding day_number_def add.assoc
    by (rule radix_less [OF year va(1) vb(1) day_of_year_less [OF a] day_of_year_less [OF b]])
  moreover have "days_before_month (yy a) (mo a) + (dd a - 1) < days_before_month (yy b) (mo b) + (dd b - 1) \<longleftrightarrow>
      mo a < mo b \<or> mo a = mo b \<and> dd a - 1 < dd b - 1" if e: "yy a = yy b"
    unfolding e by (rule radix_less [OF month_room va(2) vb(2) va(4) [unfolded e] vb(4)])
  moreover have "dd a - 1 < dd b - 1 \<longleftrightarrow> dd a < dd b" using va(3) vb(3) by linarith
  ultimately show ?thesis by blast
qed

lemma lex_antisym:
  fixes a b c d e f :: nat
  shows "a = b \<and> c = d \<and> e = f \<longleftrightarrow>
    \<not> (a < b \<or> a = b \<and> (c < d \<or> c = d \<and> e < f)) \<and>
    \<not> (b < a \<or> b = a \<and> (d < c \<or> d = c \<and> f < e))"
  by auto

lemma seconds_AD_less_iff:
  assumes a: "valid_date a" and b: "valid_date b"
  shows "seconds_AD a < seconds_AD b \<longleftrightarrow> date_less a b"
proof -
  have t: "hh a < 24" "mi a < 60" "ss a < 60" "hh b < 24" "mi b < 60" "ss b < 60"
    using a b by (auto simp: valid_date_def)
  have day_eq: "day_number a = day_number b \<longleftrightarrow> yy a = yy b \<and> mo a = mo b \<and> dd a = dd b"
    unfolding lex_antisym day_number_less_iff [OF a b, symmetric] day_number_less_iff [OF b a, symmetric]
    by linarith
  have "seconds_AD a < seconds_AD b \<longleftrightarrow> day_number a < day_number b \<or> day_number a = day_number b \<and>
      hh a * 3600 + mi a * 60 + ss a < hh b * 3600 + mi b * 60 + ss b"
    unfolding seconds_AD_def add.assoc
    by (rule radix_less [where l = 0 and f = "\<lambda>n. n * 86400" and w = "\<lambda>_. 86400"]) (use t in auto)
  also have "hh a * 3600 + mi a * 60 + ss a < hh b * 3600 + mi b * 60 + ss b \<longleftrightarrow>
      hh a < hh b \<or> hh a = hh b \<and> mi a * 60 + ss a < mi b * 60 + ss b"
    unfolding add.assoc
    by (rule radix_less [where l = 0 and f = "\<lambda>n. n * 3600" and w = "\<lambda>_. 3600"]) (use t in auto)
  also have "mi a * 60 + ss a < mi b * 60 + ss b \<longleftrightarrow> mi a < mi b \<or> mi a = mi b \<and> ss a < ss b"
    by (rule radix_less [where l = 0 and f = "\<lambda>n. n * 60" and w = "\<lambda>_. 60"]) (use t in auto)
  finally show ?thesis
    unfolding day_number_less_iff [OF a b] day_eq date_less_def by blast
qed

lemma seconds_AD_bound: "valid_date d \<Longrightarrow> seconds_AD d < 2 ^ 64"
proof -
  assume d: "valid_date d"
  then have "day_number d * 86400 \<le> 3660366 * 86400" using day_number_le by (intro mult_right_mono) auto
  then show ?thesis using d by (simp add: seconds_AD_def valid_date_def)
qed

lemma unat_seconds_AD: "valid_date d \<Longrightarrow> unat (of_nat (seconds_AD d) :: u64) = seconds_AD d"
  using seconds_AD_bound by (intro unat_of_nat_u64) simp

section \<open>Errors\<close>

lemma ReadTwoDigits_range: "ReadTwoDigits r lo hi = Inr (v, r') \<Longrightarrow> lo \<le> v \<and> v \<le> hi"
  by (auto simp: ReadTwoDigits_def Let_def not_less split: sum.splits if_splits)

lemma month_switch_ok:
  assumes "1 \<le> v" "v \<le> 12"
  shows "month_switch feb v \<noteq> Inl e"
proof -
  have "1 \<le> unat v" "unat v \<le> 12" using assms by (simp_all add: word_le_nat_alt)
  from month_cases [OF this] have "v \<in> {1, 2, 3, 4, 5, 6, 7, 8, 9, 10, 11, 12}"
    by (simp add: word_unat_eq_iff)
  then show ?thesis by (auto simp: month_switch_def Let_def)
qed

lemma TimeChoice_internal_error:
  assumes "TimeChoice_internal r tag = Inl e" and "ExpectTagAndGetReader r tag = Inr p"
  shows "e = ERROR_INVALID_DER_TIME"
proof -
  have y: "ReadYear s tag = Inl x \<Longrightarrow> x = ERROR_INVALID_DER_TIME" for s x
    by (auto simp: ReadYear_def NotReached_def dest: ReadTwoDigits_error split: sum.splits if_splits)
  have c: "ReadTimeOfDay s n = Inl x \<Longrightarrow> x = ERROR_INVALID_DER_TIME" for s n x
    by (auto simp: ReadTimeOfDay_def dest!: ReadTwoDigits_error split: sum.splits if_splits)
  have m: "ReadMonthAndDay s year days = Inl x \<Longrightarrow> x = ERROR_INVALID_DER_TIME" for s year days x
    using month_switch_ok
    by (fastforce simp: ReadMonthAndDay_def Let_def dest!: ReadTwoDigits_error dest: ReadTwoDigits_range
        split: sum.splits)
  show ?thesis
    using assms
    by (cases p) (auto simp: TimeChoice_internal_def Let_def dest!: y c m split: sum.splits if_splits)
qed

interpretation time_choice: decoder "\<lambda>r. TimeChoice_internal r tag"
  by unfold_locales (auto simp: TimeChoice_internal_iff intro: tlv_at_reads)

interpretation time_choice': decoder TimeChoice
  by unfold_locales (simp add: TimeChoice_def time_choice.reads_ok Let_def)

interpretation generalized_time: decoder GeneralizedTime
  by unfold_locales (simp add: GeneralizedTime_def time_choice.reads_ok)

lemmas [consumes] = time_choice'.reads_ok generalized_time.reads_ok

section \<open>Properties\<close>

text \<open>C22: \<open>TimeChoice\<close> accepts a TLV if and only if its value spells, in the fixed format
  of its tag and with the final \<open>Z\<close>, a date that exists in the Gregorian calendar and
  lies in 1970 to 2049 (\<open>UTCTime\<close>) or 1970 to 9999 (\<open>GeneralizedTime\<close>), and returns the
  number of seconds from the start of year 1 to it. None of the 32- and 64-bit
  computations wraps.\<close>

theorem TimeChoice_calendar:
  assumes "wf_Reader r"
  shows "TimeChoice_internal r tag = Inr (t, r') \<longleftrightarrow>
    (\<exists>d. valid_date d \<and> year_ok tag (yy d) \<and>
       ExpectTagAndGetValue r tag = Inr (time_string tag d, r') \<and>
       unat (elapsedSecondsAD t) = seconds_AD d)"
proof -
  have "t = Time (of_nat (seconds_AD d)) \<longleftrightarrow> unat (elapsedSecondsAD t) = seconds_AD d"
    if "valid_date d" for d
    using unat_seconds_AD [OF that] by (cases t) (simp add: word_unat_eq_iff)
  then show ?thesis
    unfolding TimeChoice_internal_iff [OF assms] ExpectTagAndGetValue_iff [OF assms] by blast
qed

theorem TimeChoice_calendar_witness:
  "\<exists>t r'. TimeChoice_internal
     (Reader_of [0x17, 0x0D, 0x37, 0x30, 0x30, 0x31, 0x30, 0x32, 0x30, 0x30, 0x30, 0x30, 0x30, 0x31, 0x5A])
     UTCTime = Inr (t, r') \<and> unat (elapsedSecondsAD t) = days_before 1970 * 86400 + 86401"
proof -
  let ?i = "[0x17, 0x0D, 0x37, 0x30, 0x30, 0x31, 0x30, 0x32, 0x30, 0x30, 0x30, 0x30, 0x30, 0x31, 0x5A] :: Input"
  let ?d = "\<lparr>yy = 1970, mo = 1, dd = 2, hh = 0, mi = 0, ss = 1\<rparr>"
  have wf: "wf_Reader (Reader_of ?i)" by (simp add: wf_Input_def MAX_INPUT_def)
  have v: "valid_date ?d" by (simp add: valid_date_def days_in_month_def)
  have "ExpectTagAndGetValue (Reader_of ?i) UTCTime = Inr (time_string UTCTime ?d, advance 15 (Reader_of ?i))"
    unfolding ExpectTagAndGetValue_spec [OF wf]
    by (simp add: wf_Input_def MAX_INPUT_def time_string_def two_digits_def)
  moreover have "seconds_AD ?d = days_before 1970 * 86400 + 86401"
    by (simp add: seconds_AD_def day_number_def days_before_month_values(1) [simplified])
  moreover have "unat (elapsedSecondsAD (Time (of_nat (seconds_AD ?d)))) = seconds_AD ?d"
    using unat_seconds_AD [OF v] by simp
  ultimately have "TimeChoice_internal (Reader_of ?i) UTCTime =
      Inr (Time (of_nat (seconds_AD ?d)), advance 15 (Reader_of ?i))"
    unfolding TimeChoice_calendar [OF wf] using v by (intro exI [of _ ?d]) (simp add: year_ok_def)
  then show ?thesis
    using unat_seconds_AD [OF v] \<open>seconds_AD ?d = _\<close> by auto
qed

text \<open>Two times that \<open>TimeChoice\<close> has read compare as their dates do, field by field:
  the seconds count is strictly monotone in year, month, day, hour, minute and second.
  So the comparisons \<open>time < notBefore\<close> and \<open>time > notAfter\<close> of the callers compare
  calendar dates, also across the two formats.\<close>

lemma TimeChoice_order:
  assumes "wf_Reader r" "wf_Reader s"
    and "ExpectTagAndGetValue r tag = Inr (time_string tag d, r')" "valid_date d" "year_ok tag (yy d)"
    and "ExpectTagAndGetValue s tag' = Inr (time_string tag' e, s')" "valid_date e" "year_ok tag' (yy e)"
  shows "\<exists>t u. TimeChoice_internal r tag = Inr (t, r') \<and> TimeChoice_internal s tag' = Inr (u, s') \<and>
    (t < u \<longleftrightarrow> date_less d e)"
proof (intro exI conjI)
  show "TimeChoice_internal r tag = Inr (Time (of_nat (seconds_AD d)), r')"
    and "TimeChoice_internal s tag' = Inr (Time (of_nat (seconds_AD e)), s')"
    using assms unfolding TimeChoice_internal_iff [OF assms(1)] TimeChoice_internal_iff [OF assms(2)]
      ExpectTagAndGetValue_iff [OF assms(1)] ExpectTagAndGetValue_iff [OF assms(2)] by blast+
  show "Time (of_nat (seconds_AD d)) < Time (of_nat (seconds_AD e)) \<longleftrightarrow> date_less d e"
    using assms by (simp add: less_Time_def word_less_nat_alt unat_seconds_AD seconds_AD_less_iff)
qed

end
