(* ===== verification/PkixCheck.thy ===== *)
theory PkixCheck
  imports PkixNames PkixDerTime PkixTypes
begin

text \<open>
  \<^verbatim>\<open>security/pkix/lib/pkixcheck.cpp\<close>: the checks of one certificate, each a
  function of the parsed field, and \<open>CheckIssuerIndependentProperties\<close>, which runs them in
  the order that ranks the errors.

  A pointer to an \<open>Input\<close> that may be null is an \<open>Input option\<close>; the application's
  \<open>TrustDomain\<close> is the record of its functions.
\<close>

section \<open>Signature algorithm\<close>

definition ReadSignatureAlgorithm :: "Input \<Rightarrow> (PublicKeyAlgorithm \<times> DigestAlgorithm) res" where
  "ReadSignatureAlgorithm i =
     bind_res (SignatureAlgorithmIdentifierValue (Reader_of i)) (\<lambda>(algs, input).
     bind_res (End input) (\<lambda>_. Inr algs))"

definition CheckSignatureAlgorithm ::
  "TrustDomain \<Rightarrow> EndEntityOrCA \<Rightarrow> Time \<Rightarrow> SignedDataWithSignature \<Rightarrow> Input \<Rightarrow> unit res" where
  "CheckSignatureAlgorithm trustDomain eeOrCA notBefore sd signatureValue =
     bind_res (ReadSignatureAlgorithm (sds_algorithm sd)) (\<lambda>(publicKeyAlg, digestAlg).
     bind_res (ReadSignatureAlgorithm signatureValue) (\<lambda>(signedPublicKeyAlg, signedDigestAlg).
     bind_res (fail_if (publicKeyAlg \<noteq> signedPublicKeyAlg \<or> digestAlg \<noteq> signedDigestAlg)
                 ERROR_SIGNATURE_ALGORITHM_MISMATCH) (\<lambda>_.
     bind_res (CheckSignatureDigestAlgorithm trustDomain digestAlg eeOrCA notBefore) (\<lambda>_.
     case publicKeyAlg of
       RSA_PKCS1 \<Rightarrow>
         CheckRSAPublicKeyModulusSizeInBits trustDomain eeOrCA (ucast (GetLength (sds_signature sd)) * 8)
     | ECDSA \<Rightarrow> Inr ()))))"

section \<open>Issuer and validity\<close>

text \<open>The result of \<open>ExpectTagAndGetValue\<close> is not looked at: after a wrong tag
  \<open>encodedRDNs\<close> has been set all the same, and it is only empty if nothing was read.\<close>

definition CheckIssuer :: "Input \<Rightarrow> unit res" where
  "CheckIssuer encodedIssuer =
     (let encodedRDNs =
            (case ReadTagAndGetValue (Reader_of encodedIssuer) of
               Inl _ \<Rightarrow> []
             | Inr (actualTag, val, _) \<Rightarrow> val)
      in if AtEnd (Reader_of encodedRDNs) then Inl ERROR_EMPTY_ISSUER_NAME else Inr ())"

definition ParseValidity :: "Input \<Rightarrow> (Time \<times> Time) res" where
  "ParseValidity encodedValidity =
     (case TimeChoice (Reader_of encodedValidity) of
        Inl _ \<Rightarrow> Inl ERROR_INVALID_DER_TIME
      | Inr (notBefore, input) \<Rightarrow>
     (case TimeChoice input of
        Inl _ \<Rightarrow> Inl ERROR_INVALID_DER_TIME
      | Inr (notAfter, input) \<Rightarrow>
     (case End input of
        Inl _ \<Rightarrow> Inl ERROR_INVALID_DER_TIME
      | Inr _ \<Rightarrow>
          if notBefore > notAfter then Inl ERROR_INVALID_DER_TIME else Inr (notBefore, notAfter))))"

definition CheckValidity :: "Time \<Rightarrow> Time \<Rightarrow> Time \<Rightarrow> unit res" where
  "CheckValidity time notBefore notAfter =
     (if time < notBefore then Inl ERROR_NOT_YET_VALID_CERTIFICATE
      else if time > notAfter then Inl ERROR_EXPIRED_CERTIFICATE
      else Inr ())"

section \<open>Subject public key info\<close>

definition rsaEncryption :: "u8 list" where
  "rsaEncryption = [0x2a, 0x86, 0x48, 0x86, 0xf7, 0x0d, 0x01, 0x01, 0x01]"

definition id_ecPublicKey :: "u8 list" where
  "id_ecPublicKey = [0x2a, 0x86, 0x48, 0xce, 0x3d, 0x02, 0x01]"

definition secp256r1_oid :: "u8 list" where
  "secp256r1_oid = [0x2a, 0x86, 0x48, 0xce, 0x3d, 0x03, 0x01, 0x07]"

definition secp384r1_oid :: "u8 list" where
  "secp384r1_oid = [0x2b, 0x81, 0x04, 0x00, 0x22]"

definition secp521r1_oid :: "u8 list" where
  "secp521r1_oid = [0x2b, 0x81, 0x04, 0x00, 0x23]"

definition select_curve :: "Reader \<Rightarrow> (NamedCurve \<times> u32) res" where
  "select_curve namedCurveOIDValue =
     (if fst (MatchRest namedCurveOIDValue secp256r1_oid) then Inr (secp256r1, 256)
      else if fst (MatchRest namedCurveOIDValue secp384r1_oid) then Inr (secp384r1, 384)
      else if fst (MatchRest namedCurveOIDValue secp521r1_oid) then Inr (secp521r1, 521)
      else Inl ERROR_UNSUPPORTED_ELLIPTIC_CURVE)"

definition CheckECPublicKey ::
  "TrustDomain \<Rightarrow> EndEntityOrCA \<Rightarrow> Reader \<Rightarrow> Reader \<Rightarrow> (Reader \<times> Reader) res" where
  "CheckECPublicKey trustDomain eeOrCA algorithm subjectPublicKeyReader =
     bind_res (ExpectTagAndGetReader algorithm OIDTag) (\<lambda>(namedCurveOIDValue, algorithm).
     bind_res (select_curve namedCurveOIDValue) (\<lambda>(curve, bits).
     bind_res (CheckECDSACurveIsAcceptable trustDomain eeOrCA curve) (\<lambda>_.
     bind_res (Read8 subjectPublicKeyReader) (\<lambda>(compressedOrUncompressed, subjectPublicKeyReader).
     bind_res (fail_if (compressedOrUncompressed \<noteq> 0x04) ERROR_UNSUPPORTED_EC_POINT_FORM) (\<lambda>_.
     bind_res (SkipToEndInput subjectPublicKeyReader) (\<lambda>(point, subjectPublicKeyReader).
     bind_res (fail_if (ucast (GetLength point) \<noteq> ((bits + 7) div 8) * 2) ERROR_BAD_DER) (\<lambda>_.
     Inr (algorithm, subjectPublicKeyReader))))))))"

definition ReadRSAPublicKey :: "TrustDomain \<Rightarrow> EndEntityOrCA \<Rightarrow> Reader \<Rightarrow> (unit \<times> Reader) res" where
  "ReadRSAPublicKey trustDomain eeOrCA r =
     bind_res (PositiveInteger r) (\<lambda>((modulus, modulusSignificantBytes), r).
     bind_res (CheckRSAPublicKeyModulusSizeInBits trustDomain eeOrCA (ucast modulusSignificantBytes * 8)) (\<lambda>_.
     bind_res (PositiveInteger r) (\<lambda>(exponent, r).
     Inr ((), r))))"

definition CheckRSAPublicKey ::
  "TrustDomain \<Rightarrow> EndEntityOrCA \<Rightarrow> Reader \<Rightarrow> Reader \<Rightarrow> (Reader \<times> Reader) res" where
  "CheckRSAPublicKey trustDomain eeOrCA algorithm subjectPublicKeyReader =
     bind_res (ExpectTagAndEmptyValue algorithm NULLTag) (\<lambda>algorithm.
     bind_res (Nested subjectPublicKeyReader SEQUENCE (ReadRSAPublicKey trustDomain eeOrCA))
       (\<lambda>(_, subjectPublicKeyReader).
     Inr (algorithm, subjectPublicKeyReader)))"

definition CheckSubjectPublicKeyInfoContents ::
  "Reader \<Rightarrow> TrustDomain \<Rightarrow> EndEntityOrCA \<Rightarrow> (unit \<times> Reader) res" where
  "CheckSubjectPublicKeyInfoContents input trustDomain eeOrCA =
     bind_res (ExpectTagAndGetReader input SEQUENCE) (\<lambda>(algorithm, input).
     bind_res (BitStringWithNoUnusedBits input) (\<lambda>(subjectPublicKey, input).
     bind_res (End input) (\<lambda>_.
     let subjectPublicKeyReader = Reader_of subjectPublicKey in
     bind_res (ExpectTagAndGetReader algorithm OIDTag) (\<lambda>(algorithmOID, algorithm).
     bind_res (if fst (MatchRest algorithmOID id_ecPublicKey) then
                 CheckECPublicKey trustDomain eeOrCA algorithm subjectPublicKeyReader
               else if fst (MatchRest algorithmOID rsaEncryption) then
                 CheckRSAPublicKey trustDomain eeOrCA algorithm subjectPublicKeyReader
               else Inl ERROR_UNSUPPORTED_KEYALG) (\<lambda>(algorithm, subjectPublicKeyReader).
     bind_res (End algorithm) (\<lambda>_.
     bind_res (End subjectPublicKeyReader) (\<lambda>_.
     Inr ((), input))))))))"

definition CheckSubjectPublicKeyInfo :: "Input \<Rightarrow> TrustDomain \<Rightarrow> EndEntityOrCA \<Rightarrow> unit res" where
  "CheckSubjectPublicKeyInfo spki trustDomain eeOrCA =
     bind_res (Nested (Reader_of spki) SEQUENCE
                 (\<lambda>r. CheckSubjectPublicKeyInfoContents r trustDomain eeOrCA)) (\<lambda>(_, spkiReader).
     End spkiReader)"

section \<open>Key usage\<close>

fun key_usage_value :: "KeyUsage \<Rightarrow> nat" where
  "key_usage_value digitalSignature = 0"
| "key_usage_value nonRepudiation = 1"
| "key_usage_value keyEncipherment = 2"
| "key_usage_value dataEncipherment = 3"
| "key_usage_value keyAgreement = 4"
| "key_usage_value keyCertSign = 5"
| "key_usage_value noParticularKeyUsageRequired = 0xff"

definition KeyUsageToBitMask :: "KeyUsage \<Rightarrow> u8" where
  "KeyUsageToBitMask ku = drop_bit (key_usage_value ku) 0x80"

text \<open>The loop to the last byte: \<open>bits\<close> is the byte read last.\<close>

function ReadLastByte :: "Reader \<Rightarrow> u8 \<Rightarrow> u8 res" where
  "ReadLastByte val bits =
     (if \<not> AtEnd val then
        case Read8 val of
          Inl _ \<Rightarrow> Inl ERROR_INADEQUATE_KEY_USAGE
        | Inr (bits', val') \<Rightarrow> ReadLastByte val' bits'
      else Inr bits)"
  by pat_completeness auto
termination
  by (relation "measure (\<lambda>(r, _). r_end r - r_input r)") (auto dest!: Read8_shrinks)

declare ReadLastByte.simps [simp del]

definition inadequate_key_usage :: "'a res \<Rightarrow> 'a res" where
  "inadequate_key_usage m = (case m of Inl _ \<Rightarrow> Inl ERROR_INADEQUATE_KEY_USAGE | Inr x \<Rightarrow> Inr x)"

definition CheckKeyUsage :: "EndEntityOrCA \<Rightarrow> Input option \<Rightarrow> KeyUsage \<Rightarrow> unit res" where
  "CheckKeyUsage eeOrCA encodedKeyUsage requiredKeyUsageIfPresent =
     (case encodedKeyUsage of
        None \<Rightarrow> Inr ()
      | Some ku \<Rightarrow>
          bind_res (inadequate_key_usage (ExpectTagAndGetReader (Reader_of ku) BIT_STRING)) (\<lambda>(val, _).
          bind_res (inadequate_key_usage (Read8 val)) (\<lambda>(numberOfPaddingBits, val).
          bind_res (fail_if (numberOfPaddingBits > 7) ERROR_INADEQUATE_KEY_USAGE) (\<lambda>_.
          bind_res (inadequate_key_usage (Read8 val)) (\<lambda>(bits, val).
          bind_res (fail_if (requiredKeyUsageIfPresent \<noteq> noParticularKeyUsageRequired \<and>
                       bits AND KeyUsageToBitMask requiredKeyUsageIfPresent = 0)
                     ERROR_INADEQUATE_KEY_USAGE) (\<lambda>_.
          bind_res (fail_if (requiredKeyUsageIfPresent = keyCertSign \<and> eeOrCA \<noteq> MustBeCA)
                     ERROR_INADEQUATE_KEY_USAGE) (\<lambda>_.
          bind_res (ReadLastByte val bits) (\<lambda>bits.
          let paddingMask = push_bit (unat numberOfPaddingBits) 1 - 1 in
          fail_if (bits AND paddingMask \<noteq> 0) ERROR_INADEQUATE_KEY_USAGE))))))))"

section \<open>Certificate policies\<close>

definition anyPolicy :: "u8 list" where
  "anyPolicy = [0x55, 0x1d, 0x20, 0x00]"

text \<open>The test for the address of the constant \<open>CertPolicyId::anyPolicy\<close> is subsumed by the
  comparison of the bytes.\<close>

definition IsAnyPolicy :: "CertPolicyId \<Rightarrow> bool" where
  "IsAnyPolicy p \<longleftrightarrow> unat (numBytes p) = length anyPolicy \<and>
     take (unat (numBytes p)) (policy_bytes p) = anyPolicy"

definition MatchPolicy :: "EndEntityOrCA \<Rightarrow> Input \<Rightarrow> Reader \<Rightarrow> bool" where
  "MatchPolicy eeOrCA requiredPolicyDER policyIdentifier =
     (if fst (MatchRestInput policyIdentifier requiredPolicyDER) then True
      else eeOrCA = MustBeCA \<and> fst (MatchRest policyIdentifier anyPolicy))"

function CheckPolicies_loop :: "EndEntityOrCA \<Rightarrow> Input \<Rightarrow> Reader \<Rightarrow> bool \<Rightarrow> bool res" where
  "CheckPolicies_loop eeOrCA requiredPolicyDER policies requiredPolicyFound =
     (case ExpectTagAndGetReader policies SEQUENCE of
        Inl _ \<Rightarrow> Inl ERROR_POLICY_VALIDATION_FAILED
      | Inr (policyInformation, policies') \<Rightarrow>
          (case ExpectTagAndGetReader policyInformation OIDTag of
             Inl e \<Rightarrow> Inl e
           | Inr (policyIdentifier, policyInformation) \<Rightarrow>
               let found = (if MatchPolicy eeOrCA requiredPolicyDER policyIdentifier then True
                            else requiredPolicyFound)
               in if \<not> found \<and> \<not> AtEnd policies'
                  then CheckPolicies_loop eeOrCA requiredPolicyDER policies' found
                  else Inr found))"
  by pat_completeness auto
termination
  by (relation "measure (\<lambda>(_, _, r, _). r_end r - r_input r)") (auto dest!: ExpectTagAndGetReader_shrinks)

declare CheckPolicies_loop.simps [simp del]

definition SearchPolicies :: "EndEntityOrCA \<Rightarrow> Input \<Rightarrow> Input option \<Rightarrow> bool \<Rightarrow> bool res" where
  "SearchPolicies eeOrCA requiredPolicyDER encodedCertificatePolicies requiredPolicyFound =
     (case encodedCertificatePolicies of
        None \<Rightarrow> Inr requiredPolicyFound
      | Some cp \<Rightarrow>
          (case ExpectTagAndGetReader (Reader_of cp) SEQUENCE of
             Inl _ \<Rightarrow> Inl ERROR_POLICY_VALIDATION_FAILED
           | Inr (policies, extension) \<Rightarrow>
               if \<not> AtEnd extension then Inl ERROR_POLICY_VALIDATION_FAILED
               else CheckPolicies_loop eeOrCA requiredPolicyDER policies requiredPolicyFound))"

definition CheckCertificatePolicies ::
  "EndEntityOrCA \<Rightarrow> Input option \<Rightarrow> Input option \<Rightarrow> TrustLevel \<Rightarrow> CertPolicyId \<Rightarrow> unit res" where
  "CheckCertificatePolicies eeOrCA encodedCertificatePolicies encodedInhibitAnyPolicy trustLevel
     requiredPolicy =
     (if numBytes requiredPolicy = 0 \<or> unat (numBytes requiredPolicy) > CertPolicyId_MAX_BYTES
      then Inl FATAL_ERROR_INVALID_ARGS
      else
        let requiredPolicyFound = IsAnyPolicy requiredPolicy in
        if requiredPolicyFound then Inr ()
        else if \<not> requiredPolicyFound \<and> encodedInhibitAnyPolicy \<noteq> None
        then Inl ERROR_POLICY_VALIDATION_FAILED
        else
          let requiredPolicyFound =
                (if trustLevel = TrustAnchor \<and> eeOrCA = MustBeCA then True else requiredPolicyFound)
          in case Input_Init None (Some (take (unat (numBytes requiredPolicy)) (policy_bytes requiredPolicy))) of
            Inl _ \<Rightarrow> Inl FATAL_ERROR_INVALID_ARGS
          | Inr requiredPolicyDER \<Rightarrow>
              bind_res (SearchPolicies eeOrCA requiredPolicyDER encodedCertificatePolicies requiredPolicyFound)
                (\<lambda>requiredPolicyFound.
              if \<not> requiredPolicyFound then Inl ERROR_POLICY_VALIDATION_FAILED else Inr ()))"

section \<open>Basic constraints\<close>

definition UNLIMITED_PATH_LEN :: int where
  "UNLIMITED_PATH_LEN = -1"

definition ReadBasicConstraints :: "Reader \<Rightarrow> ((bool \<times> int) \<times> Reader) res" where
  "ReadBasicConstraints r =
     (case OptionalBoolean r of
        Inl e \<Rightarrow> Inl e
      | Inr (isCA, r) \<Rightarrow>
          (case OptionalInteger r UNLIMITED_PATH_LEN of
             Inl e \<Rightarrow> Inl e
           | Inr (pathLenConstraint, r) \<Rightarrow> Inr ((isCA, pathLenConstraint), r)))"

definition GetBasicConstraintsValue ::
  "EndEntityOrCA \<Rightarrow> Input option \<Rightarrow> Version \<Rightarrow> TrustLevel \<Rightarrow> (bool \<times> int) res" where
  "GetBasicConstraintsValue eeOrCA encodedBasicConstraints ver trustLevel =
     (case encodedBasicConstraints of
        Some bc \<Rightarrow>
          (case Nested (Reader_of bc) SEQUENCE ReadBasicConstraints of
             Inl _ \<Rightarrow> Inl ERROR_EXTENSION_VALUE_INVALID
           | Inr (x, input) \<Rightarrow>
               (case End input of
                  Inl _ \<Rightarrow> Inl ERROR_EXTENSION_VALUE_INVALID
                | Inr _ \<Rightarrow> Inr x))
      | None \<Rightarrow>
          if eeOrCA = MustBeCA \<and> ver = v1 then
            if trustLevel = TrustAnchor then Inr (True, UNLIMITED_PATH_LEN)
            else Inl ERROR_V1_CERT_USED_AS_CA
          else Inr (False, UNLIMITED_PATH_LEN))"

definition CheckBasicConstraints ::
  "EndEntityOrCA \<Rightarrow> Input option \<Rightarrow> Version \<Rightarrow> TrustLevel \<Rightarrow> u32 \<Rightarrow> unit res" where
  "CheckBasicConstraints eeOrCA encodedBasicConstraints ver trustLevel subCACount =
     bind_res (GetBasicConstraintsValue eeOrCA encodedBasicConstraints ver trustLevel)
       (\<lambda>(isCA, pathLenConstraint).
     if eeOrCA = MustBeEndEntity then
       if isCA then Inl ERROR_CA_CERT_USED_AS_END_ENTITY else Inr ()
     else if \<not> isCA then Inl ERROR_CA_CERT_INVALID
     else if pathLenConstraint \<ge> 0 \<and> uint subCACount > pathLenConstraint
     then Inl ERROR_PATH_LEN_CONSTRAINT_INVALID
     else Inr ())"

section \<open>Extended key usage\<close>

definition eku_server :: "u8 list" where "eku_server = [40*1+3, 6, 1, 5, 5, 7, 3, 1]"
definition eku_client :: "u8 list" where "eku_client = [40*1+3, 6, 1, 5, 5, 7, 3, 2]"
definition eku_code :: "u8 list" where "eku_code = [40*1+3, 6, 1, 5, 5, 7, 3, 3]"
definition eku_email :: "u8 list" where "eku_email = [40*1+3, 6, 1, 5, 5, 7, 3, 4]"
definition eku_ocsp :: "u8 list" where "eku_ocsp = [40*1+3, 6, 1, 5, 5, 7, 3, 9]"

definition eku_serverStepUp :: "u8 list" where
  "eku_serverStepUp = [40*2+16, 128+6, 72, 1, 128+6, 128+120, 66, 4, 1]"

text \<open>The \<open>switch\<close>: whether the identifier is the required one, and the reader, which a
  matching comparison has moved to the end.\<close>

definition MatchRequiredEKU ::
  "Reader \<Rightarrow> KeyPurposeId \<Rightarrow> EndEntityOrCA \<Rightarrow> TrustDomain \<Rightarrow> Time \<Rightarrow> (bool \<times> Reader) res" where
  "MatchRequiredEKU val requiredEKU eeOrCA trustDomain notBefore =
     (case requiredEKU of
        id_kp_serverAuth \<Rightarrow>
          (case MatchRest val eku_server of
             (True, val) \<Rightarrow> Inr (True, val)
           | (False, val) \<Rightarrow>
               if eeOrCA = MustBeCA then
                 (case MatchRest val eku_serverStepUp of
                    (True, val) \<Rightarrow>
                      (case NetscapeStepUpMatchesServerAuth trustDomain notBefore of
                         Inl e \<Rightarrow> Inl e
                       | Inr m \<Rightarrow> Inr (m, val))
                  | (False, val) \<Rightarrow> Inr (False, val))
               else Inr (False, val))
      | id_kp_clientAuth \<Rightarrow> Inr (MatchRest val eku_client)
      | id_kp_codeSigning \<Rightarrow> Inr (MatchRest val eku_code)
      | id_kp_emailProtection \<Rightarrow> Inr (MatchRest val eku_email)
      | id_kp_OCSPSigning \<Rightarrow> Inr (MatchRest val eku_ocsp)
      | anyExtendedKeyUsage \<Rightarrow> NotReached FATAL_ERROR_LIBRARY_FAILURE)"

text \<open>The state is \<open>found\<close> and \<open>foundOCSPSigning\<close>.\<close>

definition MatchEKU ::
  "KeyPurposeId \<Rightarrow> EndEntityOrCA \<Rightarrow> TrustDomain \<Rightarrow> Time \<Rightarrow> bool \<times> bool \<Rightarrow> Reader \<Rightarrow>
     ((bool \<times> bool) \<times> Reader) res" where
  "MatchEKU requiredEKU eeOrCA trustDomain notBefore fs val =
     (let (found, foundOCSPSigning) = fs in
      bind_res (if \<not> found then MatchRequiredEKU val requiredEKU eeOrCA trustDomain notBefore
                else Inr (False, val)) (\<lambda>(m, val).
      if m then Inr ((True, foundOCSPSigning \<or> requiredEKU = id_kp_OCSPSigning), SkipToEnd val)
      else if fst (MatchRest val eku_ocsp) then Inr ((found, True), SkipToEnd val)
      else Inr ((found, foundOCSPSigning), SkipToEnd val)))"

definition SearchEKU ::
  "EndEntityOrCA \<Rightarrow> Input option \<Rightarrow> KeyPurposeId \<Rightarrow> TrustDomain \<Rightarrow> Time \<Rightarrow> bool res" where
  "SearchEKU eeOrCA encodedExtendedKeyUsage requiredEKU trustDomain notBefore =
     (case encodedExtendedKeyUsage of
        None \<Rightarrow> Inr False
      | Some eku \<Rightarrow>
          (case NestedOf (Reader_of eku) SEQUENCE OIDTag EmptyAllowed_No
                  (MatchEKU requiredEKU eeOrCA trustDomain notBefore)
                  (requiredEKU = anyExtendedKeyUsage, False) of
             Inl _ \<Rightarrow> Inl ERROR_INADEQUATE_CERT_TYPE
           | Inr ((found, foundOCSPSigning), input) \<Rightarrow>
               (case End input of
                  Inl _ \<Rightarrow> Inl ERROR_INADEQUATE_CERT_TYPE
                | Inr _ \<Rightarrow>
                    if \<not> found then Inl ERROR_INADEQUATE_CERT_TYPE else Inr foundOCSPSigning)))"

definition CheckExtendedKeyUsage ::
  "EndEntityOrCA \<Rightarrow> Input option \<Rightarrow> KeyPurposeId \<Rightarrow> TrustDomain \<Rightarrow> Time \<Rightarrow> unit res" where
  "CheckExtendedKeyUsage eeOrCA encodedExtendedKeyUsage requiredEKU trustDomain notBefore =
     bind_res (SearchEKU eeOrCA encodedExtendedKeyUsage requiredEKU trustDomain notBefore)
       (\<lambda>foundOCSPSigning.
     if eeOrCA = MustBeEndEntity then
       if foundOCSPSigning \<and> requiredEKU \<noteq> id_kp_OCSPSigning then Inl ERROR_INADEQUATE_CERT_TYPE
       else if \<not> foundOCSPSigning \<and> requiredEKU = id_kp_OCSPSigning then Inl ERROR_INADEQUATE_CERT_TYPE
       else Inr ()
     else Inr ())"

section \<open>TLS features\<close>

definition CheckTLSFeatures :: "BackCert \<Rightarrow> BackCert \<Rightarrow> unit res" where
  "CheckTLSFeatures subj potentialIssuer =
     (case GetRequiredTLSFeatures potentialIssuer of
        None \<Rightarrow> Inr ()
      | Some issuerTLSFeatures \<Rightarrow>
          (case GetRequiredTLSFeatures subj of
             None \<Rightarrow> Inl ERROR_REQUIRED_TLS_FEATURE_MISSING
           | Some subjectTLSFeatures \<Rightarrow>
               if GetLength issuerTLSFeatures = 0 \<or>
                  \<not> InputsAreEqual issuerTLSFeatures subjectTLSFeatures
               then Inl ERROR_REQUIRED_TLS_FEATURE_MISSING else Inr ()))"

definition status_request_bytes :: "u8 list" where
  "status_request_bytes = [5]"

definition CheckTLSFeature :: "Input option \<Rightarrow> unit \<Rightarrow> Reader \<Rightarrow> (unit \<times> Reader) res" where
  "CheckTLSFeature stapledOCSPResponse u r =
     (case MatchRest r status_request_bytes of
        (False, r) \<Rightarrow> Inl ERROR_REQUIRED_TLS_FEATURE_MISSING
      | (True, r) \<Rightarrow>
          if stapledOCSPResponse = None then Inl ERROR_REQUIRED_TLS_FEATURE_MISSING else Inr ((), r))"

definition TLSFeaturesSatisfiedInternal :: "Input option \<Rightarrow> Input option \<Rightarrow> unit res" where
  "TLSFeaturesSatisfiedInternal reqTLSFeatures stapledOCSPResponse =
     (case reqTLSFeatures of
        None \<Rightarrow> Inr ()
      | Some features \<Rightarrow>
          (case NestedOf (Reader_of features) SEQUENCE INTEGER EmptyAllowed_No
                  (CheckTLSFeature stapledOCSPResponse) () of
             Inl e \<Rightarrow> Inl e
           | Inr (_, _) \<Rightarrow> Inr ()))"

definition CheckTLSFeaturesAreSatisfied :: "Input \<Rightarrow> Input option \<Rightarrow> unit res" where
  "CheckTLSFeaturesAreSatisfied cert stapledOCSPResponse =
     (case BackCert_Init cert MustBeEndEntity of
        Inl e \<Rightarrow> Inl e
      | Inr backCert \<Rightarrow>
          TLSFeaturesSatisfiedInternal (GetRequiredTLSFeatures backCert) stapledOCSPResponse)"

section \<open>All checks that do not depend on the issuer\<close>

definition AdjustTrustLevel :: "TrustLevel \<Rightarrow> EndEntityOrCA \<Rightarrow> KeyPurposeId \<Rightarrow> TrustLevel" where
  "AdjustTrustLevel trustLevel eeOrCA requiredEKUIfPresent =
     (if trustLevel = TrustAnchor \<and> eeOrCA = MustBeEndEntity \<and> requiredEKUIfPresent = id_kp_OCSPSigning
      then InheritsTrust else trustLevel)"

definition CheckTrustedSignature :: "TrustDomain \<Rightarrow> BackCert \<Rightarrow> Time \<Rightarrow> TrustLevel \<Rightarrow> unit res" where
  "CheckTrustedSignature trustDomain cert notBefore trustLevel =
     (case trustLevel of
        InheritsTrust \<Rightarrow>
          CheckSignatureAlgorithm trustDomain (endEntityOrCA cert) notBefore (signedData cert) (signature cert)
      | TrustAnchor \<Rightarrow> Inr ()
      | ActivelyDistrusted \<Rightarrow> Inl ERROR_UNTRUSTED_CERT)"

text \<open>The checks behind the trust level, in the order of the code. The out-parameter
  \<open>trustLevel\<close> is read by \<open>BuildForward\<close> also after a failure and is therefore a component
  of the result of \<open>CheckIssuerIndependentProperties\<close> in every case.\<close>

definition CheckCertificateContents ::
  "TrustDomain \<Rightarrow> BackCert \<Rightarrow> Time \<Rightarrow> KeyUsage \<Rightarrow> KeyPurposeId \<Rightarrow> CertPolicyId \<Rightarrow> u32 \<Rightarrow>
     TrustLevel \<Rightarrow> Time \<Rightarrow> Time \<Rightarrow> unit res" where
  "CheckCertificateContents trustDomain cert time requiredKeyUsageIfPresent requiredEKUIfPresent
     requiredPolicy subCACount trustLevel notBefore notAfter =
     (let eeOrCA = endEntityOrCA cert in
      bind_res (CheckTrustedSignature trustDomain cert notBefore trustLevel) (\<lambda>_.
      bind_res (CheckSubjectPublicKeyInfo (subjectPublicKeyInfo cert) trustDomain eeOrCA) (\<lambda>_.
      bind_res (CheckIssuer (bc_issuer cert)) (\<lambda>_.
      bind_res (CheckKeyUsage eeOrCA (GetKeyUsage cert) requiredKeyUsageIfPresent) (\<lambda>_.
      bind_res (CheckCertificatePolicies eeOrCA (GetCertificatePolicies cert) (GetInhibitAnyPolicy cert)
                  trustLevel requiredPolicy) (\<lambda>_.
      bind_res (CheckBasicConstraints eeOrCA (GetBasicConstraints cert) (version cert) trustLevel
                  subCACount) (\<lambda>_.
      bind_res (CheckExtendedKeyUsage eeOrCA (GetExtKeyUsage cert) requiredEKUIfPresent trustDomain
                  notBefore) (\<lambda>_.
      bind_res (CheckValidity time notBefore notAfter) (\<lambda>_.
      CheckValidityIsAcceptable trustDomain notBefore notAfter eeOrCA requiredEKUIfPresent)))))))))"

definition CheckIssuerIndependentProperties ::
  "TrustDomain \<Rightarrow> BackCert \<Rightarrow> Time \<Rightarrow> KeyUsage \<Rightarrow> KeyPurposeId \<Rightarrow> CertPolicyId \<Rightarrow> u32 \<Rightarrow>
     unit res \<times> TrustLevel" where
  "CheckIssuerIndependentProperties trustDomain cert time requiredKeyUsageIfPresent
     requiredEKUIfPresent requiredPolicy subCACount =
     (case GetCertTrust trustDomain (endEntityOrCA cert) requiredPolicy (bc_der cert) of
        (Inl e, trustLevel) \<Rightarrow> (Inl e, trustLevel)
      | (Inr _, trustLevel) \<Rightarrow>
          (case ParseValidity (validity cert) of
             Inl e \<Rightarrow> (Inl e, trustLevel)
           | Inr (notBefore, notAfter) \<Rightarrow>
               let trustLevel = AdjustTrustLevel trustLevel (endEntityOrCA cert) requiredEKUIfPresent in
               (CheckCertificateContents trustDomain cert time requiredKeyUsageIfPresent
                  requiredEKUIfPresent requiredPolicy subCACount trustLevel notBefore notAfter,
                trustLevel)))"

section \<open>Checking a host name\<close>

text \<open>\<open>CheckCertHostname\<close> of \<^verbatim>\<open>pkixnames.cpp\<close>. The arrays \<open>ipv6\<close> and \<open>ipv4\<close> are local and
  not initialised: their contents are an argument of the model.\<close>

definition CheckCertHostname :: "u8 list \<Rightarrow> Input \<Rightarrow> Input \<Rightarrow> NameMatchingPolicy \<Rightarrow> unit res" where
  "CheckCertHostname ipv6 endEntityCertDER hostname nameMatchingPolicy =
     bind_res (BackCert_Init endEntityCertDER MustBeEndEntity) (\<lambda>cert.
     bind_res (ParseValidity (validity cert)) (\<lambda>(notBefore, _).
     bind_res (FallBackToCommonName nameMatchingPolicy notBefore) (\<lambda>fallBackToSearchWithinSubject.
     let san = GetSubjectAltName cert; subj = subject cert in
     bind_res
       (if IsValidReferenceDNSID hostname then
          SearchNames san subj GN_dNSName hostname fallBackToSearchWithinSubject
        else case ParseIPv6Address hostname ipv6 of
          Some ipv6 \<Rightarrow> SearchNames san subj GN_iPAddress ipv6 FallBack_No
        | None \<Rightarrow>
            (case ParseIPv4Address hostname of
               Some ipv4 \<Rightarrow> SearchNames san subj GN_iPAddress ipv4 fallBackToSearchWithinSubject
             | None \<Rightarrow> Inl ERROR_BAD_CERT_DOMAIN)) (\<lambda>m.
     case m of
       NoNamesOfGivenType \<Rightarrow> Inl ERROR_BAD_CERT_DOMAIN
     | Mismatch \<Rightarrow> Inl ERROR_BAD_CERT_DOMAIN
     | Match \<Rightarrow> Inr ()))))"

end
