(* ===== verification/PkixVerify.thy ===== *)
theory PkixVerify
  imports PkixDerTypes PkixTypes
begin

text \<open>
  \<^verbatim>\<open>security/pkix/lib/pkixverify.cpp\<close>: the digest of signed data and the
  verification of its signature, both done by the application's \<open>TrustDomain\<close>.
  \<open>DigestBuf\<close> fills the first \<open>digestLen\<close> bytes of a local array.
\<close>

fun digest_length :: "DigestAlgorithm \<Rightarrow> nat" where
  "digest_length sha512 = 512 div 8"
| "digest_length sha384 = 384 div 8"
| "digest_length sha256 = 256 div 8"
| "digest_length sha1 = 160 div 8"

definition DigestSignedData ::
  "TrustDomain \<Rightarrow> SignedDataWithSignature \<Rightarrow> (PublicKeyAlgorithm \<times> SignedDigest) res" where
  "DigestSignedData trustDomain sd =
     bind_res (SignatureAlgorithmIdentifierValue (Reader_of (sds_algorithm sd)))
       (\<lambda>((publicKeyAlg, digestAlg), signatureAlg).
     bind_res (fail_if (\<not> AtEnd signatureAlg) ERROR_BAD_DER) (\<lambda>_.
     let digestLen = digest_length digestAlg in
     bind_res (DigestBuf trustDomain (sds_data sd) digestAlg digestLen) (\<lambda>digestBuf.
     bind_res (Input_Init None (Some (take digestLen digestBuf))) (\<lambda>digest.
     bind_res (Input_Init None (Some (sds_signature sd))) (\<lambda>sig.
     Inr (publicKeyAlg, \<lparr>sd_digest = digest, sd_digestAlgorithm = digestAlg, sd_signature = sig\<rparr>))))))"

definition VerifySignedDigest ::
  "TrustDomain \<Rightarrow> PublicKeyAlgorithm \<Rightarrow> SignedDigest \<Rightarrow> Input \<Rightarrow> unit res" where
  "VerifySignedDigest trustDomain publicKeyAlg signedDigest signerSubjectPublicKeyInfo =
     (case publicKeyAlg of
        ECDSA \<Rightarrow> VerifyECDSASignedDigest trustDomain signedDigest signerSubjectPublicKeyInfo
      | RSA_PKCS1 \<Rightarrow> VerifyRSAPKCS1SignedDigest trustDomain signedDigest signerSubjectPublicKeyInfo)"

definition VerifySignedData :: "TrustDomain \<Rightarrow> SignedDataWithSignature \<Rightarrow> Input \<Rightarrow> unit res" where
  "VerifySignedData trustDomain sd signerSubjectPublicKeyInfo =
     bind_res (DigestSignedData trustDomain sd) (\<lambda>(publicKeyAlg, signedDigest).
     VerifySignedDigest trustDomain publicKeyAlg signedDigest signerSubjectPublicKeyInfo)"

end
