(* ===== verification/PkixSamples.thy ===== *)
theory PkixSamples
  imports PkixCheck PkixVerify
begin

text \<open>
  Two certificates and a \<open>TrustDomain\<close> on which the models compute, for the theories that
  apply their results at a concrete input: \<open>leaf_der\<close> is issued by \<open>root_der\<close>, which is a
  trust anchor of \<open>sample_domain\<close>. The domain accepts every key, digest and signature and
  offers the root as the only potential issuer.
\<close>

section \<open>Certificates\<close>

definition leaf_der :: Input where
  "leaf_der =
    [0x30, 0x81, 0x84, 0x30, 0x6F, 0xA0, 0x03, 0x02, 0x01, 0x02, 0x02, 0x01, 0x07, 0x30, 0x0D,
     0x06, 0x09, 0x2A, 0x86, 0x48, 0x86, 0xF7, 0x0D, 0x01, 0x01, 0x0B, 0x05, 0x00, 0x30, 0x0C,
     0x31, 0x0A, 0x30, 0x08, 0x06, 0x03, 0x55, 0x04, 0x03, 0x13, 0x01, 0x52, 0x30, 0x1E, 0x17,
     0x0D, 0x31, 0x35, 0x30, 0x31, 0x30, 0x31, 0x30, 0x30, 0x30, 0x30, 0x30, 0x30, 0x5A, 0x17,
     0x0D, 0x33, 0x35, 0x30, 0x31, 0x30, 0x31, 0x30, 0x30, 0x30, 0x30, 0x30, 0x30, 0x5A, 0x30,
     0x0C, 0x31, 0x0A, 0x30, 0x08, 0x06, 0x03, 0x55, 0x04, 0x03, 0x13, 0x01, 0x4C, 0x30, 0x1A,
     0x30, 0x0D, 0x06, 0x09, 0x2A, 0x86, 0x48, 0x86, 0xF7, 0x0D, 0x01, 0x01, 0x01, 0x05, 0x00,
     0x03, 0x09, 0x00, 0x30, 0x06, 0x02, 0x01, 0x05, 0x02, 0x01, 0x03, 0x30, 0x0D, 0x06, 0x09,
     0x2A, 0x86, 0x48, 0x86, 0xF7, 0x0D, 0x01, 0x01, 0x0B, 0x05, 0x00, 0x03, 0x02, 0x00, 0x01]"

definition root_der :: Input where
  "root_der =
    [0x30, 0x81, 0x97, 0x30, 0x81, 0x81, 0xA0, 0x03, 0x02, 0x01, 0x02, 0x02, 0x01, 0x01, 0x30,
     0x0D, 0x06, 0x09, 0x2A, 0x86, 0x48, 0x86, 0xF7, 0x0D, 0x01, 0x01, 0x0B, 0x05, 0x00, 0x30,
     0x0C, 0x31, 0x0A, 0x30, 0x08, 0x06, 0x03, 0x55, 0x04, 0x03, 0x13, 0x01, 0x52, 0x30, 0x1E,
     0x17, 0x0D, 0x31, 0x35, 0x30, 0x31, 0x30, 0x31, 0x30, 0x30, 0x30, 0x30, 0x30, 0x30, 0x5A,
     0x17, 0x0D, 0x33, 0x35, 0x30, 0x31, 0x30, 0x31, 0x30, 0x30, 0x30, 0x30, 0x30, 0x30, 0x5A,
     0x30, 0x0C, 0x31, 0x0A, 0x30, 0x08, 0x06, 0x03, 0x55, 0x04, 0x03, 0x13, 0x01, 0x52, 0x30,
     0x1A, 0x30, 0x0D, 0x06, 0x09, 0x2A, 0x86, 0x48, 0x86, 0xF7, 0x0D, 0x01, 0x01, 0x01, 0x05,
     0x00, 0x03, 0x09, 0x00, 0x30, 0x06, 0x02, 0x01, 0x07, 0x02, 0x01, 0x03, 0xA3, 0x10, 0x30,
     0x0E, 0x30, 0x0C, 0x06, 0x03, 0x55, 0x1D, 0x13, 0x04, 0x05, 0x30, 0x03, 0x01, 0x01, 0xFF,
     0x30, 0x0D, 0x06, 0x09, 0x2A, 0x86, 0x48, 0x86, 0xF7, 0x0D, 0x01, 0x01, 0x0B, 0x05, 0x00,
     0x03, 0x02, 0x00, 0x01]"

definition leaf_cert :: BackCert where
  "leaf_cert =
    \<lparr>bc_der = leaf_der, endEntityOrCA = MustBeEndEntity,
     signedData = \<lparr>sds_data =
      [0x30, 0x6F, 0xA0, 0x03, 0x02, 0x01, 0x02, 0x02, 0x01, 0x07, 0x30, 0x0D, 0x06, 0x09, 0x2A,
       0x86, 0x48, 0x86, 0xF7, 0x0D, 0x01, 0x01, 0x0B, 0x05, 0x00, 0x30, 0x0C, 0x31, 0x0A, 0x30,
       0x08, 0x06, 0x03, 0x55, 0x04, 0x03, 0x13, 0x01, 0x52, 0x30, 0x1E, 0x17, 0x0D, 0x31, 0x35,
       0x30, 0x31, 0x30, 0x31, 0x30, 0x30, 0x30, 0x30, 0x30, 0x30, 0x5A, 0x17, 0x0D, 0x33, 0x35,
       0x30, 0x31, 0x30, 0x31, 0x30, 0x30, 0x30, 0x30, 0x30, 0x30, 0x5A, 0x30, 0x0C, 0x31, 0x0A,
       0x30, 0x08, 0x06, 0x03, 0x55, 0x04, 0x03, 0x13, 0x01, 0x4C, 0x30, 0x1A, 0x30, 0x0D, 0x06,
       0x09, 0x2A, 0x86, 0x48, 0x86, 0xF7, 0x0D, 0x01, 0x01, 0x01, 0x05, 0x00, 0x03, 0x09, 0x00,
       0x30, 0x06, 0x02, 0x01, 0x05, 0x02, 0x01, 0x03],
      sds_algorithm = [0x06, 0x09, 0x2A, 0x86, 0x48, 0x86, 0xF7, 0x0D, 0x01, 0x01, 0x0B, 0x05, 0x00],
      sds_signature = [0x01]\<rparr>,
     version = v3, bc_serialNumber = [0x07],
     signature = [0x06, 0x09, 0x2A, 0x86, 0x48, 0x86, 0xF7, 0x0D, 0x01, 0x01, 0x0B, 0x05, 0x00],
     bc_issuer = [0x30, 0x0C, 0x31, 0x0A, 0x30, 0x08, 0x06, 0x03, 0x55, 0x04, 0x03, 0x13, 0x01, 0x52],
     validity =
      [0x17, 0x0D, 0x31, 0x35, 0x30, 0x31, 0x30, 0x31, 0x30, 0x30, 0x30, 0x30, 0x30, 0x30, 0x5A,
       0x17, 0x0D, 0x33, 0x35, 0x30, 0x31, 0x30, 0x31, 0x30, 0x30, 0x30, 0x30, 0x30, 0x30, 0x5A],
     subject = [0x30, 0x0C, 0x31, 0x0A, 0x30, 0x08, 0x06, 0x03, 0x55, 0x04, 0x03, 0x13, 0x01, 0x4C],
     subjectPublicKeyInfo =
      [0x30, 0x1A, 0x30, 0x0D, 0x06, 0x09, 0x2A, 0x86, 0x48, 0x86, 0xF7, 0x0D, 0x01, 0x01, 0x01,
       0x05, 0x00, 0x03, 0x09, 0x00, 0x30, 0x06, 0x02, 0x01, 0x05, 0x02, 0x01, 0x03],
     authorityInfoAccess = None, basicConstraints = None, certificatePolicies = None,
     extKeyUsage = None, inhibitAnyPolicy = None, keyUsage = None, nameConstraints = None,
     subjectAltName = None, criticalNetscapeCertificateType = None, requiredTLSFeatures = None,
     signedCertificateTimestamps = None\<rparr>"

lemma leaf_cert_init: "BackCert_Init leaf_der MustBeEndEntity = Inr leaf_cert"
  by (simp add: leaf_cert_def leaf_der_def eval_pkix cong: bind_res_weak_cong)

definition root_cert :: BackCert where
  "root_cert =
    \<lparr>bc_der = root_der, endEntityOrCA = MustBeCA,
     signedData = \<lparr>sds_data =
      [0x30, 0x81, 0x81, 0xA0, 0x03, 0x02, 0x01, 0x02, 0x02, 0x01, 0x01, 0x30, 0x0D, 0x06, 0x09,
       0x2A, 0x86, 0x48, 0x86, 0xF7, 0x0D, 0x01, 0x01, 0x0B, 0x05, 0x00, 0x30, 0x0C, 0x31, 0x0A,
       0x30, 0x08, 0x06, 0x03, 0x55, 0x04, 0x03, 0x13, 0x01, 0x52, 0x30, 0x1E, 0x17, 0x0D, 0x31,
       0x35, 0x30, 0x31, 0x30, 0x31, 0x30, 0x30, 0x30, 0x30, 0x30, 0x30, 0x5A, 0x17, 0x0D, 0x33,
       0x35, 0x30, 0x31, 0x30, 0x31, 0x30, 0x30, 0x30, 0x30, 0x30, 0x30, 0x5A, 0x30, 0x0C, 0x31,
       0x0A, 0x30, 0x08, 0x06, 0x03, 0x55, 0x04, 0x03, 0x13, 0x01, 0x52, 0x30, 0x1A, 0x30, 0x0D,
       0x06, 0x09, 0x2A, 0x86, 0x48, 0x86, 0xF7, 0x0D, 0x01, 0x01, 0x01, 0x05, 0x00, 0x03, 0x09,
       0x00, 0x30, 0x06, 0x02, 0x01, 0x07, 0x02, 0x01, 0x03, 0xA3, 0x10, 0x30, 0x0E, 0x30, 0x0C,
       0x06, 0x03, 0x55, 0x1D, 0x13, 0x04, 0x05, 0x30, 0x03, 0x01, 0x01, 0xFF],
      sds_algorithm = [0x06, 0x09, 0x2A, 0x86, 0x48, 0x86, 0xF7, 0x0D, 0x01, 0x01, 0x0B, 0x05, 0x00],
      sds_signature = [0x01]\<rparr>,
     version = v3, bc_serialNumber = [0x01],
     signature = [0x06, 0x09, 0x2A, 0x86, 0x48, 0x86, 0xF7, 0x0D, 0x01, 0x01, 0x0B, 0x05, 0x00],
     bc_issuer = [0x30, 0x0C, 0x31, 0x0A, 0x30, 0x08, 0x06, 0x03, 0x55, 0x04, 0x03, 0x13, 0x01, 0x52],
     validity =
      [0x17, 0x0D, 0x31, 0x35, 0x30, 0x31, 0x30, 0x31, 0x30, 0x30, 0x30, 0x30, 0x30, 0x30, 0x5A,
       0x17, 0x0D, 0x33, 0x35, 0x30, 0x31, 0x30, 0x31, 0x30, 0x30, 0x30, 0x30, 0x30, 0x30, 0x5A],
     subject = [0x30, 0x0C, 0x31, 0x0A, 0x30, 0x08, 0x06, 0x03, 0x55, 0x04, 0x03, 0x13, 0x01, 0x52],
     subjectPublicKeyInfo =
      [0x30, 0x1A, 0x30, 0x0D, 0x06, 0x09, 0x2A, 0x86, 0x48, 0x86, 0xF7, 0x0D, 0x01, 0x01, 0x01,
       0x05, 0x00, 0x03, 0x09, 0x00, 0x30, 0x06, 0x02, 0x01, 0x07, 0x02, 0x01, 0x03],
     authorityInfoAccess = None, basicConstraints = Some [0x30, 0x03, 0x01, 0x01, 0xFF], certificatePolicies = None,
     extKeyUsage = None, inhibitAnyPolicy = None, keyUsage = None, nameConstraints = None,
     subjectAltName = None, criticalNetscapeCertificateType = None, requiredTLSFeatures = None,
     signedCertificateTimestamps = None\<rparr>"

lemma root_cert_init: "BackCert_Init root_der MustBeCA = Inr root_cert"
  by (simp add: root_cert_def root_der_def eval_pkix cong: bind_res_weak_cong)

section \<open>Evaluation of the checks\<close>

lemmas eval_time = TimeChoice_def TimeChoice_internal_def ReadYear_def ReadMonthAndDay_def
  ReadTimeOfDay_def month_switch_def ReadTwoDigits_def ReadDigit_def DaysBeforeYear_def
  TimeFromElapsedSecondsAD_def

lemmas eval_getters = MaybeInput_def GetAuthorityInfoAccess_def GetBasicConstraints_def
  GetCertificatePolicies_def GetExtKeyUsage_def GetKeyUsage_def GetInhibitAnyPolicy_def
  GetNameConstraints_def GetSubjectAltName_def GetRequiredTLSFeatures_def
  GetSignedCertificateTimestamps_def

lemmas eval_spki = CheckSubjectPublicKeyInfo_def CheckSubjectPublicKeyInfoContents_def
  CheckRSAPublicKey_def CheckECPublicKey_def ReadRSAPublicKey_def id_ecPublicKey_def rsaEncryption_def

lemmas eval_signature = CheckSignatureAlgorithm_def ReadSignatureAlgorithm_def
  SignatureAlgorithmIdentifierValue_def sha256WithRSAEncryption_def OptionalNull_def

text \<open>\<open>domain_with va rv\<close> answers \<open>va\<close> (by role) when it is asked whether a validity period is
  acceptable and \<open>rv\<close> when it is asked for a revocation status.\<close>

definition domain_with :: "(EndEntityOrCA \<Rightarrow> unit res) \<Rightarrow> unit res \<Rightarrow> TrustDomain" where
  "domain_with va rv =
    \<lparr>GetCertTrust = (\<lambda>eeOrCA policy der. (Inr (), if eeOrCA = MustBeCA then TrustAnchor else InheritsTrust)),
     FindIssuer = (\<lambda>name time. ([(root_der, None)], Inr ())),
     IsChainValid = (\<lambda>ev ders time. Inr ()),
     CheckRevocation = (\<lambda>ev eeOrCA cid time duration stapled aia. rv),
     CheckSignatureDigestAlgorithm = (\<lambda>alg eeOrCA notBefore. Inr ()),
     CheckRSAPublicKeyModulusSizeInBits = (\<lambda>eeOrCA bits. Inr ()),
     VerifyRSAPKCS1SignedDigest = (\<lambda>sd spki. Inr ()),
     CheckECDSACurveIsAcceptable = (\<lambda>eeOrCA curve. Inr ()),
     VerifyECDSASignedDigest = (\<lambda>sd spki. Inr ()),
     CheckValidityIsAcceptable = (\<lambda>notBefore notAfter eeOrCA eku. va eeOrCA),
     NetscapeStepUpMatchesServerAuth = (\<lambda>notBefore. Inr False),
     DigestBuf = (\<lambda>i alg n. Inr (replicate n 0))\<rparr>"

abbreviation sample_domain :: TrustDomain where
  "sample_domain \<equiv> domain_with (\<lambda>eeOrCA. Inr ()) (Inr ())"

lemma domain_with_simps [simp]:
  "GetCertTrust (domain_with va rv) eeOrCA policy der =
     (Inr (), if eeOrCA = MustBeCA then TrustAnchor else InheritsTrust)"
  "FindIssuer (domain_with va rv) name time = ([(root_der, None)], Inr ())"
  "IsChainValid (domain_with va rv) ev ders time = Inr ()"
  "CheckRevocation (domain_with va rv) ev eeOrCA cid time duration stapled aia = rv"
  "CheckSignatureDigestAlgorithm (domain_with va rv) alg eeOrCA notBefore = Inr ()"
  "CheckRSAPublicKeyModulusSizeInBits (domain_with va rv) eeOrCA bits = Inr ()"
  "VerifyRSAPKCS1SignedDigest (domain_with va rv) sd spki = Inr ()"
  "CheckValidityIsAcceptable (domain_with va rv) notBefore notAfter eeOrCA eku = va eeOrCA"
  "DigestBuf (domain_with va rv) i alg n = Inr (replicate n 0)"
  by (simp_all add: domain_with_def)

text \<open>A time in 2016, within the validity of both certificates.\<close>

definition sample_time :: Time where
  "sample_time = Time 63600000000"

definition any_policy :: CertPolicyId where
  "any_policy = \<lparr>numBytes = 4, policy_bytes = [0x55, 0x1d, 0x20, 0x00] @ replicate 20 0\<rparr>"

lemma leaf_cert_validity: "ParseValidity (validity leaf_cert) = Inr (Time 63555667200, Time 64186819200)"
  by (simp add: leaf_cert_def ParseValidity_def eval_pkix eval_time less_Time_def cong: bind_res_weak_cong)

lemma root_cert_validity: "ParseValidity (validity root_cert) = Inr (Time 63555667200, Time 64186819200)"
  using leaf_cert_validity by (simp add: leaf_cert_def root_cert_def)

lemma leaf_cert_spki: "CheckSubjectPublicKeyInfo (subjectPublicKeyInfo leaf_cert) (domain_with va rv) e = Inr ()"
  by (simp add: leaf_cert_def eval_spki eval_pkix cong: bind_res_weak_cong)

lemma root_cert_spki: "CheckSubjectPublicKeyInfo (subjectPublicKeyInfo root_cert) (domain_with va rv) e = Inr ()"
  by (simp add: root_cert_def eval_spki eval_pkix cong: bind_res_weak_cong)

lemma leaf_cert_signature:
  "CheckSignatureAlgorithm (domain_with va rv) e t (signedData leaf_cert) (signature leaf_cert) = Inr ()"
  by (simp add: leaf_cert_def eval_signature eval_pkix cong: bind_res_weak_cong)

lemma leaf_cert_digest:
  "DigestSignedData (domain_with va rv) (signedData leaf_cert) =
     Inr (RSA_PKCS1, \<lparr>sd_digest = replicate 32 0, sd_digestAlgorithm = sha256, sd_signature = [1]\<rparr>)"
  by (simp add: leaf_cert_def DigestSignedData_def eval_signature eval_pkix cong: bind_res_weak_cong)

lemma sample_issuer:
  "CheckIssuer (bc_issuer leaf_cert) = Inr ()" "CheckIssuer (bc_issuer root_cert) = Inr ()"
  by (simp_all add: leaf_cert_def root_cert_def CheckIssuer_def eval_pkix cong: bind_res_weak_cong)

lemma sample_fields:
  "endEntityOrCA leaf_cert = MustBeEndEntity" "endEntityOrCA root_cert = MustBeCA"
  "GetKeyUsage leaf_cert = None" "GetBasicConstraints leaf_cert = None"
  "GetExtKeyUsage leaf_cert = None" "GetCertificatePolicies leaf_cert = None"
  "GetSignedCertificateTimestamps leaf_cert = None"
  "GetKeyUsage root_cert = None" "GetBasicConstraints root_cert = Some [0x30, 0x03, 0x01, 0x01, 0xFF]"
  "GetExtKeyUsage root_cert = None" "GetCertificatePolicies root_cert = None"
  "GetNameConstraints root_cert = None" "GetRequiredTLSFeatures root_cert = None"
  by (simp_all add: leaf_cert_def root_cert_def eval_getters GetLength_def)

lemma any_policy_accepted: "CheckCertificatePolicies e cp iap trust any_policy = Inr ()"
  by (simp add: any_policy_def CheckCertificatePolicies_def CertPolicyId_MAX_BYTES_def IsAnyPolicy_def
      anyPolicy_def Let_def)

lemma root_cert_constraints:
  "CheckBasicConstraints MustBeCA (Some [0x30, 0x03, 0x01, 0x01, 0xFF]) ver trust n = Inr ()"
  by (simp add: CheckBasicConstraints_def GetBasicConstraintsValue_def ReadBasicConstraints_def
      OptionalInteger_def UNLIMITED_PATH_LEN_def eval_pkix cong: bind_res_weak_cong)

lemma leaf_cert_properties:
  "CheckIssuerIndependentProperties (domain_with va rv) leaf_cert sample_time digitalSignature id_kp_serverAuth
     any_policy n = (va MustBeEndEntity, InheritsTrust)"
  by (simp add: CheckIssuerIndependentProperties_def CheckCertificateContents_def Let_def sample_fields
      leaf_cert_validity leaf_cert_spki leaf_cert_signature sample_issuer any_policy_accepted
      CheckTrustedSignature_def AdjustTrustLevel_def CheckKeyUsage_def CheckBasicConstraints_def
      GetBasicConstraintsValue_def CheckExtendedKeyUsage_def SearchEKU_def CheckValidity_def sample_time_def
      less_Time_def cong: bind_res_weak_cong)

lemma root_cert_properties:
  "CheckIssuerIndependentProperties (domain_with va rv) root_cert sample_time keyCertSign id_kp_serverAuth
     any_policy n = (va MustBeCA, TrustAnchor)"
  by (simp add: CheckIssuerIndependentProperties_def CheckCertificateContents_def Let_def sample_fields
      root_cert_validity root_cert_spki sample_issuer any_policy_accepted root_cert_constraints
      CheckTrustedSignature_def AdjustTrustLevel_def CheckKeyUsage_def CheckExtendedKeyUsage_def
      SearchEKU_def CheckValidity_def sample_time_def less_Time_def cong: bind_res_weak_cong)

end
