(* ===== verification/PkixBuild.thy ===== *)
theory PkixBuild
  imports PkixSamples
begin

text \<open>
  \<^verbatim>\<open>security/pkix/lib/pkixbuild.cpp\<close>: the search for a path from a certificate to
  a trust anchor. \<open>BuildForward\<close> asks the \<open>TrustDomain\<close> for potential issuers, which
  calls \<open>PathBuildingStep::Check\<close> for each; that calls \<open>BuildForward\<close> for the issuer.

  A certificate with its \<open>childCert\<close> pointers is the certificate and the list of the
  certificates below it, down to the end entity. The members of \<open>PathBuildingStep\<close> that
  the constructor sets for good are the record \<open>PathBuildingStep\<close>, the others the record
  \<open>step_state\<close>. The digest of the subject, computed once, is \<open>None\<close> as long as the
  code's \<open>digest.GetLength()\<close> is 0. Calls of the \<open>TrustDomain\<close> whose order matters are
  appended to a list of events.
\<close>

section \<open>The state of a step\<close>

record PathBuildingStep =
  trustDomain :: TrustDomain
  step_subject :: BackCert
  step_children :: "BackCert list"
  step_time :: Time
  requiredEKUIfPresent :: KeyPurposeId
  requiredPolicy :: CertPolicyId
  stapledOCSPResponse :: "Input option"
  subCACount :: u32
  deferredSubjectError :: "unit res"

record step_state =
  subjectSignature :: "(PublicKeyAlgorithm \<times> SignedDigest) option"
  step_result :: "unit res"
  resultWasSet :: bool

definition initial_step_state :: step_state where
  "initial_step_state =
     \<lparr>subjectSignature = None, step_result = Inl FATAL_ERROR_LIBRARY_FAILURE, resultWasSet = False\<rparr>"

definition issuer_error :: "unit res \<Rightarrow> unit res" where
  "issuer_error newResult =
     (if newResult = Inl ERROR_UNTRUSTED_CERT then Inl ERROR_UNTRUSTED_ISSUER
      else if newResult = Inl ERROR_EXPIRED_CERTIFICATE then Inl ERROR_EXPIRED_ISSUER_CERTIFICATE
      else if newResult = Inl ERROR_NOT_YET_VALID_CERTIFICATE
      then Inl ERROR_NOT_YET_VALID_ISSUER_CERTIFICATE
      else newResult)"

text \<open>The status of the call (with \<open>keepGoing\<close>) and the new state.\<close>

definition RecordResult :: "step_state \<Rightarrow> unit res \<Rightarrow> bool res \<times> step_state" where
  "RecordResult s newResult =
     (let newResult = issuer_error newResult in
      if resultWasSet s \<and> step_result s = Inr () then (NotReached FATAL_ERROR_INVALID_STATE, s)
      else
        let newResult =
              (if resultWasSet s \<and> newResult \<noteq> Inr () \<and> newResult \<noteq> step_result s
               then Inl ERROR_UNKNOWN_ISSUER else newResult)
        in (Inr (newResult \<noteq> Inr ()), s\<lparr>step_result := newResult, resultWasSet := True\<rparr>))"

definition CheckResult :: "step_state \<Rightarrow> unit res" where
  "CheckResult s = (if \<not> resultWasSet s then Inl ERROR_UNKNOWN_ISSUER else step_result s)"

section \<open>Checking a potential issuer\<close>

text \<open>The part of \<open>PathBuildingStep::Check\<close> before the recursive call. A certificate whose
  name does not match is passed over, everything else that is wrong is recorded.\<close>

datatype candidate =
    Candidate_Ignored
  | Candidate_Rejected error
  | Candidate_Accepted BackCert

definition same_key_and_name :: "BackCert \<Rightarrow> BackCert \<Rightarrow> bool" where
  "same_key_and_name potentialIssuer prev \<longleftrightarrow>
     InputsAreEqual (subjectPublicKeyInfo potentialIssuer) (subjectPublicKeyInfo prev) \<and>
     InputsAreEqual (subject potentialIssuer) (subject prev)"

definition CheckOptionalNameConstraints ::
  "Input option \<Rightarrow> BackCert list \<Rightarrow> KeyPurposeId \<Rightarrow> unit res" where
  "CheckOptionalNameConstraints nc chain requiredEKU =
     (case nc of None \<Rightarrow> Inr () | Some constraints \<Rightarrow> CheckNameConstraints constraints chain requiredEKU)"

definition CheckPotentialIssuer :: "PathBuildingStep \<Rightarrow> BackCert \<Rightarrow> Input option \<Rightarrow> unit res" where
  "CheckPotentialIssuer p potentialIssuer additionalNameConstraints =
     (let chain = step_subject p # step_children p in
      bind_res (fail_if (list_ex (same_key_and_name potentialIssuer) chain) ERROR_UNKNOWN_ISSUER) (\<lambda>_.
      bind_res (CheckOptionalNameConstraints (GetNameConstraints potentialIssuer) chain
                  (requiredEKUIfPresent p)) (\<lambda>_.
      bind_res (CheckOptionalNameConstraints additionalNameConstraints chain
                  (requiredEKUIfPresent p)) (\<lambda>_.
      CheckTLSFeatures (step_subject p) potentialIssuer))))"

definition CheckCandidate :: "PathBuildingStep \<Rightarrow> Input \<Rightarrow> Input option \<Rightarrow> candidate" where
  "CheckCandidate p potentialIssuerDER additionalNameConstraints =
     (case BackCert_Init potentialIssuerDER MustBeCA of
        Inl e \<Rightarrow> Candidate_Rejected e
      | Inr potentialIssuer \<Rightarrow>
          if \<not> InputsAreEqual (subject potentialIssuer) (bc_issuer (step_subject p))
          then Candidate_Ignored
          else case CheckPotentialIssuer p potentialIssuer additionalNameConstraints of
            Inl e \<Rightarrow> Candidate_Rejected e
          | Inr _ \<Rightarrow> Candidate_Accepted potentialIssuer)"

text \<open>The part behind the recursive call. First the digest of the subject, lazily: its
  failure is returned at once, not recorded.\<close>

definition GetSubjectSignature ::
  "PathBuildingStep \<Rightarrow> step_state \<Rightarrow> (PublicKeyAlgorithm \<times> SignedDigest) res" where
  "GetSubjectSignature p s =
     (case subjectSignature s of
        Some sig \<Rightarrow> Inr sig
      | None \<Rightarrow> DigestSignedData (trustDomain p) (signedData (step_subject p)))"

definition NoteEmbeddedSCTs :: "BackCert \<Rightarrow> td_event list \<Rightarrow> unit res \<times> td_event list" where
  "NoteEmbeddedSCTs subj ev =
     (if endEntityOrCA subj = MustBeEndEntity then
        case GetSignedCertificateTimestamps subj of
          None \<Rightarrow> (Inr (), ev)
        | Some sctExtension \<Rightarrow>
            (case ExtractSignedCertificateTimestampListFromExtension sctExtension of
               Inl e \<Rightarrow> (Inl e, ev)
             | Inr sctList \<Rightarrow> (Inr (), ev @ [NoteAuxiliaryExtension_called EmbeddedSCTList sctList]))
      else (Inr (), ev))"

definition CheckSubjectRevocation ::
  "PathBuildingStep \<Rightarrow> BackCert \<Rightarrow> step_state \<Rightarrow> td_event list \<Rightarrow>
     bool res \<times> step_state \<times> td_event list" where
  "CheckSubjectRevocation p potentialIssuer s ev =
     (let subj = step_subject p;
          record = (\<lambda>rv ev. let (r, s) = RecordResult s rv in (r, s, ev))
      in if deferredSubjectError p \<noteq> Inl ERROR_EXPIRED_CERTIFICATE then
           let certID = \<lparr>issuer = bc_issuer subj,
                         issuerSubjectPublicKeyInfo = subjectPublicKeyInfo potentialIssuer,
                         serialNumber = bc_serialNumber subj\<rparr>
           in case ParseValidity (validity subj) of
             Inl e \<Rightarrow> (Inl e, s, ev)
           | Inr (notBefore, notAfter) \<Rightarrow>
               let ev' = ev @ [CheckRevocation_called (endEntityOrCA subj) certID (step_time p)
                                 (Duration_between notAfter notBefore) (stapledOCSPResponse p)
                                 (GetAuthorityInfoAccess subj)]
               in (case CheckRevocation (trustDomain p) ev (endEntityOrCA subj) certID (step_time p)
                          (Duration_between notAfter notBefore) (stapledOCSPResponse p)
                          (GetAuthorityInfoAccess subj) of
                     Inl e \<Rightarrow> record (Inl e) ev'
                   | Inr _ \<Rightarrow>
                       (case NoteEmbeddedSCTs subj ev' of
                          (Inl e, ev) \<Rightarrow> record (Inl e) ev
                        | (Inr _, ev) \<Rightarrow> record (Inr ()) ev))
         else record (Inr ()) ev)"

definition CheckIssuedBy ::
  "PathBuildingStep \<Rightarrow> BackCert \<Rightarrow> step_state \<Rightarrow> td_event list \<Rightarrow>
     bool res \<times> step_state \<times> td_event list" where
  "CheckIssuedBy p potentialIssuer s ev =
     (case GetSubjectSignature p s of
        Inl e \<Rightarrow> (Inl e, s, ev)
      | Inr (alg, sd) \<Rightarrow>
          let s = s\<lparr>subjectSignature := Some (alg, sd)\<rparr> in
          (case VerifySignedDigest (trustDomain p) alg sd (subjectPublicKeyInfo potentialIssuer) of
             Inl e \<Rightarrow> (let (r, s) = RecordResult s (Inl e) in (r, s, ev))
           | Inr _ \<Rightarrow> CheckSubjectRevocation p potentialIssuer s ev))"

section \<open>The search\<close>

definition MAX_SUBCA_COUNT :: u32 where
  "MAX_SUBCA_COUNT = 6"

text \<open>\<open>Inl\<close> is the error that is returned at once, \<open>Inr\<close> the one to report after the search
  (or \<open>Success\<close>).\<close>

definition DeferError :: "BackCert \<Rightarrow> unit res \<Rightarrow> TrustLevel \<Rightarrow> (unit res) res" where
  "DeferError subj rv trustLevel =
     (case rv of
        Inl e \<Rightarrow>
          if endEntityOrCA subj = MustBeEndEntity \<and> trustLevel \<noteq> TrustAnchor then Inr (Inl e) else Inl e
      | Inr _ \<Rightarrow> Inr (Inr ()))"

definition AcceptTrustAnchor ::
  "TrustDomain \<Rightarrow> BackCert list \<Rightarrow> Time \<Rightarrow> td_event list \<Rightarrow> unit res \<times> td_event list" where
  "AcceptTrustAnchor td chain time ev =
     (case fold_res DERArray_Append [] (map bc_der chain) of
        Inl e \<Rightarrow> (NotReached e, ev)
      | Inr ders \<Rightarrow> (IsChainValid td ev ders time, ev @ [IsChainValid_called ders time]))"

text \<open>A certificate of a CA counts towards the limit. For an end entity the code asserts
  that the count is 0.\<close>

definition NextSubCACount :: "BackCert \<Rightarrow> u32 \<Rightarrow> u32 option" where
  "NextSubCACount subj count =
     (if endEntityOrCA subj = MustBeCA then
        if count \<ge> MAX_SUBCA_COUNT then None else Some (count + 1)
      else Some count)"

definition search_depth :: "EndEntityOrCA \<Rightarrow> u32 \<Rightarrow> nat" where
  "search_depth eeOrCA count = (if eeOrCA = MustBeEndEntity then 7 else 6 - unat count)"

text \<open>Nothing that \<open>Init\<close> does after the constructor changes the role, on any bytes.\<close>

lemma NestedOf_loop_invariant:
  "NestedOf_loop i t dec s = Inr s' \<Longrightarrow> P s \<Longrightarrow>
   (\<forall>s r s' r'. dec s r = Inr (s', r') \<longrightarrow> P s \<longrightarrow> P s') \<Longrightarrow> P s'"
proof (induction i t dec s rule: NestedOf_loop.induct)
  case (1 i t dec s)
  then obtain s1 i1 where n: "Nested i t (dec s) = Inr (s1, i1)"
    "(if \<not> AtEnd i1 then NestedOf_loop i1 t dec s1 else Inr s1) = Inr s'"
    by (subst (asm) (2) NestedOf_loop.simps) (auto split: sum.splits)
  obtain r q where "dec s r = Inr (s1, q)"
    using n(1) by (auto simp: Nested_def split: sum.splits)
  then have "P s1" using "1.prems"(2,3) by blast
  then show ?case using n "1.IH" [OF n(1)] "1.prems"(3) by (auto split: if_splits)
qed

lemma ExtensionDecoder_role:
  assumes "ExtensionDecoder RememberExtension s r = Inr (s', r')"
  shows "endEntityOrCA s' = endEntityOrCA s \<and> bc_der s' = bc_der s"
proof -
  have st: "endEntityOrCA (store s out v) = endEntityOrCA s \<and> bc_der (store s out v) = bc_der s" for s out v
    by (cases out) simp_all
  show ?thesis using assms
    by (auto simp: ExtensionDecoder_def RememberExtension_def Let_def st split: sum.splits option.splits if_splits prod.splits)
qed

lemma BackCert_Init_role:
  assumes "BackCert_Init der e = Inr c"
  shows "endEntityOrCA c = e \<and> bc_der c = der"
proof -
  define P :: "BackCert \<Rightarrow> bool" where "P = (\<lambda>c. endEntityOrCA c = e \<and> bc_der c = der)"
  obtain sd r c0 r0 r1 r2 where c0: "ReadTBSFields der e sd r = Inr (c0, r0)"
    and c: "OptionalExtensions r1 (CSC OR 3) RememberExtension c0 = Inr (c, r2)"
    using assms unfolding BackCert_Init_def
    by (auto simp: bind_res_prod_Inr_iff bind_res_Inr_iff split: if_splits)
  have "P c0" using c0 unfolding ReadTBSFields_def P_def
    by (auto simp: bind_res_prod_Inr_iff)
  have step: "\<forall>s q s' q'. ExtensionDecoder RememberExtension s q = Inr (s', q') \<longrightarrow> P s \<longrightarrow> P s'"
    unfolding P_def using ExtensionDecoder_role by metis
  have "c = c0 \<or> (\<exists>i. NestedOf_loop i SEQUENCE (ExtensionDecoder RememberExtension) c0 = Inr c)"
    using c unfolding OptionalExtensions_def Nested_def NestedOf_def
    by (auto split: sum.splits if_splits)
  then have "P c" using NestedOf_loop_invariant [OF _ \<open>P c0\<close> step] \<open>P c0\<close> by blast
  then show ?thesis by (simp add: P_def)
qed

lemma CheckCandidate_CA:
  "CheckCandidate p der nc = Candidate_Accepted c \<Longrightarrow> endEntityOrCA c = MustBeCA"
  by (auto simp: CheckCandidate_def split: sum.splits if_splits dest!: BackCert_Init_role)

lemma NextSubCACount_depth:
  "NextSubCACount subj count = Some n \<Longrightarrow> 6 - unat n < search_depth (endEntityOrCA subj) count"
  by (auto simp: NextSubCACount_def search_depth_def MAX_SUBCA_COUNT_def word_le_nat_alt
      unat_word_ariths split: if_splits intro: EndEntityOrCA.exhaust)

function (sequential) BuildForward ::
    "TrustDomain \<Rightarrow> BackCert \<Rightarrow> BackCert list \<Rightarrow> Time \<Rightarrow> KeyUsage \<Rightarrow> KeyPurposeId \<Rightarrow> CertPolicyId \<Rightarrow>
       Input option \<Rightarrow> u32 \<Rightarrow> td_event list \<Rightarrow> unit res \<times> td_event list"
  and FindIssuer_loop ::
    "PathBuildingStep \<Rightarrow> (Input \<times> Input option) list \<Rightarrow> unit res \<Rightarrow> step_state \<Rightarrow> td_event list \<Rightarrow>
       unit res \<times> step_state \<times> td_event list"
  and Check ::
    "PathBuildingStep \<Rightarrow> Input \<Rightarrow> Input option \<Rightarrow> step_state \<Rightarrow> td_event list \<Rightarrow>
       bool res \<times> step_state \<times> td_event list" where
  "BuildForward td subj children time ku eku policy stapled count ev =
     (let (rv, trustLevel) = CheckIssuerIndependentProperties td subj time ku eku policy count in
      case DeferError subj rv trustLevel of
        Inl e \<Rightarrow> (Inl e, ev)
      | Inr deferred \<Rightarrow>
          if trustLevel = TrustAnchor then AcceptTrustAnchor td (subj # children) time ev
          else case NextSubCACount subj count of
            None \<Rightarrow> (Inl ERROR_UNKNOWN_ISSUER, ev)
          | Some count' \<Rightarrow>
              (case FindIssuer_loop
                      \<lparr>trustDomain = td, step_subject = subj, step_children = children,
                       step_time = time, requiredEKUIfPresent = eku, requiredPolicy = policy,
                       stapledOCSPResponse = stapled, subCACount = count',
                       deferredSubjectError = deferred\<rparr>
                      (fst (FindIssuer td (bc_issuer subj) time))
                      (snd (FindIssuer td (bc_issuer subj) time)) initial_step_state ev of
                 (Inl e, s, ev) \<Rightarrow> (Inl e, ev)
               | (Inr _, s, ev) \<Rightarrow>
                   (case CheckResult s of Inl e \<Rightarrow> (Inl e, ev) | Inr _ \<Rightarrow> (deferred, ev))))"
| "FindIssuer_loop p [] rv s ev = (rv, s, ev)"
| "FindIssuer_loop p ((der, nc) # cs) rv s ev =
     (case Check p der nc s ev of
        (Inl e, s, ev) \<Rightarrow> (Inl e, s, ev)
      | (Inr keepGoing, s, ev) \<Rightarrow>
          if keepGoing then FindIssuer_loop p cs rv s ev else (Inr (), s, ev))"
| "Check p der nc s ev =
     (case CheckCandidate p der nc of
        Candidate_Ignored \<Rightarrow> (Inr True, s, ev)
      | Candidate_Rejected e \<Rightarrow> (let (r, s) = RecordResult s (Inl e) in (r, s, ev))
      | Candidate_Accepted potentialIssuer \<Rightarrow>
          (case BuildForward (trustDomain p) potentialIssuer (step_subject p # step_children p)
                  (step_time p) keyCertSign (requiredEKUIfPresent p) (requiredPolicy p) None
                  (subCACount p) ev of
             (Inl e, ev) \<Rightarrow> (let (r, s) = RecordResult s (Inl e) in (r, s, ev))
           | (Inr _, ev) \<Rightarrow> CheckIssuedBy p potentialIssuer s ev))"
  by pat_completeness auto
termination
  by (relation "inv_image (less_than <*lex*> less_than) (\<lambda>x. case x of
        Inl (td, subj, children, time, ku, eku, policy, stapled, count, ev) \<Rightarrow>
          (search_depth (endEntityOrCA subj) count, 0)
      | Inr (Inl (p, cs, rv, s, ev)) \<Rightarrow> (6 - unat (subCACount p), 2 + length cs)
      | Inr (Inr (p, der, nc, s, ev)) \<Rightarrow> (6 - unat (subCACount p), 1))")
    (auto simp: search_depth_def dest!: CheckCandidate_CA NextSubCACount_depth)

declare BuildForward.simps [simp del] FindIssuer_loop.simps [simp del] Check.simps [simp del]

definition BuildCertChain ::
  "TrustDomain \<Rightarrow> Input \<Rightarrow> Time \<Rightarrow> EndEntityOrCA \<Rightarrow> KeyUsage \<Rightarrow> KeyPurposeId \<Rightarrow> CertPolicyId \<Rightarrow>
     Input option \<Rightarrow> td_event list \<Rightarrow> unit res \<times> td_event list" where
  "BuildCertChain td certDER time eeOrCA ku eku policy stapled ev =
     (case BackCert_Init certDER eeOrCA of
        Inl e \<Rightarrow> (Inl e, ev)
      | Inr cert \<Rightarrow> BuildForward td cert [] time ku eku policy stapled 0 ev)"

end
