(* ===== verification/PkixPath.thy ===== *)
theory PkixPath
  imports PkixBuild
begin

text \<open>
  What the search of theory \<open>PkixBuild\<close> finds: trusted paths as an inductive definition
  that does not mention the search, soundness (what is accepted has a path) by induction
  along the three functions of the search, and completeness (a path is found) by
  induction on paths.
\<close>

section \<open>Trusted paths\<close>

text \<open>What a path is, without the search: \<open>accepts_issuer p i\<close> says that a candidate was
  offered that parses to \<open>i\<close> and passes the checks against the certificates below it,
  that \<open>i\<close>'s key verifies the subject's signature, and that the subject is not revoked
  and its embedded timestamps can be read.\<close>

definition not_revoked :: "PathBuildingStep \<Rightarrow> BackCert \<Rightarrow> bool" where
  "not_revoked p i \<longleftrightarrow>
     (\<exists>ev notBefore notAfter. ParseValidity (validity (step_subject p)) = Inr (notBefore, notAfter) \<and>
        CheckRevocation (trustDomain p) ev (endEntityOrCA (step_subject p))
          \<lparr>issuer = bc_issuer (step_subject p), issuerSubjectPublicKeyInfo = subjectPublicKeyInfo i,
           serialNumber = bc_serialNumber (step_subject p)\<rparr> (step_time p)
          (Duration_between notAfter notBefore) (stapledOCSPResponse p)
          (GetAuthorityInfoAccess (step_subject p)) = Inr ()) \<and>
     fst (NoteEmbeddedSCTs (step_subject p) []) = Inr ()"

lemma NoteEmbeddedSCTs_status: "fst (NoteEmbeddedSCTs c ev) = fst (NoteEmbeddedSCTs c ev')"
  by (auto simp: NoteEmbeddedSCTs_def split: option.splits sum.splits)

definition accepts_issuer :: "PathBuildingStep \<Rightarrow> BackCert \<Rightarrow> bool" where
  "accepts_issuer p i \<longleftrightarrow>
     (\<exists>(der, nc) \<in> set (fst (FindIssuer (trustDomain p) (bc_issuer (step_subject p)) (step_time p))).
        CheckCandidate p der nc = Candidate_Accepted i) \<and>
     VerifySignedData (trustDomain p) (signedData (step_subject p)) (subjectPublicKeyInfo i) = Inr () \<and>
     (deferredSubjectError p \<noteq> Inl ERROR_EXPIRED_CERTIFICATE \<longrightarrow> not_revoked p i)"

definition path_step ::
  "TrustDomain \<Rightarrow> Time \<Rightarrow> KeyPurposeId \<Rightarrow> CertPolicyId \<Rightarrow> BackCert \<Rightarrow> BackCert list \<Rightarrow> Input option \<Rightarrow> u32 \<Rightarrow>
     unit res \<Rightarrow> PathBuildingStep" where
  "path_step td time eku policy c children stapled count deferred =
     \<lparr>trustDomain = td, step_subject = c, step_children = children, step_time = time,
      requiredEKUIfPresent = eku, requiredPolicy = policy, stapledOCSPResponse = stapled,
      subCACount = count, deferredSubjectError = deferred\<rparr>"

lemma path_step_simps [simp]:
  "trustDomain (path_step td time eku policy c children stapled count d) = td"
  "step_subject (path_step td time eku policy c children stapled count d) = c"
  "step_children (path_step td time eku policy c children stapled count d) = children"
  "step_time (path_step td time eku policy c children stapled count d) = time"
  "requiredEKUIfPresent (path_step td time eku policy c children stapled count d) = eku"
  "requiredPolicy (path_step td time eku policy c children stapled count d) = policy"
  "stapledOCSPResponse (path_step td time eku policy c children stapled count d) = stapled"
  "subCACount (path_step td time eku policy c children stapled count d) = count"
  "deferredSubjectError (path_step td time eku policy c children stapled count d) = d"
  by (simp_all add: path_step_def)

inductive trusted_path ::
  "TrustDomain \<Rightarrow> Time \<Rightarrow> KeyPurposeId \<Rightarrow> CertPolicyId \<Rightarrow> BackCert \<Rightarrow> BackCert list \<Rightarrow> KeyUsage \<Rightarrow>
     Input option \<Rightarrow> u32 \<Rightarrow> BackCert list \<Rightarrow> bool"
  for td time eku policy where
  anchor:
    "CheckIssuerIndependentProperties td c time ku eku policy count = (Inr (), TrustAnchor) \<Longrightarrow>
     length (c # children) \<le> NonOwningDERArray_MAX_LENGTH \<Longrightarrow>
     IsChainValid td ev (map bc_der (c # children)) time = Inr () \<Longrightarrow>
     trusted_path td time eku policy c children ku stapled count []"
| issued:
    "CheckIssuerIndependentProperties td c time ku eku policy count = (Inr (), trustLevel) \<Longrightarrow>
     trustLevel \<noteq> TrustAnchor \<Longrightarrow>
     NextSubCACount c count = Some count' \<Longrightarrow>
     accepts_issuer (path_step td time eku policy c children stapled count' (Inr ())) i \<Longrightarrow>
     trusted_path td time eku policy i (c # children) keyCertSign None count' issuers \<Longrightarrow>
     trusted_path td time eku policy c children ku stapled count (i # issuers)"

inductive_cases trusted_path_NilE: "trusted_path td time eku policy c children ku stapled count []"
inductive_cases trusted_path_ConsE: "trusted_path td time eku policy c children ku stapled count (i # is)"

section \<open>The chain that was accepted last\<close>

text \<open>\<open>accepted_last td time ders ev\<close>: of the chains in the calls \<open>ev\<close>, \<open>ders\<close> is the last one, and it was
  accepted.\<close>

fun is_chain_call :: "td_event \<Rightarrow> bool" where
  "is_chain_call (IsChainValid_called ders t) \<longleftrightarrow> True"
| "is_chain_call (CheckRevocation_called e cid t du st aia) \<longleftrightarrow> False"
| "is_chain_call (NoteAuxiliaryExtension_called ext v) \<longleftrightarrow> False"

definition accepted_last :: "TrustDomain \<Rightarrow> Time \<Rightarrow> Input list \<Rightarrow> td_event list \<Rightarrow> bool" where
  "accepted_last td time ders ev \<longleftrightarrow> (\<exists>earlier later. ev = earlier @ IsChainValid_called ders time # later \<and>
     IsChainValid td earlier ders time = Inr () \<and> (\<forall>x \<in> set later. \<not> is_chain_call x))"

lemma accepted_last_append:
  "accepted_last td time ders ev \<Longrightarrow> \<forall>x \<in> set calls. \<not> is_chain_call x \<Longrightarrow> accepted_last td time ders (ev @ calls)"
  unfolding accepted_last_def by (metis append.assoc append_Cons UnE set_append)

section \<open>The state of a step\<close>

text \<open>The invariant of a step: a cached digest is the digest of the subject, and a recorded
  success comes from an issuer that was accepted and has a path of its own.\<close>

definition has_path :: "PathBuildingStep \<Rightarrow> td_event list \<Rightarrow> bool" where
  "has_path p ev \<longleftrightarrow> (\<exists>i issuers. accepts_issuer p i \<and>
     trusted_path (trustDomain p) (step_time p) (requiredEKUIfPresent p) (requiredPolicy p) i
       (step_subject p # step_children p) keyCertSign None (subCACount p) issuers \<and>
     accepted_last (trustDomain p) (step_time p)
       (map bc_der (rev issuers @ i # step_subject p # step_children p)) ev)"

definition step_inv :: "PathBuildingStep \<Rightarrow> step_state \<Rightarrow> td_event list \<Rightarrow> bool" where
  "step_inv p s ev \<longleftrightarrow>
     (\<forall>sig. subjectSignature s = Some sig \<longrightarrow>
        DigestSignedData (trustDomain p) (signedData (step_subject p)) = Inr sig) \<and>
     (resultWasSet s \<and> step_result s = Inr () \<longrightarrow> has_path p ev)"

lemma step_inv_initial: "step_inv p initial_step_state ev"
  by (simp add: step_inv_def initial_step_state_def)

lemma issuer_error_Inr [simp]: "issuer_error rv = Inr () \<longleftrightarrow> rv = Inr ()" "issuer_error (Inr ()) = Inr ()"
  by (simp_all add: issuer_error_def)

lemma RecordResult_inv:
  assumes "step_inv p s ev" and "rv = Inr () \<Longrightarrow> has_path p ev'" and "RecordResult s rv = (Inr b, s')"
  shows "step_inv p s' ev'"
  using assms by (auto simp: RecordResult_def step_inv_def Let_def NotReached_def split: if_splits)

text \<open>What the checks behind the recursive call add to the calls.\<close>

lemma CheckIssuedBy_calls:
  assumes "CheckIssuedBy p i s ev = (r, s', ev')"
  shows "\<exists>calls. ev' = ev @ calls \<and> (\<forall>x \<in> set calls. \<not> is_chain_call x)"
proof -
  let ?ok = "\<lambda>ev'. \<exists>calls. ev' = ev @ calls \<and> (\<forall>x \<in> set calls. \<not> is_chain_call x)"
  have ok: "?ok ev" "?ok (ev @ [CheckRevocation_called e cid t du st aia])"
    "?ok (ev @ [CheckRevocation_called e cid t du st aia, NoteAuxiliaryExtension_called x v])" for e cid t du st aia x v
    by auto
  have "?ok ev2" if "NoteEmbeddedSCTs c (ev @ [CheckRevocation_called e cid t du st aia]) = (rv, ev2)"
    for c e cid t du st aia rv ev2
    using that ok by (auto simp: NoteEmbeddedSCTs_def split: if_splits option.splits sum.splits)
  then have "?ok ev2" if "CheckSubjectRevocation p i s1 ev = (r1, s2, ev2)" for s1 r1 s2 ev2
    using that ok unfolding CheckSubjectRevocation_def Let_def by (auto split: if_splits sum.splits prod.splits)
  then show ?thesis
    using assms ok unfolding CheckIssuedBy_def Let_def by (auto split: sum.splits prod.splits)
qed

lemma fold_DERArray_Append:
  "fold_res DERArray_Append a ders = Inr b \<Longrightarrow>
   b = a @ ders \<and> (length a \<le> NonOwningDERArray_MAX_LENGTH \<longrightarrow> length b \<le> NonOwningDERArray_MAX_LENGTH)"
proof (induction ders arbitrary: a)
  case (Cons d ders)
  then obtain a' where "DERArray_Append a d = Inr a'" "fold_res DERArray_Append a' ders = Inr b"
    by (auto split: sum.splits)
  moreover have "a' = a @ [d] \<and> length a < NonOwningDERArray_MAX_LENGTH"
    using calculation(1) by (auto simp: DERArray_Append_def split: sum.splits if_splits)
  ultimately show ?case using Cons.IH [of a'] by auto
qed simp

lemma CheckIssuedBy_inv:
  assumes inv: "step_inv p s ev0" and call: "CheckIssuedBy p i s ev = (Inr b, s', ev')"
    and cand: "(der, nc) \<in> set (fst (FindIssuer (trustDomain p) (bc_issuer (step_subject p)) (step_time p)))"
      "CheckCandidate p der nc = Candidate_Accepted i"
    and path: "trusted_path (trustDomain p) (step_time p) (requiredEKUIfPresent p) (requiredPolicy p) i
       (step_subject p # step_children p) keyCertSign None (subCACount p) issuers"
      "accepted_last (trustDomain p) (step_time p) (map bc_der (rev issuers @ i # step_subject p # step_children p)) ev"
  shows "step_inv p s' ev'"
proof (cases "GetSubjectSignature p s")
  case (Inl e)
  then show ?thesis using call inv by (simp add: CheckIssuedBy_def)
next
  case (Inr sig)
  obtain alg sd where sig: "sig = (alg, sd)" by (cases sig)
  let ?s = "s\<lparr>subjectSignature := Some (alg, sd)\<rparr>"
  have dig: "DigestSignedData (trustDomain p) (signedData (step_subject p)) = Inr (alg, sd)"
    using Inr inv sig by (auto simp: GetSubjectSignature_def step_inv_def split: option.splits)
  have inv': "step_inv p ?s ev0" using inv dig by (simp add: step_inv_def)
  obtain calls where "ev' = ev @ calls" "\<forall>x \<in> set calls. \<not> is_chain_call x" using CheckIssuedBy_calls [OF call] by blast
  note last = accepted_last_append [OF path(2) this(2), folded this(1)]
  show ?thesis
  proof (cases "VerifySignedDigest (trustDomain p) alg sd (subjectPublicKeyInfo i)")
    case (Inl e)
    then show ?thesis
      using call Inr sig RecordResult_inv [OF inv', of "Inl e"]
      by (auto simp: CheckIssuedBy_def Let_def split: prod.splits)
  next
    case v: (Inr u)
    have ver: "VerifySignedData (trustDomain p) (signedData (step_subject p)) (subjectPublicKeyInfo i) = Inr ()"
      using dig v by (simp add: VerifySignedData_def)
    have good: "has_path p ev'" if "deferredSubjectError p \<noteq> Inl ERROR_EXPIRED_CERTIFICATE \<Longrightarrow> not_revoked p i"
      using cand ver path(1) last that unfolding has_path_def accepts_issuer_def by blast
    have call': "CheckSubjectRevocation p i ?s ev = (Inr b, s', ev')"
      using call Inr sig v by (simp add: CheckIssuedBy_def Let_def)
    show ?thesis
    proof (cases "deferredSubjectError p = Inl ERROR_EXPIRED_CERTIFICATE")
      case True
      then show ?thesis
        using call' good RecordResult_inv [OF inv', of "Inr ()"]
        by (auto simp: CheckSubjectRevocation_def Let_def split: prod.splits)
    next
      case False
      let ?cid = "\<lparr>issuer = bc_issuer (step_subject p), issuerSubjectPublicKeyInfo = subjectPublicKeyInfo i,
           serialNumber = bc_serialNumber (step_subject p)\<rparr>"
      let ?rev = "\<lambda>nb na. CheckRevocation (trustDomain p) ev (endEntityOrCA (step_subject p)) ?cid (step_time p)
          (Duration_between na nb) (stapledOCSPResponse p) (GetAuthorityInfoAccess (step_subject p))"
      have nr: "not_revoked p i" if "ParseValidity (validity (step_subject p)) = Inr (nb, na)"
        "?rev nb na = Inr ()" "NoteEmbeddedSCTs (step_subject p) ev1 = (Inr (), ev2)" for nb na ev1 ev2
        using that NoteEmbeddedSCTs_status [of "step_subject p" "[]" ev1] unfolding not_revoked_def by auto
      have "\<exists>rv b. RecordResult ?s rv = (Inr b, s') \<and> (rv = Inr () \<longrightarrow> not_revoked p i)"
        using call' False nr unfolding CheckSubjectRevocation_def Let_def
        by (auto split: prod.splits sum.splits)
      then show ?thesis using RecordResult_inv [OF inv'] good by blast
    qed
  qed
qed

lemma AcceptTrustAnchor_Inr:
  assumes "AcceptTrustAnchor td chain time ev = (Inr (), ev')"
  shows "length chain \<le> NonOwningDERArray_MAX_LENGTH \<and> IsChainValid td ev (map bc_der chain) time = Inr () \<and>
    accepted_last td time (map bc_der chain) ev'"
proof -
  obtain ders where f: "fold_res DERArray_Append [] (map bc_der chain) = Inr ders"
    and v: "IsChainValid td ev ders time = Inr ()" "ev' = ev @ [IsChainValid_called ders time]"
    using assms by (auto simp: AcceptTrustAnchor_def NotReached_def split: sum.splits)
  from fold_DERArray_Append [OF f] have "ders = map bc_der chain" "length ders \<le> NonOwningDERArray_MAX_LENGTH"
    by auto
  with v show ?thesis
    unfolding accepted_last_def by (intro conjI exI [of _ ev] exI [of _ "[]"]) simp_all
qed

text \<open>The three functions together: what \<open>BuildForward\<close> accepts has a path, and the loop and
  \<open>Check\<close> keep the invariant of the step.\<close>

lemma search_sound:
  "fst (BuildForward td subj children time ku eku policy stapled count ev) = Inr () \<longrightarrow>
     (\<exists>issuers. trusted_path td time eku policy subj children ku stapled count issuers \<and>
        accepted_last td time (map bc_der (rev issuers @ subj # children))
          (snd (BuildForward td subj children time ku eku policy stapled count ev)))"
  "set cs \<subseteq> set (fst (FindIssuer (trustDomain p) (bc_issuer (step_subject p)) (step_time p))) \<Longrightarrow>
     step_inv p s ev \<Longrightarrow> FindIssuer_loop p cs rv s ev = (Inr u, s', ev') \<Longrightarrow> step_inv p s' ev'"
  "(der, nc) \<in> set (fst (FindIssuer (trustDomain p) (bc_issuer (step_subject p)) (step_time p))) \<Longrightarrow>
     step_inv p s ev \<Longrightarrow> Check p der nc s ev = (Inr b, s', ev') \<Longrightarrow> step_inv p s' ev'"
proof (induction td subj children time ku eku policy stapled count ev and p cs rv s ev and p der nc s ev
    arbitrary: and u s' ev' and b s' ev' rule: BuildForward_FindIssuer_loop_Check.induct)
  case (1 td subj children time ku eku policy stapled count ev)
  obtain rv tl where c: "CheckIssuerIndependentProperties td subj time ku eku policy count = (rv, tl)"
    by fastforce
  note bf = BuildForward.simps [of td subj children time ku eku policy stapled count ev]
  show ?case
  proof
    assume ok: "fst (BuildForward td subj children time ku eku policy stapled count ev) = Inr ()"
    then obtain deferred where d: "DeferError subj rv tl = Inr deferred"
      unfolding bf c by (auto split: sum.splits)
    show "\<exists>issuers. trusted_path td time eku policy subj children ku stapled count issuers \<and>
        accepted_last td time (map bc_der (rev issuers @ subj # children))
          (snd (BuildForward td subj children time ku eku policy stapled count ev))"
    proof (cases "tl = TrustAnchor")
      case True
      then have rv: "rv = Inr ()" using d by (auto simp: DeferError_def split: sum.splits)
      obtain ev' where a: "AcceptTrustAnchor td (subj # children) time ev = (Inr (), ev')"
        using ok d True unfolding bf c
        by (cases "AcceptTrustAnchor td (subj # children) time ev") auto
      then have "snd (BuildForward td subj children time ku eku policy stapled count ev) = ev'"
        using d True unfolding bf c by simp
      with AcceptTrustAnchor_Inr [OF a] show ?thesis
        using trusted_path.anchor c True rv by (intro exI [of _ "[]"]) auto
    next
      case False
      obtain count' where n: "NextSubCACount subj count = Some count'"
        using ok d False unfolding bf c by (auto split: option.splits)
      define p where "p = path_step td time eku policy subj children stapled count' deferred"
      let ?cs = "fst (FindIssuer td (bc_issuer subj) time)"
      obtain r s' ev' where l:
        "FindIssuer_loop p ?cs (snd (FindIssuer td (bc_issuer subj) time)) initial_step_state ev = (r, s', ev')"
        by (cases "FindIssuer_loop p ?cs (snd (FindIssuer td (bc_issuer subj) time)) initial_step_state ev") auto
      have def: "deferred = Inr ()" and res: "CheckResult s' = Inr ()" and r: "r = Inr ()"
        and ev: "snd (BuildForward td subj children time ku eku policy stapled count ev) = ev'"
        using ok d False n l unfolding bf c p_def path_step_def by (auto split: sum.splits)
      have rv: "rv = Inr ()"
        using d def by (auto simp: DeferError_def split: sum.splits if_splits)
      have "step_inv p s' ev'"
        using "1.IH" [OF c [symmetric] refl d False n] l step_inv_initial [of p ev]
        unfolding p_def path_step_def r by simp
      then have "has_path p ev'" using res by (auto simp: step_inv_def CheckResult_def split: if_splits)
      then obtain i issuers where "accepts_issuer p i"
        "trusted_path td time eku policy i (subj # children) keyCertSign None count' issuers"
        "accepted_last td time (map bc_der (rev (i # issuers) @ subj # children)) ev'"
        unfolding has_path_def by (auto simp: p_def path_step_def)
      then show ?thesis
        using trusted_path.issued [OF _ False n, of td time ku eku policy children stapled i issuers] c rv
        unfolding p_def def ev by blast
    qed
  qed
next
  case (2 p rv s ev)
  then show ?case by (simp add: FindIssuer_loop.simps)
next
  case (3 p der nc cs rv s ev)
  obtain r s1 ev1 where c: "Check p der nc s ev = (r, s1, ev1)" by (cases "Check p der nc s ev") auto
  then obtain keepGoing where r: "r = Inr keepGoing"
    using "3.prems"(3) by (cases r) (simp_all add: FindIssuer_loop.simps)
  have inv: "step_inv p s1 ev1" using "3.IH"(1) [OF _ "3.prems"(2)] "3.prems"(1) c r by simp
  show ?case
  proof (cases keepGoing)
    case True
    then show ?thesis
      using "3.IH"(2) [OF c [symmetric] r refl True _ inv] "3.prems"(1,3) c r by (simp add: FindIssuer_loop.simps)
  next
    case False
    then show ?thesis using inv "3.prems"(3) c r by (simp add: FindIssuer_loop.simps)
  qed
next
  case (4 p der nc s ev)
  show ?case
  proof (cases "CheckCandidate p der nc")
    case Candidate_Ignored
    then show ?thesis using "4.prems" by (simp add: Check.simps)
  next
    case (Candidate_Rejected e)
    then show ?thesis
      using RecordResult_inv [OF "4.prems"(2), of "Inl e"] "4.prems"(3) by (auto simp: Check.simps Let_def split: prod.splits)
  next
    case (Candidate_Accepted i)
    obtain r ev1 where b: "BuildForward (trustDomain p) i (step_subject p # step_children p)
        (step_time p) keyCertSign (requiredEKUIfPresent p) (requiredPolicy p) None (subCACount p) ev = (r, ev1)"
      by fastforce
    show ?thesis
    proof (cases r)
      case (Inl e)
      then show ?thesis
        using RecordResult_inv [OF "4.prems"(2), of "Inl e"] b Candidate_Accepted "4.prems"(3)
        by (auto simp: Check.simps Let_def split: prod.splits)
    next
      case (Inr u)
      then obtain issuers where path: "trusted_path (trustDomain p) (step_time p) (requiredEKUIfPresent p)
          (requiredPolicy p) i (step_subject p # step_children p) keyCertSign None (subCACount p) issuers"
        "accepted_last (trustDomain p) (step_time p) (map bc_der (rev issuers @ i # step_subject p # step_children p)) ev1"
        using "4.IH" [OF Candidate_Accepted] b by auto
      have "CheckIssuedBy p i s ev1 = (Inr b, s', ev')"
        using "4.prems"(3) b Inr Candidate_Accepted by (simp add: Check.simps)
      then show ?thesis by (rule CheckIssuedBy_inv [OF "4.prems"(2) _ "4.prems"(1) Candidate_Accepted path])
    qed
  qed
qed

lemma BuildCertChain_found:
  assumes "BuildCertChain td der time e ku eku policy stapled ev = (Inr (), ev')"
  shows "\<exists>c issuers. BackCert_Init der e = Inr c \<and> trusted_path td time eku policy c [] ku stapled 0 issuers \<and>
    accepted_last td time (map bc_der (rev (c # issuers))) ev'"
proof -
  obtain c where "BackCert_Init der e = Inr c" "BuildForward td c [] time ku eku policy stapled 0 ev = (Inr (), ev')"
    using assms unfolding BuildCertChain_def by (auto split: sum.splits)
  with search_sound(1) [of td c "[]" time ku eku policy stapled 0 ev] show ?thesis by auto
qed

section \<open>The path as a list\<close>

text \<open>\<open>links td time eku stapled below i\<close>: \<open>i\<close> is an issuer of the first certificate of \<open>below\<close>,
  the path down to the end entity: the application offered its bytes for the name of the issuer, with the name
  constraints to impose, if any. \<open>subca_count\<close> is the number of CA certificates below
  the certificate at position \<open>k\<close>, when the first one has the role of \<open>c\<close>.\<close>

definition links ::
  "TrustDomain \<Rightarrow> Time \<Rightarrow> KeyPurposeId \<Rightarrow> Input option \<Rightarrow> BackCert list \<Rightarrow> BackCert \<Rightarrow> bool" where
  "links td time eku stapled below i \<longleftrightarrow>
     (\<exists>(der, imposed) \<in> set (fst (FindIssuer td (bc_issuer (hd below)) time)). BackCert_Init der MustBeCA = Inr i \<and>
        (\<forall>nc. imposed = Some nc \<longrightarrow> CheckNameConstraints nc below eku = Inr ())) \<and>
     endEntityOrCA i = MustBeCA \<and>
     InputsAreEqual (subject i) (bc_issuer (hd below)) \<and>
     VerifySignedData td (signedData (hd below)) (subjectPublicKeyInfo i) = Inr () \<and>
     (\<forall>prev \<in> set below. \<not> same_key_and_name i prev) \<and>
     (\<forall>nc. GetNameConstraints i = Some nc \<longrightarrow> CheckNameConstraints nc below eku = Inr ()) \<and>
     CheckTLSFeatures (hd below) i = Inr () \<and>
     fst (NoteEmbeddedSCTs (hd below) []) = Inr () \<and>
     (\<exists>ev notBefore notAfter. ParseValidity (validity (hd below)) = Inr (notBefore, notAfter) \<and>
        CheckRevocation td ev (endEntityOrCA (hd below))
          \<lparr>issuer = bc_issuer (hd below), issuerSubjectPublicKeyInfo = subjectPublicKeyInfo i,
           serialNumber = bc_serialNumber (hd below)\<rparr> time (Duration_between notAfter notBefore) stapled
          (GetAuthorityInfoAccess (hd below)) = Inr ())"

definition subca_count :: "BackCert \<Rightarrow> nat \<Rightarrow> nat" where
  "subca_count c k = (if endEntityOrCA c = MustBeEndEntity then k - 1 else k)"

lemma accepts_issuer_links:
  assumes "accepts_issuer (path_step td time eku policy c children stapled count (Inr ())) i"
  shows "links td time eku stapled (c # children) i"
proof -
  let ?p = "path_step td time eku policy c children stapled count (Inr ())"
  obtain der nc where offered: "(der, nc) \<in> set (fst (FindIssuer td (bc_issuer c) time))"
    and cand: "CheckCandidate ?p der nc = Candidate_Accepted i"
    using assms unfolding accepts_issuer_def by (auto simp: path_step_def)
  have ver: "VerifySignedData td (signedData c) (subjectPublicKeyInfo i) = Inr ()" and rev: "not_revoked ?p i"
    using assms unfolding accepts_issuer_def by (simp_all add: path_step_def)
  have "endEntityOrCA i = MustBeCA" using CheckCandidate_CA [OF cand] .
  moreover have parsed: "BackCert_Init der MustBeCA = Inr i" "InputsAreEqual (subject i) (bc_issuer c)"
    "CheckPotentialIssuer ?p i nc = Inr ()"
    using cand by (auto simp: CheckCandidate_def path_step_def split: sum.splits if_splits)
  moreover have "\<forall>x. nc = Some x \<longrightarrow> CheckNameConstraints x (c # children) eku = Inr ()"
    "\<forall>x. GetNameConstraints i = Some x \<longrightarrow> CheckNameConstraints x (c # children) eku = Inr ()"
    "\<forall>prev \<in> set (c # children). \<not> same_key_and_name i prev" "CheckTLSFeatures c i = Inr ()"
    using parsed(3)
    by (auto simp: path_step_def CheckPotentialIssuer_def Let_def bind_res_Inr_iff CheckOptionalNameConstraints_def
        list_ex_iff simp del: CheckNameConstraints.simps)
  ultimately show ?thesis
    using ver rev offered unfolding links_def not_revoked_def list.sel path_step_simps by blast
qed

lemma trusted_path_list:
  "trusted_path td time eku policy c children ku stapled count issuers \<Longrightarrow>
     length children + length (c # issuers) \<le> NonOwningDERArray_MAX_LENGTH \<and>
     (\<exists>ev. IsChainValid td ev (map bc_der (rev (c # issuers) @ children)) time = Inr ()) \<and>
     (\<forall>k < length (c # issuers). \<exists>trustLevel.
        CheckIssuerIndependentProperties td ((c # issuers) ! k) time (if k = 0 then ku else keyCertSign)
          eku policy (count + of_nat (subca_count c k)) = (Inr (), trustLevel) \<and>
        (trustLevel = TrustAnchor \<longleftrightarrow> k = length issuers)) \<and>
     (\<forall>k < length issuers.
        links td time eku (if k = 0 then stapled else None) (rev (take (Suc k) (c # issuers)) @ children) (issuers ! k))"
proof (induction rule: trusted_path.induct)
  case (anchor c ku count children ev stapled)
  then show ?case by (auto simp: subca_count_def)
next
  case (issued c ku count trustLevel count' children stapled i issuers)
  note link = accepts_issuer_links [OF issued.hyps(4)]
  have ca: "endEntityOrCA i = MustBeCA" using link by (simp add: links_def)
  have count: "count' + of_nat (subca_count i k) = count + of_nat (subca_count c (Suc k))" for k
    using issued.hyps(3) ca
    by (cases "endEntityOrCA c") (auto simp: subca_count_def NextSubCACount_def split: if_splits)
  let ?P = "\<lambda>k. \<exists>trustLevel. CheckIssuerIndependentProperties td ((c # i # issuers) ! k) time
      (if k = 0 then ku else keyCertSign) eku policy (count + of_nat (subca_count c k)) = (Inr (), trustLevel) \<and>
      (trustLevel = TrustAnchor \<longleftrightarrow> k = length (i # issuers))"
  let ?Q = "\<lambda>k. links td time eku (if k = 0 then stapled else None)
      (rev (take (Suc k) (c # i # issuers)) @ children) ((i # issuers) ! k)"
  have "?P k" if "k < length (c # i # issuers)" for k
  proof (cases k)
    case 0
    then show ?thesis using issued.hyps(1,2) by (auto simp: subca_count_def)
  next
    case (Suc j)
    then have "j < length (i # issuers)" using that by simp
    then obtain tl where "CheckIssuerIndependentProperties td ((i # issuers) ! j) time
        (if j = 0 then keyCertSign else keyCertSign) eku policy (count' + of_nat (subca_count i j)) = (Inr (), tl)"
      "tl = TrustAnchor \<longleftrightarrow> j = length issuers"
      using issued.IH by blast
    then show ?thesis unfolding Suc count by simp
  qed
  moreover have "?Q k" if "k < length (i # issuers)" for k
  proof (cases k)
    case 0
    then show ?thesis using link by simp
  next
    case (Suc j)
    then have "j < length issuers" using that by simp
    then have "links td time eku (if j = 0 then None else None)
        (rev (take (Suc j) (i # issuers)) @ c # children) (issuers ! j)"
      using issued.IH by blast
    then show ?thesis unfolding Suc by simp
  qed
  moreover have "\<exists>ev. IsChainValid td ev (map bc_der (rev (c # i # issuers) @ children)) time = Inr ()"
    "length children + length (c # i # issuers) \<le> NonOwningDERArray_MAX_LENGTH"
    using issued.IH by auto
  ultimately show ?case by blast
qed

section \<open>The search finds every path\<close>

text \<open>For a \<open>TrustDomain\<close> whose answers do not depend on the calls made before, and whose
  \<open>FindIssuer\<close> succeeds, the search misses no path: a candidate that fails never keeps a
  later one from being tried.\<close>

definition stateless :: "TrustDomain \<Rightarrow> bool" where
  "stateless td \<longleftrightarrow>
     (\<forall>ev ev' ders time. IsChainValid td ev ders time = IsChainValid td ev' ders time) \<and>
     (\<forall>ev ev' e cid time d st aia.
        CheckRevocation td ev e cid time d st aia = CheckRevocation td ev' e cid time d st aia) \<and>
     (\<forall>name time. snd (FindIssuer td name time) = Inr () \<and>
        (\<forall>(der, nc) \<in> set (fst (FindIssuer td name time)). wf_Input der))"

text \<open>\<open>searching p s\<close>: no success has been recorded yet and the cached digest is right.\<close>

definition searching :: "PathBuildingStep \<Rightarrow> step_state \<Rightarrow> bool" where
  "searching p s \<longleftrightarrow> CheckResult s \<noteq> Inr () \<and>
     (\<forall>sig. subjectSignature s = Some sig \<longrightarrow>
        DigestSignedData (trustDomain p) (signedData (step_subject p)) = Inr sig)"

text \<open>A call of \<open>Check\<close> during the search ends it with a success or lets it go on.\<close>

definition goes_on :: "PathBuildingStep \<Rightarrow> bool res \<times> step_state \<times> td_event list \<Rightarrow> bool" where
  "goes_on p x \<longleftrightarrow> (case x of (r, s, ev) \<Rightarrow>
     (r = Inr True \<and> searching p s) \<or> (r = Inr False \<and> CheckResult s = Inr ()))"

lemma RecordResult_goes_on:
  assumes "searching p s" and "RecordResult s rv = (r, s')"
  shows "goes_on p (r, s', ev)" "rv = Inr () \<Longrightarrow> r = Inr False"
proof -
  show "goes_on p (r, s', ev)"
    using assms by (auto simp: searching_def goes_on_def RecordResult_def CheckResult_def Let_def split: if_splits)
  show "r = Inr False" if "rv = Inr ()"
    using assms that by (auto simp: searching_def RecordResult_def CheckResult_def Let_def split: if_splits)
qed

lemma RecordResult_case:
  "searching p s \<Longrightarrow> goes_on p (let (r, s) = RecordResult s rv in (r, s, ev))"
  using RecordResult_goes_on(1) by (cases "RecordResult s rv") auto

text \<open>Nothing but the validity period and the digest of the subject can end the search with
  an error of its own.\<close>

definition validity_known :: "PathBuildingStep \<Rightarrow> bool" where
  "validity_known p \<longleftrightarrow> deferredSubjectError p = Inl ERROR_EXPIRED_CERTIFICATE \<or>
     (\<exists>nb na. ParseValidity (validity (step_subject p)) = Inr (nb, na))"

lemma CheckSubjectRevocation_goes_on:
  assumes "searching p s" and "validity_known p"
  shows "goes_on p (CheckSubjectRevocation p i s ev)"
  using assms(2) RecordResult_case [OF assms(1)] unfolding validity_known_def
  by (auto simp: CheckSubjectRevocation_def Let_def split: sum.splits prod.splits)

lemma CheckIssuedBy_goes_on:
  assumes s: "searching p s" and v: "validity_known p"
    and d: "DigestSignedData (trustDomain p) (signedData (step_subject p)) = Inr (alg, sd)"
  shows "goes_on p (CheckIssuedBy p i s ev)"
proof -
  have g: "GetSubjectSignature p s = Inr (alg, sd)"
    using s d by (auto simp: GetSubjectSignature_def searching_def split: option.splits)
  have s': "searching p (s\<lparr>subjectSignature := Some (alg, sd)\<rparr>)"
    using s d by (auto simp: searching_def CheckResult_def)
  show ?thesis
    using RecordResult_case [OF s'] CheckSubjectRevocation_goes_on [OF s' v]
    by (auto simp: CheckIssuedBy_def g Let_def split: sum.splits)
qed

lemma Check_goes_on:
  assumes "searching p s" and "validity_known p"
    and "DigestSignedData (trustDomain p) (signedData (step_subject p)) = Inr (alg, sd)"
  shows "goes_on p (Check p der nc s ev)"
proof -
  have "goes_on p (Inr True, s, ev)" using assms(1) by (simp add: goes_on_def)
  then show ?thesis
    using RecordResult_case [OF assms(1)] CheckIssuedBy_goes_on [OF assms]
    by (auto simp: Check.simps split: candidate.splits sum.splits prod.splits)
qed

lemma CheckIssuedBy_accepts:
  assumes s: "searching p s" and acc: "accepts_issuer p i" and td: "stateless (trustDomain p)"
  shows "\<exists>s' ev'. CheckIssuedBy p i s ev = (Inr False, s', ev')"
proof -
  have ver: "VerifySignedData (trustDomain p) (signedData (step_subject p)) (subjectPublicKeyInfo i) = Inr ()"
    and rev: "deferredSubjectError p \<noteq> Inl ERROR_EXPIRED_CERTIFICATE \<longrightarrow> not_revoked p i"
    using acc by (auto simp: accepts_issuer_def)
  obtain alg sd where d: "DigestSignedData (trustDomain p) (signedData (step_subject p)) = Inr (alg, sd)"
    "VerifySignedDigest (trustDomain p) alg sd (subjectPublicKeyInfo i) = Inr ()"
    using ver by (auto simp: VerifySignedData_def bind_res_prod_Inr_iff)
  have g: "GetSubjectSignature p s = Inr (alg, sd)"
    using s d by (auto simp: GetSubjectSignature_def searching_def split: option.splits)
  let ?s = "s\<lparr>subjectSignature := Some (alg, sd)\<rparr>"
  have s': "searching p ?s" using s d by (auto simp: searching_def CheckResult_def)
  obtain s2 where r: "RecordResult ?s (Inr ()) = (Inr False, s2)"
    using RecordResult_goes_on(2) [OF s'] by (cases "RecordResult ?s (Inr ())") auto
  have "\<exists>s' ev'. CheckSubjectRevocation p i ?s ev = (Inr False, s', ev')"
  proof (cases "deferredSubjectError p = Inl ERROR_EXPIRED_CERTIFICATE")
    case True
    then show ?thesis using r by (simp add: CheckSubjectRevocation_def)
  next
    case False
    with rev have nr: "not_revoked p i" by blast
    then obtain ev0 nb na where v: "ParseValidity (validity (step_subject p)) = Inr (nb, na)"
      and c0: "CheckRevocation (trustDomain p) ev0 (endEntityOrCA (step_subject p))
          \<lparr>issuer = bc_issuer (step_subject p), issuerSubjectPublicKeyInfo = subjectPublicKeyInfo i,
           serialNumber = bc_serialNumber (step_subject p)\<rparr> (step_time p) (Duration_between na nb)
          (stapledOCSPResponse p) (GetAuthorityInfoAccess (step_subject p)) = Inr ()"
      unfolding not_revoked_def by blast
    have c: "CheckRevocation (trustDomain p) ev (endEntityOrCA (step_subject p))
          \<lparr>issuer = bc_issuer (step_subject p), issuerSubjectPublicKeyInfo = subjectPublicKeyInfo i,
           serialNumber = bc_serialNumber (step_subject p)\<rparr> (step_time p) (Duration_between na nb)
          (stapledOCSPResponse p) (GetAuthorityInfoAccess (step_subject p)) = Inr ()"
      using td c0 unfolding stateless_def by metis
    have "fst (NoteEmbeddedSCTs (step_subject p) ev1) = Inr ()" for ev1
      using nr NoteEmbeddedSCTs_status unfolding not_revoked_def by metis
    then have n: "\<exists>ev2. NoteEmbeddedSCTs (step_subject p) ev1 = (Inr (), ev2)" for ev1
      by (metis prod.collapse)
    obtain ev2 where "NoteEmbeddedSCTs (step_subject p)
        (ev @ [CheckRevocation_called (endEntityOrCA (step_subject p))
          \<lparr>issuer = bc_issuer (step_subject p), issuerSubjectPublicKeyInfo = subjectPublicKeyInfo i,
           serialNumber = bc_serialNumber (step_subject p)\<rparr> (step_time p) (Duration_between na nb)
          (stapledOCSPResponse p) (GetAuthorityInfoAccess (step_subject p))]) = (Inr (), ev2)"
      using n by blast
    then show ?thesis using False v c r by (simp add: CheckSubjectRevocation_def Let_def)
  qed
  then show ?thesis using g d(2) by (simp add: CheckIssuedBy_def Let_def)
qed

lemma FindIssuer_loop_succeeds:
  assumes good: "(der, nc) \<in> set cs"
      "\<And>s ev. searching p s \<Longrightarrow> \<exists>s' ev'. Check p der nc s ev = (Inr False, s', ev')"
    and v: "validity_known p"
    and d: "DigestSignedData (trustDomain p) (signedData (step_subject p)) = Inr (alg, sd)"
    and s: "searching p s"
  shows "\<exists>s' ev'. FindIssuer_loop p cs rv s ev = (Inr (), s', ev') \<and> CheckResult s' = Inr ()"
  using good(1) s
proof (induction cs arbitrary: s ev)
  case (Cons x cs)
  obtain der1 nc1 where x: "x = (der1, nc1)" by (cases x)
  obtain r s1 ev1 where c: "Check p der1 nc1 s ev = (r, s1, ev1)"
    by (cases "Check p der1 nc1 s ev") auto
  have g: "goes_on p (r, s1, ev1)" using Check_goes_on [OF Cons.prems(2) v d] c by metis
  show ?case
  proof (cases "r = Inr False")
    case True
    then show ?thesis using g c x by (simp add: FindIssuer_loop.simps goes_on_def)
  next
    case False
    then have r: "r = Inr True" "searching p s1" using g by (auto simp: goes_on_def)
    have "(der1, nc1) \<noteq> (der, nc)" using good(2) [OF Cons.prems(2), of ev] c False by auto
    then have "(der, nc) \<in> set cs" using Cons.prems(1) x by auto
    from Cons.IH [OF this r(2), of ev1] show ?thesis using r c x by (simp add: FindIssuer_loop.simps)
  qed
qed simp

lemma AcceptTrustAnchor_succeeds:
  assumes "length chain \<le> NonOwningDERArray_MAX_LENGTH" and "\<forall>c \<in> set chain. wf_Input (bc_der c)"
    and "IsChainValid td ev (map bc_der chain) time = Inr ()"
  shows "fst (AcceptTrustAnchor td chain time ev) = Inr ()"
proof -
  have "\<exists>b. fold_res DERArray_Append [] (map bc_der chain) = Inr b"
    using der_array.fold_append_total [of "[]" "map bc_der chain"] assms(1,2)
    by (simp add: DERArray_GetLength_def)
  then obtain b where f: "fold_res DERArray_Append [] (map bc_der chain) = Inr b" ..
  moreover have "b = map bc_der chain" using fold_DERArray_Append [OF f] by simp
  ultimately show ?thesis using assms(3) by (simp add: AcceptTrustAnchor_def)
qed

lemma ParseValidity_checked:
  assumes "CheckIssuerIndependentProperties td c time ku eku policy count = (Inr (), trustLevel)"
  obtains nb na where "ParseValidity (validity c) = Inr (nb, na)"
  using assms that by (auto simp: CheckIssuerIndependentProperties_def split: prod.splits sum.splits)

text \<open>A step whose subject has an issuer from which the search succeeds succeeds itself.\<close>

lemma accepts_issuer_digest:
  "accepts_issuer p i \<Longrightarrow>
   \<exists>alg sd. DigestSignedData (trustDomain p) (signedData (step_subject p)) = Inr (alg, sd)"
  by (auto simp: accepts_issuer_def VerifySignedData_def bind_res_prod_Inr_iff)

lemma FindIssuer_loop_finds:
  assumes acc: "accepts_issuer p i" and td: "stateless (trustDomain p)" and v: "validity_known p"
    and found: "\<And>ev. fst (BuildForward (trustDomain p) i (step_subject p # step_children p) (step_time p)
      keyCertSign (requiredEKUIfPresent p) (requiredPolicy p) None (subCACount p) ev) = Inr ()"
  shows "\<exists>s' ev'. FindIssuer_loop p (fst (FindIssuer (trustDomain p) (bc_issuer (step_subject p)) (step_time p)))
      rv initial_step_state ev = (Inr (), s', ev') \<and> CheckResult s' = Inr ()"
proof -
  obtain der nc where cand:
    "(der, nc) \<in> set (fst (FindIssuer (trustDomain p) (bc_issuer (step_subject p)) (step_time p)))"
    "CheckCandidate p der nc = Candidate_Accepted i"
    using acc by (auto simp: accepts_issuer_def)
  obtain alg sd where d: "DigestSignedData (trustDomain p) (signedData (step_subject p)) = Inr (alg, sd)"
    using accepts_issuer_digest [OF acc] by blast
  have check: "\<exists>s' ev'. Check p der nc s ev = (Inr False, s', ev')" if s: "searching p s" for s ev
  proof -
    obtain ev1 where b: "BuildForward (trustDomain p) i (step_subject p # step_children p) (step_time p)
        keyCertSign (requiredEKUIfPresent p) (requiredPolicy p) None (subCACount p) ev = (Inr (), ev1)"
      using found [of ev] by (metis prod.collapse)
    obtain s' ev' where "CheckIssuedBy p i s ev1 = (Inr False, s', ev')"
      using CheckIssuedBy_accepts [OF s acc td] by blast
    then show ?thesis using b cand(2) by (simp add: Check.simps)
  qed
  have "searching p initial_step_state"
    by (simp add: searching_def initial_step_state_def CheckResult_def)
  from FindIssuer_loop_succeeds [OF cand(1) check v d this] show ?thesis .
qed

text \<open>The certificates of a path that the search follows are as long as an \<open>Input\<close> can be.\<close>

lemma accepts_issuer_wf:
  assumes "accepts_issuer p i" and "stateless (trustDomain p)"
  shows "wf_Input (bc_der i)"
proof -
  obtain der nc where cand:
    "(der, nc) \<in> set (fst (FindIssuer (trustDomain p) (bc_issuer (step_subject p)) (step_time p)))"
    "CheckCandidate p der nc = Candidate_Accepted i"
    using assms(1) by (auto simp: accepts_issuer_def)
  have "bc_der i = der"
    using cand(2) by (auto simp: CheckCandidate_def split: sum.splits if_splits dest!: BackCert_Init_role)
  then show ?thesis using cand(1) assms(2) unfolding stateless_def by blast
qed

text \<open>\<open>BuildForward\<close> for a subject that is not a trust anchor, with the step by name.\<close>

lemma BuildForward_step:
  assumes "CheckIssuerIndependentProperties td c time ku eku policy count = (rv, trustLevel)"
    and "DeferError c rv trustLevel = Inr d" and "trustLevel \<noteq> TrustAnchor"
    and "NextSubCACount c count = Some count'"
  shows "BuildForward td c children time ku eku policy stapled count ev =
    (case FindIssuer_loop (path_step td time eku policy c children stapled count' d)
        (fst (FindIssuer td (bc_issuer c) time)) (snd (FindIssuer td (bc_issuer c) time)) initial_step_state ev of
       (Inl e, s, ev) \<Rightarrow> (Inl e, ev)
     | (Inr _, s, ev) \<Rightarrow> (case CheckResult s of Inl e \<Rightarrow> (Inl e, ev) | Inr _ \<Rightarrow> (d, ev)))"
  using assms by (simp add: BuildForward.simps path_step_def)

lemma search_complete:
  "trusted_path td time eku policy c children ku stapled count issuers \<Longrightarrow> stateless td \<Longrightarrow>
   (\<forall>x \<in> set (c # children). wf_Input (bc_der x)) \<Longrightarrow>
   fst (BuildForward td c children time ku eku policy stapled count ev) = Inr ()"
proof (induction arbitrary: ev rule: trusted_path.induct)
  case (anchor c ku count children ev0 stapled)
  have "IsChainValid td ev (map bc_der (c # children)) time = Inr ()"
    using anchor.hyps(3) anchor.prems(1) unfolding stateless_def by metis
  then show ?case
    using AcceptTrustAnchor_succeeds [OF anchor.hyps(2) anchor.prems(2)] anchor.hyps(1)
    by (simp add: BuildForward.simps DeferError_def)
next
  case (issued c ku count trustLevel count' children stapled i issuers)
  let ?p = "path_step td time eku policy c children stapled count' (Inr ())"
  have v: "validity_known ?p"
    using ParseValidity_checked [OF issued.hyps(1)] by (metis path_step_simps(2) validity_known_def)
  have "wf_Input (bc_der i)" using accepts_issuer_wf [OF issued.hyps(4)] issued.prems(1) by simp
  then have wf: "\<forall>x \<in> set (i # c # children). wf_Input (bc_der x)" using issued.prems(2) by auto
  obtain s' ev' where "FindIssuer_loop ?p (fst (FindIssuer td (bc_issuer c) time))
      (snd (FindIssuer td (bc_issuer c) time)) initial_step_state ev = (Inr (), s', ev')"
    "CheckResult s' = Inr ()"
    using FindIssuer_loop_finds [OF issued.hyps(4) _ v, of "snd (FindIssuer td (bc_issuer c) time)" ev]
      issued.IH [OF issued.prems(1) wf] issued.prems(1) by auto
  then show ?case
    by (simp add: BuildForward_step [OF issued.hyps(1) _ issued.hyps(2,3)] DeferError_def)
qed

section \<open>The search on the sample certificates\<close>

lemma sample_candidate:
  "CheckCandidate (path_step td sample_time id_kp_serverAuth any_policy leaf_cert [] None n d)
     root_der None = Candidate_Accepted root_cert"
proof -
  have "InputsAreEqual (subject root_cert) (bc_issuer leaf_cert)"
    by (simp add: root_cert_def leaf_cert_def InputsAreEqual_def)
  moreover have "\<not> InputsAreEqual (subject root_cert) (subject leaf_cert)"
    by (simp add: root_cert_def leaf_cert_def InputsAreEqual_def GetLength_def)
  ultimately show ?thesis
    by (simp add: CheckCandidate_def path_step_def root_cert_init CheckPotentialIssuer_def Let_def
        same_key_and_name_def CheckOptionalNameConstraints_def sample_fields CheckTLSFeatures_def fail_if_def)
qed

lemma sample_chain:
  "\<exists>ev. BuildCertChain sample_domain leaf_der sample_time MustBeEndEntity digitalSignature
     id_kp_serverAuth any_policy None [] = (Inr (), ev)"
proof -
  let ?p = "path_step sample_domain sample_time id_kp_serverAuth any_policy leaf_cert [] None 0 (Inr ())"
  have der: "length (bc_der root_cert) \<le> MAX_INPUT" "length (bc_der leaf_cert) \<le> MAX_INPUT"
    by (simp_all add: root_cert_def leaf_cert_def root_der_def leaf_der_def MAX_INPUT_def)
  have root: "\<exists>ev. BuildForward sample_domain root_cert [leaf_cert] sample_time keyCertSign id_kp_serverAuth
      any_policy None 0 [] = (Inr (), ev)"
    using der by (simp add: BuildForward.simps root_cert_properties DeferError_def AcceptTrustAnchor_def
        DERArray_Append_def NonOwningDERArray_MAX_LENGTH_def)
  have issued: "\<exists>s ev'. CheckIssuedBy ?p root_cert initial_step_state ev = (Inr False, s, ev') \<and>
      CheckResult s = Inr ()" for ev
    by (simp add: CheckIssuedBy_def GetSubjectSignature_def initial_step_state_def path_step_def
        leaf_cert_digest VerifySignedDigest_def CheckSubjectRevocation_def leaf_cert_validity Let_def
        NoteEmbeddedSCTs_def sample_fields RecordResult_def issuer_error_def CheckResult_def)
  have "\<exists>s ev. FindIssuer_loop ?p [(root_der, None)] (Inr ()) initial_step_state [] = (Inr (), s, ev) \<and>
      CheckResult s = Inr ()"
  proof -
    obtain ev where b: "BuildForward sample_domain root_cert [leaf_cert] sample_time keyCertSign
        id_kp_serverAuth any_policy None 0 [] = (Inr (), ev)" using root by blast
    obtain s ev' where i: "CheckIssuedBy ?p root_cert initial_step_state ev = (Inr False, s, ev')"
      "CheckResult s = Inr ()" using issued by blast
    have "Check ?p root_der None initial_step_state [] = (Inr False, s, ev')"
      using b i(1) by (simp add: Check.simps sample_candidate)
    then show ?thesis using i(2) by (simp add: FindIssuer_loop.simps)
  qed
  then show ?thesis
    by (auto simp: BuildCertChain_def leaf_cert_init BuildForward.simps [of _ leaf_cert]
        leaf_cert_properties DeferError_def NextSubCACount_def sample_fields path_step_def)
qed

section \<open>Properties\<close>

text \<open>C4: Soundness of path building. When \<open>BuildCertChain\<close> succeeds there is a trusted path from the given
  certificate: a chain of at most eight certificates that ends in a trust anchor.
  Every certificate in it passed all the checks of \<open>CheckIssuerIndependentProperties\<close> for
  its place (with \<open>keyCertSign\<close> required above the first, and the number of CA certificates
  below it), and only the last one is a trust anchor. Every certificate above the first
  was offered by \<open>FindIssuer\<close> for the issuer name below it and parsed from the bytes that were offered;
  it is a CA certificate whose subject is that name, whose key verifies the
  signature below it, that has not the key and name of one below it, whose name
  constraints, and those that the application imposed with the offer, hold for all certificates below it, and
  that issued a certificate which is
  not revoked. The application accepted exactly this chain, and has been asked about no other since.\<close>

theorem BuildCertChain_sound:
  assumes "BuildCertChain td der time e ku eku policy stapled ev = (Inr (), ev')"
  shows "\<exists>c issuers. BackCert_Init der e = Inr c \<and>
    trusted_path td time eku policy c [] ku stapled 0 issuers \<and>
    length (c # issuers) \<le> 8 \<and>
    (\<forall>k \<le> length issuers. \<exists>trustLevel.
       CheckIssuerIndependentProperties td ((c # issuers) ! k) time (if k = 0 then ku else keyCertSign)
         eku policy (of_nat (subca_count c k)) = (Inr (), trustLevel) \<and>
       (trustLevel = TrustAnchor \<longleftrightarrow> k = length issuers)) \<and>
    (\<forall>k < length issuers.
       links td time eku (if k = 0 then stapled else None) (rev (take (Suc k) (c # issuers))) (issuers ! k)) \<and>
    accepted_last td time (map bc_der (rev (c # issuers))) ev'"
proof -
  obtain c issuers where c: "BackCert_Init der e = Inr c"
    and path: "trusted_path td time eku policy c [] ku stapled 0 issuers"
    and chain: "accepted_last td time (map bc_der (rev (c # issuers))) ev'"
    using BuildCertChain_found [OF assms] by blast
  from trusted_path_list [OF path] show ?thesis
    using c chain path unfolding NonOwningDERArray_MAX_LENGTH_def
    by (intro exI [of _ c] exI [of _ issuers]) (simp add: less_Suc_eq_le)
qed

theorem BuildCertChain_sound_witness:
  "\<exists>ev' c issuers. BuildCertChain sample_domain leaf_der sample_time MustBeEndEntity digitalSignature
      id_kp_serverAuth any_policy None [] = (Inr (), ev') \<and>
    BackCert_Init leaf_der MustBeEndEntity = Inr c \<and>
    trusted_path sample_domain sample_time id_kp_serverAuth any_policy c [] digitalSignature None 0 issuers"
proof -
  obtain ev' where "BuildCertChain sample_domain leaf_der sample_time MustBeEndEntity digitalSignature
      id_kp_serverAuth any_policy None [] = (Inr (), ev')"
    using sample_chain by blast
  with BuildCertChain_sound [OF this] show ?thesis by blast
qed

text \<open>C5: Path building implements its specification. For an application whose answers do not
  depend on the calls made before (and that offers all its candidates), \<open>BuildCertChain\<close>
  succeeds exactly when there is a trusted path from the certificate: what it finds is a
  path, and neither a candidate that fails, in whatever way, nor the order of the
  candidates can hide one. The limit on the number of CA certificates is part of what a
  path is. (The browser's trust domain remembers answers about revocation, so for it this describes a search
  in which the memory does not change.)\<close>

theorem BuildCertChain_complete:
  assumes "stateless td" and "wf_Input der"
  shows "(\<exists>ev'. BuildCertChain td der time e ku eku policy stapled ev = (Inr (), ev')) \<longleftrightarrow>
    (\<exists>c issuers. BackCert_Init der e = Inr c \<and>
       trusted_path td time eku policy c [] ku stapled 0 issuers)"
proof
  assume "\<exists>ev'. BuildCertChain td der time e ku eku policy stapled ev = (Inr (), ev')"
  then obtain c where "BackCert_Init der e = Inr c"
    "fst (BuildForward td c [] time ku eku policy stapled 0 ev) = Inr ()"
    unfolding BuildCertChain_def by (auto split: sum.splits)
  then show "\<exists>c issuers. BackCert_Init der e = Inr c \<and>
      trusted_path td time eku policy c [] ku stapled 0 issuers"
    using search_sound(1) by blast
next
  assume "\<exists>c issuers. BackCert_Init der e = Inr c \<and>
      trusted_path td time eku policy c [] ku stapled 0 issuers"
  then obtain c issuers where c: "BackCert_Init der e = Inr c"
    and path: "trusted_path td time eku policy c [] ku stapled 0 issuers" by blast
  have "\<forall>x \<in> set [c]. wf_Input (bc_der x)" using BackCert_Init_role [OF c] assms(2) by simp
  from search_complete [OF path assms(1) this, of ev]
  show "\<exists>ev'. BuildCertChain td der time e ku eku policy stapled ev = (Inr (), ev')"
    unfolding BuildCertChain_def c by (metis prod.collapse sum.case(2))
qed

theorem BuildCertChain_complete_witness:
  "\<exists>c issuers. BackCert_Init leaf_der MustBeEndEntity = Inr c \<and>
     trusted_path sample_domain sample_time id_kp_serverAuth any_policy c [] digitalSignature None 0 issuers"
proof -
  have wf: "wf_Input root_der" "wf_Input leaf_der"
    by (simp_all add: root_der_def leaf_der_def wf_Input_def MAX_INPUT_def)
  then have "stateless sample_domain" by (simp add: stateless_def)
  from BuildCertChain_complete [OF this wf(2)] sample_chain show ?thesis by blast
qed

end
