(* ===== verification/PkixBudget.thy ===== *)
theory PkixBudget
  imports PkixPath
begin

text \<open>
  How often path building asks the application to judge: a bound on the number of the recorded calls
  (\<open>IsChainValid\<close>, \<open>CheckRevocation\<close> and \<open>NoteAuxiliaryExtension\<close>), in terms of the number of candidates that the
  application offers for each name.
\<close>

section \<open>The budget\<close>

text \<open>\<open>budget m d\<close>: at most \<open>m\<close> candidates for each name and at most \<open>d\<close> levels of issuers. A trust
  anchor costs one call; each candidate costs its own search and at most two further calls.\<close>

fun budget :: "nat \<Rightarrow> nat \<Rightarrow> nat" where
  "budget m 0 = 1"
| "budget m (Suc d) = max 1 (m * (budget m d + 2))"

lemma budget_pos: "1 \<le> budget m d"
  by (cases d) simp_all

lemma budget_mono: "d \<le> e \<Longrightarrow> budget m d \<le> budget m e"
proof -
  have step: "budget m d \<le> budget m (Suc d)" for d
  proof (cases m)
    case 0
    then show ?thesis by (cases d) simp_all
  next
    case (Suc k)
    have "budget m d \<le> 1 * (budget m d + 2)" by simp
    also have "\<dots> \<le> m * (budget m d + 2)" unfolding Suc by (intro mult_right_mono) simp_all
    finally show ?thesis by simp
  qed
  show "d \<le> e \<Longrightarrow> budget m d \<le> budget m e" by (rule lift_Suc_mono_le [where f = "budget m", OF step])
qed

lemma budget_candidates: "c \<le> m \<Longrightarrow> c * (budget m d + 2) \<le> budget m (Suc d)"
  using mult_right_mono [of c m "budget m d + 2"] by (simp add: le_max_iff_disj)

text \<open>The budget is a polynomial in \<open>m\<close>, of the number of levels as its degree.\<close>

lemma budget_power: "1 \<le> m \<Longrightarrow> budget m d \<le> (2 * d + 1) * m ^ d"
proof (induction d)
  case (Suc d)
  have "budget m (Suc d) = m * (budget m d + 2)" using Suc.prems by simp
  also have "\<dots> \<le> m * ((2 * d + 1) * m ^ d + 2 * m ^ d)"
    using Suc one_le_power [of m d] by (intro mult_left_mono add_mono) simp_all
  also have "\<dots> = (2 * Suc d + 1) * m ^ Suc d" by (simp add: algebra_simps)
  finally show ?case .
qed simp

definition offers_at_most :: "nat \<Rightarrow> TrustDomain \<Rightarrow> bool" where
  "offers_at_most m td \<longleftrightarrow> (\<forall>name time. length (fst (FindIssuer td name time)) \<le> m)"

section \<open>The work of the search\<close>

lemma CheckIssuedBy_work:
  "CheckIssuedBy p i s ev = (r, s', ev') \<Longrightarrow> length ev' \<le> length ev + 2"
proof -
  have note_scts: "length (snd (NoteEmbeddedSCTs c ev)) \<le> length ev + 1" for c ev
    by (auto simp: NoteEmbeddedSCTs_def split: option.split sum.split)
  have rev: "length (snd (snd (CheckSubjectRevocation p i s ev))) \<le> length ev + 2" for s
  proof -
    have "length (snd (NoteEmbeddedSCTs (step_subject p) (ev @ [x]))) \<le> length ev + 2" for x
      using note_scts [of "step_subject p" "ev @ [x]"] by simp
    then show ?thesis unfolding CheckSubjectRevocation_def Let_def
      by (auto split: sum.split prod.split) (metis snd_conv)+
  qed
  assume "CheckIssuedBy p i s ev = (r, s', ev')"
  then show ?thesis using rev unfolding CheckIssuedBy_def Let_def
    by (auto split: sum.splits prod.splits) (metis snd_conv)
qed

lemma search_work:
  "BuildForward td subj children time ku eku policy stapled count ev = (r, ev') \<Longrightarrow> offers_at_most m td \<Longrightarrow>
     length ev' \<le> length ev + budget m (search_depth (endEntityOrCA subj) count)"
  "FindIssuer_loop p cs rv s ev = (r, s', ev') \<Longrightarrow> offers_at_most m (trustDomain p) \<Longrightarrow>
     length ev' \<le> length ev + length cs * (budget m (6 - unat (subCACount p)) + 2)"
  "Check p der nc s ev = (k, s', ev') \<Longrightarrow> offers_at_most m (trustDomain p) \<Longrightarrow>
     length ev' \<le> length ev + (budget m (6 - unat (subCACount p)) + 2)"
proof (induction td subj children time ku eku policy stapled count ev and p cs rv s ev and p der nc s ev
    arbitrary: r ev' and r s' ev' and k s' ev'
    rule: BuildForward_FindIssuer_loop_Check.induct)
  case (1 td subj children time ku eku policy stapled count ev)
  obtain rv tl where c: "CheckIssuerIndependentProperties td subj time ku eku policy count = (rv, tl)"
    by fastforce
  note bf = BuildForward.simps [of td subj children time ku eku policy stapled count ev]
  let ?B = "budget m (search_depth (endEntityOrCA subj) count)"
  show ?case
  proof (cases "DeferError subj rv tl")
    case (Inl e)
    then show ?thesis using "1.prems" unfolding bf c by auto
  next
    case d: (Inr deferred)
    show ?thesis
    proof (cases "tl = TrustAnchor \<or> NextSubCACount subj count = None")
      case True
      then have "length ev' \<le> length ev + 1"
        using "1.prems" d unfolding bf c by (auto simp: AcceptTrustAnchor_def split: sum.splits if_splits)
      then show ?thesis using budget_pos [of m "search_depth (endEntityOrCA subj) count"] by linarith
    next
      case False
      then obtain n where n: "NextSubCACount subj count = Some n" by blast
      define p where "p = path_step td time eku policy subj children stapled n deferred"
      let ?cs = "fst (FindIssuer td (bc_issuer subj) time)"
      obtain r1 s1 ev1 where l:
        "FindIssuer_loop p ?cs (snd (FindIssuer td (bc_issuer subj) time)) initial_step_state ev = (r1, s1, ev1)"
        by (cases "FindIssuer_loop p ?cs (snd (FindIssuer td (bc_issuer subj) time)) initial_step_state ev") auto
      have "ev' = ev1"
        using "1.prems" d False n l unfolding bf c p_def path_step_def by (auto split: sum.splits)
      have "length ev1 \<le> length ev + length ?cs * (budget m (6 - unat n) + 2)"
        using "1.IH" [OF c [symmetric] refl d _ n, of r1 s1 ev1] False "1.prems"(2) l
        unfolding p_def path_step_def by simp
      moreover have "length ?cs * (budget m (6 - unat n) + 2) \<le> budget m (Suc (6 - unat n))"
        using "1.prems"(2) by (intro budget_candidates) (simp add: offers_at_most_def)
      moreover have "budget m (Suc (6 - unat n)) \<le> ?B"
        using NextSubCACount_depth [OF n] by (intro budget_mono) simp
      ultimately show ?thesis unfolding \<open>ev' = ev1\<close> by linarith
    qed
  qed
next
  case (2 p rv s ev)
  then show ?case by (simp add: FindIssuer_loop.simps)
next
  case (3 p der nc cs rv s ev)
  obtain k s1 ev1 where c: "Check p der nc s ev = (k, s1, ev1)" by (cases "Check p der nc s ev") auto
  have 1: "length ev1 \<le> length ev + (budget m (6 - unat (subCACount p)) + 2)" using "3.IH"(1) [OF c "3.prems"(2)] .
  show ?case
  proof (cases "k = Inr True")
    case True
    then have "FindIssuer_loop p cs rv s1 ev1 = (r, s', ev')"
      using "3.prems" c by (simp add: FindIssuer_loop.simps)
    then have "length ev' \<le> length ev1 + length cs * (budget m (6 - unat (subCACount p)) + 2)"
      using "3.IH"(2) [OF c [symmetric] True refl] "3.prems"(2) by simp
    then show ?thesis using 1 by simp
  next
    case False
    then have "ev' = ev1" using "3.prems" c by (auto simp: FindIssuer_loop.simps split: sum.splits if_splits)
    then show ?thesis using 1 by simp
  qed
next
  case (4 p der nc s ev)
  show ?case
  proof (cases "CheckCandidate p der nc")
    case (Candidate_Accepted i)
    obtain r1 ev1 where b: "BuildForward (trustDomain p) i (step_subject p # step_children p)
        (step_time p) keyCertSign (requiredEKUIfPresent p) (requiredPolicy p) None (subCACount p) ev = (r1, ev1)"
      by fastforce
    have 1: "length ev1 \<le> length ev + budget m (6 - unat (subCACount p))"
      using "4.IH" [OF Candidate_Accepted b "4.prems"(2)] CheckCandidate_CA [OF Candidate_Accepted]
      by (simp add: search_depth_def)
    show ?thesis
    proof (cases r1)
      case (Inl e)
      then show ?thesis using "4.prems"(1) Candidate_Accepted b 1 by (auto simp: Check.simps Let_def split: prod.splits)
    next
      case (Inr u)
      then have "CheckIssuedBy p i s ev1 = (k, s', ev')"
        using "4.prems" Candidate_Accepted b by (simp add: Check.simps)
      from CheckIssuedBy_work [OF this] show ?thesis using 1 by simp
    qed
  qed (use "4.prems" in \<open>auto simp: Check.simps Let_def split: prod.splits\<close>)
qed

section \<open>The property\<close>

text \<open>C20: The application is asked to judge a bounded number of times. If it offers at most \<open>m\<close> candidates for each
  name, \<open>BuildCertChain\<close> adds at most \<open>budget m 7\<close> calls of \<open>IsChainValid\<close>, \<open>CheckRevocation\<close> and
  \<open>NoteAuxiliaryExtension\<close> for an end entity (\<open>budget m 6\<close> for a CA), whatever the certificates say. For \<open>m\<close> at least
  one this is at most \<open>15 * m ^ 7\<close> (\<open>13 * m ^ 6\<close>): a number that grows as the seventh power of \<open>m\<close>, because at most six
  CA certificates may be between the end entity and its trust anchor. Only these three methods are counted; the
  calls that look up trust and issuers and that digest and verify are not recorded.\<close>

theorem BuildCertChain_work:
  assumes "offers_at_most m td"
  shows "length (snd (BuildCertChain td der time eeOrCA ku eku policy stapled ev)) \<le>
      length ev + budget m (if eeOrCA = MustBeEndEntity then 7 else 6) \<and>
    (1 \<le> m \<longrightarrow> length (snd (BuildCertChain td der time eeOrCA ku eku policy stapled ev)) \<le>
      length ev + (if eeOrCA = MustBeEndEntity then 15 * m ^ 7 else 13 * m ^ 6))"
proof -
  let ?calls = "length (snd (BuildCertChain td der time eeOrCA ku eku policy stapled ev))"
  have "?calls \<le> length ev + budget m (if eeOrCA = MustBeEndEntity then 7 else 6)"
  proof (cases "BackCert_Init der eeOrCA")
    case (Inr c)
    obtain r ev' where b: "BuildForward td c [] time ku eku policy stapled 0 ev = (r, ev')" by fastforce
    have "search_depth (endEntityOrCA c) 0 = (if eeOrCA = MustBeEndEntity then 7 else 6)"
      using BackCert_Init_role [OF Inr] by (simp add: search_depth_def)
    then show ?thesis using search_work(1) [OF b assms] by (simp add: BuildCertChain_def Inr b)
  qed (simp add: BuildCertChain_def)
  moreover have "budget m 7 \<le> 15 * m ^ 7" "budget m 6 \<le> 13 * m ^ 6" if "1 \<le> m"
    using budget_power [OF that, of 7] budget_power [OF that, of 6] by simp_all
  ultimately show ?thesis by (auto split: if_splits intro: order_trans)
qed

theorem BuildCertChain_work_witness:
  "length (snd (BuildCertChain sample_domain leaf_der sample_time MustBeEndEntity digitalSignature
     id_kp_serverAuth any_policy None [])) \<le> 15"
proof -
  have "offers_at_most 1 sample_domain" by (simp add: offers_at_most_def)
  from BuildCertChain_work [OF this, of leaf_der sample_time MustBeEndEntity digitalSignature
      id_kp_serverAuth any_policy None "[]"] show ?thesis by simp
qed

end
