(* ===== verification/PkixRanking.thy ===== *)
theory PkixRanking
  imports PkixPath
begin

text \<open>
  Which error \<open>BuildCertChain\<close> of theory \<open>PkixBuild\<close> reports when there are several: how
  \<open>RecordResult\<close> sums up the candidates of a step, when the deferred error of an end entity is
  reported, and what comes before it. The ranking is documented in
  \<^verbatim>\<open>security/pkix/include/pkix/pkix.h\<close>; two of the results show where the code departs from it.
\<close>

section \<open>The results of the candidates of a step\<close>

text \<open>The state after recording some results, as long as the search goes on.\<close>

definition record_results :: "unit res list \<Rightarrow> step_state" where
  "record_results rs = foldl (\<lambda>s r. snd (RecordResult s r)) initial_step_state rs"

definition common_error :: "unit res list \<Rightarrow> unit res" where
  "common_error rs =
     (if rs \<noteq> [] \<and> (\<forall>r \<in> set rs. r = hd rs) then hd rs else Inl ERROR_UNKNOWN_ISSUER)"

lemma record_results_snoc: "record_results (rs @ [r]) = snd (RecordResult (record_results rs) r)"
  by (simp add: record_results_def)

lemma common_error_snoc:
  "rs \<noteq> [] \<Longrightarrow> common_error (rs @ [r]) =
     (if r = common_error rs then r else Inl ERROR_UNKNOWN_ISSUER)"
  by (cases rs) (auto simp: common_error_def)

lemma record_results_errors:
  assumes "\<forall>r \<in> set rs. r \<noteq> Inr ()"
  shows "resultWasSet (record_results rs) = (rs \<noteq> []) \<and>
    (rs \<noteq> [] \<longrightarrow> step_result (record_results rs) = common_error (map issuer_error rs)) \<and>
    subjectSignature (record_results rs) = None"
  using assms
proof (induction rs rule: rev_induct)
  case Nil
  then show ?case by (simp add: record_results_def initial_step_state_def)
next
  case (snoc r rs)
  have no_success: "common_error (map issuer_error rs) \<noteq> Inr ()" if "rs \<noteq> []"
    using snoc.prems that by (cases rs) (auto simp: common_error_def)
  show ?case
  proof (cases "rs = []")
    case True
    then show ?thesis
      by (simp add: record_results_def RecordResult_def initial_step_state_def Let_def common_error_def)
  next
    case False
    then show ?thesis
      using snoc no_success
      by (auto simp: record_results_snoc RecordResult_def Let_def common_error_snoc)
  qed
qed

section \<open>The error of an end entity\<close>

lemma DeferError_end_entity:
  assumes "BackCert_Init der MustBeEndEntity = Inr c" and "trustLevel \<noteq> TrustAnchor"
  shows "DeferError c (Inl e) trustLevel = Inr (Inl e)" and "NextSubCACount c 0 = Some 0"
  using BackCert_Init_role [OF assms(1)] assms(2) by (simp_all add: DeferError_def NextSubCACount_def)

lemma FindIssuer_loop_ignored:
  "\<forall>(der, nc) \<in> set cs. CheckCandidate p der nc = Candidate_Ignored \<Longrightarrow>
   FindIssuer_loop p cs rv s ev = (rv, s, ev)"
  by (induction cs) (auto simp: FindIssuer_loop.simps Check.simps)

text \<open>The status of revocation, when the signature is right.\<close>

lemma CheckIssuedBy_revoked:
  assumes ver: "VerifySignedData (trustDomain p) (signedData (step_subject p)) (subjectPublicKeyInfo i) = Inr ()"
    and def: "deferredSubjectError p \<noteq> Inl ERROR_EXPIRED_CERTIFICATE"
    and val: "ParseValidity (validity (step_subject p)) = Inr (notBefore, notAfter)"
    and rev: "\<And>ev. CheckRevocation (trustDomain p) ev (endEntityOrCA (step_subject p))
          \<lparr>issuer = bc_issuer (step_subject p), issuerSubjectPublicKeyInfo = subjectPublicKeyInfo i,
           serialNumber = bc_serialNumber (step_subject p)\<rparr> (step_time p)
          (Duration_between notAfter notBefore) (stapledOCSPResponse p)
          (GetAuthorityInfoAccess (step_subject p)) = Inl e"
  shows "\<exists>s' ev'. CheckIssuedBy p i initial_step_state ev = (Inr True, s', ev') \<and>
    CheckResult s' = issuer_error (Inl e)"
proof -
  obtain alg sd where d: "DigestSignedData (trustDomain p) (signedData (step_subject p)) = Inr (alg, sd)"
    "VerifySignedDigest (trustDomain p) alg sd (subjectPublicKeyInfo i) = Inr ()"
    using ver by (auto simp: VerifySignedData_def bind_res_prod_Inr_iff)
  have "issuer_error (Inl e) \<noteq> Inr ()" by simp
  then show ?thesis
    using d def val rev
    by (simp add: CheckIssuedBy_def GetSubjectSignature_def initial_step_state_def CheckSubjectRevocation_def
        RecordResult_def Let_def CheckResult_def)
qed

section \<open>Properties\<close>

text \<open>How the errors of the candidates for an issuer are summed up. When none of them led to
  a trust anchor, the error of the step is the one they all share, with the errors about the
  certificate turned into those about its issuer; when they differ, or there is no candidate,
  it is \<open>ERROR_UNKNOWN_ISSUER\<close>. The search goes on after each of them, and the first success
  ends it whatever was recorded before.\<close>

lemma RecordResult_common_error:
  assumes "\<forall>r \<in> set rs. r \<noteq> Inr ()"
  shows "CheckResult (record_results rs) = common_error (map issuer_error rs) \<and>
    (\<forall>e. fst (RecordResult (record_results rs) (Inl e)) = Inr True) \<and>
    fst (RecordResult (record_results rs) (Inr ())) = Inr False \<and>
    CheckResult (record_results (rs @ [Inr ()])) = Inr ()"
proof -
  note s = record_results_errors [OF assms]
  have "common_error (map issuer_error rs) \<noteq> Inr ()"
    using assms by (cases rs) (auto simp: common_error_def)
  then show ?thesis
    using s unfolding record_results_snoc CheckResult_def RecordResult_def Let_def
    by (cases "rs = []") (simp_all add: common_error_def [of "[]"])
qed

text \<open>An end entity that fails a check of its own is reported with the error of that check
  when everything else is right: when it has an accepted issuer with a trusted path,
  that error is returned, for all the candidates that may fail before. Without the error the
  same path would have led to a success, so the error is the only thing that is wrong.\<close>

lemma BuildCertChain_end_entity_error:
  assumes c: "BackCert_Init der MustBeEndEntity = Inr c"
    and own: "CheckIssuerIndependentProperties td c time ku eku policy 0 = (Inl e, trustLevel)"
      "trustLevel \<noteq> TrustAnchor"
    and td: "stateless td" and wf: "wf_Input der"
    and issuer: "accepts_issuer (path_step td time eku policy c [] stapled 0 (Inl e)) i"
    and path: "trusted_path td time eku policy i [c] keyCertSign None 0 issuers"
  shows "fst (BuildCertChain td der time MustBeEndEntity ku eku policy stapled ev) = Inl e"
proof -
  let ?p = "path_step td time eku policy c [] stapled 0 (Inl e)"
  have v: "validity_known ?p"
    using issuer by (auto simp: accepts_issuer_def validity_known_def not_revoked_def)
  have "wf_Input (bc_der i)" using accepts_issuer_wf [OF issuer] td by simp
  then have "\<forall>x \<in> set (i # [c]). wf_Input (bc_der x)" using BackCert_Init_role [OF c] wf by simp
  from search_complete [OF path td this]
  have "\<And>ev. fst (BuildForward td i [c] time keyCertSign eku policy None 0 ev) = Inr ()" .
  then obtain s' ev' where "FindIssuer_loop ?p (fst (FindIssuer td (bc_issuer c) time))
      (snd (FindIssuer td (bc_issuer c) time)) initial_step_state ev = (Inr (), s', ev')"
    "CheckResult s' = Inr ()"
    using FindIssuer_loop_finds [OF issuer _ v, of "snd (FindIssuer td (bc_issuer c) time)" ev] td by auto
  then show ?thesis
    by (simp add: BuildCertChain_def c BuildForward_step [OF own(1) DeferError_end_entity(1) [OF c own(2)]
          own(2) DeferError_end_entity(2) [OF c own(2)]])
qed

text \<open>The sample leaf with a validity period that the application finds too long.\<close>

abbreviation strict_domain :: "unit res \<Rightarrow> TrustDomain" where
  "strict_domain rv \<equiv>
     domain_with (\<lambda>e. if e = MustBeEndEntity then Inl ERROR_VALIDITY_TOO_LONG else Inr ()) rv"

lemma strict_leaf:
  "CheckIssuerIndependentProperties (strict_domain rv) leaf_cert sample_time digitalSignature
     id_kp_serverAuth any_policy 0 = (Inl ERROR_VALIDITY_TOO_LONG, InheritsTrust)"
  by (simp add: leaf_cert_properties)

lemma strict_stateless: "stateless (strict_domain rv)"
  by (simp add: stateless_def root_der_def wf_Input_def MAX_INPUT_def)

lemma strict_candidate:
  "CheckCandidate (path_step (strict_domain rv) sample_time id_kp_serverAuth any_policy leaf_cert [] None 0 d)
     root_der None = Candidate_Accepted root_cert"
  by (rule sample_candidate)

lemma strict_signature:
  "VerifySignedData (strict_domain rv) (signedData leaf_cert) (subjectPublicKeyInfo root_cert) = Inr ()"
  by (simp add: VerifySignedData_def leaf_cert_digest VerifySignedDigest_def)

lemma strict_root_path:
  "trusted_path (strict_domain rv) sample_time id_kp_serverAuth any_policy root_cert [leaf_cert] keyCertSign
     None 0 []"
proof (rule trusted_path.anchor)
  show "CheckIssuerIndependentProperties (strict_domain rv) root_cert sample_time keyCertSign
      id_kp_serverAuth any_policy 0 = (Inr (), TrustAnchor)"
    by (simp add: root_cert_properties)
qed (simp_all add: NonOwningDERArray_MAX_LENGTH_def)

lemma strict_accepts:
  "accepts_issuer (path_step (strict_domain (Inr ())) sample_time id_kp_serverAuth any_policy leaf_cert [] None 0 d)
     root_cert"
  using strict_candidate [of "Inr ()" d] strict_signature [of "Inr ()"] leaf_cert_validity
  by (auto simp: accepts_issuer_def not_revoked_def NoteEmbeddedSCTs_def sample_fields)

text \<open>C40: The error of a revoked end entity hides the error of its own: when the only candidate
  is an accepted issuer with a trusted path and the answer about revocation is an error, this
  error is returned (unless the end entity has expired, when nobody asks), whatever
  \<open>CheckIssuerIndependentProperties\<close> found. The ranking of the documentation lists
  the problems of the end entity before revocation.\<close>

theorem BuildCertChain_revocation_first:
  assumes c: "BackCert_Init der MustBeEndEntity = Inr c"
    and own: "CheckIssuerIndependentProperties td c time ku eku policy 0 = (Inl e, trustLevel)"
      "trustLevel \<noteq> TrustAnchor" "e \<noteq> ERROR_EXPIRED_CERTIFICATE"
    and td: "stateless td" and wf: "wf_Input der"
    and only: "FindIssuer td (bc_issuer c) time = ([(ider, nc)], Inr ())"
    and cand: "CheckCandidate (path_step td time eku policy c [] stapled 0 (Inl e)) ider nc = Candidate_Accepted i"
    and ver: "VerifySignedData td (signedData c) (subjectPublicKeyInfo i) = Inr ()"
    and path: "trusted_path td time eku policy i [c] keyCertSign None 0 issuers"
    and val: "ParseValidity (validity c) = Inr (notBefore, notAfter)"
    and rev: "\<forall>ev. CheckRevocation td ev MustBeEndEntity
          \<lparr>issuer = bc_issuer c, issuerSubjectPublicKeyInfo = subjectPublicKeyInfo i,
           serialNumber = bc_serialNumber c\<rparr> time (Duration_between notAfter notBefore) stapled
          (GetAuthorityInfoAccess c) = Inl r"
  shows "fst (BuildCertChain td der time MustBeEndEntity ku eku policy stapled ev) = issuer_error (Inl r)"
proof -
  let ?p = "path_step td time eku policy c [] stapled 0 (Inl e)"
  note role = BackCert_Init_role [OF c]
  have "bc_der i = ider"
    using cand by (auto simp: CheckCandidate_def split: sum.splits if_splits dest!: BackCert_Init_role)
  moreover have "(ider, nc) \<in> set (fst (FindIssuer td (bc_issuer c) time))" by (simp add: only)
  then have "wf_Input ider" using td unfolding stateless_def by blast
  ultimately have "\<forall>x \<in> set (i # [c]). wf_Input (bc_der x)" using role wf by simp
  from search_complete [OF path td this, of ev]
  obtain ev1 where b: "BuildForward td i [c] time keyCertSign eku policy None 0 ev = (Inr (), ev1)"
    by (metis prod.collapse)
  obtain s' ev' where "CheckIssuedBy ?p i initial_step_state ev1 = (Inr True, s', ev')"
    and res: "CheckResult s' = issuer_error (Inl r)"
    using CheckIssuedBy_revoked [of ?p i notBefore notAfter r ev1] ver own(3) val rev role by auto
  then have "FindIssuer_loop ?p (fst (FindIssuer td (bc_issuer c) time))
      (snd (FindIssuer td (bc_issuer c) time)) initial_step_state ev = (Inr (), s', ev')"
    using b cand by (simp add: only FindIssuer_loop.simps Check.simps)
  moreover obtain x where "issuer_error (Inl r) = Inl x" by (cases "issuer_error (Inl r)") auto
  ultimately show ?thesis
    using res by (simp add: BuildCertChain_def c BuildForward_step [OF own(1) DeferError_end_entity(1) [OF c own(2)]
          own(2) DeferError_end_entity(2) [OF c own(2)]])
qed

theorem BuildCertChain_revocation_first_witness:
  "fst (BuildCertChain (strict_domain (Inl ERROR_REVOKED_CERTIFICATE)) leaf_der sample_time MustBeEndEntity
     digitalSignature id_kp_serverAuth any_policy None []) = Inl ERROR_REVOKED_CERTIFICATE \<and>
   fst (CheckIssuerIndependentProperties (strict_domain (Inl ERROR_REVOKED_CERTIFICATE)) leaf_cert sample_time
     digitalSignature id_kp_serverAuth any_policy 0) = Inl ERROR_VALIDITY_TOO_LONG"
proof -
  have "wf_Input leaf_der" by (simp add: leaf_der_def wf_Input_def MAX_INPUT_def)
  from BuildCertChain_revocation_first [OF leaf_cert_init strict_leaf _ _ strict_stateless this _
      strict_candidate strict_signature strict_root_path leaf_cert_validity]
  show ?thesis by (simp add: strict_leaf issuer_error_def)
qed

text \<open>An issuer that is not found hides every error of the end entity, even that the
  application distrusts it: when no candidate has the name of the issuer, the result is
  \<open>ERROR_UNKNOWN_ISSUER\<close>. For active distrust the ranking of the documentation says the
  opposite.\<close>

lemma BuildCertChain_unknown_issuer_first:
  assumes c: "BackCert_Init der MustBeEndEntity = Inr c"
    and own: "CheckIssuerIndependentProperties td c time ku eku policy 0 = (rv, trustLevel)"
      "trustLevel \<noteq> TrustAnchor"
    and none: "snd (FindIssuer td (bc_issuer c) time) = Inr ()"
      "\<forall>(ider, nc) \<in> set (fst (FindIssuer td (bc_issuer c) time)).
         CheckCandidate (path_step td time eku policy c [] stapled 0 rv) ider nc = Candidate_Ignored"
  shows "BuildCertChain td der time MustBeEndEntity ku eku policy stapled ev = (Inl ERROR_UNKNOWN_ISSUER, ev)"
proof -
  have d: "DeferError c rv trustLevel = Inr rv"
    using DeferError_end_entity(1) [OF c own(2)] by (cases rv) (simp_all add: DeferError_def)
  show ?thesis
    using FindIssuer_loop_ignored [OF none(2)]
    by (simp add: BuildCertChain_def c BuildForward_step [OF own(1) d own(2) DeferError_end_entity(2) [OF c own(2)]]
        none(1) CheckResult_def initial_step_state_def)
qed

end
