(* ===== verification/PkixTrace.thy ===== *)
theory PkixTrace
  imports PkixPath
begin

text \<open>
  In which order path building calls the application, and what it has checked before each call: an invariant of
  the list of events that every function of the search extends.
\<close>

section \<open>The calls of the application\<close>

text \<open>\<open>offered_issuer td time i c\<close>: the application offered a CA certificate, \<open>i\<close>, for the issuer name of \<open>c\<close>, and
  its subject is this name. \<open>descends\<close>: a chain in which this holds of neighbours, the issuer first.\<close>

definition offered_issuer :: "TrustDomain \<Rightarrow> Time \<Rightarrow> BackCert \<Rightarrow> BackCert \<Rightarrow> bool" where
  "offered_issuer td time i c \<longleftrightarrow> InputsAreEqual (subject i) (bc_issuer c) \<and>
     (\<exists>(der, imposed) \<in> set (fst (FindIssuer td (bc_issuer c) time)). BackCert_Init der MustBeCA = Inr i)"

fun descends :: "TrustDomain \<Rightarrow> Time \<Rightarrow> BackCert list \<Rightarrow> bool" where
  "descends td time [] \<longleftrightarrow> False"
| "descends td time [c] \<longleftrightarrow> True"
| "descends td time (i # c # cs) \<longleftrightarrow> offered_issuer td time i c \<and> descends td time (c # cs)"

text \<open>What holds when each of the three methods is called, where \<open>ee\<close> is the certificate to be verified and \<open>base @ before\<close>
  are the calls up to now.

  \<^item> \<open>IsChainValid\<close>: a chain of offered issuers leads from a certificate that passed its checks as a trust
    anchor down to \<open>ee\<close>, and fits its array.
  \<^item> \<open>CheckRevocation\<close>, for \<open>c\<close> and its issuer \<open>i\<close>: the key of \<open>i\<close> verified the signature of \<open>c\<close>, \<open>c\<close> and \<open>i\<close> are
    neighbours in a chain down to \<open>ee\<close>, and the last chain that the application was asked about is one through these
    and was accepted. The arguments are those of \<open>c\<close> and \<open>i\<close>; a stapled response is only passed on for \<open>ee\<close>.
  \<^item> \<open>NoteAuxiliaryExtension\<close>: the call before was a question about a revocation, and the answer was \<open>Success\<close>.\<close>

definition asked_about :: "TrustDomain \<Rightarrow> Time \<Rightarrow> Input \<Rightarrow> td_event list \<Rightarrow> BackCert \<Rightarrow> BackCert \<Rightarrow> BackCert list \<Rightarrow> bool" where
  "asked_about td time ee before i c below \<longleftrightarrow>
     VerifySignedData td (signedData c) (subjectPublicKeyInfo i) = Inr () \<and>
     descends td time (i # c # below) \<and> bc_der (last (c # below)) = ee \<and>
     (\<exists>upper. accepted_last td time (map bc_der (upper @ i # c # below)) before)"

fun event_ok ::
  "TrustDomain \<Rightarrow> Time \<Rightarrow> KeyPurposeId \<Rightarrow> CertPolicyId \<Rightarrow> Input \<Rightarrow> td_event list \<Rightarrow> td_event list \<Rightarrow> td_event \<Rightarrow> bool" where
  "event_ok td time eku policy ee base before (IsChainValid_called ders t) \<longleftrightarrow>
     t = time \<and> (\<exists>chain ku count. ders = map bc_der chain \<and> length chain \<le> NonOwningDERArray_MAX_LENGTH \<and>
       descends td time chain \<and> bc_der (last chain) = ee \<and>
       CheckIssuerIndependentProperties td (hd chain) time ku eku policy count = (Inr (), TrustAnchor))"
| "event_ok td time eku policy ee base before (CheckRevocation_called e cid t du st aia) \<longleftrightarrow>
     t = time \<and> (\<exists>i c below notBefore notAfter. asked_about td time ee (base @ before) i c below \<and>
       e = endEntityOrCA c \<and> cid = \<lparr>issuer = bc_issuer c, issuerSubjectPublicKeyInfo = subjectPublicKeyInfo i,
         serialNumber = bc_serialNumber c\<rparr> \<and>
       ParseValidity (validity c) = Inr (notBefore, notAfter) \<and> du = Duration_between notAfter notBefore \<and>
       aia = GetAuthorityInfoAccess c \<and> (below \<noteq> [] \<longrightarrow> st = None))"
| "event_ok td time eku policy ee base before (NoteAuxiliaryExtension_called ext v) \<longleftrightarrow>
     (\<exists>earlier e cid t du st aia. before = earlier @ [CheckRevocation_called e cid t du st aia] \<and>
        CheckRevocation td (base @ earlier) e cid t du st aia = Inr ())"

definition trace_ok ::
  "TrustDomain \<Rightarrow> Time \<Rightarrow> KeyPurposeId \<Rightarrow> CertPolicyId \<Rightarrow> Input \<Rightarrow> td_event list \<Rightarrow> td_event list \<Rightarrow> bool" where
  "trace_ok td time eku policy ee base new \<longleftrightarrow>
     (\<forall>k < length new. event_ok td time eku policy ee base (take k new) (new ! k))"

lemma trace_ok_Nil [simp]: "trace_ok td time eku policy ee base []"
  by (simp add: trace_ok_def)

lemma event_ok_append:
  "event_ok td time eku policy ee (base @ a) before x \<Longrightarrow> event_ok td time eku policy ee base (a @ before) x"
proof (cases x)
  case (NoteAuxiliaryExtension_called ext v)
  assume "event_ok td time eku policy ee (base @ a) before x"
  then obtain earlier e cid t du st aia where "before = earlier @ [CheckRevocation_called e cid t du st aia]"
    "CheckRevocation td ((base @ a) @ earlier) e cid t du st aia = Inr ()"
    using NoteAuxiliaryExtension_called by auto
  then have "a @ before = (a @ earlier) @ [CheckRevocation_called e cid t du st aia]"
    "CheckRevocation td (base @ (a @ earlier)) e cid t du st aia = Inr ()" by simp_all
  then show ?thesis unfolding NoteAuxiliaryExtension_called event_ok.simps by blast
qed simp_all

lemma trace_ok_append:
  assumes "trace_ok td time eku policy ee base a" "trace_ok td time eku policy ee (base @ a) b"
  shows "trace_ok td time eku policy ee base (a @ b)"
  unfolding trace_ok_def
proof (intro allI impI)
  fix k assume k: "k < length (a @ b)"
  show "event_ok td time eku policy ee base (take k (a @ b)) ((a @ b) ! k)"
  proof (cases "k < length a")
    case True
    then show ?thesis using assms(1) by (simp add: trace_ok_def nth_append)
  next
    case False
    define j where "j = k - length a"
    have j: "j < length b" "(a @ b) ! k = b ! j" "take k (a @ b) = a @ take j b"
      using k False by (auto simp: j_def nth_append)
    show ?thesis unfolding j(2,3) by (rule event_ok_append) (use assms(2) j(1) in \<open>simp add: trace_ok_def\<close>)
  qed
qed

lemma trace_ok_snoc:
  "trace_ok td time eku policy ee base a \<Longrightarrow> event_ok td time eku policy ee base a x \<Longrightarrow>
   trace_ok td time eku policy ee base (a @ [x])"
  by (auto simp: trace_ok_def nth_append less_Suc_eq)

section \<open>The invariant of the search\<close>

text \<open>A chain that is passed on starts with a trust anchor.\<close>

lemma AcceptTrustAnchor_trace:
  assumes "AcceptTrustAnchor td (c # children) time ev = (r, ev')" and "descends td time (c # children)"
    and "CheckIssuerIndependentProperties td c time ku eku policy count = (Inr (), TrustAnchor)"
  shows "\<exists>new. ev' = ev @ new \<and> trace_ok td time eku policy (bc_der (last (c # children))) ev new"
proof (cases "fold_res DERArray_Append [] (map bc_der (c # children))")
  case (Inl e)
  then show ?thesis using assms(1) by (auto simp: AcceptTrustAnchor_def NotReached_def)
next
  case (Inr ders)
  have ders: "ders = map bc_der (c # children)" "length (c # children) \<le> NonOwningDERArray_MAX_LENGTH"
    using fold_DERArray_Append [OF Inr] by auto
  then have "event_ok td time eku policy (bc_der (last (c # children))) ev [] (IsChainValid_called ders time)"
    unfolding event_ok.simps using assms(2,3) by (metis list.sel(1))
  from trace_ok_snoc [OF trace_ok_Nil this]
  have "trace_ok td time eku policy (bc_der (last (c # children))) ev [IsChainValid_called ders time]" by simp
  moreover have "ev' = ev @ [IsChainValid_called ders time]"
    using assms(1) Inr by (simp add: AcceptTrustAnchor_def del: list.map)
  ultimately show ?thesis by blast
qed

text \<open>What is known of a step: the digest that it keeps is that of the subject; the certificates below descend;
  only the end entity has a stapled response.\<close>

definition keeps_digest :: "PathBuildingStep \<Rightarrow> step_state \<Rightarrow> bool" where
  "keeps_digest p s \<longleftrightarrow> (\<forall>sig. subjectSignature s = Some sig \<longrightarrow>
     DigestSignedData (trustDomain p) (signedData (step_subject p)) = Inr sig)"

definition step_below :: "PathBuildingStep \<Rightarrow> bool" where
  "step_below p \<longleftrightarrow> descends (trustDomain p) (step_time p) (step_subject p # step_children p) \<and>
     (step_children p \<noteq> [] \<longrightarrow> stapledOCSPResponse p = None)"

abbreviation step_ee :: "PathBuildingStep \<Rightarrow> Input" where
  "step_ee p \<equiv> bc_der (last (step_subject p # step_children p))"

abbreviation step_trace :: "PathBuildingStep \<Rightarrow> td_event list \<Rightarrow> td_event list \<Rightarrow> bool" where
  "step_trace p \<equiv> trace_ok (trustDomain p) (step_time p) (requiredEKUIfPresent p) (requiredPolicy p) (step_ee p)"

lemma keeps_digest_initial [simp]: "keeps_digest p initial_step_state"
  by (simp add: keeps_digest_def initial_step_state_def)

lemma keeps_digest_RecordResult: "RecordResult s rv = (r, s') \<Longrightarrow> keeps_digest p s' \<longleftrightarrow> keeps_digest p s"
  by (auto simp: RecordResult_def keeps_digest_def Let_def split: if_splits)

lemma NoteEmbeddedSCTs_events:
  "NoteEmbeddedSCTs c ev = (rv, ev2) \<Longrightarrow> ev2 = ev \<or> (\<exists>x v. ev2 = ev @ [NoteAuxiliaryExtension_called x v])"
  by (auto simp: NoteEmbeddedSCTs_def split: if_splits option.splits sum.splits)

text \<open>The question about the revocation of the subject, and the note of its timestamps.\<close>

lemma CheckSubjectRevocation_trace:
  assumes call: "CheckSubjectRevocation p i s ev = (r, s', ev')"
    and a: "ev = base @ a" "step_trace p base a" and below: "step_below p"
    and about: "asked_about (trustDomain p) (step_time p) (step_ee p) ev i (step_subject p) (step_children p)"
  shows "(\<exists>new. ev' = base @ new \<and> step_trace p base new) \<and> (keeps_digest p s \<longrightarrow> keeps_digest p s')"
proof -
  let ?c = "step_subject p"
  let ?cid = "\<lparr>issuer = bc_issuer ?c, issuerSubjectPublicKeyInfo = subjectPublicKeyInfo i, serialNumber = bc_serialNumber ?c\<rparr>"
  let ?asked = "\<lambda>nb na. CheckRevocation_called (endEntityOrCA ?c) ?cid (step_time p) (Duration_between na nb)
    (stapledOCSPResponse p) (GetAuthorityInfoAccess ?c)"
  define extends where "extends ev' \<longleftrightarrow> (\<exists>new. ev' = base @ new \<and> step_trace p base new)" for ev'
  have 0: "extends ev" using a unfolding extends_def by blast
  have asked: "step_trace p base (a @ [?asked nb na])" if "ParseValidity (validity ?c) = Inr (nb, na)" for nb na
  proof (rule trace_ok_snoc [OF a(2)])
    show "event_ok (trustDomain p) (step_time p) (requiredEKUIfPresent p) (requiredPolicy p) (step_ee p) base a (?asked nb na)"
      unfolding event_ok.simps
      by (intro conjI refl exI [of _ i] exI [of _ ?c] exI [of _ "step_children p"] exI [of _ nb] exI [of _ na])
        (use about that below in \<open>simp_all add: a(1) step_below_def del: last.simps\<close>)
  qed
  have 1: "extends (ev @ [?asked nb na])" if "ParseValidity (validity ?c) = Inr (nb, na)" for nb na
    using asked [OF that] a(1) unfolding extends_def by auto
  have 2: "extends (ev @ [?asked nb na, NoteAuxiliaryExtension_called x v])"
    if "ParseValidity (validity ?c) = Inr (nb, na)"
      "CheckRevocation (trustDomain p) ev (endEntityOrCA ?c) ?cid (step_time p) (Duration_between na nb)
        (stapledOCSPResponse p) (GetAuthorityInfoAccess ?c) = Inr ()" for nb na x v
  proof -
    have "event_ok (trustDomain p) (step_time p) (requiredEKUIfPresent p) (requiredPolicy p) (step_ee p) base
        (a @ [?asked nb na]) (NoteAuxiliaryExtension_called x v)"
      using that(2) a(1) by auto
    from trace_ok_snoc [OF asked [OF that(1)] this] show ?thesis using a(1) unfolding extends_def by auto
  qed
  have noted: "extends ev2"
    if "ParseValidity (validity ?c) = Inr (nb, na)"
      "CheckRevocation (trustDomain p) ev (endEntityOrCA ?c) ?cid (step_time p) (Duration_between na nb)
        (stapledOCSPResponse p) (GetAuthorityInfoAccess ?c) = Inr ()"
      "NoteEmbeddedSCTs ?c (ev @ [?asked nb na]) = (rv, ev2)" for nb na rv ev2
    using NoteEmbeddedSCTs_events [OF that(3)] 1 [OF that(1)] 2 [OF that(1,2)] by auto
  have "extends ev'"
    using call 0 1 noted unfolding CheckSubjectRevocation_def Let_def
    by (auto simp del: last.simps split: if_splits sum.splits prod.splits)
  moreover have "keeps_digest p s \<longrightarrow> keeps_digest p s'"
    using call keeps_digest_RecordResult unfolding CheckSubjectRevocation_def Let_def
    by (auto split: if_splits sum.splits prod.splits)
  ultimately show ?thesis unfolding extends_def by blast
qed

lemma CheckIssuedBy_trace:
  assumes call: "CheckIssuedBy p i s ev = (r, s', ev')"
    and a: "ev = base @ a" "step_trace p base a" and below: "step_below p" "keeps_digest p s"
    and i: "offered_issuer (trustDomain p) (step_time p) i (step_subject p)"
    and chain: "accepted_last (trustDomain p) (step_time p) (map bc_der (upper @ i # step_subject p # step_children p)) ev"
  shows "(\<exists>new. ev' = base @ new \<and> step_trace p base new) \<and> keeps_digest p s'"
proof (cases "GetSubjectSignature p s")
  case (Inl e)
  then show ?thesis using call a below(2) by (auto simp: CheckIssuedBy_def)
next
  case (Inr sig)
  obtain alg sd where sig: "sig = (alg, sd)" by (cases sig)
  let ?s = "s\<lparr>subjectSignature := Some (alg, sd)\<rparr>"
  have dig: "DigestSignedData (trustDomain p) (signedData (step_subject p)) = Inr (alg, sd)"
    using Inr below(2) sig by (auto simp: GetSubjectSignature_def keeps_digest_def split: option.splits)
  then have keeps: "keeps_digest p ?s" by (simp add: keeps_digest_def)
  show ?thesis
  proof (cases "VerifySignedDigest (trustDomain p) alg sd (subjectPublicKeyInfo i)")
    case (Inl e)
    then show ?thesis
      using call Inr sig keeps a keeps_digest_RecordResult by (auto simp: CheckIssuedBy_def Let_def split: prod.splits)
  next
    case v: (Inr u)
    have "asked_about (trustDomain p) (step_time p) (step_ee p) ev i (step_subject p) (step_children p)"
      using dig v i below(1) chain by (auto simp: asked_about_def VerifySignedData_def step_below_def)
    moreover have "CheckSubjectRevocation p i ?s ev = (r, s', ev')"
      using call Inr sig v by (simp add: CheckIssuedBy_def Let_def)
    ultimately show ?thesis using CheckSubjectRevocation_trace [OF _ a below(1)] keeps by blast
  qed
qed

text \<open>The three functions together.\<close>

lemma search_trace:
  "BuildForward td subj children time ku eku policy stapled count ev = (r, ev') \<Longrightarrow>
     descends td time (subj # children) \<Longrightarrow> (children \<noteq> [] \<longrightarrow> stapled = None) \<Longrightarrow>
     \<exists>new. ev' = ev @ new \<and> trace_ok td time eku policy (bc_der (last (subj # children))) ev new"
  "FindIssuer_loop p cs rv s ev = (rl, s', ev') \<Longrightarrow>
     set cs \<subseteq> set (fst (FindIssuer (trustDomain p) (bc_issuer (step_subject p)) (step_time p))) \<Longrightarrow>
     step_below p \<Longrightarrow> keeps_digest p s \<Longrightarrow> (\<exists>new. ev' = ev @ new \<and> step_trace p ev new) \<and> keeps_digest p s'"
  "Check p der nc s ev = (k, s', ev') \<Longrightarrow>
     (der, nc) \<in> set (fst (FindIssuer (trustDomain p) (bc_issuer (step_subject p)) (step_time p))) \<Longrightarrow>
     step_below p \<Longrightarrow> keeps_digest p s \<Longrightarrow> (\<exists>new. ev' = ev @ new \<and> step_trace p ev new) \<and> keeps_digest p s'"
proof (induction td subj children time ku eku policy stapled count ev and p cs rv s ev and p der nc s ev
    arbitrary: r ev' and rl s' ev' and k s' ev'
    rule: BuildForward_FindIssuer_loop_Check.induct)
  case (1 td subj children time ku eku policy stapled count ev)
  obtain rv tl where c: "CheckIssuerIndependentProperties td subj time ku eku policy count = (rv, tl)"
    by fastforce
  note bf = BuildForward.simps [of td subj children time ku eku policy stapled count ev]
  show ?case
  proof (cases "DeferError subj rv tl")
    case (Inl e)
    then show ?thesis using "1.prems" unfolding bf c by auto
  next
    case d: (Inr deferred)
    show ?thesis
    proof (cases "tl = TrustAnchor")
      case True
      then have "rv = Inr ()" using d by (auto simp: DeferError_def split: sum.splits)
      moreover have "AcceptTrustAnchor td (subj # children) time ev = (r, ev')"
        using "1.prems" d True unfolding bf c by simp
      ultimately show ?thesis using AcceptTrustAnchor_trace "1.prems"(2) c True by blast
    next
      case False
      show ?thesis
      proof (cases "NextSubCACount subj count")
        case None
        then show ?thesis using "1.prems" d False unfolding bf c by auto
      next
        case (Some count')
        define p where "p = path_step td time eku policy subj children stapled count' deferred"
        let ?cs = "fst (FindIssuer td (bc_issuer subj) time)"
        obtain r1 s1 ev1 where l:
          "FindIssuer_loop p ?cs (snd (FindIssuer td (bc_issuer subj) time)) initial_step_state ev = (r1, s1, ev1)"
          by (cases "FindIssuer_loop p ?cs (snd (FindIssuer td (bc_issuer subj) time)) initial_step_state ev") auto
        have "ev' = ev1"
          using "1.prems" d False Some l unfolding bf c p_def path_step_def by (auto split: sum.splits)
        moreover have "step_below p" using "1.prems"(2,3) by (simp add: step_below_def p_def)
        ultimately show ?thesis
          using "1.IH" [OF c [symmetric] refl d False Some, of r1 s1 ev1] l unfolding p_def path_step_def by auto
      qed
    qed
  qed
next
  case (2 p rv s ev)
  then show ?case by (simp add: FindIssuer_loop.simps)
next
  case (3 p der nc cs rv s ev)
  obtain k s1 ev1 where c: "Check p der nc s ev = (k, s1, ev1)" by (cases "Check p der nc s ev") auto
  obtain a where a: "ev1 = ev @ a" "step_trace p ev a" and keeps: "keeps_digest p s1"
    using "3.IH"(1) [OF c _ "3.prems"(3,4)] "3.prems"(2) by auto
  show ?case
  proof (cases "k = Inr True")
    case True
    then have "FindIssuer_loop p cs rv s1 ev1 = (rl, s', ev')"
      using "3.prems"(1) c by (simp add: FindIssuer_loop.simps)
    then obtain b where b: "ev' = ev1 @ b" "step_trace p ev1 b" "keeps_digest p s'"
      using "3.IH"(2) [OF c [symmetric] True refl _ _ _ "3.prems"(3) keeps] "3.prems"(2) by auto
    have "step_trace p ev (a @ b)" using trace_ok_append a b(2) by blast
    then show ?thesis using a(1) b(1,3) by auto
  next
    case False
    then have "s' = s1" "ev' = ev1"
      using "3.prems"(1) c by (auto simp: FindIssuer_loop.simps split: sum.splits if_splits)
    then show ?thesis using a keeps by blast
  qed
next
  case (4 p der nc s ev)
  have same: "(\<exists>new. ev = ev @ new \<and> step_trace p ev new) \<and> keeps_digest p s" using "4.prems"(4) by simp
  show ?case
  proof (cases "CheckCandidate p der nc")
    case Candidate_Ignored
    then show ?thesis using "4.prems"(1) same by (simp add: Check.simps)
  next
    case (Candidate_Rejected e)
    then show ?thesis
      using "4.prems"(1) same keeps_digest_RecordResult by (auto simp: Check.simps Let_def split: prod.splits)
  next
    case (Candidate_Accepted i)
    have i: "offered_issuer (trustDomain p) (step_time p) i (step_subject p)"
      using Candidate_Accepted "4.prems"(2)
      by (auto simp: CheckCandidate_def offered_issuer_def split: sum.splits if_splits)
    obtain r1 ev1 where b: "BuildForward (trustDomain p) i (step_subject p # step_children p)
        (step_time p) keyCertSign (requiredEKUIfPresent p) (requiredPolicy p) None (subCACount p) ev = (r1, ev1)"
      by fastforce
    have "descends (trustDomain p) (step_time p) (i # step_subject p # step_children p)"
      using i "4.prems"(3) by (simp add: step_below_def)
    then obtain a where a: "ev1 = ev @ a" "step_trace p ev a"
      using "4.IH" [OF Candidate_Accepted b] by auto
    show ?thesis
    proof (cases r1)
      case (Inl e)
      then show ?thesis
        using "4.prems"(1,4) Candidate_Accepted b a keeps_digest_RecordResult
        by (auto simp: Check.simps Let_def split: prod.splits)
    next
      case (Inr u)
      then have call: "CheckIssuedBy p i s ev1 = (k, s', ev')"
        using "4.prems"(1) Candidate_Accepted b by (simp add: Check.simps)
      obtain issuers where "accepted_last (trustDomain p) (step_time p)
          (map bc_der (rev issuers @ i # step_subject p # step_children p)) ev1"
        using search_sound(1) [of "trustDomain p" i "step_subject p # step_children p" "step_time p" keyCertSign
            "requiredEKUIfPresent p" "requiredPolicy p" None "subCACount p" ev] b Inr by auto
      from CheckIssuedBy_trace [OF call a "4.prems"(3,4) i this] show ?thesis .
    qed
  qed
qed

section \<open>Properties\<close>

text \<open>C19: The order of the calls. Whatever the outcome, the calls that \<open>BuildCertChain\<close> makes
  extend the ones made before, and before each of them the following has been established. \<open>IsChainValid\<close> is only
  asked about a chain of at most eight certificates in which each was offered for the issuer name
  of the next, from a certificate that passed its checks as a trust anchor down to the given one; the
  signatures of the chain are verified later. The revocation of a certificate is only asked for after the key of its issuer
  has verified its signature and the application has accepted a chain through both, the last chain it was
  asked about; the response that the server stapled is only passed on for the given certificate. Embedded timestamps are
  passed on directly after a question about a revocation that was answered with \<open>Success\<close>. \<open>BuildCertChain\<close> never reports a success
  without an accepted chain.\<close>

theorem BuildCertChain_call_order:
  "\<exists>new. snd (BuildCertChain td der time e ku eku policy stapled ev) = ev @ new \<and>
     trace_ok td time eku policy der ev new \<and>
     (fst (BuildCertChain td der time e ku eku policy stapled ev) = Inr () \<longrightarrow>
        (\<exists>ders. last ders = der \<and> accepted_last td time ders (ev @ new)))"
proof (cases "BackCert_Init der e")
  case (Inl err)
  then show ?thesis by (simp add: BuildCertChain_def)
next
  case (Inr c)
  obtain r ev' where b: "BuildForward td c [] time ku eku policy stapled 0 ev = (r, ev')" by fastforce
  have der: "bc_der c = der" using BackCert_Init_role [OF Inr] by simp
  obtain new where new: "ev' = ev @ new" "trace_ok td time eku policy der ev new"
    using search_trace(1) [OF b] der by auto
  have chain: "BuildCertChain td der time e ku eku policy stapled ev = (r, ev')" using b by (simp add: BuildCertChain_def Inr)
  moreover have "\<exists>ders. last ders = der \<and> accepted_last td time ders ev'" if "r = Inr ()"
  proof -
    have "BuildCertChain td der time e ku eku policy stapled ev = (Inr (), ev')" using chain that by simp
    from BuildCertChain_found [OF this] Inr
    obtain issuers where "accepted_last td time (map bc_der (rev (c # issuers))) ev'" by auto
    moreover have "last (map bc_der (rev (c # issuers))) = der" using der by simp
    ultimately show ?thesis by blast
  qed
  ultimately show ?thesis using new by auto
qed

theorem BuildCertChain_call_order_witness:
  "\<exists>new ders. last ders = leaf_der \<and> accepted_last sample_domain sample_time ders new \<and>
     trace_ok sample_domain sample_time id_kp_serverAuth any_policy leaf_der [] new"
proof -
  obtain ev where "BuildCertChain sample_domain leaf_der sample_time MustBeEndEntity digitalSignature
     id_kp_serverAuth any_policy None [] = (Inr (), ev)"
    using sample_chain by blast
  with BuildCertChain_call_order [of sample_domain leaf_der sample_time MustBeEndEntity digitalSignature
      id_kp_serverAuth any_policy None "[]"] show ?thesis by auto
qed

end
