(* ===== verification/PsmOcspCache.thy ===== *)
theory PsmOcspCache
  imports PkixDer PkixTypes "HOL-Library.Multiset"
begin

text \<open>
  \<^verbatim>\<open>security/certverifier/OCSPCache.cpp\<close>: the cache of OCSP results, keyed by a digest of the
  certificate's identifier and the first-party domain. The cache is the list of its entries, the most
  recently used one last. Each operation holds the cache's mutex, so that concurrent use is a sequence of
  operations. SHA-384 (of NSS) and the outcome of memory allocation are parameters.
\<close>

section \<open>The digest of an identifier\<close>

definition SHA384_LENGTH :: nat where
  "SHA384_LENGTH = 48"

text \<open>What the cache uses of its environment: the digest, \<open>None\<close> if NSS reports an error, the error that is
  pending then, and whether memory for a new entry and its place in the vector can be allocated.\<close>

record cache_env =
  sha384_digest :: "u8 list \<Rightarrow> u8 list option"
  pendingError :: error
  allocates :: bool
  appends :: bool

definition DigestLength :: "u32 \<Rightarrow> u8 list option" where
  "DigestLength len =
     (if len \<ge> 65536 then None else Some [ucast (len AND 255), ucast (drop_bit 8 len AND 255)])"

text \<open>All the bytes that are passed to the digest, in order.\<close>

definition digest_input :: "CertID \<Rightarrow> u8 list \<Rightarrow> u8 list option" where
  "digest_input certID firstPartyDomain =
     (case DigestLength (of_nat (length (serialNumber certID))) of
        None \<Rightarrow> None
      | Some serialLen \<Rightarrow>
          let start = issuer certID @ issuerSubjectPublicKeyInfo certID @ serialLen @ serialNumber certID in
          if firstPartyDomain = [] then Some start
          else case DigestLength (of_nat (length firstPartyDomain)) of
            None \<Rightarrow> None
          | Some domainLen \<Rightarrow> Some (start @ domainLen @ firstPartyDomain))"

definition CertIDHash :: "cache_env \<Rightarrow> CertID \<Rightarrow> u8 list \<Rightarrow> u8 list option" where
  "CertIDHash env certID firstPartyDomain =
     (case digest_input certID firstPartyDomain of
        None \<Rightarrow> None
      | Some bytes \<Rightarrow>
          (case sha384_digest env bytes of
             None \<Rightarrow> None
           | Some buf \<Rightarrow> if length buf \<noteq> SHA384_LENGTH then None else Some buf))"

text \<open>An element and what follows it can be told apart.\<close>

lemma encode_sequence_prefix:
  "encode_tlv SEQUENCE v @ rest = encode_tlv SEQUENCE v' @ rest' \<Longrightarrow> wf_Input v \<Longrightarrow> wf_Input v' \<Longrightarrow> v = v' \<and> rest = rest'"
  using encode_tlv_prefix [of SEQUENCE v rest SEQUENCE v' rest'] by simp

lemma DigestLength_Some:
  assumes "DigestLength (of_nat n) = Some l" "n < 2 ^ 32"
  shows "n < 65536" "map unat l = [n mod 256, n div 256]"
proof -
  have n: "unat (of_nat n :: u32) = n" using assms(2) by (simp add: unat_of_nat)
  show lt: "n < 65536"
    using assms(1) n by (auto simp: DigestLength_def word_less_nat_alt word_le_nat_alt split: if_splits)
  have mask: "unat (w AND 255) = unat w mod 256" for w :: u32
  proof -
    have "w AND 255 = take_bit 8 w" by (simp add: take_bit_eq_mask mask_eq_exp_minus_1)
    then show ?thesis by (simp add: take_bit_eq_mod unat_mod)
  qed
  have "unat (ucast ((of_nat n :: u32) AND 255) :: u8) = n mod 256"
    by (simp add: unsigned_ucast_eq mask n take_bit_eq_mod)
  moreover have "unat (ucast (drop_bit 8 (of_nat n :: u32) AND 255) :: u8) = n div 256"
    using lt by (simp add: unsigned_ucast_eq mask n take_bit_eq_mod drop_bit_eq_div unat_div)
  ultimately show "map unat l = [n mod 256, n div 256]"
    using assms(1) by (auto simp: DigestLength_def split: if_splits)
qed

lemma DigestLength_inj:
  assumes "DigestLength (of_nat m) = Some l" "DigestLength (of_nat n) = Some l" "m < 2 ^ 32" "n < 2 ^ 32"
  shows "m = n"
proof -
  have "[m mod 256, m div 256] = [n mod 256, n div 256]"
    using DigestLength_Some(2) [OF assms(1,3)] DigestLength_Some(2) [OF assms(2,4)] by simp
  then show ?thesis by (metis div_mult_mod_eq list.inject)
qed

lemma DigestLength_length: "DigestLength n = Some l \<Longrightarrow> length l = 2"
  by (auto simp: DigestLength_def split: if_splits)

text \<open>The bytes of two lengths and texts after each other.\<close>

lemma length_prefixed_inj:
  assumes "DigestLength (of_nat (length s)) = Some l" "DigestLength (of_nat (length s')) = Some l'"
    and "length s < 2 ^ 32" "length s' < 2 ^ 32" and "l @ s @ rest = l' @ s' @ rest'"
  shows "s = s' \<and> rest = rest'"
proof -
  have "l = l'" "s @ rest = s' @ rest'" using assms(5) DigestLength_length [OF assms(1)] DigestLength_length [OF assms(2)]
    by (simp_all add: append_eq_append_conv)
  moreover from this have "length s = length s'" using DigestLength_inj assms(1-4) by blast
  ultimately show ?thesis by simp
qed

section \<open>The operations\<close>

record Entry =
  mResult :: "unit res"
  mThisUpdate :: Time
  mValidThrough :: Time
  mIDHash :: "u8 list"

definition MaxEntries :: nat where
  "MaxEntries = 1024"

text \<open>The loop counts down from the number of entries.\<close>

fun find_from_end :: "Entry list \<Rightarrow> u8 list \<Rightarrow> nat \<Rightarrow> nat option" where
  "find_from_end mEntries idHash 0 = None"
| "find_from_end mEntries idHash (Suc index) =
     (if mIDHash (mEntries ! index) = idHash then Some index
      else find_from_end mEntries idHash index)"

definition FindInternal :: "cache_env \<Rightarrow> Entry list \<Rightarrow> CertID \<Rightarrow> u8 list \<Rightarrow> nat option" where
  "FindInternal env mEntries certID firstPartyDomain =
     (if length mEntries = 0 then None
      else case CertIDHash env certID firstPartyDomain of
        None \<Rightarrow> None
      | Some idHash \<Rightarrow> find_from_end mEntries idHash (length mEntries))"

definition MakeMostRecentlyUsed :: "Entry list \<Rightarrow> nat \<Rightarrow> Entry list" where
  "MakeMostRecentlyUsed mEntries index =
     (let entry = mEntries ! index in take index mEntries @ drop (Suc index) mEntries @ [entry])"

definition Get :: "cache_env \<Rightarrow> Entry list \<Rightarrow> CertID \<Rightarrow> u8 list \<Rightarrow> (unit res \<times> Time) option \<times> Entry list" where
  "Get env mEntries certID firstPartyDomain =
     (case FindInternal env mEntries certID firstPartyDomain of
        None \<Rightarrow> (None, mEntries)
      | Some index \<Rightarrow>
          (Some (mResult (mEntries ! index), mValidThrough (mEntries ! index)),
           MakeMostRecentlyUsed mEntries index))"

text \<open>The branches of \<open>Put\<close> for an entry that is there already.\<close>

definition PutExisting :: "Entry list \<Rightarrow> nat \<Rightarrow> unit res \<Rightarrow> Time \<Rightarrow> Time \<Rightarrow> Entry list" where
  "PutExisting mEntries index aResult aThisUpdate aValidThrough =
     (let entry = mEntries ! index in
      if mResult entry = Inl ERROR_REVOKED_CERTIFICATE then MakeMostRecentlyUsed mEntries index
      else if mThisUpdate entry > aThisUpdate \<and> aResult \<noteq> Inl ERROR_REVOKED_CERTIFICATE
      then MakeMostRecentlyUsed mEntries index
      else if aResult \<noteq> Inr () \<and> aResult \<noteq> Inl ERROR_OCSP_UNKNOWN_CERT \<and>
              aResult \<noteq> Inl ERROR_REVOKED_CERTIFICATE
      then MakeMostRecentlyUsed mEntries index
      else MakeMostRecentlyUsed
             (mEntries[index := entry\<lparr>mResult := aResult, mThisUpdate := aThisUpdate,
                                      mValidThrough := aValidThrough\<rparr>]) index)"

text \<open>The loop over the entries that removes the first one whose status may be forgotten.\<close>

fun EvictOne :: "Entry list \<Rightarrow> Entry list" where
  "EvictOne [] = []"
| "EvictOne (toEvict # mEntries) =
     (if mResult toEvict \<noteq> Inl ERROR_REVOKED_CERTIFICATE \<and> mResult toEvict \<noteq> Inl ERROR_OCSP_UNKNOWN_CERT
      then mEntries
      else toEvict # EvictOne mEntries)"

definition PutNew ::
  "cache_env \<Rightarrow> Entry list \<Rightarrow> CertID \<Rightarrow> u8 list \<Rightarrow> unit res \<Rightarrow> Time \<Rightarrow> Time \<Rightarrow> unit res \<times> Entry list" where
  "PutNew env mEntries certID firstPartyDomain aResult aThisUpdate aValidThrough =
     (if \<not> allocates env then (Inl FATAL_ERROR_NO_MEMORY, mEntries)
      else case CertIDHash env certID firstPartyDomain of
        None \<Rightarrow> (Inl (pendingError env), mEntries)
      | Some idHash \<Rightarrow>
          if \<not> appends env then (Inl FATAL_ERROR_NO_MEMORY, mEntries)
          else (Inr (), mEntries @ [\<lparr>mResult = aResult, mThisUpdate = aThisUpdate,
                                      mValidThrough = aValidThrough, mIDHash = idHash\<rparr>]))"

definition Put ::
  "cache_env \<Rightarrow> Entry list \<Rightarrow> CertID \<Rightarrow> u8 list \<Rightarrow> unit res \<Rightarrow> Time \<Rightarrow> Time \<Rightarrow> unit res \<times> Entry list" where
  "Put env mEntries certID firstPartyDomain aResult aThisUpdate aValidThrough =
     (case FindInternal env mEntries certID firstPartyDomain of
        Some index \<Rightarrow> (Inr (), PutExisting mEntries index aResult aThisUpdate aValidThrough)
      | None \<Rightarrow>
          let mEntries = (if length mEntries = MaxEntries then EvictOne mEntries else mEntries) in
          if length mEntries = MaxEntries then (aResult, mEntries)
          else PutNew env mEntries certID firstPartyDomain aResult aThisUpdate aValidThrough)"

definition Clear :: "Entry list \<Rightarrow> Entry list" where
  "Clear mEntries = []"


section \<open>What the cache is: a map\<close>

text \<open>Each digest is there at most once, and there are at most \<open>MaxEntries\<close>. A cache stands for a map
  from digests to statuses.\<close>

definition wf_cache :: "Entry list \<Rightarrow> bool" where
  "wf_cache es \<longleftrightarrow> length es \<le> MaxEntries \<and> distinct (map mIDHash es)"

type_synonym status = "unit res \<times> Time \<times> Time"

definition entry_status :: "Entry \<Rightarrow> u8 list \<times> status" where
  "entry_status e = (mIDHash e, mResult e, mThisUpdate e, mValidThrough e)"

definition statuses :: "Entry list \<Rightarrow> u8 list \<rightharpoonup> status" where
  "statuses es = map_of (map entry_status es)"

text \<open>Statuses that are never evicted, and which of two statuses is remembered.\<close>

definition critical :: "unit res \<Rightarrow> bool" where
  "critical r \<longleftrightarrow> r = Inl ERROR_REVOKED_CERTIFICATE \<or> r = Inl ERROR_OCSP_UNKNOWN_CERT"

definition newer_status :: "status \<Rightarrow> status \<Rightarrow> status" where
  "newer_status old new =
     (if fst old = Inl ERROR_REVOKED_CERTIFICATE then old
      else if fst new = Inl ERROR_REVOKED_CERTIFICATE then new
      else if fst (snd new) < fst (snd old) then old
      else if fst new = Inr () \<or> fst new = Inl ERROR_OCSP_UNKNOWN_CERT then new
      else old)"

lemma entry_status_fst [simp]: "fst \<circ> entry_status = mIDHash"
  by (auto simp: entry_status_def)

lemma dom_statuses: "dom (statuses es) = mIDHash ` set es"
  by (simp add: statuses_def dom_map_of_conv_image_fst image_image entry_status_def)

lemma statuses_distinct:
  assumes "distinct (map mIDHash es)"
  shows "statuses es h = Some s \<longleftrightarrow> (h, s) \<in> entry_status ` set es"
proof -
  have "distinct (map fst (map entry_status es))" using assms by simp
  then show ?thesis by (simp add: statuses_def)
qed

lemma statuses_nth:
  assumes "distinct (map mIDHash es)" "i < length es"
  shows "statuses es (mIDHash (es ! i)) = Some (snd (entry_status (es ! i)))"
  using assms by (auto simp: statuses_distinct entry_status_def intro!: image_eqI [of _ _ "es ! i"])

lemma statuses_perm:
  assumes "distinct (map mIDHash es)" "mset es' = mset es"
  shows "statuses es' = statuses es" "distinct (map mIDHash es')"
proof -
  show d: "distinct (map mIDHash es')" using assms by (metis mset_map mset_eq_imp_distinct_iff)
  have "set es' = set es" using assms(2) by (metis set_mset_mset)
  then have "statuses es' h = Some s \<longleftrightarrow> statuses es h = Some s" for h s
    using statuses_distinct [OF d] statuses_distinct [OF assms(1)] by simp
  then show "statuses es' = statuses es" by (metis not_Some_eq ext)
qed

lemma find_from_end:
  "find_from_end es h n = Some i \<Longrightarrow> i < n \<and> mIDHash (es ! i) = h"
  "find_from_end es h n = None \<Longrightarrow> \<forall>i < n. mIDHash (es ! i) \<noteq> h"
  by (induction n) (auto simp: less_Suc_eq split: if_splits)

lemma FindInternal_Some:
  assumes "FindInternal env es cid d = Some i" "CertIDHash env cid d = Some h"
  shows "i < length es" "mIDHash (es ! i) = h"
  using assms find_from_end(1) unfolding FindInternal_def by (auto split: if_splits option.splits)

lemma FindInternal_None:
  assumes "FindInternal env es cid d = None" "CertIDHash env cid d = Some h"
  shows "h \<notin> mIDHash ` set es"
  using assms find_from_end(2) [of es h "length es"] unfolding FindInternal_def
  by (auto simp: in_set_conv_nth split: if_splits)

lemma mset_MakeMostRecentlyUsed:
  "i < length es \<Longrightarrow> mset (MakeMostRecentlyUsed es i) = mset es"
proof -
  assume "i < length es"
  from id_take_nth_drop [OF this] have "mset es = mset (take i es @ es ! i # drop (Suc i) es)" by metis
  then show ?thesis by (simp add: MakeMostRecentlyUsed_def Let_def)
qed

lemma length_MakeMostRecentlyUsed [simp]: "i < length es \<Longrightarrow> length (MakeMostRecentlyUsed es i) = length es"
  using mset_MakeMostRecentlyUsed by (metis size_mset)

lemma MakeMostRecentlyUsed_ok:
  assumes "wf_cache es" "i < length es"
  shows "wf_cache (MakeMostRecentlyUsed es i)" "statuses (MakeMostRecentlyUsed es i) = statuses es"
  using assms statuses_perm [OF _ mset_MakeMostRecentlyUsed [OF assms(2)]] by (simp_all add: wf_cache_def)

lemma update_entry:
  assumes "wf_cache es" "i < length es" "mIDHash e = mIDHash (es ! i)"
  shows "wf_cache (es[i := e])" "statuses (es[i := e]) = (statuses es)(mIDHash e \<mapsto> snd (entry_status e))"
proof -
  have m: "map mIDHash (es[i := e]) = map mIDHash es"
    using assms(2,3) by (simp add: map_update list_update_same_conv)
  then show wf: "wf_cache (es[i := e])" using assms(1) by (simp add: wf_cache_def)
  have d: "distinct (map mIDHash es)" "distinct (map mIDHash (es[i := e]))"
    using assms(1) wf by (simp_all add: wf_cache_def)
  show "statuses (es[i := e]) = (statuses es)(mIDHash e \<mapsto> snd (entry_status e))"
  proof
    fix h
    show "statuses (es[i := e]) h = ((statuses es)(mIDHash e \<mapsto> snd (entry_status e))) h"
    proof (cases "h = mIDHash e")
      case True
      then show ?thesis using statuses_nth [OF d(2), of i] assms(2) by simp
    next
      case False
      have "(\<exists>x \<in> set (es[i := e]). (h, s) = entry_status x) \<longleftrightarrow> (\<exists>x \<in> set es. (h, s) = entry_status x)" for s
      proof
        assume "\<exists>x \<in> set (es[i := e]). (h, s) = entry_status x"
        then obtain j where j: "j < length es" "(h, s) = entry_status (es[i := e] ! j)"
          by (auto simp: in_set_conv_nth)
        then have "j \<noteq> i" using False assms(2) by (auto simp: entry_status_def)
        then show "\<exists>x \<in> set es. (h, s) = entry_status x" using j by auto
      next
        assume "\<exists>x \<in> set es. (h, s) = entry_status x"
        then obtain j where j: "j < length es" "(h, s) = entry_status (es ! j)" by (auto simp: in_set_conv_nth)
        then have "j \<noteq> i" using False assms(3) by (auto simp: entry_status_def)
        then have "es[i := e] ! j = es ! j" by simp
        then show "\<exists>x \<in> set (es[i := e]). (h, s) = entry_status x"
          using j by (metis length_list_update nth_mem)
      qed
      then have "statuses (es[i := e]) h = Some s \<longleftrightarrow> statuses es h = Some s" for s
        unfolding statuses_distinct [OF d(1)] statuses_distinct [OF d(2)] image_iff .
      then show ?thesis using False by (metis fun_upd_other not_Some_eq)
    qed
  qed
qed


section \<open>What the operations do to the map\<close>

lemma PutExisting_ok:
  assumes wf: "wf_cache es" and i: "i < length es"
  shows "wf_cache (PutExisting es i r t v)"
    and "statuses (PutExisting es i r t v) =
      (statuses es)(mIDHash (es ! i) \<mapsto> newer_status (the (statuses es (mIDHash (es ! i)))) (r, t, v))"
proof -
  let ?e = "es ! i"
  let ?e' = "?e\<lparr>mResult := r, mThisUpdate := t, mValidThrough := v\<rparr>"
  have old: "statuses es (mIDHash ?e) = Some (mResult ?e, mThisUpdate ?e, mValidThrough ?e)"
    using statuses_nth [OF _ i] wf by (simp add: wf_cache_def entry_status_def)
  note up = update_entry [OF wf i, of ?e']
  note keep = MakeMostRecentlyUsed_ok [OF wf i]
  note set = MakeMostRecentlyUsed_ok [OF up(1), of i]
  show "wf_cache (PutExisting es i r t v)" using keep(1) set(1) i by (simp add: PutExisting_def Let_def)
  have "(statuses es)(mIDHash ?e \<mapsto> (mResult ?e, mThisUpdate ?e, mValidThrough ?e)) = statuses es"
    using old by (simp add: fun_upd_idem)
  then show "statuses (PutExisting es i r t v) =
      (statuses es)(mIDHash ?e \<mapsto> newer_status (the (statuses es (mIDHash ?e))) (r, t, v))"
    using keep(2) set(2) up(2) i old
    by (auto simp: PutExisting_def Let_def newer_status_def entry_status_def)
qed

lemma statuses_remove:
  assumes "distinct (map mIDHash (pre @ e # post))"
  shows "statuses (pre @ post) = (statuses (pre @ e # post))(mIDHash e := None)"
proof -
  have "mIDHash e \<notin> mIDHash ` set pre" "mIDHash e \<notin> mIDHash ` set post" using assms by auto
  then have "map_of (map entry_status pre) (mIDHash e) = None" "map_of (map entry_status post) (mIDHash e) = None"
    by (simp_all add: map_of_eq_None_iff entry_status_def image_image)
  then show ?thesis by (auto simp: statuses_def entry_status_def map_add_def split: option.split)
qed

lemma statuses_snoc:
  "mIDHash e \<notin> mIDHash ` set es \<Longrightarrow> statuses (es @ [e]) = (statuses es)(mIDHash e \<mapsto> snd (entry_status e))"
proof -
  assume "mIDHash e \<notin> mIDHash ` set es"
  then have "statuses es (mIDHash e) = None" using dom_statuses by (metis domIff)
  then show ?thesis by (auto simp: statuses_def entry_status_def map_add_def split: option.split)
qed

lemma PutNew_ok:
  assumes "wf_cache es" "length es < MaxEntries" "h \<notin> mIDHash ` set es" "CertIDHash env cid d = Some h"
    and "PutNew env es cid d r t v = (rv, es')"
  shows "wf_cache es' \<and>
    (if allocates env \<and> appends env then rv = Inr () \<and> statuses es' = (statuses es)(h \<mapsto> (r, t, v))
     else rv = Inl FATAL_ERROR_NO_MEMORY \<and> es' = es)"
  using assms statuses_snoc [of "\<lparr>mResult = r, mThisUpdate = t, mValidThrough = v, mIDHash = h\<rparr>" es]
  by (auto simp: PutNew_def wf_cache_def entry_status_def split: if_splits)

lemma evicted_ok:
  assumes "wf_cache es" "es = pre @ e # post"
  shows "wf_cache (pre @ post)" "mIDHash ` set (pre @ post) \<subseteq> mIDHash ` set es" "length (pre @ post) < MaxEntries"
    "statuses (pre @ post) = (statuses es)(mIDHash e := None)"
  using assms statuses_remove [of pre e post] by (auto simp: wf_cache_def)

text \<open>What is left of the map when room is made for another entry: if the cache is full, the least
  recently used status that is not critical is forgotten.\<close>

definition victim :: "Entry list \<Rightarrow> Entry option" where
  "victim es = find (\<lambda>e. \<not> critical (mResult e)) es"

definition make_room :: "Entry list \<Rightarrow> u8 list \<rightharpoonup> status" where
  "make_room es =
     (if length es < MaxEntries then statuses es
      else case victim es of None \<Rightarrow> statuses es | Some e \<Rightarrow> (statuses es)(mIDHash e := None))"

lemma victim_cases:
  assumes "victim es = Some e"
  obtains pre post where "es = pre @ e # post" "\<not> critical (mResult e)" "EvictOne es = pre @ post"
proof -
  from assms have "\<exists>pre post. es = pre @ e # post \<and> \<not> critical (mResult e) \<and> EvictOne es = pre @ post"
    unfolding victim_def
  proof (induction es)
    case (Cons x es)
    show ?case
    proof (cases "critical (mResult x)")
      case True
      then have "find (\<lambda>e. \<not> critical (mResult e)) es = Some e" using Cons.prems by simp
      from Cons.IH [OF this] obtain pre post
        where e: "es = pre @ e # post" "\<not> critical (mResult e)" "EvictOne es = pre @ post" by blast
      have "x # es = (x # pre) @ e # post" using e(1) by simp
      moreover have "EvictOne (x # es) = (x # pre) @ post" using True e(3) by (auto simp: critical_def)
      ultimately show ?thesis using e(2) by blast
    next
      case False
      then have "x # es = [] @ e # es" "EvictOne (x # es) = [] @ es" using Cons.prems by (auto simp: critical_def)
      then show ?thesis using False Cons.prems by fastforce
    qed
  qed simp
  then show ?thesis using that by blast
qed

lemma victim_None: "victim es = None \<Longrightarrow> EvictOne es = es"
  unfolding victim_def by (induction es) (auto simp: critical_def split: if_splits)

lemma Put_known:
  assumes wf: "wf_cache es" and h: "CertIDHash env cid d = Some h" "statuses es h = Some old"
    and put: "Put env es cid d r t v = (rv, es')"
  shows "wf_cache es' \<and> rv = Inr () \<and> statuses es' = (statuses es)(h \<mapsto> newer_status old (r, t, v))"
proof -
  have "h \<in> mIDHash ` set es" using h(2) dom_statuses by blast
  then obtain i where i: "FindInternal env es cid d = Some i"
    using h(1) FindInternal_None by (cases "FindInternal env es cid d") blast+
  note at = FindInternal_Some [OF i h(1)]
  show ?thesis using put i at PutExisting_ok [OF wf at(1), of r t v] h(2) by (simp add: Put_def)
qed

lemma Put_unknown:
  assumes wf: "wf_cache es" and h: "CertIDHash env cid d = Some h" "statuses es h = None"
    and put: "Put env es cid d r t v = (rv, es')"
  shows "wf_cache es' \<and>
    (if length es = MaxEntries \<and> victim es = None then rv = r \<and> es' = es
     else if allocates env \<and> appends env then rv = Inr () \<and> statuses es' = (make_room es)(h \<mapsto> (r, t, v))
     else rv = Inl FATAL_ERROR_NO_MEMORY \<and> statuses es' = make_room es)"
proof -
  have new: "h \<notin> mIDHash ` set es" using h(2) dom_statuses by blast
  then have find: "FindInternal env es cid d = None"
  proof (cases "FindInternal env es cid d")
    case (Some i)
    from FindInternal_Some [OF Some h(1)] new show ?thesis by auto
  qed
  consider "length es < MaxEntries" | "length es = MaxEntries" "victim es = None"
    | e where "length es = MaxEntries" "victim es = Some e"
    using wf by (cases "victim es") (force simp: wf_cache_def)+
  then show ?thesis
  proof cases
    case 1
    then have "PutNew env es cid d r t v = (rv, es')" using put find by (simp add: Put_def)
    from PutNew_ok [OF wf 1 new h(1) this] 1 show ?thesis by (simp add: make_room_def)
  next
    case 2
    then show ?thesis using put find victim_None wf by (simp add: Put_def)
  next
    case 3
    from 3(2) obtain pre post where e: "es = pre @ e # post" "EvictOne es = pre @ post" by (rule victim_cases)
    note ok = evicted_ok [OF wf e(1)]
    have put': "PutNew env (pre @ post) cid d r t v = (rv, es')"
      using put find 3 e(2) ok(3) by (simp add: Put_def)
    have "h \<notin> mIDHash ` set (pre @ post)" using ok(2) new by blast
    from PutNew_ok [OF ok(1,3) this h(1) put'] show ?thesis using ok(4) 3 by (simp add: make_room_def)
  qed
qed

lemma Get_ok:
  assumes wf: "wf_cache es" and h: "CertIDHash env cid d = Some h"
  shows "wf_cache (snd (Get env es cid d))" "statuses (snd (Get env es cid d)) = statuses es"
    "fst (Get env es cid d) = map_option (\<lambda>(r, t, v). (r, v)) (statuses es h)"
proof -
  have "wf_cache (snd (Get env es cid d)) \<and> statuses (snd (Get env es cid d)) = statuses es \<and>
    fst (Get env es cid d) = map_option (\<lambda>(r, t, v). (r, v)) (statuses es h)"
  proof (cases "FindInternal env es cid d")
    case None
    then have "h \<notin> dom (statuses es)" using FindInternal_None [OF None h] by (simp add: dom_statuses)
    then have "statuses es h = None" by (metis domIff)
    then show ?thesis using wf None by (simp add: Get_def)
  next
    case (Some i)
    note i = FindInternal_Some [OF Some h]
    have "distinct (map mIDHash es)" using wf by (simp add: wf_cache_def)
    from statuses_nth [OF this i(1)] i(2)
    have "statuses es h = Some (snd (entry_status (es ! i)))" by simp
    then show ?thesis using Some MakeMostRecentlyUsed_ok [OF wf i(1)]
      by (simp add: Get_def entry_status_def)
  qed
  then show "wf_cache (snd (Get env es cid d))" "statuses (snd (Get env es cid d)) = statuses es"
    "fst (Get env es cid d) = map_option (\<lambda>(r, t, v). (r, v)) (statuses es h)" by auto
qed


section \<open>Sequences of operations\<close>

text \<open>The users of the cache call \<open>Get\<close> and \<open>Put\<close>; whether there is memory for a new entry may be
  different at each call.\<close>

datatype cache_op =
    Op_Get CertID "u8 list"
  | Op_Put CertID "u8 list" "unit res" Time Time bool bool

fun cache_step :: "cache_env \<Rightarrow> cache_op \<Rightarrow> Entry list \<Rightarrow> Entry list" where
  "cache_step env (Op_Get cid d) es = snd (Get env es cid d)"
| "cache_step env (Op_Put cid d r t v a b) es = snd (Put (env\<lparr>allocates := a, appends := b\<rparr>) es cid d r t v)"

lemma CertIDHash_memory [simp]: "CertIDHash (env\<lparr>allocates := a, appends := b\<rparr>) = CertIDHash env"
  by (simp add: CertIDHash_def fun_eq_iff split: option.split)

lemma no_digest:
  assumes "wf_cache es" "CertIDHash env cid d = None"
  shows "Get env es cid d = (None, es)"
    and "wf_cache (snd (Put env es cid d r t v))"
    and "statuses (snd (Put env es cid d r t v)) = statuses es \<or>
      statuses (snd (Put env es cid d r t v)) = make_room es"
proof -
  have find: "FindInternal env es cid d = None" using assms(2) by (simp add: FindInternal_def)
  then show "Get env es cid d = (None, es)" by (simp add: Get_def)
  have put: "PutNew env es' cid d r t v = (fst (PutNew env es' cid d r t v), es')" for es'
    using assms(2) by (simp add: PutNew_def)
  have "wf_cache (snd (Put env es cid d r t v)) \<and>
    (statuses (snd (Put env es cid d r t v)) = statuses es \<or>
     statuses (snd (Put env es cid d r t v)) = make_room es)"
  proof (cases "length es < MaxEntries \<or> victim es = None")
    case True
    then have "snd (Put env es cid d r t v) = es"
      using find put [of es] victim_None [of es] by (auto simp: Put_def) (metis snd_conv)+
    then show ?thesis using assms(1) by simp
  next
    case False
    then obtain e where e: "victim es = Some e" and full: "length es = MaxEntries"
      using assms(1) by (auto simp: wf_cache_def)
    from e obtain pre post where split: "es = pre @ e # post" "EvictOne es = pre @ post" by (rule victim_cases)
    note ok = evicted_ok [OF assms(1) split(1)]
    have "snd (Put env es cid d r t v) = pre @ post"
      using find full split(2) ok(3) put [of "pre @ post"] by (simp add: Put_def) (metis snd_conv)
    then show ?thesis using ok e full by (simp add: make_room_def)
  qed
  then show "wf_cache (snd (Put env es cid d r t v))"
    and "statuses (snd (Put env es cid d r t v)) = statuses es \<or>
      statuses (snd (Put env es cid d r t v)) = make_room es" by auto
qed

definition remembers_revoked :: "Entry list \<Rightarrow> u8 list \<Rightarrow> bool" where
  "remembers_revoked es h \<longleftrightarrow> map_option fst (statuses es h) = Some (Inl ERROR_REVOKED_CERTIFICATE)"

lemma make_room_revoked:
  assumes "wf_cache es" "remembers_revoked es h"
  shows "make_room es h = statuses es h"
proof (cases "victim es")
  case (Some e)
  then obtain pre post where e: "es = pre @ e # post" "\<not> critical (mResult e)" by (rule victim_cases)
  then have "(mIDHash e, snd (entry_status e)) \<in> entry_status ` set es" by (force simp: entry_status_def)
  then have "statuses es (mIDHash e) = Some (snd (entry_status e))"
    using assms(1) statuses_distinct by (simp add: wf_cache_def)
  then have "h \<noteq> mIDHash e" using assms(2) e(2)
    by (auto simp: remembers_revoked_def entry_status_def critical_def)
  then show ?thesis using Some by (simp add: make_room_def)
qed (simp add: make_room_def)

lemma Put_keeps:
  assumes "wf_cache es"
  shows "wf_cache (snd (Put env es cid d r t v))"
    and "remembers_revoked es k \<Longrightarrow> remembers_revoked (snd (Put env es cid d r t v)) k"
proof -
  obtain rv es' where put: "Put env es cid d r t v = (rv, es')" by (cases "Put env es cid d r t v")
  have "wf_cache es' \<and> (remembers_revoked es k \<longrightarrow> remembers_revoked es' k)"
  proof (cases "CertIDHash env cid d")
    case None
    from no_digest(2,3) [OF assms None, of r t v] put make_room_revoked [OF assms, of k]
    show ?thesis by (auto simp: remembers_revoked_def)
  next
    case (Some h)
    show ?thesis
    proof (cases "statuses es h")
      case None
      from Put_unknown [OF assms Some None put] make_room_revoked [OF assms, of k] None
      show ?thesis by (auto simp: remembers_revoked_def split: if_splits)
    next
      case (Some old)
      from Put_known [OF assms \<open>CertIDHash env cid d = Some h\<close> Some put] Some
      show ?thesis by (auto simp: remembers_revoked_def newer_status_def)
    qed
  qed
  then show "wf_cache (snd (Put env es cid d r t v))"
    and "remembers_revoked es k \<Longrightarrow> remembers_revoked (snd (Put env es cid d r t v)) k"
    using put by auto
qed

lemma Get_keeps:
  assumes "wf_cache es"
  shows "wf_cache (snd (Get env es cid d))" "statuses (snd (Get env es cid d)) = statuses es"
  using Get_ok [OF assms] no_digest(1) [OF assms] assms
  by (cases "CertIDHash env cid d"; fastforce)+

text \<open>What the users of a memory for revocations rely on: no operation forgets one.\<close>

locale revocation_memory =
  fixes ok :: "'s \<Rightarrow> bool" and revoked :: "'s \<Rightarrow> 'k \<Rightarrow> bool" and step :: "'op \<Rightarrow> 's \<Rightarrow> 's"
  assumes step_ok: "ok s \<Longrightarrow> ok (step opn s)"
    and step_revoked: "ok s \<Longrightarrow> revoked s k \<Longrightarrow> revoked (step opn s) k"
begin

lemma run_ok: "ok s \<Longrightarrow> ok (fold step ops s)"
  by (induction ops arbitrary: s) (auto simp: step_ok)

lemma run_revoked: "ok s \<Longrightarrow> revoked s k \<Longrightarrow> revoked (fold step ops s) k"
  by (induction ops arbitrary: s) (auto simp: step_ok step_revoked)

end

interpretation cache: revocation_memory wf_cache remembers_revoked "cache_step env" for env
proof
  fix s k opn
  assume wf: "wf_cache s"
  then show "wf_cache (cache_step env opn s)" by (cases opn) (simp_all add: Get_keeps Put_keeps)
  assume "remembers_revoked s k"
  then show "remembers_revoked (cache_step env opn s) k"
    using wf Get_keeps(2) [OF wf] by (cases opn) (simp add: remembers_revoked_def, simp add: Put_keeps)
qed

lemma wf_cache_Nil: "wf_cache []"
  by (simp add: wf_cache_def)

lemmas reachable_wf = cache.run_ok [OF wf_cache_Nil]


text \<open>A revocation that was put is remembered, unless there is no room for it.\<close>

definition saturated :: "Entry list \<Rightarrow> bool" where
  "saturated es \<longleftrightarrow> length es = MaxEntries \<and> victim es = None"

lemma saturated_Get: "saturated (snd (Get env es cid d)) \<longleftrightarrow> saturated es"
proof (cases "FindInternal env es cid d")
  case (Some i)
  then have "i < length es"
    using find_from_end(1) by (auto simp: FindInternal_def split: if_splits option.splits)
  then have "length (MakeMostRecentlyUsed es i) = length es" "set (MakeMostRecentlyUsed es i) = set es"
    using mset_MakeMostRecentlyUsed by (simp, metis set_mset_mset)
  then show ?thesis using Some by (simp add: Get_def saturated_def victim_def find_None_iff)
qed (simp add: Get_def)

lemma Put_revoked:
  assumes "wf_cache es" "CertIDHash env cid d = Some h"
    and "Put env es cid d (Inl ERROR_REVOKED_CERTIFICATE) t v = (Inr (), es')"
  shows "remembers_revoked es' h"
  using Put_known [OF assms(1,2) _ assms(3)] Put_unknown [OF assms(1,2) _ assms(3)]
  by (cases "statuses es h") (auto simp: remembers_revoked_def newer_status_def split: if_splits)

lemma Put_error:
  assumes "wf_cache es" "CertIDHash env cid d = Some h"
    and "Put env es cid d r t v = (Inl e, es')"
  shows "e = FATAL_ERROR_NO_MEMORY \<or> r = Inl e \<and> es' = es \<and> saturated es"
  using Put_known [OF assms(1,2) _ assms(3)] Put_unknown [OF assms(1,2) _ assms(3)]
  by (cases "statuses es h") (auto simp: saturated_def split: if_splits)

section \<open>Properties\<close>

text \<open>The parts of an identifier that a certificate and its issuer provide: two DER structures and a serial
  number.\<close>

definition der_id :: "CertID \<Rightarrow> bool" where
  "der_id cid \<longleftrightarrow>
     (\<exists>v w. wf_Input v \<and> wf_Input w \<and> issuer cid = encode_tlv SEQUENCE v \<and>
       issuerSubjectPublicKeyInfo cid = encode_tlv SEQUENCE w) \<and> wf_Input (serialNumber cid)"

lemma digest_input_Some:
  assumes "digest_input cid d = Some b" "der_id cid"
  obtains v w l e where "wf_Input v" "wf_Input w" "issuer cid = encode_tlv SEQUENCE v"
    "issuerSubjectPublicKeyInfo cid = encode_tlv SEQUENCE w"
    "DigestLength (of_nat (length (serialNumber cid))) = Some l" "length (serialNumber cid) < 2 ^ 32"
    "b = encode_tlv SEQUENCE v @ encode_tlv SEQUENCE w @ l @ serialNumber cid @ e"
    "d = [] \<and> e = [] \<or> d \<noteq> [] \<and> (\<exists>k. DigestLength (of_nat (length d)) = Some k \<and> e = k @ d)"
proof -
  obtain v w where v: "wf_Input v" "wf_Input w" "issuer cid = encode_tlv SEQUENCE v"
    "issuerSubjectPublicKeyInfo cid = encode_tlv SEQUENCE w" "wf_Input (serialNumber cid)"
    using assms(2) unfolding der_id_def by blast
  obtain l where l: "DigestLength (of_nat (length (serialNumber cid))) = Some l"
    using assms(1) by (auto simp: digest_input_def split: option.splits)
  have n: "length (serialNumber cid) < 2 ^ 32" using v(5) by (simp add: wf_Input_def MAX_INPUT_def)
  show thesis
  proof (cases "d = []")
    case True
    then show ?thesis using that [OF v(1-4) l n, of "[]"] assms(1) v l by (simp add: digest_input_def)
  next
    case False
    then obtain k where k: "DigestLength (of_nat (length d)) = Some k"
      using assms(1) l by (auto simp: digest_input_def split: option.splits)
    then show ?thesis using that [OF v(1-4) l n, of "k @ d"] assms(1) v l False by (simp add: digest_input_def)
  qed
qed

lemma digest_input_inj:
  assumes b: "digest_input cid d = Some b" "digest_input cid' d' = Some b" and ids: "der_id cid" "der_id cid'"
    and len: "length d < 2 ^ 32" "length d' < 2 ^ 32"
  shows "cid = cid' \<and> d = d'"
proof -
  obtain v w l e where 1: "wf_Input v" "wf_Input w" "issuer cid = encode_tlv SEQUENCE v"
    "issuerSubjectPublicKeyInfo cid = encode_tlv SEQUENCE w"
    "DigestLength (of_nat (length (serialNumber cid))) = Some l" "length (serialNumber cid) < 2 ^ 32"
    "b = encode_tlv SEQUENCE v @ encode_tlv SEQUENCE w @ l @ serialNumber cid @ e"
    "d = [] \<and> e = [] \<or> d \<noteq> [] \<and> (\<exists>k. DigestLength (of_nat (length d)) = Some k \<and> e = k @ d)"
    using digest_input_Some [OF b(1) ids(1)] .
  obtain v' w' l' e' where 2: "wf_Input v'" "wf_Input w'" "issuer cid' = encode_tlv SEQUENCE v'"
    "issuerSubjectPublicKeyInfo cid' = encode_tlv SEQUENCE w'"
    "DigestLength (of_nat (length (serialNumber cid'))) = Some l'" "length (serialNumber cid') < 2 ^ 32"
    "b = encode_tlv SEQUENCE v' @ encode_tlv SEQUENCE w' @ l' @ serialNumber cid' @ e'"
    "d' = [] \<and> e' = [] \<or> d' \<noteq> [] \<and> (\<exists>k. DigestLength (of_nat (length d')) = Some k \<and> e' = k @ d')"
    using digest_input_Some [OF b(2) ids(2)] .
  have eq: "encode_tlv SEQUENCE v @ encode_tlv SEQUENCE w @ l @ serialNumber cid @ e =
      encode_tlv SEQUENCE v' @ encode_tlv SEQUENCE w' @ l' @ serialNumber cid' @ e'"
    using 1(7) 2(7) by (rule trans [OF sym])
  note step1 = encode_sequence_prefix [OF eq 1(1) 2(1)]
  note step2 = encode_sequence_prefix [OF conjunct2 [OF step1] 1(2) 2(2)]
  note step3 = length_prefixed_inj [OF 1(5) 2(5) 1(6) 2(6) conjunct2 [OF step2]]
  have cid: "cid = cid'" using 1(3,4) 2(3,4) step1 step2 step3 by (intro CertID.equality) auto
  have "e = e'" using step3 by simp
  moreover have "e = [] \<longleftrightarrow> d = []" "e' = [] \<longleftrightarrow> d' = []" using 1(8) 2(8) by auto
  ultimately show ?thesis using 1(8) 2(8) cid length_prefixed_inj [of d _ d' _ "[]" "[]"] len by auto
qed

text \<open>The bytes that identify a certificate in the OCSP cache determine all parts of its identifier and
  the first-party domain: as the comment in \<^verbatim>\<open>OCSPCache.cpp\<close> claims, different ones are never digested
  from the same bytes.\<close>

lemma digest_input_injective:
  assumes "digest_input cid d = Some b" and "digest_input cid' d' = Some b"
    and "der_id cid" and "der_id cid'" and "length d < 2 ^ 32" and "length d' < 2 ^ 32"
  shows "cid = cid' \<and> d = d'"
  by (rule digest_input_inj [OF assms])

definition sample_cache_id :: CertID where
  "sample_cache_id = \<lparr>issuer = [0x30, 0], issuerSubjectPublicKeyInfo = [0x30, 1, 5], serialNumber = [1, 2]\<rparr>"

lemma sample_cache_id_der: "der_id sample_cache_id"
  unfolding der_id_def
  by (intro conjI exI [of _ "[]"] exI [of _ "[5]"])
    (simp_all add: sample_cache_id_def wf_Input_def MAX_INPUT_def encode_tlv_def encode_length_def)

text \<open>C28: The OCSP cache is a map from the digests of certificate identifiers to statuses. \<open>Get\<close> looks a
  status up and changes nothing but the order of use. \<open>Put\<close> keeps a known revocation, otherwise a newer
  revocation, otherwise the newer of two statuses; a new status is added, and if the cache is full the
  least recently used status that is neither revoked nor unknown is forgotten for it; if there is
  none, the new status itself is returned, so that a revocation that cannot be remembered is an error.
  The cache never has more than 1024 entries, and never two for a certificate.\<close>

theorem OCSPCache_map:
  assumes "CertIDHash env cid d = Some h"
    and "wf_cache es" and "statuses es = m"
    and "Get env es cid d = (answer, es1)" and "Put env es cid d r t v = (rv, es2)"
  shows "answer = map_option (\<lambda>(r, t, v). (r, v)) (m h) \<and> wf_cache es1 \<and> statuses es1 = m \<and> wf_cache es2 \<and>
    (case m h of
       Some old \<Rightarrow> rv = Inr () \<and> statuses es2 = m(h \<mapsto> newer_status old (r, t, v))
     | None \<Rightarrow>
         if length es = MaxEntries \<and> victim es = None then rv = r \<and> statuses es2 = m
         else if allocates env \<and> appends env then rv = Inr () \<and> statuses es2 = (make_room es)(h \<mapsto> (r, t, v))
         else rv = Inl FATAL_ERROR_NO_MEMORY \<and> statuses es2 = make_room es)"
  using Get_ok [OF assms(2,1)] Put_known [OF assms(2,1) _ assms(5)] Put_unknown [OF assms(2,1) _ assms(5)] assms(3,4)
  by (cases "m h") auto

definition sample_cache_env :: cache_env where
  "sample_cache_env = \<lparr>sha384_digest = (\<lambda>bs. Some (replicate 48 (hd bs))), pendingError = FATAL_ERROR_LIBRARY_FAILURE,
     allocates = True, appends = True\<rparr>"

lemma sample_digest: "CertIDHash sample_cache_env sample_cache_id [] = Some (replicate 48 0x30)"
  by (simp add: CertIDHash_def digest_input_def DigestLength_def sample_cache_id_def sample_cache_env_def SHA384_LENGTH_def)

lemma sample_put:
  "Put sample_cache_env [] sample_cache_id [] (Inl ERROR_REVOKED_CERTIFICATE) (Time 5) (Time 9) =
     (Inr (), [\<lparr>mResult = Inl ERROR_REVOKED_CERTIFICATE, mThisUpdate = Time 5, mValidThrough = Time 9,
       mIDHash = replicate 48 0x30\<rparr>])"
  using sample_digest
  by (simp add: Put_def FindInternal_def PutNew_def MaxEntries_def) (simp add: sample_cache_env_def)

theorem OCSPCache_map_witness:
  "statuses [\<lparr>mResult = Inl ERROR_REVOKED_CERTIFICATE, mThisUpdate = Time 5, mValidThrough = Time 9,
      mIDHash = replicate 48 0x30\<rparr>] = [replicate 48 0x30 \<mapsto> (Inl ERROR_REVOKED_CERTIFICATE, Time 5, Time 9)]"
proof -
  have "Get sample_cache_env [] sample_cache_id [] = (None, [])" by (simp add: Get_def FindInternal_def)
  from OCSPCache_map [OF sample_digest wf_cache_Nil refl this sample_put]
  show ?thesis by (simp add: make_room_def MaxEntries_def sample_cache_env_def statuses_def [of "[]"])
qed

text \<open>Once the OCSP cache has accepted the revocation of a certificate, it answers that the certificate is
  revoked after any further uses of the cache, whatever responses are put there, until it is cleared.\<close>

lemma OCSPCache_revoked_sticky:
  assumes "CertIDHash env cid d = Some h"
    and "Put env (fold (cache_step env) earlier []) cid d (Inl ERROR_REVOKED_CERTIFICATE) t v = (Inr (), es)"
  shows "\<exists>through. fst (Get env (fold (cache_step env) later es) cid d) = Some (Inl ERROR_REVOKED_CERTIFICATE, through)"
proof -
  note wf = reachable_wf [of env earlier]
  have "wf_cache es" using Put_keeps(1) [OF wf] assms(2) by (metis snd_conv)
  moreover have "remembers_revoked es h" using Put_revoked [OF wf assms] .
  ultimately have "wf_cache (fold (cache_step env) later es)" "remembers_revoked (fold (cache_step env) later es) h"
    using cache.run_ok cache.run_revoked by blast+
  then show ?thesis using Get_ok(3) [OF _ assms(1)] by (fastforce simp: remembers_revoked_def)
qed

end
