(* ===== verification/PsmTrustDomain.thy ===== *)
theory PsmTrustDomain
  imports PkixBuild PsmOcspCache
begin

text \<open>
  The policies of \<^verbatim>\<open>security/certverifier/NSSCertDBTrustDomain.cpp\<close> (the implementation of
  \<open>TrustDomain\<close> that the browser uses), of the wrapper around it in
  \<^verbatim>\<open>OCSPVerificationTrustDomain.cpp\<close>, and of \<^verbatim>\<open>BRNameMatchingPolicy.cpp\<close>. What the methods get from
  NSS, the certificate blocklist and the network is a parameter (record \<open>services\<close>). Checking revocation,
  the method with a state, is in theory \<open>PsmRevocation\<close>.
\<close>

section \<open>Configuration\<close>

datatype OCSPFetching =
    NeverFetchOCSP | FetchOCSPForDVSoftFail | FetchOCSPForDVHardFail | FetchOCSPForEV | LocalOnlyOCSPForEV

datatype SHA1Mode =
    SHA1_Allowed | SHA1_Forbidden | UsedToBeBefore2016ButNowIsForbidden | ImportedRoot | ImportedRootOrBefore2016

datatype PinningMode = pinningDisabled | pinningAllowUserCAMITM | pinningStrict | pinningEnforceTestMode

datatype ValidityCheckingMode = CheckingOff | CheckForEV

datatype NetscapeStepUpPolicy = AlwaysMatch | MatchBefore23August2016 | MatchBefore23August2015 | NeverMatch

datatype SECTrustType = trustSSL | trustEmail | trustObjectSigning

text \<open>The members of \<open>NSSCertDBTrustDomain\<close> that its constructor sets and nothing changes.\<close>

record NSSCertDBTrustDomain =
  mCertDBTrustType :: SECTrustType
  mOCSPFetching :: OCSPFetching
  mCertShortLifetimeInDays :: u32
  mPinningMode :: PinningMode
  mMinRSABits :: u32
  mValidityCheckingMode :: ValidityCheckingMode
  mSHA1Mode :: SHA1Mode
  mNetscapeStepUpPolicy :: NetscapeStepUpPolicy
  mFirstPartyDomain :: "u8 list"
  mOCSPGetEnabled :: bool
  mHostname :: "string option"

section \<open>Services\<close>

text \<open>The trust record of a certificate in the database, for the trust type of the trust domain: its flags
  \<open>CERTDB_TRUSTED\<close>, \<open>CERTDB_TRUSTED_CA\<close> and \<open>CERTDB_TERMINAL_RECORD\<close>.\<close>

record trust_flags =
  TRUSTED :: bool
  TRUSTED_CA :: bool
  TERMINAL_RECORD :: bool

text \<open>A decoded certificate of NSS: the subject, the start of its validity in microseconds since 1970
  (\<open>None\<close> if it cannot be read), its bytes and public key, and whether it is in the built-in root list (or an
  error).\<close>

record CERTCertificate =
  derSubject :: "u8 list"
  notBefore_PRTime :: "int option"
  derCert :: "u8 list"
  derPublicKey :: "u8 list"
  builtInRoot :: "bool res"

text \<open>A request to a server, with its timeout in seconds; the data of a \<open>POST\<close>.\<close>

record http_request =
  http_host :: "u8 list"
  http_port :: u16
  http_path :: "u8 list"
  useGET :: bool
  http_firstPartyDomain :: "u8 list"
  http_timeout :: nat
  postData :: "u8 list option"

text \<open>What NSS and the other services answer.

  \<^item> \<open>cacheEnv\<close>: what the OCSP cache uses;
  \<^item> \<open>newTempCertificate\<close>: the error if \<open>CERT_NewTempCertificate\<close> fails;
  \<^item> \<open>certBlocklist\<close>: the blocklist service if there is one, with its answer or \<open>None\<close> if it fails;
  \<^item> \<open>getCertTrust\<close>: the trust record if there is one; \<open>authoritativeForEV\<close>;
  \<^item> \<open>previousTrustLevel\<close>: what the out-parameter of \<open>GetCertTrust\<close> holds before the call;
  \<^item> \<open>subjectCertList\<close>: the candidates with a subject name, each with \<open>isRoot\<close> and its bytes;
  \<^item> \<open>imposedNameConstraints\<close>: \<open>None\<close> if they cannot be looked up, \<open>Some None\<close> if there are none;
  \<^item> \<open>digestBuf\<close>, \<open>verifyRSA\<close>, \<open>verifyECDSA\<close>: the cryptography;
  \<^item> \<open>hasArena\<close>, \<open>arenaAllocates\<close>, \<open>decodeAuthInfoAccess\<close>: memory, and the entries of the extension: whether the method is
    OCSP, and the general names of the location, each with the mark of a URI;
  \<^item> \<open>hasURLParser\<close>, \<open>ParseURL\<close> (position and length of scheme, authority and path), \<open>ParseAuthority\<close>
    (position and length of the host name, and the port), \<open>Base64Encode\<close>;
  \<^item> \<open>createSession\<close> for a host and a port, and \<open>httpExchange\<close>: the response code and body that the
    server gives to the request with the given number, or an error;
  \<^item> \<open>staleTimes\<close>: what the out-parameters \<open>thisUpdate\<close> and \<open>validThrough\<close> hold after a response that
    cannot be parsed: the times of the last single response that was read, or zero;
  \<^item> \<open>constructCertList\<close>: the decoded chain, the end entity first; \<open>sha256\<close> of a certificate for the
    whitelist; \<open>ChainHasValidPins\<close>: the answer of the pinning service.\<close>

record services =
  cacheEnv :: cache_env
  newTempCertificate :: "Input \<Rightarrow> unit res"
  certBlocklist :: "(Input \<Rightarrow> bool option) option"
  getCertTrust :: "Input \<Rightarrow> trust_flags option"
  authoritativeForEV :: "Input \<Rightarrow> CertPolicyId \<Rightarrow> bool"
  previousTrustLevel :: TrustLevel
  subjectCertList :: "Input \<Rightarrow> (bool \<times> u8 list) list option"
  imposedNameConstraints :: "Input \<Rightarrow> u8 list option option"
  digestBuf :: "Input \<Rightarrow> DigestAlgorithm \<Rightarrow> nat \<Rightarrow> (u8 list) res"
  verifyRSA :: "SignedDigest \<Rightarrow> Input \<Rightarrow> unit res"
  verifyECDSA :: "SignedDigest \<Rightarrow> Input \<Rightarrow> unit res"
  hasArena :: bool
  arenaAllocates :: bool
  decodeAuthInfoAccess :: "Input \<Rightarrow> (bool \<times> (bool \<times> u8 list) list) list option"
  hasURLParser :: bool
  ParseURL :: "u8 list \<Rightarrow> ((nat \<times> int) \<times> (nat \<times> int) \<times> (nat \<times> int)) option"
  ParseAuthority :: "u8 list \<Rightarrow> (nat \<times> int \<times> int) option"
  Base64Encode :: "u8 list \<Rightarrow> u8 list option"
  createSession :: "u8 list \<Rightarrow> u16 \<Rightarrow> unit res"
  httpExchange :: "nat \<Rightarrow> http_request \<Rightarrow> (u16 \<times> u8 list) res"
  staleTimes :: "Input \<Rightarrow> Time \<times> Time"
  constructCertList :: "Input list \<Rightarrow> (CERTCertificate list) res"
  sha256_digest :: "u8 list \<Rightarrow> u8 list option"
  WhitelistedCNNICHashes :: "u8 list list"
  ChainHasValidPins :: "CERTCertificate list \<Rightarrow> string \<Rightarrow> Time \<Rightarrow> bool \<Rightarrow> bool option"

section \<open>Issuers and trust\<close>

text \<open>The loop over the candidates: what is offered to the checker, in order, and the status at the end. (When
  the checker stops the search, \<open>FindIssuer_loop\<close> of theory \<open>PkixBuild\<close> does not ask for more.)\<close>

fun FindIssuerInner ::
  "services \<Rightarrow> (bool \<times> u8 list) list \<Rightarrow> bool \<Rightarrow> Input \<Rightarrow> (Input \<times> Input option) list \<times> unit res" where
  "FindIssuerInner sv [] useRoots encodedIssuerName = ([], Inr ())"
| "FindIssuerInner sv ((candidateIsRoot, cert) # candidates) useRoots encodedIssuerName =
     (if candidateIsRoot \<noteq> useRoots then FindIssuerInner sv candidates useRoots encodedIssuerName
      else case Input_Init None (Some cert) of
        Inl _ \<Rightarrow> FindIssuerInner sv candidates useRoots encodedIssuerName
      | Inr certDER \<Rightarrow>
          (case imposedNameConstraints sv encodedIssuerName of
             None \<Rightarrow> ([], Inl FATAL_ERROR_LIBRARY_FAILURE)
           | Some None \<Rightarrow>
               (let (offered, rv) = FindIssuerInner sv candidates useRoots encodedIssuerName
                in ((certDER, None) # offered, rv))
           | Some (Some constraints) \<Rightarrow>
               (case Input_Init None (Some constraints) of
                  Inl _ \<Rightarrow> ([], Inl FATAL_ERROR_LIBRARY_FAILURE)
                | Inr nameConstraintsInput \<Rightarrow>
                    (let (offered, rv) = FindIssuerInner sv candidates useRoots encodedIssuerName
                     in ((certDER, Some nameConstraintsInput) # offered, rv)))))"

definition FindIssuer_NSS :: "services \<Rightarrow> Input \<Rightarrow> Time \<Rightarrow> (Input \<times> Input option) list \<times> unit res" where
  "FindIssuer_NSS sv encodedIssuerName time =
     (case subjectCertList sv encodedIssuerName of
        None \<Rightarrow> ([], Inr ())
      | Some candidates \<Rightarrow>
          (case FindIssuerInner sv candidates True encodedIssuerName of
             (roots, Inl e) \<Rightarrow> (roots, Inl e)
           | (roots, Inr _) \<Rightarrow>
               (let (others, rv) = FindIssuerInner sv candidates False encodedIssuerName
                in (roots @ others, rv))))"

definition GetCertTrust_NSS ::
  "NSSCertDBTrustDomain \<Rightarrow> services \<Rightarrow> EndEntityOrCA \<Rightarrow> CertPolicyId \<Rightarrow> Input \<Rightarrow> unit res \<times> TrustLevel" where
  "GetCertTrust_NSS cfg sv eeOrCA policy candidateCertDER =
     (case newTempCertificate sv candidateCertDER of
        Inl e \<Rightarrow> (Inl e, previousTrustLevel sv)
      | Inr _ \<Rightarrow>
          (case certBlocklist sv of
             None \<Rightarrow> (Inl FATAL_ERROR_LIBRARY_FAILURE, previousTrustLevel sv)
           | Some isCertRevoked \<Rightarrow>
               if mCertDBTrustType cfg = trustSSL \<and> isCertRevoked candidateCertDER = None
               then (Inl FATAL_ERROR_LIBRARY_FAILURE, previousTrustLevel sv)
               else if mCertDBTrustType cfg = trustSSL \<and> isCertRevoked candidateCertDER = Some True
               then (Inl ERROR_REVOKED_CERTIFICATE, previousTrustLevel sv)
               else (case getCertTrust sv candidateCertDER of
                  None \<Rightarrow> (Inr (), InheritsTrust)
                | Some flags \<Rightarrow>
                    let relevantTrustBit = (if eeOrCA = MustBeCA then TRUSTED_CA flags else TRUSTED flags)
                    in if TERMINAL_RECORD flags \<and> \<not> relevantTrustBit then (Inr (), ActivelyDistrusted)
                       else if TRUSTED_CA flags \<and>
                               (IsAnyPolicy policy \<or> authoritativeForEV sv candidateCertDER policy)
                       then (Inr (), TrustAnchor)
                       else (Inr (), InheritsTrust))))"

section \<open>Algorithms and keys\<close>

definition JANUARY_FIRST_2016 :: Time where
  "JANUARY_FIRST_2016 = TimeFromEpochInSeconds 1451606400"

definition CheckSignatureDigestAlgorithm_NSS ::
  "NSSCertDBTrustDomain \<Rightarrow> DigestAlgorithm \<Rightarrow> EndEntityOrCA \<Rightarrow> Time \<Rightarrow> unit res" where
  "CheckSignatureDigestAlgorithm_NSS cfg aAlg eeOrCA notBefore =
     (if aAlg = sha1 then
        (case mSHA1Mode cfg of
           SHA1_Forbidden \<Rightarrow> Inl ERROR_CERT_SIGNATURE_ALGORITHM_DISABLED
         | ImportedRootOrBefore2016 \<Rightarrow>
             if JANUARY_FIRST_2016 \<le> notBefore then Inl ERROR_CERT_SIGNATURE_ALGORITHM_DISABLED else Inr ()
         | SHA1_Allowed \<Rightarrow> Inr ()
         | ImportedRoot \<Rightarrow> Inr ()
         | UsedToBeBefore2016ButNowIsForbidden \<Rightarrow> Inl FATAL_ERROR_LIBRARY_FAILURE)
      else Inr ())"

definition CheckRSAPublicKeyModulusSizeInBits_NSS ::
  "NSSCertDBTrustDomain \<Rightarrow> EndEntityOrCA \<Rightarrow> u32 \<Rightarrow> unit res" where
  "CheckRSAPublicKeyModulusSizeInBits_NSS cfg eeOrCA modulusSizeInBits =
     (if modulusSizeInBits < mMinRSABits cfg then Inl ERROR_INADEQUATE_KEY_SIZE else Inr ())"

definition CheckECDSACurveIsAcceptable_NSS :: "EndEntityOrCA \<Rightarrow> NamedCurve \<Rightarrow> unit res" where
  "CheckECDSACurveIsAcceptable_NSS eeOrCA curve =
     (case curve of secp256r1 \<Rightarrow> Inr () | secp384r1 \<Rightarrow> Inr () | secp521r1 \<Rightarrow> Inr ())"

section \<open>Dates\<close>

definition DURATION_27_MONTHS_PLUS_SLOP :: Duration where
  "DURATION_27_MONTHS_PLUS_SLOP = Duration ((2 * 365 + 3 * 31 + 7) * ONE_DAY_IN_SECONDS)"

definition CheckValidityIsAcceptable_NSS ::
  "NSSCertDBTrustDomain \<Rightarrow> Time \<Rightarrow> Time \<Rightarrow> EndEntityOrCA \<Rightarrow> KeyPurposeId \<Rightarrow> unit res" where
  "CheckValidityIsAcceptable_NSS cfg notBefore notAfter eeOrCA keyPurpose =
     (if eeOrCA \<noteq> MustBeEndEntity then Inr ()
      else if keyPurpose = id_kp_OCSPSigning then Inr ()
      else case mValidityCheckingMode cfg of
        CheckingOff \<Rightarrow> Inr ()
      | CheckForEV \<Rightarrow>
          if Duration_between notBefore notAfter > DURATION_27_MONTHS_PLUS_SLOP then Inl ERROR_VALIDITY_TOO_LONG
          else Inr ())"

definition AUGUST_23_2015 :: Time where
  "AUGUST_23_2015 = TimeFromEpochInSeconds 1440288000"

definition AUGUST_23_2016 :: Time where
  "AUGUST_23_2016 = TimeFromEpochInSeconds 1471910400"

definition NetscapeStepUpMatchesServerAuth_NSS :: "NSSCertDBTrustDomain \<Rightarrow> Time \<Rightarrow> bool res" where
  "NetscapeStepUpMatchesServerAuth_NSS cfg notBefore =
     (case mNetscapeStepUpPolicy cfg of
        AlwaysMatch \<Rightarrow> Inr True
      | MatchBefore23August2016 \<Rightarrow> Inr (notBefore < AUGUST_23_2016)
      | MatchBefore23August2015 \<Rightarrow> Inr (notBefore < AUGUST_23_2015)
      | NeverMatch \<Rightarrow> Inr False)"

datatype BRMode = DoNotEnforce | EnforceAfter23August2016 | EnforceAfter23August2015 | Enforce

definition FallBackToCommonName_BR :: "BRMode \<Rightarrow> Time \<Rightarrow> FallBackToSearchWithinSubject res" where
  "FallBackToCommonName_BR mMode notBefore =
     Inr (case mMode of
        Enforce \<Rightarrow> FallBack_No
      | EnforceAfter23August2015 \<Rightarrow> if notBefore > AUGUST_23_2015 then FallBack_No else FallBack_Yes
      | EnforceAfter23August2016 \<Rightarrow> if notBefore > AUGUST_23_2016 then FallBack_No else FallBack_Yes
      | DoNotEnforce \<Rightarrow> FallBack_Yes)"

definition BRNameMatchingPolicy :: "BRMode \<Rightarrow> NameMatchingPolicy" where
  "BRNameMatchingPolicy mode = \<lparr>FallBackToCommonName = FallBackToCommonName_BR mode\<rparr>"

section \<open>Chains\<close>

text \<open>Subjects of roots with their own rules.\<close>

definition CAWoSignRootDN :: "u8 list" where
  "CAWoSignRootDN =
    [0x30, 0x46, 0x31, 0x0B, 0x30, 0x09, 0x06, 0x03, 0x55, 0x04, 0x06, 0x13, 0x02, 0x43, 0x4E, 0x31,
     0x1A, 0x30, 0x18, 0x06, 0x03, 0x55, 0x04, 0x0A, 0x13, 0x11, 0x57, 0x6F, 0x53, 0x69, 0x67, 0x6E,
     0x20, 0x43, 0x41, 0x20, 0x4C, 0x69, 0x6D, 0x69, 0x74, 0x65, 0x64, 0x31, 0x1B, 0x30, 0x19, 0x06,
     0x03, 0x55, 0x04, 0x03, 0x0C, 0x12, 0x43, 0x41, 0x20, 0xE6, 0xB2, 0x83, 0xE9, 0x80, 0x9A, 0xE6,
     0xA0, 0xB9, 0xE8, 0xAF, 0x81, 0xE4, 0xB9, 0xA6]"

definition CAWoSignECCRootDN :: "u8 list" where
  "CAWoSignECCRootDN =
    [0x30, 0x46, 0x31, 0x0B, 0x30, 0x09, 0x06, 0x03, 0x55, 0x04, 0x06, 0x13, 0x02, 0x43, 0x4E, 0x31,
     0x1A, 0x30, 0x18, 0x06, 0x03, 0x55, 0x04, 0x0A, 0x13, 0x11, 0x57, 0x6F, 0x53, 0x69, 0x67, 0x6E,
     0x20, 0x43, 0x41, 0x20, 0x4C, 0x69, 0x6D, 0x69, 0x74, 0x65, 0x64, 0x31, 0x1B, 0x30, 0x19, 0x06,
     0x03, 0x55, 0x04, 0x03, 0x13, 0x12, 0x43, 0x41, 0x20, 0x57, 0x6F, 0x53, 0x69, 0x67, 0x6E, 0x20,
     0x45, 0x43, 0x43, 0x20, 0x52, 0x6F, 0x6F, 0x74]"

definition CertificationAuthorityofWoSignDN :: "u8 list" where
  "CertificationAuthorityofWoSignDN =
    [0x30, 0x55, 0x31, 0x0B, 0x30, 0x09, 0x06, 0x03, 0x55, 0x04, 0x06, 0x13, 0x02, 0x43, 0x4E, 0x31,
     0x1A, 0x30, 0x18, 0x06, 0x03, 0x55, 0x04, 0x0A, 0x13, 0x11, 0x57, 0x6F, 0x53, 0x69, 0x67, 0x6E,
     0x20, 0x43, 0x41, 0x20, 0x4C, 0x69, 0x6D, 0x69, 0x74, 0x65, 0x64, 0x31, 0x2A, 0x30, 0x28, 0x06,
     0x03, 0x55, 0x04, 0x03, 0x13, 0x21, 0x43, 0x65, 0x72, 0x74, 0x69, 0x66, 0x69, 0x63, 0x61, 0x74,
     0x69, 0x6F, 0x6E, 0x20, 0x41, 0x75, 0x74, 0x68, 0x6F, 0x72, 0x69, 0x74, 0x79, 0x20, 0x6F, 0x66,
     0x20, 0x57, 0x6F, 0x53, 0x69, 0x67, 0x6E]"

definition CertificationAuthorityofWoSignG2DN :: "u8 list" where
  "CertificationAuthorityofWoSignG2DN =
    [0x30, 0x58, 0x31, 0x0B, 0x30, 0x09, 0x06, 0x03, 0x55, 0x04, 0x06, 0x13, 0x02, 0x43, 0x4E, 0x31,
     0x1A, 0x30, 0x18, 0x06, 0x03, 0x55, 0x04, 0x0A, 0x13, 0x11, 0x57, 0x6F, 0x53, 0x69, 0x67, 0x6E,
     0x20, 0x43, 0x41, 0x20, 0x4C, 0x69, 0x6D, 0x69, 0x74, 0x65, 0x64, 0x31, 0x2D, 0x30, 0x2B, 0x06,
     0x03, 0x55, 0x04, 0x03, 0x13, 0x24, 0x43, 0x65, 0x72, 0x74, 0x69, 0x66, 0x69, 0x63, 0x61, 0x74,
     0x69, 0x6F, 0x6E, 0x20, 0x41, 0x75, 0x74, 0x68, 0x6F, 0x72, 0x69, 0x74, 0x79, 0x20, 0x6F, 0x66,
     0x20, 0x57, 0x6F, 0x53, 0x69, 0x67, 0x6E, 0x20, 0x47, 0x32]"

definition StartComCertificationAuthorityDN :: "u8 list" where
  "StartComCertificationAuthorityDN =
    [0x30, 0x7D, 0x31, 0x0B, 0x30, 0x09, 0x06, 0x03, 0x55, 0x04, 0x06, 0x13, 0x02, 0x49, 0x4C, 0x31,
     0x16, 0x30, 0x14, 0x06, 0x03, 0x55, 0x04, 0x0A, 0x13, 0x0D, 0x53, 0x74, 0x61, 0x72, 0x74, 0x43,
     0x6F, 0x6D, 0x20, 0x4C, 0x74, 0x64, 0x2E, 0x31, 0x2B, 0x30, 0x29, 0x06, 0x03, 0x55, 0x04, 0x0B,
     0x13, 0x22, 0x53, 0x65, 0x63, 0x75, 0x72, 0x65, 0x20, 0x44, 0x69, 0x67, 0x69, 0x74, 0x61, 0x6C,
     0x20, 0x43, 0x65, 0x72, 0x74, 0x69, 0x66, 0x69, 0x63, 0x61, 0x74, 0x65, 0x20, 0x53, 0x69, 0x67,
     0x6E, 0x69, 0x6E, 0x67, 0x31, 0x29, 0x30, 0x27, 0x06, 0x03, 0x55, 0x04, 0x03, 0x13, 0x20, 0x53,
     0x74, 0x61, 0x72, 0x74, 0x43, 0x6F, 0x6D, 0x20, 0x43, 0x65, 0x72, 0x74, 0x69, 0x66, 0x69, 0x63,
     0x61, 0x74, 0x69, 0x6F, 0x6E, 0x20, 0x41, 0x75, 0x74, 0x68, 0x6F, 0x72, 0x69, 0x74, 0x79]"

definition StartComCertificationAuthorityG2DN :: "u8 list" where
  "StartComCertificationAuthorityG2DN =
    [0x30, 0x53, 0x31, 0x0B, 0x30, 0x09, 0x06, 0x03, 0x55, 0x04, 0x06, 0x13, 0x02, 0x49, 0x4C, 0x31,
     0x16, 0x30, 0x14, 0x06, 0x03, 0x55, 0x04, 0x0A, 0x13, 0x0D, 0x53, 0x74, 0x61, 0x72, 0x74, 0x43,
     0x6F, 0x6D, 0x20, 0x4C, 0x74, 0x64, 0x2E, 0x31, 0x2C, 0x30, 0x2A, 0x06, 0x03, 0x55, 0x04, 0x03,
     0x13, 0x23, 0x53, 0x74, 0x61, 0x72, 0x74, 0x43, 0x6F, 0x6D, 0x20, 0x43, 0x65, 0x72, 0x74, 0x69,
     0x66, 0x69, 0x63, 0x61, 0x74, 0x69, 0x6F, 0x6E, 0x20, 0x41, 0x75, 0x74, 0x68, 0x6F, 0x72, 0x69,
     0x74, 0x79, 0x20, 0x47, 0x32]"

definition CNNIC_ROOT_CA_SUBJECT_DATA :: "u8 list" where
  "CNNIC_ROOT_CA_SUBJECT_DATA =
    [0x30, 0x32, 0x31, 0x0B, 0x30, 0x09, 0x06, 0x03, 0x55, 0x04, 0x06, 0x13, 0x02, 0x43, 0x4E, 0x31,
     0x0E, 0x30, 0x0C, 0x06, 0x03, 0x55, 0x04, 0x0A, 0x13, 0x05, 0x43, 0x4E, 0x4E, 0x49, 0x43, 0x31,
     0x13, 0x30, 0x11, 0x06, 0x03, 0x55, 0x04, 0x03, 0x13, 0x0A, 0x43, 0x4E, 0x4E, 0x49, 0x43, 0x20,
     0x52, 0x4F, 0x4F, 0x54]"

definition CNNIC_EV_ROOT_CA_SUBJECT_DATA :: "u8 list" where
  "CNNIC_EV_ROOT_CA_SUBJECT_DATA =
    [0x30, 0x81, 0x8A, 0x31, 0x0B, 0x30, 0x09, 0x06, 0x03, 0x55, 0x04, 0x06, 0x13, 0x02, 0x43, 0x4E,
     0x31, 0x32, 0x30, 0x30, 0x06, 0x03, 0x55, 0x04, 0x0A, 0x0C, 0x29, 0x43, 0x68, 0x69, 0x6E, 0x61,
     0x20, 0x49, 0x6E, 0x74, 0x65, 0x72, 0x6E, 0x65, 0x74, 0x20, 0x4E, 0x65, 0x74, 0x77, 0x6F, 0x72,
     0x6B, 0x20, 0x49, 0x6E, 0x66, 0x6F, 0x72, 0x6D, 0x61, 0x74, 0x69, 0x6F, 0x6E, 0x20, 0x43, 0x65,
     0x6E, 0x74, 0x65, 0x72, 0x31, 0x47, 0x30, 0x45, 0x06, 0x03, 0x55, 0x04, 0x03, 0x0C, 0x3E, 0x43,
     0x68, 0x69, 0x6E, 0x61, 0x20, 0x49, 0x6E, 0x74, 0x65, 0x72, 0x6E, 0x65, 0x74, 0x20, 0x4E, 0x65,
     0x74, 0x77, 0x6F, 0x72, 0x6B, 0x20, 0x49, 0x6E, 0x66, 0x6F, 0x72, 0x6D, 0x61, 0x74, 0x69, 0x6F,
     0x6E, 0x20, 0x43, 0x65, 0x6E, 0x74, 0x65, 0x72, 0x20, 0x45, 0x56, 0x20, 0x43, 0x65, 0x72, 0x74,
     0x69, 0x66, 0x69, 0x63, 0x61, 0x74, 0x65, 0x73, 0x20, 0x52, 0x6F, 0x6F, 0x74]"

definition StartComAndWoSignDNs :: "u8 list list" where
  "StartComAndWoSignDNs =
     [CAWoSignRootDN,
      CAWoSignECCRootDN,
      CertificationAuthorityofWoSignDN,
      CertificationAuthorityofWoSignG2DN,
      StartComCertificationAuthorityDN,
      StartComCertificationAuthorityG2DN]"

definition CertIsStartComOrWoSign :: "CERTCertificate \<Rightarrow> bool" where
  "CertIsStartComOrWoSign cert \<longleftrightarrow> list_ex (\<lambda>dn. derSubject cert = dn) StartComAndWoSignDNs"

definition OCTOBER_21_2016 :: int where
  "OCTOBER_21_2016 = 1477008000000000"

definition CheckForStartComOrWoSign :: "CERTCertificate list \<Rightarrow> unit res" where
  "CheckForStartComOrWoSign certChain =
     (case certChain of
        [] \<Rightarrow> Inl FATAL_ERROR_LIBRARY_FAILURE
      | endEntity # _ \<Rightarrow>
          (case notBefore_PRTime endEntity of
             None \<Rightarrow> Inl FATAL_ERROR_LIBRARY_FAILURE
           | Some notBefore \<Rightarrow>
               if notBefore \<le> OCTOBER_21_2016 then Inr ()
               else if list_ex CertIsStartComOrWoSign certChain then Inl ERROR_REVOKED_CERTIFICATE
               else Inr ()))"

text \<open>A chain to a CNNIC root is only valid if the end entity is in the (sorted) list of hashes.\<close>

definition CheckCNNICWhitelist :: "services \<Rightarrow> CERTCertificate list \<Rightarrow> unit res" where
  "CheckCNNICWhitelist sv certList =
     (let root = last certList in
      if derSubject root = CNNIC_ROOT_CA_SUBJECT_DATA \<or> derSubject root = CNNIC_EV_ROOT_CA_SUBJECT_DATA then
        (case sha256_digest sv (derCert (hd certList)) of
           None \<Rightarrow> Inl FATAL_ERROR_LIBRARY_FAILURE
         | Some certHash \<Rightarrow>
             if certHash \<in> set (WhitelistedCNNICHashes sv) then Inr () else Inl ERROR_REVOKED_CERTIFICATE)
      else Inr ())"

definition CheckPins ::
  "NSSCertDBTrustDomain \<Rightarrow> services \<Rightarrow> CERTCertificate list \<Rightarrow> Time \<Rightarrow> bool \<Rightarrow> unit res" where
  "CheckPins cfg sv certList time isBuiltInRoot =
     (case mHostname cfg of
        None \<Rightarrow> Inr ()
      | Some hostname \<Rightarrow>
          if mPinningMode cfg \<noteq> pinningDisabled \<and>
             \<not> (\<not> isBuiltInRoot \<and> mPinningMode cfg = pinningAllowUserCAMITM) then
            (case ChainHasValidPins sv certList hostname time (mPinningMode cfg = pinningEnforceTestMode) of
               None \<Rightarrow> Inl FATAL_ERROR_LIBRARY_FAILURE
             | Some chainHasValidPins \<Rightarrow>
                 if \<not> chainHasValidPins then Inl ERROR_KEY_PINNING_FAILURE else Inr ())
          else Inr ())"

text \<open>The result is the chain that is stored in \<open>mBuiltChain\<close>.\<close>

definition IsChainValid_NSS ::
  "NSSCertDBTrustDomain \<Rightarrow> services \<Rightarrow> Input list \<Rightarrow> Time \<Rightarrow> (CERTCertificate list) res" where
  "IsChainValid_NSS cfg sv certArray time =
     bind_res (constructCertList sv certArray) (\<lambda>certList.
     if certList = [] then Inl FATAL_ERROR_LIBRARY_FAILURE
     else
       bind_res (CheckForStartComOrWoSign certList) (\<lambda>_.
       bind_res (CheckCNNICWhitelist sv certList) (\<lambda>_.
       bind_res (builtInRoot (last certList)) (\<lambda>isBuiltInRoot.
       bind_res (CheckPins cfg sv certList time isBuiltInRoot) (\<lambda>_.
       Inr certList)))))"

section \<open>The trust domain for the signers of OCSP responses\<close>

text \<open>It forwards to the other one, but accepts every digest algorithm, and fails if it is asked to build
  paths.\<close>

definition OCSPVerificationTrustDomain :: "NSSCertDBTrustDomain \<Rightarrow> services \<Rightarrow> TrustDomain" where
  "OCSPVerificationTrustDomain cfg sv =
     \<lparr>GetCertTrust = GetCertTrust_NSS cfg sv,
      FindIssuer = (\<lambda>_ _. ([], Inl FATAL_ERROR_LIBRARY_FAILURE)),
      IsChainValid = (\<lambda>_ _ _. Inl FATAL_ERROR_LIBRARY_FAILURE),
      CheckRevocation = (\<lambda>_ _ _ _ _ _ _. Inl FATAL_ERROR_LIBRARY_FAILURE),
      CheckSignatureDigestAlgorithm = (\<lambda>_ _ _. Inr ()),
      CheckRSAPublicKeyModulusSizeInBits = CheckRSAPublicKeyModulusSizeInBits_NSS cfg,
      VerifyRSAPKCS1SignedDigest = verifyRSA sv,
      CheckECDSACurveIsAcceptable = CheckECDSACurveIsAcceptable_NSS,
      VerifyECDSASignedDigest = verifyECDSA sv,
      CheckValidityIsAcceptable = CheckValidityIsAcceptable_NSS cfg,
      NetscapeStepUpMatchesServerAuth = NetscapeStepUpMatchesServerAuth_NSS cfg,
      DigestBuf = digestBuf sv\<rparr>"

end
