(* ===== verification/PsmOcspRequestor.thy ===== *)
theory PsmOcspRequestor
  imports PsmTrustDomain
begin

text \<open>
  \<^verbatim>\<open>security/certverifier/OCSPRequestor.cpp\<close>: how the request to an OCSP server is made from the address
  in the certificate. Parsing of URLs, base64 and the HTTP exchange are services.
\<close>

text \<open>\<open>ReplaceSubstring\<close> with a single character.\<close>

definition ReplaceByte :: "u8 \<Rightarrow> u8 list \<Rightarrow> u8 list \<Rightarrow> u8 list" where
  "ReplaceByte c new bytes = concat (map (\<lambda>b. if b = c then new else [b]) bytes)"

text \<open>The characters \<open>+\<close>, \<open>/\<close> and \<open>=\<close> are escaped.\<close>

definition EscapeBase64 :: "u8 list \<Rightarrow> u8 list" where
  "EscapeBase64 base64Request =
     ReplaceByte 0x3D [0x25, 0x33, 0x44] (ReplaceByte 0x2F [0x25, 0x32, 0x46]
       (ReplaceByte 0x2B [0x25, 0x32, 0x42] base64Request))"

definition AppendEscapedBase64Item :: "services \<Rightarrow> u8 list \<Rightarrow> u8 list \<Rightarrow> u8 list option" where
  "AppendEscapedBase64Item sv encodedRequest path =
     (case Base64Encode sv encodedRequest of
        None \<Rightarrow> None
      | Some base64Request \<Rightarrow> Some (path @ EscapeBase64 base64Request))"

definition OCSPFetchingTypeToTimeoutTime :: "OCSPFetching \<Rightarrow> nat" where
  "OCSPFetchingTypeToTimeoutTime ocspFetching =
     (case ocspFetching of
        FetchOCSPForDVSoftFail \<Rightarrow> 2
      | FetchOCSPForEV \<Rightarrow> 10
      | FetchOCSPForDVHardFail \<Rightarrow> 10
      | NeverFetchOCSP \<Rightarrow> 2
      | LocalOnlyOCSPForEV \<Rightarrow> 2)"

text \<open>A part of the URL.\<close>

definition url_part :: "u8 list \<Rightarrow> nat \<Rightarrow> int \<Rightarrow> u8 list" where
  "url_part url pos len = take (nat len) (drop pos url)"

definition to_lower_ascii :: "u8 \<Rightarrow> u8" where
  "to_lower_ascii b = (if b \<ge> 0x41 \<and> b \<le> 0x5A then b + 0x20 else b)"

text \<open>The host, the port and the path, or the error of an address that is not supported.\<close>

definition ParseOCSPURL :: "services \<Rightarrow> u8 list \<Rightarrow> (u8 list \<times> u16 \<times> u8 list) res" where
  "ParseOCSPURL sv url =
     (if length url > 2147483647 then Inl FATAL_ERROR_INVALID_ARGS
      else if \<not> hasURLParser sv then Inl FATAL_ERROR_LIBRARY_FAILURE
      else case ParseURL sv url of
        None \<Rightarrow> Inl ERROR_CERT_BAD_ACCESS_LOCATION
      | Some ((schemePos, schemeLen), (authorityPos, authorityLen), (pathPos, pathLen)) \<Rightarrow>
          if schemeLen < 0 \<or> authorityLen < 0 then Inl ERROR_CERT_BAD_ACCESS_LOCATION
          else if map to_lower_ascii (url_part url schemePos schemeLen) \<noteq> [0x68, 0x74, 0x74, 0x70]
          then Inl ERROR_CERT_BAD_ACCESS_LOCATION
          else (case ParseAuthority sv (url_part url authorityPos authorityLen) of
             None \<Rightarrow> Inl ERROR_CERT_BAD_ACCESS_LOCATION
           | Some (hostnamePos, hostnameLen, port) \<Rightarrow>
               if hostnameLen < 0 then Inl ERROR_CERT_BAD_ACCESS_LOCATION
               else if port \<noteq> - 1 \<and> (port < 0 \<or> port > 0xFFFF) then Inl ERROR_CERT_BAD_ACCESS_LOCATION
               else Inr (url_part url (authorityPos + hostnamePos) hostnameLen,
                         if port = - 1 then 80 else of_int port,
                         if pathLen > 0 then url_part url pathPos pathLen else [0x2F])))"

text \<open>The path of the request: with \<open>GET\<close>, the request is appended.\<close>

definition OCSPRequestPath :: "NSSCertDBTrustDomain \<Rightarrow> services \<Rightarrow> u8 list \<Rightarrow> u8 list \<Rightarrow> u8 list option" where
  "OCSPRequestPath cfg sv path encodedRequest =
     (if mOCSPGetEnabled cfg
      then AppendEscapedBase64Item sv encodedRequest
             (if path \<noteq> [] \<and> last path = 0x2F then path else path @ [0x2F])
      else Some path)"

text \<open>The body of the response; \<open>None\<close> is the null pointer that the item of an empty body has.\<close>

definition DoOCSPRequest ::
  "NSSCertDBTrustDomain \<Rightarrow> services \<Rightarrow> nat \<Rightarrow> u8 list \<Rightarrow> u8 list \<Rightarrow> (u8 list option) res" where
  "DoOCSPRequest cfg sv n url encodedRequest =
     bind_res (ParseOCSPURL sv url) (\<lambda>(hostname, port, path).
     bind_res (createSession sv hostname port) (\<lambda>_.
     case OCSPRequestPath cfg sv path encodedRequest of
       None \<Rightarrow> Inl FATAL_ERROR_LIBRARY_FAILURE
     | Some path \<Rightarrow>
         bind_res (httpExchange sv n
             \<lparr>http_host = hostname, http_port = port, http_path = path, useGET = mOCSPGetEnabled cfg,
              http_firstPartyDomain = mFirstPartyDomain cfg,
              http_timeout = OCSPFetchingTypeToTimeoutTime (mOCSPFetching cfg),
              postData = (if mOCSPGetEnabled cfg then None else Some encodedRequest)\<rparr>)
           (\<lambda>(httpResponseCode, httpResponseData).
         if httpResponseCode \<noteq> 200 then Inl ERROR_OCSP_SERVER_ERROR
         else if \<not> arenaAllocates sv then Inl FATAL_ERROR_NO_MEMORY
         else Inr (if httpResponseData = [] then None else Some httpResponseData))))"

lemma DoOCSPRequest_nonempty: "DoOCSPRequest cfg sv n url req = Inr (Some data) \<Longrightarrow> data \<noteq> []"
  by (auto simp: DoOCSPRequest_def bind_res_def split: sum.splits option.splits prod.splits if_splits)

end
