(* ===== verification/PkixOcsp.thy ===== *)
theory PkixOcsp
  imports PkixBuild
begin

text \<open>
  \<^verbatim>\<open>security/pkix/lib/pkixocsp.cpp\<close>: OCSP responses are parsed, their signature
  is verified as soon as the responder is known, and the status of the one certificate
  that was asked for is collected in the \<open>Context\<close>; OCSP requests are encoded.

  The members of \<open>Context\<close> that never change are the record \<open>Context\<close>, the others the
  record \<open>context_state\<close>, which the parsers thread through. \<open>thisUpdate\<close> and
  \<open>validThrough\<close> are kept as if the caller had asked for both. After a parse error the
  caller finds in them what had been read before the error; the model does not say.
\<close>

definition SHA1_DIGEST_LENGTH :: nat where
  "SHA1_DIGEST_LENGTH = 160 div 8"

datatype CertStatus = Good | Revoked | Unknown

fun cert_status_tag :: "CertStatus \<Rightarrow> u8" where
  "cert_status_tag Good = CONTEXT_SPECIFIC OR 0"
| "cert_status_tag Revoked = CONTEXT_SPECIFIC OR CONSTRUCTED OR 1"
| "cert_status_tag Unknown = CONTEXT_SPECIFIC OR 2"

record Context =
  ctx_trustDomain :: TrustDomain
  certID :: CertID
  ctx_time :: Time
  maxLifetimeInDays :: u16

record context_state =
  certStatus :: CertStatus
  thisUpdate :: Time
  validThrough :: Time
  expired :: bool
  singleSCTs :: "Input option"
  matchFound :: bool

definition initial_context :: context_state where
  "initial_context =
     \<lparr>certStatus = Unknown, thisUpdate = TimeFromElapsedSecondsAD 0,
      validThrough = TimeFromElapsedSecondsAD 0, expired = False, singleSCTs = None,
      matchFound = False\<rparr>"

section \<open>The signer\<close>

definition CertPolicyId_anyPolicy :: CertPolicyId where
  "CertPolicyId_anyPolicy = \<lparr>numBytes = 4, policy_bytes = [0x55, 0x1d, 0x20, 0x00] @ replicate 20 0\<rparr>"

definition CheckOCSPResponseSignerCert ::
  "TrustDomain \<Rightarrow> BackCert \<Rightarrow> Input \<Rightarrow> Input \<Rightarrow> Time \<Rightarrow> unit res" where
  "CheckOCSPResponseSignerCert td potentialSigner issuerSubject issuerSPKI time =
     bind_res (fst (CheckIssuerIndependentProperties td potentialSigner time noParticularKeyUsageRequired
                      id_kp_OCSPSigning CertPolicyId_anyPolicy 0)) (\<lambda>_.
     bind_res (fail_if (\<not> InputsAreEqual (bc_issuer potentialSigner) issuerSubject)
                 ERROR_OCSP_RESPONDER_CERT_INVALID) (\<lambda>_.
     VerifySignedData td (signedData potentialSigner) issuerSPKI))"

datatype ResponderIDType = byName | byKey

fun responder_id_tag :: "ResponderIDType \<Rightarrow> u8" where
  "responder_id_tag byName = CONTEXT_SPECIFIC OR CONSTRUCTED OR 1"
| "responder_id_tag byKey = CONTEXT_SPECIFIC OR CONSTRUCTED OR 2"

definition KeyHash :: "TrustDomain \<Rightarrow> Input \<Rightarrow> nat \<Rightarrow> (u8 list) res" where
  "KeyHash td spki hashBufSize =
     (if hashBufSize \<noteq> SHA1_DIGEST_LENGTH then Inl FATAL_ERROR_LIBRARY_FAILURE
      else
        bind_res (ExpectTagAndGetValueAtEnd spki SEQUENCE) (\<lambda>r.
        bind_res (ExpectTagAndSkipValue r SEQUENCE) (\<lambda>r.
        bind_res (BitStringWithNoUnusedBits r) (\<lambda>(subjectPublicKey, r).
        bind_res (End r) (\<lambda>_.
        DigestBuf td subjectPublicKey sha1 hashBufSize)))))"

text \<open>\<open>hashBuf\<close> is an array of 20 bytes that \<open>DigestBuf\<close> fills.\<close>

definition MatchKeyHash :: "TrustDomain \<Rightarrow> Input \<Rightarrow> Input \<Rightarrow> bool res" where
  "MatchKeyHash td keyHash spki =
     (if unat (GetLength keyHash) \<noteq> SHA1_DIGEST_LENGTH then Inl ERROR_OCSP_MALFORMED_RESPONSE
      else
        bind_res (KeyHash td spki SHA1_DIGEST_LENGTH) (\<lambda>hashBuf.
        Inr (InputsAreEqual (take SHA1_DIGEST_LENGTH hashBuf) keyHash)))"

definition MatchResponderID ::
  "TrustDomain \<Rightarrow> ResponderIDType \<Rightarrow> Input \<Rightarrow> Input \<Rightarrow> Input \<Rightarrow> bool res" where
  "MatchResponderID td responderIDType responderID signerSubject signerSPKI =
     (case responderIDType of
        byName \<Rightarrow> Inr (InputsAreEqual responderID signerSubject)
      | byKey \<Rightarrow>
          (case ExpectTagAndGetValue (Reader_of responderID) OCTET_STRING of
             Inl e \<Rightarrow> Inl e
           | Inr (keyHash, _) \<Rightarrow> MatchKeyHash td keyHash signerSPKI))"

definition VerifyOCSPSignedData :: "TrustDomain \<Rightarrow> SignedDataWithSignature \<Rightarrow> Input \<Rightarrow> unit res" where
  "VerifyOCSPSignedData td signedResponseData spki =
     (let rv = VerifySignedData td signedResponseData spki in
      if rv = Inl ERROR_BAD_SIGNATURE then Inl ERROR_OCSP_BAD_SIGNATURE else rv)"

text \<open>The loop over the certificates in the response.\<close>

fun VerifySignature_loop ::
  "Context \<Rightarrow> ResponderIDType \<Rightarrow> Input \<Rightarrow> SignedDataWithSignature \<Rightarrow> NonOwningDERArray \<Rightarrow> unit res" where
  "VerifySignature_loop ctx responderIDType responderID sd [] = Inl ERROR_OCSP_INVALID_SIGNING_CERT"
| "VerifySignature_loop ctx responderIDType responderID sd (der # certs) =
     (case BackCert_Init der MustBeEndEntity of
        Inl e \<Rightarrow> Inl e
      | Inr cert \<Rightarrow>
     (case MatchResponderID (ctx_trustDomain ctx) responderIDType responderID (subject cert)
             (subjectPublicKeyInfo cert) of
        Inl e \<Rightarrow>
          if IsFatalError e then Inl e
          else VerifySignature_loop ctx responderIDType responderID sd certs
      | Inr match \<Rightarrow>
          if match then
            case CheckOCSPResponseSignerCert (ctx_trustDomain ctx) cert (issuer (certID ctx))
                   (issuerSubjectPublicKeyInfo (certID ctx)) (ctx_time ctx) of
              Inl e \<Rightarrow>
                if IsFatalError e then Inl e
                else VerifySignature_loop ctx responderIDType responderID sd certs
            | Inr _ \<Rightarrow>
                VerifyOCSPSignedData (ctx_trustDomain ctx) sd (subjectPublicKeyInfo cert)
          else VerifySignature_loop ctx responderIDType responderID sd certs))"

definition VerifySignature ::
  "Context \<Rightarrow> ResponderIDType \<Rightarrow> Input \<Rightarrow> NonOwningDERArray \<Rightarrow> SignedDataWithSignature \<Rightarrow> unit res" where
  "VerifySignature ctx responderIDType responderID certs sd =
     (case MatchResponderID (ctx_trustDomain ctx) responderIDType responderID (issuer (certID ctx))
             (issuerSubjectPublicKeyInfo (certID ctx)) of
        Inl e \<Rightarrow> Inl e
      | Inr match \<Rightarrow>
          if match then
            VerifyOCSPSignedData (ctx_trustDomain ctx) sd (issuerSubjectPublicKeyInfo (certID ctx))
          else VerifySignature_loop ctx responderIDType responderID sd certs)"

section \<open>One response\<close>

definition ReadCertID :: "Context \<Rightarrow> Reader \<Rightarrow> (bool \<times> Reader) res" where
  "ReadCertID ctx input =
     (case DigestAlgorithmIdentifier input of
        Inl e \<Rightarrow> if e = ERROR_INVALID_ALGORITHM then Inr (False, SkipToEnd input) else Inl e
      | Inr (hashAlgorithm, input) \<Rightarrow>
        bind_res (ExpectTagAndGetValue input OCTET_STRING) (\<lambda>(issuerNameHash, input).
        bind_res (ExpectTagAndGetValue input OCTET_STRING) (\<lambda>(issuerKeyHash, input).
        bind_res (CertificateSerialNumber input) (\<lambda>(serial, input).
        if \<not> InputsAreEqual serial (serialNumber (certID ctx)) then Inr (False, SkipToEnd input)
        else if hashAlgorithm \<noteq> sha1 then Inr (False, SkipToEnd input)
        else if unat (GetLength issuerNameHash) \<noteq> SHA1_DIGEST_LENGTH
        then Inl ERROR_OCSP_MALFORMED_RESPONSE
        else
          bind_res (DigestBuf (ctx_trustDomain ctx) (issuer (certID ctx)) sha1 SHA1_DIGEST_LENGTH) (\<lambda>hashBuf.
          if \<not> InputsAreEqual (take SHA1_DIGEST_LENGTH hashBuf) issuerNameHash
          then Inr (False, SkipToEnd input)
          else
            bind_res (MatchKeyHash (ctx_trustDomain ctx) issuerKeyHash
                        (issuerSubjectPublicKeyInfo (certID ctx))) (\<lambda>match.
            Inr (match, input)))))))"

definition ReadCertStatus :: "context_state \<Rightarrow> Reader \<Rightarrow> (context_state \<times> Reader) res" where
  "ReadCertStatus s input =
     (if Peek input (cert_status_tag Good) then
        bind_res (ExpectTagAndEmptyValue input (cert_status_tag Good)) (\<lambda>input.
        Inr (if certStatus s \<noteq> Revoked then s\<lparr>certStatus := Good\<rparr> else s, input))
      else if Peek input (cert_status_tag Revoked) then
        bind_res (ExpectTagAndSkipValue input (cert_status_tag Revoked)) (\<lambda>input.
        Inr (s\<lparr>certStatus := Revoked\<rparr>, input))
      else
        bind_res (ExpectTagAndEmptyValue input (cert_status_tag Unknown)) (\<lambda>input.
        Inr (s, input)))"

definition SLOP_SECONDS :: u64 where
  "SLOP_SECONDS = ONE_DAY_IN_SECONDS"

definition NEXT_UPDATE_TAG :: u8 where
  "NEXT_UPDATE_TAG = CONTEXT_SPECIFIC OR CONSTRUCTED OR 0"

definition future_response :: "'a res \<Rightarrow> 'a res" where
  "future_response m = (case m of Inl _ \<Rightarrow> Inl ERROR_OCSP_FUTURE_RESPONSE | Inr x \<Rightarrow> Inr x)"

definition ReadNotAfter :: "Context \<Rightarrow> Time \<Rightarrow> Reader \<Rightarrow> (Time \<times> Reader) res" where
  "ReadNotAfter ctx thisUpd input =
     (if Peek input NEXT_UPDATE_TAG then
        bind_res (Nested input NEXT_UPDATE_TAG GeneralizedTime) (\<lambda>(nextUpdate, input).
        bind_res (fail_if (nextUpdate < thisUpd) ERROR_OCSP_MALFORMED_RESPONSE) (\<lambda>_.
        bind_res (future_response (AddSeconds thisUpd (ucast (maxLifetimeInDays ctx) * ONE_DAY_IN_SECONDS)))
          (\<lambda>notAfter.
        Inr (if nextUpdate \<le> notAfter then nextUpdate else notAfter, input))))
      else
        bind_res (future_response (AddSeconds thisUpd ONE_DAY_IN_SECONDS)) (\<lambda>notAfter.
        Inr (notAfter, input)))"

text \<open>The two dates of a response: \<open>thisUpdate\<close> and \<open>notAfterPlusSlop\<close>.\<close>

definition ReadUpdateTimes :: "Context \<Rightarrow> Reader \<Rightarrow> ((Time \<times> Time) \<times> Reader) res" where
  "ReadUpdateTimes ctx input =
     bind_res (GeneralizedTime input) (\<lambda>(thisUpd, input).
     bind_res (AddSeconds (ctx_time ctx) SLOP_SECONDS) (\<lambda>timePlusSlop.
     bind_res (fail_if (thisUpd > timePlusSlop) ERROR_OCSP_FUTURE_RESPONSE) (\<lambda>_.
     bind_res (ReadNotAfter ctx thisUpd input) (\<lambda>(notAfter, input).
     bind_res (future_response (AddSeconds notAfter SLOP_SECONDS)) (\<lambda>notAfterPlusSlop.
     Inr ((thisUpd, notAfterPlusSlop), input))))))"

definition id_ocsp_singleExtensionSctList :: "u8 list" where
  "id_ocsp_singleExtensionSctList = [0x2b, 0x06, 0x01, 0x04, 0x01, 0xd6, 0x79, 0x02, 0x04, 0x05]"

definition ExtensionNotUnderstood :: "unit \<Rightarrow> Reader \<Rightarrow> Input \<Rightarrow> bool \<Rightarrow> (unit \<times> bool) res" where
  "ExtensionNotUnderstood s extnID extnValue critical = Inr (s, False)"

definition RememberSingleExtension ::
  "context_state \<Rightarrow> Reader \<Rightarrow> Input \<Rightarrow> bool \<Rightarrow> (context_state \<times> bool) res" where
  "RememberSingleExtension s extnID extnValue critical =
     (if fst (MatchRest extnID id_ocsp_singleExtensionSctList) then
        if GetLength extnValue = 0 then Inl ERROR_EXTENSION_VALUE_INVALID
        else case Input_Init (singleSCTs s) (Some extnValue) of
          Inl _ \<Rightarrow> Inl ERROR_EXTENSION_VALUE_INVALID
        | Inr v \<Rightarrow> Inr (s\<lparr>singleSCTs := Some v\<rparr>, True)
      else Inr (s, False))"

definition SingleResponse :: "Context \<Rightarrow> context_state \<Rightarrow> Reader \<Rightarrow> (context_state \<times> Reader) res" where
  "SingleResponse ctx s input =
     bind_res (Nested input SEQUENCE (ReadCertID ctx)) (\<lambda>(match, input).
     if \<not> match then Inr (s, SkipToEnd input)
     else
       bind_res (ReadCertStatus (s\<lparr>matchFound := True\<rparr>) input) (\<lambda>(s, input).
       bind_res (ReadUpdateTimes ctx input) (\<lambda>((thisUpd, notAfterPlusSlop), input).
       let s = (if ctx_time ctx > notAfterPlusSlop then s\<lparr>expired := True\<rparr> else s) in
       bind_res (OptionalExtensions input (CONTEXT_SPECIFIC OR CONSTRUCTED OR 1) RememberSingleExtension s)
         (\<lambda>(s, input).
       Inr (s\<lparr>thisUpdate := thisUpd, validThrough := notAfterPlusSlop\<rparr>, input)))))"

section \<open>The response\<close>

definition ReadResponderID :: "Reader \<Rightarrow> ((ResponderIDType \<times> Input) \<times> Reader) res" where
  "ReadResponderID input =
     (let responderIDType = (if Peek input (responder_id_tag byName) then byName else byKey) in
      bind_res (ExpectTagAndGetValue input (responder_id_tag responderIDType)) (\<lambda>(responderID, input).
      Inr ((responderIDType, responderID), input)))"

definition ResponseData ::
  "Context \<Rightarrow> SignedDataWithSignature \<Rightarrow> NonOwningDERArray \<Rightarrow> context_state \<Rightarrow> Reader \<Rightarrow>
     (context_state \<times> Reader) res" where
  "ResponseData ctx sd certs s input =
     bind_res (OptionalVersion input) (\<lambda>(ver, input).
     bind_res (fail_if (ver \<noteq> v1) ERROR_BAD_DER) (\<lambda>_.
     bind_res (ReadResponderID input) (\<lambda>((responderIDType, responderID), input).
     bind_res (VerifySignature ctx responderIDType responderID certs sd) (\<lambda>_.
     bind_res (GeneralizedTime input) (\<lambda>(producedAt, input).
     bind_res (NestedOf input SEQUENCE SEQUENCE EmptyAllowed_No (SingleResponse ctx) s) (\<lambda>(s, input).
     bind_res (OptionalExtensions input (CONTEXT_SPECIFIC OR CONSTRUCTED OR 1) ExtensionNotUnderstood ())
       (\<lambda>(_, input).
     Inr (s, input))))))))"

function ReadCerts :: "NonOwningDERArray \<Rightarrow> Reader \<Rightarrow> (NonOwningDERArray \<times> Reader) res" where
  "ReadCerts certs certsDER =
     (if \<not> AtEnd certsDER then
        case ExpectTagAndGetTLV certsDER SEQUENCE of
          Inl e \<Rightarrow> Inl e
        | Inr (cert, certsDER') \<Rightarrow>
            (case DERArray_Append certs cert of
               Inl _ \<Rightarrow> Inl ERROR_BAD_DER
             | Inr certs' \<Rightarrow> ReadCerts certs' certsDER')
      else Inr (certs, certsDER))"
  by pat_completeness auto
termination
  by (relation "measure (\<lambda>(_, r). r_end r - r_input r)")
    (auto simp: ExpectTagAndGetTLV_def ExpectTagAndSkipValue_def ExpectTagAndGetValue_def Let_def
      split: sum.splits if_splits dest!: ReadTagAndGetValue_shrinks)

declare ReadCerts.simps [simp del]

text \<open>What is left of \<open>tbsResponseData\<close> behind the extensions is not looked at.\<close>

definition BasicResponse :: "Context \<Rightarrow> context_state \<Rightarrow> Reader \<Rightarrow> (context_state \<times> Reader) res" where
  "BasicResponse ctx s input =
     (case SignedData input of
        Inl e \<Rightarrow> if e = ERROR_BAD_SIGNATURE then Inl ERROR_OCSP_BAD_SIGNATURE else Inl e
      | Inr ((tbsResponseData, sd), input) \<Rightarrow>
          bind_res (if \<not> AtEnd input
                    then Nested2 input (CONTEXT_SPECIFIC OR CONSTRUCTED OR 0) SEQUENCE (ReadCerts [])
                    else Inr ([], input)) (\<lambda>(certs, input).
          bind_res (ResponseData ctx sd certs s tbsResponseData) (\<lambda>(s, _).
          Inr (s, input))))"

definition id_pkix_ocsp_basic :: "u8 list" where
  "id_pkix_ocsp_basic = [0x2B, 0x06, 0x01, 0x05, 0x05, 0x07, 0x30, 0x01, 0x01]"

definition ResponseBytes :: "Context \<Rightarrow> context_state \<Rightarrow> Reader \<Rightarrow> (context_state \<times> Reader) res" where
  "ResponseBytes ctx s input =
     bind_res (OID input id_pkix_ocsp_basic) (\<lambda>input.
     Nested2 input OCTET_STRING SEQUENCE (BasicResponse ctx s))"

definition CheckResponseStatus :: "u8 \<Rightarrow> unit res" where
  "CheckResponseStatus responseStatus =
     (if responseStatus = 0 then Inr ()
      else if responseStatus = 1 then Inl ERROR_OCSP_MALFORMED_REQUEST
      else if responseStatus = 2 then Inl ERROR_OCSP_SERVER_ERROR
      else if responseStatus = 3 then Inl ERROR_OCSP_TRY_SERVER_LATER
      else if responseStatus = 5 then Inl ERROR_OCSP_REQUEST_NEEDS_SIG
      else if responseStatus = 6 then Inl ERROR_OCSP_UNAUTHORIZED_REQUEST
      else Inl ERROR_OCSP_UNKNOWN_RESPONSE_STATUS)"

definition OCSPResponse :: "Context \<Rightarrow> context_state \<Rightarrow> Reader \<Rightarrow> (context_state \<times> Reader) res" where
  "OCSPResponse ctx s input =
     bind_res (Enumerated input) (\<lambda>(responseStatus, input).
     bind_res (CheckResponseStatus responseStatus) (\<lambda>_.
     Nested2 input (CONTEXT_SPECIFIC OR CONSTRUCTED OR 0) SEQUENCE (ResponseBytes ctx s)))"

definition MapBadDERToMalformedOCSPResponse :: "error \<Rightarrow> error" where
  "MapBadDERToMalformedOCSPResponse rv =
     (if rv = ERROR_BAD_DER then ERROR_OCSP_MALFORMED_RESPONSE else rv)"

definition ParseOCSPResponse :: "Context \<Rightarrow> Input \<Rightarrow> context_state res" where
  "ParseOCSPResponse ctx encodedResponse =
     bind_res (Nested (Reader_of encodedResponse) SEQUENCE (OCSPResponse ctx initial_context)) (\<lambda>(s, input).
     bind_res (End input) (\<lambda>_.
     Inr s))"

text \<open>The \<open>switch\<close> on the status: the result and the events.\<close>

definition ReportStatus :: "context_state \<Rightarrow> td_event list \<Rightarrow> unit res \<times> td_event list" where
  "ReportStatus s ev =
     (case certStatus s of
        Good \<Rightarrow>
          if expired s then (Inl ERROR_OCSP_OLD_RESPONSE, ev)
          else (case singleSCTs s of
             None \<Rightarrow> (Inr (), ev)
           | Some scts \<Rightarrow>
               if GetLength scts \<noteq> 0 then
                 case ExtractSignedCertificateTimestampListFromExtension scts of
                   Inl e \<Rightarrow> (Inl (MapBadDERToMalformedOCSPResponse e), ev)
                 | Inr sctList \<Rightarrow>
                     (Inr (), ev @ [NoteAuxiliaryExtension_called SCTListFromOCSPResponse sctList])
               else (Inr (), ev))
      | Revoked \<Rightarrow> (Inl ERROR_REVOKED_CERTIFICATE, ev)
      | Unknown \<Rightarrow> (Inl ERROR_OCSP_UNKNOWN_CERT, ev))"

text \<open>The result, the out-parameter \<open>expired\<close>, the two times (when they are known), and
  the events.\<close>

definition VerifyEncodedOCSPResponse ::
  "TrustDomain \<Rightarrow> CertID \<Rightarrow> Time \<Rightarrow> u16 \<Rightarrow> Input \<Rightarrow> td_event list \<Rightarrow>
     unit res \<times> bool \<times> (Time \<times> Time) option \<times> td_event list" where
  "VerifyEncodedOCSPResponse td cid time maxOCSPLifetimeInDays encodedResponse ev =
     (let ctx = \<lparr>ctx_trustDomain = td, certID = cid, ctx_time = time,
                 maxLifetimeInDays = maxOCSPLifetimeInDays\<rparr>
      in case ParseOCSPResponse ctx encodedResponse of
        Inl e \<Rightarrow> (Inl (MapBadDERToMalformedOCSPResponse e), False, None, ev)
      | Inr s \<Rightarrow>
          if \<not> matchFound s
          then (Inl ERROR_OCSP_RESPONSE_FOR_CERT_MISSING, False, Some (thisUpdate s, validThrough s), ev)
          else (let (rv, ev) = ReportStatus s ev
                in (rv, expired s, Some (thisUpdate s, validThrough s), ev)))"

section \<open>The request\<close>

definition OCSP_REQUEST_MAX_LENGTH :: nat where
  "OCSP_REQUEST_MAX_LENGTH = 127"

definition request_hashAlgorithm :: "u8 list" where
  "request_hashAlgorithm =
     [0x30, 0x09, 0x06, 0x05, 0x2B, 0x0E, 0x03, 0x02, 0x1A, 0x05, 0x00]"

definition hashLen :: nat where
  "hashLen = 160 div 8"

definition totalLenWithoutSerialNumberData :: nat where
  "totalLenWithoutSerialNumberData =
     2 + 2 + 2 + 2 + 2 + length request_hashAlgorithm + 2 + hashLen + 2 + hashLen + 2"

text \<open>Writing through the pointer \<open>d\<close>, which moves on: the buffer, the position.\<close>

definition put :: "u8 list \<Rightarrow> u8 list \<times> nat \<Rightarrow> u8 list \<times> nat" where
  "put bytes bufd = (case bufd of (buf, d) \<Rightarrow>
     (take d buf @ bytes @ drop (d + length bytes) buf, d + length bytes))"

function CopySerialNumber :: "Reader \<Rightarrow> u8 list \<times> nat \<Rightarrow> (u8 list \<times> nat) res" where
  "CopySerialNumber serial bufd =
     (case Read8 serial of
        Inl e \<Rightarrow> Inl e
      | Inr (b, serial') \<Rightarrow>
          if \<not> AtEnd serial' then CopySerialNumber serial' (put [b] bufd) else Inr (put [b] bufd))"
  by pat_completeness auto
termination
  by (relation "measure (\<lambda>(r, _). r_end r - r_input r)") (auto dest!: Read8_shrinks)

declare CopySerialNumber.simps [simp del]

definition CreateEncodedOCSPRequest ::
  "TrustDomain \<Rightarrow> CertID \<Rightarrow> u8 list \<Rightarrow> (u8 list \<times> nat) res" where
  "CreateEncodedOCSPRequest td cid out =
     (if unat (GetLength (serialNumber cid)) > OCSP_REQUEST_MAX_LENGTH - totalLenWithoutSerialNumberData
      then Inl ERROR_BAD_DER
      else
        let outLen = totalLenWithoutSerialNumberData + unat (GetLength (serialNumber cid));
            totalLen = (of_nat outLen :: u8);
            d = (out, 0);
            d = put [0x30, totalLen - 2] d;
            d = put [0x30, totalLen - 4] d;
            d = put [0x30, totalLen - 6] d;
            d = put [0x30, totalLen - 8] d;
            d = put [0x30, totalLen - 10] d;
            d = put request_hashAlgorithm d;
            d = put [0x04, of_nat hashLen] d
        in
        bind_res (DigestBuf td (issuer cid) sha1 hashLen) (\<lambda>nameHash.
        let d = put (take hashLen nameHash) d;
            d = put [0x04, of_nat hashLen] d
        in
        bind_res (KeyHash td (issuerSubjectPublicKeyInfo cid) hashLen) (\<lambda>keyHash.
        let d = put (take hashLen keyHash) d;
            d = put [0x02, ucast (GetLength (serialNumber cid))] d
        in
        bind_res (CopySerialNumber (Reader_of (serialNumber cid)) d) (\<lambda>(buf, d).
        Inr (buf, outLen)))))"

end
