(* ===== verification/PkixOcspRequest.thy ===== *)
theory PkixOcspRequest
  imports PkixOcsp
begin

text \<open>
  The OCSP request that \<open>CreateEncodedOCSPRequest\<close> writes (theory \<open>PkixOcsp\<close>): it is the DER
  encoding of one request, it fits into the buffer, and the certificate identifier in it is
  the one that \<open>ReadCertID\<close> looks for in the response.
\<close>

section \<open>The buffer\<close>

text \<open>The buffer \<open>out\<close> after the bytes \<open>w\<close> have been written to its start.\<close>

definition written :: "u8 list \<Rightarrow> u8 list \<Rightarrow> u8 list \<times> nat" where
  "written out w = (w @ drop (length w) out, length w)"

lemma written_Nil: "(out, 0) = written out []"
  by (simp add: written_def)

lemma put_written: "put bytes (written out w) = written out (w @ bytes)"
  by (simp add: put_def written_def add.commute)

lemma CopySerialNumber_written:
  assumes "wf_Reader r" and "remaining r \<noteq> []"
  shows "CopySerialNumber r (written out w) = Inr (written out (w @ remaining r))"
  using assms
proof (induction "remaining r" arbitrary: r w)
  case (Cons b bs)
  obtain q where q: "Read8 r = Inr (b, q)" "remaining q = bs" "wf_Reader q"
    using Read8_Cons [OF Cons.prems(1) Cons.hyps(2) [symmetric]] by blast
  show ?case
  proof (cases "bs = []")
    case True
    then show ?thesis using q Cons.hyps(2) [symmetric]
      by (subst CopySerialNumber.simps) (simp add: AtEnd_iff put_written)
  next
    case False
    then have "CopySerialNumber r (written out w) = CopySerialNumber q (written out (w @ [b]))"
      using q by (subst CopySerialNumber.simps) (simp add: AtEnd_iff put_written)
    then show ?thesis using Cons.hyps(1) [OF q(2) [symmetric] q(3)] q(2) False Cons.hyps(2) [symmetric] by simp
  qed
qed simp

lemma CopySerialNumber_empty:
  "wf_Reader r \<Longrightarrow> remaining r = [] \<Longrightarrow> CopySerialNumber r bufd = Inl ERROR_BAD_DER"
  using Read8_Nil [of r] by (subst CopySerialNumber.simps) simp

section \<open>The encoding\<close>

definition encode_cert_id :: "u8 list \<Rightarrow> u8 list \<Rightarrow> u8 list \<Rightarrow> u8 list" where
  "encode_cert_id nameHash keyHash serial =
     request_hashAlgorithm @ encode_tlv OCTET_STRING nameHash @ encode_tlv OCTET_STRING keyHash @
     encode_tlv INTEGER serial"

text \<open>\<open>OCSPRequest\<close>, \<open>tbsRequest\<close>, \<open>requestList\<close>, \<open>Request\<close>, \<open>CertID\<close>.\<close>

definition encode_request :: "u8 list \<Rightarrow> u8 list" where
  "encode_request idBytes = encode_tlv SEQUENCE (encode_tlv SEQUENCE (encode_tlv SEQUENCE
     (encode_tlv SEQUENCE (encode_tlv SEQUENCE idBytes))))"

lemma encode_tlv_short: "length v < 128 \<Longrightarrow> encode_tlv t v = t # of_nat (length v) # v"
  by (simp add: encode_tlv_def encode_length_def)

lemma length_encode_cert_id:
  "length nameHash = 20 \<Longrightarrow> length keyHash = 20 \<Longrightarrow> length serial \<le> 60 \<Longrightarrow>
   length (encode_cert_id nameHash keyHash serial) = 57 + length serial"
  by (simp add: encode_cert_id_def encode_tlv_short request_hashAlgorithm_def)

lemma encode_request_bytes:
  assumes "length idBytes = 57 + n" and "n \<le> 60"
  shows "encode_request idBytes = [0x30, of_nat (67 + n) - 2, 0x30, of_nat (67 + n) - 4,
    0x30, of_nat (67 + n) - 6, 0x30, of_nat (67 + n) - 8, 0x30, of_nat (67 + n) - 10] @ idBytes"
  using assms by (simp add: encode_request_def encode_tlv_short)

lemma request_constants:
  "totalLenWithoutSerialNumberData = 67" "OCSP_REQUEST_MAX_LENGTH = 127" "hashLen = 20" "SHA1_DIGEST_LENGTH = 20"
  by (simp_all add: totalLenWithoutSerialNumberData_def OCSP_REQUEST_MAX_LENGTH_def hashLen_def
      SHA1_DIGEST_LENGTH_def request_hashAlgorithm_def)

text \<open>The documented contract of \<open>DigestBuf\<close>: it fills the whole buffer.\<close>

definition digests_fill_buffer :: "TrustDomain \<Rightarrow> bool" where
  "digests_fill_buffer td \<longleftrightarrow> (\<forall>i alg n h. DigestBuf td i alg n = Inr h \<longrightarrow> length h = n)"

lemma DigestBuf_length: "digests_fill_buffer td \<Longrightarrow> DigestBuf td i alg n = Inr h \<Longrightarrow> length h = n"
  unfolding digests_fill_buffer_def by blast

lemma KeyHash_length: "digests_fill_buffer td \<Longrightarrow> KeyHash td spki n = Inr h \<Longrightarrow> length h = n"
  by (auto simp: KeyHash_def bind_res_Inr_iff if_Inl_Inr_iff dest: DigestBuf_length)

lemma CreateEncodedOCSPRequest_eq:
  assumes td: "digests_fill_buffer td" and serial: "wf_Input (serialNumber cid)"
    and nameHash: "DigestBuf td (issuer cid) sha1 20 = Inr nameHash"
    and keyHash: "KeyHash td (issuerSubjectPublicKeyInfo cid) 20 = Inr keyHash"
    and len: "0 < length (serialNumber cid)" "length (serialNumber cid) \<le> 60"
  shows "CreateEncodedOCSPRequest td cid out =
    (let req = encode_request (encode_cert_id nameHash keyHash (serialNumber cid))
     in Inr (req @ drop (length req) out, length req))"
proof -
  let ?s = "serialNumber cid" and ?c = "encode_cert_id nameHash keyHash (serialNumber cid)"
  have h: "length nameHash = 20" "length keyHash = 20"
    using DigestBuf_length [OF td nameHash] KeyHash_length [OF td keyHash] .
  have c: "length ?c = 57 + length ?s" by (rule length_encode_cert_id [OF h len(2)])
  have u: "(ucast (GetLength ?s) :: u8) = of_nat (length ?s)"
    using len(2) GetLength_wf [OF serial]
    by (simp add: word_unat_eq_iff unsigned_ucast_eq take_bit_eq_mod unat_of_nat_u8)
  have s: "wf_Reader (Reader_of ?s)" "remaining (Reader_of ?s) = ?s" "?s \<noteq> []" using serial len(1) by auto
  have "CreateEncodedOCSPRequest td cid out =
      Inr (fst (written out (encode_request ?c)), 67 + length ?s)"
    using len
    by (simp add: CreateEncodedOCSPRequest_def request_constants Let_def written_Nil put_written
        GetLength_wf [OF serial] nameHash keyHash u CopySerialNumber_written [OF s(1)] s h
        encode_request_bytes [OF c len(2)])
      (simp add: written_def encode_cert_id_def encode_tlv_short h)
  then show ?thesis by (simp add: written_def encode_request_bytes [OF c len(2)] c Let_def)
qed


lemma CreateEncodedOCSPRequest_cases:
  assumes td: "digests_fill_buffer td" and serial: "wf_Input (serialNumber cid)"
  shows "CreateEncodedOCSPRequest td cid out =
    (if length (serialNumber cid) > 60 then Inl ERROR_BAD_DER
     else bind_res (DigestBuf td (issuer cid) sha1 20) (\<lambda>nameHash.
       bind_res (KeyHash td (issuerSubjectPublicKeyInfo cid) 20) (\<lambda>keyHash.
       if serialNumber cid = [] then Inl ERROR_BAD_DER
       else let req = encode_request (encode_cert_id nameHash keyHash (serialNumber cid))
         in Inr (req @ drop (length req) out, length req))))"
proof (cases "length (serialNumber cid) > 60")
  case True
  then show ?thesis
    by (simp add: CreateEncodedOCSPRequest_def request_constants GetLength_wf [OF serial])
next
  case False
  then have len: "length (serialNumber cid) \<le> 60" by simp
  show ?thesis
  proof (cases "DigestBuf td (issuer cid) sha1 20")
    case (Inl e)
    then show ?thesis using len
      by (simp add: CreateEncodedOCSPRequest_def request_constants GetLength_wf [OF serial] Let_def)
  next
    case nameHash: (Inr nameHash)
    show ?thesis
    proof (cases "KeyHash td (issuerSubjectPublicKeyInfo cid) 20")
      case (Inl e)
      then show ?thesis using len nameHash
        by (simp add: CreateEncodedOCSPRequest_def request_constants GetLength_wf [OF serial] Let_def)
    next
      case keyHash: (Inr keyHash)
      show ?thesis
      proof (cases "serialNumber cid = []")
        case True
        then have "CopySerialNumber (Reader_of (serialNumber cid)) bufd = Inl ERROR_BAD_DER" for bufd
          using serial by (intro CopySerialNumber_empty) auto
        then show ?thesis using len nameHash keyHash True
          by (simp add: CreateEncodedOCSPRequest_def request_constants GetLength_wf [OF serial] Let_def)
      next
        case False
        then show ?thesis
          using CreateEncodedOCSPRequest_eq [OF td serial nameHash keyHash _ len] len nameHash keyHash by simp
      qed
    qed
  qed
qed

section \<open>The certificate identifier in a response\<close>

definition cert_id_at :: "Context \<Rightarrow> Reader \<Rightarrow> Reader \<Rightarrow> bool" where
  "cert_id_at ctx r r' \<longleftrightarrow>
     (\<exists>q1 q2 q3 nameHash keyHash.
       DigestAlgorithmIdentifier r = Inr (sha1, q1) \<and>
       tlv_at q1 OCTET_STRING nameHash q2 \<and> tlv_at q2 OCTET_STRING keyHash q3 \<and>
       tlv_at q3 INTEGER (serialNumber (certID ctx)) r' \<and> shortest (serialNumber (certID ctx)) \<and>
       DigestBuf (ctx_trustDomain ctx) (issuer (certID ctx)) sha1 20 = Inr nameHash \<and>
       KeyHash (ctx_trustDomain ctx) (issuerSubjectPublicKeyInfo (certID ctx)) 20 = Inr keyHash)"

lemma MatchKeyHash_True_iff:
  assumes "digests_fill_buffer td" and "wf_Input keyHash"
  shows "MatchKeyHash td keyHash spki = Inr True \<longleftrightarrow> KeyHash td spki 20 = Inr keyHash"
proof -
  have "wf_Input h" if "KeyHash td spki 20 = Inr h" for h
    using KeyHash_length [OF assms(1) that] by (simp add: wf_Input_def MAX_INPUT_def)
  then show ?thesis
    using KeyHash_length [OF assms(1), of spki 20] assms(2)
    by (auto simp: MatchKeyHash_def request_constants bind_res_Inr_iff InputsAreEqual_iff)
qed

lemma ReadCertID_True_iff:
  assumes td: "digests_fill_buffer (ctx_trustDomain ctx)" and serial: "wf_Input (serialNumber (certID ctx))"
    and wf: "wf_Reader r"
  shows "ReadCertID ctx r = Inr (True, r') \<longleftrightarrow> cert_id_at ctx r r'"
proof (cases "DigestAlgorithmIdentifier r")
  case (Inl e)
  then show ?thesis by (simp add: ReadCertID_def cert_id_at_def)
next
  case (Inr x)
  obtain alg q1 where x: "x = (alg, q1)" by force
  have q1: "wf_Reader q1" using digest_algorithm.wf_ok [OF wf] Inr x by blast
  have nh: "length h = 20 \<and> wf_Input h" if "DigestBuf (ctx_trustDomain ctx) i a 20 = Inr h" for i a h
    using DigestBuf_length [OF td that] by (simp add: wf_Input_def MAX_INPUT_def)
  have "ReadCertID ctx r = Inr (True, r') \<longleftrightarrow>
      (\<exists>nameHash q2 keyHash q3 s q4. tlv_at q1 OCTET_STRING nameHash q2 \<and> tlv_at q2 OCTET_STRING keyHash q3 \<and>
        tlv_at q3 INTEGER s q4 \<and> shortest s \<and> s = serialNumber (certID ctx) \<and> alg = sha1 \<and>
        DigestBuf (ctx_trustDomain ctx) (issuer (certID ctx)) sha1 20 = Inr nameHash \<and>
        KeyHash (ctx_trustDomain ctx) (issuerSubjectPublicKeyInfo (certID ctx)) 20 = Inr keyHash \<and> q4 = r')"
    (is "?l \<longleftrightarrow> ?r")
  proof
    assume ?l
    then obtain nameHash q2 keyHash q3 s q4 h where *: "ExpectTagAndGetValue q1 OCTET_STRING = Inr (nameHash, q2)"
      "ExpectTagAndGetValue q2 OCTET_STRING = Inr (keyHash, q3)" "CertificateSerialNumber q3 = Inr (s, q4)"
      "InputsAreEqual s (serialNumber (certID ctx))" "alg = sha1" "unat (GetLength nameHash) = 20"
      "DigestBuf (ctx_trustDomain ctx) (issuer (certID ctx)) sha1 20 = Inr h"
      "InputsAreEqual (take 20 h) nameHash"
      "MatchKeyHash (ctx_trustDomain ctx) keyHash (issuerSubjectPublicKeyInfo (certID ctx)) = Inr True" "q4 = r'"
      unfolding ReadCertID_def Inr x
      by (auto simp: bind_res_Inr_iff request_constants if_Inl_Inr_iff split: if_splits)
    have 1: "tlv_at q1 OCTET_STRING nameHash q2" using *(1) ExpectTagAndGetValue_iff [OF q1] by blast
    note w1 = tlv_at_wf [OF 1 q1]
    have 2: "tlv_at q2 OCTET_STRING keyHash q3" using *(2) ExpectTagAndGetValue_iff w1 by blast
    then have w2: "wf_Reader q3" "wf_Input keyHash" using tlv_at_wf w1 by blast+
    have 3: "tlv_at q3 INTEGER s q4" "shortest s" using *(3) CertificateSerialNumber_iff [OF w2(1)] by blast+
    then have "s = serialNumber (certID ctx)" using *(4) InputsAreEqual_iff [OF _ serial] tlv_at_wf w2(1) by blast
    moreover have "h = nameHash" using *(8) nh [OF *(7)] InputsAreEqual_iff [of h nameHash] w1 by simp
    ultimately show ?r
      using 1 2 3 *(5,7,9,10) MatchKeyHash_True_iff [OF td w2(2)] by blast
  next
    assume ?r
    then obtain nameHash q2 keyHash q3 where *: "tlv_at q1 OCTET_STRING nameHash q2"
      "tlv_at q2 OCTET_STRING keyHash q3" "tlv_at q3 INTEGER (serialNumber (certID ctx)) r'"
      "shortest (serialNumber (certID ctx))" "alg = sha1"
      "DigestBuf (ctx_trustDomain ctx) (issuer (certID ctx)) sha1 20 = Inr nameHash"
      "KeyHash (ctx_trustDomain ctx) (issuerSubjectPublicKeyInfo (certID ctx)) 20 = Inr keyHash" by blast
    note w1 = tlv_at_wf [OF *(1) q1] note w2 = tlv_at_wf [OF *(2) conjunct1 [OF w1]]
    have "ExpectTagAndGetValue q1 OCTET_STRING = Inr (nameHash, q2)"
      "ExpectTagAndGetValue q2 OCTET_STRING = Inr (keyHash, q3)"
      "CertificateSerialNumber q3 = Inr (serialNumber (certID ctx), r')"
      "MatchKeyHash (ctx_trustDomain ctx) keyHash (issuerSubjectPublicKeyInfo (certID ctx)) = Inr True"
      using * w1 w2 q1 MatchKeyHash_True_iff [OF td] ExpectTagAndGetValue_iff CertificateSerialNumber_iff by blast+
    then show ?l unfolding ReadCertID_def Inr x
      using *(5,6) nh [OF *(6)] w1 by (simp add: request_constants InputsAreEqual_iff serial)
  qed
  then show ?thesis unfolding cert_id_at_def Inr x by auto
qed


lemma tlv_at_front:
  assumes "remaining r = encode_tlv t v @ rest" and "t AND 0x1F \<noteq> 0x1F" and "wf_Input v" and "wf_Reader r"
  obtains q where "tlv_at r t v q" and "remaining q = rest" and "wf_Reader q"
proof
  show t: "tlv_at r t v (advance (length (encode_tlv t v)) r)" using assms by (simp add: tlv_at_def)
  show "remaining (advance (length (encode_tlv t v)) r) = rest" using assms(1) by simp
  show "wf_Reader (advance (length (encode_tlv t v)) r)" using tlv_at_wf [OF t assms(4)] by blast
qed

definition sha1_identifier :: "u8 list" where
  "sha1_identifier = encode_tlv OIDTag id_sha1 @ encode_tlv NULLTag []"

lemma request_hashAlgorithm_eq: "request_hashAlgorithm = encode_tlv SEQUENCE sha1_identifier"
  by (simp add: request_hashAlgorithm_def sha1_identifier_def id_sha1_def encode_tlv_short)

lemma sha1_identifier_read: "\<exists>q. alg_id_at (Reader_of sha1_identifier) id_sha1 q \<and> AtEnd q"
proof -
  have wf: "wf_Reader (Reader_of sha1_identifier)" "remaining (Reader_of sha1_identifier) = sha1_identifier"
    by (simp_all add: sha1_identifier_def id_sha1_def encode_tlv_short wf_Input_def MAX_INPUT_def)
  have i: "wf_Input id_sha1" "wf_Input []" by (simp_all add: id_sha1_def wf_Input_def MAX_INPUT_def)
  obtain q where q: "tlv_at (Reader_of sha1_identifier) OIDTag id_sha1 q" "remaining q = encode_tlv NULLTag []" "wf_Reader q"
    using wf i by (auto intro: tlv_at_front [of "Reader_of sha1_identifier" OIDTag id_sha1 "encode_tlv NULLTag []"]
      simp: sha1_identifier_def)
  obtain q' where q': "tlv_at q NULLTag [] q'" "remaining q' = []" "wf_Reader q'"
    using q(2,3) i by (auto intro: tlv_at_front [of q NULLTag "[]" "[]"])
  have "Peek q NULLTag" using q(2,3) by (simp add: Peek_iff encode_tlv_short)
  then show ?thesis using q(1) q'(1-3) by (auto simp: alg_id_at_def AtEnd_iff)
qed

lemma ReadCertID_encode_cert_id:
  assumes td: "digests_fill_buffer (ctx_trustDomain ctx)"
    and serial: "shortest (serialNumber (certID ctx))" "length (serialNumber (certID ctx)) \<le> 60"
    and nameHash: "DigestBuf (ctx_trustDomain ctx) (issuer (certID ctx)) sha1 20 = Inr nameHash"
    and keyHash: "KeyHash (ctx_trustDomain ctx) (issuerSubjectPublicKeyInfo (certID ctx)) 20 = Inr keyHash"
  shows "whole (ReadCertID ctx) (encode_cert_id nameHash keyHash (serialNumber (certID ctx))) = Inr True"
proof -
  let ?s = "serialNumber (certID ctx)" and ?id = "encode_cert_id nameHash keyHash (serialNumber (certID ctx))"
  have h: "length nameHash = 20" "length keyHash = 20"
    using DigestBuf_length [OF td nameHash] KeyHash_length [OF td keyHash] .
  then have w: "wf_Input nameHash" "wf_Input keyHash" "wf_Input ?s" "wf_Input ?id"
    using serial(2) by (simp_all add: wf_Input_def MAX_INPUT_def length_encode_cert_id)
  have wf: "wf_Reader (Reader_of ?id)" "remaining (Reader_of ?id) = ?id" using w(4) by simp_all
  have sha: "wf_Input sha1_identifier"
    by (simp add: sha1_identifier_def id_sha1_def encode_tlv_short wf_Input_def MAX_INPUT_def)
  obtain q1 where q1: "tlv_at (Reader_of ?id) SEQUENCE sha1_identifier q1"
    "remaining q1 = encode_tlv OCTET_STRING nameHash @ encode_tlv OCTET_STRING keyHash @ encode_tlv INTEGER ?s"
    "wf_Reader q1"
    using tlv_at_front [OF _ _ sha wf(1), of SEQUENCE] wf(2)
    unfolding encode_cert_id_def request_hashAlgorithm_eq by auto
  obtain q2 where q2: "tlv_at q1 OCTET_STRING nameHash q2"
    "remaining q2 = encode_tlv OCTET_STRING keyHash @ encode_tlv INTEGER ?s" "wf_Reader q2"
    using tlv_at_front [OF q1(2) _ w(1) q1(3)] by auto
  obtain q3 where q3: "tlv_at q2 OCTET_STRING keyHash q3" "remaining q3 = encode_tlv INTEGER ?s @ []" "wf_Reader q3"
    using tlv_at_front [OF q2(2) _ w(2) q2(3)] by auto
  obtain q4 where q4: "tlv_at q3 INTEGER ?s q4" "remaining q4 = []" "wf_Reader q4"
    using tlv_at_front [OF q3(2) _ w(3) q3(3)] by auto
  have "DigestAlgorithmIdentifier (Reader_of ?id) = Inr (sha1, q1)"
    using sha1_identifier_read q1(1) unfolding DigestAlgorithmIdentifier_iff [OF wf(1)]
    by (intro exI [of _ sha1_identifier] exI [of _ id_sha1]) (auto simp: digest_algorithms_def)
  then have "cert_id_at ctx (Reader_of ?id) q4"
    unfolding cert_id_at_def using q2(1) q3(1) q4(1) serial(1) nameHash keyHash by blast
  then show ?thesis
    using ReadCertID_True_iff [OF td w(3) wf(1), of q4] q4(2,3) by (simp add: whole_def AtEnd_iff)
qed

section \<open>Properties\<close>

text \<open>C38: The OCSP request. It is made exactly when the serial number has 1 to 60 bytes and the two
  hashes could be computed; then it is the DER encoding of a request for the one certificate,
  written to the start of the buffer; it has at most 127 bytes, so that every length in it
  has the short form and nothing is written past the buffer of 127 bytes, whose remaining
  bytes are left alone.\<close>

theorem CreateEncodedOCSPRequest_encoding:
  assumes "digests_fill_buffer td" and "wf_Input (serialNumber cid)"
    and "length out = OCSP_REQUEST_MAX_LENGTH"
  shows "CreateEncodedOCSPRequest td cid out = Inr (buf, n) \<longleftrightarrow>
    (\<exists>nameHash keyHash.
      DigestBuf td (issuer cid) sha1 20 = Inr nameHash \<and>
      KeyHash td (issuerSubjectPublicKeyInfo cid) 20 = Inr keyHash \<and>
      0 < length (serialNumber cid) \<and> length (serialNumber cid) \<le> 60 \<and>
      length buf = OCSP_REQUEST_MAX_LENGTH \<and> n \<le> OCSP_REQUEST_MAX_LENGTH \<and>
      take n buf = encode_request (encode_cert_id nameHash keyHash (serialNumber cid)) \<and>
      drop n buf = drop n out)"
proof -
  let ?s = "serialNumber cid"
  have len: "length (encode_request (encode_cert_id h k ?s)) = 67 + length ?s"
    if "DigestBuf td (issuer cid) sha1 20 = Inr h" "KeyHash td (issuerSubjectPublicKeyInfo cid) 20 = Inr k"
      "length ?s \<le> 60" for h k
  proof -
    have "length h = 20" "length k = 20" using that(1,2) DigestBuf_length KeyHash_length assms(1) by blast+
    then have "length (encode_cert_id h k ?s) = 57 + length ?s" using that(3) by (rule length_encode_cert_id)
    then show ?thesis using encode_request_bytes [OF _ that(3)] by simp
  qed
  have buf: "buf = req @ drop (length req) out \<and> n = length req \<longleftrightarrow>
      length buf = 127 \<and> n \<le> 127 \<and> take n buf = req \<and> drop n buf = drop n out"
    if "length req \<le> 127" for req :: "u8 list"
  proof
    assume "length buf = 127 \<and> n \<le> 127 \<and> take n buf = req \<and> drop n buf = drop n out"
    then show "buf = req @ drop (length req) out \<and> n = length req"
      using append_take_drop_id [of n buf] by (metis length_take min.absorb2)
  qed (use that assms(3) in \<open>auto simp: request_constants\<close>)
  have main: "(if ?s = [] then Inl ERROR_BAD_DER
       else let req = encode_request (encode_cert_id h k ?s) in Inr (req @ drop (length req) out, length req)) = Inr (buf, n) \<longleftrightarrow>
     0 < length ?s \<and> length buf = OCSP_REQUEST_MAX_LENGTH \<and> n \<le> OCSP_REQUEST_MAX_LENGTH \<and>
     take n buf = encode_request (encode_cert_id h k ?s) \<and> drop n buf = drop n out"
    if "DigestBuf td (issuer cid) sha1 20 = Inr h" "KeyHash td (issuerSubjectPublicKeyInfo cid) 20 = Inr k"
      "length ?s \<le> 60" for h k
  proof -
    have "length (encode_request (encode_cert_id h k ?s)) \<le> 127" using len [OF that] that(3) by simp
    from buf [OF this] show ?thesis by (auto simp: Let_def request_constants(2))
  qed
  show ?thesis
  proof (cases "length ?s \<le> 60")
    case True
    show ?thesis
      unfolding CreateEncodedOCSPRequest_cases [OF assms(1,2)]
      by (cases "DigestBuf td (issuer cid) sha1 20"; cases "KeyHash td (issuerSubjectPublicKeyInfo cid) 20")
        (use True in \<open>simp_all add: main [OF _ _ True] not_less del: length_greater_0_conv\<close>)
  next
    case False
    then show ?thesis unfolding CreateEncodedOCSPRequest_cases [OF assms(1,2)] by simp
  qed
qed

text \<open>Requests and responses agree on how a certificate is identified: the identifier in the
  request that \<open>CreateEncodedOCSPRequest\<close> makes is one that \<open>ReadCertID\<close> accepts for the same
  certificate, if its serial number is the shortest encoding of an integer.\<close>

lemma ReadCertID_of_request:
  assumes "digests_fill_buffer (ctx_trustDomain ctx)" and "shortest (serialNumber (certID ctx))"
    and "wf_Input (serialNumber (certID ctx))"
    and "CreateEncodedOCSPRequest (ctx_trustDomain ctx) (certID ctx) out = Inr (buf, n)"
  shows "\<exists>idBytes. take n buf = encode_request idBytes \<and> whole (ReadCertID ctx) idBytes = Inr True"
proof -
  obtain nameHash keyHash where h: "DigestBuf (ctx_trustDomain ctx) (issuer (certID ctx)) sha1 20 = Inr nameHash"
    "KeyHash (ctx_trustDomain ctx) (issuerSubjectPublicKeyInfo (certID ctx)) 20 = Inr keyHash"
    "length (serialNumber (certID ctx)) \<le> 60"
    "take n buf = encode_request (encode_cert_id nameHash keyHash (serialNumber (certID ctx)))"
    using assms(4) unfolding CreateEncodedOCSPRequest_cases [OF assms(1,3)]
    by (auto simp: bind_res_Inr_iff Let_def split: if_splits)
  then show ?thesis using ReadCertID_encode_cert_id [OF assms(1,2) h(3,1,2)] by blast
qed


text \<open>A sample key, and the identifier of a certificate with the serial number 5.\<close>

definition sample_spki :: Input where
  "sample_spki = [0x30, 0x05, 0x30, 0x00, 0x03, 0x01, 0x00]"

definition sample_cert_id :: CertID where
  "sample_cert_id = \<lparr>issuer = [0x30, 0x00], issuerSubjectPublicKeyInfo = sample_spki, serialNumber = [5]\<rparr>"

lemma sample_cert_id_simps [simp]:
  "issuer sample_cert_id = [0x30, 0x00]" "issuerSubjectPublicKeyInfo sample_cert_id = sample_spki"
  "serialNumber sample_cert_id = [5]"
  by (simp_all add: sample_cert_id_def)

lemma sample_digests: "digests_fill_buffer sample_domain"
  by (auto simp: digests_fill_buffer_def)

lemma sample_KeyHash: "KeyHash sample_domain sample_spki 20 = Inr (replicate 20 0)"
  by (simp add: KeyHash_def request_constants sample_spki_def ExpectTagAndGetValueAtEnd_def
      BitStringWithNoUnusedBits_def ExpectTagAndSkipValue_def eval_pkix cong: bind_res_weak_cong)


lemma sample_serial: "wf_Input [5]" "shortest [5]"
  by (simp_all add: wf_Input_def MAX_INPUT_def shortest_iff redundant_def)

theorem CreateEncodedOCSPRequest_encoding_witness:
  "\<exists>buf. CreateEncodedOCSPRequest sample_domain sample_cert_id (replicate 127 7) = Inr (buf, 68) \<and>
    drop 68 buf = replicate 59 7"
proof -
  let ?req = "encode_request (encode_cert_id (replicate 20 0) (replicate 20 0) [5])"
  have "length (encode_cert_id (replicate 20 0) (replicate 20 0) [5]) = 57 + 1"
    by (subst length_encode_cert_id) simp_all
  then have "length ?req = 68" using encode_request_bytes [of _ 1] by simp
  moreover have s: "wf_Input (serialNumber sample_cert_id)" "length (replicate 127 (7 :: u8)) = OCSP_REQUEST_MAX_LENGTH"
    using sample_serial by (simp_all add: request_constants)
  ultimately have "CreateEncodedOCSPRequest sample_domain sample_cert_id (replicate 127 7) =
      Inr (?req @ replicate 59 7, 68)"
    unfolding CreateEncodedOCSPRequest_encoding [OF sample_digests s]
    by (simp add: sample_KeyHash request_constants)
  then show ?thesis using \<open>length ?req = 68\<close> by simp
qed

end
