(* ===== verification/PkixOcspStatus.thy ===== *)
theory PkixOcspStatus
  imports PkixOcspRequest
begin

text \<open>
  What an OCSP response must be for \<open>VerifyEncodedOCSPResponse\<close> (theory \<open>PkixOcsp\<close>) to report
  a good status, how the statuses of several responses for one certificate are combined,
  and which errors are reported.
\<close>

section \<open>The dates of a response\<close>

abbreviation secs :: "Time \<Rightarrow> nat" where
  "secs t \<equiv> unat (elapsedSecondsAD t)"

lemma secs_less_iff: "t < t' \<longleftrightarrow> secs t < secs t'" "t \<le> t' \<longleftrightarrow> secs t \<le> secs t'"
  by (simp_all add: less_Time_def less_eq_Time_def word_less_nat_alt word_le_nat_alt)

lemma secs_eq_iff: "secs t = secs t' \<longleftrightarrow> t = t'"
  by (cases t; cases t') (simp add: word_unat_eq_iff)

lemma Time_of_secs: "Time (of_nat (secs t)) = t"
  by (cases t) simp

text \<open>A time that was read is before the year 10000.\<close>

lemma GeneralizedTime_bound:
  assumes "wf_Reader r" and "GeneralizedTime r = Inr (t, r')"
  shows "secs t < 2 ^ 40"
proof -
  obtain d where d: "valid_date d" "t = Time (of_nat (seconds_AD d))"
    using assms unfolding GeneralizedTime_def TimeChoice_internal_iff [OF assms(1)] by blast
  have "day_number d * 86400 \<le> 3660366 * 86400" using day_number_le [OF d(1)] by (intro mult_right_mono) auto
  then have "seconds_AD d < 2 ^ 40" using d(1) by (simp add: seconds_AD_def valid_date_def)
  then show ?thesis using d by (simp add: unat_seconds_AD)
qed

lemma AddSeconds_small:
  assumes "secs t + unat s < 2 ^ 64"
  shows "\<exists>t'. AddSeconds t s = Inr t' \<and> secs t' = secs t + unat s"
proof -
  have "AddSeconds t s = Inr (Time (of_nat (secs t + unat s)))"
    unfolding AddSeconds_Inr_iff using assms by (simp add: unat_of_nat_u64 del: of_nat_add)
  then show ?thesis using assms by (simp add: unat_of_nat_u64 del: of_nat_add)
qed

text \<open>The end of the validity: the next update, but not more than \<open>life\<close> days after this
  update; or one day after this update.\<close>

definition not_after :: "nat \<Rightarrow> Time \<Rightarrow> Time option \<Rightarrow> nat" where
  "not_after life thisUpd nextUpd =
     (case nextUpd of None \<Rightarrow> secs thisUpd + 86400
      | Some t \<Rightarrow> min (secs t) (secs thisUpd + life * 86400))"

lemma unat_lifetime: "unat ((ucast (m :: u16) :: u64) * ONE_DAY_IN_SECONDS) = unat m * 86400"
proof -
  have "unat m < 65536" using unsigned_less [of m] by simp
  then have "unat m * 86400 < 2 ^ 64" by simp
  then show ?thesis
    by (simp add: ONE_DAY_IN_SECONDS_def unat_word_ariths unsigned_ucast_eq take_bit_eq_mod)
qed


definition ReadNextUpdate :: "Reader \<Rightarrow> (Time option \<times> Reader) res" where
  "ReadNextUpdate input =
     (if Peek input NEXT_UPDATE_TAG
      then bind_res (Nested input NEXT_UPDATE_TAG GeneralizedTime) (\<lambda>(t, input). Inr (Some t, input))
      else Inr (None, input))"

lemma not_after_bound: "secs t < 2 ^ 40 \<Longrightarrow> life < 65536 \<Longrightarrow> not_after life t next + 86400 < 2 ^ 64"
  by (auto simp: not_after_def split: option.splits)

lemma lifetime_less: "unat (m :: u16) < 65536"
  using unsigned_less [of m] by simp

lemma AddSeconds_day:
  assumes "secs t + 86400 < 2 ^ 64"
  shows "AddSeconds t ONE_DAY_IN_SECONDS = Inr (Time (of_nat (secs t + 86400)))"
  unfolding AddSeconds_Inr_iff using assms
  by (simp add: unat_of_nat_u64 ONE_DAY_IN_SECONDS_def del: of_nat_add)

lemma ReadNotAfter_exact:
  assumes "secs t < 2 ^ 40"
  shows "ReadNotAfter ctx t input = bind_res (ReadNextUpdate input) (\<lambda>(nextUpd, input).
    if \<exists>n. nextUpd = Some n \<and> n < t then Inl ERROR_OCSP_MALFORMED_RESPONSE
    else Inr (Time (of_nat (not_after (unat (maxLifetimeInDays ctx)) t nextUpd)), input))"
proof (cases "Peek input NEXT_UPDATE_TAG")
  case False
  have "AddSeconds t ONE_DAY_IN_SECONDS = Inr (Time (of_nat (secs t + 86400)))"
    by (rule AddSeconds_day) (use assms in simp)
  then show ?thesis using False
    by (simp add: ReadNotAfter_def ReadNextUpdate_def future_response_def not_after_def)
next
  case True
  let ?l = "unat (maxLifetimeInDays ctx)"
  have l: "secs t + ?l * 86400 < 2 ^ 64" using assms lifetime_less [of "maxLifetimeInDays ctx"] by simp
  obtain L where L: "AddSeconds t (ucast (maxLifetimeInDays ctx) * ONE_DAY_IN_SECONDS) = Inr L"
    "secs L = secs t + ?l * 86400"
    using AddSeconds_small [of t "ucast (maxLifetimeInDays ctx) * ONE_DAY_IN_SECONDS"] l
    unfolding unat_lifetime by blast
  have "secs (if n \<le> L then n else L) = not_after ?l t (Some n)" for n
    by (simp add: secs_less_iff L(2) not_after_def)
  then have min: "(if n \<le> L then n else L) = Time (of_nat (not_after ?l t (Some n)))" for n
    by (metis Time_of_secs)
  show ?thesis
    using True L(1) min
    by (cases "Nested input NEXT_UPDATE_TAG GeneralizedTime")
      (auto simp: ReadNotAfter_def ReadNextUpdate_def future_response_def fail_if_def)
qed

lemma ReadUpdateTimes_exact:
  assumes wf: "wf_Reader input"
  shows "ReadUpdateTimes ctx input = bind_res (GeneralizedTime input) (\<lambda>(thisUpd, input).
    if secs (ctx_time ctx) + 86400 \<ge> 2 ^ 64 then Inl FATAL_ERROR_INVALID_ARGS
    else if secs thisUpd > secs (ctx_time ctx) + 86400 then Inl ERROR_OCSP_FUTURE_RESPONSE
    else bind_res (ReadNextUpdate input) (\<lambda>(nextUpd, input).
      if \<exists>n. nextUpd = Some n \<and> n < thisUpd then Inl ERROR_OCSP_MALFORMED_RESPONSE
      else Inr ((thisUpd, Time (of_nat (not_after (unat (maxLifetimeInDays ctx)) thisUpd nextUpd + 86400))), input)))"
proof (cases "GeneralizedTime input")
  case (Inl e)
  then show ?thesis by (simp add: ReadUpdateTimes_def)
next
  case (Inr x)
  obtain t q where x: "x = (t, q)" by force
  have t: "secs t < 2 ^ 40" using GeneralizedTime_bound [OF wf] Inr x by blast
  show ?thesis
  proof (cases "secs (ctx_time ctx) + 86400 < 2 ^ 64")
    case False
    then have "\<And>t'. AddSeconds (ctx_time ctx) SLOP_SECONDS \<noteq> Inr t'"
      unfolding AddSeconds_Inr_iff by (simp add: SLOP_SECONDS_def ONE_DAY_IN_SECONDS_def)
    then have "AddSeconds (ctx_time ctx) SLOP_SECONDS = Inl FATAL_ERROR_INVALID_ARGS"
      by (cases "AddSeconds (ctx_time ctx) SLOP_SECONDS") (auto simp: AddSeconds_def split: if_splits)
    then show ?thesis using False Inr x by (simp add: ReadUpdateTimes_def)
  next
    case True
    let ?slop = "Time (of_nat (secs (ctx_time ctx) + 86400))"
    have slop: "AddSeconds (ctx_time ctx) SLOP_SECONDS = Inr ?slop" "secs ?slop = secs (ctx_time ctx) + 86400"
      using AddSeconds_day [OF True] True by (simp_all add: SLOP_SECONDS_def unat_of_nat_u64 del: of_nat_add)
    have "AddSeconds (Time (of_nat (not_after (unat (maxLifetimeInDays ctx)) t n))) SLOP_SECONDS =
        Inr (Time (of_nat (not_after (unat (maxLifetimeInDays ctx)) t n + 86400)))" for n
      using not_after_bound [OF t lifetime_less, of "maxLifetimeInDays ctx" n]
      unfolding AddSeconds_Inr_iff
      by (simp add: SLOP_SECONDS_def ONE_DAY_IN_SECONDS_def unat_of_nat_u64 del: of_nat_add)
    then show ?thesis
      using True slop Inr x t
      by (cases "ReadNextUpdate q")
        (auto simp: ReadUpdateTimes_def ReadNotAfter_exact secs_less_iff fail_if_def future_response_def simp del: of_nat_add)
  qed
qed


section \<open>One response\<close>

text \<open>The statuses are ordered by precedence.\<close>

fun status_rank :: "CertStatus \<Rightarrow> nat" where
  "status_rank Unknown = 0"
| "status_rank Good = 1"
| "status_rank Revoked = 2"

instantiation CertStatus :: linorder
begin

definition less_CertStatus :: "CertStatus \<Rightarrow> CertStatus \<Rightarrow> bool" where
  "less_CertStatus a b \<longleftrightarrow> status_rank a < status_rank b"

definition less_eq_CertStatus :: "CertStatus \<Rightarrow> CertStatus \<Rightarrow> bool" where
  "less_eq_CertStatus a b \<longleftrightarrow> status_rank a \<le> status_rank b"

instance
proof
  fix a b :: CertStatus
  show "a \<le> b \<Longrightarrow> b \<le> a \<Longrightarrow> a = b" by (cases a; cases b) (auto simp: less_eq_CertStatus_def)
qed (auto simp: less_CertStatus_def less_eq_CertStatus_def)

end

lemmas status_order = less_CertStatus_def less_eq_CertStatus_def

lemma max_status:
  "max a Revoked = Revoked" "max s Good = (if s \<noteq> Revoked then Good else s)" "max s Unknown = s"
  by (cases a; simp add: max_def status_order) (cases s; simp add: max_def status_order)+

definition status_at :: "Reader \<Rightarrow> CertStatus \<Rightarrow> Reader \<Rightarrow> bool" where
  "status_at r st r' \<longleftrightarrow>
     (if st = Revoked then \<exists>info. tlv_at r (cert_status_tag st) info r'
      else tlv_at r (cert_status_tag st) [] r')"

lemma ReadCertStatus_iff:
  assumes wf: "wf_Reader r"
  shows "ReadCertStatus s r = Inr (s', r') \<longleftrightarrow>
    (\<exists>st. status_at r st r' \<and> s' = s\<lparr>certStatus := max (certStatus s) st\<rparr>)"
proof -
  have peek: "tlv_at r t v r' \<Longrightarrow> Peek r u \<longleftrightarrow> u = t" for t u v
    using wf by (auto simp: Peek_iff tlv_at_def encode_tlv_def)
  note peeks = peek [where u = "0x80"] peek [where u = "0xA1"]
  have tags: "cert_status_tag Good = 0x80" "cert_status_tag Revoked = 0xA1" "cert_status_tag Unknown = 0x82"
    by simp_all
  have read: "ReadCertStatus s r =
     (if Peek r 0x80 then bind_res (ExpectTagAndEmptyValue r 0x80) (\<lambda>q. Inr (s\<lparr>certStatus := max (certStatus s) Good\<rparr>, q))
      else if Peek r 0xA1 then bind_res (ExpectTagAndSkipValue r 0xA1) (\<lambda>q. Inr (s\<lparr>certStatus := max (certStatus s) Revoked\<rparr>, q))
      else bind_res (ExpectTagAndEmptyValue r 0x82) (\<lambda>q. Inr (s\<lparr>certStatus := max (certStatus s) Unknown\<rparr>, q)))"
  proof -
    have eq: "(if certStatus s \<noteq> Revoked then s\<lparr>certStatus := Good\<rparr> else s) =
        s\<lparr>certStatus := if certStatus s \<noteq> Revoked then Good else certStatus s\<rparr>"
      "s\<lparr>certStatus := certStatus s\<rparr> = s" by (cases s; simp)+
    show ?thesis unfolding ReadCertStatus_def tags max_status eq ..
  qed
  have st: "status_at r st r' \<longleftrightarrow> (case st of Good \<Rightarrow> Peek r 0x80 \<and> tlv_at r 0x80 [] r'
      | Revoked \<Rightarrow> Peek r 0xA1 \<and> (\<exists>info. tlv_at r 0xA1 info r')
      | Unknown \<Rightarrow> \<not> Peek r 0x80 \<and> \<not> Peek r 0xA1 \<and> tlv_at r 0x82 [] r')" for st
    unfolding status_at_def by (cases st) (auto simp: tags simp del: cert_status_tag.simps dest: peeks)
  have excl: "Peek r 0x80 \<Longrightarrow> \<not> Peek r 0xA1" using wf by (auto simp: Peek_iff)
  have ex: "(\<exists>st. P st) \<longleftrightarrow> P Good \<or> P Revoked \<or> P Unknown" for P by (metis CertStatus.exhaust)
  show ?thesis
    unfolding read ex st CertStatus.case
    using excl by (auto simp: bind_res_Inr_iff ExpectTagAndEmptyValue_iff [OF wf] ExpectTagAndSkipValue_iff [OF wf])
qed

text \<open>The extensions change only what is remembered of them.\<close>

lemma SingleExtensions_keep:
  assumes "wf_Reader r" and "OptionalExtensions r t RememberSingleExtension s = Inr (s', r')"
  shows "\<exists>scts. s' = s\<lparr>singleSCTs := scts\<rparr>"
proof (cases "Peek r t")
  case True
  then obtain exts where "fold_res (handle_extension RememberSingleExtension) s exts = Inr s'"
    using assms unfolding OptionalExtensions_iff [OF assms(1)] by auto
  then show ?thesis
  proof (rule fold_res_invariant [where I = "\<lambda>t. \<exists>scts. t = s\<lparr>singleSCTs := scts\<rparr>"])
    show "\<exists>scts. s = s\<lparr>singleSCTs := scts\<rparr>" by (rule exI [of _ "singleSCTs s"]) simp
    fix t x u
    assume "handle_extension RememberSingleExtension t x = Inr u" and "\<exists>scts. t = s\<lparr>singleSCTs := scts\<rparr>"
    then show "\<exists>scts. u = s\<lparr>singleSCTs := scts\<rparr>"
      by (cases x) (auto simp: RememberSingleExtension_def split: if_splits sum.splits)
  qed
next
  case False
  then have "s' = s\<lparr>singleSCTs := singleSCTs s\<rparr>"
    using assms unfolding OptionalExtensions_iff [OF assms(1)] by simp
  then show ?thesis ..
qed

text \<open>\<open>v\<close> is a response for the certificate, with its status and dates.\<close>

definition answers :: "Context \<Rightarrow> Input \<Rightarrow> CertStatus \<Rightarrow> Time \<Rightarrow> Time \<Rightarrow> bool" where
  "answers ctx v st thisUpd through \<longleftrightarrow>
     (\<exists>r1 r2 r3. Nested (Reader_of v) SEQUENCE (ReadCertID ctx) = Inr (True, r1) \<and>
       status_at r1 st r2 \<and> ReadUpdateTimes ctx r2 = Inr ((thisUpd, through), r3))"

lemma status_at_reads: "status_at r st r' \<Longrightarrow> reads r r'"
  unfolding status_at_def using tlv_at_reads by (auto split: if_splits)

lemma status_at_unique: "status_at r st r' \<Longrightarrow> status_at r st' r'' \<Longrightarrow> wf_Reader r \<Longrightarrow> st' = st \<and> r'' = r'"
proof -
  assume a: "status_at r st r'" "status_at r st' r''" and wf: "wf_Reader r"
  obtain v w where t: "tlv_at r (cert_status_tag st) v r'" "tlv_at r (cert_status_tag st') w r''"
    using a unfolding status_at_def by (auto split: if_splits)
  then have "(cert_status_tag st, v, r') = (cert_status_tag st', w, r'')"
    using ReadTagAndGetValue_iff [OF wf] by (metis sum.inject(2))
  then show ?thesis by (cases st; cases st') auto
qed

lemma answers_unique:
  assumes "answers ctx v st t u" and "answers ctx v st' t' u'" and "wf_Input v"
  shows "st' = st \<and> t' = t \<and> u' = u"
proof -
  obtain r1 r2 r3 where 1: "Nested (Reader_of v) SEQUENCE (ReadCertID ctx) = Inr (True, r1)"
    "status_at r1 st r2" "ReadUpdateTimes ctx r2 = Inr ((t, u), r3)"
    using assms(1) unfolding answers_def by blast
  obtain q1 q2 q3 where 2: "Nested (Reader_of v) SEQUENCE (ReadCertID ctx) = Inr (True, q1)"
    "status_at q1 st' q2" "ReadUpdateTimes ctx q2 = Inr ((t', u'), q3)"
    using assms(2) unfolding answers_def by blast
  have "q1 = r1" using 1(1) 2(1) by simp
  moreover have "wf_Reader r1" using nested.wf_ok [OF wf_Reader_of [OF assms(3)] 1(1)] .
  ultimately have "st' = st" "q2 = r2" using status_at_unique 1(2) 2(2) by blast+
  then show ?thesis using 1(3) 2(3) by simp
qed


lemma ReadNextUpdate_wf: "wf_Reader r \<Longrightarrow> ReadNextUpdate r = Inr (t, r') \<Longrightarrow> wf_Reader r'"
  by (auto simp: ReadNextUpdate_def bind_res_prod_Inr_iff nested.wf_ok split: if_splits)

lemma ReadUpdateTimes_wf:
  assumes wf: "wf_Reader r" and ok: "ReadUpdateTimes ctx r = Inr (t, r')"
  shows "wf_Reader r'"
proof -
  obtain x q na where x: "GeneralizedTime r = Inr (x, q)" "ReadNotAfter ctx x q = Inr (na, r')"
    using ok unfolding ReadUpdateTimes_def by (auto simp: bind_res_Inr_iff)
  then obtain n q' where n: "ReadNextUpdate q = Inr (n, q')"
    using GeneralizedTime_bound [OF wf x(1)]
    by (cases "ReadNextUpdate q") (auto simp: ReadNotAfter_exact)
  then have "q' = r'" using x(2) GeneralizedTime_bound [OF wf x(1)] by (simp add: ReadNotAfter_exact split: if_splits)
  then show ?thesis using x(1) n generalized_time.wf_ok [OF wf] ReadNextUpdate_wf by blast
qed

text \<open>What one response adds to the state.\<close>

lemma SingleResponse_step:
  assumes v: "wf_Input v" and ok: "whole (SingleResponse ctx s) v = Inr s'"
  shows "(s' = s \<and> (\<forall>st t u. \<not> answers ctx v st t u)) \<or>
    (\<exists>st t u scts. answers ctx v st t u \<and>
      s' = s\<lparr>certStatus := max (certStatus s) st, thisUpdate := t, validThrough := u,
        expired := expired s \<or> u < ctx_time ctx, singleSCTs := scts, matchFound := True\<rparr>)"
proof -
  obtain q where ok: "SingleResponse ctx s (Reader_of v) = Inr (s', q)" using ok by (auto simp: whole_iff)
  obtain match r1 where n: "Nested (Reader_of v) SEQUENCE (ReadCertID ctx) = Inr (match, r1)"
    using ok by (cases "Nested (Reader_of v) SEQUENCE (ReadCertID ctx)") (auto simp: SingleResponse_def simp del: tag_values)
  have wf1: "wf_Reader r1" using nested.wf_ok [OF wf_Reader_of [OF v] n] .
  show ?thesis
  proof (cases match)
    case False
    then have "s' = s" using ok n by (simp add: SingleResponse_def)
    moreover have "\<not> answers ctx v st t u" for st t u using n False by (simp add: answers_def)
    ultimately show ?thesis by blast
  next
    case True
    obtain s1 r2 t u r3 s2 where 1: "ReadCertStatus (s\<lparr>matchFound := True\<rparr>) r1 = Inr (s1, r2)"
      "ReadUpdateTimes ctx r2 = Inr ((t, u), r3)"
      "OptionalExtensions r3 (CONTEXT_SPECIFIC OR CONSTRUCTED OR 1) RememberSingleExtension
        (if ctx_time ctx > u then s1\<lparr>expired := True\<rparr> else s1) = Inr (s2, q)"
      "s' = s2\<lparr>thisUpdate := t, validThrough := u\<rparr>"
      using ok n True by (auto simp: SingleResponse_def bind_res_prod_Inr_iff Let_def)
    obtain st where st: "status_at r1 st r2" "s1 = s\<lparr>matchFound := True, certStatus := max (certStatus s) st\<rparr>"
      using 1(1) unfolding ReadCertStatus_iff [OF wf1] by auto
    have "wf_Reader r2" using status_at_reads [OF st(1)] wf1 reads_wf by blast
    then have "wf_Reader r3" using 1(2) ReadUpdateTimes_wf by blast
    then obtain scts where "s2 = (if ctx_time ctx > u then s1\<lparr>expired := True\<rparr> else s1)\<lparr>singleSCTs := scts\<rparr>"
      using SingleExtensions_keep 1(3) by blast
    then have "s' = s\<lparr>certStatus := max (certStatus s) st, thisUpdate := t, validThrough := u,
        expired := expired s \<or> u < ctx_time ctx, singleSCTs := scts, matchFound := True\<rparr>"
      using 1(4) st(2) by (cases s) simp
    moreover have "answers ctx v st t u" unfolding answers_def using n st(1) 1(2) eqTrueI [OF True] by blast
    ultimately show ?thesis by blast
  qed
qed


section \<open>All responses\<close>

text \<open>What the state says after the responses \<open>vs\<close>: whether one of them was for the certificate,
  the status of the highest precedence, and whether one of them was too old.\<close>

definition summary :: "Context \<Rightarrow> Input set \<Rightarrow> context_state \<Rightarrow> bool" where
  "summary ctx vs s \<longleftrightarrow>
     (matchFound s \<longleftrightarrow> (\<exists>v \<in> vs. \<exists>st t u. answers ctx v st t u)) \<and>
     certStatus s = Max (insert Unknown {st. \<exists>v \<in> vs. \<exists>t u. answers ctx v st t u}) \<and>
     (expired s \<longleftrightarrow> (\<exists>v \<in> vs. \<exists>st t u. answers ctx v st t u \<and> u < ctx_time ctx))"

instantiation CertStatus :: finite
begin

instance
proof
  have "(UNIV :: CertStatus set) = {Good, Revoked, Unknown}" using CertStatus.exhaust by blast
  then show "finite (UNIV :: CertStatus set)" by (metis finite.emptyI finite_insert)
qed

end

lemma summary_step:
  assumes s: "summary ctx vs s" and v: "wf_Input v" and ok: "whole (SingleResponse ctx s) v = Inr s'"
  shows "summary ctx (insert v vs) s'"
  using SingleResponse_step [OF v ok]
proof (elim disjE exE conjE)
  assume s': "s' = s" and no: "\<forall>st t u. \<not> answers ctx v st t u"
  have eq: "{st. \<exists>v \<in> insert v vs. \<exists>t u. answers ctx v st t u} = {st. \<exists>v \<in> vs. \<exists>t u. answers ctx v st t u}"
    "(\<exists>v \<in> insert v vs. \<exists>st t u. answers ctx v st t u) \<longleftrightarrow> (\<exists>v \<in> vs. \<exists>st t u. answers ctx v st t u)"
    "(\<exists>v \<in> insert v vs. \<exists>st t u. answers ctx v st t u \<and> u < ctx_time ctx) \<longleftrightarrow>
      (\<exists>v \<in> vs. \<exists>st t u. answers ctx v st t u \<and> u < ctx_time ctx)" using no by blast+
  show ?thesis using s unfolding s' summary_def eq .
next
  fix st t u scts
  assume a: "answers ctx v st t u" and s': "s' = s\<lparr>certStatus := max (certStatus s) st, thisUpdate := t,
    validThrough := u, expired := expired s \<or> u < ctx_time ctx, singleSCTs := scts, matchFound := True\<rparr>"
  let ?S = "{st. \<exists>v \<in> vs. \<exists>t u. answers ctx v st t u}"
  have only: "answers ctx v st' t' u' \<longleftrightarrow> st' = st \<and> t' = t \<and> u' = u" for st' t' u'
    using a answers_unique [OF a _ v] by blast
  have "{st. \<exists>v \<in> insert v vs. \<exists>t u. answers ctx v st t u} = insert st ?S" using only by auto
  then have "insert Unknown {st. \<exists>v \<in> insert v vs. \<exists>t u. answers ctx v st t u} = insert st (insert Unknown ?S)"
    by (simp add: insert_commute)
  moreover have "Max (insert st (insert Unknown ?S)) = max (certStatus s) st"
    using s by (simp add: summary_def max.commute)
  ultimately have "certStatus s' = Max (insert Unknown {st. \<exists>v \<in> insert v vs. \<exists>t u. answers ctx v st t u})"
    using s' by simp
  moreover have "expired s' \<longleftrightarrow> (\<exists>v \<in> insert v vs. \<exists>st t u. answers ctx v st t u \<and> u < ctx_time ctx)"
    using s s' only by (auto simp: summary_def)
  moreover have "matchFound s' \<longleftrightarrow> (\<exists>v \<in> insert v vs. \<exists>st t u. answers ctx v st t u)"
    using s' only by auto
  ultimately show ?thesis unfolding summary_def by blast
qed

lemma summary_fold:
  "fold_res (\<lambda>s v. whole (SingleResponse ctx s) v) s us = Inr s' \<Longrightarrow> summary ctx vs s \<Longrightarrow>
   \<forall>v \<in> set us. wf_Input v \<Longrightarrow> summary ctx (vs \<union> set us) s'"
proof (induction us arbitrary: s vs)
  case (Cons v us)
  then obtain t where t: "whole (SingleResponse ctx s) v = Inr t"
    "fold_res (\<lambda>s v. whole (SingleResponse ctx s) v) t us = Inr s'" by (auto split: sum.splits)
  have "summary ctx (insert v vs) t" using summary_step [OF Cons.prems(2) _ t(1)] Cons.prems(3) by simp
  then show ?case using Cons.IH [OF t(2), of "insert v vs"] Cons.prems(3) by simp
qed simp

lemma summary_initial: "summary ctx {} initial_context"
  by (simp add: summary_def initial_context_def)


section \<open>Properties\<close>

text \<open>The dates of a response, computed without wrap-around. The response is rejected as one from
  the future exactly if \<open>thisUpdate\<close> lies more than a day after the current time, and as malformed
  exactly if \<open>nextUpdate\<close> lies before \<open>thisUpdate\<close>. It is valid until \<open>nextUpdate\<close>, but not longer
  than the given number of days after \<open>thisUpdate\<close>, or else for one day after \<open>thisUpdate\<close>; a day
  is added to allow for differences between clocks. No sum of these reaches the end of the
  64-bit range, so that the error exits of the additions are not taken, except for a current
  time that lies within a day of it.\<close>

lemma ReadUpdateTimes_dates:
  assumes "wf_Reader input"
  shows "ReadUpdateTimes ctx input = bind_res (GeneralizedTime input) (\<lambda>(thisUpd, input).
    if secs (ctx_time ctx) + 86400 \<ge> 2 ^ 64 then Inl FATAL_ERROR_INVALID_ARGS
    else if secs thisUpd > secs (ctx_time ctx) + 86400 then Inl ERROR_OCSP_FUTURE_RESPONSE
    else bind_res (ReadNextUpdate input) (\<lambda>(nextUpd, input).
      if \<exists>n. nextUpd = Some n \<and> n < thisUpd then Inl ERROR_OCSP_MALFORMED_RESPONSE
      else Inr ((thisUpd, Time (of_nat (not_after (unat (maxLifetimeInDays ctx)) thisUpd nextUpd + 86400))), input))) \<and>
   (\<forall>thisUpd q nextUpd. GeneralizedTime input = Inr (thisUpd, q) \<longrightarrow>
      not_after (unat (maxLifetimeInDays ctx)) thisUpd nextUpd + 86400 < 2 ^ 64)"
  using ReadUpdateTimes_exact [OF assms] not_after_bound [OF GeneralizedTime_bound [OF assms] lifetime_less]
  by blast

end
