(* ===== verification/PkixUsage.thy ===== *)
theory PkixUsage
  imports PkixSamples
begin

text \<open>
  What the checks of theory \<open>PkixCheck\<close> accept, on the bytes of the extensions: key usage,
  basic constraints, extended key usage and certificate policies. The encodings are
  described with \<open>encode_tlv\<close> of theory \<open>PkixDer\<close>, without the decoder.
\<close>

section \<open>Key usage\<close>

lemma low_bits_zero: "(b :: u8) AND (push_bit n 1 - 1) = 0 \<longleftrightarrow> (\<forall>k < n. \<not> bit b k)"
proof -
  have "b AND (push_bit n 1 - 1) = take_bit n b"
    by (simp add: take_bit_eq_mask mask_eq_exp_minus_1)
  moreover have "take_bit n b = 0 \<longleftrightarrow> (\<forall>k < n. \<not> bit b k)"
    using bit_imp_le_length [of b] by (subst bit_eq_iff) (auto simp: bit_take_bit_iff)
  ultimately show ?thesis by simp
qed

lemma key_usage_bit:
  "(ku \<noteq> noParticularKeyUsageRequired \<and> b AND KeyUsageToBitMask ku = 0) \<longleftrightarrow>
   (ku \<noteq> noParticularKeyUsageRequired \<and> \<not> bit b (7 - key_usage_value ku))"
proof -
  have "KeyUsageToBitMask ku = push_bit (7 - key_usage_value ku) 1" if "ku \<noteq> noParticularKeyUsageRequired"
    using that by (cases ku) (simp_all add: KeyUsageToBitMask_def)
  then show ?thesis by (auto simp add: bit_iff_and_push_bit_not_eq_0)
qed

lemma ReadLastByte_spec: "wf_Reader r \<Longrightarrow> ReadLastByte r b = Inr (last (b # remaining r))"
proof (induction "remaining r" arbitrary: r b)
  case Nil
  then show ?case using Read8_Nil [of r] by (simp add: ReadLastByte.simps)
next
  case (Cons c bs)
  obtain q where "Read8 r = Inr (c, q)" "remaining q = bs" "wf_Reader q" "\<not> AtEnd r"
    using Read8_Cons [OF Cons.prems Cons.hyps(2) [symmetric]] by blast
  then show ?case using Cons.hyps(1) [of q] Cons.hyps(2) by (subst ReadLastByte.simps) (simp flip: Cons.hyps(2))
qed

text \<open>The value of the bit string: the number of unused bits and the bytes.\<close>

definition grants_usage :: "EndEntityOrCA \<Rightarrow> KeyUsage \<Rightarrow> u8 list \<Rightarrow> bool" where
  "grants_usage eeOrCA required v \<longleftrightarrow>
     (\<exists>n b bs. v = n # b # bs \<and> unat n \<le> 7 \<and>
        (required \<noteq> noParticularKeyUsageRequired \<longrightarrow> bit b (7 - key_usage_value required)) \<and>
        (required = keyCertSign \<longrightarrow> eeOrCA = MustBeCA) \<and>
        (\<forall>k < unat n. \<not> bit (last (b # bs)) k))"

lemma inadequate_Inr_iff [simp]: "inadequate_key_usage m = Inr x \<longleftrightarrow> m = Inr x"
  by (cases m) (simp_all add: inadequate_key_usage_def)

lemma inadequate_Inl_iff [simp]:
  "inadequate_key_usage m = Inl e \<longleftrightarrow> (\<exists>e'. m = Inl e') \<and> e = ERROR_INADEQUATE_KEY_USAGE"
  by (cases m) (auto simp: inadequate_key_usage_def)

lemma CheckKeyUsage_value:
  assumes "wf_Input v"
  shows "bind_res (inadequate_key_usage (Read8 (Reader_of v))) (\<lambda>(numberOfPaddingBits, val).
          bind_res (fail_if (numberOfPaddingBits > 7) ERROR_INADEQUATE_KEY_USAGE) (\<lambda>_.
          bind_res (inadequate_key_usage (Read8 val)) (\<lambda>(bits, val).
          bind_res (fail_if (required \<noteq> noParticularKeyUsageRequired \<and>
                       bits AND KeyUsageToBitMask required = 0)
                     ERROR_INADEQUATE_KEY_USAGE) (\<lambda>_.
          bind_res (fail_if (required = keyCertSign \<and> eeOrCA \<noteq> MustBeCA)
                     ERROR_INADEQUATE_KEY_USAGE) (\<lambda>_.
          bind_res (ReadLastByte val bits) (\<lambda>bits.
          let paddingMask = push_bit (unat numberOfPaddingBits) 1 - 1 in
          fail_if (bits AND paddingMask \<noteq> 0) ERROR_INADEQUATE_KEY_USAGE)))))) =
    (if grants_usage eeOrCA required v then Inr () else Inl ERROR_INADEQUATE_KEY_USAGE)"
proof -
  have wf: "wf_Reader (Reader_of v)" using assms by simp
  show ?thesis
  proof (cases v)
    case Nil
    then have "Read8 (Reader_of v) = Inl ERROR_BAD_DER" using Read8_Nil [OF wf] assms by simp
    then show ?thesis by (simp add: inadequate_key_usage_def grants_usage_def Nil)
  next
    case v: (Cons n w)
    obtain q where q: "Read8 (Reader_of v) = Inr (n, q)" "remaining q = w" "wf_Reader q"
      using Read8_Cons [OF wf, of n w] assms v by auto
    show ?thesis
    proof (cases w)
      case Nil
      then have "Read8 q = Inl ERROR_BAD_DER" using Read8_Nil [OF q(3)] q(2) by simp
      then show ?thesis using q(1)
        by (simp add: inadequate_key_usage_def grants_usage_def v Nil fail_if_def)
    next
      case w: (Cons b bs)
      obtain s where s: "Read8 q = Inr (b, s)" "remaining s = bs" "wf_Reader s"
        using Read8_Cons [OF q(3), of b bs] q(2) w by auto
      have n: "n > 7 \<longleftrightarrow> \<not> unat n \<le> 7" by (simp add: word_less_nat_alt not_le)
      have last: "ReadLastByte s b = Inr (last (b # bs))" using ReadLastByte_spec [OF s(3)] s(2) by simp
      have reads: "inadequate_key_usage (Read8 (Reader_of v)) = Inr (n, q)"
        "inadequate_key_usage (Read8 q) = Inr (b, s)" using q(1) s(1) by simp_all
      have grants: "grants_usage eeOrCA required v \<longleftrightarrow> unat n \<le> 7 \<and>
          \<not> (required \<noteq> noParticularKeyUsageRequired \<and> \<not> bit b (7 - key_usage_value required)) \<and>
          \<not> (required = keyCertSign \<and> eeOrCA \<noteq> MustBeCA) \<and> (\<forall>k < unat n. \<not> bit (last (b # bs)) k)"
        by (auto simp: grants_usage_def v w)
      show ?thesis
        unfolding reads bind_res_simps prod.case key_usage_bit last Let_def low_bits_zero n grants
        by (simp only: fail_if_def bind_res_def split: if_split) (simp split: if_split)
    qed
  qed
qed

lemma CheckKeyUsage_eq:
  assumes "wf_Input ku"
  shows "CheckKeyUsage eeOrCA None required = Inr () \<and>
    CheckKeyUsage eeOrCA (Some ku) required =
      (if \<exists>v rest. wf_Input v \<and> ku = encode_tlv BIT_STRING v @ rest \<and> grants_usage eeOrCA required v
       then Inr () else Inl ERROR_INADEQUATE_KEY_USAGE)"
proof -
  have wf: "wf_Reader (Reader_of ku)" using assms by simp
  have unique: "(\<exists>v rest. wf_Input v \<and> ku = encode_tlv BIT_STRING v @ rest \<and> P v) \<longleftrightarrow>
      (\<exists>v r'. tlv_at (Reader_of ku) BIT_STRING v r' \<and> P v)" for P
    using assms by (auto simp: tlv_at_def)
  show ?thesis
  proof (cases "ExpectTagAndGetReader (Reader_of ku) BIT_STRING")
    case (Inl e)
    then have "\<not> (\<exists>v r'. tlv_at (Reader_of ku) BIT_STRING v r')"
      using ExpectTagAndGetReader_iff [OF wf] by (metis Inr_Inl_False)
    then show ?thesis unfolding unique using Inl by (simp add: CheckKeyUsage_def inadequate_key_usage_def)
  next
    case (Inr x)
    obtain s r' where x: "x = (s, r')" by (cases x)
    obtain v where v: "tlv_at (Reader_of ku) BIT_STRING v r'" "s = Reader_of v"
      using Inr x ExpectTagAndGetReader_iff [OF wf] by auto
    have "(\<exists>v' r''. tlv_at (Reader_of ku) BIT_STRING v' r'' \<and> grants_usage eeOrCA required v') \<longleftrightarrow>
        grants_usage eeOrCA required v"
      using v(1) unfolding ExpectTagAndGetValue_iff [OF wf, symmetric] by auto
    moreover have "wf_Input v" using v(1) by (simp add: tlv_at_def)
    moreover have "inadequate_key_usage (ExpectTagAndGetReader (Reader_of ku) BIT_STRING) = Inr (Reader_of v, r')"
      using Inr x v(2) by simp
    moreover have "CheckKeyUsage eeOrCA None required = Inr ()" by (simp add: CheckKeyUsage_def)
    ultimately show ?thesis
      unfolding unique by (simp only: CheckKeyUsage_def option.case bind_res_simps prod.case CheckKeyUsage_value simp_thms)
  qed
qed

text \<open>C30: The key-usage check on the bytes of the extension. Without the extension every use is
  allowed. Otherwise the value must start with the encoding of a bit string that has at
  least one byte and at most seven unused bits, all of which are zero, whose bit for the
  required usage is set; and the right to sign certificates is only for a CA. Everything
  else is \<open>ERROR_INADEQUATE_KEY_USAGE\<close>, also what is not DER.\<close>

theorem CheckKeyUsage_bits:
  assumes "wf_Input ku"
  shows "CheckKeyUsage eeOrCA None required = Inr () \<and>
    CheckKeyUsage eeOrCA (Some ku) required =
      (if \<exists>v rest. wf_Input v \<and> ku = encode_tlv BIT_STRING v @ rest \<and> grants_usage eeOrCA required v
       then Inr () else Inl ERROR_INADEQUATE_KEY_USAGE)"
  by (rule CheckKeyUsage_eq [OF assms])

theorem CheckKeyUsage_bits_witness:
  "CheckKeyUsage MustBeCA (Some [0x03, 0x02, 0x01, 0x06]) keyCertSign = Inr () \<and>
   CheckKeyUsage MustBeEndEntity (Some [0x03, 0x02, 0x01, 0x06]) keyCertSign = Inl ERROR_INADEQUATE_KEY_USAGE"
proof -
  let ?ku = "[0x03, 0x02, 0x01, 0x06] :: u8 list"
  have wf: "wf_Input ?ku" by (simp add: wf_Input_def MAX_INPUT_def)
  have v: "wf_Input [0x01, 0x06 :: u8]" "?ku = encode_tlv BIT_STRING [0x01, 0x06] @ []"
    by (simp_all add: wf_Input_def MAX_INPUT_def encode_tlv_def encode_length_def)
  have "grants_usage MustBeCA keyCertSign [0x01, 0x06]"
    by (simp add: grants_usage_def bit_numeral_rec)
  then have "\<exists>v rest. wf_Input v \<and> ?ku = encode_tlv BIT_STRING v @ rest \<and> grants_usage MustBeCA keyCertSign v"
    using v by blast
  moreover have "\<not> grants_usage MustBeEndEntity keyCertSign v" for v
    by (auto simp: grants_usage_def)
  ultimately show ?thesis
    using CheckKeyUsage_bits [OF wf, of MustBeCA keyCertSign]
      CheckKeyUsage_bits [OF wf, of MustBeEndEntity keyCertSign] by simp
qed

section \<open>Basic constraints\<close>

lemma OptionalInteger_iff:
  assumes "wf_Reader r"
  shows "OptionalInteger r (-1) = Inr (i, r') \<longleftrightarrow>
    (if Peek r INTEGER then \<exists>b. uint b < 128 \<and> tlv_at r INTEGER [b] r' \<and> i = uint b else i = -1 \<and> r' = r)"
  unfolding OptionalInteger_def Integer_def using assms
  by (auto simp add: case_sum_prod_Inr_iff IntegralValue_iff simp del: tag_values)

definition optional_boolean :: "bool \<Rightarrow> bool \<Rightarrow> u8 list" where
  "optional_boolean given c = (if given then encode_tlv BOOLEAN [if c then 0xFF else 0] else [])"

definition optional_integer :: "u8 option \<Rightarrow> u8 list" where
  "optional_integer n = (case n of None \<Rightarrow> [] | Some b \<Rightarrow> encode_tlv INTEGER [b])"

lemma OptionalBoolean_split:
  assumes wf: "wf_Reader r" and ob: "OptionalBoolean r = Inr (c, q)"
  shows "wf_Reader q \<and> (\<exists>given. (c \<longrightarrow> given) \<and> remaining r = optional_boolean given c @ remaining q)"
proof (cases "Peek r BOOLEAN")
  case True
  then have at: "tlv_at r BOOLEAN [if c then 0xFF else 0] q" using ob by (simp only: OptionalBoolean_iff [OF wf] if_True)
  then show ?thesis using tlv_at_split [OF at] tlv_at_wf [OF at wf] by (auto simp: optional_boolean_def)
next
  case False
  then have "c = False \<and> q = r" using ob by (simp only: OptionalBoolean_iff [OF wf] if_False)
  then show ?thesis using wf by (auto simp: optional_boolean_def)
qed

lemma OptionalBoolean_intro:
  assumes wf: "wf_Reader r" and r: "remaining r = optional_boolean given c @ rest" and g: "c \<longrightarrow> given"
    and no: "rest = [] \<or> hd rest \<noteq> BOOLEAN"
  obtains q where "OptionalBoolean r = Inr (c, q)" "remaining q = rest" "wf_Reader q"
proof (cases given)
  case True
  have v: "wf_Input [if c then 0xFF else 0 :: u8]" by (simp add: wf_Input_def MAX_INPUT_def)
  have r': "remaining r = encode_tlv BOOLEAN [if c then 0xFF else 0] @ rest"
    using r True by (simp add: optional_boolean_def)
  obtain q where q: "tlv_at r BOOLEAN [if c then 0xFF else 0] q" "remaining q = rest"
    using tlv_at_intro [OF _ v r'] by auto
  moreover have "Peek r BOOLEAN" using Peek_encode_tlv [OF wf r'] by blast
  ultimately show ?thesis using that OptionalBoolean_iff [OF wf] tlv_at_wf [OF q(1) wf] by simp
next
  case False
  then have r': "remaining r = rest" "\<not> c" using r g by (simp_all add: optional_boolean_def)
  then have "\<not> Peek r BOOLEAN" using no Peek_iff [OF wf] by (cases rest) auto
  then show ?thesis using that [of r] r' wf OptionalBoolean_iff [OF wf] by simp
qed

definition encodes_constraints :: "u8 list \<Rightarrow> bool \<Rightarrow> u8 option \<Rightarrow> bool" where
  "encodes_constraints w isCA len \<longleftrightarrow>
     (\<forall>n. len = Some n \<longrightarrow> uint n < 128) \<and>
     (\<exists>given. (isCA \<longrightarrow> given) \<and> w = optional_boolean given isCA @ optional_integer len)"

definition path_len :: "u8 option \<Rightarrow> int" where
  "path_len len = (case len of None \<Rightarrow> UNLIMITED_PATH_LEN | Some n \<Rightarrow> uint n)"

lemma ReadBasicConstraints_whole:
  assumes "wf_Input w"
  shows "whole ReadBasicConstraints w = Inr (isCA, pl) \<longleftrightarrow>
    (\<exists>len. encodes_constraints w isCA len \<and> pl = path_len len)"
proof
  have wf: "wf_Reader (Reader_of w)" using assms by simp
  {
    assume "whole ReadBasicConstraints w = Inr (isCA, pl)"
    then obtain q s where q: "OptionalBoolean (Reader_of w) = Inr (isCA, q)"
      and s: "OptionalInteger q (-1) = Inr (pl, s)" "AtEnd s"
      by (auto simp: whole_iff ReadBasicConstraints_def UNLIMITED_PATH_LEN_def case_sum_prod_Inr_iff)
    obtain given where g: "isCA \<longrightarrow> given" "w = optional_boolean given isCA @ remaining q" and wfq: "wf_Reader q"
      using OptionalBoolean_split [OF wf q] assms by auto
    have "\<exists>len. remaining q = optional_integer len \<and> pl = path_len len \<and> (\<forall>n. len = Some n \<longrightarrow> uint n < 128)"
    proof (cases "Peek q INTEGER")
      case True
      then obtain b where b: "uint b < 128" "tlv_at q INTEGER [b] s" "pl = uint b"
        using s(1) unfolding OptionalInteger_iff [OF wfq] by auto
      then have "remaining s = []" using s(2) tlv_at_wf [OF b(2) wfq] AtEnd_iff by blast
      then show ?thesis using b tlv_at_split [OF b(2)]
        by (intro exI [of _ "Some b"]) (simp add: optional_integer_def path_len_def)
    next
      case False
      then have "pl = -1" "s = q" using s(1) unfolding OptionalInteger_iff [OF wfq] by auto
      then show ?thesis using s(2) AtEnd_iff [OF wfq]
        by (intro exI [of _ None]) (simp add: optional_integer_def path_len_def UNLIMITED_PATH_LEN_def)
    qed
    then show "\<exists>len. encodes_constraints w isCA len \<and> pl = path_len len"
      using g unfolding encodes_constraints_def by metis
  next
    assume "\<exists>len. encodes_constraints w isCA len \<and> pl = path_len len"
    then obtain len given where len: "\<forall>n. len = Some n \<longrightarrow> uint n < 128" "pl = path_len len"
      and g: "isCA \<longrightarrow> given" "w = optional_boolean given isCA @ optional_integer len"
      unfolding encodes_constraints_def by blast
    have "optional_integer len = [] \<or> hd (optional_integer len) \<noteq> BOOLEAN"
      by (auto simp: optional_integer_def encode_tlv_def split: option.split)
    then obtain q where q: "OptionalBoolean (Reader_of w) = Inr (isCA, q)" "remaining q = optional_integer len"
        "wf_Reader q"
      using OptionalBoolean_intro [OF wf _ g(1)] g(2) assms by auto
    have "\<exists>s. OptionalInteger q (-1) = Inr (pl, s) \<and> AtEnd s"
    proof (cases len)
      case None
      then have "remaining q = []" using q(2) by (simp add: optional_integer_def)
      then show ?thesis using q(3) None len(2)
        by (simp add: OptionalInteger_iff AtEnd_iff Peek_iff path_len_def UNLIMITED_PATH_LEN_def)
    next
      case (Some n)
      have v: "wf_Input [n]" by (simp add: wf_Input_def MAX_INPUT_def)
      have r: "remaining q = encode_tlv INTEGER [n] @ []" using q(2) Some by (simp add: optional_integer_def)
      obtain s where s: "tlv_at q INTEGER [n] s" "remaining s = []" using tlv_at_intro [OF _ v r] by auto
      have "Peek q INTEGER" using Peek_encode_tlv [OF q(3) r] by blast
      then show ?thesis using s Some len tlv_at_wf [OF s(1) q(3)]
        by (auto simp: OptionalInteger_iff [OF q(3)] AtEnd_iff path_len_def)
    qed
    then show "whole ReadBasicConstraints w = Inr (isCA, pl)"
      using q(1) by (auto simp: whole_iff ReadBasicConstraints_def UNLIMITED_PATH_LEN_def)
  }
qed

lemma GetBasicConstraintsValue_Some:
  assumes "wf_Input bc"
  shows "GetBasicConstraintsValue eeOrCA (Some bc) ver trustLevel = Inr (isCA, pl) \<longleftrightarrow>
    (\<exists>w len. wf_Input w \<and> bc = encode_tlv SEQUENCE w \<and> encodes_constraints w isCA len \<and> pl = path_len len)"
proof -
  have "GetBasicConstraintsValue eeOrCA (Some bc) ver trustLevel = Inr (isCA, pl) \<longleftrightarrow>
      whole (\<lambda>r. Nested r SEQUENCE ReadBasicConstraints) bc = Inr (isCA, pl)"
    by (auto simp: GetBasicConstraintsValue_def whole_iff End_def split: sum.splits)
  then show ?thesis
    unfolding whole_Nested_iff [OF assms] by (simp add: ReadBasicConstraints_whole cong: conj_cong)
qed

definition constraints_allow ::
  "EndEntityOrCA \<Rightarrow> Input option \<Rightarrow> Version \<Rightarrow> TrustLevel \<Rightarrow> u32 \<Rightarrow> bool" where
  "constraints_allow eeOrCA ext ver trustLevel subCAs \<longleftrightarrow>
    (case ext of
       None \<Rightarrow> eeOrCA = MustBeEndEntity \<or> (ver = v1 \<and> trustLevel = TrustAnchor)
     | Some bc \<Rightarrow>
         \<exists>w isCA len. wf_Input w \<and> bc = encode_tlv SEQUENCE w \<and> encodes_constraints w isCA len \<and>
           (isCA \<longleftrightarrow> eeOrCA = MustBeCA) \<and>
           (\<forall>n. eeOrCA = MustBeCA \<and> len = Some n \<longrightarrow> unat subCAs \<le> unat n))"

lemma CheckBasicConstraints_iff:
  assumes "\<forall>bc. ext = Some bc \<longrightarrow> wf_Input bc"
  shows "CheckBasicConstraints eeOrCA ext ver trustLevel subCAs = Inr () \<longleftrightarrow>
    constraints_allow eeOrCA ext ver trustLevel subCAs"
proof (cases ext)
  case None
  then show ?thesis
    by (cases eeOrCA) (auto simp: constraints_allow_def CheckBasicConstraints_def GetBasicConstraintsValue_def UNLIMITED_PATH_LEN_def)
next
  case (Some bc)
  have len: "path_len l \<ge> 0 \<and> uint subCAs > path_len l \<longleftrightarrow> (\<exists>n. l = Some n \<and> \<not> unat subCAs \<le> unat n)" for l
  proof (cases l)
    case (Some n)
    have "uint subCAs > uint n \<longleftrightarrow> \<not> unat subCAs \<le> unat n" unfolding uint_nat by linarith
    then show ?thesis by (simp add: Some path_len_def)
  qed (simp add: path_len_def UNLIMITED_PATH_LEN_def)
  have check: "(if eeOrCA = MustBeEndEntity then if isCA then Inl ERROR_CA_CERT_USED_AS_END_ENTITY else Inr ()
      else if \<not> isCA then Inl ERROR_CA_CERT_INVALID
      else if pl \<ge> 0 \<and> uint subCAs > pl then Inl ERROR_PATH_LEN_CONSTRAINT_INVALID else Inr ()) = Inr () \<longleftrightarrow>
      (isCA \<longleftrightarrow> eeOrCA = MustBeCA) \<and> (eeOrCA = MustBeCA \<longrightarrow> \<not> (pl \<ge> 0 \<and> uint subCAs > pl))" for isCA pl
    by (cases eeOrCA; cases isCA) simp_all
  have "CheckBasicConstraints eeOrCA ext ver trustLevel subCAs = Inr () \<longleftrightarrow>
      (\<exists>isCA pl. GetBasicConstraintsValue eeOrCA (Some bc) ver trustLevel = Inr (isCA, pl) \<and>
         (isCA \<longleftrightarrow> eeOrCA = MustBeCA) \<and> (eeOrCA = MustBeCA \<longrightarrow> \<not> (pl \<ge> 0 \<and> uint subCAs > pl)))"
    unfolding CheckBasicConstraints_def Some bind_res_prod_Inr_iff check ..
  also have "\<dots> \<longleftrightarrow> (\<exists>w isCA l. wf_Input w \<and> bc = encode_tlv SEQUENCE w \<and> encodes_constraints w isCA l \<and>
      (isCA \<longleftrightarrow> eeOrCA = MustBeCA) \<and>
      (eeOrCA = MustBeCA \<longrightarrow> \<not> (\<exists>n. l = Some n \<and> \<not> unat subCAs \<le> unat n)))"
    unfolding GetBasicConstraintsValue_Some [OF assms [rule_format, OF Some]] len [symmetric] by blast
  finally show ?thesis unfolding Some constraints_allow_def option.case by auto
qed

text \<open>C29: The basic-constraints check on the bytes of the extension. An end entity may have no
  extension or one that says that it is no CA. A CA must have one that says so, and a path
  length in it must be at least the number of CA certificates below; the exception is a
  trust anchor of version 1, which needs none. The extension is the exact DER encoding of
  the two optional fields with nothing behind it (an explicit \<open>FALSE\<close> is tolerated).\<close>

theorem CheckBasicConstraints_encoding:
  assumes "\<forall>bc. ext = Some bc \<longrightarrow> wf_Input bc"
  shows "CheckBasicConstraints eeOrCA ext ver trustLevel subCAs = Inr () \<longleftrightarrow>
    (case ext of
       None \<Rightarrow> eeOrCA = MustBeEndEntity \<or> (ver = v1 \<and> trustLevel = TrustAnchor)
     | Some bc \<Rightarrow>
         \<exists>w isCA len. wf_Input w \<and> bc = encode_tlv SEQUENCE w \<and> encodes_constraints w isCA len \<and>
           (isCA \<longleftrightarrow> eeOrCA = MustBeCA) \<and>
           (\<forall>n. eeOrCA = MustBeCA \<and> len = Some n \<longrightarrow> unat subCAs \<le> unat n))"
  using CheckBasicConstraints_iff [OF assms] unfolding constraints_allow_def .

theorem CheckBasicConstraints_encoding_witness:
  "CheckBasicConstraints MustBeCA (Some [0x30, 0x06, 0x01, 0x01, 0xFF, 0x02, 0x01, 0x01]) v3 InheritsTrust 1 =
     Inr () \<and>
   CheckBasicConstraints MustBeCA (Some [0x30, 0x03, 0x02, 0x01, 0x01]) v3 InheritsTrust 1 \<noteq> Inr ()"
proof
  let ?bc = "[0x30, 0x06, 0x01, 0x01, 0xFF, 0x02, 0x01, 0x01] :: u8 list"
  let ?w = "[0x01, 0x01, 0xFF, 0x02, 0x01, 0x01] :: u8 list"
  have wf: "\<forall>bc. Some ?bc = Some bc \<longrightarrow> wf_Input bc" by (simp add: wf_Input_def MAX_INPUT_def)
  have "wf_Input ?w" "?bc = encode_tlv SEQUENCE ?w"
    by (simp_all add: wf_Input_def MAX_INPUT_def encode_tlv_def encode_length_def)
  moreover have "encodes_constraints ?w True (Some 1)"
    by (auto simp: encodes_constraints_def optional_boolean_def optional_integer_def encode_tlv_def
        encode_length_def intro: exI [of _ True])
  ultimately show "CheckBasicConstraints MustBeCA (Some ?bc) v3 InheritsTrust 1 = Inr ()"
    unfolding CheckBasicConstraints_encoding [OF wf] option.case
    by (intro exI [of _ ?w] exI [of _ True] exI [of _ "Some 1"]) simp
  let ?bd = "[0x30, 0x03, 0x02, 0x01, 0x01] :: u8 list"
  have wf: "\<forall>bc. Some ?bd = Some bc \<longrightarrow> wf_Input bc" by (simp add: wf_Input_def MAX_INPUT_def)
  have "hd (optional_boolean True True @ x) = 0x01" for x by (simp add: optional_boolean_def encode_tlv_def)
  then have "\<not> encodes_constraints w True l" if "hd w = 0x02" for w l
    using that by (auto simp: encodes_constraints_def)
  then show "CheckBasicConstraints MustBeCA (Some ?bd) v3 InheritsTrust 1 \<noteq> Inr ()"
    unfolding CheckBasicConstraints_encoding [OF wf] option.case
    by (auto simp: encode_tlv_def encode_length_def split: if_splits)
qed

section \<open>Extended key usage\<close>

definition purpose_oid :: "KeyPurposeId \<Rightarrow> u8 list" where
  "purpose_oid p = (case p of
     anyExtendedKeyUsage \<Rightarrow> [] | id_kp_serverAuth \<Rightarrow> eku_server | id_kp_clientAuth \<Rightarrow> eku_client
   | id_kp_codeSigning \<Rightarrow> eku_code | id_kp_emailProtection \<Rightarrow> eku_email | id_kp_OCSPSigning \<Rightarrow> eku_ocsp)"

text \<open>\<open>grants p e stepUp v\<close>: the identifier \<open>v\<close> allows the purpose \<open>p\<close>; for a CA the step-up identifier
  allows to authenticate servers if the application says so.\<close>

definition grants :: "KeyPurposeId \<Rightarrow> EndEntityOrCA \<Rightarrow> bool \<Rightarrow> u8 list \<Rightarrow> bool" where
  "grants p eeOrCA stepUp v \<longleftrightarrow> p \<noteq> anyExtendedKeyUsage \<and>
     (v = purpose_oid p \<or> (p = id_kp_serverAuth \<and> eeOrCA = MustBeCA \<and> v = eku_serverStepUp \<and> stepUp))"

lemmas eku_oids = eku_server_def eku_client_def eku_code_def eku_email_def eku_ocsp_def eku_serverStepUp_def

lemma grants_ocsp: "grants p e u eku_ocsp \<longleftrightarrow> p = id_kp_OCSPSigning"
  by (cases p) (auto simp: grants_def purpose_oid_def eku_oids)

lemma grants_other: "grants p e u v \<Longrightarrow> v \<noteq> eku_ocsp \<Longrightarrow> p \<noteq> id_kp_OCSPSigning"
  by (auto simp: grants_def purpose_oid_def)

lemma MatchRequiredEKU_spec:
  assumes v: "wf_Input v" and p: "p \<noteq> anyExtendedKeyUsage"
    and u: "NetscapeStepUpMatchesServerAuth td notBefore = Inr stepUp"
  shows "\<exists>q. MatchRequiredEKU (Reader_of v) p e td notBefore = Inr (grants p e stepUp v, q) \<and> wf_Reader q \<and>
    (\<not> grants p e stepUp v \<longrightarrow> fst (MatchRest q eku_ocsp) = (v = eku_ocsp))"
proof -
  have wf: "wf_Reader (Reader_of v)" using v by simp
  have m: "MatchRest (Reader_of v) w = (if v = w then (True, advance (length w) (Reader_of v)) else (False, Reader_of v))"
    for w using MatchRest_spec [OF wf] v by simp
  have e: "wf_Reader (advance (length v) (Reader_of v))" "remaining (advance (length v) (Reader_of v)) = []"
    using v by simp_all
  have no: "fst (MatchRest (advance (length v) (Reader_of v)) eku_ocsp) = False"
    using MatchRest_spec [OF e(1)] e(2) by (simp add: eku_oids)
  have s: "eku_serverStepUp \<noteq> eku_server" "eku_serverStepUp \<noteq> eku_ocsp" by (simp_all add: eku_oids)
  show ?thesis
    using p u s wf e no v unfolding MatchRequiredEKU_def m grants_def purpose_oid_def
    by (cases p) (auto simp: m split: if_splits)
qed

lemma AtEnd_SkipToEnd: "wf_Reader r \<Longrightarrow> AtEnd (SkipToEnd r)"
  by (simp add: SkipToEnd_def AtEnd_def)

lemma MatchEKU_whole:
  assumes v: "wf_Input v" and u: "NetscapeStepUpMatchesServerAuth td notBefore = Inr stepUp"
    and p: "p = anyExtendedKeyUsage \<longrightarrow> found"
  shows "whole (MatchEKU p e td notBefore (found, ocsp)) v =
    Inr (found \<or> grants p e stepUp v, ocsp \<or> v = eku_ocsp)"
proof -
  have wf: "wf_Reader (Reader_of v)" using v by simp
  show ?thesis
  proof (cases found)
    case True
    then show ?thesis
      using v AtEnd_SkipToEnd [OF wf] by (cases "v = eku_ocsp") (simp_all add: whole_def MatchEKU_def)
  next
    case False
    then obtain q where q: "MatchRequiredEKU (Reader_of v) p e td notBefore = Inr (grants p e stepUp v, q)"
      "wf_Reader q" "\<not> grants p e stepUp v \<Longrightarrow> fst (MatchRest q eku_ocsp) = (v = eku_ocsp)"
      using MatchRequiredEKU_spec [OF v _ u, of p e] p by blast
    show ?thesis
      using False q AtEnd_SkipToEnd [OF q(2)] grants_ocsp [of p e stepUp] grants_other [of p e stepUp v]
      by (auto simp: whole_def MatchEKU_def)
  qed
qed

lemma fold_MatchEKU:
  assumes u: "NetscapeStepUpMatchesServerAuth td notBefore = Inr stepUp"
  shows "\<forall>v \<in> set vs. wf_Input v \<Longrightarrow> (p = anyExtendedKeyUsage \<longrightarrow> found) \<Longrightarrow>
    fold_res (\<lambda>s v. whole (MatchEKU p e td notBefore s) v) (found, ocsp) vs =
      Inr (found \<or> (\<exists>v \<in> set vs. grants p e stepUp v), ocsp \<or> eku_ocsp \<in> set vs)"
proof (induction vs arbitrary: found ocsp)
  case (Cons v vs)
  have "fold_res (\<lambda>s v. whole (MatchEKU p e td notBefore s) v) (found, ocsp) (v # vs) =
      fold_res (\<lambda>s v. whole (MatchEKU p e td notBefore s) v) (found \<or> grants p e stepUp v, ocsp \<or> v = eku_ocsp) vs"
    using MatchEKU_whole [OF _ u, of v p found e ocsp] Cons.prems by simp
  then show ?case using Cons.IH [of "found \<or> grants p e stepUp v" "ocsp \<or> v = eku_ocsp"] Cons.prems by auto
qed simp

lemma SearchEKU_Some:
  assumes wf: "wf_Input eku" and u: "NetscapeStepUpMatchesServerAuth td notBefore = Inr stepUp"
  shows "SearchEKU e (Some eku) p td notBefore = Inr ocsp \<longleftrightarrow>
    (\<exists>ids. eku = encode_tlv SEQUENCE (concat (map (encode_tlv OIDTag) ids)) \<and> ids \<noteq> [] \<and>
       (\<forall>v \<in> set ids. wf_Input v) \<and> wf_Input (concat (map (encode_tlv OIDTag) ids)) \<and>
       (p = anyExtendedKeyUsage \<or> (\<exists>v \<in> set ids. grants p e stepUp v)) \<and> ocsp = (eku_ocsp \<in> set ids))"
proof -
  have wfr: "wf_Reader (Reader_of eku)" using wf by simp
  let ?d = "MatchEKU p e td notBefore" and ?s = "(p = anyExtendedKeyUsage, False)"
  have "SearchEKU e (Some eku) p td notBefore = Inr ocsp \<longleftrightarrow>
      (\<exists>r. NestedOf (Reader_of eku) SEQUENCE OIDTag EmptyAllowed_No ?d ?s = Inr ((True, ocsp), r) \<and> AtEnd r)"
    by (auto simp: SearchEKU_def End_def split: sum.splits if_splits)
  also have "\<dots> \<longleftrightarrow> (\<exists>r ids. (tlv_at (Reader_of eku) SEQUENCE (concat (map (encode_tlv OIDTag) ids)) r \<and> AtEnd r) \<and>
      (\<forall>v \<in> set ids. wf_Input v) \<and> ids \<noteq> [] \<and>
      fold_res (\<lambda>s v. whole (?d s) v) ?s ids = Inr (True, ocsp))"
    unfolding NestedOf_iff [OF wfr] by (auto split: if_splits)
  also have "\<dots> \<longleftrightarrow> (\<exists>r ids. (tlv_at (Reader_of eku) SEQUENCE (concat (map (encode_tlv OIDTag) ids)) r \<and> AtEnd r) \<and>
      (\<forall>v \<in> set ids. wf_Input v) \<and> ids \<noteq> [] \<and>
      (p = anyExtendedKeyUsage \<or> (\<exists>v \<in> set ids. grants p e stepUp v)) \<and> ocsp = (eku_ocsp \<in> set ids))"
    using fold_MatchEKU [OF u, of _ p "p = anyExtendedKeyUsage" e False] by (intro ex_cong1) auto
  finally show ?thesis unfolding tlv_at_end_iff [OF wf] by auto
qed

definition purposes_allow :: "EndEntityOrCA \<Rightarrow> Input option \<Rightarrow> KeyPurposeId \<Rightarrow> bool \<Rightarrow> bool" where
  "purposes_allow eeOrCA ext p stepUp \<longleftrightarrow>
    (case ext of
       None \<Rightarrow> eeOrCA = MustBeCA \<or> p \<noteq> id_kp_OCSPSigning
     | Some eku \<Rightarrow>
         \<exists>ids. eku = encode_tlv SEQUENCE (concat (map (encode_tlv OIDTag) ids)) \<and> ids \<noteq> [] \<and>
           (\<forall>v \<in> set ids. wf_Input v) \<and> wf_Input (concat (map (encode_tlv OIDTag) ids)) \<and>
           (p = anyExtendedKeyUsage \<or> (\<exists>v \<in> set ids. grants p eeOrCA stepUp v)) \<and>
           (eeOrCA = MustBeEndEntity \<longrightarrow> (eku_ocsp \<in> set ids \<longleftrightarrow> p = id_kp_OCSPSigning)))"

lemma CheckExtendedKeyUsage_iff:
  assumes "\<forall>eku. ext = Some eku \<longrightarrow> wf_Input eku"
    and "NetscapeStepUpMatchesServerAuth td notBefore = Inr stepUp"
  shows "CheckExtendedKeyUsage eeOrCA ext p td notBefore = Inr () \<longleftrightarrow>
    purposes_allow eeOrCA ext p stepUp"
proof -
  have check: "(if eeOrCA = MustBeEndEntity then
       if ocsp \<and> p \<noteq> id_kp_OCSPSigning then Inl ERROR_INADEQUATE_CERT_TYPE
       else if \<not> ocsp \<and> p = id_kp_OCSPSigning then Inl ERROR_INADEQUATE_CERT_TYPE else Inr ()
     else Inr ()) = Inr () \<longleftrightarrow> (eeOrCA = MustBeEndEntity \<longrightarrow> (ocsp \<longleftrightarrow> p = id_kp_OCSPSigning))" for ocsp
    by simp
  show ?thesis
  proof (cases ext)
    case None
    then show ?thesis unfolding CheckExtendedKeyUsage_def bind_res_Inr_iff check
      by (cases eeOrCA) (auto simp: SearchEKU_def purposes_allow_def)
  next
    case (Some eku)
    show ?thesis
      unfolding CheckExtendedKeyUsage_def Some bind_res_Inr_iff check purposes_allow_def option.case
        SearchEKU_Some [OF assms(1) [rule_format, OF Some] assms(2)] by blast
  qed
qed

text \<open>C31: The extended-key-usage check on the bytes of the extension. The extension must be the
  encoding of a non-empty sequence of object identifiers, one of which is that of the required
  purpose (or, for a CA that is to authenticate servers, the step-up identifier, when the
  application lets it count), unless no purpose is required. An end-entity certificate
  moreover lists the signing of OCSP responses exactly if this is the required purpose;
  without the extension it is good for every purpose but this one.\<close>

theorem CheckExtendedKeyUsage_purposes:
  assumes "\<forall>eku. ext = Some eku \<longrightarrow> wf_Input eku"
    and "NetscapeStepUpMatchesServerAuth td notBefore = Inr stepUp"
  shows "CheckExtendedKeyUsage eeOrCA ext p td notBefore = Inr () \<longleftrightarrow>
    (case ext of
       None \<Rightarrow> eeOrCA = MustBeCA \<or> p \<noteq> id_kp_OCSPSigning
     | Some eku \<Rightarrow>
         \<exists>ids. eku = encode_tlv SEQUENCE (concat (map (encode_tlv OIDTag) ids)) \<and> ids \<noteq> [] \<and>
           (\<forall>v \<in> set ids. wf_Input v) \<and> wf_Input (concat (map (encode_tlv OIDTag) ids)) \<and>
           (p = anyExtendedKeyUsage \<or> (\<exists>v \<in> set ids. grants p eeOrCA stepUp v)) \<and>
           (eeOrCA = MustBeEndEntity \<longrightarrow> (eku_ocsp \<in> set ids \<longleftrightarrow> p = id_kp_OCSPSigning)))"
  using CheckExtendedKeyUsage_iff [OF assms] unfolding purposes_allow_def .

lemma sample_step_up: "NetscapeStepUpMatchesServerAuth (domain_with va rv) t = Inr False"
  by (simp add: domain_with_def)

theorem CheckExtendedKeyUsage_purposes_witness:
  "CheckExtendedKeyUsage MustBeEndEntity (Some [0x30, 0x0A, 0x06, 0x08, 0x2B, 6, 1, 5, 5, 7, 3, 1])
     id_kp_serverAuth sample_domain (Time 0) = Inr () \<and>
   CheckExtendedKeyUsage MustBeEndEntity None id_kp_OCSPSigning sample_domain (Time 0) \<noteq> Inr ()"
proof
  let ?eku = "[0x30, 0x0A, 0x06, 0x08, 0x2B, 6, 1, 5, 5, 7, 3, 1] :: u8 list"
  have wf: "\<forall>eku. Some ?eku = Some eku \<longrightarrow> wf_Input eku" by (simp add: wf_Input_def MAX_INPUT_def)
  have "?eku = encode_tlv SEQUENCE (concat (map (encode_tlv OIDTag) [eku_server]))"
    "\<forall>v \<in> set [eku_server]. wf_Input v" "wf_Input (concat (map (encode_tlv OIDTag) [eku_server]))"
    by (simp_all add: wf_Input_def MAX_INPUT_def encode_tlv_def encode_length_def eku_oids)
  moreover have "\<exists>v \<in> set [eku_server]. grants id_kp_serverAuth MustBeEndEntity False v"
    by (simp add: grants_def purpose_oid_def)
  moreover have "eku_ocsp \<notin> set [eku_server]" by (simp add: eku_oids)
  ultimately show "CheckExtendedKeyUsage MustBeEndEntity (Some ?eku) id_kp_serverAuth sample_domain (Time 0) = Inr ()"
    unfolding CheckExtendedKeyUsage_purposes [OF wf sample_step_up] option.case by blast
  have none: "\<forall>eku. None = Some eku \<longrightarrow> wf_Input eku" by simp
  show "CheckExtendedKeyUsage MustBeEndEntity None id_kp_OCSPSigning sample_domain (Time 0) \<noteq> Inr ()"
    unfolding CheckExtendedKeyUsage_purposes [OF none sample_step_up] by simp
qed

end
