(* ===== verification/PkixPolicy.thy ===== *)
theory PkixPolicy
  imports PkixUsage
begin

text \<open>
  What the certificate-policies check of theory \<open>PkixCheck\<close> accepts, on the bytes of the
  extension, and what \<open>CheckIssuerIndependentProperties\<close> guarantees of a certificate.
\<close>

section \<open>Certificate policies\<close>

text \<open>The encoding of a \<open>PolicyInformation\<close>: an identifier and qualifiers that nobody looks at.\<close>

fun policy_info :: "u8 list \<times> u8 list \<Rightarrow> u8 list" where
  "policy_info (oid, qualifiers) = encode_tlv SEQUENCE (encode_tlv OIDTag oid @ qualifiers)"

definition wf_info :: "u8 list \<times> u8 list \<Rightarrow> bool" where
  "wf_info p \<longleftrightarrow> wf_Input (fst p) \<and> wf_Input (encode_tlv OIDTag (fst p) @ snd p)"

definition policy_matches :: "EndEntityOrCA \<Rightarrow> Input \<Rightarrow> u8 list \<Rightarrow> bool" where
  "policy_matches eeOrCA required oid \<longleftrightarrow> oid = required \<or> (eeOrCA = MustBeCA \<and> oid = anyPolicy)"

lemma MatchPolicy_iff:
  "wf_Input required \<Longrightarrow> wf_Input oid \<Longrightarrow>
   MatchPolicy e required (Reader_of oid) \<longleftrightarrow> policy_matches e required oid"
  by (simp add: MatchPolicy_def policy_matches_def MatchRestInput_spec)

lemma CheckPolicies_step:
  assumes wf: "wf_Reader r" and req: "wf_Input req" and p: "wf_info (oid, q)"
    and r: "remaining r = policy_info (oid, q) @ rest"
  shows "\<exists>r'. wf_Reader r' \<and> remaining r' = rest \<and> CheckPolicies_loop e req r found =
    (if \<not> (found \<or> policy_matches e req oid) \<and> rest \<noteq> [] then CheckPolicies_loop e req r' False
     else Inr (found \<or> policy_matches e req oid))"
proof -
  let ?w = "encode_tlv OIDTag oid @ q"
  have w: "wf_Input ?w" "wf_Input oid" using p by (simp_all add: wf_info_def)
  obtain r' where r': "tlv_at r SEQUENCE ?w r'" "remaining r' = rest"
    using tlv_at_intro [OF _ w(1), of SEQUENCE r rest] r by auto
  have wf': "wf_Reader r'" using tlv_at_wf [OF r'(1) wf] by simp
  have pol: "ExpectTagAndGetReader r SEQUENCE = Inr (Reader_of ?w, r')"
    using r'(1) ExpectTagAndGetReader_iff [OF wf] by blast
  have rw: "wf_Reader (Reader_of ?w)" "remaining (Reader_of ?w) = encode_tlv OIDTag oid @ q"
    using w by simp_all
  obtain s where s: "tlv_at (Reader_of ?w) OIDTag oid s"
    using tlv_at_intro [OF _ w(2) rw(2)] by auto
  have inner: "ExpectTagAndGetReader (Reader_of ?w) OIDTag = Inr (Reader_of oid, s)"
    using s ExpectTagAndGetReader_iff [OF rw(1)] by blast
  have "CheckPolicies_loop e req r found =
      (if \<not> (found \<or> policy_matches e req oid) \<and> rest \<noteq> [] then CheckPolicies_loop e req r' False
       else Inr (found \<or> policy_matches e req oid))"
    using MatchPolicy_iff [OF req w(2), of e] AtEnd_iff [OF wf'] r'(2)
    by (subst CheckPolicies_loop.simps) (simp add: pol inner Let_def del: tag_values)
  then show ?thesis using wf' r'(2) by blast
qed

lemma CheckPolicies_loop_first:
  assumes wf: "wf_Reader r" and ok: "CheckPolicies_loop e req r found = Inr x"
  shows "\<exists>oid q rest. wf_info (oid, q) \<and> remaining r = policy_info (oid, q) @ rest"
proof -
  obtain p r' i s where p: "ExpectTagAndGetReader r SEQUENCE = Inr (p, r')"
    and i: "ExpectTagAndGetReader p OIDTag = Inr (i, s)"
    using ok by (subst (asm) CheckPolicies_loop.simps) (auto split: sum.splits)
  obtain w where w: "tlv_at r SEQUENCE w r'" "p = Reader_of w"
    using p ExpectTagAndGetReader_iff [OF wf] by blast
  have wfw: "wf_Input w" using w(1) by (simp add: tlv_at_def)
  then have wfp: "wf_Reader p" using w(2) by simp
  obtain oid where o': "tlv_at p OIDTag oid s" using i ExpectTagAndGetReader_iff [OF wfp] by blast
  have "w = encode_tlv OIDTag oid @ remaining s" using tlv_at_split [OF o'] w(2) wfw by simp
  moreover have "wf_Input oid" using o' by (simp add: tlv_at_def)
  ultimately have "wf_info (oid, remaining s) \<and> remaining r = policy_info (oid, remaining s) @ remaining r'"
    using tlv_at_split [OF w(1)] wfw by (simp add: wf_info_def)
  then show ?thesis by blast
qed

lemma CheckPolicies_loop_iff:
  assumes "wf_Input req"
  shows "wf_Reader r \<Longrightarrow> CheckPolicies_loop e req r False = Inr True \<longleftrightarrow>
    (\<exists>ps oid q rest. remaining r = concat (map policy_info ps) @ policy_info (oid, q) @ rest \<and>
       (\<forall>p \<in> set ps. wf_info p) \<and> wf_info (oid, q) \<and> policy_matches e req oid)"
    (is "_ \<Longrightarrow> ?L r \<longleftrightarrow> (\<exists>ps. ?R r ps)")
proof
  show "?L r \<Longrightarrow> \<exists>ps. ?R r ps" if "wf_Reader r"
    using that
  proof (induction "length (remaining r)" arbitrary: r rule: less_induct)
    case less
    obtain oid q rest where p: "wf_info (oid, q)" "remaining r = policy_info (oid, q) @ rest"
      using CheckPolicies_loop_first [OF less.prems(2,1)] by blast
    obtain r' where r': "wf_Reader r'" "remaining r' = rest" "CheckPolicies_loop e req r False =
        (if \<not> policy_matches e req oid \<and> rest \<noteq> [] then CheckPolicies_loop e req r' False
         else Inr (policy_matches e req oid))"
      using CheckPolicies_step [OF less.prems(2) assms p, of e False] by auto
    show ?case
    proof (cases "policy_matches e req oid")
      case True
      then have "?R r []" using p by auto
      then show ?thesis by blast
    next
      case False
      then have "?L r'" using less.prems(1) r'(3) by (auto split: if_splits)
      moreover have "length (remaining r') < length (remaining r)"
        using p(2) r'(2) by (simp add: encode_tlv_def)
      ultimately obtain ps where "?R r' ps" using less.hyps r'(1) by blast
      then have "?R r ((oid, q) # ps)" using p r'(2) by auto
      then show ?thesis by blast
    qed
  qed
  show "\<exists>ps. ?R r ps \<Longrightarrow> ?L r" if "wf_Reader r"
  proof -
    assume "\<exists>ps. ?R r ps"
    then obtain ps where "?R r ps" by blast
    then show "?L r" using that
    proof (induction ps arbitrary: r)
      case Nil
      then obtain oid q rest where "remaining r = policy_info (oid, q) @ rest" "wf_info (oid, q)"
        "policy_matches e req oid" by auto
      then show ?case using CheckPolicies_step [OF Nil.prems(2) assms, of oid q rest e False] by auto
    next
      case (Cons p ps)
      obtain oid' q' where p: "p = (oid', q')" by (cases p)
      obtain oid q rest where R: "remaining r = policy_info (oid', q') @
          (concat (map policy_info ps) @ policy_info (oid, q) @ rest)" "wf_info (oid', q')"
        "\<forall>p \<in> set ps. wf_info p" "wf_info (oid, q)" "policy_matches e req oid"
        using Cons.prems(1) p by auto
      obtain r' where r': "wf_Reader r'" "remaining r' = concat (map policy_info ps) @ policy_info (oid, q) @ rest"
        "CheckPolicies_loop e req r False =
          (if \<not> policy_matches e req oid' \<and> remaining r' \<noteq> [] then CheckPolicies_loop e req r' False
           else Inr (policy_matches e req oid'))"
        using CheckPolicies_step [OF Cons.prems(2) assms R(2,1), of e False] by auto
      have "?R r' ps" using r'(2) R by blast
      from Cons.IH [OF this r'(1)] have "?L r'" .
      moreover have "remaining r' \<noteq> []" using r'(2) by (auto simp: encode_tlv_def)
      ultimately show ?case using r'(3) by simp
    qed
  qed
qed

definition required_bytes :: "CertPolicyId \<Rightarrow> u8 list" where
  "required_bytes p = take (unat (numBytes p)) (policy_bytes p)"

definition wf_policy :: "CertPolicyId \<Rightarrow> bool" where
  "wf_policy p \<longleftrightarrow> length (policy_bytes p) = CertPolicyId_MAX_BYTES"

lemma SearchPolicies_Some:
  assumes cp: "wf_Input cp" and req: "wf_Input req"
  shows "SearchPolicies e req (Some cp) found = Inr True \<longleftrightarrow>
    (\<exists>v ps oid q rest. wf_Input v \<and> cp = encode_tlv SEQUENCE v \<and>
       v = concat (map policy_info ps) @ policy_info (oid, q) @ rest \<and>
       (\<forall>p \<in> set ps. wf_info p) \<and> wf_info (oid, q) \<and>
       (policy_matches e req oid \<or> (found \<and> ps = [])))"
proof -
  have wf: "wf_Reader (Reader_of cp)" using cp by simp
  have "SearchPolicies e req (Some cp) found = Inr True \<longleftrightarrow>
      (\<exists>v s. (tlv_at (Reader_of cp) SEQUENCE v s \<and> AtEnd s) \<and> CheckPolicies_loop e req (Reader_of v) found = Inr True)"
  proof -
    have "SearchPolicies e req (Some cp) found = Inr True \<longleftrightarrow>
        (\<exists>p s. ExpectTagAndGetReader (Reader_of cp) SEQUENCE = Inr (p, s) \<and> AtEnd s \<and>
           CheckPolicies_loop e req p found = Inr True)"
      by (auto simp: SearchPolicies_def split: sum.splits)
    then show ?thesis unfolding ExpectTagAndGetReader_iff [OF wf] by blast
  qed
  also have "\<dots> \<longleftrightarrow> (\<exists>v. wf_Input v \<and> cp = encode_tlv SEQUENCE v \<and>
      CheckPolicies_loop e req (Reader_of v) found = Inr True)"
    unfolding tlv_at_end_iff [OF cp] by simp
  also have "\<dots> \<longleftrightarrow> (\<exists>v. wf_Input v \<and> cp = encode_tlv SEQUENCE v \<and>
      (\<exists>ps oid q rest. v = concat (map policy_info ps) @ policy_info (oid, q) @ rest \<and>
        (\<forall>p \<in> set ps. wf_info p) \<and> wf_info (oid, q) \<and> (policy_matches e req oid \<or> (found \<and> ps = []))))"
    (is "_ \<longleftrightarrow> (\<exists>v. ?A v \<and> ?B v \<and> (\<exists>ps. ?C v ps))")
  proof (intro ex_cong1 conj_cong refl)
    fix v assume v: "?A v"
    then have r: "wf_Reader (Reader_of v)" "remaining (Reader_of v) = v" by simp_all
    show "CheckPolicies_loop e req (Reader_of v) found = Inr True \<longleftrightarrow> (\<exists>ps. ?C v ps)"
    proof (cases found)
      case False
      then show ?thesis using CheckPolicies_loop_iff [OF req r(1), of e] r(2) by simp
    next
      case True
      have "\<exists>ps. ?C v ps" if ok: "CheckPolicies_loop e req (Reader_of v) found = Inr True"
      proof -
        obtain oid q rest where "v = policy_info (oid, q) @ rest" "wf_info (oid, q)"
          using CheckPolicies_loop_first [OF r(1) ok] unfolding r(2) by blast
        then have "?C v []" using True by auto
        then show ?thesis by blast
      qed
      moreover have "CheckPolicies_loop e req (Reader_of v) found = Inr True" if C: "?C v ps" for ps
      proof -
        obtain oid q rest where "remaining (Reader_of v) = policy_info (oid, q) @ rest" "wf_info (oid, q)"
          using C r(2) by (cases ps) auto
        from CheckPolicies_step [OF r(1) req this(2,1), of e found] show ?thesis using True by auto
      qed
      ultimately show ?thesis by blast
    qed
  qed
  finally show ?thesis by blast
qed

definition policies_allow ::
  "EndEntityOrCA \<Rightarrow> Input option \<Rightarrow> Input option \<Rightarrow> TrustLevel \<Rightarrow> CertPolicyId \<Rightarrow> bool" where
  "policies_allow eeOrCA cp inhibit trustLevel policy \<longleftrightarrow>
    0 < unat (numBytes policy) \<and> unat (numBytes policy) \<le> CertPolicyId_MAX_BYTES \<and>
    (required_bytes policy = anyPolicy \<or>
     inhibit = None \<and>
     (case cp of
        None \<Rightarrow> trustLevel = TrustAnchor \<and> eeOrCA = MustBeCA
      | Some bs \<Rightarrow>
          \<exists>v ps oid q rest. wf_Input v \<and> bs = encode_tlv SEQUENCE v \<and>
            v = concat (map policy_info ps) @ policy_info (oid, q) @ rest \<and>
            (\<forall>p \<in> set ps. wf_info p) \<and> wf_info (oid, q) \<and>
            (policy_matches eeOrCA (required_bytes policy) oid \<or>
             (trustLevel = TrustAnchor \<and> eeOrCA = MustBeCA) \<and> ps = [])))"

lemma CheckCertificatePolicies_iff:
  assumes "\<forall>bs. cp = Some bs \<longrightarrow> wf_Input bs" and "wf_policy policy"
  shows "CheckCertificatePolicies eeOrCA cp inhibit trustLevel policy = Inr () \<longleftrightarrow>
    policies_allow eeOrCA cp inhibit trustLevel policy"
proof (cases "0 < unat (numBytes policy) \<and> unat (numBytes policy) \<le> CertPolicyId_MAX_BYTES")
  case False
  then show ?thesis by (auto simp: policies_allow_def CheckCertificatePolicies_def unat_gt_0)
next
  case True
  let ?req = "required_bytes policy"
  let ?found = "trustLevel = TrustAnchor \<and> eeOrCA = MustBeCA"
  have len: "length ?req = unat (numBytes policy)"
    using True assms(2) by (simp add: required_bytes_def wf_policy_def)
  have req: "wf_Input ?req" using True len by (simp add: wf_Input_def MAX_INPUT_def CertPolicyId_MAX_BYTES_def)
  have any: "IsAnyPolicy policy \<longleftrightarrow> ?req = anyPolicy"
    using len unfolding IsAnyPolicy_def required_bytes_def by (metis (no_types))
  have init: "Input_Init None (Some (take (unat (numBytes policy)) (policy_bytes policy))) = Inr ?req"
  proof -
    have "Input_Init None (Some d) = Inr d" if "wf_Input d" for d using that by (simp add: wf_Input_def)
    from this [OF req] show ?thesis unfolding required_bytes_def .
  qed
  have ok: "\<not> (numBytes policy = 0 \<or> unat (numBytes policy) > CertPolicyId_MAX_BYTES)"
    using True by (auto simp: unat_gt_0)
  have "CheckCertificatePolicies eeOrCA cp inhibit trustLevel policy = Inr () \<longleftrightarrow>
      ?req = anyPolicy \<or> (inhibit = None \<and> SearchPolicies eeOrCA ?req cp ?found = Inr True)"
  proof (cases "?req = anyPolicy \<or> inhibit \<noteq> None")
    case True
    then show ?thesis
      unfolding CheckCertificatePolicies_def if_not_P [OF ok] any init Let_def by (cases inhibit) simp_all
  next
    case False
    then show ?thesis
      unfolding CheckCertificatePolicies_def if_not_P [OF ok] any init Let_def
      by (cases trustLevel; cases eeOrCA; cases "SearchPolicies eeOrCA ?req cp ?found") simp_all
  qed
  also have "\<dots> \<longleftrightarrow> ?req = anyPolicy \<or> (inhibit = None \<and>
      (case cp of None \<Rightarrow> ?found | Some bs \<Rightarrow> SearchPolicies eeOrCA ?req (Some bs) ?found = Inr True))"
    by (cases cp) (auto simp: SearchPolicies_def)
  finally show ?thesis
    unfolding policies_allow_def using True assms(1) SearchPolicies_Some [OF _ req] by (cases cp) simp_all
qed

text \<open>C32: The check of certificate policies. It passes if no particular policy is required (that
  is, \<open>anyPolicy\<close>). Otherwise the certificate must not restrict \<open>anyPolicy\<close>, and must either be a CA
  trust anchor, or carry a list of policies with the required one in it; for a CA also
  \<open>anyPolicy\<close> will do. The list must be well-formed up to the policy that matches - or to its
  first element for a trust anchor -, and must fill the extension. An identifier of an
  impossible size is rejected.\<close>

theorem CheckCertificatePolicies_accepts:
  assumes "\<forall>bs. cp = Some bs \<longrightarrow> wf_Input bs" and "wf_policy policy"
  shows "CheckCertificatePolicies eeOrCA cp inhibit trustLevel policy = Inr () \<longleftrightarrow>
    0 < unat (numBytes policy) \<and> unat (numBytes policy) \<le> CertPolicyId_MAX_BYTES \<and>
    (required_bytes policy = anyPolicy \<or>
     inhibit = None \<and>
     (case cp of
        None \<Rightarrow> trustLevel = TrustAnchor \<and> eeOrCA = MustBeCA
      | Some bs \<Rightarrow>
          \<exists>v ps oid q rest. wf_Input v \<and> bs = encode_tlv SEQUENCE v \<and>
            v = concat (map policy_info ps) @ policy_info (oid, q) @ rest \<and>
            (\<forall>p \<in> set ps. wf_info p) \<and> wf_info (oid, q) \<and>
            (policy_matches eeOrCA (required_bytes policy) oid \<or>
             (trustLevel = TrustAnchor \<and> eeOrCA = MustBeCA) \<and> ps = [])))"
  using CheckCertificatePolicies_iff [OF assms] unfolding policies_allow_def .

theorem CheckCertificatePolicies_accepts_witness:
  "let p = \<lparr>numBytes = 3, policy_bytes = [0x2A, 0x03, 0x04] @ replicate 21 0\<rparr> in
   CheckCertificatePolicies MustBeEndEntity (Some [0x30, 0x07, 0x30, 0x05, 0x06, 0x03, 0x2A, 0x03, 0x04])
     None InheritsTrust p = Inr () \<and>
   CheckCertificatePolicies MustBeEndEntity None None InheritsTrust p \<noteq> Inr ()"
proof -
  let ?p = "\<lparr>numBytes = 3, policy_bytes = [0x2A, 0x03, 0x04] @ replicate 21 0\<rparr> :: CertPolicyId"
  let ?oid = "[0x2A, 0x03, 0x04] :: u8 list"
  let ?cp = "[0x30, 0x07, 0x30, 0x05, 0x06, 0x03, 0x2A, 0x03, 0x04] :: u8 list"
  have p: "wf_policy ?p" by (simp add: wf_policy_def CertPolicyId_MAX_BYTES_def)
  have cp: "\<forall>bs. Some ?cp = Some bs \<longrightarrow> wf_Input bs" by (simp add: wf_Input_def MAX_INPUT_def)
  have none: "\<forall>bs. None = Some bs \<longrightarrow> wf_Input bs" by simp
  have r: "required_bytes ?p = ?oid" "required_bytes ?p \<noteq> anyPolicy"
    by (simp_all add: required_bytes_def anyPolicy_def)
  have "wf_Input (policy_info (?oid, []))" "?cp = encode_tlv SEQUENCE (policy_info (?oid, []))" "wf_info (?oid, [])"
    by (simp_all add: wf_info_def wf_Input_def MAX_INPUT_def encode_tlv_def encode_length_def)
  then have "wf_Input (policy_info (?oid, [])) \<and> ?cp = encode_tlv SEQUENCE (policy_info (?oid, [])) \<and>
      policy_info (?oid, []) = concat (map policy_info []) @ policy_info (?oid, []) @ [] \<and>
      (\<forall>p \<in> set []. wf_info p) \<and> wf_info (?oid, []) \<and>
      (policy_matches MustBeEndEntity (required_bytes ?p) ?oid \<or>
       (InheritsTrust = TrustAnchor \<and> MustBeEndEntity = MustBeCA) \<and> [] = [])"
    using r(1) by (simp add: policy_matches_def del: tag_values)
  then have "\<exists>v ps oid q rest. wf_Input v \<and> ?cp = encode_tlv SEQUENCE v \<and>
      v = concat (map policy_info ps) @ policy_info (oid, q) @ rest \<and>
      (\<forall>p \<in> set ps. wf_info p) \<and> wf_info (oid, q) \<and>
      (policy_matches MustBeEndEntity (required_bytes ?p) oid \<or>
       (InheritsTrust = TrustAnchor \<and> MustBeEndEntity = MustBeCA) \<and> ps = [])"
    by blast
  then show ?thesis
    using CheckCertificatePolicies_accepts [OF cp p, of MustBeEndEntity None InheritsTrust]
      CheckCertificatePolicies_accepts [OF none p, of MustBeEndEntity None InheritsTrust] r
    by (simp add: CertPolicyId_MAX_BYTES_def Let_def)
qed

section \<open>The checks together\<close>

lemma MaybeInput_wf:
  "wf_cert c \<Longrightarrow> MaybeInput (deref c out) = Some v \<Longrightarrow> wf_Input v"
  by (auto simp: wf_cert_def MaybeInput_def split: if_splits)

lemma getters_wf:
  assumes "wf_cert c"
  shows "\<forall>v. GetKeyUsage c = Some v \<longrightarrow> wf_Input v" "\<forall>v. GetBasicConstraints c = Some v \<longrightarrow> wf_Input v"
    "\<forall>v. GetExtKeyUsage c = Some v \<longrightarrow> wf_Input v" "\<forall>v. GetCertificatePolicies c = Some v \<longrightarrow> wf_Input v"
  using MaybeInput_wf [OF assms, of Out_keyUsage] MaybeInput_wf [OF assms, of Out_basicConstraints]
    MaybeInput_wf [OF assms, of Out_extKeyUsage] MaybeInput_wf [OF assms, of Out_certificatePolicies]
  by (simp_all add: GetKeyUsage_def GetBasicConstraints_def GetExtKeyUsage_def GetCertificatePolicies_def)

lemma CheckValidity_iff: "CheckValidity time notBefore notAfter = Inr () \<longleftrightarrow> notBefore \<le> time \<and> time \<le> notAfter"
  by (auto simp: CheckValidity_def)

lemma CheckTrustedSignature_iff:
  "CheckTrustedSignature td c notBefore trustLevel = Inr () \<longleftrightarrow> trustLevel \<noteq> ActivelyDistrusted \<and>
    (trustLevel = InheritsTrust \<longrightarrow>
       CheckSignatureAlgorithm td (endEntityOrCA c) notBefore (signedData c) (signature c) = Inr ())"
  by (cases trustLevel) (simp_all add: CheckTrustedSignature_def)

lemma CheckSignatureAlgorithm_same:
  assumes "CheckSignatureAlgorithm td e notBefore sd sig = Inr ()"
  shows "\<exists>key digest. ReadSignatureAlgorithm (sds_algorithm sd) = Inr (key, digest) \<and>
    ReadSignatureAlgorithm sig = Inr (key, digest) \<and>
    CheckSignatureDigestAlgorithm td digest e notBefore = Inr ()"
  using assms unfolding CheckSignatureAlgorithm_def
  by (auto simp: bind_res_prod_Inr_iff bind_res_Inr_iff)

lemma CheckIssuerIndependentProperties_parts:
  assumes "CheckIssuerIndependentProperties td c time ku eku policy n = (Inr (), trustLevel)"
  obtains notBefore notAfter where
    "ParseValidity (validity c) = Inr (notBefore, notAfter)"
    "CheckTrustedSignature td c notBefore trustLevel = Inr ()"
    "CheckSubjectPublicKeyInfo (subjectPublicKeyInfo c) td (endEntityOrCA c) = Inr ()"
    "CheckKeyUsage (endEntityOrCA c) (GetKeyUsage c) ku = Inr ()"
    "CheckCertificatePolicies (endEntityOrCA c) (GetCertificatePolicies c) (GetInhibitAnyPolicy c) trustLevel policy = Inr ()"
    "CheckBasicConstraints (endEntityOrCA c) (GetBasicConstraints c) (version c) trustLevel n = Inr ()"
    "CheckExtendedKeyUsage (endEntityOrCA c) (GetExtKeyUsage c) eku td notBefore = Inr ()"
    "CheckValidity time notBefore notAfter = Inr ()"
    "CheckValidityIsAcceptable td notBefore notAfter (endEntityOrCA c) eku = Inr ()"
  using assms unfolding CheckIssuerIndependentProperties_def CheckCertificateContents_def Let_def
  by (auto simp: bind_res_Inr_iff split: prod.splits sum.splits)

text \<open>C18: What is known of a certificate that passes the checks that do not depend on its issuer.
  It is not distrusted; the time lies in its validity period, which the application
  accepts; unless it is a trust anchor, the signature algorithm in the signed bytes is the one
  outside them and the application accepts it; its key usage, policies, basic constraints and
  extended key usage allow what is asked for - a CA for signing certificates, with its
  path length for the number of CA certificates below it -, and its key is of an accepted
  kind and size. The check of the application's step-up rule must not fail.\<close>

theorem CheckIssuerIndependentProperties_accepts:
  assumes ok: "CheckIssuerIndependentProperties td c time ku eku policy n = (Inr (), trustLevel)"
    and wf: "wf_cert c" "wf_policy policy"
    and su: "NetscapeStepUpMatchesServerAuth td = (\<lambda>t. Inr (stepUp t))"
  shows "\<exists>notBefore notAfter. ParseValidity (validity c) = Inr (notBefore, notAfter) \<and>
    notBefore \<le> time \<and> time \<le> notAfter \<and>
    CheckValidityIsAcceptable td notBefore notAfter (endEntityOrCA c) eku = Inr () \<and>
    trustLevel \<noteq> ActivelyDistrusted \<and>
    (trustLevel = InheritsTrust \<longrightarrow> (\<exists>key digest.
       ReadSignatureAlgorithm (sds_algorithm (signedData c)) = Inr (key, digest) \<and>
       ReadSignatureAlgorithm (signature c) = Inr (key, digest) \<and>
       CheckSignatureDigestAlgorithm td digest (endEntityOrCA c) notBefore = Inr ())) \<and>
    (\<forall>ext. GetKeyUsage c = Some ext \<longrightarrow> (\<exists>v rest. wf_Input v \<and> ext = encode_tlv BIT_STRING v @ rest \<and>
       grants_usage (endEntityOrCA c) ku v)) \<and>
    policies_allow (endEntityOrCA c) (GetCertificatePolicies c) (GetInhibitAnyPolicy c) trustLevel policy \<and>
    constraints_allow (endEntityOrCA c) (GetBasicConstraints c) (version c) trustLevel n \<and>
    purposes_allow (endEntityOrCA c) (GetExtKeyUsage c) eku (stepUp notBefore) \<and>
    CheckSubjectPublicKeyInfo (subjectPublicKeyInfo c) td (endEntityOrCA c) = Inr ()"
proof -
  obtain nb na where p: "ParseValidity (validity c) = Inr (nb, na)"
    "CheckTrustedSignature td c nb trustLevel = Inr ()"
    "CheckSubjectPublicKeyInfo (subjectPublicKeyInfo c) td (endEntityOrCA c) = Inr ()"
    "CheckKeyUsage (endEntityOrCA c) (GetKeyUsage c) ku = Inr ()"
    "CheckCertificatePolicies (endEntityOrCA c) (GetCertificatePolicies c) (GetInhibitAnyPolicy c) trustLevel policy = Inr ()"
    "CheckBasicConstraints (endEntityOrCA c) (GetBasicConstraints c) (version c) trustLevel n = Inr ()"
    "CheckExtendedKeyUsage (endEntityOrCA c) (GetExtKeyUsage c) eku td nb = Inr ()"
    "CheckValidity time nb na = Inr ()"
    "CheckValidityIsAcceptable td nb na (endEntityOrCA c) eku = Inr ()"
    using CheckIssuerIndependentProperties_parts [OF ok] .
  note g = getters_wf [OF wf(1)]
  have step: "NetscapeStepUpMatchesServerAuth td nb = Inr (stepUp nb)" using su by simp
  have usage: "\<forall>ext. GetKeyUsage c = Some ext \<longrightarrow> (\<exists>v rest. wf_Input v \<and> ext = encode_tlv BIT_STRING v @ rest \<and>
       grants_usage (endEntityOrCA c) ku v)"
    using p(4) CheckKeyUsage_eq [of _ "endEntityOrCA c" ku] g(1) by (metis Inl_Inr_False)
  have sig: "trustLevel \<noteq> ActivelyDistrusted \<and> (trustLevel = InheritsTrust \<longrightarrow> (\<exists>key digest.
       ReadSignatureAlgorithm (sds_algorithm (signedData c)) = Inr (key, digest) \<and>
       ReadSignatureAlgorithm (signature c) = Inr (key, digest) \<and>
       CheckSignatureDigestAlgorithm td digest (endEntityOrCA c) nb = Inr ()))"
    using p(2) CheckSignatureAlgorithm_same unfolding CheckTrustedSignature_iff by blast
  show ?thesis
    using p(1,3,9) p(8) [unfolded CheckValidity_iff] sig usage
      p(5) [unfolded CheckCertificatePolicies_iff [OF g(4) wf(2)]]
      p(6) [unfolded CheckBasicConstraints_iff [OF g(2)]]
      p(7) [unfolded CheckExtendedKeyUsage_iff [OF g(3) step]] by blast
qed

theorem CheckIssuerIndependentProperties_accepts_witness:
  "\<exists>notBefore notAfter. ParseValidity (validity root_cert) = Inr (notBefore, notAfter) \<and>
    notBefore \<le> sample_time \<and> sample_time \<le> notAfter \<and>
    constraints_allow MustBeCA (GetBasicConstraints root_cert) (version root_cert) TrustAnchor 0"
proof -
  have "wf_Input root_der" by (simp add: root_der_def wf_Input_def MAX_INPUT_def)
  then have wf: "wf_cert root_cert" using BackCert_Init_wf root_cert_init by blast
  have p: "wf_policy any_policy" by (simp add: wf_policy_def any_policy_def CertPolicyId_MAX_BYTES_def)
  have td: "NetscapeStepUpMatchesServerAuth sample_domain = (\<lambda>t. Inr False)" by (simp add: domain_with_def)
  have ok: "CheckIssuerIndependentProperties sample_domain root_cert sample_time keyCertSign id_kp_serverAuth
      any_policy 0 = (Inr (), TrustAnchor)" by (simp add: root_cert_properties)
  from CheckIssuerIndependentProperties_accepts [OF ok wf p td] show ?thesis
    by (simp add: sample_fields) blast
qed

end
