(* ===== verification/PkixOcspVerify.thy ===== *)
theory PkixOcspVerify
  imports PkixOcspStatus PkixPolicy
begin

text \<open>
  When \<open>VerifyEncodedOCSPResponse\<close> (theory \<open>PkixOcsp\<close>) reports a good status: the bytes of the
  response, its signer and the statuses in it (theory \<open>PkixOcspStatus\<close>).
\<close>

section \<open>The bytes of a response\<close>

text \<open>The optional certificates behind the signature.\<close>

definition certs_at :: "u8 list \<Rightarrow> Input list \<Rightarrow> bool" where
  "certs_at bs certs \<longleftrightarrow>
     bs = [] \<and> certs = [] \<or>
     (\<exists>cs. certs = map (encode_tlv SEQUENCE) cs \<and>
       bs = encode_tlv (CONTEXT_SPECIFIC OR CONSTRUCTED OR 0) (encode_tlv SEQUENCE (concat certs)))"

definition encodes_response :: "Input \<Rightarrow> SignedDataWithSignature \<Rightarrow> Input list \<Rightarrow> bool" where
  "encodes_response der sd certs \<longleftrightarrow>
     (\<exists>rest. certs_at rest certs \<and>
       der = encode_tlv SEQUENCE (encode_tlv ENUMERATED [0] @
         encode_tlv (CONTEXT_SPECIFIC OR CONSTRUCTED OR 0) (encode_tlv SEQUENCE
           (encode_tlv OIDTag id_pkix_ocsp_basic @ encode_tlv OCTET_STRING (encode_tlv SEQUENCE
             (sds_data sd @ encode_tlv SEQUENCE (sds_algorithm sd) @
              encode_tlv BIT_STRING (0 # sds_signature sd) @ rest))))))"

lemma Nested2_reads:
  assumes wf: "wf_Reader r" and ok: "Nested2 r t u d = Inr (x, r')"
  obtains v where "remaining r = encode_tlv t (encode_tlv u v) @ remaining r'" "wf_Input v"
    "whole d v = Inr x" "wf_Reader r'"
proof -
  obtain w where w: "tlv_at r t w r'" "whole (\<lambda>s. Nested s u d) w = Inr x"
    using ok unfolding Nested2_eq Nested_iff [OF wf] by blast
  note wf' = tlv_at_wf [OF w(1) wf]
  obtain v where "w = encode_tlv u v" "wf_Input v" "whole d v = Inr x"
    using w(2) whole_Nested_iff [of w u d x] wf' by blast
  then show thesis using that tlv_at_split [OF w(1)] wf' by blast
qed

lemma wholeE:
  assumes "whole d v = Inr x" obtains q where "d (Reader_of v) = Inr (x, q)" "AtEnd q"
  using assms by (auto simp: whole_iff)

lemma OCSPResponse_bytes:
  assumes v: "wf_Input v" and ok: "whole (OCSPResponse ctx s) v = Inr s'"
  obtains w where "v = encode_tlv ENUMERATED [0] @
      encode_tlv (CONTEXT_SPECIFIC OR CONSTRUCTED OR 0) (encode_tlv SEQUENCE w)"
    "wf_Input w" "whole (ResponseBytes ctx s) w = Inr s'"
proof -
  obtain q where q: "OCSPResponse ctx s (Reader_of v) = Inr (s', q)" "AtEnd q" using wholeE [OF ok] .
  obtain b q1 where b: "Enumerated (Reader_of v) = Inr (b, q1)" "CheckResponseStatus b = Inr ()"
    "Nested2 q1 (CONTEXT_SPECIFIC OR CONSTRUCTED OR 0) SEQUENCE (ResponseBytes ctx s) = Inr (s', q)"
    using q(1) by (auto simp: OCSPResponse_def bind_res_Inr_iff simp del: tag_values)
  have "b = 0" using b(2) by (auto simp: CheckResponseStatus_def split: if_splits)
  moreover have "ENUMERATED OR 0 = ENUMERATED" by simp
  ultimately have at: "tlv_at (Reader_of v) ENUMERATED [0] q1"
    using b(1) IntegralValue_iff [OF wf_Reader_of [OF v]] unfolding Enumerated_def by metis
  have wf1: "wf_Reader q1" using tlv_at_wf [OF at wf_Reader_of [OF v]] by blast
  obtain w where w: "remaining q1 = encode_tlv (CONTEXT_SPECIFIC OR CONSTRUCTED OR 0) (encode_tlv SEQUENCE w) @ remaining q"
    "wf_Input w" "whole (ResponseBytes ctx s) w = Inr s'" "wf_Reader q" using Nested2_reads [OF wf1 b(3)] .
  then show thesis using that tlv_at_split [OF at] v q(2) AtEnd_iff [OF w(4)] by (metis append_Nil2 remaining_Reader_of)
qed

lemma ResponseBytes_bytes:
  assumes v: "wf_Input v" and ok: "whole (ResponseBytes ctx s) v = Inr s'"
  obtains w where "v = encode_tlv OIDTag id_pkix_ocsp_basic @ encode_tlv OCTET_STRING (encode_tlv SEQUENCE w)"
    "wf_Input w" "whole (BasicResponse ctx s) w = Inr s'"
proof -
  obtain q where q: "ResponseBytes ctx s (Reader_of v) = Inr (s', q)" "AtEnd q" using wholeE [OF ok] .
  obtain q1 where b: "OID (Reader_of v) id_pkix_ocsp_basic = Inr q1"
    "Nested2 q1 OCTET_STRING SEQUENCE (BasicResponse ctx s) = Inr (s', q)"
    using q(1) by (auto simp: ResponseBytes_def bind_res_Inr_iff simp del: tag_values)
  have at: "tlv_at (Reader_of v) OIDTag id_pkix_ocsp_basic q1"
    using b(1) OID_iff [OF wf_Reader_of [OF v]] by blast
  have wf1: "wf_Reader q1" using tlv_at_wf [OF at wf_Reader_of [OF v]] by blast
  obtain w where w: "remaining q1 = encode_tlv OCTET_STRING (encode_tlv SEQUENCE w) @ remaining q"
    "wf_Input w" "whole (BasicResponse ctx s) w = Inr s'" "wf_Reader q" using Nested2_reads [OF wf1 b(2)] .
  then show thesis using that tlv_at_split [OF at] v q(2) AtEnd_iff [OF w(4)] by (metis append_Nil2 remaining_Reader_of)
qed

lemma ReadCerts_bytes:
  assumes "wf_Reader r" and "ReadCerts certs r = Inr (certs', r')"
  shows "\<exists>cs. certs' = certs @ map (encode_tlv SEQUENCE) cs \<and> remaining r = concat (map (encode_tlv SEQUENCE) cs) \<and>
    AtEnd r'"
  using assms
proof (induction certs r rule: ReadCerts.induct)
  case (1 certs r)
  note wf = \<open>wf_Reader r\<close>
  show ?case
  proof (cases "AtEnd r")
    case True
    then have "certs' = certs" "r' = r" using 1(3) by (subst (asm) ReadCerts.simps, simp)+
    then show ?thesis using True wf by (intro exI [of _ "[]"]) (simp add: AtEnd_iff)
  next
    case False
    obtain cert r1 certs1 where c: "ExpectTagAndGetTLV r SEQUENCE = Inr (cert, r1)"
      "DERArray_Append certs cert = Inr certs1" "ReadCerts certs1 r1 = Inr (certs', r')"
      using 1(3) False by (subst (asm) ReadCerts.simps) (auto split: sum.splits)
    obtain v where v: "tlv_at r SEQUENCE v r1" "cert = encode_tlv SEQUENCE v"
      using c(1) unfolding ExpectTagAndGetTLV_iff [OF wf] by blast
    have "certs1 = certs @ [cert]" using c(2) by (auto simp: DERArray_Append_def split: if_splits sum.splits)
    moreover obtain cs where "certs' = certs1 @ map (encode_tlv SEQUENCE) cs"
      "remaining r1 = concat (map (encode_tlv SEQUENCE) cs)" "AtEnd r'"
      using 1(1) [OF False c(1) refl c(2)] tlv_at_wf [OF v(1) wf] c(3) by blast
    ultimately show ?thesis using tlv_at_split [OF v(1)] v(2) by (intro exI [of _ "v # cs"]) simp
  qed
qed


lemma BasicResponse_bytes:
  assumes v: "wf_Input v" and ok: "whole (BasicResponse ctx s) v = Inr s'"
  obtains tbs sd certs rest q where
    "v = sds_data sd @ encode_tlv SEQUENCE (sds_algorithm sd) @ encode_tlv BIT_STRING (0 # sds_signature sd) @ rest"
    "certs_at rest certs" "sds_data sd = encode_tlv SEQUENCE tbs" "wf_Input tbs"
    "ResponseData ctx sd certs s (Reader_of tbs) = Inr (s', q)"
proof -
  obtain q where q: "BasicResponse ctx s (Reader_of v) = Inr (s', q)" "AtEnd q" using wholeE [OF ok] .
  obtain t sd q1 certs q3 where b: "SignedData (Reader_of v) = Inr ((t, sd), q1)"
    "(if \<not> AtEnd q1 then Nested2 q1 (CONTEXT_SPECIFIC OR CONSTRUCTED OR 0) SEQUENCE (ReadCerts [])
      else Inr ([], q1)) = Inr (certs, q)" "ResponseData ctx sd certs s t = Inr (s', q3)"
    using q(1) unfolding BasicResponse_def
    by (auto simp: bind_res_prod_Inr_iff simp del: tag_values split: sum.splits if_splits)
  obtain tbs q' q'' where at: "tlv_at (Reader_of v) SEQUENCE tbs q'" "tlv_at q' SEQUENCE (sds_algorithm sd) q''"
    "tlv_at q'' BIT_STRING (0 # sds_signature sd) q1" "t = Reader_of tbs" "sds_data sd = encode_tlv SEQUENCE tbs"
    using b(1) unfolding SignedData_iff [OF wf_Reader_of [OF v]] by blast
  note w = tlv_at_wf [OF at(1) wf_Reader_of [OF v]]
  note w1 = tlv_at_wf [OF at(3) conjunct1 [OF tlv_at_wf [OF at(2) conjunct1 [OF w]]]]
  have bytes: "v = sds_data sd @ encode_tlv SEQUENCE (sds_algorithm sd) @
      encode_tlv BIT_STRING (0 # sds_signature sd) @ remaining q1"
    using tlv_at_split [OF at(1)] tlv_at_split [OF at(2)] tlv_at_split [OF at(3)] at(5) v by simp
  have "certs_at (remaining q1) certs"
  proof (cases "AtEnd q1")
    case True
    then show ?thesis using b(2) w1 by (simp add: certs_at_def AtEnd_iff)
  next
    case False
    then have certs: "Nested2 q1 (CONTEXT_SPECIFIC OR CONSTRUCTED OR 0) SEQUENCE (ReadCerts []) = Inr (certs, q)"
      using b(2) by simp
    obtain w where n: "remaining q1 = encode_tlv (CONTEXT_SPECIFIC OR CONSTRUCTED OR 0) (encode_tlv SEQUENCE w) @ remaining q"
      "wf_Input w" "whole (ReadCerts []) w = Inr certs" "wf_Reader q"
      using Nested2_reads [OF conjunct1 [OF w1] certs] .
    obtain u where "ReadCerts [] (Reader_of w) = Inr (certs, u)" using n(3) by (rule wholeE)
    then obtain cs where "certs = map (encode_tlv SEQUENCE) cs" "w = concat (map (encode_tlv SEQUENCE) cs)"
      using ReadCerts_bytes [OF wf_Reader_of [OF n(2)]] n(2) by fastforce
    moreover have "remaining q = []" using q(2) AtEnd_iff [OF n(4)] by simp
    ultimately show ?thesis unfolding certs_at_def using n(1)
      by (intro disjI2 exI [of _ cs]) (simp del: tag_values)
  qed
  then show thesis using that [OF bytes _ at(5)] w b(3) at(4) by blast
qed

section \<open>The signed part\<close>

text \<open>The identification of the responder and the responses in the signed bytes. (What may follow
  the responses are extensions.)\<close>

definition signed_responses :: "Input \<Rightarrow> ResponderIDType \<Rightarrow> Input \<Rightarrow> Input list \<Rightarrow> bool" where
  "signed_responses tbs responderIDType responderID vs \<longleftrightarrow>
     (\<exists>q1 q2 q3 q4 producedAt.
       OptionalVersion (Reader_of tbs) = Inr (v1, q1) \<and>
       ReadResponderID q1 = Inr ((responderIDType, responderID), q2) \<and>
       GeneralizedTime q2 = Inr (producedAt, q3) \<and>
       tlv_at q3 SEQUENCE (concat (map (encode_tlv SEQUENCE) vs)) q4 \<and> vs \<noteq> [] \<and> (\<forall>v \<in> set vs. wf_Input v))"

lemma ReadResponderID_wf:
  "wf_Reader r \<Longrightarrow> ReadResponderID r = Inr (x, r') \<Longrightarrow> wf_Reader r'"
  using expect_value.wf_ok [of r] by (auto simp: ReadResponderID_def Let_def bind_res_prod_Inr_iff simp del: responder_id_tag.simps)

lemma ResponseData_signed:
  assumes tbs: "wf_Input tbs" and ok: "ResponseData ctx sd certs s (Reader_of tbs) = Inr (s', q)"
  obtains responderIDType responderID vs where "signed_responses tbs responderIDType responderID vs"
    "VerifySignature ctx responderIDType responderID certs sd = Inr ()"
    "fold_res (\<lambda>s v. whole (SingleResponse ctx s) v) s vs = Inr s'"
proof -
  obtain q1 rt rid q2 t q3 q4 where *: "OptionalVersion (Reader_of tbs) = Inr (v1, q1)"
    "ReadResponderID q1 = Inr ((rt, rid), q2)" "VerifySignature ctx rt rid certs sd = Inr ()"
    "GeneralizedTime q2 = Inr (t, q3)"
    "NestedOf q3 SEQUENCE SEQUENCE EmptyAllowed_No (SingleResponse ctx) s = Inr (s', q4)"
    using ok unfolding ResponseData_def by (auto simp: bind_res_Inr_iff simp del: tag_values)
  have "wf_Reader q1" using optional_version.wf_ok [OF wf_Reader_of [OF tbs] *(1)] .
  then have "wf_Reader q3" using ReadResponderID_wf *(2,4) generalized_time.wf_ok by blast
  then obtain vs where "tlv_at q3 SEQUENCE (concat (map (encode_tlv SEQUENCE) vs)) q4" "\<forall>v \<in> set vs. wf_Input v"
    "vs \<noteq> []" "fold_res (\<lambda>s v. whole (SingleResponse ctx s) v) s vs = Inr s'"
    using *(5) unfolding NestedOf_iff [OF \<open>wf_Reader q3\<close>] by (auto split: if_splits)
  then show thesis using that *(1-4) unfolding signed_responses_def by blast
qed

section \<open>The signer\<close>

text \<open>Whose key signs: the issuer of the certificate, or a responder with a certificate that the
  issuer has issued for this purpose.\<close>

definition responder_key ::
  "Context \<Rightarrow> ResponderIDType \<Rightarrow> Input \<Rightarrow> Input list \<Rightarrow> Input \<Rightarrow> bool" where
  "responder_key ctx responderIDType responderID certs spki \<longleftrightarrow>
     spki = issuerSubjectPublicKeyInfo (certID ctx) \<and>
       MatchResponderID (ctx_trustDomain ctx) responderIDType responderID (issuer (certID ctx)) spki = Inr True \<or>
     (\<exists>der \<in> set certs. \<exists>cert. BackCert_Init der MustBeEndEntity = Inr cert \<and>
       spki = subjectPublicKeyInfo cert \<and>
       MatchResponderID (ctx_trustDomain ctx) responderIDType responderID (subject cert) spki = Inr True \<and>
       CheckOCSPResponseSignerCert (ctx_trustDomain ctx) cert (issuer (certID ctx))
         (issuerSubjectPublicKeyInfo (certID ctx)) (ctx_time ctx) = Inr ())"

lemma VerifyOCSPSignedData_Inr_iff [simp]:
  "VerifyOCSPSignedData td sd spki = Inr () \<longleftrightarrow> VerifySignedData td sd spki = Inr ()"
  by (simp add: VerifyOCSPSignedData_def Let_def)

lemma VerifySignature_loop_key:
  "VerifySignature_loop ctx rt rid sd certs = Inr () \<Longrightarrow>
   \<exists>spki. responder_key ctx rt rid certs spki \<and> VerifySignedData (ctx_trustDomain ctx) sd spki = Inr ()"
proof (induction certs)
  case (Cons der certs)
  have later: "\<exists>spki. responder_key ctx rt rid (der # certs) spki \<and> VerifySignedData (ctx_trustDomain ctx) sd spki = Inr ()"
    if "VerifySignature_loop ctx rt rid sd certs = Inr ()"
    using Cons.IH [OF that] unfolding responder_key_def by auto
  obtain cert where cert: "BackCert_Init der MustBeEndEntity = Inr cert"
    using Cons.prems by (auto split: sum.splits)
  let ?check = "CheckOCSPResponseSignerCert (ctx_trustDomain ctx) cert (issuer (certID ctx))
    (issuerSubjectPublicKeyInfo (certID ctx)) (ctx_time ctx)"
  show ?case
  proof (cases "MatchResponderID (ctx_trustDomain ctx) rt rid (subject cert) (subjectPublicKeyInfo cert) = Inr True \<and> ?check = Inr ()")
    case True
    then have "VerifySignedData (ctx_trustDomain ctx) sd (subjectPublicKeyInfo cert) = Inr ()"
      using Cons.prems cert by simp
    then show ?thesis using True cert unfolding responder_key_def by auto
  next
    case False
    then have "VerifySignature_loop ctx rt rid sd certs = Inr ()"
      using Cons.prems cert by (auto split: sum.splits if_splits)
    then show ?thesis by (rule later)
  qed
qed simp

lemma VerifySignature_key:
  assumes "VerifySignature ctx rt rid certs sd = Inr ()"
  shows "\<exists>spki. responder_key ctx rt rid certs spki \<and> VerifySignedData (ctx_trustDomain ctx) sd spki = Inr ()"
proof (cases "MatchResponderID (ctx_trustDomain ctx) rt rid (issuer (certID ctx)) (issuerSubjectPublicKeyInfo (certID ctx)) = Inr True")
  case True
  then show ?thesis using assms by (auto simp: VerifySignature_def responder_key_def)
next
  case False
  then have "VerifySignature_loop ctx rt rid sd certs = Inr ()"
    using assms by (auto simp: VerifySignature_def split: sum.splits if_splits)
  then show ?thesis by (rule VerifySignature_loop_key)
qed


section \<open>The response as a whole\<close>

abbreviation ocsp_context :: "TrustDomain \<Rightarrow> CertID \<Rightarrow> Time \<Rightarrow> u16 \<Rightarrow> Context" where
  "ocsp_context td cid time life \<equiv>
     \<lparr>ctx_trustDomain = td, certID = cid, ctx_time = time, maxLifetimeInDays = life\<rparr>"

text \<open>\<open>der\<close> is a response with the single responses \<open>vs\<close> whose signature has been verified with a
  key that may sign it.\<close>

definition verified_responses :: "Context \<Rightarrow> Input \<Rightarrow> Input list \<Rightarrow> bool" where
  "verified_responses ctx der vs \<longleftrightarrow>
     (\<exists>sd certs tbs responderIDType responderID spki.
       encodes_response der sd certs \<and> sds_data sd = encode_tlv SEQUENCE tbs \<and>
       signed_responses tbs responderIDType responderID vs \<and>
       responder_key ctx responderIDType responderID certs spki \<and>
       VerifySignedData (ctx_trustDomain ctx) sd spki = Inr ())"

lemma ParseOCSPResponse_verified:
  assumes der: "wf_Input der" and ok: "ParseOCSPResponse ctx der = Inr s"
  obtains vs where "verified_responses ctx der vs" "\<forall>v \<in> set vs. wf_Input v" "summary ctx (set vs) s"
proof -
  obtain q where q: "Nested (Reader_of der) SEQUENCE (OCSPResponse ctx initial_context) = Inr (s, q)" "AtEnd q"
    using ok unfolding ParseOCSPResponse_def by (auto simp: bind_res_Inr_iff End_def split: if_splits)
  obtain v where v: "tlv_at (Reader_of der) SEQUENCE v q" "whole (OCSPResponse ctx initial_context) v = Inr s"
    using q(1) unfolding Nested_iff [OF wf_Reader_of [OF der]] by blast
  note wf = tlv_at_wf [OF v(1) wf_Reader_of [OF der]]
  have 0: "der = encode_tlv SEQUENCE v" using tlv_at_split [OF v(1)] q(2) wf der by (simp add: AtEnd_iff)
  obtain v1 where 1: "v = encode_tlv ENUMERATED [0] @
      encode_tlv (CONTEXT_SPECIFIC OR CONSTRUCTED OR 0) (encode_tlv SEQUENCE v1)"
    "wf_Input v1" "whole (ResponseBytes ctx initial_context) v1 = Inr s"
    using OCSPResponse_bytes [OF conjunct2 [OF wf] v(2)] .
  obtain v2 where 2: "v1 = encode_tlv OIDTag id_pkix_ocsp_basic @ encode_tlv OCTET_STRING (encode_tlv SEQUENCE v2)"
    "wf_Input v2" "whole (BasicResponse ctx initial_context) v2 = Inr s"
    using ResponseBytes_bytes [OF 1(2,3)] .
  obtain tbs sd certs rest q' where 3: "v2 = sds_data sd @ encode_tlv SEQUENCE (sds_algorithm sd) @
      encode_tlv BIT_STRING (0 # sds_signature sd) @ rest"
    "certs_at rest certs" "sds_data sd = encode_tlv SEQUENCE tbs" "wf_Input tbs"
    "ResponseData ctx sd certs initial_context (Reader_of tbs) = Inr (s, q')"
    using BasicResponse_bytes [OF 2(2,3)] .
  obtain rt rid vs where 4: "signed_responses tbs rt rid vs" "VerifySignature ctx rt rid certs sd = Inr ()"
    "fold_res (\<lambda>s v. whole (SingleResponse ctx s) v) initial_context vs = Inr s"
    using ResponseData_signed [OF 3(4,5)] .
  obtain spki where 5: "responder_key ctx rt rid certs spki" "VerifySignedData (ctx_trustDomain ctx) sd spki = Inr ()"
    using VerifySignature_key [OF 4(2)] by blast
  have "encodes_response der sd certs" unfolding encodes_response_def 0 1(1) 2(1) 3(1) using 3(2) by blast
  then have "verified_responses ctx der vs" unfolding verified_responses_def using 3(3) 4(1) 5 by blast
  moreover have wfs: "\<forall>v \<in> set vs. wf_Input v" using 4(1) unfolding signed_responses_def by blast
  ultimately show thesis using that summary_fold [OF 4(3) summary_initial wfs] by simp
qed

lemma summary_Revoked: "summary ctx V s \<Longrightarrow> v \<in> V \<Longrightarrow> answers ctx v Revoked t u \<Longrightarrow> certStatus s = Revoked"
proof -
  assume s: "summary ctx V s" and v: "v \<in> V" "answers ctx v Revoked t u"
  have "Revoked \<le> certStatus s"
    using s v unfolding summary_def by (auto intro!: Max_ge)
  then show ?thesis by (cases "certStatus s") (auto simp: status_order)
qed

lemma summary_status_in:
  assumes "summary ctx V s" and "certStatus s \<noteq> Unknown"
  shows "\<exists>v \<in> V. \<exists>t u. answers ctx v (certStatus s) t u"
proof -
  have "certStatus s \<in> insert Unknown {st. \<exists>v \<in> V. \<exists>t u. answers ctx v st t u}"
    using assms(1) Max_in [of "insert Unknown {st. \<exists>v \<in> V. \<exists>t u. answers ctx v st t u}"]
    unfolding summary_def by auto
  then show ?thesis using assms(2) by blast
qed

lemma summary_Good:
  "summary ctx V s \<Longrightarrow> v \<in> V \<Longrightarrow> answers ctx v Good t u \<Longrightarrow> certStatus s = Good \<or> certStatus s = Revoked"
proof -
  assume s: "summary ctx V s" and v: "v \<in> V" "answers ctx v Good t u"
  have "Good \<le> certStatus s"
    using s v unfolding summary_def by (auto intro!: Max_ge)
  then show ?thesis by (cases "certStatus s") (auto simp: status_order)
qed


section \<open>A sample response\<close>

text \<open>It is signed by the issuer of \<open>sample_cert_id\<close> and says that the certificate is good on 27 May 2016.\<close>

definition sample_response :: Input where
  "sample_response =
    [0x30, 0x81, 0x95, 0x0A, 0x01, 0x00, 0xA0, 0x81, 0x8F, 0x30, 0x81, 0x8C, 0x06, 0x09, 0x2B, 0x06, 0x01, 0x05, 0x05, 0x07,
     0x30, 0x01, 0x01, 0x04, 0x7F, 0x30, 0x7D, 0x30, 0x68, 0xA1, 0x02, 0x30, 0x00, 0x18, 0x0F, 0x32, 0x30, 0x31, 0x36, 0x30,
     0x35, 0x32, 0x37, 0x30, 0x30, 0x30, 0x30, 0x30, 0x30, 0x5A, 0x30, 0x51, 0x30, 0x4F, 0x30, 0x3A, 0x30, 0x09, 0x06, 0x05,
     0x2B, 0x0E, 0x03, 0x02, 0x1A, 0x05, 0x00, 0x04, 0x14, 0x00, 0x00, 0x00, 0x00, 0x00, 0x00, 0x00, 0x00, 0x00, 0x00, 0x00,
     0x00, 0x00, 0x00, 0x00, 0x00, 0x00, 0x00, 0x00, 0x00, 0x04, 0x14, 0x00, 0x00, 0x00, 0x00, 0x00, 0x00, 0x00, 0x00, 0x00,
     0x00, 0x00, 0x00, 0x00, 0x00, 0x00, 0x00, 0x00, 0x00, 0x00, 0x00, 0x02, 0x01, 0x05, 0x80, 0x00, 0x18, 0x0F, 0x32, 0x30,
     0x31, 0x36, 0x30, 0x35, 0x32, 0x37, 0x30, 0x30, 0x30, 0x30, 0x30, 0x30, 0x5A, 0x30, 0x0D, 0x06, 0x09, 0x2A, 0x86, 0x48,
     0x86, 0xF7, 0x0D, 0x01, 0x01, 0x0B, 0x05, 0x00, 0x03, 0x02, 0x00, 0x01]"

lemmas eval_ocsp = VerifyEncodedOCSPResponse_def ParseOCSPResponse_def OCSPResponse_def ResponseBytes_def
  BasicResponse_def ResponseData_def ReadResponderID_def VerifySignature_def MatchResponderID_def
  VerifyOCSPSignedData_def SingleResponse_def ReadCertID_def ReadCertStatus_def ReadUpdateTimes_def
  ReadNotAfter_def CheckResponseStatus_def DigestAlgorithmIdentifier_def Enumerated_def OID_def
  GeneralizedTime_def initial_context_def TimeFromElapsedSecondsAD_def MatchKeyHash_def
  SHA1_DIGEST_LENGTH_def NEXT_UPDATE_TAG_def SLOP_SECONDS_def ONE_DAY_IN_SECONDS_def AddSeconds_def
  future_response_def id_pkix_ocsp_basic_def less_Time_def ReportStatus_def id_sha1_def OptionalNull_def InputsAreEqual_def

lemma replicate_20: "replicate 20 x = [x, x, x, x, x, x, x, x, x, x, x, x, x, x, x, x, x, x, x, x]"
  by (simp add: numeral_eq_Suc)

lemma sample_response_parsed:
  "ParseOCSPResponse (ocsp_context sample_domain sample_cert_id sample_time 10) sample_response =
    Inr (initial_context\<lparr>certStatus := Good, thisUpdate := Time 63599904000,
      validThrough := Time 63600076800, matchFound := True\<rparr>)"
  by (simp add: sample_response_def eval_ocsp eval_pkix eval_time eval_signature sample_time_def
    sample_KeyHash [simplified] VerifySignedData_def DigestSignedData_def VerifySignedDigest_def replicate_20 cong: bind_res_weak_cong)


lemma sample_response_wf: "wf_Input sample_response"
  by (simp add: sample_response_def wf_Input_def MAX_INPUT_def)

lemma sample_response_good:
  "VerifyEncodedOCSPResponse sample_domain sample_cert_id sample_time 10 sample_response ev =
    (Inr (), False, Some (Time 63599904000, Time 63600076800), ev)"
  by (simp add: VerifyEncodedOCSPResponse_def sample_response_parsed initial_context_def ReportStatus_def)

lemma good_response:
  assumes "wf_Input der"
    and "VerifyEncodedOCSPResponse td cid time life der ev = (Inr (), isExpired, dates, ev')"
  shows "\<exists>vs. verified_responses (ocsp_context td cid time life) der vs \<and>
    (\<exists>v \<in> set vs. \<exists>t u. answers (ocsp_context td cid time life) v Good t u) \<and>
    (\<forall>v \<in> set vs. \<forall>st t u. answers (ocsp_context td cid time life) v st t u \<longrightarrow> st \<noteq> Revoked \<and> time \<le> u)"
proof -
  let ?ctx = "ocsp_context td cid time life"
  obtain s where s: "ParseOCSPResponse ?ctx der = Inr s" "matchFound s" "fst (ReportStatus s ev) = Inr ()"
    using assms(2) unfolding VerifyEncodedOCSPResponse_def
    by (auto simp: Let_def split: sum.splits if_splits prod.splits)
  have good: "certStatus s = Good" "\<not> context_state.expired s"
    using s(3) by (auto simp: ReportStatus_def split: CertStatus.splits if_splits)
  obtain vs where vs: "verified_responses ?ctx der vs" "summary ?ctx (set vs) s"
    using ParseOCSPResponse_verified [OF assms(1) s(1)] by blast
  have "\<exists>v \<in> set vs. \<exists>t u. answers ?ctx v Good t u" using summary_status_in [OF vs(2)] good by simp
  moreover have "st \<noteq> Revoked \<and> time \<le> u" if "v \<in> set vs" "answers ?ctx v st t u" for v st t u
    using that good summary_Revoked [OF vs(2) that(1)] vs(2) unfolding summary_def
    by (metis CertStatus.distinct(1) Context.select_convs(3) not_le)
  ultimately show ?thesis using vs(1) by blast
qed

section \<open>Properties\<close>

text \<open>C7: When the status of a certificate is reported as good. The response is the encoding of a
  successful basic response; the signature over exactly the bytes that hold the statuses has
  been verified, with the key of the certificate's issuer or of a certificate in the response
  that passed the checks for a responder the issuer has appointed; one of the responses in
  these bytes says that the certificate is good; and no response for the certificate says
  that it is revoked or is too old.\<close>

theorem VerifyEncodedOCSPResponse_good:
  assumes "wf_Input der"
    and "VerifyEncodedOCSPResponse td cid time life der ev = (Inr (), isExpired, dates, ev')"
  shows "\<exists>vs. verified_responses (ocsp_context td cid time life) der vs \<and>
    (\<exists>v \<in> set vs. \<exists>t u. answers (ocsp_context td cid time life) v Good t u) \<and>
    (\<forall>v \<in> set vs. \<forall>st t u. answers (ocsp_context td cid time life) v st t u \<longrightarrow> st \<noteq> Revoked \<and> time \<le> u)"
  by (rule good_response [OF assms])

theorem VerifyEncodedOCSPResponse_good_witness:
  "\<exists>vs. verified_responses (ocsp_context sample_domain sample_cert_id sample_time 10) sample_response vs \<and>
    (\<exists>v \<in> set vs. \<exists>t u. answers (ocsp_context sample_domain sample_cert_id sample_time 10) v Good t u)"
  using VerifyEncodedOCSPResponse_good [OF sample_response_wf sample_response_good] by blast

text \<open>How the statuses of all responses for the certificate are combined, when the response could
  be read to its end (the dates are then set): if there is none, this is reported; revocation
  overrides everything else; a good status counts before unknown ones but not when a response
  for the certificate is too old.\<close>

lemma VerifyEncodedOCSPResponse_precedence:
  assumes "wf_Input der"
    and "VerifyEncodedOCSPResponse td cid time life der ev = (rv, isExpired, Some dates, ev')"
  shows "\<exists>vs. verified_responses (ocsp_context td cid time life) der vs \<and>
    (let has = (\<lambda>st. \<exists>v \<in> set vs. \<exists>t u. answers (ocsp_context td cid time life) v st t u);
         tooOld = (\<exists>v \<in> set vs. \<exists>st t u. answers (ocsp_context td cid time life) v st t u \<and> u < time)
     in (\<not> has Good \<and> \<not> has Revoked \<and> \<not> has Unknown \<longrightarrow> rv = Inl ERROR_OCSP_RESPONSE_FOR_CERT_MISSING) \<and>
        (has Revoked \<longrightarrow> rv = Inl ERROR_REVOKED_CERTIFICATE) \<and>
        (has Good \<and> \<not> has Revoked \<and> tooOld \<longrightarrow> rv = Inl ERROR_OCSP_OLD_RESPONSE) \<and>
        (has Unknown \<and> \<not> has Good \<and> \<not> has Revoked \<longrightarrow> rv = Inl ERROR_OCSP_UNKNOWN_CERT))"
proof -
  let ?ctx = "ocsp_context td cid time life"
  obtain s where s: "ParseOCSPResponse ?ctx der = Inr s"
    and rv: "rv = (if matchFound s then fst (ReportStatus s ev) else Inl ERROR_OCSP_RESPONSE_FOR_CERT_MISSING)"
    using assms(2) unfolding VerifyEncodedOCSPResponse_def
    by (auto simp: Let_def split: sum.splits if_splits prod.splits)
  obtain vs where vs: "verified_responses ?ctx der vs" "summary ?ctx (set vs) s"
    using ParseOCSPResponse_verified [OF assms(1) s(1)] by blast
  define has where "has = (\<lambda>st. \<exists>v \<in> set vs. \<exists>t u. answers ?ctx v st t u)"
  define tooOld where "tooOld \<longleftrightarrow> (\<exists>v \<in> set vs. \<exists>st t u. answers ?ctx v st t u \<and> u < time)"
  have found: "matchFound s \<longleftrightarrow> has Good \<or> has Revoked \<or> has Unknown"
  proof -
    have "(\<exists>st. has st) \<longleftrightarrow> has Good \<or> has Revoked \<or> has Unknown" by (metis CertStatus.exhaust)
    moreover have "matchFound s \<longleftrightarrow> (\<exists>st. has st)" using vs(2) unfolding summary_def has_def by blast
    ultimately show ?thesis by simp
  qed
  have old: "context_state.expired s \<longleftrightarrow> tooOld" using vs(2) unfolding summary_def tooOld_def by simp
  have R: "has Revoked \<Longrightarrow> certStatus s = Revoked" using summary_Revoked [OF vs(2)] unfolding has_def by blast
  have G: "has Good \<Longrightarrow> certStatus s = Good \<or> certStatus s = Revoked"
    using summary_Good [OF vs(2)] unfolding has_def by blast
  have "certStatus s \<noteq> Unknown \<Longrightarrow> has (certStatus s)" using summary_status_in [OF vs(2)] unfolding has_def .
  then have "certStatus s = Revoked \<Longrightarrow> has Revoked" "certStatus s = Good \<Longrightarrow> has Good" by force+
  then have "(\<not> has Good \<and> \<not> has Revoked \<and> \<not> has Unknown \<longrightarrow> rv = Inl ERROR_OCSP_RESPONSE_FOR_CERT_MISSING) \<and>
      (has Revoked \<longrightarrow> rv = Inl ERROR_REVOKED_CERTIFICATE) \<and>
      (has Good \<and> \<not> has Revoked \<and> tooOld \<longrightarrow> rv = Inl ERROR_OCSP_OLD_RESPONSE) \<and>
      (has Unknown \<and> \<not> has Good \<and> \<not> has Revoked \<longrightarrow> rv = Inl ERROR_OCSP_UNKNOWN_CERT)"
    using found old R G rv by (cases "certStatus s") (auto simp: ReportStatus_def)
  then show ?thesis using vs(1) unfolding has_def tooOld_def Let_def by blast
qed

text \<open>The step-up answer of the application plays no part for responders.\<close>

lemma CheckExtendedKeyUsage_responder:
  assumes eku: "\<forall>eku. ext = Some eku \<longrightarrow> wf_Input eku"
    and ok: "CheckExtendedKeyUsage MustBeEndEntity ext id_kp_OCSPSigning td notBefore = Inr ()"
  shows "\<exists>ids. ext = Some (encode_tlv SEQUENCE (concat (map (encode_tlv OIDTag) ids))) \<and> eku_ocsp \<in> set ids"
proof -
  let ?td = "td\<lparr>NetscapeStepUpMatchesServerAuth := \<lambda>t. Inr False\<rparr>"
  have "CheckExtendedKeyUsage MustBeEndEntity ext id_kp_OCSPSigning td notBefore =
      CheckExtendedKeyUsage MustBeEndEntity ext id_kp_OCSPSigning ?td notBefore"
  proof -
    have m: "MatchEKU id_kp_OCSPSigning MustBeEndEntity td notBefore = MatchEKU id_kp_OCSPSigning MustBeEndEntity ?td notBefore"
      by (simp add: fun_eq_iff MatchEKU_def MatchRequiredEKU_def)
    show ?thesis unfolding CheckExtendedKeyUsage_def SearchEKU_def m ..
  qed
  then have "purposes_allow MustBeEndEntity ext id_kp_OCSPSigning False"
    using ok CheckExtendedKeyUsage_iff [OF eku, of ?td notBefore False MustBeEndEntity id_kp_OCSPSigning] by simp
  then show ?thesis unfolding purposes_allow_def by (auto split: option.splits simp del: tag_values)
qed

text \<open>C37: Which certificates may sign for the issuer: those that name the issuer as theirs, are
  signed with the issuer's key, are within their validity period, and whose extended key usage
  lists the signing of OCSP responses.\<close>

theorem CheckOCSPResponseSignerCert_appointed:
  assumes "CheckOCSPResponseSignerCert td c issuerSubject issuerSPKI time = Inr ()"
    and "wf_cert c" and "endEntityOrCA c = MustBeEndEntity" and "wf_Input issuerSubject"
  shows "bc_issuer c = issuerSubject \<and> VerifySignedData td (signedData c) issuerSPKI = Inr () \<and>
    (\<exists>notBefore notAfter. ParseValidity (validity c) = Inr (notBefore, notAfter) \<and>
      notBefore \<le> time \<and> time \<le> notAfter) \<and>
    (\<exists>ids. GetExtKeyUsage c = Some (encode_tlv SEQUENCE (concat (map (encode_tlv OIDTag) ids))) \<and>
      eku_ocsp \<in> set ids)"
proof -
  obtain trustLevel where ok: "CheckIssuerIndependentProperties td c time noParticularKeyUsageRequired id_kp_OCSPSigning
      CertPolicyId_anyPolicy 0 = (Inr (), trustLevel)"
    using assms(1) by (cases "CheckIssuerIndependentProperties td c time noParticularKeyUsageRequired
      id_kp_OCSPSigning CertPolicyId_anyPolicy 0") (auto simp: CheckOCSPResponseSignerCert_def bind_res_Inr_iff)
  have "wf_Input (bc_issuer c)" using assms(2) by (simp add: wf_cert_def)
  then have "bc_issuer c = issuerSubject" "VerifySignedData td (signedData c) issuerSPKI = Inr ()"
    using assms(1,4) by (auto simp: CheckOCSPResponseSignerCert_def bind_res_Inr_iff InputsAreEqual_iff)
  moreover obtain nb na where "ParseValidity (validity c) = Inr (nb, na)" "nb \<le> time \<and> time \<le> na"
    "CheckExtendedKeyUsage MustBeEndEntity (GetExtKeyUsage c) id_kp_OCSPSigning td nb = Inr ()"
    using CheckIssuerIndependentProperties_parts [OF ok] assms(3) by (metis CheckValidity_iff)
  ultimately show ?thesis using CheckExtendedKeyUsage_responder [OF getters_wf(3) [OF assms(2)]] by blast
qed

text \<open>The sample end entity with the purpose of a responder.\<close>

definition sample_responder :: BackCert where
  "sample_responder = leaf_cert\<lparr>extKeyUsage := Some [0x30, 0x0A, 0x06, 0x08, 0x2B, 6, 1, 5, 5, 7, 3, 9]\<rparr>"

lemma sample_responder_fields [simp]:
  "endEntityOrCA sample_responder = MustBeEndEntity" "validity sample_responder = validity leaf_cert"
  "signedData sample_responder = signedData leaf_cert" "signature sample_responder = signature leaf_cert"
  "bc_issuer sample_responder = bc_issuer leaf_cert" "bc_der sample_responder = bc_der leaf_cert"
  "subjectPublicKeyInfo sample_responder = subjectPublicKeyInfo leaf_cert"
  "GetKeyUsage sample_responder = None" "GetBasicConstraints sample_responder = None"
  "GetCertificatePolicies sample_responder = None" "GetInhibitAnyPolicy sample_responder = None"
  "GetExtKeyUsage sample_responder = Some [0x30, 0x0A, 0x06, 0x08, 0x2B, 6, 1, 5, 5, 7, 3, 9]"
  by (simp_all add: sample_responder_def leaf_cert_def eval_getters GetLength_def)

lemma sample_responder_wf: "wf_cert sample_responder"
proof -
  have "wf_Input leaf_der" by (simp add: leaf_der_def wf_Input_def MAX_INPUT_def)
  then have "wf_cert leaf_cert" using BackCert_Init_wf leaf_cert_init by blast
  moreover have "wf_Input v" if "deref sample_responder out = Some v" for out v
    using that
    by (cases out) (auto simp: sample_responder_def leaf_cert_def wf_Input_def MAX_INPUT_def)
  ultimately show ?thesis by (simp add: wf_cert_def) (simp add: sample_responder_def leaf_cert_def)
qed


lemma sample_responder_accepted:
  "CheckOCSPResponseSignerCert sample_domain sample_responder (bc_issuer leaf_cert) (subjectPublicKeyInfo root_cert)
     sample_time = Inr ()"
proof -
  have "CheckExtendedKeyUsage MustBeEndEntity (Some [0x30, 0x0A, 0x06, 0x08, 0x2B, 6, 1, 5, 5, 7, 3, 9])
      id_kp_OCSPSigning sample_domain t = Inr ()" for t
    by (simp add: CheckExtendedKeyUsage_def SearchEKU_def MatchEKU_def MatchRequiredEKU_def eku_ocsp_def eval_pkix
      cong: bind_res_weak_cong)
  moreover have "CheckCertificatePolicies e cp iap trust CertPolicyId_anyPolicy = Inr ()" for e cp iap trust
    using any_policy_accepted by (simp add: CertPolicyId_anyPolicy_def any_policy_def)
  ultimately show ?thesis
    by (simp add: CheckOCSPResponseSignerCert_def CheckIssuerIndependentProperties_def CheckCertificateContents_def
      leaf_cert_validity leaf_cert_spki leaf_cert_signature sample_issuer CheckTrustedSignature_def
      AdjustTrustLevel_def CheckKeyUsage_def CheckBasicConstraints_def GetBasicConstraintsValue_def
      CheckValidity_def sample_time_def less_Time_def InputsAreEqual_def VerifySignedData_def leaf_cert_digest
      VerifySignedDigest_def fail_if_def Let_def cong: bind_res_weak_cong)
qed

theorem CheckOCSPResponseSignerCert_appointed_witness:
  "bc_issuer sample_responder = bc_issuer leaf_cert \<and>
   VerifySignedData sample_domain (signedData sample_responder) (subjectPublicKeyInfo root_cert) = Inr ()"
proof -
  have "wf_Input (bc_issuer leaf_cert)" using sample_responder_wf unfolding wf_cert_def by force
  then show ?thesis
    using CheckOCSPResponseSignerCert_appointed [OF sample_responder_accepted sample_responder_wf] by simp
qed

end
