(* ===== verification/PsmRevocation.thy ===== *)
theory PsmRevocation
  imports PsmOcspRequestor PkixOcspVerify PkixOcspRequest
begin

text \<open>
  \<open>NSSCertDBTrustDomain::CheckRevocation\<close> and what it calls in
  \<^verbatim>\<open>security/certverifier/NSSCertDBTrustDomain.cpp\<close>: the stapled response, the cache, the request to the
  OCSP server, and the policies for a server that does not answer. The state of the trust domain (with the
  cache that it shares with others) is passed explicitly.
\<close>

section \<open>State\<close>

datatype OCSPStaplingStatus =
    OCSP_STAPLING_NEVER_CHECKED | OCSP_STAPLING_GOOD | OCSP_STAPLING_NONE | OCSP_STAPLING_EXPIRED
  | OCSP_STAPLING_INVALID

text \<open>\<open>requestCount\<close> is the number of requests that were sent, so that the answers may differ.\<close>

record domain_state =
  mOCSPCache :: "Entry list"
  mOCSPStaplingStatus :: OCSPStaplingStatus
  mSCTListFromCertificate :: "Input option"
  mSCTListFromOCSPStapling :: "Input option"
  requestCount :: nat

definition ResetAccumulatedState :: "domain_state \<Rightarrow> domain_state" where
  "ResetAccumulatedState s =
     s\<lparr>mOCSPStaplingStatus := OCSP_STAPLING_NEVER_CHECKED, mSCTListFromOCSPStapling := None,
       mSCTListFromCertificate := None\<rparr>"

definition NoteAuxiliaryExtension_NSS :: "AuxiliaryExtension \<Rightarrow> Input \<Rightarrow> domain_state \<Rightarrow> domain_state" where
  "NoteAuxiliaryExtension_NSS extension extensionData s =
     (case extension of
        EmbeddedSCTList \<Rightarrow> s\<lparr>mSCTListFromCertificate := Some extensionData\<rparr>
      | SCTListFromOCSPResponse \<Rightarrow> s\<lparr>mSCTListFromOCSPStapling := Some extensionData\<rparr>)"

text \<open>The only calls that the check of a response makes of a trust domain with a state are these.\<close>

fun note_event :: "td_event \<Rightarrow> domain_state \<Rightarrow> domain_state" where
  "note_event (NoteAuxiliaryExtension_called ext v) s = NoteAuxiliaryExtension_NSS ext v s"
| "note_event (IsChainValid_called ders t) s = s"
| "note_event (CheckRevocation_called e cid t du st aia) s = s"

section \<open>Verifying and caching a response\<close>

datatype EncodedResponseSource = ResponseIsFromNetwork | ResponseWasStapled

definition ServerFailureDelaySeconds :: u64 where
  "ServerFailureDelaySeconds = 5 * 60"

definition PutOCSP ::
  "NSSCertDBTrustDomain \<Rightarrow> services \<Rightarrow> CertID \<Rightarrow> unit res \<Rightarrow> Time \<Rightarrow> Time \<Rightarrow> domain_state \<Rightarrow>
     unit res \<times> domain_state" where
  "PutOCSP cfg sv cid aResult aThisUpdate aValidThrough s =
     (let (rv, cache) = Put (cacheEnv sv) (mOCSPCache s) cid (mFirstPartyDomain cfg) aResult aThisUpdate aValidThrough
      in (rv, s\<lparr>mOCSPCache := cache\<rparr>))"

text \<open>The statuses that a response can establish; anything else is an error of the server.\<close>

definition established :: "unit res \<Rightarrow> bool" where
  "established rv \<longleftrightarrow> rv = Inr () \<or> rv = Inl ERROR_REVOKED_CERTIFICATE \<or> rv = Inl ERROR_OCSP_UNKNOWN_CERT"

text \<open>The status, the out-parameter \<open>expired\<close> and the new state.\<close>

definition VerifyAndMaybeCacheEncodedOCSPResponse ::
  "NSSCertDBTrustDomain \<Rightarrow> services \<Rightarrow> CertID \<Rightarrow> Time \<Rightarrow> u16 \<Rightarrow> Input \<Rightarrow> EncodedResponseSource \<Rightarrow> domain_state \<Rightarrow>
     unit res \<times> bool \<times> domain_state" where
  "VerifyAndMaybeCacheEncodedOCSPResponse cfg sv cid time life encodedResponse responseSource s =
     (let (rv, isExpired, times, events) = VerifyEncodedOCSPResponse (OCSPVerificationTrustDomain cfg sv) cid time
            life encodedResponse [];
          s = fold note_event events s;
          (thisUpd, through) = (case times of None \<Rightarrow> staleTimes sv encodedResponse | Some ts \<Rightarrow> ts)
      in if responseSource = ResponseWasStapled \<and> isExpired then (rv, isExpired, s)
         else case (if established rv then Inr through else AddSeconds time ServerFailureDelaySeconds) of
           Inl _ \<Rightarrow> (Inl FATAL_ERROR_LIBRARY_FAILURE, isExpired, s)
         | Inr through \<Rightarrow>
             if responseSource = ResponseIsFromNetwork \<or> established rv then
               (let (putRV, s) = PutOCSP cfg sv cid rv thisUpd through s
                in if putRV \<noteq> Inr () then (putRV, isExpired, s) else (rv, isExpired, s))
             else (rv, isExpired, s))"

section \<open>The address of the server\<close>

fun FirstURI :: "services \<Rightarrow> (bool \<times> u8 list) list \<Rightarrow> (u8 list option) res" where
  "FirstURI sv [] = Inr None"
| "FirstURI sv ((isURI, location) # names) =
     (if isURI then
        if length location > 1024 \<or> list_ex (\<lambda>b. b = 0) location then Inl ERROR_CERT_BAD_ACCESS_LOCATION
        else if \<not> arenaAllocates sv then Inl FATAL_ERROR_NO_MEMORY
        else Inr (Some location)
      else FirstURI sv names)"

fun FirstOCSPLocation :: "services \<Rightarrow> (bool \<times> (bool \<times> u8 list) list) list \<Rightarrow> (u8 list option) res" where
  "FirstOCSPLocation sv [] = Inr None"
| "FirstOCSPLocation sv ((isOCSP, location) # aia) =
     (if isOCSP then
        case FirstURI sv location of
          Inl e \<Rightarrow> Inl e
        | Inr (Some url) \<Rightarrow> Inr (Some url)
        | Inr None \<Rightarrow> FirstOCSPLocation sv aia
      else FirstOCSPLocation sv aia)"

definition GetOCSPAuthorityInfoAccessLocation :: "services \<Rightarrow> Input \<Rightarrow> (u8 list option) res" where
  "GetOCSPAuthorityInfoAccessLocation sv aiaExtension =
     (case decodeAuthInfoAccess sv aiaExtension of
        None \<Rightarrow> Inl ERROR_CERT_BAD_ACCESS_LOCATION
      | Some aia \<Rightarrow> FirstOCSPLocation sv aia)"

text \<open>\<open>None\<close> if the certificate has no address.\<close>

definition OCSPAddress :: "services \<Rightarrow> Input option \<Rightarrow> (u8 list option) res" where
  "OCSPAddress sv aiaExtension =
     (case aiaExtension of None \<Rightarrow> Inr None | Some aia \<Rightarrow> GetOCSPAuthorityInfoAccessLocation sv aia)"

section \<open>The check\<close>

definition maxOCSPLifetimeInDays :: "EndEntityOrCA \<Rightarrow> u16" where
  "maxOCSPLifetimeInDays eeOrCA = (if eeOrCA = MustBeCA then 365 else 10)"

text \<open>The stapled response: the result that ends the check, if any; \<open>stapledOCSPResponseResult\<close>; the new
  state.\<close>

definition CheckStapledResponse ::
  "NSSCertDBTrustDomain \<Rightarrow> services \<Rightarrow> EndEntityOrCA \<Rightarrow> CertID \<Rightarrow> Time \<Rightarrow> Input option \<Rightarrow> domain_state \<Rightarrow>
     unit res option \<times> unit res \<times> domain_state" where
  "CheckStapledResponse cfg sv eeOrCA cid time stapled s =
     (case stapled of
        Some response \<Rightarrow>
          (let (rv, isExpired, s) = VerifyAndMaybeCacheEncodedOCSPResponse cfg sv cid time
                 (maxOCSPLifetimeInDays eeOrCA) response ResponseWasStapled s
           in if rv = Inr () then (Some (Inr ()), rv, s\<lparr>mOCSPStaplingStatus := OCSP_STAPLING_GOOD\<rparr>)
              else if rv = Inl ERROR_OCSP_OLD_RESPONSE \<or> isExpired
              then (None, rv, s\<lparr>mOCSPStaplingStatus := OCSP_STAPLING_EXPIRED\<rparr>)
              else (Some rv, rv, s\<lparr>mOCSPStaplingStatus := OCSP_STAPLING_INVALID\<rparr>))
      | None \<Rightarrow>
          if eeOrCA = MustBeEndEntity then (None, Inr (), s\<lparr>mOCSPStaplingStatus := OCSP_STAPLING_NONE\<rparr>)
          else (None, Inr (), s))"

text \<open>What the cache knows: the result that ends the check, if any; \<open>cachedResponseResult\<close>, which is
  \<open>Success\<close> if nothing is known; the new state.\<close>

definition CheckCachedResponse ::
  "NSSCertDBTrustDomain \<Rightarrow> services \<Rightarrow> CertID \<Rightarrow> Time \<Rightarrow> domain_state \<Rightarrow>
     unit res option \<times> unit res \<times> domain_state" where
  "CheckCachedResponse cfg sv cid time s =
     (let (cached, cache) = Get (cacheEnv sv) (mOCSPCache s) cid (mFirstPartyDomain cfg);
          s = s\<lparr>mOCSPCache := cache\<rparr>
      in case cached of
        None \<Rightarrow> (None, Inr (), s)
      | Some (result, through) \<Rightarrow>
          if result = Inr () \<and> through \<ge> time then (Some (Inr ()), result, s)
          else if result = Inl ERROR_REVOKED_CERTIFICATE then (Some (Inl ERROR_REVOKED_CERTIFICATE), result, s)
          else
            let result = (if result = Inr () \<and> through < time then Inl ERROR_OCSP_OLD_RESPONSE else result)
            in if result \<noteq> Inr () \<and> result \<noteq> Inl ERROR_OCSP_UNKNOWN_CERT \<and>
                  result \<noteq> Inl ERROR_OCSP_OLD_RESPONSE \<and> through < time
               then (None, Inr (), s)
               else (None, result, s))"

text \<open>Whether the server is not to be asked, and the result then.\<close>

definition no_fetching :: "NSSCertDBTrustDomain \<Rightarrow> EndEntityOrCA \<Rightarrow> Duration \<Rightarrow> bool" where
  "no_fetching cfg eeOrCA validityDuration \<longleftrightarrow>
     mOCSPFetching cfg = NeverFetchOCSP \<or>
     validityDuration < Duration (ucast (mCertShortLifetimeInDays cfg) * ONE_DAY_IN_SECONDS) \<or>
     eeOrCA = MustBeCA \<and>
       (mOCSPFetching cfg = FetchOCSPForDVHardFail \<or> mOCSPFetching cfg = FetchOCSPForDVSoftFail)"

definition ResultWithoutFetching :: "NSSCertDBTrustDomain \<Rightarrow> unit res \<Rightarrow> unit res" where
  "ResultWithoutFetching cfg cachedResponseResult =
     (if cachedResponseResult = Inl ERROR_OCSP_UNKNOWN_CERT then Inl ERROR_OCSP_UNKNOWN_CERT
      else if mOCSPFetching cfg = FetchOCSPForDVHardFail \<and> cachedResponseResult = Inl ERROR_OCSP_OLD_RESPONSE
      then Inl ERROR_OCSP_OLD_RESPONSE
      else Inr ())"

text \<open>The result for a certificate without the address of a server.\<close>

definition ResultWithoutURL :: "NSSCertDBTrustDomain \<Rightarrow> unit res \<Rightarrow> unit res \<Rightarrow> unit res" where
  "ResultWithoutURL cfg stapledOCSPResponseResult cachedResponseResult =
     (if mOCSPFetching cfg = FetchOCSPForEV \<or> cachedResponseResult = Inl ERROR_OCSP_UNKNOWN_CERT
      then Inl ERROR_OCSP_UNKNOWN_CERT
      else if cachedResponseResult = Inl ERROR_OCSP_OLD_RESPONSE then Inl ERROR_OCSP_OLD_RESPONSE
      else if stapledOCSPResponseResult \<noteq> Inr () then stapledOCSPResponseResult
      else Inr ())"

text \<open>The request: an error if none can be encoded; otherwise the status of the request, the response
  (empty if there is none), whether the server was asked, and the new state. The response that is too
  big is malformed. The buffer of the request has no contents at first.\<close>

definition FetchResponse ::
  "NSSCertDBTrustDomain \<Rightarrow> services \<Rightarrow> CertID \<Rightarrow> u8 list \<Rightarrow> unit res \<Rightarrow> domain_state \<Rightarrow>
     (unit res \<times> Input \<times> bool \<times> domain_state) res" where
  "FetchResponse cfg sv cid url cachedResponseResult s =
     (if cachedResponseResult = Inr () \<or> cachedResponseResult = Inl ERROR_OCSP_UNKNOWN_CERT \<or>
         cachedResponseResult = Inl ERROR_OCSP_OLD_RESPONSE then
        case CreateEncodedOCSPRequest (OCSPVerificationTrustDomain cfg sv) cid
               (replicate OCSP_REQUEST_MAX_LENGTH 0) of
          Inl e \<Rightarrow> Inl e
        | Inr (ocspRequest, ocspRequestLength) \<Rightarrow>
            let s' = s\<lparr>requestCount := requestCount s + 1\<rparr> in
            (case DoOCSPRequest cfg sv (requestCount s) url (take ocspRequestLength ocspRequest) of
               Inl e \<Rightarrow> Inr (Inl e, [], True, s')
             | Inr response \<Rightarrow>
                 (case Input_Init None response of
                    Inl _ \<Rightarrow> Inr (Inl ERROR_OCSP_MALFORMED_RESPONSE, [], True, s')
                  | Inr response \<Rightarrow> Inr (Inr (), response, True, s')))
      else Inr (cachedResponseResult, [], False, s))"

text \<open>The result after a request without a response.\<close>

definition ResultWithoutResponse ::
  "NSSCertDBTrustDomain \<Rightarrow> unit res \<Rightarrow> unit res \<Rightarrow> unit res \<Rightarrow> unit res" where
  "ResultWithoutResponse cfg stapledOCSPResponseResult cachedResponseResult error =
     (if mOCSPFetching cfg \<noteq> FetchOCSPForDVSoftFail then error
      else if cachedResponseResult = Inl ERROR_OCSP_UNKNOWN_CERT then cachedResponseResult
      else if stapledOCSPResponseResult \<noteq> Inr () then stapledOCSPResponseResult
      else Inr ())"

text \<open>The result for the verified response \<open>rv\<close> of the server.\<close>

definition ResultOfResponse :: "NSSCertDBTrustDomain \<Rightarrow> unit res \<Rightarrow> unit res \<Rightarrow> unit res" where
  "ResultOfResponse cfg stapledOCSPResponseResult rv =
     (if rv = Inr () \<or> mOCSPFetching cfg \<noteq> FetchOCSPForDVSoftFail then rv
      else if rv = Inl ERROR_OCSP_UNKNOWN_CERT \<or> rv = Inl ERROR_REVOKED_CERTIFICATE then rv
      else if stapledOCSPResponseResult \<noteq> Inr () then stapledOCSPResponseResult
      else Inr ())"

definition AskServer ::
  "NSSCertDBTrustDomain \<Rightarrow> services \<Rightarrow> EndEntityOrCA \<Rightarrow> CertID \<Rightarrow> Time \<Rightarrow> u8 list \<Rightarrow> unit res \<Rightarrow> unit res \<Rightarrow>
     domain_state \<Rightarrow> unit res \<times> domain_state" where
  "AskServer cfg sv eeOrCA cid time url stapledOCSPResponseResult cachedResponseResult s =
     (case FetchResponse cfg sv cid url cachedResponseResult s of
        Inl e \<Rightarrow> (Inl e, s)
      | Inr (rv, response, attemptedRequest, s) \<Rightarrow>
          if GetLength response = 0 then
            if attemptedRequest then
              (case AddSeconds time ServerFailureDelaySeconds of
                 Inl _ \<Rightarrow> (Inl FATAL_ERROR_LIBRARY_FAILURE, s)
               | Inr timeout \<Rightarrow>
                   (let (putRV, s) = PutOCSP cfg sv cid rv time timeout s
                    in if putRV \<noteq> Inr () then (putRV, s)
                       else (ResultWithoutResponse cfg stapledOCSPResponseResult cachedResponseResult rv, s)))
            else (ResultWithoutResponse cfg stapledOCSPResponseResult cachedResponseResult rv, s)
          else
            (let (rv, isExpired, s) = VerifyAndMaybeCacheEncodedOCSPResponse cfg sv cid time
                   (maxOCSPLifetimeInDays eeOrCA) response ResponseIsFromNetwork s
             in (ResultOfResponse cfg stapledOCSPResponseResult rv, s)))"

definition CheckRevocation_NSS ::
  "NSSCertDBTrustDomain \<Rightarrow> services \<Rightarrow> EndEntityOrCA \<Rightarrow> CertID \<Rightarrow> Time \<Rightarrow> Duration \<Rightarrow> Input option \<Rightarrow> Input option \<Rightarrow>
     domain_state \<Rightarrow> unit res \<times> domain_state" where
  "CheckRevocation_NSS cfg sv eeOrCA cid time validityDuration stapled aiaExtension s =
     (case CheckStapledResponse cfg sv eeOrCA cid time stapled s of
        (Some rv, _, s) \<Rightarrow> (rv, s)
      | (None, stapledOCSPResponseResult, s) \<Rightarrow>
          (case CheckCachedResponse cfg sv cid time s of
             (Some rv, _, s) \<Rightarrow> (rv, s)
           | (None, cachedResponseResult, s) \<Rightarrow>
               if no_fetching cfg eeOrCA validityDuration then (ResultWithoutFetching cfg cachedResponseResult, s)
               else if mOCSPFetching cfg = LocalOnlyOCSPForEV then
                 (if cachedResponseResult \<noteq> Inr () then cachedResponseResult else Inl ERROR_OCSP_UNKNOWN_CERT, s)
               else if \<not> hasArena sv then (Inl FATAL_ERROR_NO_MEMORY, s)
               else (case OCSPAddress sv aiaExtension of
                  Inl e \<Rightarrow> (Inl e, s)
                | Inr None \<Rightarrow> (ResultWithoutURL cfg stapledOCSPResponseResult cachedResponseResult, s)
                | Inr (Some url) \<Rightarrow>
                    AskServer cfg sv eeOrCA cid time url stapledOCSPResponseResult cachedResponseResult s)))"

section \<open>What a check does to the cache\<close>

definition puts :: "services \<Rightarrow> Entry list \<Rightarrow> Entry list \<Rightarrow> bool" where
  "puts sv es es' \<longleftrightarrow> (\<exists>cid d r t v. es' = snd (Put (cacheEnv sv) es cid d r t v))"

lemma puts_keeps:
  assumes "puts sv es es'" "wf_cache es"
  shows "wf_cache es'" "remembers_revoked es h \<Longrightarrow> remembers_revoked es' h"
  using assms Put_keeps by (auto simp: puts_def)

lemma NoteAuxiliaryExtension_frame [simp]:
  "mOCSPCache (NoteAuxiliaryExtension_NSS ext v s) = mOCSPCache s"
  "requestCount (NoteAuxiliaryExtension_NSS ext v s) = requestCount s"
  by (simp_all add: NoteAuxiliaryExtension_NSS_def split: AuxiliaryExtension.split)

lemma note_event_frame [simp]:
  "mOCSPCache (note_event e s) = mOCSPCache s" "requestCount (note_event e s) = requestCount s"
  by (cases e; simp)+

lemma note_events_frame [simp]:
  "mOCSPCache (fold note_event es s) = mOCSPCache s" "requestCount (fold note_event es s) = requestCount s"
  by (induction es arbitrary: s) auto

lemma PutOCSP_frame:
  assumes "PutOCSP cfg sv cid r t v s = (rv, s')"
  shows "Put (cacheEnv sv) (mOCSPCache s) cid (mFirstPartyDomain cfg) r t v = (rv, mOCSPCache s')"
    "requestCount s' = requestCount s"
  using assms by (auto simp: PutOCSP_def split: prod.splits)

lemma PutOCSP_puts: "PutOCSP cfg sv cid r t v s = (rv, s') \<Longrightarrow> puts sv (mOCSPCache s) (mOCSPCache s')"
  using PutOCSP_frame(1) unfolding puts_def by (metis snd_conv)

definition verified :: "NSSCertDBTrustDomain \<Rightarrow> services \<Rightarrow> EndEntityOrCA \<Rightarrow> CertID \<Rightarrow> Time \<Rightarrow> Input \<Rightarrow> unit res" where
  "verified cfg sv eeOrCA cid time response =
     fst (VerifyEncodedOCSPResponse (OCSPVerificationTrustDomain cfg sv) cid time (maxOCSPLifetimeInDays eeOrCA)
       response [])"

text \<open>The status \<open>r\<close> was put into the cache with some times; the result is \<open>rv\<close>.\<close>

definition stores ::
  "NSSCertDBTrustDomain \<Rightarrow> services \<Rightarrow> CertID \<Rightarrow> unit res \<Rightarrow> Entry list \<Rightarrow> unit res \<Rightarrow> Entry list \<Rightarrow> bool" where
  "stores cfg sv cid r es rv es' \<longleftrightarrow>
     (\<exists>t v putRV. Put (cacheEnv sv) es cid (mFirstPartyDomain cfg) r t v = (putRV, es') \<and>
        rv = (if putRV = Inr () then r else putRV))"

lemma stores_PutOCSP:
  assumes "PutOCSP cfg sv cid r t v s = (putRV, s')"
  shows "stores cfg sv cid r (mOCSPCache s) (if putRV = Inr () then r else putRV) (mOCSPCache s')"
  using PutOCSP_frame(1) [OF assms] unfolding stores_def by blast

lemma stores_puts: "stores cfg sv cid r es rv es' \<Longrightarrow> puts sv es es'"
  unfolding stores_def puts_def by (metis snd_conv)

text \<open>Everything the proofs use of the verification of a response.\<close>

lemma VerifyAndMaybeCache:
  assumes call: "VerifyAndMaybeCacheEncodedOCSPResponse cfg sv cid time (maxOCSPLifetimeInDays eeOrCA) response
    source s = (rv, isExpired, s')"
  shows "mOCSPCache s' = mOCSPCache s \<and>
           (rv = verified cfg sv eeOrCA cid time response \<and> source = ResponseWasStapled \<or>
            rv = Inl FATAL_ERROR_LIBRARY_FAILURE) \<or>
         stores cfg sv cid (verified cfg sv eeOrCA cid time response) (mOCSPCache s) rv (mOCSPCache s')"
    and "requestCount s' = requestCount s"
proof -
  obtain rv0 ex0 times ev where v: "VerifyEncodedOCSPResponse (OCSPVerificationTrustDomain cfg sv) cid time
      (maxOCSPLifetimeInDays eeOrCA) response [] = (rv0, ex0, times, ev)"
    by (cases "VerifyEncodedOCSPResponse (OCSPVerificationTrustDomain cfg sv) cid time
      (maxOCSPLifetimeInDays eeOrCA) response []")
  then have r: "verified cfg sv eeOrCA cid time response = rv0" by (simp add: verified_def)
  obtain tt th where t: "(case times of None \<Rightarrow> staleTimes sv response | Some ts \<Rightarrow> ts) = (tt, th)"
    by (cases "case times of None \<Rightarrow> staleTimes sv response | Some ts \<Rightarrow> ts")
  note eq = call [unfolded VerifyAndMaybeCacheEncodedOCSPResponse_def v Let_def prod.case t]
  let ?s = "fold note_event ev s"
  have put: "stores cfg sv cid rv0 (mOCSPCache s) rv (mOCSPCache s') \<and> requestCount s' = requestCount s"
    if "(case PutOCSP cfg sv cid rv0 tt x ?s of (putRV, s) \<Rightarrow>
        if putRV \<noteq> Inr () then (putRV, ex0, s) else (rv0, ex0, s)) = (rv, isExpired, s')" for x
  proof -
    obtain putRV s1 where p: "PutOCSP cfg sv cid rv0 tt x ?s = (putRV, s1)"
      by (cases "PutOCSP cfg sv cid rv0 tt x ?s")
    from that [unfolded p prod.case] have "s1 = s'" "rv = (if putRV = Inr () then rv0 else putRV)"
      by (auto split: if_splits)
    then show ?thesis using stores_PutOCSP [OF p] PutOCSP_frame(2) [OF p] by simp
  qed
  have "(mOCSPCache s' = mOCSPCache s \<and> (rv = rv0 \<and> source = ResponseWasStapled \<or> rv = Inl FATAL_ERROR_LIBRARY_FAILURE) \<or>
      stores cfg sv cid rv0 (mOCSPCache s) rv (mOCSPCache s')) \<and> requestCount s' = requestCount s"
  proof (cases "source = ResponseWasStapled \<and> (ex0 \<or> \<not> established rv0)")
    case True
    then show ?thesis using eq by (auto split: if_splits sum.splits)
  next
    case False
    then have src: "source = ResponseIsFromNetwork \<or> established rv0" by (cases source) auto
    show ?thesis
    proof (cases "if established rv0 then Inr th else AddSeconds time ServerFailureDelaySeconds")
      case (Inl e)
      then show ?thesis using eq False by (auto split: if_splits)
    next
      case (Inr x)
      have nostapled: "\<not> (source = ResponseWasStapled \<and> ex0)" using False by blast
      show ?thesis using put [OF eq [unfolded if_not_P [OF nostapled] Inr sum.case if_P [OF src]]] by blast
    qed
  qed
  then show "mOCSPCache s' = mOCSPCache s \<and>
           (rv = verified cfg sv eeOrCA cid time response \<and> source = ResponseWasStapled \<or>
            rv = Inl FATAL_ERROR_LIBRARY_FAILURE) \<or>
         stores cfg sv cid (verified cfg sv eeOrCA cid time response) (mOCSPCache s) rv (mOCSPCache s')"
    and "requestCount s' = requestCount s" unfolding r by auto
qed


text \<open>The stages of a check: what they do to the cache, and what a success means.\<close>

lemma verified_success:
  assumes "VerifyAndMaybeCacheEncodedOCSPResponse cfg sv cid time (maxOCSPLifetimeInDays eeOrCA) response
    source s = (Inr (), isExpired, s')"
  shows "verified cfg sv eeOrCA cid time response = Inr ()"
  using VerifyAndMaybeCache(1) [OF assms] by (auto simp: stores_def split: if_splits)

lemma VerifyAndMaybeCache_cache:
  assumes "VerifyAndMaybeCacheEncodedOCSPResponse cfg sv cid time (maxOCSPLifetimeInDays eeOrCA) response
    source s = (rv, isExpired, s')"
  shows "mOCSPCache s' = mOCSPCache s \<or> puts sv (mOCSPCache s) (mOCSPCache s')"
  using VerifyAndMaybeCache(1) [OF assms] stores_puts by blast

lemma CheckStapledResponse:
  assumes "CheckStapledResponse cfg sv eeOrCA cid time stapled s = (decision, result, s')"
  shows "mOCSPCache s' = mOCSPCache s \<or> puts sv (mOCSPCache s) (mOCSPCache s')"
    and "decision = Some (Inr ()) \<Longrightarrow> \<exists>response. stapled = Some response \<and> verified cfg sv eeOrCA cid time response = Inr ()"
    and "stapled = None \<Longrightarrow> decision = None \<and> result = Inr () \<and> mOCSPCache s' = mOCSPCache s"
    and "requestCount s' = requestCount s"
proof -
  have all: "(mOCSPCache s' = mOCSPCache s \<or> puts sv (mOCSPCache s) (mOCSPCache s')) \<and> requestCount s' = requestCount s \<and>
    (decision = Some (Inr ()) \<longrightarrow> (\<exists>response. stapled = Some response \<and> verified cfg sv eeOrCA cid time response = Inr ())) \<and>
    (stapled = None \<longrightarrow> decision = None \<and> result = Inr () \<and> mOCSPCache s' = mOCSPCache s)"
  proof (cases stapled)
    case None
    then show ?thesis using assms by (auto simp: CheckStapledResponse_def split: if_splits)
  next
    case (Some response)
    obtain rv ex s1 where v: "VerifyAndMaybeCacheEncodedOCSPResponse cfg sv cid time (maxOCSPLifetimeInDays eeOrCA)
        response ResponseWasStapled s = (rv, ex, s1)"
      by (cases "VerifyAndMaybeCacheEncodedOCSPResponse cfg sv cid time (maxOCSPLifetimeInDays eeOrCA)
        response ResponseWasStapled s")
    have "mOCSPCache s' = mOCSPCache s1 \<and> requestCount s' = requestCount s1 \<and>
        (decision = Some (Inr ()) \<longrightarrow> rv = Inr ())"
      using assms Some v by (auto simp: CheckStapledResponse_def split: if_splits)
    then show ?thesis using VerifyAndMaybeCache_cache [OF v] VerifyAndMaybeCache(2) [OF v] v Some
      by (auto intro: verified_success)
  qed
  from all show "mOCSPCache s' = mOCSPCache s \<or> puts sv (mOCSPCache s) (mOCSPCache s')" by blast
  from all show "requestCount s' = requestCount s" by blast
  show "decision = Some (Inr ()) \<Longrightarrow> \<exists>response. stapled = Some response \<and> verified cfg sv eeOrCA cid time response = Inr ()"
    using all by blast
  show "stapled = None \<Longrightarrow> decision = None \<and> result = Inr () \<and> mOCSPCache s' = mOCSPCache s" using all by blast
qed

lemma CheckCachedResponse:
  assumes call: "CheckCachedResponse cfg sv cid time s = (decision, result, s')"
    and wf: "wf_cache (mOCSPCache s)"
  shows "wf_cache (mOCSPCache s')" "statuses (mOCSPCache s') = statuses (mOCSPCache s)"
    and "requestCount s' = requestCount s"
    and "CertIDHash (cacheEnv sv) cid (mFirstPartyDomain cfg) = Some h \<Longrightarrow>
      (decision, result) =
        (case statuses (mOCSPCache s) h of
           None \<Rightarrow> (None, Inr ())
         | Some (r, t, v) \<Rightarrow>
             if r = Inr () then (if time \<le> v then (Some (Inr ()), r) else (None, Inl ERROR_OCSP_OLD_RESPONSE))
             else if r = Inl ERROR_REVOKED_CERTIFICATE then (Some (Inl ERROR_REVOKED_CERTIFICATE), r)
             else if r \<noteq> Inl ERROR_OCSP_UNKNOWN_CERT \<and> r \<noteq> Inl ERROR_OCSP_OLD_RESPONSE \<and> v < time
             then (None, Inr ()) else (None, r))"
proof -
  obtain cached cache where g: "Get (cacheEnv sv) (mOCSPCache s) cid (mFirstPartyDomain cfg) = (cached, cache)"
    by (cases "Get (cacheEnv sv) (mOCSPCache s) cid (mFirstPartyDomain cfg)")
  note call' = call [unfolded CheckCachedResponse_def g Let_def prod.case]
  have s': "mOCSPCache s' = cache \<and> requestCount s' = requestCount s"
    using call' by (auto split: option.splits prod.splits if_splits)
  then show "wf_cache (mOCSPCache s')" "statuses (mOCSPCache s') = statuses (mOCSPCache s)"
    "requestCount s' = requestCount s"
    using Get_keeps [OF wf, of "cacheEnv sv" cid "mFirstPartyDomain cfg"] g by auto
  show "(decision, result) =
        (case statuses (mOCSPCache s) h of
           None \<Rightarrow> (None, Inr ())
         | Some (r, t, v) \<Rightarrow>
             if r = Inr () then (if time \<le> v then (Some (Inr ()), r) else (None, Inl ERROR_OCSP_OLD_RESPONSE))
             else if r = Inl ERROR_REVOKED_CERTIFICATE then (Some (Inl ERROR_REVOKED_CERTIFICATE), r)
             else if r \<noteq> Inl ERROR_OCSP_UNKNOWN_CERT \<and> r \<noteq> Inl ERROR_OCSP_OLD_RESPONSE \<and> v < time
             then (None, Inr ()) else (None, r))"
    if h: "CertIDHash (cacheEnv sv) cid (mFirstPartyDomain cfg) = Some h"
  proof (cases "statuses (mOCSPCache s) h")
    case None
    then have "cached = None" using Get_ok(3) [OF wf h] g by simp
    then show ?thesis using call' None by simp
  next
    case (Some x)
    obtain r t v where x: "x = (r, t, v)" by (cases x)
    then have "cached = Some (r, v)" using Get_ok(3) [OF wf h] g Some by simp
    then show ?thesis using call' Some x by (auto simp: not_le split: if_splits)
  qed
qed


lemma FetchResponse:
  assumes "FetchResponse cfg sv cid url cachedResult s = Inr (rv, response, attempted, s')"
  shows "mOCSPCache s' = mOCSPCache s"
    and "requestCount s' = (if attempted then requestCount s + 1 else requestCount s)"
    and "GetLength response = 0 \<Longrightarrow> rv \<noteq> Inr ()"
    and "GetLength response \<noteq> 0 \<Longrightarrow>
      wf_Input response \<and> (\<exists>req. DoOCSPRequest cfg sv (requestCount s) url req = Inr (Some response))"
proof -
  have "(mOCSPCache s' = mOCSPCache s \<and> requestCount s' = (if attempted then requestCount s + 1 else requestCount s)) \<and>
    (rv \<noteq> Inr () \<and> response = [] \<or> response \<noteq> [] \<and> wf_Input response \<and>
      (\<exists>req. DoOCSPRequest cfg sv (requestCount s) url req = Inr (Some response)))"
    using assms unfolding FetchResponse_def
    by (fastforce split: if_splits sum.splits prod.splits simp: Let_def wf_Input_Init dest: DoOCSPRequest_nonempty)
  moreover have "GetLength response = 0 \<longleftrightarrow> response = []" if "wf_Input response"
    using GetLength_wf [OF that] by (metis length_0_conv unat_eq_zero)
  ultimately show "mOCSPCache s' = mOCSPCache s"
    and "requestCount s' = (if attempted then requestCount s + 1 else requestCount s)"
    and "GetLength response = 0 \<Longrightarrow> rv \<noteq> Inr ()"
    and "GetLength response \<noteq> 0 \<Longrightarrow>
      wf_Input response \<and> (\<exists>req. DoOCSPRequest cfg sv (requestCount s) url req = Inr (Some response))"
    by (auto simp: GetLength_def)
qed

lemma AskServer:
  assumes call: "AskServer cfg sv eeOrCA cid time url stapledResult cachedResult s = (rv, s')"
  shows "mOCSPCache s' = mOCSPCache s \<or> puts sv (mOCSPCache s) (mOCSPCache s')"
    and "requestCount s' \<le> requestCount s + 1"
    and "rv = Inr () \<Longrightarrow> mOCSPFetching cfg \<noteq> FetchOCSPForDVSoftFail \<Longrightarrow>
      \<exists>response req. wf_Input response \<and> DoOCSPRequest cfg sv (requestCount s) url req = Inr (Some response) \<and>
        verified cfg sv eeOrCA cid time response = Inr ()"
proof -
  have "(mOCSPCache s' = mOCSPCache s \<or> puts sv (mOCSPCache s) (mOCSPCache s')) \<and>
    requestCount s' \<le> requestCount s + 1 \<and>
    (rv = Inr () \<and> mOCSPFetching cfg \<noteq> FetchOCSPForDVSoftFail \<longrightarrow>
      (\<exists>response req. wf_Input response \<and> DoOCSPRequest cfg sv (requestCount s) url req = Inr (Some response) \<and>
        verified cfg sv eeOrCA cid time response = Inr ()))"
  proof (cases "FetchResponse cfg sv cid url cachedResult s")
    case (Inl e)
    then show ?thesis using call by (auto simp: AskServer_def)
  next
    case (Inr x)
    obtain rv1 response attempted s1 where x: "x = (rv1, response, attempted, s1)" by (cases x) blast
    note f = FetchResponse [OF Inr [unfolded x]]
    show ?thesis
    proof (cases "GetLength response = 0")
      case True
      then have "rv1 \<noteq> Inr ()" using f(3) by blast
      then show ?thesis using call Inr x True f(1,2)
        by (auto simp: AskServer_def ResultWithoutResponse_def dest: PutOCSP_puts PutOCSP_frame(2)
            split: if_splits sum.splits prod.splits)
    next
      case False
      then obtain req where r: "wf_Input response" "DoOCSPRequest cfg sv (requestCount s) url req = Inr (Some response)"
        using f(4) by blast
      obtain rv2 ex s2 where v: "VerifyAndMaybeCacheEncodedOCSPResponse cfg sv cid time (maxOCSPLifetimeInDays eeOrCA)
          response ResponseIsFromNetwork s1 = (rv2, ex, s2)"
        by (cases "VerifyAndMaybeCacheEncodedOCSPResponse cfg sv cid time (maxOCSPLifetimeInDays eeOrCA)
          response ResponseIsFromNetwork s1")
      have s': "s' = s2" "rv = ResultOfResponse cfg stapledResult rv2"
        using call Inr x False v by (auto simp: AskServer_def)
      have "verified cfg sv eeOrCA cid time response = Inr ()"
        if "rv = Inr ()" "mOCSPFetching cfg \<noteq> FetchOCSPForDVSoftFail"
        using that s'(2) verified_success v by (auto simp: ResultOfResponse_def)
      then show ?thesis using VerifyAndMaybeCache_cache [OF v] VerifyAndMaybeCache(2) [OF v] f(1,2) s'(1) r
        by (auto split: if_splits)
    qed
  qed
  then show "mOCSPCache s' = mOCSPCache s \<or> puts sv (mOCSPCache s) (mOCSPCache s')"
    and "requestCount s' \<le> requestCount s + 1"
    and "rv = Inr () \<Longrightarrow> mOCSPFetching cfg \<noteq> FetchOCSPForDVSoftFail \<Longrightarrow>
      \<exists>response req. wf_Input response \<and> DoOCSPRequest cfg sv (requestCount s) url req = Inr (Some response) \<and>
        verified cfg sv eeOrCA cid time response = Inr ()"
    by auto
qed


section \<open>The whole check\<close>

text \<open>The ways in which a check can end, with its result and the state then.\<close>

inductive outcome ::
  "NSSCertDBTrustDomain \<Rightarrow> services \<Rightarrow> EndEntityOrCA \<Rightarrow> CertID \<Rightarrow> Time \<Rightarrow> Duration \<Rightarrow> Input option \<Rightarrow> Input option \<Rightarrow>
     domain_state \<Rightarrow> unit res \<Rightarrow> domain_state \<Rightarrow> bool"
  for cfg sv eeOrCA cid time du stapled aia s where
  Stapled: "CheckStapledResponse cfg sv eeOrCA cid time stapled s = (Some rv, stapledResult, s') \<Longrightarrow>
    outcome cfg sv eeOrCA cid time du stapled aia s rv s'"
| Cached: "CheckStapledResponse cfg sv eeOrCA cid time stapled s = (None, stapledResult, s1) \<Longrightarrow>
    CheckCachedResponse cfg sv cid time s1 = (Some rv, cachedResult, s') \<Longrightarrow>
    outcome cfg sv eeOrCA cid time du stapled aia s rv s'"
| Unfetched: "CheckStapledResponse cfg sv eeOrCA cid time stapled s = (None, stapledResult, s1) \<Longrightarrow>
    CheckCachedResponse cfg sv cid time s1 = (None, cachedResult, s') \<Longrightarrow>
    no_fetching cfg eeOrCA du \<Longrightarrow>
    outcome cfg sv eeOrCA cid time du stapled aia s (ResultWithoutFetching cfg cachedResult) s'"
| Local: "CheckStapledResponse cfg sv eeOrCA cid time stapled s = (None, stapledResult, s1) \<Longrightarrow>
    CheckCachedResponse cfg sv cid time s1 = (None, cachedResult, s') \<Longrightarrow>
    \<not> no_fetching cfg eeOrCA du \<Longrightarrow> mOCSPFetching cfg = LocalOnlyOCSPForEV \<Longrightarrow>
    rv = (if cachedResult \<noteq> Inr () then cachedResult else Inl ERROR_OCSP_UNKNOWN_CERT) \<Longrightarrow>
    outcome cfg sv eeOrCA cid time du stapled aia s rv s'"
| No_Memory: "CheckStapledResponse cfg sv eeOrCA cid time stapled s = (None, stapledResult, s1) \<Longrightarrow>
    CheckCachedResponse cfg sv cid time s1 = (None, cachedResult, s') \<Longrightarrow>
    \<not> no_fetching cfg eeOrCA du \<Longrightarrow> mOCSPFetching cfg \<noteq> LocalOnlyOCSPForEV \<Longrightarrow>
    outcome cfg sv eeOrCA cid time du stapled aia s (Inl FATAL_ERROR_NO_MEMORY) s'"
| Bad_Address: "CheckStapledResponse cfg sv eeOrCA cid time stapled s = (None, stapledResult, s1) \<Longrightarrow>
    CheckCachedResponse cfg sv cid time s1 = (None, cachedResult, s') \<Longrightarrow>
    \<not> no_fetching cfg eeOrCA du \<Longrightarrow> mOCSPFetching cfg \<noteq> LocalOnlyOCSPForEV \<Longrightarrow>
    OCSPAddress sv aia = Inl e \<Longrightarrow>
    outcome cfg sv eeOrCA cid time du stapled aia s (Inl e) s'"
| No_Address: "CheckStapledResponse cfg sv eeOrCA cid time stapled s = (None, stapledResult, s1) \<Longrightarrow>
    CheckCachedResponse cfg sv cid time s1 = (None, cachedResult, s') \<Longrightarrow>
    \<not> no_fetching cfg eeOrCA du \<Longrightarrow> mOCSPFetching cfg \<noteq> LocalOnlyOCSPForEV \<Longrightarrow>
    OCSPAddress sv aia = Inr None \<Longrightarrow>
    outcome cfg sv eeOrCA cid time du stapled aia s (ResultWithoutURL cfg stapledResult cachedResult) s'"
| Asked: "CheckStapledResponse cfg sv eeOrCA cid time stapled s = (None, stapledResult, s1) \<Longrightarrow>
    CheckCachedResponse cfg sv cid time s1 = (None, cachedResult, s2) \<Longrightarrow>
    \<not> no_fetching cfg eeOrCA du \<Longrightarrow> mOCSPFetching cfg \<noteq> LocalOnlyOCSPForEV \<Longrightarrow>
    OCSPAddress sv aia = Inr (Some url) \<Longrightarrow>
    AskServer cfg sv eeOrCA cid time url stapledResult cachedResult s2 = (rv, s') \<Longrightarrow>
    outcome cfg sv eeOrCA cid time du stapled aia s rv s'"

lemma CheckRevocation_outcome:
  assumes call: "CheckRevocation_NSS cfg sv eeOrCA cid time du stapled aia s = (rv, s')"
  shows "outcome cfg sv eeOrCA cid time du stapled aia s rv s'"
proof -
  obtain decision stapledResult s1
    where st: "CheckStapledResponse cfg sv eeOrCA cid time stapled s = (decision, stapledResult, s1)"
    by (cases "CheckStapledResponse cfg sv eeOrCA cid time stapled s")
  note call1 = call [unfolded CheckRevocation_NSS_def st prod.case]
  show ?thesis
  proof (cases decision)
    case (Some rv1)
    then show ?thesis using call1 st outcome.Stapled by simp
  next
    case None
    obtain decision2 cachedResult s2 where ca: "CheckCachedResponse cfg sv cid time s1 = (decision2, cachedResult, s2)"
      by (cases "CheckCachedResponse cfg sv cid time s1")
    note st = st [unfolded None] and call2 = call1 [unfolded None option.case ca prod.case]
    show ?thesis
    proof (cases decision2)
      case (Some rv1)
      then show ?thesis using call2 outcome.Cached [OF st] ca by simp
    next
      case None
      note ca = ca [unfolded None] and call3 = call2 [unfolded None option.case]
      show ?thesis
      proof (cases "no_fetching cfg eeOrCA du")
        case True
        then show ?thesis using call3 outcome.Unfetched [OF st ca] by simp
      next
        case False
        note call4 = call3 [unfolded if_not_P [OF False]]
        show ?thesis
        proof (cases "mOCSPFetching cfg = LocalOnlyOCSPForEV")
          case True
          then show ?thesis using call4 outcome.Local [OF st ca False True refl, of aia] by simp
        next
          case nonlocal: False
          show ?thesis
          proof (cases "hasArena sv")
            case True
            then show ?thesis using call4 nonlocal outcome.Bad_Address [OF st ca False nonlocal]
                outcome.No_Address [OF st ca False nonlocal] outcome.Asked [OF st ca False nonlocal]
              by (auto split: sum.splits option.splits)
          next
            case arena: False
            then show ?thesis using call4 nonlocal outcome.No_Memory [OF st ca False nonlocal, of aia] by simp
          qed
        qed
      qed
    qed
  qed
qed

lemma CheckRevocation_keeps:
  assumes call: "CheckRevocation_NSS cfg sv eeOrCA cid time du stapled aia s = (rv, s')"
    and wf: "wf_cache (mOCSPCache s)"
  shows "wf_cache (mOCSPCache s')"
    and "remembers_revoked (mOCSPCache s) k \<Longrightarrow> remembers_revoked (mOCSPCache s') k"
proof -
  let ?kept = "\<lambda>s'. wf_cache (mOCSPCache s') \<and> (remembers_revoked (mOCSPCache s) k \<longrightarrow> remembers_revoked (mOCSPCache s') k)"
  have st: "?kept s1" if "CheckStapledResponse cfg sv eeOrCA cid time stapled s = (d, r, s1)" for d r s1
    using CheckStapledResponse(1) [OF that] puts_keeps wf by metis
  have ca: "?kept s2" if "CheckCachedResponse cfg sv cid time s1 = (d, r, s2)" "?kept s1" for d r s1 s2
    using CheckCachedResponse(1,2) [OF that(1)] that(2) by (simp add: remembers_revoked_def)
  have ask: "?kept s3" if "AskServer cfg sv eeOrCA cid time url r1 r2 s2 = (r3, s3)" "?kept s2" for url r1 r2 r3 s2 s3
    using AskServer(1) [OF that(1)] puts_keeps that(2) by metis
  from CheckRevocation_outcome [OF call] have "?kept s'"
  proof cases
    case (Stapled r)
    then show ?thesis by (rule st)
  next
    case (Asked r1 s1 r2 s2 url)
    from ask [OF Asked(6) ca [OF Asked(2) st [OF Asked(1)]]] show ?thesis .
  qed (rule ca, assumption, rule st, assumption)+
  then show "wf_cache (mOCSPCache s')"
    and "remembers_revoked (mOCSPCache s) k \<Longrightarrow> remembers_revoked (mOCSPCache s') k" by auto
qed

text \<open>A revocation that the cache remembers decides, unless a stapled response says otherwise.\<close>

lemma CheckRevocation_remembered:
  assumes call: "CheckRevocation_NSS cfg sv eeOrCA cid time du stapled aia s = (rv, s')"
    and wf: "wf_cache (mOCSPCache s)"
    and h: "CertIDHash (cacheEnv sv) cid (mFirstPartyDomain cfg) = Some h" "remembers_revoked (mOCSPCache s) h"
  shows "stapled = None \<Longrightarrow> rv = Inl ERROR_REVOKED_CERTIFICATE"
    and "rv = Inr () \<Longrightarrow> \<exists>response. stapled = Some response \<and> verified cfg sv eeOrCA cid time response = Inr ()"
proof -
  have ca: "d = Some (Inl ERROR_REVOKED_CERTIFICATE)"
    if "CheckStapledResponse cfg sv eeOrCA cid time stapled s = (None, r1, s1)"
      "CheckCachedResponse cfg sv cid time s1 = (d, r2, s2)" for r1 s1 d r2 s2
  proof -
    have "wf_cache (mOCSPCache s1)" "remembers_revoked (mOCSPCache s1) h"
      using CheckStapledResponse(1) [OF that(1)] puts_keeps wf h(2) by metis+
    then show ?thesis
      using CheckCachedResponse(4) [OF that(2) _ h(1)] by (auto simp: remembers_revoked_def)
  qed
  have "(stapled = None \<longrightarrow> rv = Inl ERROR_REVOKED_CERTIFICATE) \<and>
    (rv = Inr () \<longrightarrow> (\<exists>response. stapled = Some response \<and> verified cfg sv eeOrCA cid time response = Inr ()))"
    using CheckRevocation_outcome [OF call]
  proof cases
    case (Stapled r)
    from CheckStapledResponse(2,3) [OF Stapled] show ?thesis by auto
  qed (use ca in \<open>fastforce dest: ca\<close>)+
  then show "stapled = None \<Longrightarrow> rv = Inl ERROR_REVOKED_CERTIFICATE"
    and "rv = Inr () \<Longrightarrow> \<exists>response. stapled = Some response \<and> verified cfg sv eeOrCA cid time response = Inr ()"
    by auto
qed

text \<open>Where a success comes from.\<close>

lemma CheckRevocation_success:
  assumes call: "CheckRevocation_NSS cfg sv eeOrCA cid time du stapled aia s = (Inr (), s')"
    and wf: "wf_cache (mOCSPCache s)"
    and h: "CertIDHash (cacheEnv sv) cid (mFirstPartyDomain cfg) = Some h"
  shows "(\<exists>response. stapled = Some response \<and> verified cfg sv eeOrCA cid time response = Inr ()) \<or>
    (\<exists>t through. statuses (mOCSPCache s') h = Some (Inr (), t, through) \<and> time \<le> through) \<or>
    (\<exists>url req response. OCSPAddress sv aia = Inr (Some url) \<and>
       DoOCSPRequest cfg sv (requestCount s) url req = Inr (Some response) \<and> wf_Input response \<and>
       verified cfg sv eeOrCA cid time response = Inr ()) \<or>
    no_fetching cfg eeOrCA du \<or> mOCSPFetching cfg = FetchOCSPForDVSoftFail \<or>
    mOCSPFetching cfg = FetchOCSPForDVHardFail \<and> OCSPAddress sv aia = Inr None"
proof -
  have wf1: "wf_cache (mOCSPCache s1)" "requestCount s1 = requestCount s"
    if "CheckStapledResponse cfg sv eeOrCA cid time stapled s = (d, r, s1)" for d r s1
    using CheckStapledResponse(1,4) [OF that] puts_keeps(1) wf by metis+
  from CheckRevocation_outcome [OF call] show ?thesis
  proof cases
    case (Stapled r)
    from CheckStapledResponse(2) [OF Stapled refl] show ?thesis by blast
  next
    case (Cached r1 s1 r2)
    from CheckCachedResponse(2,4) [OF Cached(2) wf1(1) [OF Cached(1)]] h show ?thesis
      by (auto split: option.splits if_splits)
  next
    case (Local r1 s1 r2)
    then show ?thesis by (auto split: if_splits)
  next
    case (No_Address r1 s1 r2)
    then show ?thesis by (cases "mOCSPFetching cfg") (auto simp: ResultWithoutURL_def no_fetching_def)
  next
    case (Asked r1 s1 r2 s2 url)
    show ?thesis
    proof (cases "mOCSPFetching cfg = FetchOCSPForDVSoftFail")
      case False
      from AskServer(3) [OF Asked(6) refl False] CheckCachedResponse(3) [OF Asked(2) wf1(1) [OF Asked(1)]]
        wf1(2) [OF Asked(1)] Asked(5) show ?thesis by auto
    qed simp
  qed auto
qed


section \<open>Sequences of checks\<close>

text \<open>Checks of several certificates, at several times and with several configurations, that share the cache
  and the services.\<close>

datatype check =
  Check NSSCertDBTrustDomain EndEntityOrCA CertID Time Duration "Input option" "Input option"

fun check_step :: "services \<Rightarrow> check \<Rightarrow> domain_state \<Rightarrow> domain_state" where
  "check_step sv (Check cfg eeOrCA cid time du stapled aia) s =
     snd (CheckRevocation_NSS cfg sv eeOrCA cid time du stapled aia s)"

interpretation checks: revocation_memory "\<lambda>s :: domain_state. wf_cache (mOCSPCache s)"
  "\<lambda>s. remembers_revoked (mOCSPCache s)"
  "check_step sv" for sv
proof
  fix s :: domain_state and k and c :: check
  assume "wf_cache (mOCSPCache s)"
  then show "wf_cache (mOCSPCache (check_step sv c s))"
    by (cases c) (metis CheckRevocation_keeps(1) check_step.simps prod.collapse)
next
  fix s :: domain_state and k and c :: check
  assume "wf_cache (mOCSPCache s)" "remembers_revoked (mOCSPCache s) k"
  then show "remembers_revoked (mOCSPCache (check_step sv c s)) k"
    by (cases c) (metis CheckRevocation_keeps(2) check_step.simps prod.collapse)
qed

text \<open>A revocation that a check reports, without a stapled response, is in the cache afterwards.\<close>

lemma stores_revoked:
  assumes "stores cfg sv cid r es (Inl ERROR_REVOKED_CERTIFICATE) es'" "wf_cache es"
    and "CertIDHash (cacheEnv sv) cid (mFirstPartyDomain cfg) = Some h"
  shows "remembers_revoked es' h \<or> saturated es'"
proof -
  obtain t v putRV where p: "Put (cacheEnv sv) es cid (mFirstPartyDomain cfg) r t v = (putRV, es')"
    and r: "Inl ERROR_REVOKED_CERTIFICATE = (if putRV = Inr () then r else putRV)"
    using assms(1) unfolding stores_def by blast
  show ?thesis
  proof (cases putRV)
    case (Inl e)
    then show ?thesis using Put_error [OF assms(2,3), of r t v] p r by auto
  next
    case (Inr u)
    then show ?thesis using Put_revoked [OF assms(2,3), of t v] p r by auto
  qed
qed

lemma FirstURI_error: "FirstURI sv names \<noteq> Inl ERROR_REVOKED_CERTIFICATE"
  by (induction names) (auto split: if_splits)

lemma FirstOCSPLocation_error: "FirstOCSPLocation sv aia \<noteq> Inl ERROR_REVOKED_CERTIFICATE"
  by (induction aia) (auto split: if_splits sum.splits option.splits simp: FirstURI_error)

lemma OCSPAddress_error: "OCSPAddress sv aia \<noteq> Inl ERROR_REVOKED_CERTIFICATE"
  by (auto simp: OCSPAddress_def GetOCSPAuthorityInfoAccessLocation_def FirstOCSPLocation_error split: option.split)

text \<open>What is known of the digest service: its errors are its own.\<close>

definition digest_errors :: "services \<Rightarrow> bool" where
  "digest_errors sv \<longleftrightarrow> (\<forall>i a n. digestBuf sv i a n \<noteq> Inl ERROR_REVOKED_CERTIFICATE)"

text \<open>The decoder's own error is the only one of its basic functions.\<close>

lemma EnsureLength_error: "EnsureLength r n = Inl e \<Longrightarrow> e = ERROR_BAD_DER"
  by (auto simp: EnsureLength_def split: if_splits)

lemma reading_error:
  "Read8 r = Inl e \<Longrightarrow> e = ERROR_BAD_DER"
  "Read16 r = Inl e \<Longrightarrow> e = ERROR_BAD_DER"
  "Input_Init None (Some bytes) = Inl e \<Longrightarrow> e = ERROR_BAD_DER"
  by (auto simp: Read8_def Read16_def Let_def split: sum.splits if_splits dest!: EnsureLength_error)

lemma SkipInput_error: "SkipInput r n = Inl e \<Longrightarrow> e = ERROR_BAD_DER"
  by (auto simp: SkipInput_def split: sum.splits if_splits dest!: EnsureLength_error)

lemma ReadTagAndGetValue_error: "ReadTagAndGetValue r = Inl e \<Longrightarrow> e = ERROR_BAD_DER"
  by (auto simp: ReadTagAndGetValue_def ReadLength_def split: sum.splits if_splits
      dest!: reading_error SkipInput_error)

lemma ExpectTag_error:
  "ExpectTagAndGetReader r t = Inl e \<Longrightarrow> e = ERROR_BAD_DER"
  "ExpectTagAndSkipValue r t = Inl e \<Longrightarrow> e = ERROR_BAD_DER"
  by (auto simp: ExpectTagAndGetReader_def ExpectTagAndSkipValue_def ExpectTagAndGetValue_def
      split: sum.splits if_splits dest!: ReadTagAndGetValue_error)

lemma End_error: "End r = Inl e \<Longrightarrow> e = ERROR_BAD_DER"
  by (auto simp: End_def split: if_splits)

lemma KeyHash_error:
  assumes "KeyHash td spki n = Inl e" "\<forall>i a n. DigestBuf td i a n \<noteq> Inl ERROR_REVOKED_CERTIFICATE"
  shows "e \<noteq> ERROR_REVOKED_CERTIFICATE"
proof -
  have bits: "e = ERROR_BAD_DER" if "BitStringWithNoUnusedBits r = Inl e" for r e
    using that by (auto simp: BitStringWithNoUnusedBits_def SkipToEndInput_def split: sum.splits if_splits
        dest!: ExpectTag_error SkipInput_error)
  have outer: "e = ERROR_BAD_DER" if "ExpectTagAndGetValueAtEnd i t = Inl e" for i t e
    using that by (auto simp: ExpectTagAndGetValueAtEnd_def split: sum.splits dest!: ExpectTag_error End_error)
  show ?thesis using assms
    by (auto simp: KeyHash_def bind_res_Inl_iff split: if_splits dest!: outer ExpectTag_error(2) bits End_error)
qed

lemma CopySerialNumber_error: "CopySerialNumber r b = Inl e \<Longrightarrow> e = ERROR_BAD_DER"
proof (induction r b rule: CopySerialNumber.induct)
  case (1 serial bufd)
  then show ?case
    by (subst (asm) (2) CopySerialNumber.simps) (auto split: sum.splits prod.splits if_splits dest!: reading_error(1))
qed

lemma request_error:
  assumes "CreateEncodedOCSPRequest (OCSPVerificationTrustDomain cfg sv) cid out = Inl e" "digest_errors sv"
  shows "e \<noteq> ERROR_REVOKED_CERTIFICATE"
proof -
  let ?td = "OCSPVerificationTrustDomain cfg sv"
  have td: "\<forall>i a n. DigestBuf ?td i a n \<noteq> Inl ERROR_REVOKED_CERTIFICATE"
    using assms(2) by (simp add: digest_errors_def OCSPVerificationTrustDomain_def)
  have "e = ERROR_BAD_DER \<or> DigestBuf ?td (issuer cid) sha1 hashLen = Inl e \<or>
      KeyHash ?td (issuerSubjectPublicKeyInfo cid) hashLen = Inl e"
    using assms(1) unfolding CreateEncodedOCSPRequest_def Let_def
    by (auto simp: bind_res_Inl_iff split: if_splits prod.splits dest: CopySerialNumber_error)
  then show ?thesis using td KeyHash_error [OF _ td, of "issuerSubjectPublicKeyInfo cid" hashLen e] by auto
qed


lemma AskServer_revoked:
  assumes ask: "AskServer cfg sv eeOrCA cid time url (Inr ()) cachedResult s = (Inl ERROR_REVOKED_CERTIFICATE, s')"
    and wf: "wf_cache (mOCSPCache s)" and cached: "cachedResult \<noteq> Inl ERROR_REVOKED_CERTIFICATE"
    and h: "CertIDHash (cacheEnv sv) cid (mFirstPartyDomain cfg) = Some h" and d: "digest_errors sv"
  shows "remembers_revoked (mOCSPCache s') h \<or> saturated (mOCSPCache s')"
proof (cases "FetchResponse cfg sv cid url cachedResult s")
  case (Inl e)
  then have "CreateEncodedOCSPRequest (OCSPVerificationTrustDomain cfg sv) cid (replicate OCSP_REQUEST_MAX_LENGTH 0) = Inl e"
    by (auto simp: FetchResponse_def Let_def split: if_splits sum.splits prod.splits)
  from request_error [OF this d] ask Inl show ?thesis by (simp add: AskServer_def)
next
  case (Inr x)
  obtain rv1 response attempted s1 where x: "x = (rv1, response, attempted, s1)" by (cases x) blast
  note f = FetchResponse [OF Inr [unfolded x]]
  have rv1: "attempted \<or> rv1 = cachedResult"
    using Inr x by (auto simp: FetchResponse_def Let_def split: if_splits sum.splits prod.splits)
  have stored: "stores cfg sv cid r (mOCSPCache s1) (Inl ERROR_REVOKED_CERTIFICATE) (mOCSPCache s') \<Longrightarrow> ?thesis" for r
    using stores_revoked [OF _ _ h] f(1) wf by simp
  show ?thesis
  proof (cases "GetLength response = 0")
    case True
    note ask' = ask [unfolded AskServer_def Inr x sum.case prod.case if_P [OF True]]
    have soft: "ResultWithoutResponse cfg (Inr ()) cachedResult r = Inl ERROR_REVOKED_CERTIFICATE \<Longrightarrow>
        r = Inl ERROR_REVOKED_CERTIFICATE" for r
      using cached by (auto simp: ResultWithoutResponse_def split: if_splits)
    show ?thesis
    proof (cases attempted)
      case attempt: True
      then obtain timeout where t: "AddSeconds time ServerFailureDelaySeconds = Inr timeout"
        using ask' by (auto split: sum.splits)
      obtain putRV s2 where p: "PutOCSP cfg sv cid rv1 time timeout s1 = (putRV, s2)"
        by (cases "PutOCSP cfg sv cid rv1 time timeout s1")
      have "s2 = s' \<and> Inl ERROR_REVOKED_CERTIFICATE = (if putRV = Inr () then rv1 else putRV)"
        using ask' attempt t p soft by (auto split: if_splits)
      then show ?thesis using stored [of rv1] stores_PutOCSP [OF p] by simp
    next
      case False
      then show ?thesis using ask' rv1 soft [of rv1] cached by auto
    qed
  next
    case False
    obtain rv2 ex s2 where v: "VerifyAndMaybeCacheEncodedOCSPResponse cfg sv cid time (maxOCSPLifetimeInDays eeOrCA)
        response ResponseIsFromNetwork s1 = (rv2, ex, s2)"
      by (cases "VerifyAndMaybeCacheEncodedOCSPResponse cfg sv cid time (maxOCSPLifetimeInDays eeOrCA)
        response ResponseIsFromNetwork s1")
    have "s2 = s'" "ResultOfResponse cfg (Inr ()) rv2 = Inl ERROR_REVOKED_CERTIFICATE"
      using ask [unfolded AskServer_def Inr x sum.case prod.case if_not_P [OF False] v] by auto
    then have "rv2 = Inl ERROR_REVOKED_CERTIFICATE" by (auto simp: ResultOfResponse_def split: if_splits)
    then show ?thesis using VerifyAndMaybeCache(1) [OF v] stored \<open>s2 = s'\<close> by auto
  qed
qed

lemma CheckRevocation_learns:
  assumes call: "CheckRevocation_NSS cfg sv eeOrCA cid time du None aia s = (Inl ERROR_REVOKED_CERTIFICATE, s')"
    and wf: "wf_cache (mOCSPCache s)"
    and h: "CertIDHash (cacheEnv sv) cid (mFirstPartyDomain cfg) = Some h" and d: "digest_errors sv"
  shows "remembers_revoked (mOCSPCache s') h \<or> saturated (mOCSPCache s')"
proof -
  have wf1: "wf_cache (mOCSPCache s1)" "d = None" "r = Inr ()"
    if "CheckStapledResponse cfg sv eeOrCA cid time None s = (d, r, s1)" for d r s1
    using CheckStapledResponse(3) [OF that refl] wf by auto
  have ca: "r \<noteq> Inl ERROR_REVOKED_CERTIFICATE \<and> wf_cache (mOCSPCache s2)"
    if "CheckStapledResponse cfg sv eeOrCA cid time None s = (None, r1, s1)"
      "CheckCachedResponse cfg sv cid time s1 = (None, r, s2)" for r1 s1 r s2
    using CheckCachedResponse(1,4) [OF that(2) wf1(1) [OF that(1)]] h by (auto split: option.splits if_splits)
  from CheckRevocation_outcome [OF call] show ?thesis
  proof cases
    case (Stapled r)
    then show ?thesis using wf1(2) by blast
  next
    case (Cached r1 s1 r2)
    from CheckCachedResponse(2,4) [OF Cached(2) wf1(1) [OF Cached(1)]] h show ?thesis
      by (auto simp: remembers_revoked_def split: option.splits if_splits)
  next
    case (Unfetched r1 s1 r2)
    then show ?thesis by (auto simp: ResultWithoutFetching_def split: if_splits)
  next
    case (Local r1 s1 r2)
    then show ?thesis using ca [OF Local(1,2)] by (auto split: if_splits)
  next
    case (Bad_Address r1 s1 r2)
    then show ?thesis using OCSPAddress_error by metis
  next
    case (No_Address r1 s1 r2)
    then show ?thesis using ca [OF No_Address(2,3)] wf1(3) [OF No_Address(2)]
      by (auto simp: ResultWithoutURL_def split: if_splits)
  next
    case (Asked r1 s1 r2 s2 url)
    from AskServer_revoked [OF _ _ _ h d] Asked(6) ca [OF Asked(1,2)] wf1(3) [OF Asked(1)] show ?thesis by blast
  qed
qed

end
