(* ===== verification/PsmExtendedValidation.thy ===== *)
theory PsmExtendedValidation
  imports PsmTrustDomain
begin

text \<open>
  \<^verbatim>\<open>security/certverifier/ExtendedValidation.cpp\<close>: which policies a certificate may claim to be validated
  by, and which roots may vouch for them. The table of roots, \<open>myTrustedEVInfos\<close>, is data; its tags and
  that of the common policy of the CA/Browser Forum are given by NSS when they are registered.
\<close>

section \<open>The table\<close>

type_synonym SECOidTag = nat

definition SEC_OID_UNKNOWN :: SECOidTag where
  "SEC_OID_UNKNOWN = 0"

record nsMyTrustedEVInfo =
  oid_tag :: SECOidTag
  ev_root_sha256_fingerprint :: "u8 list"

text \<open>What NSS answers: \<open>sha256_of\<close> hashes a certificate, \<open>FindOIDByTag\<close> gives the bytes of a registered
  identifier, \<open>policiesExtensions\<close> the decoded policy tags of each certificate-policies extension of a
  certificate, in order (\<open>None\<close> for one that cannot be decoded).\<close>

record ev_services =
  myTrustedEVInfos :: "nsMyTrustedEVInfo list"
  sCABForumEVOIDTag :: SECOidTag
  FindOIDByTag :: "SECOidTag \<Rightarrow> u8 list option"
  sha256_of :: "u8 list \<Rightarrow> u8 list option"
  policiesExtensions :: "u8 list \<Rightarrow> SECOidTag list option list"

section \<open>Policies and roots\<close>

definition isEVPolicy :: "ev_services \<Rightarrow> SECOidTag \<Rightarrow> bool" where
  "isEVPolicy ev policyOIDTag =
     (if policyOIDTag \<noteq> SEC_OID_UNKNOWN \<and> policyOIDTag = sCABForumEVOIDTag ev then True
      else list_ex (\<lambda>entry. policyOIDTag = oid_tag entry) (myTrustedEVInfos ev))"

text \<open>The comparison of an identifier with a policy.\<close>

definition is_policy :: "u8 list option \<Rightarrow> CertPolicyId \<Rightarrow> bool" where
  "is_policy oidData policy \<longleftrightarrow>
     (case oidData of
        None \<Rightarrow> False
      | Some oid \<Rightarrow> length oid = unat (numBytes policy) \<and>
          take (unat (numBytes policy)) oid = take (unat (numBytes policy)) (policy_bytes policy))"

fun MatchEVEntry :: "ev_services \<Rightarrow> u8 list \<Rightarrow> CertPolicyId \<Rightarrow> nsMyTrustedEVInfo list \<Rightarrow> bool" where
  "MatchEVEntry ev fingerprint policy [] = False"
| "MatchEVEntry ev fingerprint policy (entry # entries) =
     (if fingerprint \<noteq> ev_root_sha256_fingerprint entry then MatchEVEntry ev fingerprint policy entries
      else if is_policy (FindOIDByTag ev (sCABForumEVOIDTag ev)) policy then True
      else if is_policy (FindOIDByTag ev (oid_tag entry)) policy then True
      else MatchEVEntry ev fingerprint policy entries)"

definition CertIsAuthoritativeForEVPolicy :: "ev_services \<Rightarrow> u8 list \<Rightarrow> CertPolicyId \<Rightarrow> bool" where
  "CertIsAuthoritativeForEVPolicy ev cert policy =
     (case sha256_of ev cert of
        None \<Rightarrow> False
      | Some fingerprint \<Rightarrow> MatchEVEntry ev fingerprint policy (myTrustedEVInfos ev))"

section \<open>The first policy of a certificate\<close>

text \<open>The loop over the policies of one extension ends at the first that is an EV policy, even if its
  identifier does not fit. The policy is written into the caller's variable, whose other bytes stay.\<close>

fun FirstEVPolicyInfo :: "ev_services \<Rightarrow> CertPolicyId \<Rightarrow> SECOidTag list \<Rightarrow> (CertPolicyId \<times> SECOidTag) option" where
  "FirstEVPolicyInfo ev uninitialized [] = None"
| "FirstEVPolicyInfo ev uninitialized (tag # policyInfos) =
     (if tag \<noteq> SEC_OID_UNKNOWN \<and> isEVPolicy ev tag then
        (case FindOIDByTag ev tag of
           None \<Rightarrow> None
         | Some oid \<Rightarrow>
             if length oid > 0 \<and> length oid \<le> CertPolicyId_MAX_BYTES then
               Some (\<lparr>numBytes = of_nat (length oid),
                      policy_bytes = oid @ drop (length oid) (policy_bytes uninitialized)\<rparr>, tag)
             else None)
      else FirstEVPolicyInfo ev uninitialized policyInfos)"

fun FirstEVPolicyExtension ::
  "ev_services \<Rightarrow> CertPolicyId \<Rightarrow> SECOidTag list option list \<Rightarrow> (CertPolicyId \<times> SECOidTag) option" where
  "FirstEVPolicyExtension ev uninitialized [] = None"
| "FirstEVPolicyExtension ev uninitialized (None # extensions) = FirstEVPolicyExtension ev uninitialized extensions"
| "FirstEVPolicyExtension ev uninitialized (Some policyInfos # extensions) =
     (case FirstEVPolicyInfo ev uninitialized policyInfos of
        Some found \<Rightarrow> Some found
      | None \<Rightarrow> FirstEVPolicyExtension ev uninitialized extensions)"

definition GetFirstEVPolicy :: "ev_services \<Rightarrow> CertPolicyId \<Rightarrow> u8 list \<Rightarrow> (CertPolicyId \<times> SECOidTag) option" where
  "GetFirstEVPolicy ev uninitialized cert = FirstEVPolicyExtension ev uninitialized (policiesExtensions ev cert)"

section \<open>What they find\<close>

text \<open>A policy that is found is that of a registered tag, and its bytes are the identifier of the tag.\<close>

definition ev_policy :: "ev_services \<Rightarrow> SECOidTag \<Rightarrow> CertPolicyId \<Rightarrow> bool" where
  "ev_policy ev tag policy \<longleftrightarrow> tag \<noteq> SEC_OID_UNKNOWN \<and> isEVPolicy ev tag \<and>
     (\<exists>oid. FindOIDByTag ev tag = Some oid \<and> oid \<noteq> [] \<and> length oid \<le> CertPolicyId_MAX_BYTES \<and>
        unat (numBytes policy) = length oid \<and> take (length oid) (policy_bytes policy) = oid)"

lemma FirstEVPolicyInfo_ev:
  "FirstEVPolicyInfo ev u infos = Some (policy, tag) \<Longrightarrow> tag \<in> set infos \<and> ev_policy ev tag policy"
proof (induction infos)
  case (Cons t infos)
  show ?case
  proof (cases "t \<noteq> SEC_OID_UNKNOWN \<and> isEVPolicy ev t")
    case True
    then obtain oid where o: "FindOIDByTag ev t = Some oid" "oid \<noteq> []" "length oid \<le> CertPolicyId_MAX_BYTES"
      "policy = \<lparr>numBytes = of_nat (length oid), policy_bytes = oid @ drop (length oid) (policy_bytes u)\<rparr>" "tag = t"
      using Cons.prems by (auto split: option.splits if_splits)
    then have "unat (numBytes policy) = length oid"
      by (simp add: CertPolicyId_MAX_BYTES_def unsigned_of_nat take_bit_nat_eq_self_iff)
    then show ?thesis using True o by (simp add: ev_policy_def)
  next
    case False
    then show ?thesis using Cons by (auto split: if_splits)
  qed
qed simp

lemma GetFirstEVPolicy_ev:
  assumes "GetFirstEVPolicy ev u cert = Some (policy, tag)"
  shows "ev_policy ev tag policy \<and> (\<exists>infos. Some infos \<in> set (policiesExtensions ev cert) \<and> tag \<in> set infos)"
proof -
  have "ev_policy ev tag policy \<and> (\<exists>infos. Some infos \<in> set exts \<and> tag \<in> set infos)"
    if "FirstEVPolicyExtension ev u exts = Some (policy, tag)" for exts
    using that
  proof (induction ev u exts rule: FirstEVPolicyExtension.induct)
    case (3 ev u infos exts)
    then show ?case using FirstEVPolicyInfo_ev by (auto split: option.splits)
  qed auto
  then show ?thesis using assms by (simp add: GetFirstEVPolicy_def)
qed

text \<open>A root that is authoritative is in the table, for this policy or for the common one.\<close>

lemma MatchEVEntry_iff:
  "MatchEVEntry ev fingerprint policy entries \<longleftrightarrow>
   (\<exists>entry \<in> set entries. ev_root_sha256_fingerprint entry = fingerprint \<and>
      (is_policy (FindOIDByTag ev (oid_tag entry)) policy \<or> is_policy (FindOIDByTag ev (sCABForumEVOIDTag ev)) policy))"
  by (induction ev fingerprint policy entries rule: MatchEVEntry.induct) auto

lemma CertIsAuthoritativeForEVPolicy_iff:
  "CertIsAuthoritativeForEVPolicy ev cert policy \<longleftrightarrow>
   (\<exists>entry \<in> set (myTrustedEVInfos ev). sha256_of ev cert = Some (ev_root_sha256_fingerprint entry) \<and>
      (is_policy (FindOIDByTag ev (oid_tag entry)) policy \<or> is_policy (FindOIDByTag ev (sCABForumEVOIDTag ev)) policy))"
  by (auto simp: CertIsAuthoritativeForEVPolicy_def MatchEVEntry_iff split: option.splits)

end
