(* ===== verification/CtSerialization.thy ===== *)
theory CtSerialization
  imports PkixInput
begin

text \<open>
  \<^verbatim>\<open>security/certverifier/CTSerialization.cpp\<close>, \<^verbatim>\<open>SignedCertificateTimestamp.h\<close> and \<^verbatim>\<open>SignedTreeHead.h\<close>:
  the structures of Certificate Transparency (RFC 6962) and their TLS encoding. What a reader of a
  structure promises is the locale \<open>codec\<close>: it accepts exactly the encodings, at the front of what is
  left to read.

  A \<open>Buffer\<close> is the list of its bytes. Growing one may fail; \<open>mem\<close> is the largest length for which it
  does not. An unsigned integer is read and written through 64 bits, as the code does.
\<close>

section \<open>Structures\<close>

type_synonym Buffer = "u8 list"

datatype LogEntryType = X509 | Precert

record LogEntry =
  le_type :: LogEntryType
  leafCertificate :: Buffer
  issuerKeyHash :: Buffer
  tbsCertificate :: Buffer

definition LogEntry_Reset :: LogEntry where
  "LogEntry_Reset = \<lparr>le_type = X509, leafCertificate = [], issuerKeyHash = [], tbsCertificate = []\<rparr>"

datatype HashAlgorithm = HA_None | HA_MD5 | HA_SHA1 | HA_SHA224 | HA_SHA256 | HA_SHA384 | HA_SHA512

datatype SignatureAlgorithm = SA_Anonymous | SA_RSA | SA_DSA | SA_ECDSA

record DigitallySigned =
  hashAlgorithm :: HashAlgorithm
  signatureAlgorithm :: SignatureAlgorithm
  signatureData :: Buffer

datatype SCTVersion = SCT_V1

datatype SCTOrigin = Origin_Unknown | Origin_Embedded | Origin_TLSExtension | Origin_OCSPResponse

datatype VerificationStatus = VS_None | VS_OK | VS_UnknownLog | VS_InvalidSignature | VS_InvalidTimestamp

record SignedCertificateTimestamp =
  sct_version :: SCTVersion
  sct_logId :: Buffer
  sct_timestamp :: u64
  sct_extensions :: Buffer
  sct_signature :: DigitallySigned
  sct_origin :: SCTOrigin
  sct_status :: VerificationStatus

datatype STHVersion = STH_V1

record SignedTreeHead =
  sth_version :: STHVersion
  sth_timestamp :: u64
  sth_treeSize :: u64
  sth_sha256RootHash :: Buffer
  sth_signature :: DigitallySigned

text \<open>The numbers of the enumerations.\<close>

primrec log_entry_code :: "LogEntryType \<Rightarrow> u64" where
  "log_entry_code X509 = 0"
| "log_entry_code Precert = 1"

primrec hash_code :: "HashAlgorithm \<Rightarrow> u64" where
  "hash_code HA_None = 0"
| "hash_code HA_MD5 = 1"
| "hash_code HA_SHA1 = 2"
| "hash_code HA_SHA224 = 3"
| "hash_code HA_SHA256 = 4"
| "hash_code HA_SHA384 = 5"
| "hash_code HA_SHA512 = 6"

primrec signature_code :: "SignatureAlgorithm \<Rightarrow> u64" where
  "signature_code SA_Anonymous = 0"
| "signature_code SA_RSA = 1"
| "signature_code SA_DSA = 2"
| "signature_code SA_ECDSA = 3"

primrec sct_version_code :: "SCTVersion \<Rightarrow> u64" where
  "sct_version_code SCT_V1 = 0"

primrec sth_version_code :: "STHVersion \<Rightarrow> u64" where
  "sth_version_code STH_V1 = 0"

definition SignatureParametersMatch_DS :: "DigitallySigned \<Rightarrow> HashAlgorithm \<Rightarrow> SignatureAlgorithm \<Rightarrow> bool" where
  "SignatureParametersMatch_DS d aHashAlgorithm aSignatureAlgorithm \<longleftrightarrow>
     hashAlgorithm d = aHashAlgorithm \<and> signatureAlgorithm d = aSignatureAlgorithm"

definition BufferToInput :: "Buffer \<Rightarrow> Input res" where
  "BufferToInput buffer = Input_Init None (Some buffer)"

definition append_bytes :: "nat \<Rightarrow> Buffer \<Rightarrow> u8 list \<Rightarrow> Buffer res" where
  "append_bytes mem buffer bs =
     (if length buffer + length bs > mem then Inl FATAL_ERROR_NO_MEMORY else Inr (buffer @ bs))"

definition InputToBuffer :: "nat \<Rightarrow> Input \<Rightarrow> Buffer res" where
  "InputToBuffer mem i = append_bytes mem [] i"

definition Buffer_eq :: "Buffer \<Rightarrow> Buffer \<Rightarrow> bool" where
  "Buffer_eq a b \<longleftrightarrow> (a = [] \<and> b = []) \<or> (length a = length b \<and> take (length a) a = take (length a) b)"

section \<open>Lengths\<close>

definition kVersionLength :: nat where "kVersionLength = 1"
definition kLogIdLength :: nat where "kLogIdLength = 32"
definition kTimestampLength :: nat where "kTimestampLength = 8"
definition kExtensionsLengthBytes :: nat where "kExtensionsLengthBytes = 2"
definition kHashAlgorithmLength :: nat where "kHashAlgorithmLength = 1"
definition kSigAlgorithmLength :: nat where "kSigAlgorithmLength = 1"
definition kSignatureLengthBytes :: nat where "kSignatureLengthBytes = 2"
definition kSignatureTypeLength :: nat where "kSignatureTypeLength = 1"
definition kLogEntryTypeLength :: nat where "kLogEntryTypeLength = 2"
definition kAsn1CertificateLengthBytes :: nat where "kAsn1CertificateLengthBytes = 3"
definition kTbsCertificateLengthBytes :: nat where "kTbsCertificateLengthBytes = 3"
definition kSCTListLengthBytes :: nat where "kSCTListLengthBytes = 2"
definition kSerializedSCTLengthBytes :: nat where "kSerializedSCTLengthBytes = 2"
definition kTreeSizeLength :: nat where "kTreeSizeLength = 8"
definition kSthRootHashLength :: nat where "kSthRootHashLength = 32"

lemmas ct_lengths = kVersionLength_def kLogIdLength_def kTimestampLength_def kExtensionsLengthBytes_def
  kHashAlgorithmLength_def kSigAlgorithmLength_def kSignatureLengthBytes_def kSignatureTypeLength_def
  kLogEntryTypeLength_def kAsn1CertificateLengthBytes_def kTbsCertificateLengthBytes_def
  kSCTListLengthBytes_def kSerializedSCTLengthBytes_def kTreeSizeLength_def kSthRootHashLength_def

text \<open>\<open>SignatureType\<close>, by its numbers; and the sizes of the types of integers that are written.\<close>

datatype SignatureType = CertificateTimestamp | TreeHash

primrec signature_type_code :: "SignatureType \<Rightarrow> u64" where
  "signature_type_code CertificateTimestamp = 0"
| "signature_type_code TreeHash = 1"

definition sizeof_unsigned_int :: nat where "sizeof_unsigned_int = 4"
definition sizeof_size_t :: nat where "sizeof_size_t = 8"
definition sizeof_uint64_t :: nat where "sizeof_uint64_t = 8"

section \<open>Reading\<close>

fun UncheckedReadUint_loop :: "nat \<Rightarrow> Reader \<Rightarrow> u64 \<Rightarrow> (u64 \<times> Reader) res" where
  "UncheckedReadUint_loop 0 input acc = Inr (acc, input)"
| "UncheckedReadUint_loop (Suc i) input acc =
     bind_res (Read8 input) (\<lambda>(b, input).
     UncheckedReadUint_loop i input (push_bit 8 acc OR ucast b))"

definition ReadUint :: "nat \<Rightarrow> Reader \<Rightarrow> (u64 \<times> Reader) res" where
  "ReadUint len input = UncheckedReadUint_loop len input 0"

text \<open>\<open>Skip\<close> takes a length of 16 bits.\<close>

definition ReadFixedBytes :: "u64 \<Rightarrow> Reader \<Rightarrow> (Input \<times> Reader) res" where
  "ReadFixedBytes len input = SkipInput input (unat (ucast len :: u16))"

definition ReadVariableBytes :: "nat \<Rightarrow> Reader \<Rightarrow> (Input \<times> Reader) res" where
  "ReadVariableBytes prefixLength input =
     bind_res (ReadUint prefixLength input) (\<lambda>(len, input). ReadFixedBytes len input)"

definition ReadHashAlgorithm :: "Reader \<Rightarrow> (HashAlgorithm \<times> Reader) res" where
  "ReadHashAlgorithm input =
     bind_res (ReadUint kHashAlgorithmLength input) (\<lambda>(n, input).
     if n = 0 then Inr (HA_None, input)
     else if n = 1 then Inr (HA_MD5, input)
     else if n = 2 then Inr (HA_SHA1, input)
     else if n = 3 then Inr (HA_SHA224, input)
     else if n = 4 then Inr (HA_SHA256, input)
     else if n = 5 then Inr (HA_SHA384, input)
     else if n = 6 then Inr (HA_SHA512, input)
     else Inl ERROR_BAD_DER)"

definition ReadSignatureAlgorithm_CT :: "Reader \<Rightarrow> (SignatureAlgorithm \<times> Reader) res" where
  "ReadSignatureAlgorithm_CT input =
     bind_res (ReadUint kSigAlgorithmLength input) (\<lambda>(n, input).
     if n = 0 then Inr (SA_Anonymous, input)
     else if n = 1 then Inr (SA_RSA, input)
     else if n = 2 then Inr (SA_DSA, input)
     else if n = 3 then Inr (SA_ECDSA, input)
     else Inl ERROR_BAD_DER)"

definition ReadVersion :: "Reader \<Rightarrow> (SCTVersion \<times> Reader) res" where
  "ReadVersion input =
     bind_res (ReadUint kVersionLength input) (\<lambda>(n, input).
     if n = 0 then Inr (SCT_V1, input) else Inl ERROR_BAD_DER)"

definition DecodeDigitallySigned :: "nat \<Rightarrow> Reader \<Rightarrow> (DigitallySigned \<times> Reader) res" where
  "DecodeDigitallySigned mem reader =
     bind_res (ReadHashAlgorithm reader) (\<lambda>(hash, reader).
     bind_res (ReadSignatureAlgorithm_CT reader) (\<lambda>(alg, reader).
     bind_res (ReadVariableBytes kSignatureLengthBytes reader) (\<lambda>(sigData, reader).
     bind_res (InputToBuffer mem sigData) (\<lambda>buffer.
     Inr (\<lparr>hashAlgorithm = hash, signatureAlgorithm = alg, signatureData = buffer\<rparr>, reader)))))"

definition DecodeSignedCertificateTimestamp :: "nat \<Rightarrow> Reader \<Rightarrow> (SignedCertificateTimestamp \<times> Reader) res" where
  "DecodeSignedCertificateTimestamp mem reader =
     bind_res (ReadVersion reader) (\<lambda>(ver, reader).
     bind_res (ReadFixedBytes (of_nat kLogIdLength) reader) (\<lambda>(logId, reader).
     bind_res (ReadUint kTimestampLength reader) (\<lambda>(timestamp, reader).
     bind_res (ReadVariableBytes kExtensionsLengthBytes reader) (\<lambda>(exts, reader).
     bind_res (DecodeDigitallySigned mem reader) (\<lambda>(sig, reader).
     bind_res (InputToBuffer mem logId) (\<lambda>logId.
     bind_res (InputToBuffer mem exts) (\<lambda>exts.
     Inr (\<lparr>sct_version = ver, sct_logId = logId, sct_timestamp = timestamp, sct_extensions = exts,
           sct_signature = sig, sct_origin = Origin_Unknown, sct_status = VS_None\<rparr>, reader))))))))"

definition DecodeSCTList :: "Input \<Rightarrow> Reader res" where
  "DecodeSCTList input =
     bind_res (ReadVariableBytes kSCTListLengthBytes (Reader_of input)) (\<lambda>(listData, _).
     Inr (Reader_of listData))"

definition ReadSCTListItem :: "Reader \<Rightarrow> (Input \<times> Reader) res" where
  "ReadSCTListItem listReader =
     (if AtEnd listReader then Inl FATAL_ERROR_INVALID_ARGS
      else bind_res (ReadVariableBytes kSerializedSCTLengthBytes listReader) (\<lambda>(output, listReader).
        if GetLength output = 0 then Inl ERROR_BAD_DER else Inr (output, listReader)))"

section \<open>Writing\<close>

fun UncheckedWriteUint_loop :: "nat \<Rightarrow> u64 \<Rightarrow> Buffer \<Rightarrow> Buffer" where
  "UncheckedWriteUint_loop 0 v output = output"
| "UncheckedWriteUint_loop (Suc n) v output =
     UncheckedWriteUint_loop n v (output @ [ucast (drop_bit (n * 8) v AND 0xFF)])"

definition UncheckedWriteUint :: "nat \<Rightarrow> nat \<Rightarrow> u64 \<Rightarrow> Buffer \<Rightarrow> Buffer res" where
  "UncheckedWriteUint mem len v output =
     (if len + length output > mem then Inl FATAL_ERROR_NO_MEMORY
      else Inr (UncheckedWriteUint_loop len v output))"

text \<open>\<open>sizeofT\<close> is the size of the type of the value, which is unsigned wherever the code uses this.\<close>

definition WriteUint :: "nat \<Rightarrow> nat \<Rightarrow> nat \<Rightarrow> u64 \<Rightarrow> Buffer \<Rightarrow> Buffer res" where
  "WriteUint mem len sizeofT v output =
     (if sizeofT > len \<and> drop_bit (len * 8 - 1) v > 1 then Inl FATAL_ERROR_INVALID_ARGS
      else UncheckedWriteUint mem len v output)"

definition WriteEncodedBytes :: "nat \<Rightarrow> u8 list \<Rightarrow> Buffer \<Rightarrow> Buffer res" where
  "WriteEncodedBytes mem source output = append_bytes mem output source"

definition WriteVariableBytesPrefix :: "nat \<Rightarrow> nat \<Rightarrow> nat \<Rightarrow> Buffer \<Rightarrow> Buffer res" where
  "WriteVariableBytesPrefix mem prefixLength dataLength output =
     (let maxAllowedInputSize = push_bit (prefixLength * 8) 1 - 1
      in if dataLength > maxAllowedInputSize then Inl FATAL_ERROR_INVALID_ARGS
         else WriteUint mem prefixLength sizeof_size_t (of_nat dataLength) output)"

definition WriteVariableBytes :: "nat \<Rightarrow> nat \<Rightarrow> Input \<Rightarrow> Buffer \<Rightarrow> Buffer res" where
  "WriteVariableBytes mem prefixLength input output =
     bind_res (WriteVariableBytesPrefix mem prefixLength (unat (GetLength input)) output) (\<lambda>output.
     WriteEncodedBytes mem input output)"

definition WriteVariableBuffer :: "nat \<Rightarrow> nat \<Rightarrow> Buffer \<Rightarrow> Buffer \<Rightarrow> Buffer res" where
  "WriteVariableBuffer mem prefixLength source output =
     bind_res (BufferToInput source) (\<lambda>input. WriteVariableBytes mem prefixLength input output)"

definition EncodeAsn1CertLogEntry :: "nat \<Rightarrow> LogEntry \<Rightarrow> Buffer \<Rightarrow> Buffer res" where
  "EncodeAsn1CertLogEntry mem entry output =
     WriteVariableBuffer mem kAsn1CertificateLengthBytes (leafCertificate entry) output"

definition EncodePrecertLogEntry :: "nat \<Rightarrow> LogEntry \<Rightarrow> Buffer \<Rightarrow> Buffer res" where
  "EncodePrecertLogEntry mem entry output =
     (if length (issuerKeyHash entry) \<noteq> kLogIdLength then Inl FATAL_ERROR_INVALID_ARGS
      else bind_res (WriteEncodedBytes mem (issuerKeyHash entry) output) (\<lambda>output.
        WriteVariableBuffer mem kTbsCertificateLengthBytes (tbsCertificate entry) output))"

definition EncodeDigitallySigned :: "nat \<Rightarrow> DigitallySigned \<Rightarrow> Buffer \<Rightarrow> Buffer res" where
  "EncodeDigitallySigned mem d output =
     bind_res (WriteUint mem kHashAlgorithmLength sizeof_unsigned_int (hash_code (hashAlgorithm d)) output) (\<lambda>output.
     bind_res (WriteUint mem kSigAlgorithmLength sizeof_unsigned_int (signature_code (signatureAlgorithm d)) output)
       (\<lambda>output.
     WriteVariableBuffer mem kSignatureLengthBytes (signatureData d) output))"

definition EncodeLogEntry :: "nat \<Rightarrow> LogEntry \<Rightarrow> Buffer \<Rightarrow> Buffer res" where
  "EncodeLogEntry mem entry output =
     bind_res (WriteUint mem kLogEntryTypeLength sizeof_unsigned_int (log_entry_code (le_type entry)) output) (\<lambda>output.
     case le_type entry of
       X509 \<Rightarrow> EncodeAsn1CertLogEntry mem entry output
     | Precert \<Rightarrow> EncodePrecertLogEntry mem entry output)"

definition WriteTimeSinceEpoch :: "nat \<Rightarrow> u64 \<Rightarrow> Buffer \<Rightarrow> Buffer res" where
  "WriteTimeSinceEpoch mem timestamp output = WriteUint mem kTimestampLength sizeof_uint64_t timestamp output"

definition EncodeV1SCTSignedData :: "nat \<Rightarrow> u64 \<Rightarrow> Input \<Rightarrow> Input \<Rightarrow> Buffer \<Rightarrow> Buffer res" where
  "EncodeV1SCTSignedData mem timestamp serializedLogEntry exts output =
     bind_res (WriteUint mem kVersionLength sizeof_unsigned_int (sct_version_code SCT_V1) output) (\<lambda>output.
     bind_res (WriteUint mem kSignatureTypeLength sizeof_unsigned_int
       (signature_type_code CertificateTimestamp) output) (\<lambda>output.
     bind_res (WriteTimeSinceEpoch mem timestamp output) (\<lambda>output.
     bind_res (WriteEncodedBytes mem serializedLogEntry output) (\<lambda>output.
     WriteVariableBytes mem kExtensionsLengthBytes exts output))))"

definition EncodeTreeHeadSignature :: "nat \<Rightarrow> SignedTreeHead \<Rightarrow> Buffer \<Rightarrow> Buffer res" where
  "EncodeTreeHeadSignature mem sth output =
     bind_res (WriteUint mem kVersionLength sizeof_unsigned_int (sth_version_code (sth_version sth)) output) (\<lambda>output.
     bind_res (WriteUint mem kSignatureTypeLength sizeof_unsigned_int (signature_type_code TreeHash) output) (\<lambda>output.
     bind_res (WriteTimeSinceEpoch mem (sth_timestamp sth) output) (\<lambda>output.
     bind_res (WriteUint mem kTreeSizeLength sizeof_uint64_t (sth_treeSize sth) output) (\<lambda>output.
     if length (sth_sha256RootHash sth) \<noteq> kSthRootHashLength then Inl FATAL_ERROR_INVALID_ARGS
     else WriteEncodedBytes mem (sth_sha256RootHash sth) output))))"

definition EncodeSCTList :: "nat \<Rightarrow> Input list \<Rightarrow> Buffer \<Rightarrow> Buffer res" where
  "EncodeSCTList mem scts output =
     (let sctListLength = (\<Sum>sct \<leftarrow> scts. unat (GetLength sct) + kSerializedSCTLengthBytes) in
      if kSCTListLengthBytes + sctListLength > mem then Inl FATAL_ERROR_NO_MEMORY
      else bind_res (WriteVariableBytesPrefix mem kSCTListLengthBytes sctListLength output) (\<lambda>output.
        fold_res (\<lambda>output sct. WriteVariableBytes mem kSerializedSCTLengthBytes sct output) output scts))"

section \<open>Big-endian integers\<close>

fun be_bytes :: "nat \<Rightarrow> nat \<Rightarrow> u8 list" where
  "be_bytes 0 n = []"
| "be_bytes (Suc k) n = be_bytes k (n div 256) @ [of_nat n]"

definition be_value :: "u8 list \<Rightarrow> nat" where
  "be_value bs = foldl (\<lambda>a b. a * 256 + unat b) 0 bs"

lemma length_be_bytes [simp]: "length (be_bytes k n) = k"
  by (induction k arbitrary: n) auto

lemma be_value_Nil [simp]: "be_value [] = 0"
  by (simp add: be_value_def)

lemma be_value_snoc [simp]: "be_value (bs @ [b]) = be_value bs * 256 + unat b"
  by (simp add: be_value_def)

lemma be_value_bound: "be_value bs < 256 ^ length bs"
proof (induction bs rule: rev_induct)
  case (snoc b bs)
  have "be_value bs * 256 + unat b < (be_value bs + 1) * 256" using unat_u8_less [of b] by (simp add: algebra_simps)
  also have "\<dots> \<le> 256 ^ length bs * 256" using snoc by (intro mult_right_mono) auto
  finally show ?case by simp
qed simp

lemma be_value_be_bytes [simp]: "n < 256 ^ k \<Longrightarrow> be_value (be_bytes k n) = n"
proof (induction k arbitrary: n)
  case (Suc k)
  then have "n div 256 < 256 ^ k" by (simp add: less_mult_imp_div_less mult.commute)
  with Suc.IH show ?case by (simp add: unat_of_nat take_bit_eq_mod)
qed simp

lemma be_bytes_be_value [simp]: "be_bytes (length bs) (be_value bs) = bs"
proof (induction bs rule: rev_induct)
  case (snoc b bs)
  have "(be_value bs * 256 + unat b) div 256 = be_value bs" using unat_u8_less [of b] by simp
  moreover have "unat (of_nat (be_value bs * 256 + unat b) :: u8) = unat b"
    unfolding unat_of_nat take_bit_eq_mod by simp
  then have "(of_nat (be_value bs * 256 + unat b) :: u8) = b" by (rule unsigned_word_eqI)
  ultimately show ?case using snoc by simp
qed simp

lemma be_bytes_inject: "m < 256 ^ k \<Longrightarrow> n < 256 ^ k \<Longrightarrow> be_bytes k m = be_bytes k n \<longleftrightarrow> m = n"
  by (metis be_value_be_bytes)

lemma be_bytes_Cons: "be_bytes (Suc k) n = of_nat (n div 256 ^ k) # be_bytes k n"
proof (induction k arbitrary: n)
  case (Suc k)
  have "be_bytes (Suc (Suc k)) n = be_bytes (Suc k) (n div 256) @ [of_nat n]" by (rule be_bytes.simps(2))
  also have "\<dots> = of_nat (n div 256 div 256 ^ k) # be_bytes (Suc k) n" unfolding Suc [of "n div 256"] by simp
  finally show ?case by (simp add: div_mult2_eq)
qed simp

section \<open>Reading and writing integers\<close>

lemma UncheckedWriteUint_loop_eq: "UncheckedWriteUint_loop n v out = out @ be_bytes n (unat v)"
proof (induction n arbitrary: out)
  case (Suc n)
  have e: "(256 :: nat) ^ n = 2 ^ (n * 8)" by (simp add: power_mult mult.commute [of n])
  have m: "(0xFF :: u64) = mask 8" by (simp add: mask_eq_exp_minus_1)
  have "(ucast (drop_bit (n * 8) v AND 0xFF) :: u8) = of_nat (unat v div 256 ^ n)"
    unfolding e m drop_bit_eq_div [symmetric] by (rule bit_eqI) (auto simp: bit_simps)
  with Suc show ?case unfolding be_bytes_Cons by simp
qed simp

lemma UncheckedWriteUint_eq:
  "UncheckedWriteUint mem k v out =
     (if k + length out > mem then Inl FATAL_ERROR_NO_MEMORY else Inr (out @ be_bytes k (unat v)))"
  by (simp add: UncheckedWriteUint_def UncheckedWriteUint_loop_eq)

lemma accumulate_eq: "push_bit 8 (a :: u64) OR ucast (b :: u8) = a * 256 + ucast b"
proof -
  have "push_bit 8 a AND ucast b = 0" by (rule bit_eqI) (auto simp: bit_simps dest: bit_imp_le_length)
  then have "push_bit 8 a OR ucast b = push_bit 8 a + ucast b" by (simp add: disjunctive_add_eq_or)
  then show ?thesis by (simp add: push_bit_eq_mult)
qed

lemma accumulate_value:
  "foldl (\<lambda>a b. push_bit 8 a OR ucast b) 0 bs = (of_nat (be_value bs) :: u64)"
  by (induction bs rule: rev_induct) (simp_all add: accumulate_eq of_nat_unat)

lemma UncheckedReadUint_loop_eq:
  "wf_Reader r \<Longrightarrow> UncheckedReadUint_loop k r acc =
     (if length (remaining r) < k then Inl ERROR_BAD_DER
      else Inr (foldl (\<lambda>a b. push_bit 8 a OR ucast b) acc (take k (remaining r)), advance k r))"
proof (induction k arbitrary: r acc)
  case (Suc k)
  show ?case
  proof (cases "remaining r")
    case Nil
    then show ?thesis using Suc.prems by (simp add: Read8_spec)
  next
    case (Cons b bs)
    then have "wf_Reader (advance 1 r)" "remaining (advance 1 r) = bs" using Suc.prems by simp_all
    with Suc.IH [OF this(1)] Cons Suc.prems show ?thesis by (simp add: Read8_spec)
  qed
qed simp

section \<open>Encodings at the front of a reader\<close>

definition bytes_at :: "Reader \<Rightarrow> u8 list \<Rightarrow> Reader \<Rightarrow> bool" where
  "bytes_at r bs r' \<longleftrightarrow> (\<exists>rest. remaining r = bs @ rest) \<and> r' = advance (length bs) r"

lemma bytes_at_wf: "bytes_at r bs s \<Longrightarrow> wf_Reader r \<Longrightarrow> wf_Reader s"
  by (auto simp: bytes_at_def)

lemma bytes_at_remaining: "bytes_at r bs s \<Longrightarrow> remaining r = bs @ remaining s"
  by (auto simp: bytes_at_def)

lemma bytes_at_reads: "bytes_at r bs s \<Longrightarrow> reads r s"
  by (auto simp: bytes_at_def)

lemma bytes_at_append: "bytes_at r (a @ b) t \<longleftrightarrow> (\<exists>s. bytes_at r a s \<and> bytes_at s b t)"
  by (auto simp: bytes_at_def)

lemma bytes_at_take: "k \<le> length (remaining r) \<Longrightarrow> bytes_at r (take k (remaining r)) (advance k r)"
  by (simp add: bytes_at_def) (metis append_take_drop_id)

lemma bytes_at_length: "wf_Reader r \<Longrightarrow> bytes_at r bs s \<Longrightarrow> length bs \<le> MAX_INPUT"
  using length_remaining_le [of r] by (auto simp: bytes_at_def)

text \<open>What a reader of a structure promises: it accepts exactly the encodings of the structures that are
  \<open>ok\<close>, and moves behind them.\<close>

locale codec =
  fixes p :: "Reader \<Rightarrow> ('a \<times> Reader) res" and enc :: "'a \<Rightarrow> u8 list" and ok :: "'a \<Rightarrow> bool"
  assumes accepts: "wf_Reader r \<Longrightarrow> p r = Inr (x, r') \<longleftrightarrow> ok x \<and> bytes_at r (enc x) r'"
begin

lemma moves: "wf_Reader r \<Longrightarrow> p r = Inr (x, r') \<Longrightarrow> reads r r'"
  using accepts bytes_at_reads by blast

lemma sequence:
  assumes "wf_Reader r"
  shows "bind_res (p r) (\<lambda>(x, s). f x s) = Inr y \<longleftrightarrow>
    (\<exists>x s. ok x \<and> bytes_at r (enc x) s \<and> wf_Reader s \<and> f x s = Inr y)"
  unfolding bind_res_prod_Inr_iff using accepts [OF assms] bytes_at_wf [OF _ assms] by blast

text \<open>Reading a structure \<open>y\<close> field by field: \<open>c\<close> is the field that is read here.\<close>

lemma field:
  assumes "wf_Reader r"
    and "\<And>x s. wf_Reader s \<Longrightarrow> ok x \<Longrightarrow> f x s = Inr (y, r') \<longleftrightarrow> x = c \<and> Q \<and> bytes_at s tail r'"
  shows "bind_res (p r) (\<lambda>(x, s). f x s) = Inr (y, r') \<longleftrightarrow> ok c \<and> Q \<and> bytes_at r (enc c @ tail) r'"
  unfolding sequence [OF assms(1)] bytes_at_append using assms(2) bytes_at_wf [OF _ assms(1)] by blast

lemma next_field:
  assumes "wf_Reader r"
    and "\<forall>x s. wf_Reader s \<longrightarrow> (f x s = Inr (y, r') \<longleftrightarrow> x = c \<and> Q \<and> bytes_at s tail r')"
  shows "bind_res (p r) (\<lambda>(x, s). f x s) = Inr (y, r') \<longleftrightarrow> ok c \<and> Q \<and> bytes_at r (enc c @ tail) r'"
  using assms by (intro field) auto

lemma last_field:
  assumes "wf_Reader r" and "\<forall>x s. f x s = Inr (y, r') \<longleftrightarrow> x = c \<and> Q \<and> s = r'"
  shows "bind_res (p r) (\<lambda>(x, s). f x s) = Inr (y, r') \<longleftrightarrow> ok c \<and> Q \<and> bytes_at r (enc c) r'"
  unfolding sequence [OF assms(1)] using bytes_at_wf [OF _ assms(1)] by (auto simp: assms(2))

lemma of_encoding:
  assumes "ok x" and "wf_Input (enc x @ rest)"
  shows "p (Reader_of (enc x @ rest)) = Inr (x, advance (length (enc x)) (Reader_of (enc x @ rest)))"
  using assms by (simp add: accepts bytes_at_def)

text \<open>So no encoding is the beginning of another.\<close>

lemma prefix_free:
  assumes "ok x" and "ok y" and "enc x @ a = enc y @ b" and "wf_Input (enc x @ a)"
  shows "x = y \<and> a = b"
proof -
  have "p (Reader_of (enc x @ a)) = Inr (x, advance (length (enc x)) (Reader_of (enc x @ a)))"
    using of_encoding [OF assms(1,4)] .
  moreover have "p (Reader_of (enc x @ a)) = Inr (y, advance (length (enc y)) (Reader_of (enc x @ a)))"
    using of_encoding [OF assms(2), of b] assms(3,4) by simp
  ultimately show ?thesis using assms(3) by simp
qed

end

sublocale codec \<subseteq> decoder p
  by unfold_locales (rule moves)

end
