(* ===== verification/CtEncoding.thy ===== *)
theory CtEncoding
  imports CtSerialization
begin

text \<open>
  What the readers and writers of theory \<open>CtSerialization\<close> do, by the encodings of RFC 6962 and RFC 5246,
  which are defined here without them. Each reader is an interpretation of the locale \<open>codec\<close>. The
  encodings of what a log signs determine what is signed.
\<close>

section \<open>The encodings\<close>

definition encode_variable :: "nat \<Rightarrow> u8 list \<Rightarrow> u8 list" where
  "encode_variable k bs = be_bytes k (length bs) @ bs"

definition encode_digitally_signed :: "DigitallySigned \<Rightarrow> u8 list" where
  "encode_digitally_signed d =
     be_bytes 1 (unat (hash_code (hashAlgorithm d))) @ be_bytes 1 (unat (signature_code (signatureAlgorithm d))) @
     encode_variable 2 (signatureData d)"

definition encode_sct :: "SignedCertificateTimestamp \<Rightarrow> u8 list" where
  "encode_sct s =
     be_bytes 1 (unat (sct_version_code (sct_version s))) @ sct_logId s @ be_bytes 8 (unat (sct_timestamp s)) @
     encode_variable 2 (sct_extensions s) @ encode_digitally_signed (sct_signature s)"

definition encode_log_entry :: "LogEntry \<Rightarrow> u8 list" where
  "encode_log_entry e = (case le_type e of
       X509 \<Rightarrow> be_bytes 2 0 @ encode_variable 3 (leafCertificate e)
     | Precert \<Rightarrow> be_bytes 2 1 @ issuerKeyHash e @ encode_variable 3 (tbsCertificate e))"

definition encode_signed_data :: "u64 \<Rightarrow> u8 list \<Rightarrow> u8 list \<Rightarrow> u8 list" where
  "encode_signed_data timestamp entry exts =
     be_bytes 1 0 @ be_bytes 1 0 @ be_bytes 8 (unat timestamp) @ entry @ encode_variable 2 exts"

definition encode_tree_head :: "SignedTreeHead \<Rightarrow> u8 list" where
  "encode_tree_head sth =
     be_bytes 1 0 @ be_bytes 1 1 @ be_bytes 8 (unat (sth_timestamp sth)) @ be_bytes 8 (unat (sth_treeSize sth)) @
     sth_sha256RootHash sth"

definition encode_sct_list :: "u8 list list \<Rightarrow> u8 list" where
  "encode_sct_list items = encode_variable 2 (concat (map (encode_variable 2) items))"

lemma length_encode_variable [simp]: "length (encode_variable k bs) = k + length bs"
  by (simp add: encode_variable_def)

section \<open>Readers\<close>

lemma ReadUint_accepts:
  assumes "wf_Reader r" and "k \<le> 8"
  shows "ReadUint k r = Inr (v, r') \<longleftrightarrow> unat v < 256 ^ k \<and> bytes_at r (be_bytes k (unat v)) r'"
proof -
  have rd: "ReadUint k r = (if length (remaining r) < k then Inl ERROR_BAD_DER
      else Inr (of_nat (be_value (take k (remaining r))), advance k r))"
    unfolding ReadUint_def UncheckedReadUint_loop_eq [OF assms(1)] accumulate_value ..
  show ?thesis
  proof (cases "length (remaining r) < k")
    case True
    then show ?thesis by (auto simp: rd bytes_at_def)
  next
    case False
    let ?bs = "take k (remaining r)"
    have len: "length ?bs = k" using False by simp
    have "be_value ?bs < 256 ^ k" using be_value_bound [of ?bs] len by simp
    moreover have "(256 :: nat) ^ k \<le> 256 ^ 8" using assms(2) by (rule power_increasing) simp
    ultimately have u: "unat (of_nat (be_value ?bs) :: u64) = be_value ?bs" "be_value ?bs < 256 ^ k"
      by (simp_all add: unat_of_nat_u64)
    have whole_bytes: "be_bytes k (be_value ?bs) = ?bs" using be_bytes_be_value [of ?bs] len by simp
    have front: "bytes_at r ?bs (advance k r)" using bytes_at_take False by (simp add: not_less)
    show ?thesis
    proof
      assume "ReadUint k r = Inr (v, r')"
      then show "unat v < 256 ^ k \<and> bytes_at r (be_bytes k (unat v)) r'" using False u whole_bytes front by (auto simp: rd)
    next
      assume v: "unat v < 256 ^ k \<and> bytes_at r (be_bytes k (unat v)) r'"
      then have "?bs = be_bytes k (unat v)" "r' = advance k r" by (auto simp: bytes_at_def)
      then show "ReadUint k r = Inr (v, r')" using v False by (simp add: rd)
    qed
  qed
qed

interpretation uint8: codec "ReadUint 1" "\<lambda>v. be_bytes 1 (unat v)" "\<lambda>v. unat v < 256"
  by unfold_locales (use ReadUint_accepts [of _ 1] in simp)

interpretation uint16: codec "ReadUint 2" "\<lambda>v. be_bytes 2 (unat v)" "\<lambda>v. unat v < 65536"
  by unfold_locales (use ReadUint_accepts [of _ 2] in simp)

interpretation uint64: codec "ReadUint 8" "\<lambda>v. be_bytes 8 (unat v)" "\<lambda>_. True"
proof (unfold_locales, goal_cases)
  case (1 r x r')
  moreover have "unat x < 256 ^ 8" using unsigned_less [of x] by simp
  ultimately show ?case using ReadUint_accepts [of r 8 x r'] by simp
qed

lemma SkipInput_accepts:
  "wf_Reader r \<Longrightarrow> SkipInput r n = Inr (bs, r') \<longleftrightarrow> length bs = n \<and> bytes_at r bs r'"
  by (auto simp: SkipInput_spec bytes_at_def) (metis append_take_drop_id)

interpretation log_id: codec "ReadFixedBytes (of_nat kLogIdLength)" "\<lambda>bs. bs" "\<lambda>bs. length bs = 32"
  by unfold_locales (simp add: ReadFixedBytes_def ct_lengths SkipInput_accepts)

lemma unat_ucast_u16: "unat (v :: u64) < 65536 \<Longrightarrow> unat (ucast v :: u16) = unat v"
  by (simp add: unsigned_ucast_eq take_bit_eq_mod)

interpretation variable: codec "ReadVariableBytes 2" "encode_variable 2" "\<lambda>bs. length bs < 65536"
proof (unfold_locales, goal_cases)
  case (1 r x r')
  have fixed: "ReadFixedBytes v s = Inr (x, r') \<longleftrightarrow> v = of_nat (length x) \<and> length x < 65536 \<and> bytes_at s x r'"
    if "wf_Reader s" "unat v < 65536" for v s
    using that by (auto simp: ReadFixedBytes_def SkipInput_accepts unat_ucast_u16 unat_of_nat_u64)
  show ?case unfolding ReadVariableBytes_def encode_variable_def using uint16.field [OF 1 fixed]
    by (simp add: unat_of_nat_u64 cong: conj_cong) (auto simp: unat_of_nat_u64)
qed

text \<open>The readers of enumerations.\<close>

lemma enumeration_accepts:
  assumes "wf_Reader r" and "\<And>v s. f v s = Inr (x, r') \<longleftrightarrow> v = c \<and> s = r'" and "unat c < 256"
  shows "bind_res (ReadUint 1 r) (\<lambda>(v, s). f v s) = Inr (x, r') \<longleftrightarrow> True \<and> bytes_at r (be_bytes 1 (unat c)) r'"
  unfolding uint8.sequence [OF assms(1)] assms(2) using assms(3) bytes_at_wf [OF _ assms(1)] by auto

interpretation hash: codec ReadHashAlgorithm "\<lambda>a. be_bytes 1 (unat (hash_code a))" "\<lambda>_. True"
proof (unfold_locales, goal_cases)
  case (1 r x r')
  show ?case unfolding ReadHashAlgorithm_def kHashAlgorithmLength_def
    by (rule enumeration_accepts [OF 1]) (cases x; auto)+
qed

interpretation signature: codec ReadSignatureAlgorithm_CT "\<lambda>a. be_bytes 1 (unat (signature_code a))" "\<lambda>_. True"
proof (unfold_locales, goal_cases)
  case (1 r x r')
  show ?case unfolding ReadSignatureAlgorithm_CT_def kSigAlgorithmLength_def
    by (rule enumeration_accepts [OF 1]) (cases x; auto)+
qed

interpretation sct_version: codec ReadVersion "\<lambda>a. be_bytes 1 (unat (sct_version_code a))" "\<lambda>_. True"
proof (unfold_locales, goal_cases)
  case (1 r x r')
  show ?case unfolding ReadVersion_def kVersionLength_def
    by (rule enumeration_accepts [OF 1]) (cases x; auto)+
qed

lemma InputToBuffer_then: "bind_res (InputToBuffer mem i) f = Inr y \<longleftrightarrow> length i \<le> mem \<and> f i = Inr y"
  by (auto simp: InputToBuffer_def append_bytes_def)

definition storable :: "nat \<Rightarrow> u8 list \<Rightarrow> bool" where
  "storable mem bs \<longleftrightarrow> length bs < 65536 \<and> length bs \<le> mem"

interpretation digitally_signed:
  codec "DecodeDigitallySigned mem" encode_digitally_signed "\<lambda>d. storable mem (signatureData d)"
proof (unfold_locales, goal_cases)
  case (1 r x r')
  let ?buffer = "\<lambda>h a d s. bind_res (InputToBuffer mem d) (\<lambda>buffer.
     Inr (\<lparr>hashAlgorithm = h, signatureAlgorithm = a, signatureData = buffer\<rparr>, s))"
  let ?data = "\<lambda>h a s. bind_res (ReadVariableBytes 2 s) (\<lambda>(d, s). ?buffer h a d s)"
  let ?c = "signatureData x" and ?a = "signatureAlgorithm x" and ?h = "hashAlgorithm x"
  have "\<forall>d s. ?buffer h a d s = Inr (x, r') \<longleftrightarrow> d = ?c \<and> (h = ?h \<and> a = ?a \<and> length ?c \<le> mem) \<and> s = r'" for h a
    unfolding InputToBuffer_then by (cases x) auto
  note data = variable.last_field [OF _ this]
  have "\<forall>a s. wf_Reader s \<longrightarrow> (?data h a s = Inr (x, r') \<longleftrightarrow>
      a = ?a \<and> (h = ?h \<and> storable mem ?c) \<and> bytes_at s (encode_variable 2 ?c) r')" for h
    using data by (auto simp: storable_def)
  note alg = signature.next_field [OF _ this]
  have "\<forall>h s. wf_Reader s \<longrightarrow> (bind_res (ReadSignatureAlgorithm_CT s) (\<lambda>(a, s). ?data h a s) = Inr (x, r') \<longleftrightarrow>
      h = ?h \<and> storable mem ?c \<and> bytes_at s (be_bytes 1 (unat (signature_code ?a)) @ encode_variable 2 ?c) r')"
    using alg by blast
  from hash.next_field [OF 1 this] show ?case
    unfolding DecodeDigitallySigned_def kSignatureLengthBytes_def encode_digitally_signed_def by simp
qed

definition sct_storable :: "nat \<Rightarrow> SignedCertificateTimestamp \<Rightarrow> bool" where
  "sct_storable mem s \<longleftrightarrow> length (sct_logId s) = 32 \<and> 32 \<le> mem \<and> storable mem (sct_extensions s) \<and>
     storable mem (signatureData (sct_signature s))"

text \<open>What the decoder leaves to its caller.\<close>

definition undecided :: "SignedCertificateTimestamp \<Rightarrow> bool" where
  "undecided s \<longleftrightarrow> sct_origin s = Origin_Unknown \<and> sct_status s = VS_None"

interpretation timestamp:
  codec "DecodeSignedCertificateTimestamp mem" encode_sct "\<lambda>s. sct_storable mem s \<and> undecided s"
proof (unfold_locales, goal_cases)
  case (1 r x r')
  let ?done = "\<lambda>v l t e g s. bind_res (InputToBuffer mem l) (\<lambda>l. bind_res (InputToBuffer mem e) (\<lambda>e.
     Inr (\<lparr>sct_version = v, sct_logId = l, sct_timestamp = t, sct_extensions = e, sct_signature = g,
           sct_origin = Origin_Unknown, sct_status = VS_None\<rparr>, s)))"
  let ?sig = "\<lambda>v l t e s. bind_res (DecodeDigitallySigned mem s) (\<lambda>(g, s). ?done v l t e g s)"
  let ?exts = "\<lambda>v l t s. bind_res (ReadVariableBytes 2 s) (\<lambda>(e, s). ?sig v l t e s)"
  let ?time = "\<lambda>v l s. bind_res (ReadUint 8 s) (\<lambda>(t, s). ?exts v l t s)"
  let ?id = "\<lambda>v s. bind_res (ReadFixedBytes (of_nat kLogIdLength) s) (\<lambda>(l, s). ?time v l s)"
  let ?G = "encode_digitally_signed (sct_signature x)" and ?E = "encode_variable 2 (sct_extensions x)"
    and ?T = "be_bytes 8 (unat (sct_timestamp x))" and ?g = "storable mem (signatureData (sct_signature x))"
    and ?l = "length (sct_logId x) \<le> mem \<and> length (sct_extensions x) \<le> mem \<and> undecided x"
  have "\<forall>g s. ?done v l t e g s = Inr (x, r') \<longleftrightarrow> g = sct_signature x \<and> (v = sct_version x \<and> l = sct_logId x \<and>
      t = sct_timestamp x \<and> e = sct_extensions x \<and> ?l) \<and> s = r'" for v l t e
    unfolding InputToBuffer_then undecided_def by (cases x) auto
  note sig = digitally_signed.last_field [OF _ this]
  have "\<forall>e s. wf_Reader s \<longrightarrow> (?sig v l t e s = Inr (x, r') \<longleftrightarrow>
      e = sct_extensions x \<and> (v = sct_version x \<and> l = sct_logId x \<and> t = sct_timestamp x \<and> ?g \<and> ?l) \<and> bytes_at s ?G r')"
    for v l t using sig by auto
  note exts = variable.next_field [OF _ this]
  have "\<forall>t s. wf_Reader s \<longrightarrow> (?exts v l t s = Inr (x, r') \<longleftrightarrow> t = sct_timestamp x \<and>
      (v = sct_version x \<and> l = sct_logId x \<and> length (sct_extensions x) < 65536 \<and> ?g \<and> ?l) \<and> bytes_at s (?E @ ?G) r')"
    for v l using exts by auto
  note time = uint64.next_field [OF _ this]
  have "\<forall>l s. wf_Reader s \<longrightarrow> (?time v l s = Inr (x, r') \<longleftrightarrow> l = sct_logId x \<and>
      (v = sct_version x \<and> length (sct_extensions x) < 65536 \<and> ?g \<and> ?l) \<and> bytes_at s (?T @ ?E @ ?G) r')"
    for v using time by auto
  note id = log_id.next_field [OF _ this]
  have "\<forall>v s. wf_Reader s \<longrightarrow> (?id v s = Inr (x, r') \<longleftrightarrow> v = sct_version x \<and>
      (length (sct_logId x) = 32 \<and> length (sct_extensions x) < 65536 \<and> ?g \<and> ?l) \<and>
      bytes_at s (sct_logId x @ ?T @ ?E @ ?G) r')"
    using id by auto
  from sct_version.next_field [OF 1 this] show ?case
    unfolding DecodeSignedCertificateTimestamp_def kTimestampLength_def kExtensionsLengthBytes_def encode_sct_def
      sct_storable_def storable_def by auto
qed

text \<open>An item of a list.\<close>

interpretation item: codec ReadSCTListItem "encode_variable 2" "\<lambda>bs. bs \<noteq> [] \<and> length bs < 65536"
proof (unfold_locales, goal_cases)
  case (1 r x r')
  have len: "GetLength i = 0 \<longleftrightarrow> i = []" if "length i < 65536" for i
    using that GetLength_wf [of i] by (auto simp: wf_Input_def MAX_INPUT_def GetLength_def)
  have "(\<exists>i s. length i < 65536 \<and> bytes_at r (encode_variable 2 i) s \<and> wf_Reader s \<and>
      (if GetLength i = 0 then Inl ERROR_BAD_DER else Inr (i, s)) = Inr (x, r')) \<longleftrightarrow>
      x \<noteq> [] \<and> length x < 65536 \<and> bytes_at r (encode_variable 2 x) r'"
    using len bytes_at_wf [OF _ 1] by auto
  moreover have "\<not> AtEnd r" if "bytes_at r (encode_variable 2 x) r'"
    using that 1 by (auto simp: AtEnd_iff bytes_at_def encode_variable_def dest: arg_cong [where f = length])
  ultimately show ?case
    unfolding ReadSCTListItem_def kSerializedSCTLengthBytes_def variable.sequence [OF 1, symmetric] by auto
qed

section \<open>Writers\<close>

text \<open>\<open>writes mem w P bs\<close>: the writer appends \<open>bs\<close> if \<open>P\<close> holds and the memory suffices, and fails otherwise.\<close>

definition writes :: "nat \<Rightarrow> (Buffer \<Rightarrow> Buffer res) \<Rightarrow> bool \<Rightarrow> u8 list \<Rightarrow> bool" where
  "writes mem w P bs \<longleftrightarrow>
     (\<forall>out out'. w out = Inr out' \<longleftrightarrow> P \<and> length out + length bs \<le> mem \<and> out' = out @ bs)"

lemma writes_then:
  assumes "writes mem v P bs" and "writes mem w Q cs"
  shows "writes mem (\<lambda>out. bind_res (v out) w) (P \<and> Q) (bs @ cs)"
  using assms unfolding writes_def by (auto simp: bind_res_Inr_iff)

lemma writes_if: "writes mem w P bs \<Longrightarrow> writes mem (\<lambda>out. if c then Inl e else w out) (\<not> c \<and> P) bs"
  by (auto simp: writes_def)

lemma writes_cong: "writes mem w P bs \<Longrightarrow> P = Q \<Longrightarrow> writes mem w Q bs"
  by simp

lemma writes_bytes: "writes mem (WriteEncodedBytes mem bs) True bs"
  by (auto simp: writes_def WriteEncodedBytes_def append_bytes_def)

lemma high_bits: "0 < k \<Longrightarrow> drop_bit (k * 8 - 1) (v :: u64) > 1 \<longleftrightarrow> \<not> unat v < 256 ^ k"
proof -
  assume "0 < k"
  then have e: "(256 :: nat) ^ k = 2 * 2 ^ (k * 8 - 1)"
    by (cases k) (simp_all add: power_add power_mult mult.commute [of _ 8])
  have "unat (drop_bit (k * 8 - 1) v) = unat v div 2 ^ (k * 8 - 1)"
    unfolding unat_drop_bit_eq by (rule drop_bit_eq_div)
  then have "drop_bit (k * 8 - 1) v > 1 \<longleftrightarrow> unat v div 2 ^ (k * 8 - 1) \<ge> 2"
    unfolding word_less_nat_alt by auto
  also have "\<dots> \<longleftrightarrow> \<not> unat v < 256 ^ k"
    unfolding e by (simp add: less_eq_div_iff_mult_less_eq not_less)
  finally show ?thesis .
qed

lemma writes_uint:
  "0 < k \<Longrightarrow> writes mem (WriteUint mem k sizeofT v) (sizeofT > k \<longrightarrow> unat v < 256 ^ k) (be_bytes k (unat v))"
  using high_bits [of k v] by (auto simp: writes_def WriteUint_def UncheckedWriteUint_eq)

lemma writes_variable:
  assumes "length bs < 65536" and "k = 2 \<or> k = 3"
  shows "writes mem (WriteVariableBytes mem k bs) True (encode_variable k bs)"
proof -
  have len: "unat (GetLength bs) = length bs" using assms(1) by (simp add: wf_Input_def MAX_INPUT_def)
  have u: "unat (of_nat (length bs) :: u64) = length bs" using assms(1) by (simp add: unat_of_nat_u64)
  have "writes mem (WriteVariableBytesPrefix mem k (length bs)) True (be_bytes k (length bs))"
    using writes_uint [of k mem sizeof_size_t "of_nat (length bs)"] assms
    by (auto simp: WriteVariableBytesPrefix_def Let_def u writes_def)
  from writes_then [OF this writes_bytes [of mem bs]] show ?thesis
    by (simp add: writes_def WriteVariableBytes_def len encode_variable_def)
qed

lemma writes_buffer:
  assumes "k = 2 \<or> k = 3"
  shows "writes mem (WriteVariableBuffer mem k bs) (length bs < 65536) (encode_variable k bs)"
proof (cases "length bs < 65536")
  case True
  then have "BufferToInput bs = Inr bs" by (simp add: BufferToInput_def MAX_INPUT_def)
  with writes_variable [OF True assms] True show ?thesis by (simp add: writes_def WriteVariableBuffer_def)
next
  case False
  then have "BufferToInput bs = Inl ERROR_BAD_DER" by (simp add: BufferToInput_def MAX_INPUT_def)
  with False show ?thesis by (simp add: writes_def WriteVariableBuffer_def)
qed

lemma writes_digitally_signed:
  "writes mem (EncodeDigitallySigned mem d) (length (signatureData d) < 65536) (encode_digitally_signed d)"
proof -
  have "unat (hash_code (hashAlgorithm d)) < 256" "unat (signature_code (signatureAlgorithm d)) < 256"
    by (cases "hashAlgorithm d"; simp) (cases "signatureAlgorithm d"; simp)
  then show ?thesis
    unfolding EncodeDigitallySigned_def encode_digitally_signed_def
    using writes_then [OF writes_uint [of 1 mem sizeof_unsigned_int "hash_code (hashAlgorithm d)"]
        writes_then [OF writes_uint [of 1 mem sizeof_unsigned_int "signature_code (signatureAlgorithm d)"]
          writes_buffer [of 2 mem "signatureData d"]]]
    by (simp add: writes_def ct_lengths del: be_bytes.simps)
qed

definition loggable :: "LogEntry \<Rightarrow> bool" where
  "loggable e \<longleftrightarrow> (case le_type e of
       X509 \<Rightarrow> length (leafCertificate e) < 65536
     | Precert \<Rightarrow> length (issuerKeyHash e) = 32 \<and> length (tbsCertificate e) < 65536)"

lemma writes_log_entry: "writes mem (EncodeLogEntry mem e) (loggable e) (encode_log_entry e)"
proof (cases "le_type e")
  case X509
  then show ?thesis
    using writes_then [OF writes_uint [of 2 mem sizeof_unsigned_int 0] writes_buffer [of 3 mem "leafCertificate e"]]
    by (simp add: writes_def EncodeLogEntry_def EncodeAsn1CertLogEntry_def ct_lengths encode_log_entry_def loggable_def
        del: be_bytes.simps)
next
  case Precert
  let ?h = "issuerKeyHash e"
  have e: "EncodeLogEntry mem e = (\<lambda>out. bind_res (WriteUint mem 2 sizeof_unsigned_int 1 out) (\<lambda>out.
      if length ?h \<noteq> 32 then Inl FATAL_ERROR_INVALID_ARGS
      else bind_res (WriteEncodedBytes mem ?h out) (WriteVariableBuffer mem 3 (tbsCertificate e))))"
    by (rule ext) (simp add: Precert EncodeLogEntry_def EncodePrecertLogEntry_def ct_lengths cong: if_cong)
  have "writes mem (EncodeLogEntry mem e)
      ((sizeof_unsigned_int > 2 \<longrightarrow> unat (1 :: u64) < 256 ^ 2) \<and> \<not> length ?h \<noteq> 32 \<and> True \<and> length (tbsCertificate e) < 65536)
      (be_bytes 2 (unat (1 :: u64)) @ ?h @ encode_variable 3 (tbsCertificate e))"
    unfolding e by (intro writes_then writes_if writes_bytes writes_buffer writes_uint) simp_all
  then show ?thesis by (simp add: Precert encode_log_entry_def loggable_def)
qed

lemma writes_signed_data:
  assumes "length exts < 65536"
  shows "writes mem (EncodeV1SCTSignedData mem timestamp entry exts) True (encode_signed_data timestamp entry exts)"
  unfolding EncodeV1SCTSignedData_def WriteTimeSinceEpoch_def encode_signed_data_def
  using writes_then [OF writes_uint [of 1 mem sizeof_unsigned_int 0] writes_then [OF writes_uint [of 1 mem sizeof_unsigned_int 0]
      writes_then [OF writes_uint [of 8 mem sizeof_uint64_t timestamp]
        writes_then [OF writes_bytes [of mem entry] writes_variable [OF assms, of 2 mem]]]]]
  by (simp add: writes_def ct_lengths sizeof_uint64_t_def del: be_bytes.simps)

lemma writes_tree_head:
  "writes mem (EncodeTreeHeadSignature mem sth) (length (sth_sha256RootHash sth) = 32) (encode_tree_head sth)"
proof -
  have v: "sth_version_code (sth_version sth) = 0" by (cases "sth_version sth") simp
  show ?thesis
    unfolding EncodeTreeHeadSignature_def WriteTimeSinceEpoch_def encode_tree_head_def v
    using writes_then [OF writes_uint [of 1 mem sizeof_unsigned_int 0] writes_then [OF writes_uint [of 1 mem sizeof_unsigned_int 1]
      writes_then [OF writes_uint [of 8 mem sizeof_uint64_t "sth_timestamp sth"]
        writes_then [OF writes_uint [of 8 mem sizeof_uint64_t "sth_treeSize sth"]
          writes_if [OF writes_bytes [of mem "sth_sha256RootHash sth"], of "length (sth_sha256RootHash sth) \<noteq> 32"]]]]]
    by (simp add: writes_def ct_lengths sizeof_uint64_t_def del: be_bytes.simps)
qed

section \<open>Lists of timestamps\<close>

text \<open>Every item that is read shortens what is left, whatever the reader.\<close>

lemma UncheckedReadUint_loop_shrinks:
  "UncheckedReadUint_loop k r a = Inr (v, r') \<Longrightarrow>
   r_end r' = r_end r \<and> r_end r' - r_input r' + k \<le> r_end r - r_input r"
proof (induction k arbitrary: r a)
  case (Suc k)
  then obtain b s where s: "Read8 r = Inr (b, s)" "UncheckedReadUint_loop k s (push_bit 8 a OR ucast b) = Inr (v, r')"
    by (auto simp: bind_res_prod_Inr_iff)
  have "r_end s = r_end r" "r_end s - r_input s + 1 \<le> r_end r - r_input r"
    using s(1) by (auto simp: Read8_def EnsureLength_def split: if_splits)
  then show ?case using Suc.IH [OF s(2)] by linarith
qed simp

lemma ReadSCTListItem_shrinks:
  assumes "ReadSCTListItem r = Inr (i, r')"
  shows "r_end r' - r_input r' < r_end r - r_input r"
proof -
  obtain n s where n: "UncheckedReadUint_loop 2 r 0 = Inr (n, s)" and i: "SkipInput s (unat (ucast n :: u16)) = Inr (i, r')"
    using assms by (auto simp: ReadSCTListItem_def ReadVariableBytes_def ReadFixedBytes_def ReadUint_def ct_lengths
        bind_res_prod_Inr_iff split: if_splits)
  have "r_end r' = r_end s" "r_input s \<le> r_input r'" using i by (auto simp: SkipInput_def split: sum.splits)
  then show ?thesis using UncheckedReadUint_loop_shrinks [OF n] by linarith
qed

text \<open>The items of a list, read one after the other to the end of the reader that \<open>DecodeSCTList\<close> returns.\<close>

function ReadSCTListItems :: "Reader \<Rightarrow> (Input list) res" where
  "ReadSCTListItems listReader =
     (if AtEnd listReader then Inr []
      else case ReadSCTListItem listReader of
        Inl e \<Rightarrow> Inl e
      | Inr (item, listReader) \<Rightarrow> bind_res (ReadSCTListItems listReader) (\<lambda>items. Inr (item # items)))"
  by pat_completeness auto
termination
  by (relation "measure (\<lambda>r. r_end r - r_input r)") (auto dest: ReadSCTListItem_shrinks)

declare ReadSCTListItems.simps [simp del]

definition encode_items :: "u8 list list \<Rightarrow> u8 list" where
  "encode_items items = concat (map (encode_variable 2) items)"

definition proper_item :: "u8 list \<Rightarrow> bool" where
  "proper_item i \<longleftrightarrow> i \<noteq> [] \<and> length i < 65536"

lemma ReadSCTListItems_iff:
  "wf_Reader r \<Longrightarrow> ReadSCTListItems r = Inr items \<longleftrightarrow> remaining r = encode_items items \<and> (\<forall>i \<in> set items. proper_item i)"
proof (induction r arbitrary: items rule: ReadSCTListItems.induct)
  case (1 r)
  note unfold = ReadSCTListItems.simps [of r]
  show ?case
  proof (cases "AtEnd r")
    case True
    have "encode_items items = [] \<longleftrightarrow> items = []" by (cases items) (auto simp: encode_items_def dest: arg_cong [where f = length])
    then show ?thesis using True 1(2) by (auto simp: unfold AtEnd_iff)
  next
    case False
    show ?thesis
    proof
      assume "ReadSCTListItems r = Inr items"
      then obtain i s rest where i: "ReadSCTListItem r = Inr (i, s)" and rest: "ReadSCTListItems s = Inr rest" "items = i # rest"
        using False unfold by (auto simp: bind_res_Inr_iff split: sum.splits)
      have at: "proper_item i" "bytes_at r (encode_variable 2 i) s"
        using i item.accepts [OF 1(2)] by (auto simp: proper_item_def)
      have "remaining s = encode_items rest \<and> (\<forall>i \<in> set rest. proper_item i)"
        using 1(1) [OF False i refl bytes_at_wf [OF at(2) 1(2)]] rest(1) by blast
      then show "remaining r = encode_items items \<and> (\<forall>i \<in> set items. proper_item i)"
        using at rest(2) bytes_at_remaining [OF at(2)] by (simp add: encode_items_def)
    next
      assume e: "remaining r = encode_items items \<and> (\<forall>i \<in> set items. proper_item i)"
      have "items \<noteq> []" using False e 1(2) by (auto simp: AtEnd_iff encode_items_def)
      then obtain i rest where items: "items = i # rest" by (cases items) auto
      let ?s = "advance (length (encode_variable 2 i)) r"
      have at: "bytes_at r (encode_variable 2 i) ?s" using e items by (simp add: bytes_at_def encode_items_def)
      then have i: "ReadSCTListItem r = Inr (i, ?s)" using e items item.accepts [OF 1(2)] by (simp add: proper_item_def)
      have "remaining ?s = encode_items rest" using e items by (simp add: encode_items_def encode_variable_def)
      then have "ReadSCTListItems ?s = Inr rest"
        using 1(1) [OF False i refl bytes_at_wf [OF at 1(2)]] e items by simp
      then show "ReadSCTListItems r = Inr items" using False i items unfold by simp
    qed
  qed
qed

text \<open>A list is decoded whatever follows it.\<close>

lemma DecodeSCTList_iff:
  assumes "wf_Input input"
  shows "DecodeSCTList input = Inr r \<longleftrightarrow>
    (\<exists>body rest. input = encode_variable 2 body @ rest \<and> length body < 65536 \<and> r = Reader_of body)"
  using variable.accepts [OF wf_Reader_of [OF assms]] assms
  by (auto simp: DecodeSCTList_def kSCTListLengthBytes_def bind_res_prod_Inr_iff bytes_at_def)

lemma fold_items:
  assumes "\<forall>i \<in> set items. length i < 65536" and "length out + length (encode_items items) \<le> mem"
  shows "fold_res (\<lambda>out i. WriteVariableBytes mem kSerializedSCTLengthBytes i out) out items = Inr (out @ encode_items items)"
  using assms
proof (induction items arbitrary: out)
  case (Cons i items)
  have "WriteVariableBytes mem kSerializedSCTLengthBytes i out = Inr (out @ encode_variable 2 i)"
    using Cons.prems writes_variable [of i 2 mem] by (simp add: writes_def kSerializedSCTLengthBytes_def encode_items_def)
  with Cons show ?case by (simp add: encode_items_def)
qed (simp add: encode_items_def)

lemma length_encode_items: "length (encode_items items) = (\<Sum>i \<leftarrow> items. length i + 2)"
  by (induction items) (simp_all add: encode_items_def)

lemma EncodeSCTList_eq:
  assumes "\<forall>i \<in> set items. length i < 65536"
  shows "EncodeSCTList mem items [] =
    (if 2 + length (encode_items items) > mem then Inl FATAL_ERROR_NO_MEMORY
     else if length (encode_items items) > 65535 then Inl FATAL_ERROR_INVALID_ARGS
     else Inr (encode_sct_list items))"
proof -
  have "map (\<lambda>i. unat (GetLength i) + kSerializedSCTLengthBytes) items = map (\<lambda>i. length i + 2) items"
    using assms by (auto simp: kSerializedSCTLengthBytes_def wf_Input_def MAX_INPUT_def)
  then have sum: "(\<Sum>i \<leftarrow> items. unat (GetLength i) + kSerializedSCTLengthBytes) = length (encode_items items)"
    unfolding length_encode_items by (rule arg_cong)
  show ?thesis
  proof (cases "2 + length (encode_items items) > mem \<or> length (encode_items items) > 65535")
    case True
    then show ?thesis by (auto simp: EncodeSCTList_def sum kSCTListLengthBytes_def WriteVariableBytesPrefix_def)
  next
    case False
    let ?n = "length (encode_items items)"
    have u: "unat (of_nat ?n :: u64) = ?n" using False by (simp add: unat_of_nat_u64)
    have "WriteVariableBytesPrefix mem 2 ?n [] = Inr (be_bytes 2 ?n)"
      using False writes_uint [of 2 mem sizeof_size_t "of_nat ?n"]
      by (simp add: WriteVariableBytesPrefix_def writes_def u del: be_bytes.simps)
    then show ?thesis
      using False fold_items [OF assms, of "be_bytes 2 ?n" mem]
      by (simp add: EncodeSCTList_def sum kSCTListLengthBytes_def encode_sct_list_def encode_variable_def
          encode_items_def [symmetric] del: be_bytes.simps)
  qed
qed

section \<open>What is signed\<close>

text \<open>The bytes that a log signs determine what they stand for.\<close>

lemma be_bytes_prefix:
  "be_bytes k m @ a = be_bytes k n @ b \<longleftrightarrow> be_bytes k m = be_bytes k n \<and> a = b"
  by (simp add: append_eq_append_conv)

lemma encode_variable_prefix:
  assumes "encode_variable k a @ x = encode_variable k b @ y" and "length a < 256 ^ k" and "length b < 256 ^ k"
  shows "a = b \<and> x = y"
proof -
  have ab: "be_bytes k (length a) = be_bytes k (length b)" "a @ x = b @ y"
    using assms(1) by (simp_all add: encode_variable_def be_bytes_prefix)
  have "length a = length b" using ab(1) assms(2,3) be_bytes_inject by blast
  with ab(2) show ?thesis by simp
qed

text \<open>The fields of an entry that count, by its type.\<close>

definition entry_content :: "LogEntry \<Rightarrow> LogEntryType \<times> u8 list \<times> u8 list" where
  "entry_content e = (case le_type e of
       X509 \<Rightarrow> (X509, [], leafCertificate e)
     | Precert \<Rightarrow> (Precert, issuerKeyHash e, tbsCertificate e))"

lemma encode_log_entry_prefix:
  assumes "encode_log_entry e @ x = encode_log_entry f @ y" and "loggable e" and "loggable f"
  shows "entry_content e = entry_content f \<and> x = y"
proof -
  have less: "n < 65536 \<Longrightarrow> n < 256 ^ 3" for n :: nat by simp
  have type: "be_bytes 2 0 \<noteq> be_bytes 2 1" by (simp add: numeral_2_eq_2)
  show ?thesis
  proof (cases "le_type e")
    case e: X509
    have "le_type f = X509"
      using assms(1) type by (cases "le_type f") (simp_all add: e encode_log_entry_def be_bytes_prefix del: be_bytes.simps)
    with e show ?thesis
      using assms encode_variable_prefix [OF _ less less, of "leafCertificate e" x "leafCertificate f" y]
      by (simp add: encode_log_entry_def loggable_def entry_content_def be_bytes_prefix del: be_bytes.simps)
  next
    case e: Precert
    have f: "le_type f = Precert"
      using assms(1) type by (cases "le_type f") (simp_all add: e encode_log_entry_def be_bytes_prefix del: be_bytes.simps)
    have "issuerKeyHash e = issuerKeyHash f \<and>
        encode_variable 3 (tbsCertificate e) @ x = encode_variable 3 (tbsCertificate f) @ y"
      using assms by (simp add: e f encode_log_entry_def loggable_def be_bytes_prefix del: be_bytes.simps)
    with e f show ?thesis
      using assms(2,3) encode_variable_prefix [OF _ less less, of "tbsCertificate e" x "tbsCertificate f" y]
      by (simp add: loggable_def entry_content_def)
  qed
qed

lemma encode_signed_data_inject:
  assumes "encode_signed_data t (encode_log_entry e) x = encode_signed_data u (encode_log_entry f) y"
    and "loggable e" and "loggable f" and "length x < 65536" and "length y < 65536"
  shows "t = u \<and> entry_content e = entry_content f \<and> x = y"
proof -
  have "be_bytes 8 (unat t) = be_bytes 8 (unat u)"
    and rest: "encode_log_entry e @ encode_variable 2 x = encode_log_entry f @ encode_variable 2 y"
    using assms(1) by (auto simp: encode_signed_data_def be_bytes_prefix simp del: be_bytes.simps)
  then have "unat t = unat u" using be_bytes_inject [of "unat t" 8 "unat u"] unsigned_less [of t] unsigned_less [of u] by simp
  then show ?thesis
    using encode_log_entry_prefix [OF rest assms(2,3)] encode_variable_prefix [of 2 x "[]" y "[]"] assms(4,5)
    by (simp add: unsigned_word_eqI)
qed

section \<open>Samples\<close>

definition sample_sct :: SignedCertificateTimestamp where
  "sample_sct = \<lparr>sct_version = SCT_V1, sct_logId = replicate 32 7, sct_timestamp = 1400000000000, sct_extensions = [],
     sct_signature = \<lparr>hashAlgorithm = HA_SHA256, signatureAlgorithm = SA_ECDSA, signatureData = [1, 2]\<rparr>,
     sct_origin = Origin_Unknown, sct_status = VS_None\<rparr>"

lemma length_encode_sample: "length (encode_sct sample_sct) = 49"
  by (simp add: encode_sct_def encode_digitally_signed_def sample_sct_def del: be_bytes.simps)

definition leaf_entry :: "u8 list \<Rightarrow> LogEntry" where
  "leaf_entry der = LogEntry_Reset\<lparr>leafCertificate := der\<rparr>"

definition sample_tree_head :: SignedTreeHead where
  "sample_tree_head = \<lparr>sth_version = STH_V1, sth_timestamp = 1, sth_treeSize = 2, sth_sha256RootHash = replicate 32 0,
     sth_signature = sct_signature sample_sct\<rparr>"

section \<open>Properties\<close>

text \<open>C33: The timestamps that are accepted. \<open>DecodeSignedCertificateTimestamp\<close> accepts exactly the
  encodings of RFC 6962 of version 1 with a log identifier of 32 bytes: it returns a timestamp if and only
  if the reader starts with its encoding, moves behind it, and leaves its origin and status undecided.\<close>

theorem DecodeSignedCertificateTimestamp_encoding:
  assumes "wf_Reader r" and "65536 \<le> mem"
  shows "DecodeSignedCertificateTimestamp mem r = Inr (s, r') \<longleftrightarrow>
    length (sct_logId s) = 32 \<and> length (sct_extensions s) < 65536 \<and> length (signatureData (sct_signature s)) < 65536 \<and>
    sct_origin s = Origin_Unknown \<and> sct_status s = VS_None \<and>
    remaining r = encode_sct s @ remaining r' \<and> r' = advance (length (encode_sct s)) r"
proof -
  have "sct_storable mem s \<longleftrightarrow> length (sct_logId s) = 32 \<and> length (sct_extensions s) < 65536 \<and>
      length (signatureData (sct_signature s)) < 65536"
    using assms(2) by (auto simp: sct_storable_def storable_def)
  moreover have "bytes_at r (encode_sct s) r' \<longleftrightarrow>
      remaining r = encode_sct s @ remaining r' \<and> r' = advance (length (encode_sct s)) r"
    using bytes_at_remaining by (auto simp: bytes_at_def)
  ultimately show ?thesis unfolding timestamp.accepts [OF assms(1)] undecided_def by blast
qed

theorem DecodeSignedCertificateTimestamp_encoding_witness:
  "\<exists>r'. DecodeSignedCertificateTimestamp 65536 (Reader_of (encode_sct sample_sct @ [9])) = Inr (sample_sct, r') \<and>
     remaining r' = [9]"
proof -
  let ?bs = "encode_sct sample_sct @ [9]"
  have wf: "wf_Input ?bs" by (simp add: wf_Input_def MAX_INPUT_def length_encode_sample)
  let ?r' = "advance (length (encode_sct sample_sct)) (Reader_of ?bs)"
  have "DecodeSignedCertificateTimestamp 65536 (Reader_of ?bs) = Inr (sample_sct, ?r')"
    using DecodeSignedCertificateTimestamp_encoding [OF wf_Reader_of [OF wf] order_refl, of sample_sct ?r'] wf
    by (simp add: sample_sct_def)
  with wf show ?thesis by (intro exI [of _ ?r']) simp
qed

text \<open>Lists of timestamps are read as they were written. What \<open>EncodeSCTList\<close> writes for a list of
  items that are not empty is decoded to these items, whatever follows it; a list that is too long is not
  written at all.\<close>

lemma SCTList_roundtrip:
  assumes "\<forall>i \<in> set items. i \<noteq> [] \<and> wf_Input i" and "EncodeSCTList mem items [] = Inr out" and "wf_Input (out @ rest)"
  shows "\<exists>r. DecodeSCTList (out @ rest) = Inr r \<and> ReadSCTListItems r = Inr items"
proof -
  have items: "\<forall>i \<in> set items. length i < 65536" "\<forall>i \<in> set items. proper_item i"
    using assms(1) by (auto simp: wf_Input_def MAX_INPUT_def proper_item_def)
  have out: "out = encode_variable 2 (encode_items items)" "length (encode_items items) < 65536"
    using assms(2) unfolding EncodeSCTList_eq [OF items(1)]
    by (auto simp: encode_sct_list_def encode_items_def split: if_splits)
  have "DecodeSCTList (out @ rest) = Inr (Reader_of (encode_items items))"
    unfolding DecodeSCTList_iff [OF assms(3)] using out by blast
  moreover have "wf_Input (encode_items items)" using out(2) by (simp add: wf_Input_def MAX_INPUT_def)
  then have "ReadSCTListItems (Reader_of (encode_items items)) = Inr items"
    using items(2) by (simp add: ReadSCTListItems_iff)
  ultimately show ?thesis by blast
qed

text \<open>C12: A signature of a log stands for one thing. The bytes that are signed for a timestamp determine
  the time, the type and contents of the entry, and the extensions; and they are never the bytes that are
  signed for a tree head. So a signature that verifies over them cannot have been made for another
  certificate, another issuer, or another purpose.\<close>

theorem signed_bytes_unambiguous:
  assumes "EncodeLogEntry mem e [] = Inr entry" and "EncodeV1SCTSignedData mem t entry x [] = Inr data"
    and "EncodeLogEntry mem e' [] = Inr entry'" and "EncodeV1SCTSignedData mem t' entry' x' [] = Inr data'"
    and "EncodeTreeHeadSignature mem sth [] = Inr tree" and "wf_Input x" and "wf_Input x'"
  shows "(data = data' \<longrightarrow> t = t' \<and> entry_content e = entry_content e' \<and> x = x') \<and> data \<noteq> tree"
proof -
  have x: "length x < 65536" "length x' < 65536" using assms(6,7) by (simp_all add: wf_Input_def MAX_INPUT_def)
  have e: "loggable e" "entry = encode_log_entry e" "loggable e'" "entry' = encode_log_entry e'"
    using assms(1,3) writes_log_entry by (auto simp: writes_def)
  have d: "data = encode_signed_data t entry x" "data' = encode_signed_data t' entry' x'"
    using assms(2,4) writes_signed_data [OF x(1)] writes_signed_data [OF x(2)] by (auto simp: writes_def)
  have "tree = encode_tree_head sth" using assms(5) writes_tree_head by (auto simp: writes_def)
  moreover have "encode_signed_data t entry x \<noteq> encode_tree_head sth"
    by (simp add: encode_signed_data_def encode_tree_head_def)
  ultimately show ?thesis using encode_signed_data_inject [OF _ e(1,3) x] d e(2,4) by blast
qed

theorem signed_bytes_unambiguous_witness:
  "\<exists>data data' tree. EncodeV1SCTSignedData 100 5 (encode_log_entry (leaf_entry [1])) [] [] = Inr data \<and>
     EncodeV1SCTSignedData 100 5 (encode_log_entry (leaf_entry [2])) [] [] = Inr data' \<and>
     EncodeTreeHeadSignature 100 sample_tree_head [] = Inr tree \<and> data \<noteq> data' \<and> data \<noteq> tree"
proof -
  have entry: "EncodeLogEntry 100 (leaf_entry [b]) [] = Inr (encode_log_entry (leaf_entry [b]))" for b
    using writes_log_entry [of 100 "leaf_entry [b]"]
    by (simp add: writes_def encode_log_entry_def leaf_entry_def loggable_def LogEntry_Reset_def)
  have data: "EncodeV1SCTSignedData 100 5 (encode_log_entry (leaf_entry [b])) [] [] =
      Inr (encode_signed_data 5 (encode_log_entry (leaf_entry [b])) [])" for b
    using writes_signed_data [of "[]" 100 5 "encode_log_entry (leaf_entry [b])"]
    by (simp add: writes_def encode_signed_data_def encode_log_entry_def leaf_entry_def LogEntry_Reset_def del: be_bytes.simps)
  have tree: "EncodeTreeHeadSignature 100 sample_tree_head [] = Inr (encode_tree_head sample_tree_head)"
    using writes_tree_head [of 100 sample_tree_head]
    by (simp add: writes_def encode_tree_head_def sample_tree_head_def del: be_bytes.simps)
  have "wf_Input []" by (simp add: wf_Input_def)
  from signed_bytes_unambiguous [OF entry data entry data tree this this, of 1 2] data tree show ?thesis
    by (auto simp: entry_content_def leaf_entry_def LogEntry_Reset_def)
qed

end
