(* ===== verification/CtExtractor.thy ===== *)
theory CtExtractor
  imports CtSerialization PkixDerTypes PkixTypes
begin

text \<open>
  \<^verbatim>\<open>security/certverifier/CTObjectsExtractor.cpp\<close>: the log entries of a certificate. For a timestamp that
  is embedded in a certificate, the log has signed the certificate without the extension that holds the
  timestamps; the extractor takes the certificate apart, leaves this extension out and writes new headers
  into a buffer of a fixed size. The result is characterised by the encoding of the certificate.
\<close>

section \<open>The output buffer\<close>

text \<open>The size of the buffer, what has been written, and whether something did not fit.\<close>

record Output =
  out_size :: nat
  out_written :: "u8 list"
  out_overflowed :: bool

definition Output_of :: "nat \<Rightarrow> Output" where
  "Output_of len = \<lparr>out_size = len, out_written = [], out_overflowed = False\<rparr>"

definition Output_Write :: "u8 list \<Rightarrow> Output \<Rightarrow> Output" where
  "Output_Write bs out =
     (let available = out_size out - length (out_written out);
          out = (if available < length bs then out\<lparr>out_overflowed := True\<rparr> else out)
      in if out_overflowed out then out else out\<lparr>out_written := out_written out @ bs\<rparr>)"

definition Output_GetInput :: "Output \<Rightarrow> Input res" where
  "Output_GetInput out =
     (if out_overflowed out then Inl FATAL_ERROR_INVALID_STATE else Input_Init None (Some (out_written out)))"

section \<open>The extractor\<close>

definition EMBEDDED_SCT_LIST_OID :: "u8 list" where
  "EMBEDDED_SCT_LIST_OID = [0x2b, 0x06, 0x01, 0x04, 0x01, 0xd6, 0x79, 0x02, 0x04, 0x02]"

definition MAX_TLV_HEADER_LENGTH :: nat where
  "MAX_TLV_HEADER_LENGTH = 4"

definition EXTENSIONS_CONTEXT_TAG :: u8 where
  "EXTENSIONS_CONTEXT_TAG = CONTEXT_SPECIFIC OR CONSTRUCTED OR 3"

text \<open>The overload of \<open>der::ExpectTagAndGetValueAtEnd\<close> for a reader.\<close>

definition ExpectTagAndGetReaderAtEnd :: "Reader \<Rightarrow> u8 \<Rightarrow> Reader res" where
  "ExpectTagAndGetReaderAtEnd outer expectedTag =
     bind_res (ExpectTagAndGetReader outer expectedTag) (\<lambda>(inner, outer). bind_res (End outer) (\<lambda>_. Inr inner))"

definition GetTBSCertificate :: "Input \<Rightarrow> Reader res" where
  "GetTBSCertificate der =
     bind_res (ExpectTagAndGetValueAtEnd der SEQUENCE) (\<lambda>certificateReader.
     bind_res (ExpectTagAndGetReader certificateReader SEQUENCE) (\<lambda>(tbsReader, _). Inr tbsReader))"

function SkipToExtensions :: "Reader \<Rightarrow> Reader res" where
  "SkipToExtensions tbsReader =
     (if AtEnd tbsReader \<or> Peek tbsReader EXTENSIONS_CONTEXT_TAG then Inr tbsReader
      else case ReadTagAndGetValue tbsReader of
        Inl e \<Rightarrow> Inl e
      | Inr (tag, tagValue, tbsReader) \<Rightarrow> SkipToExtensions tbsReader)"
  by pat_completeness auto
termination
  by (relation "measure (\<lambda>r. r_end r - r_input r)") (auto dest: ReadTagAndGetValue_shrinks)

declare SkipToExtensions.simps [simp del]

text \<open>The reader behind the fields, and \<open>mTLVsBeforeExtensions\<close>.\<close>

definition ExtractTLVsBeforeExtensions :: "Reader \<Rightarrow> (Reader \<times> Input) res" where
  "ExtractTLVsBeforeExtensions tbsReader =
     (let tbsBegin = GetMark tbsReader in
      bind_res (SkipToExtensions tbsReader) (\<lambda>tbsReader.
      bind_res (GetInput tbsReader tbsBegin) (\<lambda>tlvs. Inr (tbsReader, tlvs))))"

text \<open>\<open>mExtensionTLVs\<close> has room for sixteen extensions before it needs memory, 16 bytes for each.\<close>

definition AppendExtensionTLV :: "nat \<Rightarrow> Input list \<Rightarrow> Input \<Rightarrow> (Input list) res" where
  "AppendExtensionTLV mem tlvs tlv =
     (if length tlvs \<ge> 16 \<and> 16 * (length tlvs + 1) > mem then Inl FATAL_ERROR_NO_MEMORY else Inr (tlvs @ [tlv]))"

lemma ExpectTagAndGetReader_advances:
  "ExpectTagAndGetReader r t = Inr (s, r') \<Longrightarrow> r_end r' - r_input r' < r_end r - r_input r"
  by (auto simp: ExpectTagAndGetReader_def ExpectTagAndGetValue_def dest: ReadTagAndGetValue_shrinks
      split: sum.splits if_splits)

function ExtensionsExceptSCTs :: "nat \<Rightarrow> Reader \<Rightarrow> Input list \<Rightarrow> (Input list) res" where
  "ExtensionsExceptSCTs mem extensionsReader tlvs =
     (if AtEnd extensionsReader then Inr tlvs
      else
        case ExpectTagAndGetReader extensionsReader SEQUENCE of
          Inl e \<Rightarrow> Inl e
        | Inr (extension, behind) \<Rightarrow>
            (case ExpectTagAndGetReader extension OIDTag of
               Inl e \<Rightarrow> Inl e
             | Inr (extensionID, _) \<Rightarrow>
                 if \<not> fst (MatchRest extensionID EMBEDDED_SCT_LIST_OID) then
                   (case GetInput behind (GetMark extensionsReader) of
                      Inl e \<Rightarrow> Inl e
                    | Inr extensionTLV \<Rightarrow>
                        (case AppendExtensionTLV mem tlvs extensionTLV of
                           Inl e \<Rightarrow> Inl e
                         | Inr tlvs \<Rightarrow> ExtensionsExceptSCTs mem behind tlvs))
                 else ExtensionsExceptSCTs mem behind tlvs))"
  by pat_completeness auto
termination
  by (relation "measure (\<lambda>(_, r, _). r_end r - r_input r)") (auto dest: ExpectTagAndGetReader_advances)

declare ExtensionsExceptSCTs.simps [simp del]

definition ExtractOptionalExtensionsExceptSCTs :: "nat \<Rightarrow> Reader \<Rightarrow> (Input list) res" where
  "ExtractOptionalExtensionsExceptSCTs mem tbsReader =
     (if \<not> Peek tbsReader EXTENSIONS_CONTEXT_TAG then Inr []
      else bind_res (ExpectTagAndGetReaderAtEnd tbsReader EXTENSIONS_CONTEXT_TAG) (\<lambda>extensionsContextReader.
        bind_res (ExpectTagAndGetReaderAtEnd extensionsContextReader SEQUENCE) (\<lambda>extensionsReader.
        ExtensionsExceptSCTs mem extensionsReader [])))"

definition MakeTLVHeader :: "u8 \<Rightarrow> nat \<Rightarrow> Input res" where
  "MakeTLVHeader tag len =
     (let output = Output_Write [tag] (Output_of MAX_TLV_HEADER_LENGTH) in
      if len < 128 then Output_GetInput (Output_Write [of_nat len] output)
      else if len < 256 then Output_GetInput (Output_Write [of_nat len] (Output_Write [0x81] output))
      else if len < 65536 then
        Output_GetInput (Output_Write [of_nat (len mod 256)]
          (Output_Write [of_nat (len div 256)] (Output_Write [0x82] output)))
      else Inl FATAL_ERROR_INVALID_ARGS)"

text \<open>The lengths are computed in the 16 bits of \<open>Input::size_type\<close>.\<close>

definition WriteOutput :: "Input \<Rightarrow> Input list \<Rightarrow> Output \<Rightarrow> Input res" where
  "WriteOutput mTLVsBeforeExtensions mExtensionTLVs mOutput =
     (if mExtensionTLVs \<noteq> [] then
        let extensionsValueLength = foldl (\<lambda>n tlv. n + GetLength tlv) 0 mExtensionTLVs in
        bind_res (MakeTLVHeader SEQUENCE (unat extensionsValueLength)) (\<lambda>extensionsHeader.
        let extensionsContextLength = GetLength extensionsHeader + extensionsValueLength in
        bind_res (MakeTLVHeader EXTENSIONS_CONTEXT_TAG (unat extensionsContextLength)) (\<lambda>extensionsContextHeader.
        let tbsLength = GetLength mTLVsBeforeExtensions + GetLength extensionsContextHeader +
              GetLength extensionsHeader + extensionsValueLength in
        bind_res (MakeTLVHeader SEQUENCE (unat tbsLength)) (\<lambda>tbsHeader.
        let mOutput = Output_Write tbsHeader mOutput;
            mOutput = Output_Write mTLVsBeforeExtensions mOutput;
            mOutput = Output_Write extensionsContextHeader mOutput;
            mOutput = Output_Write extensionsHeader mOutput;
            mOutput = foldl (\<lambda>out tlv. Output_Write tlv out) mOutput mExtensionTLVs
        in Output_GetInput mOutput)))
      else
        bind_res (MakeTLVHeader SEQUENCE (unat (GetLength mTLVsBeforeExtensions))) (\<lambda>tbsHeader.
        Output_GetInput (Output_Write mTLVsBeforeExtensions (Output_Write tbsHeader mOutput))))"

text \<open>\<open>PrecertTBSExtractor::Init\<close> and \<open>GetPrecertTBS\<close>, with the size of the caller's buffer.\<close>

definition PrecertTBS :: "nat \<Rightarrow> Input \<Rightarrow> nat \<Rightarrow> Input res" where
  "PrecertTBS mem der bufferLength =
     bind_res (GetTBSCertificate der) (\<lambda>tbsReader.
     bind_res (ExtractTLVsBeforeExtensions tbsReader) (\<lambda>(tbsReader, tlvsBeforeExtensions).
     bind_res (ExtractOptionalExtensionsExceptSCTs mem tbsReader) (\<lambda>extensionTLVs.
     WriteOutput tlvsBeforeExtensions extensionTLVs (Output_of bufferLength))))"

section \<open>Log entries\<close>

text \<open>What the code needs of the platform: memory, as in theory \<open>CtSerialization\<close>, and the cryptography of
  \<^verbatim>\<open>pkixnss.cpp\<close>. A digest is written to the front of a buffer. \<open>ct_vector\<close> is how many elements a vector of
  timestamps or logs can have.\<close>

record ct_services =
  ct_mem :: nat
  ct_vector :: nat
  ct_digestBuf :: "Input \<Rightarrow> DigestAlgorithm \<Rightarrow> nat \<Rightarrow> (u8 list) res"
  ct_verifyRSA :: "SignedDigest \<Rightarrow> Input \<Rightarrow> unit res"
  ct_verifyECDSA :: "SignedDigest \<Rightarrow> Input \<Rightarrow> unit res"

definition SHA256_LENGTH :: nat where
  "SHA256_LENGTH = 32"

definition GetPrecertLogEntry :: "ct_services \<Rightarrow> Input \<Rightarrow> Input \<Rightarrow> LogEntry res" where
  "GetPrecertLogEntry env leaf issuerSPKI =
     (if length leaf > ct_mem env then Inl FATAL_ERROR_NO_MEMORY
      else bind_res (PrecertTBS (ct_mem env) leaf (unat (GetLength leaf))) (\<lambda>precertTBS.
        if SHA256_LENGTH > ct_mem env then Inl FATAL_ERROR_NO_MEMORY
        else bind_res (ct_digestBuf env issuerSPKI sha256 SHA256_LENGTH) (\<lambda>digest.
          Inr (LogEntry_Reset\<lparr>le_type := Precert, tbsCertificate := precertTBS,
                 issuerKeyHash := take SHA256_LENGTH digest\<rparr>))))"

definition GetX509LogEntry :: "nat \<Rightarrow> Input \<Rightarrow> LogEntry res" where
  "GetX509LogEntry mem leaf =
     bind_res (InputToBuffer mem leaf) (\<lambda>buffer.
     Inr (LogEntry_Reset\<lparr>le_type := X509, leafCertificate := buffer\<rparr>))"

section \<open>Writing\<close>

lemma Output_Write_fits:
  "out_overflowed out \<or> length (out_written out) + length bs \<le> out_size out \<Longrightarrow>
   Output_Write bs out = (if out_overflowed out then out else out\<lparr>out_written := out_written out @ bs\<rparr>)"
  by (auto simp: Output_Write_def Let_def)

lemma MakeTLVHeader_eq: "n < 65536 \<Longrightarrow> MakeTLVHeader t n = Inr (t # encode_length n)"
  by (simp add: MakeTLVHeader_def Let_def Output_Write_def Output_of_def MAX_TLV_HEADER_LENGTH_def Output_GetInput_def
      encode_length_def MAX_INPUT_def)

lemma length_encode_length: "length (encode_length n) = (if n < 128 then 1 else if n < 256 then 2 else 3)"
  by (simp add: encode_length_def)

lemma length_encode_tlv_mono: "length v \<le> length w \<Longrightarrow> length (encode_tlv t v) \<le> length (encode_tlv u w)"
  by (simp add: encode_tlv_def length_encode_length)

section \<open>What is extracted\<close>

text \<open>The fields before the extensions, with tag and value; the content \<open>w\<close> of an extension with the
  identifier \<open>oid\<close>; the encoding of the extensions.\<close>

definition proper_field :: "u8 \<times> Input \<Rightarrow> bool" where
  "proper_field f \<longleftrightarrow> fst f AND 0x1F \<noteq> 0x1F \<and> fst f \<noteq> EXTENSIONS_CONTEXT_TAG \<and> wf_Input (snd f)"

definition encode_fields :: "(u8 \<times> Input) list \<Rightarrow> u8 list" where
  "encode_fields fs = concat (map (\<lambda>(t, v). encode_tlv t v) fs)"

definition extension_content :: "Input \<Rightarrow> Input \<Rightarrow> bool" where
  "extension_content oid w \<longleftrightarrow> wf_Input oid \<and> wf_Input w \<and> (\<exists>rest. w = encode_tlv OIDTag oid @ rest)"

definition encode_contents :: "Input list \<Rightarrow> u8 list" where
  "encode_contents ws = concat (map (encode_tlv SEQUENCE) ws)"

definition encode_extensions :: "Input list \<Rightarrow> u8 list" where
  "encode_extensions ws = encode_tlv EXTENSIONS_CONTEXT_TAG (encode_tlv SEQUENCE (encode_contents ws))"

definition without_scts :: "Input list \<Rightarrow> Input list" where
  "without_scts ws = filter (\<lambda>w. \<not> extension_content EMBEDDED_SCT_LIST_OID w) ws"

lemma EXTENSIONS_low: "EXTENSIONS_CONTEXT_TAG AND 0x1F \<noteq> 0x1F"
  by (simp add: EXTENSIONS_CONTEXT_TAG_def)

lemma extension_content_unique: "extension_content a w \<Longrightarrow> extension_content b w \<Longrightarrow> a = b"
  unfolding extension_content_def using encode_tlv_prefix [of OIDTag a _ OIDTag b] by auto

lemma ReadTagAndGetValue_at:
  assumes "wf_Reader r" and "ReadTagAndGetValue r = Inr (t, v, s)"
  shows "remaining r = encode_tlv t v @ remaining s" "s = advance (length (encode_tlv t v)) r" "wf_Reader s"
    "t AND 0x1F \<noteq> 0x1F" "wf_Input v"
proof -
  have at: "tlv_at r t v s" using assms ReadTagAndGetValue_iff by blast
  show "remaining r = encode_tlv t v @ remaining s" "s = advance (length (encode_tlv t v)) r" "wf_Reader s"
    "t AND 0x1F \<noteq> 0x1F" "wf_Input v"
    using tlv_at_split [OF at] tlv_at_wf [OF at assms(1)] at unfolding tlv_at_def by blast+
qed

text \<open>The fields between two positions of a reader, the second of which is the end or the extensions.\<close>

definition fields_between :: "Reader \<Rightarrow> (u8 \<times> Input) list \<Rightarrow> Reader \<Rightarrow> bool" where
  "fields_between r fs r' \<longleftrightarrow> (\<forall>f \<in> set fs. proper_field f) \<and> remaining r = encode_fields fs @ remaining r' \<and>
     r' = advance (length (encode_fields fs)) r \<and> (remaining r' = [] \<or> Peek r' EXTENSIONS_CONTEXT_TAG)"

lemma encode_fields_simps: "encode_fields [] = []" "encode_fields ((t, v) # fs) = encode_tlv t v @ encode_fields fs"
  by (simp_all add: encode_fields_def)

lemma fields_between_Nil: "fields_between r [] r' \<longleftrightarrow> r' = r \<and> (remaining r = [] \<or> Peek r EXTENSIONS_CONTEXT_TAG)"
  by (auto simp: fields_between_def encode_fields_simps)

lemma fields_between_Cons:
  assumes "wf_Reader r"
  shows "fields_between r ((t, v) # fs) r' \<longleftrightarrow>
    (\<exists>s. ReadTagAndGetValue r = Inr (t, v, s) \<and> t \<noteq> EXTENSIONS_CONTEXT_TAG \<and> fields_between s fs r')"
proof
  assume b: "fields_between r ((t, v) # fs) r'"
  let ?s = "advance (length (encode_tlv t v)) r"
  have all: "remaining r = encode_fields ((t, v) # fs) @ remaining r'" "r' = advance (length (encode_fields ((t, v) # fs))) r"
    "\<forall>f \<in> set ((t, v) # fs). proper_field f"
    using b unfolding fields_between_def by blast+
  have r: "remaining r = encode_tlv t v @ encode_fields fs @ remaining r'"
    using all(1) unfolding encode_fields_simps by simp
  have f: "proper_field (t, v)" "\<forall>f \<in> set fs. proper_field f" using all(3) by simp_all
  have s: "remaining ?s = encode_fields fs @ remaining r'" using r by simp
  have "r' = advance (length (encode_fields fs)) ?s"
    using all(2) by (simp add: encode_fields_simps)
  then have "fields_between ?s fs r'" using b f(2) s unfolding fields_between_def by blast
  moreover have "ReadTagAndGetValue r = Inr (t, v, ?s)"
    unfolding ReadTagAndGetValue_Inr_iff [OF assms] using f(1) r s by (simp add: proper_field_def)
  ultimately show "\<exists>s. ReadTagAndGetValue r = Inr (t, v, s) \<and> t \<noteq> EXTENSIONS_CONTEXT_TAG \<and> fields_between s fs r'"
    using f(1) by (auto simp: proper_field_def)
next
  assume "\<exists>s. ReadTagAndGetValue r = Inr (t, v, s) \<and> t \<noteq> EXTENSIONS_CONTEXT_TAG \<and> fields_between s fs r'"
  then obtain s where rd: "ReadTagAndGetValue r = Inr (t, v, s)" and t: "t \<noteq> EXTENSIONS_CONTEXT_TAG"
    and b: "fields_between s fs r'" by blast
  note at = ReadTagAndGetValue_at [OF assms rd]
  have all: "remaining s = encode_fields fs @ remaining r'" "r' = advance (length (encode_fields fs)) s"
    "\<forall>f \<in> set fs. proper_field f"
    using b unfolding fields_between_def by blast+
  have "\<forall>f \<in> set ((t, v) # fs). proper_field f" using all(3) at(4,5) t by (simp add: proper_field_def)
  moreover have "remaining r = encode_fields ((t, v) # fs) @ remaining r'"
    using at(1) unfolding all(1) encode_fields_simps by simp
  moreover have "r' = advance (length (encode_fields ((t, v) # fs))) r"
    unfolding all(2) at(2) encode_fields_simps by simp
  ultimately show "fields_between r ((t, v) # fs) r'" using b unfolding fields_between_def by blast
qed

lemma SkipToExtensions_iff:
  "wf_Reader r \<Longrightarrow> SkipToExtensions r = Inr r' \<longleftrightarrow> (\<exists>fs. fields_between r fs r')"
proof (induction r rule: SkipToExtensions.induct)
  case (1 r)
  note unfold = SkipToExtensions.simps [of r]
  have wf: "wf_Reader r" using 1(2) .
  show ?case
  proof (cases "AtEnd r \<or> Peek r EXTENSIONS_CONTEXT_TAG")
    case True
    have "\<not> fields_between r (f # fs) r'" for f fs
    proof
      assume "fields_between r (f # fs) r'"
      then obtain s where "ReadTagAndGetValue r = Inr (fst f, snd f, s)" "fst f \<noteq> EXTENSIONS_CONTEXT_TAG"
        using fields_between_Cons [OF wf, of "fst f" "snd f"] by auto
      with ReadTagAndGetValue_at(1) [OF wf this(1)] True wf Peek_encode_tlv [OF wf]
      show False by (auto simp: AtEnd_iff encode_tlv_def)
    qed
    moreover have "fields_between r [] r' \<longleftrightarrow> r' = r" using True wf by (auto simp: fields_between_Nil AtEnd_iff)
    ultimately have "(\<exists>fs. fields_between r fs r') \<longleftrightarrow> r' = r" by (metis list.exhaust)
    then show ?thesis using True by (auto simp: unfold)
  next
    case False
    have step: "(\<exists>fs. fields_between r fs r') \<longleftrightarrow>
        (\<exists>t v s fs. ReadTagAndGetValue r = Inr (t, v, s) \<and> t \<noteq> EXTENSIONS_CONTEXT_TAG \<and> fields_between s fs r')"
    proof -
      have "\<not> fields_between r [] r'" using False wf by (auto simp: fields_between_Nil AtEnd_iff)
      then show ?thesis using fields_between_Cons [OF wf] by (metis list.exhaust prod.exhaust)
    qed
    show ?thesis
    proof (cases "ReadTagAndGetValue r")
      case (Inl e)
      then show ?thesis unfolding step unfold using False by simp
    next
      case (Inr x)
      obtain t v s where x: "x = (t, v, s)" by (cases x)
      note at = ReadTagAndGetValue_at [OF wf Inr [unfolded x]]
      have "t \<noteq> EXTENSIONS_CONTEXT_TAG" using False at(1) Peek_encode_tlv [OF wf] by blast
      then show ?thesis
        unfolding step unfold using False Inr 1(1) [OF False Inr x [symmetric] refl at(3)] by (simp add: x)
    qed
  qed
qed

lemma ExtractTLVsBeforeExtensions_iff:
  assumes "wf_Reader r"
  shows "ExtractTLVsBeforeExtensions r = Inr (r', tlvs) \<longleftrightarrow> (\<exists>fs. fields_between r fs r' \<and> tlvs = encode_fields fs)"
proof -
  have "GetInput r' (GetMark r) = Inr (encode_fields fs)" if b: "fields_between r fs r'" for fs
  proof -
    have r: "remaining r = encode_fields fs @ remaining r'" and r': "r' = advance (length (encode_fields fs)) r"
      using b unfolding fields_between_def by blast+
    have "length (encode_fields fs) \<le> length (remaining r)" by (simp add: r)
    from GetInput_spec [OF assms this] show ?thesis unfolding r' by (simp add: r)
  qed
  then show ?thesis
    unfolding ExtractTLVsBeforeExtensions_def Let_def by (auto simp: bind_res_Inr_iff SkipToExtensions_iff [OF assms])
qed

lemma ExpectTagAndGetReaderAtEnd_iff:
  assumes "wf_Reader r"
  shows "ExpectTagAndGetReaderAtEnd r t = Inr s \<longleftrightarrow>
    t AND 0x1F \<noteq> 0x1F \<and> (\<exists>v. wf_Input v \<and> remaining r = encode_tlv t v \<and> s = Reader_of v)"
proof -
  have e: "tlv_at r t v q \<and> AtEnd q \<longleftrightarrow> t AND 0x1F \<noteq> 0x1F \<and> wf_Input v \<and> remaining r = encode_tlv t v \<and>
      q = advance (length (encode_tlv t v)) r" for v q
  proof -
    have "AtEnd q \<longleftrightarrow> remaining q = []" if "tlv_at r t v q" using tlv_at_wf [OF that assms] by (simp add: AtEnd_iff)
    then show ?thesis by (auto simp: tlv_at_def)
  qed
  have "ExpectTagAndGetReaderAtEnd r t = Inr s \<longleftrightarrow> (\<exists>v q. (tlv_at r t v q \<and> AtEnd q) \<and> s = Reader_of v)"
    by (auto simp: ExpectTagAndGetReaderAtEnd_def End_def bind_res_prod_Inr_iff bind_res_Inr_iff
        ExpectTagAndGetReader_iff [OF assms])
  then show ?thesis unfolding e by blast
qed

lemma GetTBSCertificate_iff:
  assumes "wf_Input der"
  shows "GetTBSCertificate der = Inr r \<longleftrightarrow>
    (\<exists>tbs rest. wf_Input tbs \<and> der = encode_tlv SEQUENCE (encode_tlv SEQUENCE tbs @ rest) \<and> r = Reader_of tbs)"
proof -
  have wf: "wf_Input v" if "der = encode_tlv t v" for t v
    using that assms by (auto simp: wf_Input_def encode_tlv_def)
  have outer: "ExpectTagAndGetValueAtEnd der SEQUENCE = Inr c \<longleftrightarrow>
      (\<exists>v. der = encode_tlv SEQUENCE v \<and> c = Reader_of v)" for c
    using ExpectTagAndGetReaderAtEnd_iff [of "Reader_of der" SEQUENCE c] assms wf
    unfolding ExpectTagAndGetReaderAtEnd_def ExpectTagAndGetValueAtEnd_def bind_res_def by auto
  have inner: "(\<exists>q. tlv_at (Reader_of v) SEQUENCE tbs q) \<longleftrightarrow>
      wf_Input tbs \<and> (\<exists>rest. v = encode_tlv SEQUENCE tbs @ rest)" if "der = encode_tlv SEQUENCE v" for v tbs
    using wf [OF that] by (auto simp: tlv_at_def)
  have "GetTBSCertificate der = Inr r \<longleftrightarrow>
      (\<exists>v. der = encode_tlv SEQUENCE v \<and> (\<exists>q. ExpectTagAndGetReader (Reader_of v) SEQUENCE = Inr (r, q)))"
    unfolding GetTBSCertificate_def bind_res_Inr_iff outer by auto
  also have "\<dots> \<longleftrightarrow> (\<exists>v tbs. der = encode_tlv SEQUENCE v \<and> (\<exists>q. tlv_at (Reader_of v) SEQUENCE tbs q) \<and> r = Reader_of tbs)"
    using ExpectTagAndGetReader_iff [OF wf_Reader_of [OF wf]] by blast
  also have "\<dots> \<longleftrightarrow> (\<exists>tbs rest. wf_Input tbs \<and> der = encode_tlv SEQUENCE (encode_tlv SEQUENCE tbs @ rest) \<and> r = Reader_of tbs)"
    using inner by (simp cong: conj_cong) blast
  finally show ?thesis .
qed

text \<open>The contents of the extensions in a reader, each with an identifier.\<close>

definition contents_of :: "Reader \<Rightarrow> Input list \<Rightarrow> bool" where
  "contents_of r ws \<longleftrightarrow> remaining r = encode_contents ws \<and> (\<forall>w \<in> set ws. \<exists>oid. extension_content oid w)"

lemma contents_of_Cons:
  assumes "wf_Reader r"
  shows "contents_of r (w # ws) \<longleftrightarrow> (\<exists>q. tlv_at r SEQUENCE w q \<and> (\<exists>oid. extension_content oid w) \<and> contents_of q ws)"
  by (auto simp: contents_of_def encode_contents_def tlv_at_def extension_content_def)

lemma ExtensionID_iff:
  assumes "wf_Input w"
  shows "(\<exists>q. ExpectTagAndGetReader (Reader_of w) OIDTag = Inr (s, q)) \<longleftrightarrow>
    (\<exists>oid. extension_content oid w \<and> s = Reader_of oid)"
  unfolding ExpectTagAndGetReader_iff [OF wf_Reader_of [OF assms]]
  using assms by (auto simp: extension_content_def tlv_at_def)

lemma is_SCT_list:
  assumes "extension_content oid w"
  shows "fst (MatchRest (Reader_of oid) EMBEDDED_SCT_LIST_OID) \<longleftrightarrow> extension_content EMBEDDED_SCT_LIST_OID w"
  using assms extension_content_unique [OF assms]
  by (auto simp: extension_content_def)

lemma GetInput_tlv:
  assumes "wf_Reader r" and at: "tlv_at r t v q"
  shows "GetInput q (GetMark r) = Inr (encode_tlv t v)"
proof -
  obtain rest where rest: "remaining r = encode_tlv t v @ rest" and q: "q = advance (length (encode_tlv t v)) r"
    using at by (auto simp: tlv_at_def)
  have "length (encode_tlv t v) \<le> length (remaining r)" by (simp add: rest)
  from GetInput_spec [OF assms(1) this] show ?thesis unfolding q by (simp add: rest)
qed

definition kept_tlvs :: "Input list \<Rightarrow> Input list" where
  "kept_tlvs ws = map (encode_tlv SEQUENCE) (without_scts ws)"

lemma kept_tlvs_Cons:
  "kept_tlvs (w # ws) =
     (if extension_content EMBEDDED_SCT_LIST_OID w then kept_tlvs ws else encode_tlv SEQUENCE w # kept_tlvs ws)"
  by (simp add: kept_tlvs_def without_scts_def)

lemma ExtensionsExceptSCTs_iff:
  "wf_Reader r \<Longrightarrow> length tlvs + length (remaining r) < 65536 \<Longrightarrow> 1048576 \<le> mem \<Longrightarrow>
   ExtensionsExceptSCTs mem r tlvs = Inr out \<longleftrightarrow> (\<exists>ws. contents_of r ws \<and> out = tlvs @ kept_tlvs ws)"
proof (induction mem r tlvs rule: ExtensionsExceptSCTs.induct)
  case (1 mem r tlvs)
  note unfold = ExtensionsExceptSCTs.simps [of mem r tlvs]
  have wf: "wf_Reader r" using 1(3) .
  show ?case
  proof (cases "AtEnd r")
    case True
    then have "contents_of r ws \<longleftrightarrow> ws = []" for ws
      using wf by (cases ws) (auto simp: contents_of_def encode_contents_def AtEnd_iff encode_tlv_def)
    then show ?thesis using True by (auto simp: unfold kept_tlvs_def without_scts_def)
  next
    case False
    have cons: "(\<exists>ws. contents_of r ws \<and> P ws) \<longleftrightarrow>
        (\<exists>w q ws. tlv_at r SEQUENCE w q \<and> (\<exists>oid. extension_content oid w) \<and> contents_of q ws \<and> P (w # ws))" for P
    proof -
      have "\<not> contents_of r []" using False wf by (auto simp: contents_of_def encode_contents_def AtEnd_iff)
      then have "(\<exists>ws. contents_of r ws \<and> P ws) \<longleftrightarrow> (\<exists>w ws. contents_of r (w # ws) \<and> P (w # ws))"
        by (metis list.exhaust)
      then show ?thesis unfolding contents_of_Cons [OF wf] by blast
    qed
    show ?thesis
    proof (cases "ExpectTagAndGetReader r SEQUENCE")
      case (Inl e)
      then have "\<not> tlv_at r SEQUENCE w q" for w q
        using ExpectTagAndGetReader_iff [OF wf, of SEQUENCE "Reader_of w" q] by auto
      with Inl False show ?thesis unfolding cons unfold by simp
    next
      case (Inr x)
      obtain ext q where x: "x = (ext, q)" by (cases x)
      then obtain w where at: "tlv_at r SEQUENCE w q" and ext: "ext = Reader_of w"
        using Inr ExpectTagAndGetReader_iff [OF wf] by blast
      have wfq: "wf_Reader q" and wfw: "wf_Input w" using tlv_at_wf [OF at wf] by auto
      have unique: "w' = w \<and> q' = q" if "tlv_at r SEQUENCE w' q'" for w' q'
        using that at ReadTagAndGetValue_iff [OF wf] by (metis Inr_inject prod.inject)
      have len: "length tlvs + 1 + length (remaining q) < 65536"
        using 1(4) tlv_at_split [OF at] by (simp add: encode_tlv_def)
      have rest: "(\<exists>ws. contents_of r ws \<and> P ws) \<longleftrightarrow>
          (\<exists>oid. extension_content oid w) \<and> (\<exists>ws. contents_of q ws \<and> P (w # ws))" for P
        unfolding cons using at unique by blast
      show ?thesis
      proof (cases "ExpectTagAndGetReader ext OIDTag")
        case (Inl e)
        then have "\<not> (\<exists>oid. extension_content oid w)" using ExtensionID_iff [OF wfw] ext by fastforce
        with Inl False Inr show ?thesis unfolding rest unfold by (simp add: x)
      next
        case id: (Inr y)
        obtain i p where y: "y = (i, p)" by (cases y)
        then obtain oid where oid: "extension_content oid w" "i = Reader_of oid"
          using id ext ExtensionID_iff [OF wfw, of i] by blast
        note is_scts = is_SCT_list [OF oid(1)]
        show ?thesis
        proof (cases "extension_content EMBEDDED_SCT_LIST_OID w")
          case True
          then have "ExtensionsExceptSCTs mem q tlvs = Inr out \<longleftrightarrow> (\<exists>ws. contents_of q ws \<and> out = tlvs @ kept_tlvs ws)"
            using 1(2) [OF False Inr x [symmetric] id y [symmetric] _ wfq _ 1(5)] is_scts oid(2) len by simp
          then show ?thesis
            unfolding rest unfold using False Inr id True is_scts oid by (auto simp: x y kept_tlvs_Cons)
        next
          case other: False
          let ?tlvs = "tlvs @ [encode_tlv SEQUENCE w]"
          have app: "AppendExtensionTLV mem tlvs (encode_tlv SEQUENCE w) = Inr ?tlvs"
            using len 1(5) by (simp add: AppendExtensionTLV_def)
          have in_tlv: "GetInput q (GetMark r) = Inr (encode_tlv SEQUENCE w)" using GetInput_tlv [OF wf at] .
          have "ExtensionsExceptSCTs mem q ?tlvs = Inr out \<longleftrightarrow> (\<exists>ws. contents_of q ws \<and> out = ?tlvs @ kept_tlvs ws)"
            using 1(1) [OF False Inr x [symmetric] id y [symmetric] _ in_tlv app wfq _ 1(5)] is_scts oid(2) len other
            by simp
          then show ?thesis
            unfolding rest unfold using False Inr id other is_scts oid in_tlv app by (auto simp: x y kept_tlvs_Cons)
        qed
      qed
    qed
  qed
qed

lemma ExtractOptionalExtensions_iff:
  assumes wf: "wf_Reader r" and mem: "1048576 \<le> mem" and "remaining r = [] \<or> Peek r EXTENSIONS_CONTEXT_TAG"
  shows "ExtractOptionalExtensionsExceptSCTs mem r = Inr tlvs \<longleftrightarrow>
    remaining r = [] \<and> tlvs = [] \<or>
    (\<exists>ws. remaining r = encode_extensions ws \<and> (\<forall>w \<in> set ws. \<exists>oid. extension_content oid w) \<and> tlvs = kept_tlvs ws)"
proof (cases "remaining r = []")
  case True
  then have "\<not> Peek r EXTENSIONS_CONTEXT_TAG" using wf by (simp add: Peek_iff)
  moreover have "[] \<noteq> encode_extensions ws" for ws by (simp add: encode_extensions_def encode_tlv_def)
  ultimately show ?thesis using True by (auto simp: ExtractOptionalExtensionsExceptSCTs_def)
next
  case False
  have inside: "ExtensionsExceptSCTs mem (Reader_of v) [] = Inr tlvs \<longleftrightarrow>
      (\<exists>ws. v = encode_contents ws \<and> (\<forall>w \<in> set ws. \<exists>oid. extension_content oid w) \<and> tlvs = kept_tlvs ws)"
    if "wf_Input v" for v
    using ExtensionsExceptSCTs_iff [of "Reader_of v" "[]" mem tlvs] that mem
    by (simp add: wf_Input_def MAX_INPUT_def contents_of_def)
  have wf_value: "wf_Input v" if "remaining r = encode_tlv t v" for t v
    using length_remaining_le [OF wf] that by (simp add: wf_Input_def encode_tlv_def)
  have wf_content: "wf_Input u" if "remaining r = encode_tlv t (encode_tlv t' u)" for t t' u
    using wf_value [OF that] by (simp add: wf_Input_def encode_tlv_def)
  have "ExtractOptionalExtensionsExceptSCTs mem r = Inr tlvs \<longleftrightarrow>
      (\<exists>v. wf_Input v \<and> remaining r = encode_tlv EXTENSIONS_CONTEXT_TAG v \<and>
         (\<exists>s. ExpectTagAndGetReaderAtEnd (Reader_of v) SEQUENCE = Inr s \<and> ExtensionsExceptSCTs mem s [] = Inr tlvs))"
    unfolding ExtractOptionalExtensionsExceptSCTs_def
    using False assms(3) EXTENSIONS_low by (auto simp: bind_res_Inr_iff ExpectTagAndGetReaderAtEnd_iff [OF wf])
  also have "\<dots> \<longleftrightarrow> (\<exists>v u. wf_Input v \<and> remaining r = encode_tlv EXTENSIONS_CONTEXT_TAG v \<and> wf_Input u \<and>
         v = encode_tlv SEQUENCE u \<and> ExtensionsExceptSCTs mem (Reader_of u) [] = Inr tlvs)"
    by (auto simp: ExpectTagAndGetReaderAtEnd_iff cong: conj_cong)
  also have "\<dots> \<longleftrightarrow> (\<exists>u. remaining r = encode_tlv EXTENSIONS_CONTEXT_TAG (encode_tlv SEQUENCE u) \<and>
         ExtensionsExceptSCTs mem (Reader_of u) [] = Inr tlvs)"
    using wf_value wf_content by blast
  also have "\<dots> \<longleftrightarrow> (\<exists>ws. remaining r = encode_extensions ws \<and> (\<forall>w \<in> set ws. \<exists>oid. extension_content oid w) \<and>
      tlvs = kept_tlvs ws)"
    using inside wf_content unfolding encode_extensions_def by blast
  finally show ?thesis using False by simp
qed

text \<open>The certificate without the extensions that are left out; \<open>[3]\<close> is left out as well if it is empty.\<close>

definition rebuilt_tbs :: "u8 list \<Rightarrow> Input list \<Rightarrow> u8 list" where
  "rebuilt_tbs before tlvs =
     encode_tlv SEQUENCE (before @ (if tlvs = [] then []
       else encode_tlv EXTENSIONS_CONTEXT_TAG (encode_tlv SEQUENCE (concat tlvs))))"

lemma foldl_GetLength: "foldl (\<lambda>n tlv. n + GetLength tlv) a tlvs = a + of_nat (length (concat tlvs))"
  by (induction tlvs arbitrary: a) (simp_all add: GetLength_def algebra_simps)

definition written :: "nat \<Rightarrow> u8 list \<Rightarrow> Output" where
  "written n bs = \<lparr>out_size = n, out_written = bs, out_overflowed = False\<rparr>"

lemma Output_Write_written: "length bs + length cs \<le> n \<Longrightarrow> Output_Write cs (written n bs) = written n (bs @ cs)"
  by (simp add: Output_Write_def written_def Let_def)

lemma foldl_Output_Write:
  "length bs + length (concat tlvs) \<le> n \<Longrightarrow>
   foldl (\<lambda>out tlv. Output_Write tlv out) (written n bs) tlvs = written n (bs @ concat tlvs)"
  by (induction tlvs arbitrary: bs) (simp_all add: Output_Write_written)

lemma WriteOutput_eq:
  assumes "length (rebuilt_tbs before tlvs) \<le> n" and "n \<le> MAX_INPUT"
  shows "WriteOutput before tlvs (Output_of n) = Inr (rebuilt_tbs before tlvs)"
proof -
  have out: "Output_of n = written n []" by (simp add: Output_of_def written_def)
  have get: "Output_GetInput (written n bs) = Inr bs" if "length bs \<le> n" for bs
    using that assms(2) by (simp add: Output_GetInput_def written_def)
  have u: "unat (of_nat k :: u16) = k" if "k \<le> n" for k
    using that assms(2) by (simp add: unat_of_nat_u16 MAX_INPUT_def)
  have header: "MakeTLVHeader t k = Inr (t # encode_length k)" if "k \<le> n" for t k
    using that assms(2) by (intro MakeTLVHeader_eq) (simp add: MAX_INPUT_def)
  show ?thesis
  proof (cases "tlvs = []")
    case True
    then have len: "length before + length (encode_length (length before)) + 1 \<le> n"
      using assms(1) by (simp add: rebuilt_tbs_def encode_tlv_def)
    have "unat (GetLength before) = length before" using u len by (simp add: GetLength_def)
    then show ?thesis
      using True len header [of "length before"]
      by (simp add: WriteOutput_def out Output_Write_written get rebuilt_tbs_def encode_tlv_def)
  next
    case False
    let ?c = "concat tlvs"
    let ?eh = "SEQUENCE # encode_length (length ?c)"
    let ?ch = "EXTENSIONS_CONTEXT_TAG # encode_length (length ?eh + length ?c)"
    let ?body = "before @ ?ch @ ?eh @ ?c"
    let ?th = "SEQUENCE # encode_length (length ?body)"
    have result: "rebuilt_tbs before tlvs = ?th @ ?body"
      using False by (simp add: rebuilt_tbs_def encode_tlv_def)
    then have len: "length ?th + length ?body \<le> n" using assms(1) by simp
    have e: "foldl (\<lambda>n tlv. n + GetLength tlv) 0 tlvs = of_nat (length ?c)" by (simp add: foldl_GetLength)
    have sum: "unat (foldl (\<lambda>n tlv. n + GetLength tlv) 0 tlvs) = length ?c"
      unfolding e using u len by simp
    have context_len: "unat (GetLength ?eh + foldl (\<lambda>n tlv. n + GetLength tlv) 0 tlvs) = length ?eh + length ?c"
      unfolding e unfolding GetLength_def of_nat_add [symmetric] by (rule u) (use len in simp)
    have tbs_len: "unat (GetLength before + GetLength ?ch + GetLength ?eh + foldl (\<lambda>n tlv. n + GetLength tlv) 0 tlvs) =
        length ?body"
      unfolding e unfolding GetLength_def of_nat_add [symmetric] using u [of "length ?body"] len
      by (simp add: algebra_simps)
    have h: "MakeTLVHeader SEQUENCE (length ?c) = Inr ?eh"
      "MakeTLVHeader EXTENSIONS_CONTEXT_TAG (length ?eh + length ?c) = Inr ?ch"
      "MakeTLVHeader SEQUENCE (length ?body) = Inr ?th"
      using len by (intro header; simp)+
    have writes: "Output_GetInput (foldl (\<lambda>out tlv. Output_Write tlv out)
        (Output_Write ?eh (Output_Write ?ch (Output_Write before (Output_Write ?th (written n []))))) tlvs) =
        Inr (?th @ ?body)"
      using len by (simp add: Output_Write_written foldl_Output_Write get del: append_Cons)
    have "WriteOutput before tlvs (Output_of n) = Inr (?th @ ?body)"
      using False writes unfolding WriteOutput_def Let_def sum h(1) bind_res_simps context_len h(2) tbs_len h(3) out
      by simp
    then show ?thesis unfolding result .
  qed
qed

section \<open>The certificate as it was logged\<close>

text \<open>The parts of a certificate: the fields before the extensions, the contents of the extensions if there
  are any, and what follows the signed part.\<close>

definition certificate_parts :: "Input \<Rightarrow> (u8 \<times> Input) list \<Rightarrow> Input list option \<Rightarrow> u8 list \<Rightarrow> bool" where
  "certificate_parts der fs exts rest \<longleftrightarrow>
     (\<forall>f \<in> set fs. proper_field f) \<and>
     (case exts of None \<Rightarrow> True | Some ws \<Rightarrow> \<forall>w \<in> set ws. \<exists>oid. extension_content oid w) \<and>
     der = encode_tlv SEQUENCE (encode_tlv SEQUENCE (encode_fields fs @
       (case exts of None \<Rightarrow> [] | Some ws \<Rightarrow> encode_extensions ws)) @ rest)"

definition logged_tbs :: "(u8 \<times> Input) list \<Rightarrow> Input list option \<Rightarrow> u8 list" where
  "logged_tbs fs exts = rebuilt_tbs (encode_fields fs) (case exts of None \<Rightarrow> [] | Some ws \<Rightarrow> kept_tlvs ws)"

lemma length_kept: "length (concat (kept_tlvs ws)) \<le> length (encode_contents ws)"
  by (induction ws) (auto simp: kept_tlvs_def without_scts_def encode_contents_def)

lemma logged_tbs_fits:
  assumes "certificate_parts der fs exts rest"
  shows "length (logged_tbs fs exts) \<le> length der"
proof -
  let ?old = "encode_fields fs @ (case exts of None \<Rightarrow> [] | Some ws \<Rightarrow> encode_extensions ws)"
  have "length (logged_tbs fs exts) \<le> length (encode_tlv SEQUENCE ?old)"
  proof (cases exts)
    case None
    then show ?thesis by (simp add: logged_tbs_def rebuilt_tbs_def)
  next
    case (Some ws)
    have "length (encode_tlv SEQUENCE (concat (kept_tlvs ws))) \<le> length (encode_tlv SEQUENCE (encode_contents ws))"
      by (rule length_encode_tlv_mono [OF length_kept])
    then have "length (encode_tlv EXTENSIONS_CONTEXT_TAG (encode_tlv SEQUENCE (concat (kept_tlvs ws)))) \<le>
        length (encode_extensions ws)"
      unfolding encode_extensions_def by (rule length_encode_tlv_mono)
    then show ?thesis
      unfolding logged_tbs_def rebuilt_tbs_def Some by (intro length_encode_tlv_mono) auto
  qed
  also have "\<dots> \<le> length der" using assms by (simp add: certificate_parts_def encode_tlv_def)
  finally show ?thesis .
qed

lemma PrecertTBS_iff:
  assumes wf: "wf_Input der" and mem: "1048576 \<le> mem"
  shows "PrecertTBS mem der (length der) = Inr tbs \<longleftrightarrow>
    (\<exists>fs exts rest. certificate_parts der fs exts rest \<and> tbs = logged_tbs fs exts)"
proof
  assume "PrecertTBS mem der (length der) = Inr tbs"
  then obtain r r' before tlvs where r: "GetTBSCertificate der = Inr r"
    and b: "ExtractTLVsBeforeExtensions r = Inr (r', before)"
    and e: "ExtractOptionalExtensionsExceptSCTs mem r' = Inr tlvs"
    and w: "WriteOutput before tlvs (Output_of (length der)) = Inr tbs"
    by (auto simp: PrecertTBS_def bind_res_Inr_iff)
  obtain tbs0 rest where t: "wf_Input tbs0" "der = encode_tlv SEQUENCE (encode_tlv SEQUENCE tbs0 @ rest)" "r = Reader_of tbs0"
    using r GetTBSCertificate_iff [OF wf] by blast
  have wfr: "wf_Reader r" using t by simp
  obtain fs where f: "fields_between r fs r'" "before = encode_fields fs"
    using b ExtractTLVsBeforeExtensions_iff [OF wfr] by blast
  have fs: "\<forall>f \<in> set fs. proper_field f" "remaining r = encode_fields fs @ remaining r'"
    "r' = advance (length (encode_fields fs)) r" "remaining r' = [] \<or> Peek r' EXTENSIONS_CONTEXT_TAG"
    using f(1) unfolding fields_between_def by blast+
  have wf': "wf_Reader r'" unfolding fs(3) using wfr by (rule wf_advance) (simp add: fs(2))
  have tbs0: "tbs0 = encode_fields fs @ remaining r'" using fs(2) t(1,3) by simp
  obtain exts where x: "certificate_parts der fs exts rest" "tlvs = (case exts of None \<Rightarrow> [] | Some ws \<Rightarrow> kept_tlvs ws)"
  proof -
    consider "remaining r' = []" "tlvs = []"
      | ws where "remaining r' = encode_extensions ws" "\<forall>w \<in> set ws. \<exists>oid. extension_content oid w" "tlvs = kept_tlvs ws"
      using e ExtractOptionalExtensions_iff [OF wf' mem fs(4)] by blast
    then show ?thesis
    proof cases
      case 1
      then have "certificate_parts der fs None rest" using fs(1) t(2) tbs0 by (simp add: certificate_parts_def)
      then show ?thesis using that 1(2) by simp
    next
      case 2
      then have "certificate_parts der fs (Some ws) rest" using fs(1) t(2) tbs0 by (simp add: certificate_parts_def)
      then show ?thesis using that 2(3) by simp
    qed
  qed
  have "length (rebuilt_tbs before tlvs) \<le> length der"
    using logged_tbs_fits [OF x(1)] by (simp add: logged_tbs_def x(2) f(2))
  from WriteOutput_eq [OF this] wf w have "tbs = rebuilt_tbs before tlvs" by (simp add: wf_Input_def)
  then show "\<exists>fs exts rest. certificate_parts der fs exts rest \<and> tbs = logged_tbs fs exts"
    using x by (auto simp: logged_tbs_def f(2))
next
  assume "\<exists>fs exts rest. certificate_parts der fs exts rest \<and> tbs = logged_tbs fs exts"
  then obtain fs exts rest where p: "certificate_parts der fs exts rest" and tbs: "tbs = logged_tbs fs exts" by blast
  let ?x = "case exts of None \<Rightarrow> [] | Some ws \<Rightarrow> encode_extensions ws"
  let ?tlvs = "case exts of None \<Rightarrow> [] | Some ws \<Rightarrow> kept_tlvs ws"
  let ?tbs0 = "encode_fields fs @ ?x"
  have der: "der = encode_tlv SEQUENCE (encode_tlv SEQUENCE ?tbs0 @ rest)"
    and proper: "\<forall>f \<in> set fs. proper_field f" using p unfolding certificate_parts_def by blast+
  have wf0: "wf_Input ?tbs0" using wf der by (simp add: wf_Input_def encode_tlv_def)
  let ?r = "Reader_of ?tbs0"
  let ?r' = "advance (length (encode_fields fs)) ?r"
  have r': "remaining ?r' = ?x" "wf_Reader ?r'" using wf0 by simp_all
  have at_x: "remaining ?r' = [] \<or> Peek ?r' EXTENSIONS_CONTEXT_TAG"
  proof (cases exts)
    case (Some ws)
    then have "remaining ?r' = encode_tlv EXTENSIONS_CONTEXT_TAG (encode_tlv SEQUENCE (encode_contents ws)) @ []"
      using r'(1) by (simp add: encode_extensions_def)
    from Peek_encode_tlv [OF r'(2) this] show ?thesis by simp
  qed (use r' in simp)
  have 1: "GetTBSCertificate der = Inr ?r" using GetTBSCertificate_iff [OF wf] wf0 der by blast
  have "fields_between ?r fs ?r'"
    unfolding fields_between_def using proper at_x wf0 r'(1) by simp
  then have 2: "ExtractTLVsBeforeExtensions ?r = Inr (?r', encode_fields fs)"
    using ExtractTLVsBeforeExtensions_iff [OF wf_Reader_of [OF wf0]] by blast
  have 3: "ExtractOptionalExtensionsExceptSCTs mem ?r' = Inr ?tlvs"
    using p r'(1) unfolding ExtractOptionalExtensions_iff [OF r'(2) mem at_x]
    by (cases exts) (auto simp: certificate_parts_def)
  have "length (rebuilt_tbs (encode_fields fs) ?tlvs) \<le> length der"
    using logged_tbs_fits [OF p] by (simp add: logged_tbs_def)
  from WriteOutput_eq [OF this] wf 1 2 3 show "PrecertTBS mem der (length der) = Inr tbs"
    by (simp add: PrecertTBS_def tbs logged_tbs_def wf_Input_def)
qed

lemma GetPrecertLogEntry_iff:
  assumes "wf_Input der" and "1048576 \<le> ct_mem env"
    and "ct_digestBuf env spki sha256 SHA256_LENGTH = Inr digest" and "length digest = 32"
  shows "GetPrecertLogEntry env der spki = Inr entry \<longleftrightarrow>
    (\<exists>fs exts rest. certificate_parts der fs exts rest \<and>
       entry = \<lparr>le_type = Precert, leafCertificate = [], issuerKeyHash = digest, tbsCertificate = logged_tbs fs exts\<rparr>)"
proof -
  have small: "length der \<le> ct_mem env" "SHA256_LENGTH \<le> ct_mem env"
    using assms(1,2) by (simp_all add: wf_Input_def MAX_INPUT_def SHA256_LENGTH_def)
  have "GetPrecertLogEntry env der spki = Inr entry \<longleftrightarrow>
      (\<exists>tbs. PrecertTBS (ct_mem env) der (length der) = Inr tbs \<and>
         entry = \<lparr>le_type = Precert, leafCertificate = [], issuerKeyHash = digest, tbsCertificate = tbs\<rparr>)"
    using small assms(1,3,4) by (auto simp: GetPrecertLogEntry_def LogEntry_Reset_def bind_res_Inr_iff SHA256_LENGTH_def)
  then show ?thesis unfolding PrecertTBS_iff [OF assms(1,2)] by blast
qed

text \<open>So a certificate yields the entry of the precertificate that was logged before the timestamps were
  added to it, whatever its signature.\<close>

lemma GetPrecertLogEntry_precertificate:
  assumes "wf_Input der" and "wf_Input pre" and "1048576 \<le> ct_mem env"
    and "ct_digestBuf env spki sha256 SHA256_LENGTH = Inr digest" and "length digest = 32"
    and "certificate_parts der fs (Some (as @ w # bs)) rest" and "certificate_parts pre fs (Some (as @ bs)) rest'"
    and "extension_content EMBEDDED_SCT_LIST_OID w"
  shows "GetPrecertLogEntry env der spki = GetPrecertLogEntry env pre spki"
proof -
  have "logged_tbs fs (Some (as @ w # bs)) = logged_tbs fs (Some (as @ bs))"
    using assms(8) by (simp add: logged_tbs_def kept_tlvs_def without_scts_def)
  then show ?thesis
    using GetPrecertLogEntry_iff [OF assms(1,3-5)] GetPrecertLogEntry_iff [OF assms(2,3-5)] assms(6,7) by metis
qed

section \<open>Samples\<close>

text \<open>A certificate with two extensions, the first of which holds timestamps.\<close>

definition sct_extension :: "u8 list" where
  "sct_extension = encode_tlv OIDTag EMBEDDED_SCT_LIST_OID @ [0x04, 0x00]"

definition other_extension :: "u8 list" where
  "other_extension = encode_tlv OIDTag [0x55, 0x1D, 0x0F] @ [0x04, 0x00]"

definition sample_certificate :: "u8 list" where
  "sample_certificate = encode_tlv SEQUENCE (encode_tlv SEQUENCE (encode_fields [(INTEGER, [1])] @
     encode_extensions [sct_extension, other_extension]) @ encode_tlv BIT_STRING [0])"

definition sample_ct_services :: ct_services where
  "sample_ct_services = \<lparr>ct_mem = 1048576, ct_vector = 1000, ct_digestBuf = (\<lambda>i a n. Inr (replicate n (of_nat (length i)))),
     ct_verifyRSA = (\<lambda>d k. Inr ()), ct_verifyECDSA = (\<lambda>d k. Inr ())\<rparr>"

lemma sample_contents:
  "extension_content EMBEDDED_SCT_LIST_OID sct_extension" "extension_content [0x55, 0x1D, 0x0F] other_extension"
  by (auto simp: extension_content_def sct_extension_def other_extension_def wf_Input_def MAX_INPUT_def
      EMBEDDED_SCT_LIST_OID_def encode_tlv_def encode_length_def)

lemma sample_parts:
  "certificate_parts sample_certificate [(INTEGER, [1])] (Some [sct_extension, other_extension]) (encode_tlv BIT_STRING [0])"
  using sample_contents
  by (auto simp: certificate_parts_def proper_field_def sample_certificate_def EXTENSIONS_CONTEXT_TAG_def wf_Input_def
      MAX_INPUT_def)

lemma sample_certificate_wf: "wf_Input sample_certificate"
  by (simp add: sample_certificate_def sct_extension_def other_extension_def encode_fields_def encode_extensions_def
      encode_contents_def encode_tlv_def encode_length_def EMBEDDED_SCT_LIST_OID_def wf_Input_def MAX_INPUT_def)

section \<open>Properties\<close>

text \<open>C11: The certificate as it was logged. \<open>GetPrecertLogEntry\<close> succeeds exactly for the encodings of a
  certificate whose fields and extensions can be told apart, and then its entry is the certificate's signed
  part without the extensions that hold timestamps, as it would have been encoded without them (and without
  \<open>[3]\<close> if there are no others). No length wraps around, and the result always fits the buffer, which is as
  large as the certificate.\<close>

theorem GetPrecertLogEntry_strips:
  assumes "wf_Input der" and "1048576 \<le> ct_mem env"
    and "ct_digestBuf env spki sha256 SHA256_LENGTH = Inr digest" and "length digest = 32"
  shows "GetPrecertLogEntry env der spki = Inr entry \<longleftrightarrow>
    (\<exists>fs exts rest. certificate_parts der fs exts rest \<and> length (logged_tbs fs exts) \<le> length der \<and>
       entry = \<lparr>le_type = Precert, leafCertificate = [], issuerKeyHash = digest, tbsCertificate = logged_tbs fs exts\<rparr>)"
  unfolding GetPrecertLogEntry_iff [OF assms] using logged_tbs_fits by blast

theorem GetPrecertLogEntry_strips_witness:
  "\<exists>entry. GetPrecertLogEntry sample_ct_services sample_certificate [1, 2, 3] = Inr entry \<and>
     tbsCertificate entry =
       encode_tlv SEQUENCE (encode_tlv INTEGER [1] @ encode_extensions [other_extension]) \<and>
     issuerKeyHash entry = replicate 32 3"
proof -
  have d: "ct_digestBuf sample_ct_services [1, 2, 3] sha256 SHA256_LENGTH = Inr (replicate 32 3)"
    and m: "1048576 \<le> ct_mem sample_ct_services" and l: "length (replicate 32 (3 :: u8)) = 32"
    by (simp_all add: sample_ct_services_def SHA256_LENGTH_def)
  have "\<not> extension_content EMBEDDED_SCT_LIST_OID other_extension"
    using extension_content_unique [OF sample_contents(2)] by (auto simp: EMBEDDED_SCT_LIST_OID_def)
  then have "logged_tbs [(INTEGER, [1])] (Some [sct_extension, other_extension]) =
      encode_tlv SEQUENCE (encode_tlv INTEGER [1] @ encode_extensions [other_extension])"
    using sample_contents(1)
    by (simp add: logged_tbs_def rebuilt_tbs_def kept_tlvs_def without_scts_def encode_fields_def encode_extensions_def
        encode_contents_def)
  with sample_parts logged_tbs_fits [OF sample_parts] show ?thesis
    unfolding GetPrecertLogEntry_strips [OF sample_certificate_wf m d l] by fastforce
qed

end
