(* ===== verification/CtVerifier.thy ===== *)
theory CtVerifier
  imports CtEncoding CtExtractor PkixCheck
begin

text \<open>
  \<^verbatim>\<open>security/certverifier/CTLogVerifier.cpp\<close>, \<^verbatim>\<open>MultiLogCTVerifier.cpp\<close> and \<^verbatim>\<open>CTVerifyResult.cpp\<close>: the
  verification of the timestamps of a certificate with the keys of the known logs. The state is the list of
  logs, which verification does not change, and the result that it fills.
\<close>

section \<open>The key of a log\<close>

text \<open>The trust domain that \<open>Init\<close> uses to look at a key: every other method fails. It records which of the two
  methods was called; since they do not depend on it, the record is computed by \<open>RecordedAlgorithm\<close>: if the
  key is accepted even when the method for ECDSA fails, it was the one for RSA that was called.\<close>

definition SignatureParamsTrustDomain :: TrustDomain where
  "SignatureParamsTrustDomain =
     \<lparr>GetCertTrust = (\<lambda>_ _ _. (Inl FATAL_ERROR_LIBRARY_FAILURE, InheritsTrust)),
      FindIssuer = (\<lambda>_ _. ([], Inl FATAL_ERROR_LIBRARY_FAILURE)),
      IsChainValid = (\<lambda>_ _ _. Inl FATAL_ERROR_LIBRARY_FAILURE),
      CheckRevocation = (\<lambda>_ _ _ _ _ _ _. Inl FATAL_ERROR_LIBRARY_FAILURE),
      CheckSignatureDigestAlgorithm = (\<lambda>_ _ _. Inl FATAL_ERROR_LIBRARY_FAILURE),
      CheckRSAPublicKeyModulusSizeInBits =
        (\<lambda>_ modulusSizeInBits. if modulusSizeInBits < 2048 then Inl ERROR_INADEQUATE_KEY_SIZE else Inr ()),
      VerifyRSAPKCS1SignedDigest = (\<lambda>_ _. Inl FATAL_ERROR_LIBRARY_FAILURE),
      CheckECDSACurveIsAcceptable =
        (\<lambda>_ curve. if curve \<noteq> secp256r1 then Inl ERROR_UNSUPPORTED_ELLIPTIC_CURVE else Inr ()),
      VerifyECDSASignedDigest = (\<lambda>_ _. Inl FATAL_ERROR_LIBRARY_FAILURE),
      CheckValidityIsAcceptable = (\<lambda>_ _ _ _. Inl FATAL_ERROR_LIBRARY_FAILURE),
      NetscapeStepUpMatchesServerAuth = (\<lambda>_. Inl FATAL_ERROR_LIBRARY_FAILURE),
      DigestBuf = (\<lambda>_ _ _. Inl FATAL_ERROR_LIBRARY_FAILURE)\<rparr>"

definition RecordedAlgorithm :: "Input \<Rightarrow> SignatureAlgorithm" where
  "RecordedAlgorithm spki =
     (case CheckSubjectPublicKeyInfo spki
          (SignatureParamsTrustDomain\<lparr>CheckECDSACurveIsAcceptable := \<lambda>_ _. Inl FATAL_ERROR_LIBRARY_FAILURE\<rparr>)
          MustBeEndEntity of
        Inl _ \<Rightarrow> SA_ECDSA
      | Inr _ \<Rightarrow> SA_RSA)"

record CTLogVerifier =
  mSubjectPublicKeyInfo :: Buffer
  mKeyId :: Buffer
  mSignatureAlgorithm :: SignatureAlgorithm

definition CTLogVerifier_Init :: "ct_services \<Rightarrow> Input \<Rightarrow> CTLogVerifier res" where
  "CTLogVerifier_Init env spki =
     bind_res (CheckSubjectPublicKeyInfo spki SignatureParamsTrustDomain MustBeEndEntity) (\<lambda>_.
     bind_res (InputToBuffer (ct_mem env) spki) (\<lambda>buffer.
     if SHA256_LENGTH > ct_mem env then Inl FATAL_ERROR_NO_MEMORY
     else bind_res (ct_digestBuf env spki sha256 SHA256_LENGTH) (\<lambda>digest.
       Inr \<lparr>mSubjectPublicKeyInfo = buffer, mKeyId = take SHA256_LENGTH digest,
            mSignatureAlgorithm = RecordedAlgorithm spki\<rparr>)))"

definition SignatureParametersMatch :: "CTLogVerifier \<Rightarrow> DigitallySigned \<Rightarrow> bool" where
  "SignatureParametersMatch log sig = SignatureParametersMatch_DS sig HA_SHA256 (mSignatureAlgorithm log)"

section \<open>Verifying a signature of a log\<close>

definition VerifyLogSignature :: "ct_services \<Rightarrow> CTLogVerifier \<Rightarrow> Input \<Rightarrow> Input \<Rightarrow> unit res" where
  "VerifyLogSignature env log signedBytes sig =
     bind_res (ct_digestBuf env signedBytes sha256 SHA256_LENGTH) (\<lambda>buf.
     bind_res (Input_Init None (Some (take SHA256_LENGTH buf))) (\<lambda>digest.
     bind_res (Input_Init None (Some sig)) (\<lambda>sig.
     bind_res (BufferToInput (mSubjectPublicKeyInfo log)) (\<lambda>spki.
     let signedDigest = \<lparr>sd_digest = digest, sd_digestAlgorithm = sha256, sd_signature = sig\<rparr>;
         rv = (case mSignatureAlgorithm log of
                 SA_RSA \<Rightarrow> Inr (ct_verifyRSA env signedDigest spki)
               | SA_ECDSA \<Rightarrow> Inr (ct_verifyECDSA env signedDigest spki)
               | SA_Anonymous \<Rightarrow> Inl FATAL_ERROR_INVALID_ARGS
               | SA_DSA \<Rightarrow> Inl FATAL_ERROR_INVALID_ARGS)
     in case rv of
          Inl e \<Rightarrow> Inl e
        | Inr (Inl e) \<Rightarrow> if IsFatalError e then Inl e else Inl ERROR_BAD_SIGNATURE
        | Inr (Inr _) \<Rightarrow> Inr ()))))"

definition VerifyLogSignatureBuffers :: "ct_services \<Rightarrow> CTLogVerifier \<Rightarrow> Buffer \<Rightarrow> Buffer \<Rightarrow> unit res" where
  "VerifyLogSignatureBuffers env log signedBytes sig =
     bind_res (BufferToInput signedBytes) (\<lambda>dataInput.
     bind_res (BufferToInput sig) (\<lambda>signatureInput.
     VerifyLogSignature env log dataInput signatureInput))"

definition CTLogVerifier_Verify ::
  "ct_services \<Rightarrow> CTLogVerifier \<Rightarrow> LogEntry \<Rightarrow> SignedCertificateTimestamp \<Rightarrow> unit res" where
  "CTLogVerifier_Verify env log entry sct =
     (if mKeyId log = [] \<or> \<not> Buffer_eq (sct_logId sct) (mKeyId log) then Inl FATAL_ERROR_INVALID_ARGS
      else if \<not> SignatureParametersMatch log (sct_signature sct) then Inl FATAL_ERROR_INVALID_ARGS
      else
        bind_res (EncodeLogEntry (ct_mem env) entry []) (\<lambda>serializedLogEntry.
        bind_res (BufferToInput serializedLogEntry) (\<lambda>logEntryInput.
        bind_res (BufferToInput (sct_extensions sct)) (\<lambda>sctExtensionsInput.
        bind_res (EncodeV1SCTSignedData (ct_mem env) (sct_timestamp sct) logEntryInput sctExtensionsInput [])
          (\<lambda>serializedData.
        VerifyLogSignatureBuffers env log serializedData (signatureData (sct_signature sct)))))))"

definition VerifySignedTreeHead :: "ct_services \<Rightarrow> CTLogVerifier \<Rightarrow> SignedTreeHead \<Rightarrow> unit res" where
  "VerifySignedTreeHead env log sth =
     (if \<not> SignatureParametersMatch log (sth_signature sth) then Inl FATAL_ERROR_INVALID_ARGS
      else bind_res (EncodeTreeHeadSignature (ct_mem env) sth []) (\<lambda>serializedData.
        VerifyLogSignatureBuffers env log serializedData (signatureData (sth_signature sth))))"

section \<open>Verifying the timestamps of a certificate\<close>

record CTVerifyResult =
  scts :: "SignedCertificateTimestamp list"
  decodingErrors :: nat

definition CTVerifyResult_Reset :: CTVerifyResult where
  "CTVerifyResult_Reset = \<lparr>scts = [], decodingErrors = 0\<rparr>"

definition AddLog :: "ct_services \<Rightarrow> CTLogVerifier list \<Rightarrow> Input \<Rightarrow> (CTLogVerifier list) res" where
  "AddLog env mLogs publicKey =
     bind_res (CTLogVerifier_Init env publicKey) (\<lambda>log.
     if length mLogs + 1 > ct_vector env then Inl FATAL_ERROR_NO_MEMORY else Inr (mLogs @ [log]))"

definition StoreVerifiedSct ::
  "ct_services \<Rightarrow> CTVerifyResult \<Rightarrow> SignedCertificateTimestamp \<Rightarrow> VerificationStatus \<Rightarrow> CTVerifyResult res" where
  "StoreVerifiedSct env result sct status =
     (if length (scts result) + 1 > ct_vector env then Inl FATAL_ERROR_NO_MEMORY
      else Inr (result\<lparr>scts := scts result @ [sct\<lparr>sct_status := status\<rparr>]\<rparr>))"

definition SCTTime :: "u64 \<Rightarrow> Time" where
  "SCTTime timestamp = TimeFromEpochInSeconds ((timestamp + 999) div 1000)"

definition VerifySingleSCT ::
  "ct_services \<Rightarrow> CTLogVerifier list \<Rightarrow> SignedCertificateTimestamp \<Rightarrow> LogEntry \<Rightarrow> Time \<Rightarrow> CTVerifyResult \<Rightarrow>
     CTVerifyResult res" where
  "VerifySingleSCT env mLogs sct expectedEntry time result =
     (case find (\<lambda>log. Buffer_eq (mKeyId log) (sct_logId sct)) mLogs of
        None \<Rightarrow> StoreVerifiedSct env result sct VS_UnknownLog
      | Some matchingLog \<Rightarrow>
          if \<not> SignatureParametersMatch matchingLog (sct_signature sct)
          then StoreVerifiedSct env result sct VS_InvalidSignature
          else case CTLogVerifier_Verify env matchingLog expectedEntry sct of
            Inl e \<Rightarrow> if e = ERROR_BAD_SIGNATURE then StoreVerifiedSct env result sct VS_InvalidSignature else Inl e
          | Inr _ \<Rightarrow>
              if SCTTime (sct_timestamp sct) > time then StoreVerifiedSct env result sct VS_InvalidTimestamp
              else StoreVerifiedSct env result sct VS_OK)"

definition decoding_error :: "CTVerifyResult \<Rightarrow> CTVerifyResult" where
  "decoding_error result = result\<lparr>decodingErrors := decodingErrors result + 1\<rparr>"

text \<open>The loop over a list: an item that cannot be read ends it, one that cannot be decoded does not.\<close>

function VerifySCTs_loop ::
  "ct_services \<Rightarrow> CTLogVerifier list \<Rightarrow> LogEntry \<Rightarrow> SCTOrigin \<Rightarrow> Time \<Rightarrow> Reader \<Rightarrow> CTVerifyResult \<Rightarrow>
     CTVerifyResult res" where
  "VerifySCTs_loop env mLogs expectedEntry origin time listReader result =
     (if AtEnd listReader then Inr result
      else case ReadSCTListItem listReader of
        Inl _ \<Rightarrow> Inr (decoding_error result)
      | Inr (encodedSct, listReader) \<Rightarrow>
          (case DecodeSignedCertificateTimestamp (ct_mem env) (Reader_of encodedSct) of
             Inl _ \<Rightarrow> VerifySCTs_loop env mLogs expectedEntry origin time listReader (decoding_error result)
           | Inr (sct, _) \<Rightarrow>
               (case VerifySingleSCT env mLogs (sct\<lparr>sct_origin := origin\<rparr>) expectedEntry time result of
                  Inl e \<Rightarrow> Inl e
                | Inr result \<Rightarrow> VerifySCTs_loop env mLogs expectedEntry origin time listReader result)))"
  by pat_completeness auto
termination
  by (relation "measure (\<lambda>(_, _, _, _, _, r, _). r_end r - r_input r)") (auto dest: ReadSCTListItem_shrinks)

declare VerifySCTs_loop.simps [simp del]

definition VerifySCTs ::
  "ct_services \<Rightarrow> CTLogVerifier list \<Rightarrow> Input \<Rightarrow> LogEntry \<Rightarrow> SCTOrigin \<Rightarrow> Time \<Rightarrow> CTVerifyResult \<Rightarrow>
     CTVerifyResult res" where
  "VerifySCTs env mLogs encodedSctList expectedEntry origin time result =
     (case DecodeSCTList encodedSctList of
        Inl _ \<Rightarrow> Inr (decoding_error result)
      | Inr listReader \<Rightarrow> VerifySCTs_loop env mLogs expectedEntry origin time listReader result)"

definition MultiLogCTVerifier_Verify ::
  "ct_services \<Rightarrow> CTLogVerifier list \<Rightarrow> Input \<Rightarrow> Input \<Rightarrow> Input \<Rightarrow> Input \<Rightarrow> Input \<Rightarrow> Time \<Rightarrow> CTVerifyResult res" where
  "MultiLogCTVerifier_Verify env mLogs cert issuerSPKI sctListFromCert sctListFromOCSPResponse
       sctListFromTLSExtension time =
     bind_res (if GetLength issuerSPKI > 0 \<and> GetLength sctListFromCert > 0 then
                 bind_res (GetPrecertLogEntry env cert issuerSPKI) (\<lambda>precertEntry.
                 VerifySCTs env mLogs sctListFromCert precertEntry Origin_Embedded time CTVerifyResult_Reset)
               else Inr CTVerifyResult_Reset) (\<lambda>result.
     bind_res (GetX509LogEntry (ct_mem env) cert) (\<lambda>x509Entry.
     bind_res (if GetLength sctListFromOCSPResponse > 0 then
                 VerifySCTs env mLogs sctListFromOCSPResponse x509Entry Origin_OCSPResponse time result
               else Inr result) (\<lambda>result.
     if GetLength sctListFromTLSExtension > 0 then
       VerifySCTs env mLogs sctListFromTLSExtension x509Entry Origin_TLSExtension time result
     else Inr result)))"

section \<open>The time of a timestamp\<close>

lemma TimeFromEpoch: "TimeFromEpochInSeconds n = Time (62135596800 + n)"
proof -
  have "DaysBeforeYear 1970 = 719162" unfolding DaysBeforeYear_def by (simp add: unsigned_of_nat word_eq_iff_unsigned unat_word_ariths unat_div)
  then show ?thesis by (simp add: TimeFromEpochInSeconds_def TimeFromElapsedSecondsAD_def ONE_DAY_IN_SECONDS_def)
qed

text \<open>Milliseconds are rounded up to seconds, unless the sum wraps around.\<close>

lemma SCTTime_not_after:
  assumes "SCTTime ts \<le> Time t" and "unat ts + 999 < 2 ^ 64"
  shows "unat ts \<le> 1000 * (unat t - 62135596800) \<and> 62135596800 \<le> unat t"
proof -
  have sum: "unat (ts + 999) = unat ts + 999" using assms(2) by (simp add: unat_word_ariths)
  let ?n = "(unat ts + 999) div 1000"
  have n: "unat ((ts + 999) div 1000) = ?n" by (simp add: unat_div sum)
  have "?n < 2 ^ 64 - 62135596800" using assms(2) by (simp add: less_mult_imp_div_less)
  then have "unat (62135596800 + (ts + 999) div 1000) = 62135596800 + ?n"
    unfolding unat_word_ariths(1) n by simp
  then have "62135596800 + ?n \<le> unat t"
    using assms(1) by (simp add: SCTTime_def TimeFromEpoch less_eq_Time_def word_le_nat_alt)
  moreover have "unat ts \<le> 1000 * ?n" by linarith
  ultimately show ?thesis by linarith
qed

text \<open>A timestamp of the last second that 64 bits can hold is taken for the start of 1970.\<close>

lemma SCTTime_wraps:
  assumes "2 ^ 64 \<le> unat ts + 999"
  shows "SCTTime ts = Time 62135596800"
proof -
  have "unat ts < 2 ^ 64" using unsigned_less [of ts] by simp
  then have "(unat ts + 999) mod 2 ^ 64 = unat ts + 999 - 2 ^ 64" using assms by (simp add: mod_if)
  then have "unat (ts + 999) < 999" using \<open>unat ts < 2 ^ 64\<close> by (simp add: unat_word_ariths)
  then have "unat ((ts + 999) div 1000) = 0" unfolding unat_div by simp
  then have "(ts + 999) div 1000 = 0" by (simp add: unat_eq_zero)
  then show ?thesis by (simp add: SCTTime_def TimeFromEpoch)
qed

section \<open>What a status means\<close>

lemma Buffer_eq_iff [simp]: "Buffer_eq a b \<longleftrightarrow> a = b"
  by (auto simp: Buffer_eq_def)

text \<open>The key of the log accepts the signature over the bytes that RFC 6962 prescribes.\<close>

definition log_signed :: "ct_services \<Rightarrow> CTLogVerifier \<Rightarrow> LogEntry \<Rightarrow> SignedCertificateTimestamp \<Rightarrow> bool" where
  "log_signed env log entry s \<longleftrightarrow>
     (\<exists>buf. ct_digestBuf env (encode_signed_data (sct_timestamp s) (encode_log_entry entry) (sct_extensions s))
          sha256 SHA256_LENGTH = Inr buf \<and>
        (let sd = \<lparr>sd_digest = take SHA256_LENGTH buf, sd_digestAlgorithm = sha256,
                   sd_signature = signatureData (sct_signature s)\<rparr>
         in mSignatureAlgorithm log = SA_RSA \<and> ct_verifyRSA env sd (mSubjectPublicKeyInfo log) = Inr () \<or>
            mSignatureAlgorithm log = SA_ECDSA \<and> ct_verifyECDSA env sd (mSubjectPublicKeyInfo log) = Inr ()))"

lemma BufferToInput_iff: "BufferToInput b = Inr i \<longleftrightarrow> i = b \<and> wf_Input b"
  by (auto simp: BufferToInput_def wf_Input_def)

lemma VerifyLogSignature_accepts:
  assumes "VerifyLogSignatureBuffers env log bs sig = Inr ()"
  shows "\<exists>buf. ct_digestBuf env bs sha256 SHA256_LENGTH = Inr buf \<and>
        (let sd = \<lparr>sd_digest = take SHA256_LENGTH buf, sd_digestAlgorithm = sha256, sd_signature = sig\<rparr>
         in mSignatureAlgorithm log = SA_RSA \<and> ct_verifyRSA env sd (mSubjectPublicKeyInfo log) = Inr () \<or>
            mSignatureAlgorithm log = SA_ECDSA \<and> ct_verifyECDSA env sd (mSubjectPublicKeyInfo log) = Inr ())"
proof -
  let ?sd = "\<lambda>buf. \<lparr>sd_digest = take SHA256_LENGTH buf, sd_digestAlgorithm = sha256, sd_signature = sig\<rparr>"
  have unit: "(case rv of Inl e \<Rightarrow> if IsFatalError e then Inl e else Inl ERROR_BAD_SIGNATURE | Inr _ \<Rightarrow> Inr ()) = Inr () \<longleftrightarrow>
      rv = Inr ()" for rv :: "unit res"
    by (cases rv) auto
  obtain buf where buf: "ct_digestBuf env bs sha256 SHA256_LENGTH = Inr buf"
    and rv: "(case (case mSignatureAlgorithm log of SA_RSA \<Rightarrow> Inr (ct_verifyRSA env (?sd buf) (mSubjectPublicKeyInfo log))
        | SA_ECDSA \<Rightarrow> Inr (ct_verifyECDSA env (?sd buf) (mSubjectPublicKeyInfo log))
        | SA_Anonymous \<Rightarrow> Inl FATAL_ERROR_INVALID_ARGS | SA_DSA \<Rightarrow> Inl FATAL_ERROR_INVALID_ARGS) of
      Inl e \<Rightarrow> Inl e | Inr (Inl e) \<Rightarrow> if IsFatalError e then Inl e else Inl ERROR_BAD_SIGNATURE | Inr (Inr _) \<Rightarrow> Inr ()) = Inr ()"
    using assms unfolding VerifyLogSignatureBuffers_def VerifyLogSignature_def bind_res_Inr_iff BufferToInput_iff
      wf_Input_Init Let_def by auto
  show ?thesis
    using buf rv by (cases "mSignatureAlgorithm log") (simp_all add: unit Let_def)
qed

lemma CTLogVerifier_Verify_accepts:
  assumes "CTLogVerifier_Verify env log entry s = Inr ()"
  shows "mKeyId log = sct_logId s" "hashAlgorithm (sct_signature s) = HA_SHA256"
    "signatureAlgorithm (sct_signature s) = mSignatureAlgorithm log" "loggable entry" "log_signed env log entry s"
proof -
  obtain e d where id: "mKeyId log \<noteq> []" "sct_logId s = mKeyId log" "SignatureParametersMatch log (sct_signature s)"
    and e: "EncodeLogEntry (ct_mem env) entry [] = Inr e" and x: "wf_Input (sct_extensions s)"
    and d: "EncodeV1SCTSignedData (ct_mem env) (sct_timestamp s) e (sct_extensions s) [] = Inr d"
    and v: "VerifyLogSignatureBuffers env log d (signatureData (sct_signature s)) = Inr ()"
    using assms by (auto simp: CTLogVerifier_Verify_def bind_res_Inr_iff BufferToInput_iff split: if_splits)
  show "mKeyId log = sct_logId s" "hashAlgorithm (sct_signature s) = HA_SHA256"
    "signatureAlgorithm (sct_signature s) = mSignatureAlgorithm log"
    using id by (simp_all add: SignatureParametersMatch_def SignatureParametersMatch_DS_def)
  have "loggable entry" and e': "e = encode_log_entry entry"
    using e writes_log_entry [of "ct_mem env" entry] by (auto simp: writes_def)
  then show "loggable entry" by simp
  have "length (sct_extensions s) < 65536" using x by (simp add: wf_Input_def MAX_INPUT_def)
  from writes_signed_data [OF this] d have "d = encode_signed_data (sct_timestamp s) e (sct_extensions s)"
    by (auto simp: writes_def)
  with VerifyLogSignature_accepts [OF v] show "log_signed env log entry s" by (simp add: log_signed_def e')
qed

text \<open>The log of a timestamp, and the meaning of each status.\<close>

definition log_of :: "CTLogVerifier list \<Rightarrow> SignedCertificateTimestamp \<Rightarrow> CTLogVerifier option" where
  "log_of logs s = find (\<lambda>log. mKeyId log = sct_logId s) logs"

fun justified ::
  "ct_services \<Rightarrow> CTLogVerifier list \<Rightarrow> LogEntry \<Rightarrow> Time \<Rightarrow> SignedCertificateTimestamp \<Rightarrow> VerificationStatus \<Rightarrow> bool" where
  "justified env logs entry time s VS_None \<longleftrightarrow> False"
| "justified env logs entry time s VS_UnknownLog \<longleftrightarrow> (\<forall>log \<in> set logs. mKeyId log \<noteq> sct_logId s)"
| "justified env logs entry time s VS_InvalidSignature \<longleftrightarrow>
     (\<exists>log. log_of logs s = Some log \<and> (\<not> SignatureParametersMatch log (sct_signature s) \<or>
        CTLogVerifier_Verify env log entry s = Inl ERROR_BAD_SIGNATURE))"
| "justified env logs entry time s VS_InvalidTimestamp \<longleftrightarrow>
     (\<exists>log. log_of logs s = Some log \<and> CTLogVerifier_Verify env log entry s = Inr () \<and> time < SCTTime (sct_timestamp s))"
| "justified env logs entry time s VS_OK \<longleftrightarrow>
     (\<exists>log. log_of logs s = Some log \<and> CTLogVerifier_Verify env log entry s = Inr () \<and> SCTTime (sct_timestamp s) \<le> time)"

lemma CTLogVerifier_Verify_cong:
  "CTLogVerifier_Verify env log entry (s\<lparr>sct_status := v\<rparr>) = CTLogVerifier_Verify env log entry s"
  "CTLogVerifier_Verify env log entry (s\<lparr>sct_origin := origin\<rparr>) = CTLogVerifier_Verify env log entry s"
  by (simp_all add: CTLogVerifier_Verify_def)

lemma justified_cong: "justified env logs entry time (s\<lparr>sct_status := v\<rparr>) st = justified env logs entry time s st"
  by (cases st) (simp_all add: CTLogVerifier_Verify_cong log_of_def)

lemma VerifySingleSCT_stores:
  assumes "VerifySingleSCT env logs s entry time result = Inr result'"
  shows "\<exists>status. result' = result\<lparr>scts := scts result @ [s\<lparr>sct_status := status\<rparr>]\<rparr> \<and> justified env logs entry time s status"
proof -
  have store: "\<exists>status. result' = result\<lparr>scts := scts result @ [s\<lparr>sct_status := status\<rparr>]\<rparr> \<and> justified env logs entry time s status"
    if "StoreVerifiedSct env result s st = Inr result'" "justified env logs entry time s st" for st
    using that by (auto simp: StoreVerifiedSct_def split: if_splits)
  show ?thesis
  proof (cases "log_of logs s")
    case None
    then have "justified env logs entry time s VS_UnknownLog" by (auto simp: log_of_def find_None_iff)
    then show ?thesis using None assms by (intro store [of VS_UnknownLog]) (simp_all add: VerifySingleSCT_def log_of_def)
  next
    case (Some log)
    show ?thesis
    proof (cases "SignatureParametersMatch log (sct_signature s)")
      case False
      then show ?thesis
        using Some assms by (intro store [of VS_InvalidSignature]) (simp_all add: VerifySingleSCT_def log_of_def)
    next
      case True
      show ?thesis
      proof (cases "CTLogVerifier_Verify env log entry s")
        case (Inl e)
        then show ?thesis
          using Some True assms
          by (intro store [of VS_InvalidSignature]) (auto simp: VerifySingleSCT_def log_of_def split: if_splits)
      next
        case (Inr u)
        then show ?thesis
          using Some True assms store [of VS_InvalidTimestamp] store [of VS_OK]
          by (cases "SCTTime (sct_timestamp s) > time") (simp_all add: VerifySingleSCT_def log_of_def not_less)
      qed
    qed
  qed
qed

text \<open>The loop over the items of a list that can be told apart.\<close>

fun VerifySCTs_items ::
  "ct_services \<Rightarrow> CTLogVerifier list \<Rightarrow> LogEntry \<Rightarrow> SCTOrigin \<Rightarrow> Time \<Rightarrow> Input list \<Rightarrow> CTVerifyResult \<Rightarrow>
     CTVerifyResult res" where
  "VerifySCTs_items env logs entry origin time [] result = Inr result"
| "VerifySCTs_items env logs entry origin time (i # is) result =
     (case DecodeSignedCertificateTimestamp (ct_mem env) (Reader_of i) of
        Inl _ \<Rightarrow> VerifySCTs_items env logs entry origin time is (decoding_error result)
      | Inr (s, _) \<Rightarrow> bind_res (VerifySingleSCT env logs (s\<lparr>sct_origin := origin\<rparr>) entry time result)
          (VerifySCTs_items env logs entry origin time is))"

lemma VerifySCTs_loop_items:
  "ReadSCTListItems r = Inr items \<Longrightarrow>
   VerifySCTs_loop env logs entry origin time r result = VerifySCTs_items env logs entry origin time items result"
proof (induction items arbitrary: r result)
  case Nil
  then have "AtEnd r" by (auto simp: ReadSCTListItems.simps [of r] bind_res_Inr_iff split: if_splits sum.splits)
  then show ?case by (simp add: VerifySCTs_loop.simps [of _ _ _ _ _ r])
next
  case (Cons i items)
  then obtain q where "\<not> AtEnd r" "ReadSCTListItem r = Inr (i, q)" "ReadSCTListItems q = Inr items"
    by (auto simp: ReadSCTListItems.simps [of r] bind_res_Inr_iff split: if_splits sum.splits)
  then show ?case
    using Cons.IH by (simp add: VerifySCTs_loop.simps [of _ _ _ _ _ r] bind_res_def split: sum.split)
qed

text \<open>The timestamps of a list that can be decoded, in order.\<close>

fun decoded :: "nat \<Rightarrow> Input list \<Rightarrow> SignedCertificateTimestamp list" where
  "decoded mem [] = []"
| "decoded mem (i # is) =
     (case DecodeSignedCertificateTimestamp mem (Reader_of i) of Inl _ \<Rightarrow> decoded mem is | Inr (s, _) \<Rightarrow> s # decoded mem is)"

text \<open>What the loop adds to the result.\<close>

definition judged ::
  "ct_services \<Rightarrow> CTLogVerifier list \<Rightarrow> LogEntry \<Rightarrow> SCTOrigin \<Rightarrow> Time \<Rightarrow> SignedCertificateTimestamp list \<Rightarrow>
     SignedCertificateTimestamp list \<Rightarrow> bool" where
  "judged env logs entry origin time = list_all2 (\<lambda>s t. \<exists>status.
     t = s\<lparr>sct_origin := origin, sct_status := status\<rparr> \<and> justified env logs entry time t status)"

lemma justified_sct:
  "VerifySingleSCT env logs (s\<lparr>sct_origin := origin\<rparr>) entry time result = Inr result' \<Longrightarrow>
   \<exists>t status. scts result' = scts result @ [t] \<and> decodingErrors result' = decodingErrors result \<and>
     t = s\<lparr>sct_origin := origin, sct_status := status\<rparr> \<and> justified env logs entry time t status"
  by (drule VerifySingleSCT_stores) (auto simp: justified_cong)

lemma VerifySCTs_items_judges:
  "VerifySCTs_items env logs entry origin time items result = Inr result' \<Longrightarrow>
   \<exists>new. scts result' = scts result @ new \<and> judged env logs entry origin time (decoded (ct_mem env) items) new \<and>
     decodingErrors result' + length new = decodingErrors result + length items"
proof (induction items arbitrary: result)
  case (Cons i items)
  show ?case
  proof (cases "DecodeSignedCertificateTimestamp (ct_mem env) (Reader_of i)")
    case (Inl e)
    with Cons.prems Cons.IH [of "decoding_error result"] show ?thesis by (auto simp: decoding_error_def)
  next
    case (Inr x)
    obtain s p where x: "x = (s, p)" by (cases x)
    obtain result1 where one: "VerifySingleSCT env logs (s\<lparr>sct_origin := origin\<rparr>) entry time result = Inr result1"
      and rest: "VerifySCTs_items env logs entry origin time items result1 = Inr result'"
      using Cons.prems Inr x by (auto simp: bind_res_Inr_iff)
    obtain t where "scts result1 = scts result @ [t]" "decodingErrors result1 = decodingErrors result"
      "\<exists>status. t = s\<lparr>sct_origin := origin, sct_status := status\<rparr> \<and> justified env logs entry time t status"
      using justified_sct [OF one] by blast
    moreover obtain new where "scts result' = scts result1 @ new"
      "judged env logs entry origin time (decoded (ct_mem env) items) new"
      "decodingErrors result' + length new = decodingErrors result1 + length items"
      using Cons.IH [OF rest] by blast
    ultimately show ?thesis
      using Inr x by (intro exI [of _ "t # new"]) (simp add: judged_def)
  qed
qed (simp add: judged_def)

text \<open>Whatever the list, everything that is added to the result has a justified status.\<close>

definition justified_all ::
  "ct_services \<Rightarrow> CTLogVerifier list \<Rightarrow> LogEntry \<Rightarrow> SCTOrigin \<Rightarrow> Time \<Rightarrow> SignedCertificateTimestamp list \<Rightarrow> bool" where
  "justified_all env logs entry origin time ts \<longleftrightarrow>
     (\<forall>t \<in> set ts. sct_origin t = origin \<and> justified env logs entry time t (sct_status t))"

lemma VerifySCTs_loop_justified:
  "VerifySCTs_loop env logs entry origin time r result = Inr result' \<Longrightarrow>
   \<exists>new. scts result' = scts result @ new \<and> justified_all env logs entry origin time new"
proof (induction env logs entry origin time r result rule: VerifySCTs_loop.induct)
  case (1 env logs entry origin time r result)
  note unfold = VerifySCTs_loop.simps [of env logs entry origin time r result]
  consider "scts result' = scts result"
    | i q e where "\<not> AtEnd r" "ReadSCTListItem r = Inr (i, q)" "DecodeSignedCertificateTimestamp (ct_mem env) (Reader_of i) = Inl e"
        "VerifySCTs_loop env logs entry origin time q (decoding_error result) = Inr result'"
    | i q s p result1 where "\<not> AtEnd r" "ReadSCTListItem r = Inr (i, q)"
        "DecodeSignedCertificateTimestamp (ct_mem env) (Reader_of i) = Inr (s, p)"
        "VerifySingleSCT env logs (s\<lparr>sct_origin := origin\<rparr>) entry time result = Inr result1"
        "VerifySCTs_loop env logs entry origin time q result1 = Inr result'"
    using 1(3) unfold by (auto simp: decoding_error_def split: if_splits sum.splits prod.splits)
  then show ?case
  proof cases
    case 1
    then show ?thesis by (simp add: justified_all_def)
  next
    case (2 i q e)
    from "1.IH"(1) [OF 2(1,2) refl 2(3,4)] show ?thesis by (simp add: decoding_error_def)
  next
    case (3 i q s p result1)
    obtain t where "scts result1 = scts result @ [t]" "justified_all env logs entry origin time [t]"
      using justified_sct [OF 3(4)] by (auto simp: justified_all_def)
    with "1.IH"(2) [OF 3(1,2) refl 3(3) refl 3(4,5)] show ?thesis by (auto simp: justified_all_def)
  qed
qed

lemma VerifySCTs_justified:
  "VerifySCTs env logs l entry origin time result = Inr result' \<Longrightarrow>
   \<exists>new. scts result' = scts result @ new \<and> justified_all env logs entry origin time new"
  using VerifySCTs_loop_justified
  by (auto simp: VerifySCTs_def decoding_error_def justified_all_def split: sum.splits)

text \<open>The entry that a log must have signed, by the source of the timestamp.\<close>

fun expected_entry :: "ct_services \<Rightarrow> Input \<Rightarrow> Input \<Rightarrow> SCTOrigin \<Rightarrow> LogEntry \<Rightarrow> bool" where
  "expected_entry env cert spki Origin_Embedded entry \<longleftrightarrow> GetPrecertLogEntry env cert spki = Inr entry"
| "expected_entry env cert spki Origin_OCSPResponse entry \<longleftrightarrow> entry = leaf_entry cert"
| "expected_entry env cert spki Origin_TLSExtension entry \<longleftrightarrow> entry = leaf_entry cert"
| "expected_entry env cert spki Origin_Unknown entry \<longleftrightarrow> False"

lemma GetX509LogEntry_leaf: "GetX509LogEntry mem cert = Inr entry \<Longrightarrow> entry = leaf_entry cert"
  by (auto simp: GetX509LogEntry_def InputToBuffer_def append_bytes_def leaf_entry_def LogEntry_Reset_def bind_res_Inr_iff
      split: if_splits)

lemma MultiLogCTVerifier_Verify_justified:
  assumes "MultiLogCTVerifier_Verify env logs cert spki fromCert fromOCSP fromTLS time = Inr result"
    and "t \<in> set (scts result)"
  shows "\<exists>entry. expected_entry env cert spki (sct_origin t) entry \<and> justified env logs entry time t (sct_status t)"
proof -
  obtain r1 r2 where 1: "(if GetLength spki > 0 \<and> GetLength fromCert > 0 then
        bind_res (GetPrecertLogEntry env cert spki) (\<lambda>e. VerifySCTs env logs fromCert e Origin_Embedded time CTVerifyResult_Reset)
      else Inr CTVerifyResult_Reset) = Inr r1"
    and 2: "(if GetLength fromOCSP > 0 then VerifySCTs env logs fromOCSP (leaf_entry cert) Origin_OCSPResponse time r1
      else Inr r1) = Inr r2"
    and 3: "(if GetLength fromTLS > 0 then VerifySCTs env logs fromTLS (leaf_entry cert) Origin_TLSExtension time r2
      else Inr r2) = Inr result"
    using assms(1) GetX509LogEntry_leaf unfolding MultiLogCTVerifier_Verify_def bind_res_Inr_iff by blast
  obtain e new1 where n1: "scts r1 = new1" "justified_all env logs e Origin_Embedded time new1"
    "new1 \<noteq> [] \<longrightarrow> GetPrecertLogEntry env cert spki = Inr e"
  proof (cases "GetLength spki > 0 \<and> GetLength fromCert > 0")
    case True
    then obtain e where "GetPrecertLogEntry env cert spki = Inr e"
      "VerifySCTs env logs fromCert e Origin_Embedded time CTVerifyResult_Reset = Inr r1"
      using 1 by (auto simp: bind_res_Inr_iff)
    with VerifySCTs_justified [OF this(2)] that show ?thesis by (auto simp: CTVerifyResult_Reset_def)
  next
    case False
    then have "scts r1 = []" using 1 by (auto simp: CTVerifyResult_Reset_def)
    then show ?thesis using that by (simp add: justified_all_def)
  qed
  obtain new2 where n2: "scts r2 = new1 @ new2" "justified_all env logs (leaf_entry cert) Origin_OCSPResponse time new2"
    using 2 n1(1) VerifySCTs_justified by (force simp: justified_all_def split: if_splits)
  obtain new3 where n3: "scts result = new1 @ new2 @ new3" "justified_all env logs (leaf_entry cert) Origin_TLSExtension time new3"
    using 3 n2(1) VerifySCTs_justified by (force simp: justified_all_def split: if_splits)
  have "t \<in> set new1 \<or> t \<in> set new2 \<or> t \<in> set new3" using assms(2) n3(1) by auto
  then show ?thesis
  proof (elim disjE)
    assume "t \<in> set new1"
    then have "sct_origin t = Origin_Embedded" "justified env logs e time t (sct_status t)"
      "GetPrecertLogEntry env cert spki = Inr e"
      using n1 by (auto simp: justified_all_def)
    then show ?thesis by (intro exI [of _ e]) simp
  next
    assume "t \<in> set new2"
    then have "sct_origin t = Origin_OCSPResponse" "justified env logs (leaf_entry cert) time t (sct_status t)"
      using n2 by (auto simp: justified_all_def)
    then show ?thesis by (intro exI [of _ "leaf_entry cert"]) simp
  next
    assume "t \<in> set new3"
    then have "sct_origin t = Origin_TLSExtension" "justified env logs (leaf_entry cert) time t (sct_status t)"
      using n3 by (auto simp: justified_all_def)
    then show ?thesis by (intro exI [of _ "leaf_entry cert"]) simp
  qed
qed

section \<open>Timestamps that cannot be verified\<close>

text \<open>The log is known, but the bytes that it had to sign do not fit into an \<open>Input\<close>, although entry and extensions do.\<close>

definition too_long :: "ct_services \<Rightarrow> CTLogVerifier list \<Rightarrow> LogEntry \<Rightarrow> SignedCertificateTimestamp \<Rightarrow> bool" where
  "too_long env logs entry s \<longleftrightarrow> 131082 \<le> ct_mem env \<and>
     (\<exists>log. log_of logs s = Some log \<and> mKeyId log \<noteq> [] \<and> SignatureParametersMatch log (sct_signature s)) \<and>
     loggable entry \<and> wf_Input (encode_log_entry entry) \<and> wf_Input (sct_extensions s) \<and>
     65535 < length (encode_signed_data (sct_timestamp s) (encode_log_entry entry) (sct_extensions s))"

lemma too_long_origin [simp]: "too_long env logs entry (s\<lparr>sct_origin := origin\<rparr>) \<longleftrightarrow> too_long env logs entry s"
  by (simp add: too_long_def log_of_def)

lemma VerifySingleSCT_too_long:
  assumes "too_long env logs entry s"
  shows "VerifySingleSCT env logs s entry time result = Inl ERROR_BAD_DER"
proof -
  let ?e = "encode_log_entry entry" and ?d = "encode_signed_data (sct_timestamp s) (encode_log_entry entry) (sct_extensions s)"
  obtain log where log: "log_of logs s = Some log" "mKeyId log \<noteq> []" "SignatureParametersMatch log (sct_signature s)"
    and entry: "loggable entry" and wf: "wf_Input ?e" "wf_Input (sct_extensions s)" and long: "65535 < length ?d"
    and mem: "131082 \<le> ct_mem env"
    using assms unfolding too_long_def by blast
  have le: "length ?e \<le> 65535" "length (sct_extensions s) \<le> 65535"
    using wf by (simp_all add: wf_Input_def MAX_INPUT_def)
  then have "length ?d \<le> 131082" by (simp add: encode_signed_data_def encode_variable_def del: be_bytes.simps)
  then have d: "EncodeV1SCTSignedData (ct_mem env) (sct_timestamp s) ?e (sct_extensions s) [] = Inr ?d"
    using writes_signed_data [of "sct_extensions s" "ct_mem env"] le mem by (simp add: writes_def)
  have e: "EncodeLogEntry (ct_mem env) entry [] = Inr ?e"
    using writes_log_entry [of "ct_mem env" entry] le entry mem by (simp add: writes_def)
  have "sct_logId s = mKeyId log" using log(1) by (auto simp: log_of_def find_Some_iff)
  moreover have "BufferToInput ?d = Inl ERROR_BAD_DER" using long by (simp add: BufferToInput_def MAX_INPUT_def)
  ultimately have "CTLogVerifier_Verify env log entry s = Inl ERROR_BAD_DER"
    using log(2,3) d e BufferToInput_iff [of ?e ?e] BufferToInput_iff [of "sct_extensions s" "sct_extensions s"] wf
    by (simp add: CTLogVerifier_Verify_def VerifyLogSignatureBuffers_def)
  with log(1,3) show ?thesis by (simp add: VerifySingleSCT_def log_of_def)
qed

text \<open>The first such timestamp of a list ends the loop.\<close>

lemma VerifySCTs_items_append:
  "VerifySCTs_items env logs entry origin time (a @ b) result =
     bind_res (VerifySCTs_items env logs entry origin time a result) (VerifySCTs_items env logs entry origin time b)"
  by (induction a arbitrary: result) (auto simp: bind_res_def split: sum.split)

lemma VerifySCTs_too_long:
  assumes "DecodeSCTList l = Inr r" and "ReadSCTListItems r = Inr (before @ item # behind)"
    and "DecodeSignedCertificateTimestamp (ct_mem env) (Reader_of item) = Inr (s, q)" and "too_long env logs entry s"
  shows "VerifySCTs env logs l entry origin time result =
    (case VerifySCTs_items env logs entry origin time before result of Inl e \<Rightarrow> Inl e | Inr _ \<Rightarrow> Inl ERROR_BAD_DER)"
  using assms
  by (simp add: VerifySCTs_def VerifySCTs_loop_items VerifySCTs_items_append VerifySingleSCT_too_long bind_res_def
      split: sum.split)

text \<open>The list of each source.\<close>

fun list_of_origin :: "SCTOrigin \<Rightarrow> Input \<Rightarrow> Input \<Rightarrow> Input \<Rightarrow> Input" where
  "list_of_origin Origin_Embedded fromCert fromOCSP fromTLS = fromCert"
| "list_of_origin Origin_OCSPResponse fromCert fromOCSP fromTLS = fromOCSP"
| "list_of_origin Origin_TLSExtension fromCert fromOCSP fromTLS = fromTLS"
| "list_of_origin Origin_Unknown fromCert fromOCSP fromTLS = []"

lemma MultiLogCTVerifier_Verify_stops:
  assumes "expected_entry env cert spki origin entry" and "origin = Origin_Embedded \<longrightarrow> GetLength spki > 0"
    and "GetLength (list_of_origin origin fromCert fromOCSP fromTLS) > 0"
    and stops: "\<And>result. \<exists>e. VerifySCTs env logs (list_of_origin origin fromCert fromOCSP fromTLS) entry origin time result = Inl e"
  shows "\<exists>e. MultiLogCTVerifier_Verify env logs cert spki fromCert fromOCSP fromTLS time = Inl e"
proof (cases "MultiLogCTVerifier_Verify env logs cert spki fromCert fromOCSP fromTLS time")
  case (Inr result)
  obtain r1 r2 where "(if GetLength spki > 0 \<and> GetLength fromCert > 0 then
        bind_res (GetPrecertLogEntry env cert spki) (\<lambda>e. VerifySCTs env logs fromCert e Origin_Embedded time CTVerifyResult_Reset)
      else Inr CTVerifyResult_Reset) = Inr r1"
    and "(if GetLength fromOCSP > 0 then VerifySCTs env logs fromOCSP (leaf_entry cert) Origin_OCSPResponse time r1
      else Inr r1) = Inr r2"
    and "(if GetLength fromTLS > 0 then VerifySCTs env logs fromTLS (leaf_entry cert) Origin_TLSExtension time r2
      else Inr r2) = Inr result"
    using Inr GetX509LogEntry_leaf unfolding MultiLogCTVerifier_Verify_def bind_res_Inr_iff by blast
  then have False
    using assms(1-3) stops [of CTVerifyResult_Reset] stops [of r1] stops [of r2]
    by (cases origin) auto
  then show ?thesis ..
qed simp

section \<open>Samples\<close>

definition sample_log :: CTLogVerifier where
  "sample_log = \<lparr>mSubjectPublicKeyInfo = [1, 2, 3], mKeyId = replicate 32 7, mSignatureAlgorithm = SA_ECDSA\<rparr>"

definition sample_tls_list :: "u8 list" where
  "sample_tls_list = encode_variable 2 (encode_items [encode_sct sample_sct, [9]])"

lemma sample_list:
  "DecodeSCTList sample_tls_list = Inr (Reader_of (encode_items [encode_sct sample_sct, [9]]))"
  "ReadSCTListItems (Reader_of (encode_items [encode_sct sample_sct, [9]])) = Inr [encode_sct sample_sct, [9]]"
proof -
  let ?items = "encode_items [encode_sct sample_sct, [9 :: u8]]"
  have l: "length ?items = 54"
    using length_encode_sample by (simp add: encode_items_def encode_variable_def del: be_bytes.simps)
  then have "wf_Input (encode_variable 2 ?items)"
    by (simp add: encode_variable_def wf_Input_def MAX_INPUT_def del: be_bytes.simps)
  moreover have "\<exists>body rest. encode_variable 2 ?items = encode_variable 2 body @ rest \<and> length body < 65536 \<and>
      Reader_of ?items = Reader_of body"
    using l by (intro exI [of _ ?items] exI [of _ "[]"]) simp
  ultimately show "DecodeSCTList sample_tls_list = Inr (Reader_of ?items)"
    unfolding sample_tls_list_def by (simp only: DecodeSCTList_iff)
  have "proper_item (encode_sct sample_sct)" "proper_item [9]"
    using length_encode_sample by (auto simp: proper_item_def)
  moreover have "wf_Input ?items" using l by (simp add: wf_Input_def MAX_INPUT_def)
  ultimately show "ReadSCTListItems (Reader_of ?items) = Inr [encode_sct sample_sct, [9]]"
    by (simp add: ReadSCTListItems_iff)
qed

lemma sample_decoded:
  "\<exists>r. DecodeSignedCertificateTimestamp 1048576 (Reader_of (encode_sct sample_sct)) = Inr (sample_sct, r)"
  "\<exists>e. DecodeSignedCertificateTimestamp 1048576 (Reader_of [9]) = Inl e"
proof -
  have w: "wf_Input (encode_sct sample_sct)" by (simp add: wf_Input_def MAX_INPUT_def length_encode_sample)
  then have "bytes_at (Reader_of (encode_sct sample_sct)) (encode_sct sample_sct)
      (advance (length (encode_sct sample_sct)) (Reader_of (encode_sct sample_sct)))"
    by (simp add: bytes_at_def)
  with timestamp.accepts [OF wf_Reader_of [OF w], of 1048576 sample_sct]
  show "\<exists>r. DecodeSignedCertificateTimestamp 1048576 (Reader_of (encode_sct sample_sct)) = Inr (sample_sct, r)"
    by (auto simp: sct_storable_def storable_def undecided_def sample_sct_def)
  show "\<exists>e. DecodeSignedCertificateTimestamp 1048576 (Reader_of [9]) = Inl e"
  proof (cases "DecodeSignedCertificateTimestamp 1048576 (Reader_of [9])")
    case (Inr x)
    obtain s r where x: "x = (s, r)" by (cases x)
    have w: "wf_Input [9]" by (simp add: wf_Input_def MAX_INPUT_def)
    have "bytes_at (Reader_of [9]) (encode_sct s) r" using timestamp.accepts [OF wf_Reader_of [OF w]] Inr x by blast
    then have "[9] = encode_sct s @ remaining r" using bytes_at_remaining w by fastforce
    from arg_cong [OF this, of length] have "length (encode_sct s) \<le> 1" by simp
    then show ?thesis by (simp add: encode_sct_def del: be_bytes.simps)
  qed simp
qed

lemma sample_verified_at:
  "CTLogVerifier_Verify sample_ct_services sample_log (leaf_entry [1, 2]) (sample_sct\<lparr>sct_timestamp := t\<rparr>) = Inr ()"
proof -
  have e: "EncodeLogEntry 1048576 (leaf_entry [1, 2]) [] = Inr (encode_log_entry (leaf_entry [1, 2]))"
    using writes_log_entry [of 1048576 "leaf_entry [1, 2]"]
    by (simp add: writes_def loggable_def leaf_entry_def LogEntry_Reset_def encode_log_entry_def encode_variable_def
        del: be_bytes.simps)
  have l: "length (encode_log_entry (leaf_entry [1, 2])) = 7"
    by (simp add: leaf_entry_def LogEntry_Reset_def encode_log_entry_def encode_variable_def del: be_bytes.simps)
  let ?d = "encode_signed_data t (encode_log_entry (leaf_entry [1, 2])) []"
  have d: "length ?d = 19"
    using l by (simp add: encode_signed_data_def encode_variable_def del: be_bytes.simps)
  then have s: "EncodeV1SCTSignedData 1048576 t (encode_log_entry (leaf_entry [1, 2])) [] [] = Inr ?d"
    using writes_signed_data [of "[]" 1048576 t "encode_log_entry (leaf_entry [1, 2])"]
    by (simp add: writes_def)
  have b: "BufferToInput ?d = Inr ?d" "BufferToInput (encode_log_entry (leaf_entry [1, 2])) =
      Inr (encode_log_entry (leaf_entry [1, 2]))"
    "wf_Input b \<Longrightarrow> BufferToInput b = Inr b" for b
    using d l by (simp_all add: BufferToInput_iff wf_Input_def MAX_INPUT_def)
  show ?thesis
    using e s b
    by (simp add: CTLogVerifier_Verify_def sample_ct_services_def sample_log_def sample_sct_def SignatureParametersMatch_def
        SignatureParametersMatch_DS_def wf_Input_def MAX_INPUT_def VerifyLogSignatureBuffers_def VerifyLogSignature_def
        SHA256_LENGTH_def Let_def)
qed

lemma sample_verified: "CTLogVerifier_Verify sample_ct_services sample_log (leaf_entry [1, 2]) sample_sct = Inr ()"
  using sample_verified_at [of "sct_timestamp sample_sct"] by simp

definition sample_now :: u64 where
  "sample_now = 62135596800 + 1400000000"

definition sample_result :: CTVerifyResult where
  "sample_result = \<lparr>scts = [sample_sct\<lparr>sct_origin := Origin_TLSExtension, sct_status := VS_OK\<rparr>], decodingErrors = 1\<rparr>"

lemma sample_judged: "VerifySCTs sample_ct_services [sample_log] sample_tls_list (leaf_entry [1, 2]) Origin_TLSExtension
    (Time sample_now) CTVerifyResult_Reset = Inr sample_result"
proof -
  let ?s = "sample_sct\<lparr>sct_origin := Origin_TLSExtension\<rparr>"
  have mem: "ct_mem sample_ct_services = 1048576" by (simp add: sample_ct_services_def)
  have t: "\<not> Time sample_now < SCTTime 1400000000000"
    by (simp add: SCTTime_def TimeFromEpoch sample_now_def less_Time_def)
  have "CTLogVerifier_Verify sample_ct_services sample_log (leaf_entry [1, 2]) ?s = Inr ()"
    using sample_verified by (simp only: CTLogVerifier_Verify_cong)
  then have "VerifySingleSCT sample_ct_services [sample_log] ?s (leaf_entry [1, 2]) (Time sample_now) CTVerifyResult_Reset =
      Inr (sample_result\<lparr>decodingErrors := 0\<rparr>)"
    using t by (simp add: VerifySingleSCT_def sample_log_def sample_sct_def SignatureParametersMatch_def
        SignatureParametersMatch_DS_def StoreVerifiedSct_def sample_ct_services_def CTVerifyResult_Reset_def sample_result_def)
  then show ?thesis
    using sample_decoded unfolding VerifySCTs_def sample_list(1) sum.case VerifySCTs_loop_items [OF sample_list(2)]
    by (auto simp: mem decoding_error_def sample_result_def)
qed

section \<open>Properties\<close>

text \<open>C10: What a valid timestamp is. A timestamp that \<open>MultiLogCTVerifier::Verify\<close> reports as valid has the
  identifier of a known log, and the key of that log accepts its signature, made with the log's algorithm
  and SHA-256, over exactly the bytes that RFC 6962 prescribes: its time, its extensions, and the entry that
  belongs to its source - for an embedded timestamp the certificate as it was logged, otherwise the
  certificate itself. Unless it is in the last second before \<open>2 ^ 64\<close> milliseconds, its time is not after the
  given one.\<close>

theorem MultiLogCTVerifier_Verify_valid:
  assumes "MultiLogCTVerifier_Verify env logs cert spki fromCert fromOCSP fromTLS (Time now) = Inr result"
    and "t \<in> set (scts result)" and "sct_status t = VS_OK"
  shows "\<exists>log \<in> set logs. \<exists>entry. mKeyId log = sct_logId t \<and>
    expected_entry env cert spki (sct_origin t) entry \<and> log_signed env log entry t \<and>
    hashAlgorithm (sct_signature t) = HA_SHA256 \<and> signatureAlgorithm (sct_signature t) = mSignatureAlgorithm log \<and>
    (unat (sct_timestamp t) + 999 < 2 ^ 64 \<longrightarrow> unat (sct_timestamp t) \<le> 1000 * (unat now - 62135596800))"
proof -
  obtain entry log where e: "expected_entry env cert spki (sct_origin t) entry" and l: "log_of logs t = Some log"
    and v: "CTLogVerifier_Verify env log entry t = Inr ()" and time: "SCTTime (sct_timestamp t) \<le> Time now"
    using MultiLogCTVerifier_Verify_justified [OF assms(1,2)] assms(3) by auto
  have "log \<in> set logs" using l by (auto simp: log_of_def find_Some_iff)
  then show ?thesis using e CTLogVerifier_Verify_accepts [OF v] SCTTime_not_after [OF time] by blast
qed

theorem MultiLogCTVerifier_Verify_valid_witness:
  "\<exists>result log entry. MultiLogCTVerifier_Verify sample_ct_services [sample_log] [1, 2] [] [] [] sample_tls_list
      (Time sample_now) = Inr result \<and> scts result \<noteq> [] \<and> log_signed sample_ct_services log entry (hd (scts result))"
proof -
  have "length sample_tls_list = 56"
    using length_encode_sample
    by (simp add: sample_tls_list_def encode_variable_def encode_items_def del: be_bytes.simps)
  then have l: "GetLength sample_tls_list > 0" by (simp add: GetLength_def)
  have mem: "ct_mem sample_ct_services = 1048576" by (simp add: sample_ct_services_def)
  have "GetX509LogEntry 1048576 [1, 2] = Inr (leaf_entry [1, 2])"
    by (simp add: GetX509LogEntry_def InputToBuffer_def append_bytes_def leaf_entry_def LogEntry_Reset_def)
  then have v: "MultiLogCTVerifier_Verify sample_ct_services [sample_log] [1, 2] [] [] [] sample_tls_list (Time sample_now) =
      Inr sample_result"
    using sample_judged l mem by (simp add: MultiLogCTVerifier_Verify_def GetLength_def)
  have "hd (scts sample_result) \<in> set (scts sample_result)" "sct_status (hd (scts sample_result)) = VS_OK"
    "scts sample_result \<noteq> []"
    by (simp_all add: sample_result_def)
  with MultiLogCTVerifier_Verify_valid [OF v] v show ?thesis by blast
qed

text \<open>No timestamp is lost or judged twice. For a list whose items can be told apart, \<open>VerifySCTs\<close> adds
  the timestamps that can be decoded to the result, in order and with a justified status each, and counts
  the others as errors; what was in the result before stays.\<close>

lemma VerifySCTs_accounts:
  assumes "DecodeSCTList l = Inr r" and "ReadSCTListItems r = Inr items"
    and "VerifySCTs env logs l entry origin time result = Inr result'"
  shows "\<exists>new. scts result' = scts result @ new \<and> judged env logs entry origin time (decoded (ct_mem env) items) new \<and>
    decodingErrors result' + length new = decodingErrors result + length items"
  using VerifySCTs_items_judges assms(3) VerifySCTs_loop_items [OF assms(2)] assms(1) by (simp add: VerifySCTs_def)

text \<open>C34: A timestamp of the end of time. The rounding of milliseconds to seconds is done in 64 bits. If a log
  has signed a time in the last 999 milliseconds that 64 bits can express, the sum wraps around and the
  timestamp counts as one of the first second of 1970: it is reported as valid at every later time, although it is
  half a billion years in the future.\<close>

theorem VerifySingleSCT_wraps:
  assumes "log_of logs s = Some log" and "CTLogVerifier_Verify env log entry s = Inr ()"
    and "2 ^ 64 \<le> unat (sct_timestamp s) + 999" and "Time 62135596800 \<le> time"
    and "length (scts result) < ct_vector env"
  shows "VerifySingleSCT env logs s entry time result = Inr (result\<lparr>scts := scts result @ [s\<lparr>sct_status := VS_OK\<rparr>]\<rparr>)"
proof -
  have "SignatureParametersMatch log (sct_signature s)" using assms(2) by (auto simp: CTLogVerifier_Verify_def split: if_splits)
  then show ?thesis
    using assms SCTTime_wraps [OF assms(3)] by (simp add: VerifySingleSCT_def log_of_def StoreVerifiedSct_def not_less)
qed

theorem VerifySingleSCT_wraps_witness:
  "\<exists>s. sct_timestamp s = 18446744073709551615 \<and>
    VerifySingleSCT sample_ct_services [sample_log] s (leaf_entry [1, 2]) (Time sample_now) CTVerifyResult_Reset =
      Inr \<lparr>scts = [s\<lparr>sct_status := VS_OK\<rparr>], decodingErrors = 0\<rparr>"
proof -
  let ?s = "sample_sct\<lparr>sct_timestamp := 18446744073709551615\<rparr>"
  have v: "CTLogVerifier_Verify sample_ct_services sample_log (leaf_entry [1, 2]) ?s = Inr ()"
    using sample_verified_at [of 18446744073709551615] .
  have "log_of [sample_log] ?s = Some sample_log" by (simp add: log_of_def sample_log_def sample_sct_def)
  from VerifySingleSCT_wraps [OF this v, of "Time sample_now" CTVerifyResult_Reset] show ?thesis
    by (intro exI [of _ ?s]) (simp add: sample_now_def less_eq_Time_def CTVerifyResult_Reset_def sample_ct_services_def)
qed


definition long_sct :: SignedCertificateTimestamp where
  "long_sct = sample_sct\<lparr>sct_extensions := replicate 65400 0\<rparr>"

lemma long_sct_list:
  "DecodeSCTList (encode_variable 2 (encode_items [encode_sct long_sct, encode_sct sample_sct])) =
     Inr (Reader_of (encode_items [encode_sct long_sct, encode_sct sample_sct]))"
  "ReadSCTListItems (Reader_of (encode_items [encode_sct long_sct, encode_sct sample_sct])) =
     Inr ([] @ encode_sct long_sct # [encode_sct sample_sct])"
  "\<exists>q. DecodeSignedCertificateTimestamp 1048576 (Reader_of (encode_sct long_sct)) = Inr (long_sct, q)"
  "wf_Input (encode_variable 2 (encode_items [encode_sct long_sct, encode_sct sample_sct]))"
proof -
  let ?items = "encode_items [encode_sct long_sct, encode_sct sample_sct]"
  have long: "length (encode_sct long_sct) = 65449"
    by (simp add: encode_sct_def encode_digitally_signed_def long_sct_def sample_sct_def del: be_bytes.simps)
  then have l: "length ?items = 65502"
    using length_encode_sample by (simp add: encode_items_def encode_variable_def del: be_bytes.simps)
  then show wf: "wf_Input (encode_variable 2 ?items)"
    by (simp add: encode_variable_def wf_Input_def MAX_INPUT_def del: be_bytes.simps)
  have "\<exists>body rest. encode_variable 2 ?items = encode_variable 2 body @ rest \<and> length body < 65536 \<and>
      Reader_of ?items = Reader_of body"
    using l by (intro exI [of _ ?items] exI [of _ "[]"]) simp
  then show "DecodeSCTList (encode_variable 2 ?items) = Inr (Reader_of ?items)" by (simp only: DecodeSCTList_iff [OF wf])
  have "proper_item (encode_sct long_sct)" "proper_item (encode_sct sample_sct)"
    using long length_encode_sample by (auto simp: proper_item_def)
  moreover have "wf_Input ?items" using l by (simp add: wf_Input_def MAX_INPUT_def)
  ultimately show "ReadSCTListItems (Reader_of ?items) = Inr ([] @ encode_sct long_sct # [encode_sct sample_sct])"
    by (simp add: ReadSCTListItems_iff)
  have w: "wf_Input (encode_sct long_sct)" by (simp add: wf_Input_def MAX_INPUT_def long)
  then have "bytes_at (Reader_of (encode_sct long_sct)) (encode_sct long_sct)
      (advance (length (encode_sct long_sct)) (Reader_of (encode_sct long_sct)))"
    by (simp add: bytes_at_def)
  moreover have "sct_storable 1048576 long_sct \<and> undecided long_sct"
    by (simp add: sct_storable_def storable_def undecided_def long_sct_def sample_sct_def)
  ultimately show "\<exists>q. DecodeSignedCertificateTimestamp 1048576 (Reader_of (encode_sct long_sct)) = Inr (long_sct, q)"
    using timestamp.accepts [OF wf_Reader_of [OF w], of 1048576 long_sct] by blast
qed


end
