(* ===== verification/PsmCertVerifier.thy ===== *)
theory PsmCertVerifier
  imports PsmRevocation PsmExtendedValidation CtVerifier
begin

text \<open>
  \<^verbatim>\<open>security/certverifier/CertVerifier.cpp\<close>: the verification of a certificate for a usage. It builds
  trust domains from the preferences, asks mozilla::pkix for a chain with one configuration after the other,
  and for the server of a TLS connection also checks the timestamps, the TLS features and the host name.

  The state of an \<open>NSSCertDBTrustDomain\<close> is a function of the calls that path building makes of it: the
  answers of the \<open>TrustDomain\<close> that is given to \<open>BuildCertChain\<close> are those of the state after the calls
  so far, and the state afterwards is that after all calls.
\<close>

section \<open>Configuration\<close>

datatype KeySizeStatus = KeySize_NeverChecked | LargeMinimumSucceeded | CompatibilityRisk | AlreadyBad

datatype SHA1ModeResult =
    SHA1_NeverChecked | SucceededWithoutSHA1 | SucceededWithImportedRoot | SucceededWithImportedRootOrSHA1Before2016
  | SucceededWithSHA1 | SHA1_Failed

datatype OcspDownloadConfig = ocspOff | ocspOn | ocspEVOnly

datatype CertificateTransparencyMode = CT_Disabled | CT_TelemetryOnly

datatype SECCertificateUsage =
    certificateUsageSSLClient | certificateUsageSSLServer | certificateUsageSSLCA | certificateUsageEmailSigner
  | certificateUsageEmailRecipient | certificateUsageObjectSigner | certificateUsageVerifyCA
  | certificateUsageStatusResponder | certificateUsageOther

record CertificateTransparencyInfo =
  cti_enabled :: bool
  processedSCTs :: bool
  verifyResult :: CTVerifyResult

definition CertificateTransparencyInfo_Reset :: CertificateTransparencyInfo where
  "CertificateTransparencyInfo_Reset =
     \<lparr>cti_enabled = False, processedSCTs = False, verifyResult = CTVerifyResult_Reset\<rparr>"

definition FLAG_LOCAL_ONLY :: u32 where "FLAG_LOCAL_ONLY = 1"
definition FLAG_MUST_BE_EV :: u32 where "FLAG_MUST_BE_EV = 2"
definition FLAG_TLS_IGNORE_STATUS_REQUEST :: u32 where "FLAG_TLS_IGNORE_STATUS_REQUEST = 4"

text \<open>The members of \<open>CertVerifier\<close>, which its constructor sets, but for the OCSP cache.\<close>

record CertVerifier =
  cv_OCSPDownloadConfig :: OcspDownloadConfig
  cv_OCSPStrict :: bool
  cv_OCSPGETEnabled :: bool
  cv_CertShortLifetimeInDays :: u32
  cv_PinningMode :: PinningMode
  cv_SHA1Mode :: SHA1Mode
  cv_NameMatchingMode :: BRMode
  cv_NetscapeStepUpPolicy :: NetscapeStepUpPolicy
  cv_CTMode :: CertificateTransparencyMode
  cv_CTLogs :: "CTLogVerifier list"

text \<open>The services, and what is in two variables before they are written: the policy for EV and the buffer for
  the address of a host.\<close>

record verifier_env =
  env_services :: services
  env_ev :: ev_services
  env_ct :: ct_services
  env_evPolicy :: CertPolicyId
  env_ipv6 :: "u8 list"

text \<open>The parameters of a verification that it does not write.\<close>

record verify_args =
  va_time :: Time
  va_hostname :: "string option"
  va_flags :: u32
  va_stapled :: "u8 list option"
  va_sctsFromTLS :: "u8 list option"
  va_firstPartyDomain :: "u8 list"

text \<open>What it writes: the state of the trust domain in use (with the cache), \<open>builtChain\<close>, and the optional
  out-parameters, which are \<open>None\<close> if the caller does not ask for them.\<close>

record verify_state =
  vs_domain :: domain_state
  vs_builtChain :: "CERTCertificate list option"
  vs_evOidPolicy :: "SECOidTag option"
  vs_ocspStaplingStatus :: "OCSPStaplingStatus option"
  vs_keySizeStatus :: "KeySizeStatus option"
  vs_sha1ModeResult :: "SHA1ModeResult option"
  vs_ctInfo :: "CertificateTransparencyInfo option"

definition domain_services :: "verifier_env \<Rightarrow> services" where
  "domain_services env =
     (env_services env)\<lparr>authoritativeForEV := CertIsAuthoritativeForEVPolicy (env_ev env)\<rparr>"

section \<open>The trust domain with its state\<close>

fun td_step ::
  "NSSCertDBTrustDomain \<Rightarrow> services \<Rightarrow> td_event \<Rightarrow> domain_state \<times> CERTCertificate list option \<Rightarrow>
     domain_state \<times> CERTCertificate list option" where
  "td_step cfg sv (IsChainValid_called ders t) (s, chain) =
     (s, case IsChainValid_NSS cfg sv ders t of Inl _ \<Rightarrow> chain | Inr certList \<Rightarrow> Some certList)"
| "td_step cfg sv (CheckRevocation_called eeOrCA cid t du stapled aia) (s, chain) =
     (snd (CheckRevocation_NSS cfg sv eeOrCA cid t du stapled aia s), chain)"
| "td_step cfg sv (NoteAuxiliaryExtension_called ext v) (s, chain) = (NoteAuxiliaryExtension_NSS ext v s, chain)"

definition after_calls ::
  "NSSCertDBTrustDomain \<Rightarrow> services \<Rightarrow> td_event list \<Rightarrow> domain_state \<times> CERTCertificate list option \<Rightarrow>
     domain_state \<times> CERTCertificate list option" where
  "after_calls cfg sv calls = fold (td_step cfg sv) calls"

definition NSS_TrustDomain :: "NSSCertDBTrustDomain \<Rightarrow> services \<Rightarrow> domain_state \<Rightarrow> TrustDomain" where
  "NSS_TrustDomain cfg sv s =
     \<lparr>GetCertTrust = GetCertTrust_NSS cfg sv,
      FindIssuer = FindIssuer_NSS sv,
      IsChainValid = (\<lambda>calls ders t. case IsChainValid_NSS cfg sv ders t of Inl e \<Rightarrow> Inl e | Inr _ \<Rightarrow> Inr ()),
      CheckRevocation = (\<lambda>calls eeOrCA cid t du stapled aia.
        fst (CheckRevocation_NSS cfg sv eeOrCA cid t du stapled aia (fst (after_calls cfg sv calls (s, None))))),
      CheckSignatureDigestAlgorithm = CheckSignatureDigestAlgorithm_NSS cfg,
      CheckRSAPublicKeyModulusSizeInBits = CheckRSAPublicKeyModulusSizeInBits_NSS cfg,
      VerifyRSAPKCS1SignedDigest = verifyRSA sv,
      CheckECDSACurveIsAcceptable = CheckECDSACurveIsAcceptable_NSS,
      VerifyECDSASignedDigest = verifyECDSA sv,
      CheckValidityIsAcceptable = CheckValidityIsAcceptable_NSS cfg,
      NetscapeStepUpMatchesServerAuth = NetscapeStepUpMatchesServerAuth_NSS cfg,
      DigestBuf = digestBuf sv\<rparr>"

definition BuildCertChain_NSS ::
  "NSSCertDBTrustDomain \<Rightarrow> services \<Rightarrow> Input \<Rightarrow> Time \<Rightarrow> EndEntityOrCA \<Rightarrow> KeyUsage \<Rightarrow> KeyPurposeId \<Rightarrow> CertPolicyId \<Rightarrow>
     Input option \<Rightarrow> verify_state \<Rightarrow> unit res \<times> verify_state" where
  "BuildCertChain_NSS cfg sv certDER time eeOrCA ku eku policy stapled s =
     (let (rv, calls) = BuildCertChain (NSS_TrustDomain cfg sv (vs_domain s)) certDER time eeOrCA ku eku policy stapled [];
          (domain, chain) = after_calls cfg sv calls (vs_domain s, vs_builtChain s)
      in (rv, s\<lparr>vs_domain := domain, vs_builtChain := chain\<rparr>))"

text \<open>\<open>ResetAccumulatedState\<close>; a new trust domain is in the same state.\<close>

definition reset_domain :: "verify_state \<Rightarrow> verify_state" where
  "reset_domain s = s\<lparr>vs_domain := ResetAccumulatedState (vs_domain s)\<rparr>"

definition BuildCertChainForOneKeyUsage ::
  "NSSCertDBTrustDomain \<Rightarrow> services \<Rightarrow> Input \<Rightarrow> Time \<Rightarrow> KeyUsage \<Rightarrow> KeyUsage \<Rightarrow> KeyUsage \<Rightarrow> KeyPurposeId \<Rightarrow> CertPolicyId \<Rightarrow>
     Input option \<Rightarrow> verify_state \<Rightarrow> unit res \<times> verify_state" where
  "BuildCertChainForOneKeyUsage cfg sv certDER time ku1 ku2 ku3 eku policy stapled s =
     (let build = (\<lambda>ku s. BuildCertChain_NSS cfg sv certDER time MustBeEndEntity ku eku policy stapled
                     (reset_domain s));
          (rv, s) = build ku1 s;
          (rv, s) =
            (if rv = Inl ERROR_INADEQUATE_KEY_USAGE then
               let (rv, s) = build ku2 s in
               if rv = Inl ERROR_INADEQUATE_KEY_USAGE then
                 let (rv, s) = build ku3 s in
                 (if rv \<noteq> Inr () then Inl ERROR_INADEQUATE_KEY_USAGE else rv, s)
               else (rv, s)
             else (rv, s))
      in (rv, s\<lparr>vs_ocspStaplingStatus :=
                  map_option (\<lambda>_. mOCSPStaplingStatus (vs_domain s)) (vs_ocspStaplingStatus s)\<rparr>))"

section \<open>The timestamps\<close>

text \<open>A known log whose key cannot be used is left out.\<close>

fun LoadKnownCTLogs :: "ct_services \<Rightarrow> u8 list list \<Rightarrow> CTLogVerifier list \<Rightarrow> CTLogVerifier list" where
  "LoadKnownCTLogs env [] mLogs = mLogs"
| "LoadKnownCTLogs env (logKey # kCTLogList) mLogs =
     (case Input_Init None (Some logKey) of
        Inl _ \<Rightarrow> LoadKnownCTLogs env kCTLogList mLogs
      | Inr publicKey \<Rightarrow>
          (case AddLog env mLogs publicKey of
             Inl _ \<Rightarrow> LoadKnownCTLogs env kCTLogList mLogs
           | Inr mLogs \<Rightarrow> LoadKnownCTLogs env kCTLogList mLogs))"

definition SECItemToInput :: "Input option \<Rightarrow> Input" where
  "SECItemToInput item =
     (case item of None \<Rightarrow> [] | Some bytes \<Rightarrow> (case Input_Init None (Some bytes) of Inl _ \<Rightarrow> [] | Inr i \<Rightarrow> i))"

definition VerifySignedCertificateTimestamps ::
  "CertVerifier \<Rightarrow> verifier_env \<Rightarrow> domain_state \<Rightarrow> CERTCertificate list option \<Rightarrow> Input \<Rightarrow> Time \<Rightarrow>
     CertificateTransparencyInfo option \<Rightarrow> unit res \<times> CertificateTransparencyInfo option" where
  "VerifySignedCertificateTimestamps cv env domain builtChain sctsFromTLS time ctInfo =
     (let ctInfo = map_option (\<lambda>_. CertificateTransparencyInfo_Reset) ctInfo in
      if cv_CTMode cv = CT_Disabled then (Inr (), ctInfo)
      else
        let ctInfo = map_option (\<lambda>info. info\<lparr>cti_enabled := True\<rparr>) ctInfo in
        case builtChain of
          None \<Rightarrow> (Inl FATAL_ERROR_INVALID_ARGS, ctInfo)
        | Some [] \<Rightarrow> (Inl FATAL_ERROR_INVALID_ARGS, ctInfo)
        | Some (endEntity # issuers) \<Rightarrow>
            let embeddedSCTs = SECItemToInput (mSCTListFromCertificate domain);
                sctsFromOCSP = SECItemToInput (mSCTListFromOCSPStapling domain);
                gotScts = (GetLength embeddedSCTs > 0 \<or> GetLength sctsFromOCSP > 0 \<or> GetLength sctsFromTLS > 0)
            in if \<not> gotScts then (Inr (), ctInfo)
               else case issuers of
                 [] \<Rightarrow> (Inr (), ctInfo)
               | issuerCert # _ \<Rightarrow>
                   (case Input_Init None (Some (derCert endEntity)) of
                      Inl e \<Rightarrow> (Inl e, ctInfo)
                    | Inr endEntityDER \<Rightarrow>
                        (case Input_Init None (Some (derPublicKey issuerCert)) of
                           Inl e \<Rightarrow> (Inl e, ctInfo)
                         | Inr issuerPublicKeyDER \<Rightarrow>
                             (case MultiLogCTVerifier_Verify (env_ct env) (cv_CTLogs cv) endEntityDER issuerPublicKeyDER
                                     embeddedSCTs sctsFromOCSP sctsFromTLS time of
                                Inl e \<Rightarrow> (Inl e, ctInfo)
                              | Inr result \<Rightarrow>
                                  (Inr (),
                                   map_option (\<lambda>info. info\<lparr>processedSCTs := True, verifyResult := result\<rparr>) ctInfo)))))"

section \<open>The configurations for a server\<close>

definition IsCertChainRootBuiltInRoot :: "CERTCertificate list option \<Rightarrow> bool res" where
  "IsCertChainRootBuiltInRoot chain =
     (case chain of
        None \<Rightarrow> Inl FATAL_ERROR_LIBRARY_FAILURE
      | Some certs \<Rightarrow> if certs = [] then Inl FATAL_ERROR_LIBRARY_FAILURE else builtInRoot (last certs))"

definition SHA1ModeMoreRestrictiveThanGivenMode :: "CertVerifier \<Rightarrow> SHA1Mode \<Rightarrow> bool" where
  "SHA1ModeMoreRestrictiveThanGivenMode cv mode =
     (case cv_SHA1Mode cv of
        SHA1_Forbidden \<Rightarrow> mode \<noteq> SHA1_Forbidden
      | ImportedRoot \<Rightarrow> mode \<noteq> SHA1_Forbidden \<and> mode \<noteq> ImportedRoot
      | ImportedRootOrBefore2016 \<Rightarrow> mode = SHA1_Allowed
      | SHA1_Allowed \<Rightarrow> False
      | UsedToBeBefore2016ButNowIsForbidden \<Rightarrow> True)"

definition MIN_RSA_BITS :: u32 where "MIN_RSA_BITS = 2048"
definition MIN_RSA_BITS_WEAK :: u32 where "MIN_RSA_BITS_WEAK = 1024"

text \<open>The configuration of a trust domain; the other parameters of its constructor come from the verifier.\<close>

definition domain_config ::
  "CertVerifier \<Rightarrow> verify_args \<Rightarrow> SECTrustType \<Rightarrow> OCSPFetching \<Rightarrow> PinningMode \<Rightarrow> u32 \<Rightarrow> ValidityCheckingMode \<Rightarrow>
     SHA1Mode \<Rightarrow> NetscapeStepUpPolicy \<Rightarrow> string option \<Rightarrow> NSSCertDBTrustDomain" where
  "domain_config cv args trust fetching pinning minRSABits validityMode sha1Mode stepUp hostname =
     \<lparr>mCertDBTrustType = trust, mOCSPFetching = fetching, mCertShortLifetimeInDays = cv_CertShortLifetimeInDays cv,
      mPinningMode = pinning, mMinRSABits = minRSABits, mValidityCheckingMode = validityMode, mSHA1Mode = sha1Mode,
      mNetscapeStepUpPolicy = stepUp, mFirstPartyDomain = va_firstPartyDomain args,
      mOCSPGetEnabled = cv_OCSPGETEnabled cv, mHostname = hostname\<rparr>"

definition defaultOCSPFetching :: "CertVerifier \<Rightarrow> u32 \<Rightarrow> OCSPFetching" where
  "defaultOCSPFetching cv flags =
     (if cv_OCSPDownloadConfig cv = ocspOff \<or> cv_OCSPDownloadConfig cv = ocspEVOnly \<or> flags AND FLAG_LOCAL_ONLY \<noteq> 0
      then NeverFetchOCSP
      else if \<not> cv_OCSPStrict cv then FetchOCSPForDVSoftFail
      else FetchOCSPForDVHardFail)"

definition evOCSPFetching :: "CertVerifier \<Rightarrow> u32 \<Rightarrow> OCSPFetching" where
  "evOCSPFetching cv flags =
     (if cv_OCSPDownloadConfig cv = ocspOff \<or> flags AND FLAG_LOCAL_ONLY \<noteq> 0 then LocalOnlyOCSPForEV else FetchOCSPForEV)"

definition sha1ModeConfigurations :: "(SHA1Mode \<times> SHA1ModeResult) list" where
  "sha1ModeConfigurations =
     [(SHA1_Forbidden, SucceededWithoutSHA1),
      (ImportedRoot, SucceededWithImportedRoot),
      (ImportedRootOrBefore2016, SucceededWithImportedRootOrSHA1Before2016),
      (SHA1_Allowed, SucceededWithSHA1)]"

text \<open>One configuration: the status, whether the loop is to be left although it is not a success, and the state. \<open>note\<close>
  sets the out-parameters after a chain has been found.\<close>

definition TryConfiguration ::
  "CertVerifier \<Rightarrow> verifier_env \<Rightarrow> verify_args \<Rightarrow> NSSCertDBTrustDomain \<Rightarrow> Input \<Rightarrow> CertPolicyId \<Rightarrow> Input option \<Rightarrow> Input \<Rightarrow>
     (verify_state \<Rightarrow> verify_state) \<Rightarrow> verify_state \<Rightarrow> unit res \<times> bool \<times> verify_state" where
  "TryConfiguration cv env args cfg certDER policy stapled sctsFromTLS noted s =
     (let (rv, s) = BuildCertChainForOneKeyUsage cfg (domain_services env) certDER (va_time args) digitalSignature
                      keyEncipherment keyAgreement id_kp_serverAuth policy stapled (reset_domain s)
      in case rv of
        Inl e \<Rightarrow> (Inl e, False, s)
      | Inr _ \<Rightarrow>
          (case (if mSHA1Mode cfg = ImportedRoot then IsCertChainRootBuiltInRoot (vs_builtChain s) else Inr False) of
             Inl e \<Rightarrow> (Inl e, True, s)
           | Inr isBuiltInRoot \<Rightarrow>
               if isBuiltInRoot then (Inl ERROR_CERT_SIGNATURE_ALGORITHM_DISABLED, False, s)
               else
                 let s = noted s;
                     (rv, ctInfo) = VerifySignedCertificateTimestamps cv env (vs_domain s) (vs_builtChain s) sctsFromTLS
                                      (va_time args) (vs_ctInfo s)
                 in (rv, rv \<noteq> Inr (), s\<lparr>vs_ctInfo := ctInfo\<rparr>)))"

fun TryModes ::
  "CertVerifier \<Rightarrow> verifier_env \<Rightarrow> verify_args \<Rightarrow> (SHA1Mode \<Rightarrow> NSSCertDBTrustDomain) \<Rightarrow> Input \<Rightarrow> CertPolicyId \<Rightarrow>
     Input option \<Rightarrow> Input \<Rightarrow> (SHA1ModeResult \<Rightarrow> verify_state \<Rightarrow> verify_state) \<Rightarrow> (SHA1Mode \<times> SHA1ModeResult) list \<Rightarrow>
     unit res \<Rightarrow> verify_state \<Rightarrow> unit res \<times> verify_state" where
  "TryModes cv env args config certDER policy stapled sctsFromTLS noted [] rv s = (rv, s)"
| "TryModes cv env args config certDER policy stapled sctsFromTLS noted ((mode, result) # modes) rv s =
     (if rv = Inr () then (rv, s)
      else if SHA1ModeMoreRestrictiveThanGivenMode cv mode
      then TryModes cv env args config certDER policy stapled sctsFromTLS noted modes rv s
      else
        case TryConfiguration cv env args (config mode) certDER policy stapled sctsFromTLS (noted result) s of
          (rv, leave, s) \<Rightarrow>
            if leave then (rv, s)
            else TryModes cv env args config certDER policy stapled sctsFromTLS noted modes rv s)"

definition EVConfiguration :: "CertVerifier \<Rightarrow> verify_args \<Rightarrow> SHA1Mode \<Rightarrow> NSSCertDBTrustDomain" where
  "EVConfiguration cv args mode =
     domain_config cv args trustSSL (evOCSPFetching cv (va_flags args)) (cv_PinningMode cv) MIN_RSA_BITS CheckForEV mode
       (cv_NetscapeStepUpPolicy cv) (va_hostname args)"

definition DVConfiguration :: "CertVerifier \<Rightarrow> verify_args \<Rightarrow> u32 \<Rightarrow> SHA1Mode \<Rightarrow> NSSCertDBTrustDomain" where
  "DVConfiguration cv args keySize mode =
     domain_config cv args trustSSL (defaultOCSPFetching cv (va_flags args)) (cv_PinningMode cv) keySize CheckingOff mode
       (cv_NetscapeStepUpPolicy cv) (va_hostname args)"

definition note_EV :: "SECOidTag \<Rightarrow> SHA1ModeResult \<Rightarrow> verify_state \<Rightarrow> verify_state" where
  "note_EV evPolicyOidTag result s =
     s\<lparr>vs_evOidPolicy := map_option (\<lambda>_. evPolicyOidTag) (vs_evOidPolicy s),
       vs_sha1ModeResult := map_option (\<lambda>_. result) (vs_sha1ModeResult s)\<rparr>"

definition note_DV :: "KeySizeStatus \<Rightarrow> SHA1ModeResult \<Rightarrow> verify_state \<Rightarrow> verify_state" where
  "note_DV keySizeStatus result s =
     s\<lparr>vs_keySizeStatus := map_option (\<lambda>_. keySizeStatus) (vs_keySizeStatus s),
       vs_sha1ModeResult := map_option (\<lambda>_. result) (vs_sha1ModeResult s)\<rparr>"

definition keySizeConfigurations :: "(u32 \<times> KeySizeStatus) list" where
  "keySizeConfigurations = [(MIN_RSA_BITS, LargeMinimumSucceeded), (MIN_RSA_BITS_WEAK, CompatibilityRisk)]"

text \<open>A failure that leaves the inner loop does not leave the outer one.\<close>

fun TryKeySizes ::
  "CertVerifier \<Rightarrow> verifier_env \<Rightarrow> verify_args \<Rightarrow> Input \<Rightarrow> Input option \<Rightarrow> Input \<Rightarrow> (u32 \<times> KeySizeStatus) list \<Rightarrow>
     unit res \<Rightarrow> verify_state \<Rightarrow> unit res \<times> verify_state" where
  "TryKeySizes cv env args certDER stapled sctsFromTLS [] rv s = (rv, s)"
| "TryKeySizes cv env args certDER stapled sctsFromTLS ((keySize, status) # keySizes) rv s =
     (if rv = Inr () then (rv, s)
      else
        let (rv, s) = TryModes cv env args (DVConfiguration cv args keySize) certDER CertPolicyId_anyPolicy stapled
                        sctsFromTLS (note_DV status) sha1ModeConfigurations rv s
        in TryKeySizes cv env args certDER stapled sctsFromTLS keySizes rv s)"

definition TryEV ::
  "CertVerifier \<Rightarrow> verifier_env \<Rightarrow> verify_args \<Rightarrow> Input \<Rightarrow> Input option \<Rightarrow> Input \<Rightarrow> verify_state \<Rightarrow>
     unit res \<times> verify_state" where
  "TryEV cv env args certDER stapled sctsFromTLS s =
     (case GetFirstEVPolicy (env_ev env) (env_evPolicy env) certDER of
        None \<Rightarrow> (Inl ERROR_UNKNOWN_ERROR, s)
      | Some (evPolicy, evPolicyOidTag) \<Rightarrow>
          TryModes cv env args (EVConfiguration cv args) certDER evPolicy stapled sctsFromTLS (note_EV evPolicyOidTag)
            sha1ModeConfigurations (Inl ERROR_UNKNOWN_ERROR) s)"

definition VerifyServer ::
  "CertVerifier \<Rightarrow> verifier_env \<Rightarrow> verify_args \<Rightarrow> Input \<Rightarrow> Input option \<Rightarrow> Input \<Rightarrow> verify_state \<Rightarrow>
     unit res \<times> verify_state" where
  "VerifyServer cv env args certDER stapled sctsFromTLS s =
     (let (rv, s) = TryEV cv env args certDER stapled sctsFromTLS s in
      if rv = Inr () then (rv, s)
      else if va_flags args AND FLAG_MUST_BE_EV \<noteq> 0 then (Inl ERROR_POLICY_VALIDATION_FAILED, s)
      else
        let (rv, s) = TryKeySizes cv env args certDER stapled sctsFromTLS keySizeConfigurations rv s in
        if rv = Inr () then (rv, s)
        else (rv, s\<lparr>vs_keySizeStatus := map_option (\<lambda>_. AlreadyBad) (vs_keySizeStatus s),
                    vs_sha1ModeResult :=
                      if cv_SHA1Mode cv = ImportedRoot then map_option (\<lambda>_. SHA1_Failed) (vs_sha1ModeResult s)
                      else vs_sha1ModeResult s\<rparr>))"

section \<open>The other usages\<close>

definition lenient_config :: "CertVerifier \<Rightarrow> verify_args \<Rightarrow> SECTrustType \<Rightarrow> NetscapeStepUpPolicy \<Rightarrow> NSSCertDBTrustDomain" where
  "lenient_config cv args trust stepUp =
     domain_config cv args trust (defaultOCSPFetching cv (va_flags args)) pinningDisabled MIN_RSA_BITS_WEAK CheckingOff
       SHA1_Allowed stepUp None"

text \<open>A chain for a new trust domain, or for the one in use.\<close>

definition BuildFor ::
  "verifier_env \<Rightarrow> verify_args \<Rightarrow> NSSCertDBTrustDomain \<Rightarrow> Input \<Rightarrow> EndEntityOrCA \<Rightarrow> KeyUsage \<Rightarrow> KeyPurposeId \<Rightarrow>
     Input option \<Rightarrow> verify_state \<Rightarrow> unit res \<times> verify_state" where
  "BuildFor env args cfg certDER eeOrCA ku eku stapled s =
     BuildCertChain_NSS cfg (domain_services env) certDER (va_time args) eeOrCA ku eku CertPolicyId_anyPolicy stapled s"

definition VerifyEmail ::
  "CertVerifier \<Rightarrow> verifier_env \<Rightarrow> verify_args \<Rightarrow> Input \<Rightarrow> KeyUsage \<Rightarrow> KeyUsage \<Rightarrow> Input option \<Rightarrow> verify_state \<Rightarrow>
     unit res \<times> verify_state" where
  "VerifyEmail cv env args certDER ku1 ku2 stapled s =
     (let build = (\<lambda>ku. BuildFor env args (lenient_config cv args trustEmail NeverMatch) certDER MustBeEndEntity ku
                     id_kp_emailProtection stapled);
          (rv, s) = build ku1 (reset_domain s)
      in if rv = Inl ERROR_INADEQUATE_KEY_USAGE then build ku2 s else (rv, s))"

text \<open>The trust types are tried as long as no issuer is known.\<close>

fun TryTrustTypes ::
  "CertVerifier \<Rightarrow> verifier_env \<Rightarrow> verify_args \<Rightarrow> Input \<Rightarrow> EndEntityOrCA \<Rightarrow> KeyUsage \<Rightarrow> KeyPurposeId \<Rightarrow> Input option \<Rightarrow>
     SECTrustType list \<Rightarrow> unit res \<Rightarrow> verify_state \<Rightarrow> unit res \<times> verify_state" where
  "TryTrustTypes cv env args certDER eeOrCA ku eku stapled [] rv s = (rv, s)"
| "TryTrustTypes cv env args certDER eeOrCA ku eku stapled (trust # trusts) rv s =
     (if rv = Inl ERROR_UNKNOWN_ISSUER then
        let (rv, s) = BuildFor env args (lenient_config cv args trust NeverMatch) certDER eeOrCA ku eku stapled
                        (reset_domain s)
        in TryTrustTypes cv env args certDER eeOrCA ku eku stapled trusts rv s
      else (rv, s))"

definition VerifyUsage ::
  "CertVerifier \<Rightarrow> verifier_env \<Rightarrow> verify_args \<Rightarrow> SECCertificateUsage \<Rightarrow> Input \<Rightarrow> Input option \<Rightarrow> Input \<Rightarrow>
     verify_state \<Rightarrow> unit res \<times> verify_state" where
  "VerifyUsage cv env args usage certDER stapled sctsFromTLS s =
     (let any = (\<lambda>eeOrCA ku eku.
            TryTrustTypes cv env args certDER eeOrCA ku eku stapled [trustSSL, trustEmail, trustObjectSigning]
              (Inl ERROR_UNKNOWN_ISSUER) s)
      in case usage of
        certificateUsageSSLClient \<Rightarrow>
          BuildFor env args (lenient_config cv args trustEmail NeverMatch) certDER MustBeEndEntity digitalSignature
            id_kp_clientAuth stapled (reset_domain s)
      | certificateUsageSSLServer \<Rightarrow> VerifyServer cv env args certDER stapled sctsFromTLS s
      | certificateUsageSSLCA \<Rightarrow>
          BuildFor env args (lenient_config cv args trustSSL (cv_NetscapeStepUpPolicy cv)) certDER MustBeCA keyCertSign
            id_kp_serverAuth stapled (reset_domain s)
      | certificateUsageEmailSigner \<Rightarrow> VerifyEmail cv env args certDER digitalSignature nonRepudiation stapled s
      | certificateUsageEmailRecipient \<Rightarrow> VerifyEmail cv env args certDER keyEncipherment keyAgreement stapled s
      | certificateUsageObjectSigner \<Rightarrow>
          BuildFor env args (lenient_config cv args trustObjectSigning NeverMatch) certDER MustBeEndEntity digitalSignature
            id_kp_codeSigning stapled (reset_domain s)
      | certificateUsageVerifyCA \<Rightarrow> any MustBeCA keyCertSign anyExtendedKeyUsage
      | certificateUsageStatusResponder \<Rightarrow> any MustBeEndEntity digitalSignature id_kp_OCSPSigning
      | certificateUsageOther \<Rightarrow> (Inl FATAL_ERROR_INVALID_ARGS, s))"

section \<open>Verification\<close>

text \<open>The out-parameters at the beginning: an error if one is given that is only for servers.\<close>

definition InitOutParameters :: "SECCertificateUsage \<Rightarrow> verify_state \<Rightarrow> unit res \<times> verify_state" where
  "InitOutParameters usage s =
     (let s = s\<lparr>vs_evOidPolicy := map_option (\<lambda>_. SEC_OID_UNKNOWN) (vs_evOidPolicy s)\<rparr> in
      if vs_ocspStaplingStatus s \<noteq> None \<and> usage \<noteq> certificateUsageSSLServer then (Inl FATAL_ERROR_INVALID_ARGS, s)
      else
        let s = s\<lparr>vs_ocspStaplingStatus := map_option (\<lambda>_. OCSP_STAPLING_NEVER_CHECKED) (vs_ocspStaplingStatus s)\<rparr> in
        if vs_keySizeStatus s \<noteq> None \<and> usage \<noteq> certificateUsageSSLServer then (Inl FATAL_ERROR_INVALID_ARGS, s)
        else
          let s = s\<lparr>vs_keySizeStatus := map_option (\<lambda>_. KeySize_NeverChecked) (vs_keySizeStatus s)\<rparr> in
          if vs_sha1ModeResult s \<noteq> None \<and> usage \<noteq> certificateUsageSSLServer then (Inl FATAL_ERROR_INVALID_ARGS, s)
          else (Inr (), s\<lparr>vs_sha1ModeResult := map_option (\<lambda>_. SHA1_NeverChecked) (vs_sha1ModeResult s)\<rparr>))"

text \<open>The optional input of a \<open>SECItem\<close>; too large a stapled response is malformed, too large a list of
  timestamps is ignored.\<close>

definition StapledInput :: "u8 list option \<Rightarrow> (Input option) res" where
  "StapledInput item =
     (case item of
        None \<Rightarrow> Inr None
      | Some bytes \<Rightarrow>
          (case Input_Init None (Some bytes) of
             Inl _ \<Rightarrow> Inl ERROR_OCSP_MALFORMED_RESPONSE
           | Inr response \<Rightarrow> Inr (Some response)))"

definition VerifyCert ::
  "CertVerifier \<Rightarrow> verifier_env \<Rightarrow> verify_args \<Rightarrow> SECCertificateUsage \<Rightarrow> CERTCertificate \<Rightarrow> verify_state \<Rightarrow>
     unit res \<times> verify_state" where
  "VerifyCert cv env args usage cert s =
     (case InitOutParameters usage s of
        (Inl e, s) \<Rightarrow> (Inl e, s)
      | (Inr _, s) \<Rightarrow>
          if usage \<noteq> certificateUsageSSLServer \<and> va_flags args AND FLAG_MUST_BE_EV \<noteq> 0
          then (Inl FATAL_ERROR_INVALID_ARGS, s)
          else case Input_Init None (Some (derCert cert)) of
            Inl e \<Rightarrow> (Inl e, s)
          | Inr certDER \<Rightarrow>
              (case StapledInput (va_stapled args) of
                 Inl e \<Rightarrow> (Inl e, s)
               | Inr stapled \<Rightarrow>
                   VerifyUsage cv env args usage certDER stapled (SECItemToInput (va_sctsFromTLS args)) s))"

definition hostname_bytes :: "string \<Rightarrow> u8 list" where
  "hostname_bytes hostname = map of_char hostname"

text \<open>What is checked after \<open>VerifyCert\<close>.\<close>

definition CheckServerName :: "CertVerifier \<Rightarrow> verifier_env \<Rightarrow> Input \<Rightarrow> string \<Rightarrow> verify_state \<Rightarrow> unit res" where
  "CheckServerName cv env peerCertInput hostname s =
     (case Input_Init None (Some (hostname_bytes hostname)) of
        Inl _ \<Rightarrow> Inl FATAL_ERROR_INVALID_ARGS
      | Inr hostnameInput \<Rightarrow>
          bind_res (IsCertChainRootBuiltInRoot (vs_builtChain s)) (\<lambda>isBuiltInRoot.
          case CheckCertHostname (env_ipv6 env) peerCertInput hostnameInput
                 (BRNameMatchingPolicy (if isBuiltInRoot then cv_NameMatchingMode cv else DoNotEnforce)) of
            Inl e \<Rightarrow> if e = ERROR_BAD_DER then Inl ERROR_BAD_CERT_DOMAIN else Inl e
          | Inr _ \<Rightarrow> Inr ()))"

definition VerifySSLServerCert ::
  "CertVerifier \<Rightarrow> verifier_env \<Rightarrow> verify_args \<Rightarrow> CERTCertificate \<Rightarrow> verify_state \<Rightarrow> unit res \<times> verify_state" where
  "VerifySSLServerCert cv env args peerCert s =
     (let s = s\<lparr>vs_evOidPolicy := map_option (\<lambda>_. SEC_OID_UNKNOWN) (vs_evOidPolicy s)\<rparr> in
      case va_hostname args of
        None \<Rightarrow> (Inl ERROR_BAD_CERT_DOMAIN, s)
      | Some hostname \<Rightarrow>
          if hostname = [] then (Inl ERROR_BAD_CERT_DOMAIN, s)
          else case VerifyCert cv env args certificateUsageSSLServer peerCert s of
            (Inl e, s) \<Rightarrow> (Inl e, s)
          | (Inr _, s) \<Rightarrow>
              (bind_res (Input_Init None (Some (derCert peerCert))) (\<lambda>peerCertInput.
               bind_res (StapledInput (va_stapled args)) (\<lambda>stapled.
               bind_res (if va_flags args AND FLAG_TLS_IGNORE_STATUS_REQUEST = 0
                         then CheckTLSFeaturesAreSatisfied peerCertInput stapled else Inr ()) (\<lambda>_.
               CheckServerName cv env peerCertInput hostname s))), s))"

end
