(* ===== verification/PkixDnsSyntax.thy ===== *)
theory PkixDnsSyntax
  imports PkixDns
begin

text \<open>
  Which strings \<open>IsValidDNSID\<close> of theory \<open>PkixDns\<close> takes for DNS names: the code's one pass
  over the bytes with five variables against a description by the list of labels.
\<close>

section \<open>Labels\<close>

fun labels :: "u8 list \<Rightarrow> u8 list list" where
  "labels [] = [[]]"
| "labels (b # bs) = (if b = c_dot then [] # labels bs else (b # hd (labels bs)) # tl (labels bs))"

definition is_label_byte :: "u8 \<Rightarrow> bool" where
  "is_label_byte b \<longleftrightarrow> is_letter b \<or> is_digit b \<or> b = c_hyphen \<or> b = c_underscore"

definition valid_label :: "u8 list \<Rightarrow> bool" where
  "valid_label l \<longleftrightarrow> l \<noteq> [] \<and> length l \<le> MAX_LABEL_LENGTH \<and> (\<forall>b \<in> set l. is_label_byte b) \<and>
     hd l \<noteq> c_hyphen \<and> last l \<noteq> c_hyphen"

text \<open>\<open>lead\<close>: an empty first label is dropped; \<open>trail\<close>: an empty last one.\<close>

definition drop_lead :: "bool \<Rightarrow> u8 list list \<Rightarrow> u8 list list" where
  "drop_lead lead ls = (if lead \<and> length ls > 1 \<and> hd ls = [] then tl ls else ls)"

definition drop_trail :: "bool \<Rightarrow> u8 list list \<Rightarrow> u8 list list" where
  "drop_trail trail ls = (if trail \<and> length ls > 1 \<and> last ls = [] then butlast ls else ls)"

definition dns_name :: "bool \<Rightarrow> bool \<Rightarrow> nat \<Rightarrow> u8 list \<Rightarrow> bool" where
  "dns_name lead trail n bs \<longleftrightarrow>
     (let ls = drop_trail trail (drop_lead lead (labels bs)) in
      n \<le> length ls \<and> (\<forall>l \<in> set ls. valid_label l) \<and> \<not> (\<forall>b \<in> set (last ls). is_digit b))"

lemma labels_not_Nil [simp]: "labels bs \<noteq> []"
  by (cases bs) auto

lemma labels_snoc:
  "labels (bs @ [b]) = (if b = c_dot then labels bs @ [[]] else butlast (labels bs) @ [last (labels bs) @ [b]])"
proof (induction bs)
  case (Cons a bs)
  obtain l ls where "labels bs = l # ls" by (cases "labels bs") auto
  with Cons show ?case by auto
qed simp

lemma labels_single_Nil: "labels bs = [[]] \<longleftrightarrow> bs = []"
proof (cases bs)
  case (Cons b cs)
  then show ?thesis by (cases "labels cs") auto
qed simp

section \<open>The state after a prefix\<close>

fun dns_run :: "IDRole \<Rightarrow> u8 list \<Rightarrow> dns_state \<Rightarrow> dns_state option" where
  "dns_run role [] s = Some s"
| "dns_run role (b # bs) s =
     (case IsValidDNSID_switch role b s of None \<Rightarrow> None | Some s \<Rightarrow> dns_run role bs (s\<lparr>isFirstByte := False\<rparr>))"

lemma dns_run_append:
  "dns_run role (as @ bs) s = (case dns_run role as s of None \<Rightarrow> None | Some s \<Rightarrow> dns_run role bs s)"
  by (induction as arbitrary: s) (auto split: option.split)

lemma IsValidDNSID_loop_run:
  "wf_Reader r \<Longrightarrow> IsValidDNSID_loop role r s = (if remaining r = [] then None else dns_run role (remaining r) s)"
proof (induction "remaining r" arbitrary: r s)
  case Nil
  then show ?case using Read8_Nil [of r] by (simp add: IsValidDNSID_loop.simps)
next
  case (Cons b bs)
  obtain q where q: "Read8 r = Inr (b, q)" "remaining q = bs" "wf_Reader q"
    using Read8_Cons [OF Cons.prems Cons.hyps(2) [symmetric]] by blast
  have "IsValidDNSID_loop role r s = (case IsValidDNSID_switch role b s of None \<Rightarrow> None
      | Some s \<Rightarrow> dns_run role bs (s\<lparr>isFirstByte := False\<rparr>))"
    using Cons.hyps(1) [OF q(2) [symmetric] q(3)] AtEnd_iff [OF q(3)] q(2)
    by (subst IsValidDNSID_loop.simps) (auto simp: q(1) Let_def split: option.split)
  then show ?case by (simp flip: Cons.hyps(2))
qed

definition partial_label :: "u8 list \<Rightarrow> bool" where
  "partial_label l \<longleftrightarrow> length l \<le> MAX_LABEL_LENGTH \<and> (\<forall>b \<in> set l. is_label_byte b) \<and>
     (l \<noteq> [] \<longrightarrow> hd l \<noteq> c_hyphen)"

definition complete_label :: "u8 list \<Rightarrow> bool" where
  "complete_label l \<longleftrightarrow> partial_label l \<and> l \<noteq> [] \<and> last l \<noteq> c_hyphen"

lemma complete_label_iff: "complete_label l \<longleftrightarrow> valid_label l"
  by (auto simp: complete_label_def partial_label_def valid_label_def)

text \<open>\<open>lead\<close> says that an empty first label is allowed.\<close>

definition prefix_ok :: "bool \<Rightarrow> u8 list list \<Rightarrow> bool" where
  "prefix_ok lead ls \<longleftrightarrow> partial_label (last ls) \<and>
     (\<forall>l \<in> set (butlast (drop_lead lead ls)). complete_label l)"

definition numeric :: "u8 list list \<Rightarrow> bool" where
  "numeric ls \<longleftrightarrow> (\<exists>l. l = last (filter (\<lambda>l. l \<noteq> []) ls) \<and> filter (\<lambda>l. l \<noteq> []) ls \<noteq> [] \<and> (\<forall>b \<in> set l. is_digit b))"

definition dns_start :: "nat \<Rightarrow> bool \<Rightarrow> dns_state" where
  "dns_start dots first =
     \<lparr>dotCount = dots, labelLength = 0, labelIsAllNumeric = False, labelEndsWithHyphen = False,
      isFirstByte = first\<rparr>"

definition dns_state_of :: "nat \<Rightarrow> bool \<Rightarrow> u8 list \<Rightarrow> dns_state" where
  "dns_state_of dots first bs =
     \<lparr>dotCount = dots + (length (labels bs) - 1), labelLength = length (last (labels bs)),
      labelIsAllNumeric = numeric (labels bs),
      labelEndsWithHyphen = (last (labels bs) \<noteq> [] \<and> last (last (labels bs)) = c_hyphen),
      isFirstByte = (first \<and> bs = [])\<rparr>"

lemma byte_classes:
  "is_digit b \<Longrightarrow> \<not> is_letter b \<and> b \<noteq> c_hyphen \<and> b \<noteq> c_dot \<and> b \<noteq> c_underscore"
  "is_letter b \<Longrightarrow> b \<noteq> c_hyphen \<and> b \<noteq> c_dot \<and> b \<noteq> c_underscore"
  by (auto simp: is_digit_def is_letter_def word_le_nat_alt)

lemma dot_class [simp]: "\<not> is_digit c_dot" "\<not> is_letter c_dot"
  by (simp_all add: is_digit_def is_letter_def)

lemma numeric_dot: "numeric (ls @ [[]]) = numeric ls"
  by (simp add: numeric_def)

lemma numeric_byte:
  "ls \<noteq> [] \<Longrightarrow> numeric (butlast ls @ [last ls @ [b]]) \<longleftrightarrow> (\<forall>c \<in> set (last ls). is_digit c) \<and> is_digit b"
  by (auto simp add: numeric_def)

lemma numeric_last: "ls \<noteq> [] \<Longrightarrow> last ls \<noteq> [] \<Longrightarrow> numeric ls \<longleftrightarrow> (\<forall>c \<in> set (last ls). is_digit c)"
proof -
  assume "ls \<noteq> []" "last ls \<noteq> []"
  then obtain as a where "ls = as @ [a]" "a \<noteq> []" by (metis append_butlast_last_id)
  then show ?thesis by (simp add: numeric_def)
qed

lemma prefix_ok_byte:
  assumes "ls \<noteq> []"
  shows "prefix_ok lead (butlast ls @ [last ls @ [b]]) \<longleftrightarrow>
    prefix_ok lead ls \<and> length (last ls) < MAX_LABEL_LENGTH \<and> is_label_byte b \<and> (last ls = [] \<longrightarrow> b \<noteq> c_hyphen)"
proof -
  obtain as a where ls: "ls = as @ [a]" using assms by (metis append_butlast_last_id)
  have "butlast (drop_lead lead (as @ [a @ [b]])) = butlast (drop_lead lead (as @ [a]))"
    by (cases as) (auto simp: drop_lead_def)
  then show ?thesis
    unfolding prefix_ok_def ls by (cases a) (auto simp: partial_label_def)
qed

lemma prefix_ok_dot:
  assumes "ls \<noteq> []"
  shows "prefix_ok lead (ls @ [[]]) \<longleftrightarrow> prefix_ok lead ls \<and> (complete_label (last ls) \<or> (lead \<and> ls = [[]]))"
proof -
  obtain as a where ls: "ls = as @ [a]" using assms by (metis append_butlast_last_id)
  have e: "partial_label []" "\<not> complete_label []" by (simp_all add: partial_label_def complete_label_def)
  have c: "complete_label a \<Longrightarrow> partial_label a" by (simp add: complete_label_def)
  show ?thesis
    unfolding prefix_ok_def ls using e c by (cases as) (auto simp: drop_lead_def butlast_append)
qed

text \<open>The variables after a prefix are determined by its labels.\<close>

lemma dns_run_labels:
  "dns_run role bs (dns_start dots first) =
     (if prefix_ok (first \<and> role = NameConstraint) (labels bs) then Some (dns_state_of dots first bs) else None)"
proof (induction bs rule: rev_induct)
  case Nil
  show ?case
    by (simp add: dns_start_def dns_state_of_def prefix_ok_def partial_label_def drop_lead_def numeric_def)
next
  case (snoc b bs)
  let ?lead = "first \<and> role = NameConstraint"
  let ?ls = "labels bs"
  show ?case
  proof (cases "prefix_ok ?lead ?ls")
    case False
    then have "dns_run role (bs @ [b]) (dns_start dots first) = None"
      using snoc by (simp add: dns_run_append)
    moreover have "\<not> prefix_ok ?lead (labels (bs @ [b]))"
      using False by (simp add: labels_snoc prefix_ok_dot prefix_ok_byte)
    ultimately show ?thesis by simp
  next
    case True
    define s where "s = dns_state_of dots first bs"
    have s: "dotCount s = dots + (length ?ls - 1)" "labelLength s = length (last ?ls)"
      "labelIsAllNumeric s = numeric ?ls"
      "labelEndsWithHyphen s = (last ?ls \<noteq> [] \<and> last (last ?ls) = c_hyphen)" "isFirstByte s = (first \<and> bs = [])"
      by (simp_all add: s_def dns_state_of_def)
    have run: "dns_run role (bs @ [b]) (dns_start dots first) =
        (case IsValidDNSID_switch role b s of None \<Rightarrow> None | Some s \<Rightarrow> Some (s\<lparr>isFirstByte := False\<rparr>))"
      using snoc True by (simp add: dns_run_append s_def split: option.split)
    have part: "partial_label (last ?ls)" using True by (simp add: prefix_ok_def)
    show ?thesis
    proof (cases "b = c_dot")
      case dot: True
      have "prefix_ok ?lead (?ls @ [[]]) \<longleftrightarrow> complete_label (last ?ls) \<or> (?lead \<and> bs = [])"
        using True by (simp add: prefix_ok_dot labels_single_Nil)
      moreover have "dns_state_of dots first (bs @ [b]) =
          \<lparr>dotCount = dots + length ?ls, labelLength = 0, labelIsAllNumeric = numeric ?ls,
           labelEndsWithHyphen = False, isFirstByte = False\<rparr>"
        using dot by (simp add: dns_state_of_def labels_snoc numeric_dot)
      moreover have "IsValidDNSID_switch role b s =
          (if last ?ls = [] \<and> (role \<noteq> NameConstraint \<or> \<not> (first \<and> bs = [])) then None
           else if last ?ls \<noteq> [] \<and> last (last ?ls) = c_hyphen then None
           else Some (s\<lparr>dotCount := dotCount s + 1, labelLength := 0\<rparr>))"
        using dot s by (simp add: IsValidDNSID_switch_def Let_def)
      moreover have "s\<lparr>dotCount := dotCount s + 1, labelLength := 0, isFirstByte := False\<rparr> =
          \<lparr>dotCount = dots + length ?ls, labelLength = 0, labelIsAllNumeric = numeric ?ls,
           labelEndsWithHyphen = False, isFirstByte = False\<rparr>"
        if "\<not> (last ?ls \<noteq> [] \<and> last (last ?ls) = c_hyphen)"
        using that by (simp add: s_def dns_state_of_def)
      moreover have "last ?ls = [] \<Longrightarrow> first \<and> bs = [] \<Longrightarrow> bs = []" by simp
      ultimately show ?thesis
        unfolding run using dot part by (auto simp: labels_snoc complete_label_def)
    next
      case nodot: False
      have ok: "prefix_ok ?lead (labels (bs @ [b])) \<longleftrightarrow>
          length (last ?ls) < MAX_LABEL_LENGTH \<and> is_label_byte b \<and> (last ?ls = [] \<longrightarrow> b \<noteq> c_hyphen)"
        using True nodot by (simp add: labels_snoc prefix_ok_byte)
      have st: "dns_state_of dots first (bs @ [b]) =
          \<lparr>dotCount = dots + (length ?ls - 1), labelLength = length (last ?ls) + 1,
           labelIsAllNumeric = ((\<forall>c \<in> set (last ?ls). is_digit c) \<and> is_digit b),
           labelEndsWithHyphen = (b = c_hyphen), isFirstByte = False\<rparr>"
        using nodot by (simp add: dns_state_of_def labels_snoc numeric_byte)
      have num: "last ?ls \<noteq> [] \<Longrightarrow> numeric ?ls \<longleftrightarrow> (\<forall>c \<in> set (last ?ls). is_digit c)"
        by (simp add: numeric_last)
      have "(case IsValidDNSID_switch role b s of None \<Rightarrow> None | Some s \<Rightarrow> Some (s\<lparr>isFirstByte := False\<rparr>)) =
          (if length (last ?ls) < MAX_LABEL_LENGTH \<and> is_label_byte b \<and> (last ?ls = [] \<longrightarrow> b \<noteq> c_hyphen)
           then Some (dns_state_of dots first (bs @ [b])) else None)"
        unfolding st using nodot byte_classes [of b] num
        by (auto simp: IsValidDNSID_switch_def count_byte_def Let_def is_label_byte_def s_def dns_state_of_def)
      then show ?thesis unfolding run ok .
    qed
  qed
qed

section \<open>The whole name\<close>

definition accepted_labels :: "bool \<Rightarrow> bool \<Rightarrow> u8 list list \<Rightarrow> bool" where
  "accepted_labels lead trail ls \<longleftrightarrow>
     prefix_ok lead ls \<and> (last ls = [] \<longrightarrow> trail) \<and> (last ls \<noteq> [] \<longrightarrow> last (last ls) \<noteq> c_hyphen) \<and> \<not> numeric ls"

lemma numeric_drop_lead: "numeric (drop_lead lead ls) = numeric ls"
  by (cases ls) (auto simp: drop_lead_def numeric_def)

lemma drop_lead_not_Nil: "ls \<noteq> [] \<Longrightarrow> drop_lead lead ls \<noteq> [] \<and> last (drop_lead lead ls) = last ls"
  by (cases ls) (auto simp: drop_lead_def)

lemma accepted_labels_iff:
  assumes ne: "ls \<noteq> []" "ls \<noteq> [[]]" and roles: "\<not> (lead \<and> trail)"
  shows "accepted_labels lead trail ls \<longleftrightarrow>
    (\<forall>l \<in> set (drop_trail trail (drop_lead lead ls)). valid_label l) \<and>
    \<not> (\<forall>b \<in> set (last (drop_trail trail (drop_lead lead ls))). is_digit b)"
proof -
  obtain as a where D1: "drop_lead lead ls = as @ [a]"
    using drop_lead_not_Nil [OF ne(1)] by (metis append_butlast_last_id)
  have a: "last ls = a" using drop_lead_not_Nil [OF ne(1), of lead] D1 by simp
  have pre: "prefix_ok lead ls \<longleftrightarrow> partial_label a \<and> (\<forall>l \<in> set as. valid_label l)"
    by (simp add: prefix_ok_def a D1 complete_label_iff)
  have num: "numeric ls = numeric (as @ [a])" using numeric_drop_lead [of lead ls] D1 by simp
  have empty: "partial_label []" "\<not> valid_label []" by (simp_all add: partial_label_def valid_label_def)
  show ?thesis
  proof (cases "a = []")
    case False
    then have "valid_label a \<longleftrightarrow> partial_label a \<and> last a \<noteq> c_hyphen"
      by (auto simp: valid_label_def partial_label_def)
    then show ?thesis
      using False unfolding accepted_labels_def pre num a D1 by (auto simp: drop_trail_def numeric_last)
  next
    case True
    show ?thesis
    proof (cases "trail \<and> as \<noteq> []")
      case t: True
      have "numeric (as @ [[]]) \<longleftrightarrow> (\<forall>b \<in> set (last as). is_digit b)" if "\<forall>l \<in> set as. valid_label l"
      proof -
        have "valid_label (last as)" using that t by simp
        then have "last as \<noteq> []" using empty(2) by auto
        then show ?thesis using numeric_last t by (simp add: numeric_dot)
      qed
      then show ?thesis
        using t True empty unfolding accepted_labels_def pre num a D1 by (auto simp: drop_trail_def)
    next
      case False
      have "\<not> trail"
      proof
        assume t: "trail"
        then have "drop_lead lead ls = ls" using roles by (simp add: drop_lead_def)
        then show False using t False D1 True ne(2) by simp
      qed
      then show ?thesis
        using True empty(2) unfolding accepted_labels_def a D1 by (simp add: drop_trail_def)
    qed
  qed
qed

lemma accepted_labels_count:
  assumes "accepted_labels False trail (labels bs)" and "bs \<noteq> []"
  shows "length (drop_trail trail (drop_lead False (labels bs))) =
    (if last (labels bs) = [] then length (labels bs) - 1 else length (labels bs))"
proof -
  have "labels bs \<noteq> [[]]" using assms(2) by (simp add: labels_single_Nil)
  then have "last (labels bs) = [] \<Longrightarrow> length (labels bs) > 1"
    by (cases "labels bs") (auto split: if_splits)
  then show ?thesis using assms(1) by (auto simp: accepted_labels_def drop_trail_def drop_lead_def)
qed

text \<open>The end of the code, for what the loop leaves.\<close>

lemma dns_run_accepts:
  assumes "bs \<noteq> []" and "trail \<longleftrightarrow> role = ReferenceID" and "lead \<longleftrightarrow> first \<and> role = NameConstraint"
  shows "(case dns_run role bs (dns_start dots first) of
       None \<Rightarrow> False
     | Some s \<Rightarrow> \<not> (labelLength s = 0 \<and> role \<noteq> ReferenceID) \<and> \<not> labelEndsWithHyphen s \<and> \<not> labelIsAllNumeric s \<and>
         P (if labelLength s = 0 then dotCount s else dotCount s + 1)) \<longleftrightarrow>
    accepted_labels lead trail (labels bs) \<and>
      P (if last (labels bs) = [] then dots + length (labels bs) - 1 else dots + length (labels bs))"
proof -
  have len: "length (labels bs) > 0" by simp
  have "(if last (labels bs) = [] then dots + length (labels bs) - 1 else dots + length (labels bs)) =
      (if length (last (labels bs)) = 0 then dots + (length (labels bs) - 1) else dots + (length (labels bs) - 1) + 1)"
    using len by (cases "labels bs") auto
  then show ?thesis
    using assms unfolding dns_run_labels accepted_labels_def by (auto simp: dns_state_of_def)
qed

lemma StartsWithIDNALabel_wildcard:
  "wf_Input (c_star # bs) \<Longrightarrow> \<not> StartsWithIDNALabel (c_star # bs)"
  by (simp add: StartsWithIDNALabel_def IDN_ALABEL_PREFIX_def Read8_Reader_of)

lemma dns_name_iff:
  assumes "bs \<noteq> []" and "\<not> (lead \<and> trail)"
  shows "dns_name lead trail 1 bs \<longleftrightarrow> accepted_labels lead trail (labels bs)"
proof -
  have "labels bs \<noteq> [[]]" using assms(1) by (simp add: labels_single_Nil)
  moreover have "1 \<le> length (drop_trail trail (drop_lead lead (labels bs)))"
  proof -
    have "drop_trail t ls \<noteq> []" if "ls \<noteq> []" for t and ls :: "u8 list list"
      using that by (cases ls) (auto simp: drop_trail_def)
    then show ?thesis using drop_lead_not_Nil [of "labels bs" lead] by (simp add: Suc_leI)
  qed
  ultimately show ?thesis
    using accepted_labels_iff [of "labels bs" lead trail] assms(2) by (simp add: dns_name_def Let_def)
qed

lemma IsValidDNSID_loop_start:
  assumes "wf_Reader r"
  shows "IsValidDNSID_loop role r \<lparr>dotCount = dots, labelLength = 0, labelIsAllNumeric = False,
      labelEndsWithHyphen = False, isFirstByte = first\<rparr> =
    (if remaining r = [] then None else dns_run role (remaining r) (dns_start dots first))"
  using IsValidDNSID_loop_run [OF assms] by (simp add: dns_start_def)

lemma not_wildcard:
  assumes "wf_Input s" and "length s \<le> 253" and "\<not> (aw = AllowWildcards_Yes \<and> Peek (Reader_of s) c_star)"
    and "s \<noteq> []"
  shows "IsValidDNSID s role aw \<longleftrightarrow> dns_name (role = NameConstraint) (role = ReferenceID) 1 s"
proof -
  have wf: "wf_Reader (Reader_of s)" "remaining (Reader_of s) = s" using assms(1) by simp_all
  have len: "\<not> GetLength s > 253" using assms(1,2) by (simp add: word_less_nat_alt not_less)
  have "IsValidDNSID s role aw \<longleftrightarrow> (case dns_run role s (dns_start 0 True) of
       None \<Rightarrow> False
     | Some st \<Rightarrow> \<not> (labelLength st = 0 \<and> role \<noteq> ReferenceID) \<and> \<not> labelEndsWithHyphen st \<and> \<not> labelIsAllNumeric st \<and>
         (\<lambda>n. True) (if labelLength st = 0 then dotCount st else dotCount st + 1))"
    using len assms(3,4) wf AtEnd_iff [OF wf(1)]
    by (auto simp: IsValidDNSID_def Let_def SkipWildcard_def IsValidDNSID_loop_start split: option.split)
  also have "\<dots> \<longleftrightarrow> accepted_labels (role = NameConstraint) (role = ReferenceID) (labels s)"
    by (subst dns_run_accepts [where lead = "role = NameConstraint" and trail = "role = ReferenceID"])
      (use assms(4) in auto)
  also have "\<dots> \<longleftrightarrow> dns_name (role = NameConstraint) (role = ReferenceID) 1 s"
    using dns_name_iff [OF assms(4), of "role = NameConstraint" "role = ReferenceID"] by auto
  finally show ?thesis .
qed

lemma wildcard:
  assumes "wf_Input s" and "length s \<le> 253" and "s = c_star # t"
  shows "IsValidDNSID s role AllowWildcards_Yes \<longleftrightarrow>
    (\<exists>bs. s = [c_star, c_dot] @ bs \<and> bs \<noteq> [] \<and> dns_name False (role = ReferenceID) 2 bs)"
proof -
  have wf: "wf_Reader (Reader_of s)" and rs: "remaining (Reader_of s) = c_star # t" using assms(1,3) by simp_all
  have len: "\<not> GetLength s > 253" using assms(1,2) by (simp add: word_less_nat_alt not_less)
  have peek: "Peek (Reader_of s) c_star" "\<not> AtEnd (Reader_of s)" using rs by (simp_all add: Peek_iff [OF wf] AtEnd_iff [OF wf])
  obtain q where q: "Skip (Reader_of s) 1 = Inr q" "wf_Reader q" "remaining q = t"
    using Skip_spec [OF wf, of 1] rs wf by simp
  have idn: "\<not> StartsWithIDNALabel s" using StartsWithIDNALabel_wildcard assms(1,3) by simp
  show ?thesis
  proof (cases "\<exists>bs. t = c_dot # bs \<and> bs \<noteq> []")
    case False
    have "\<not> IsValidDNSID s role AllowWildcards_Yes"
    proof (cases t)
      case Nil
      then have "Read8 q = Inl ERROR_BAD_DER" using Read8_Nil [OF q(2)] q(3) by simp
      then show ?thesis using len peek q(1) by (simp add: IsValidDNSID_def Let_def SkipWildcard_def)
    next
      case (Cons b bs)
      obtain q2 where q2: "Read8 q = Inr (b, q2)" "remaining q2 = bs" "wf_Reader q2"
        using Read8_Cons [OF q(2)] q(3) Cons by blast
      have "b = c_dot \<Longrightarrow> bs = []" using False Cons by blast
      then show ?thesis using len peek q(1) q2
        by (auto simp: IsValidDNSID_def Let_def SkipWildcard_def IsValidDNSID_loop_start)
    qed
    then show ?thesis using False assms(3) by auto
  next
    case True
    then obtain bs where t: "t = c_dot # bs" and ne: "bs \<noteq> []" by blast
    obtain q2 where q2: "Read8 q = Inr (c_dot, q2)" "remaining q2 = bs" "wf_Reader q2"
      using Read8_Cons [OF q(2)] q(3) t by blast
    let ?trail = "role = ReferenceID"
    have "IsValidDNSID s role AllowWildcards_Yes \<longleftrightarrow> (case dns_run role bs (dns_start 1 False) of
         None \<Rightarrow> False
       | Some st \<Rightarrow> \<not> (labelLength st = 0 \<and> role \<noteq> ReferenceID) \<and> \<not> labelEndsWithHyphen st \<and> \<not> labelIsAllNumeric st \<and>
           (\<lambda>n. 3 \<le> n) (if labelLength st = 0 then dotCount st else dotCount st + 1))"
      using len peek q(1) q2 idn ne
      by (auto simp: IsValidDNSID_def Let_def SkipWildcard_def IsValidDNSID_loop_start split: option.split)
    also have "\<dots> \<longleftrightarrow> accepted_labels False ?trail (labels bs) \<and>
        3 \<le> (if last (labels bs) = [] then 1 + length (labels bs) - 1 else 1 + length (labels bs))"
      by (subst dns_run_accepts [where lead = False and trail = ?trail]) (use ne in auto)
    also have "\<dots> \<longleftrightarrow> accepted_labels False ?trail (labels bs) \<and>
        2 \<le> length (drop_trail ?trail (drop_lead False (labels bs)))"
      using accepted_labels_count [OF _ ne, of ?trail] by auto
    also have "\<dots> \<longleftrightarrow> dns_name False ?trail 2 bs"
      using accepted_labels_iff [of "labels bs" False ?trail] ne by (auto simp: dns_name_def Let_def labels_single_Nil)
    finally show ?thesis using assms(3) t ne by auto
  qed
qed

lemma IsValidDNSID_iff:
  assumes "wf_Input s"
  shows "IsValidDNSID s role allowWildcards \<longleftrightarrow>
    length s \<le> 253 \<and>
    (s = [] \<and> role = NameConstraint \<or>
     s \<noteq> [] \<and> (if allowWildcards = AllowWildcards_Yes \<and> hd s = c_star
        then \<exists>bs. s = [c_star, c_dot] @ bs \<and> bs \<noteq> [] \<and> dns_name False (role = ReferenceID) 2 bs
        else dns_name (role = NameConstraint) (role = ReferenceID) 1 s))"
proof (cases "length s \<le> 253")
  case False
  then have "GetLength s > 253" using assms by (simp add: word_less_nat_alt)
  then show ?thesis using False by (simp add: IsValidDNSID_def)
next
  case len: True
  have wf: "wf_Reader (Reader_of s)" "remaining (Reader_of s) = s" using assms by simp_all
  show ?thesis
  proof (cases s)
    case Nil
    have "\<not> GetLength s > 253" using assms len by (simp add: word_less_nat_alt not_less)
    moreover have "AtEnd (Reader_of s)" "\<not> Peek (Reader_of s) c_star" using Nil wf by (simp_all add: AtEnd_iff Peek_iff)
    ultimately have "IsValidDNSID s role allowWildcards \<longleftrightarrow> role = NameConstraint"
      using Nil wf by (simp add: IsValidDNSID_def Let_def SkipWildcard_def IsValidDNSID_loop_start)
    then show ?thesis using Nil by simp
  next
    case (Cons b t)
    then have peek: "Peek (Reader_of s) c_star \<longleftrightarrow> b = c_star" using wf by (simp add: Peek_iff)
    show ?thesis
    proof (cases "allowWildcards = AllowWildcards_Yes \<and> b = c_star")
      case True
      then show ?thesis using wildcard [OF assms len, of t role] Cons len by simp
    next
      case False
      then show ?thesis using not_wildcard [OF assms len, of allowWildcards role] peek Cons len by auto
    qed
  qed
qed

section \<open>The bytes of a valid name\<close>

lemma labels_bytes: "b \<in> set s \<Longrightarrow> b = c_dot \<or> (\<exists>l \<in> set (labels s). b \<in> set l)"
proof (induction s)
  case (Cons a s)
  obtain l ls where "labels s = l # ls" by (cases "labels s") auto
  with Cons show ?case by auto
qed simp

lemma labels_hd: "s \<noteq> [] \<Longrightarrow> hd s = c_dot \<longleftrightarrow> hd (labels s) = []"
  by (cases s) auto

lemma labels_last: "s \<noteq> [] \<Longrightarrow> last s = c_dot \<longleftrightarrow> last (labels s) = []"
  by (cases s rule: rev_cases) (auto simp: labels_snoc)

lemma valid_label_bytes: "valid_label l \<Longrightarrow> b \<in> set l \<Longrightarrow> b \<noteq> c_star \<and> b \<noteq> c_dot"
  by (auto simp: valid_label_def is_label_byte_def is_letter_def is_digit_def)

lemma dropped_labels:
  "l \<in> set ls \<Longrightarrow> l \<noteq> [] \<Longrightarrow> l \<in> set (drop_trail trail (drop_lead lead ls))"
proof -
  assume l: "l \<in> set ls" "l \<noteq> []"
  have 1: "l \<in> set (drop_lead lead ls)" using l by (cases ls) (auto simp: drop_lead_def)
  then show ?thesis using l(2) by (cases "drop_lead lead ls" rule: rev_cases) (auto simp: drop_trail_def)
qed

lemma dns_name_bytes:
  assumes "dns_name lead trail n s" and "s \<noteq> []"
  shows "c_star \<notin> set s" and "\<not> trail \<Longrightarrow> last s \<noteq> c_dot" and "\<not> lead \<Longrightarrow> hd s \<noteq> c_dot"
proof -
  let ?D = "drop_trail trail (drop_lead lead (labels s))"
  have valid: "\<forall>l \<in> set ?D. valid_label l" using assms(1) by (simp add: dns_name_def Let_def)
  show "c_star \<notin> set s"
  proof
    assume "c_star \<in> set s"
    then obtain l where "l \<in> set (labels s)" "c_star \<in> set l" using labels_bytes by fastforce
    moreover from this have "l \<in> set ?D" by (intro dropped_labels) auto
    ultimately show False using valid valid_label_bytes by blast
  qed
  have ne: "labels s \<noteq> []" "drop_lead lead (labels s) \<noteq> []" "last (drop_lead lead (labels s)) = last (labels s)"
    using drop_lead_not_Nil [of "labels s" lead] by simp_all
  show "last s \<noteq> c_dot" if "\<not> trail"
  proof -
    have "valid_label (last (labels s))" using valid that ne by (metis drop_trail_def last_in_set)
    then show ?thesis using labels_last [OF assms(2)] by (auto simp: valid_label_def)
  qed
  show "hd s \<noteq> c_dot" if "\<not> lead"
  proof
    assume "hd s = c_dot"
    then have h: "hd (labels s) = []" using labels_hd [OF assms(2)] by simp
    have "labels s \<noteq> [[]]" using assms(2) by (simp add: labels_single_Nil)
    then have "[] \<in> set ?D" using that h ne(1)
      by (cases "labels s") (auto simp: drop_lead_def drop_trail_def split: if_splits)
    then show False using valid by (auto simp: valid_label_def)
  qed
qed

lemma IsValidDNSID_bytes:
  assumes wf: "wf_Input s" and valid: "IsValidDNSID s role allowWildcards" and ne: "s \<noteq> []"
  shows "role \<noteq> ReferenceID \<Longrightarrow> last s \<noteq> c_dot" and "role \<noteq> NameConstraint \<Longrightarrow> hd s \<noteq> c_dot"
    and "c_star \<notin> set (tl s)"
    and "hd s = c_star \<Longrightarrow> allowWildcards = AllowWildcards_Yes \<and> (\<exists>bs. s = [c_star, c_dot] @ bs \<and> bs \<noteq> [])"
proof -
  let ?w = "allowWildcards = AllowWildcards_Yes \<and> hd s = c_star"
  have v: "if ?w then \<exists>bs. s = [c_star, c_dot] @ bs \<and> bs \<noteq> [] \<and> dns_name False (role = ReferenceID) 2 bs
      else dns_name (role = NameConstraint) (role = ReferenceID) 1 s"
    using valid ne unfolding IsValidDNSID_iff [OF wf] by blast
  have "(role \<noteq> ReferenceID \<longrightarrow> last s \<noteq> c_dot) \<and> (role \<noteq> NameConstraint \<longrightarrow> hd s \<noteq> c_dot) \<and> c_star \<notin> set (tl s) \<and>
    (hd s = c_star \<longrightarrow> allowWildcards = AllowWildcards_Yes \<and> (\<exists>bs. s = [c_star, c_dot] @ bs \<and> bs \<noteq> []))"
  proof (cases ?w)
    case True
    then obtain bs where bs: "s = [c_star, c_dot] @ bs" "bs \<noteq> []" "dns_name False (role = ReferenceID) 2 bs"
      using v by auto
    note b = dns_name_bytes [OF bs(3,2)]
    have "role \<noteq> ReferenceID \<longrightarrow> last s \<noteq> c_dot" "c_star \<notin> set (tl s)" using b(1,2) bs(1,2) by auto
    then show ?thesis using True bs(1,2) by simp
  next
    case False
    have d: "dns_name (role = NameConstraint) (role = ReferenceID) 1 s" using v unfolding if_not_P [OF False] .
    note b = dns_name_bytes [OF d ne]
    have "c_star \<notin> set (tl s)" "hd s \<noteq> c_star" using b(1) ne by (cases s, auto)+
    then show ?thesis using b(2,3) by simp
  qed
  then show "role \<noteq> ReferenceID \<Longrightarrow> last s \<noteq> c_dot" "role \<noteq> NameConstraint \<Longrightarrow> hd s \<noteq> c_dot" "c_star \<notin> set (tl s)"
    "hd s = c_star \<Longrightarrow> allowWildcards = AllowWildcards_Yes \<and> (\<exists>bs. s = [c_star, c_dot] @ bs \<and> bs \<noteq> [])"
    by simp_all
qed

section \<open>Properties\<close>

text \<open>C25: Which names \<open>IsValidDNSID\<close> accepts, in terms of the labels between the dots. A name has at
  most 253 bytes; every label has 1 to 63 letters, digits, underscores and hyphens, does not
  start or end with a hyphen; and the last label is not all digits, so that no IPv4 address
  is a name. A reference name may end with a dot, a name constraint may start with one or
  be empty. Where wildcards are allowed, a name may also be \<open>*.\<close> and a name of at least two
  labels: the wildcard is a whole label and never covers a top-level domain.\<close>

theorem IsValidDNSID_labels:
  assumes "wf_Input s"
  shows "IsValidDNSID s role allowWildcards \<longleftrightarrow>
    length s \<le> 253 \<and>
    (s = [] \<and> role = NameConstraint \<or>
     s \<noteq> [] \<and> (if allowWildcards = AllowWildcards_Yes \<and> hd s = c_star
        then \<exists>bs. s = [c_star, c_dot] @ bs \<and> bs \<noteq> [] \<and> dns_name False (role = ReferenceID) 2 bs
        else dns_name (role = NameConstraint) (role = ReferenceID) 1 s))"
  by (rule IsValidDNSID_iff [OF assms])

theorem IsValidDNSID_labels_witness:
  "IsValidDNSID [0x2A, 0x2E, 0x61, 0x2E, 0x62] PresentedID AllowWildcards_Yes \<and>
   \<not> IsValidDNSID [0x2A, 0x2E, 0x62] PresentedID AllowWildcards_Yes \<and>
   \<not> IsValidDNSID [0x31, 0x2E, 0x32] ReferenceID AllowWildcards_No"
proof -
  have wf: "wf_Input [0x2A, 0x2E, 0x61, 0x2E, 0x62 :: u8]" "wf_Input [0x2A, 0x2E, 0x62 :: u8]"
    "wf_Input [0x31, 0x2E, 0x32 :: u8]" by (simp_all add: wf_Input_def MAX_INPUT_def)
  note ev = dns_name_def Let_def drop_lead_def drop_trail_def valid_label_def MAX_LABEL_LENGTH_def
    is_label_byte_def is_letter_def is_digit_def
  show ?thesis
    unfolding IsValidDNSID_labels [OF wf(1)] IsValidDNSID_labels [OF wf(2)] IsValidDNSID_labels [OF wf(3)]
    by (simp add: ev)
qed

end
