(* ===== verification/PkixDnsMatch.thy ===== *)
theory PkixDnsMatch
  imports PkixDnsSyntax
begin

text \<open>
  The comparison of a presented DNS name with a reference name and with a name constraint
  (theory \<open>PkixDns\<close>), on the bytes of the names.
\<close>

section \<open>The steps of the comparison on lists\<close>

text \<open>Equality without regard to the case of ASCII letters.\<close>

definition same_name :: "u8 list \<Rightarrow> u8 list \<Rightarrow> bool" where
  "same_name a b \<longleftrightarrow> map LocaleInsensitveToLower a = map LocaleInsensitveToLower b"

lemma same_name_Nil [simp]: "same_name [] b \<longleftrightarrow> b = []" "same_name a [] \<longleftrightarrow> a = []"
  by (auto simp: same_name_def)

lemma same_name_Cons [simp]:
  "same_name (a # as) (b # bs) \<longleftrightarrow> LocaleInsensitveToLower a = LocaleInsensitveToLower b \<and> same_name as bs"
  by (simp add: same_name_def)

lemma same_name_length: "same_name a b \<Longrightarrow> length a = length b"
  unfolding same_name_def by (rule map_eq_imp_length_eq)

lemma lower_dot [simp]: "LocaleInsensitveToLower b = c_dot \<longleftrightarrow> b = c_dot"
proof (cases "b \<ge> c_A \<and> b \<le> c_Z")
  case True
  then have "65 \<le> unat b" "unat b \<le> 90" by (simp_all add: word_le_nat_alt)
  moreover from this have "unat ((b - c_A) + c_a) = unat b + 32"
    by (simp add: unat_word_ariths unat_sub word_le_nat_alt)
  ultimately show ?thesis using True by (auto simp: LocaleInsensitveToLower_def word_unat_eq_iff)
next
  case False
  then have "LocaleInsensitveToLower b = b" unfolding LocaleInsensitveToLower_def by (rule if_not_P)
  then show ?thesis by simp
qed

lemma lower_star: "LocaleInsensitveToLower b = c_star \<Longrightarrow> b = c_star"
proof (cases "b \<ge> c_A \<and> b \<le> c_Z")
  case True
  then have "65 \<le> unat b" "unat b \<le> 90" by (simp_all add: word_le_nat_alt)
  moreover from this have "unat ((b - c_A) + c_a) = unat b + 32"
    by (simp add: unat_word_ariths unat_sub word_le_nat_alt)
  moreover assume "LocaleInsensitveToLower b = c_star"
  ultimately show ?thesis using True by (simp add: LocaleInsensitveToLower_def word_unat_eq_iff)
next
  case False
  then have "LocaleInsensitveToLower b = b" unfolding LocaleInsensitveToLower_def by (rule if_not_P)
  then show "LocaleInsensitveToLower b = c_star \<Longrightarrow> b = c_star" by simp
qed

lemma MatchBytes_Nil:
  "wf_Reader P \<Longrightarrow> remaining P = [] \<Longrightarrow> MatchBytes P R = Inr (Decided False)"
  using Read8_Nil [of P] by (simp add: MatchBytes.simps)

text \<open>\<open>MatchBytes\<close> compares the presented bytes with as many of the reference.\<close>

lemma MatchBytes_list:
  assumes "wf_Reader P" and "wf_Reader R" and "remaining P \<noteq> []" and "last (remaining P) \<noteq> c_dot"
  shows "(\<exists>rest R'. remaining R = rest @ remaining R' \<and> same_name (remaining P) rest \<and> wf_Reader R' \<and>
      MatchBytes P R = Inr (Continue R')) \<or>
    (\<not> (\<exists>rest t. remaining R = rest @ t \<and> same_name (remaining P) rest) \<and>
      MatchBytes P R = Inr (Decided False))"
  using assms
proof (induction "remaining P" arbitrary: P R)
  case Nil
  then show ?case by simp
next
  case (Cons p ps)
  obtain P' where P': "Read8 P = Inr (p, P')" "remaining P' = ps" "wf_Reader P'"
    using Read8_Cons [OF Cons.prems(1) Cons.hyps(2) [symmetric]] by blast
  note P = Cons.hyps(2) [symmetric]
  show ?case
  proof (cases "remaining R")
    case Nil
    then have "MatchBytes P R = Inr (Decided False)"
      using Read8_Nil [OF Cons.prems(2)] P'(1) by (simp add: MatchBytes.simps)
    then show ?thesis using Nil P by simp
  next
    case R: (Cons r rs)
    obtain R' where R': "Read8 R = Inr (r, R')" "remaining R' = rs" "wf_Reader R'"
      using Read8_Cons [OF Cons.prems(2) R] by blast
    have split: "(\<exists>rest t. r # rs = rest @ t \<and> same_name (p # ps) rest) \<longleftrightarrow>
        LocaleInsensitveToLower p = LocaleInsensitveToLower r \<and> (\<exists>rest t. rs = rest @ t \<and> same_name ps rest)"
    proof
      assume "\<exists>rest t. r # rs = rest @ t \<and> same_name (p # ps) rest"
      then obtain rest t where "r # rs = rest @ t" "same_name (p # ps) rest" by blast
      then show "LocaleInsensitveToLower p = LocaleInsensitveToLower r \<and> (\<exists>rest t. rs = rest @ t \<and> same_name ps rest)"
        by (cases rest) auto
    next
      assume "LocaleInsensitveToLower p = LocaleInsensitveToLower r \<and> (\<exists>rest t. rs = rest @ t \<and> same_name ps rest)"
      then obtain rest t where "rs = rest @ t" "same_name (p # ps) (r # rest)" by auto
      then show "\<exists>rest t. r # rs = rest @ t \<and> same_name (p # ps) rest" by (metis append_Cons)
    qed
    show ?thesis
    proof (cases "LocaleInsensitveToLower p = LocaleInsensitveToLower r")
      case False
      then have "MatchBytes P R = Inr (Decided False)" using P'(1) R'(1) by (simp add: MatchBytes.simps)
      then show ?thesis using split False by (simp add: P R)
    next
      case eq: True
      show ?thesis
      proof (cases "ps = []")
        case True
        then have "AtEnd P'" "p \<noteq> c_dot" using P' Cons.prems(4) P by (simp_all add: AtEnd_iff)
        then have "MatchBytes P R = Inr (Continue R')" using P'(1) R'(1) eq by (simp add: MatchBytes.simps)
        moreover have "remaining R = [r] @ remaining R'" "same_name (remaining P) [r]"
          using R R'(2) P True eq by simp_all
        ultimately show ?thesis using R'(3) by blast
      next
        case False
        then have "\<not> AtEnd P'" using P' by (simp add: AtEnd_iff)
        then have step: "MatchBytes P R = MatchBytes P' R'"
          using P'(1) R'(1) eq by (subst MatchBytes.simps) simp
        have "last (remaining P') \<noteq> c_dot" using Cons.prems(4) P P'(2) False by simp
        from Cons.hyps(1) [OF P'(2) [symmetric] P'(3) R'(3) _ this] False P'(2) consider
          (match) rest Q where "remaining R' = rest @ remaining Q" "same_name (remaining P') rest" "wf_Reader Q"
            "MatchBytes P' R' = Inr (Continue Q)"
          | (no) "\<not> (\<exists>rest t. remaining R' = rest @ t \<and> same_name (remaining P') rest)"
            "MatchBytes P' R' = Inr (Decided False)" by auto
        then show ?thesis
        proof cases
          case match
          then have "remaining R = (r # rest) @ remaining Q" "same_name (remaining P) (r # rest)"
            using R R'(2) P P'(2) eq by simp_all
          then show ?thesis using match(3,4) step by metis
        next
          case no
          then show ?thesis using split step R R'(2) P P'(2) by simp
        qed
      qed
    qed
  qed
qed

text \<open>\<open>SkipReferenceLabel\<close> drops bytes, one at least, up to the next dot.\<close>

definition after_label :: "u8 list \<Rightarrow> u8 list" where
  "after_label r = dropWhile (\<lambda>b. b \<noteq> c_dot) (tl r)"

lemma SkipReferenceLabel_list:
  assumes "wf_Reader R"
  shows "if after_label (remaining R) = [] then SkipReferenceLabel R = Inr (Decided False)
    else \<exists>R'. SkipReferenceLabel R = Inr (Continue R') \<and> wf_Reader R' \<and> remaining R' = after_label (remaining R)"
  using assms
proof (induction "remaining R" arbitrary: R)
  case Nil
  then have "AtEnd R" by (simp add: AtEnd_iff)
  then show ?case using Nil by (simp add: SkipReferenceLabel.simps after_label_def)
next
  case (Cons r rs)
  obtain R' where R': "Read8 R = Inr (r, R')" "remaining R' = rs" "wf_Reader R'" "\<not> AtEnd R"
    using Read8_Cons [OF Cons.prems Cons.hyps(2) [symmetric]] by blast
  note R = Cons.hyps(2) [symmetric]
  show ?case
  proof (cases "Peek R' c_dot")
    case True
    then obtain t where "rs = c_dot # t" using R'(2) by (auto simp: Peek_iff [OF R'(3)])
    then show ?thesis using True R' R by (subst SkipReferenceLabel.simps) (simp add: after_label_def)
  next
    case False
    then have "SkipReferenceLabel R = SkipReferenceLabel R'"
      using R' by (subst SkipReferenceLabel.simps) simp
    moreover have "after_label (remaining R) = after_label (remaining R')"
      using False R'(2) R by (cases rs) (auto simp: after_label_def Peek_iff [OF R'(3)])
    ultimately show ?thesis using Cons.hyps(1) [OF R'(2) [symmetric] R'(3)] by simp
  qed
qed

lemma MatchEnd_list:
  assumes "wf_Reader R"
  shows "MatchEnd role R = Inr (remaining R = [] \<or> (role \<noteq> NameConstraint \<and> remaining R = [c_dot]))"
proof (cases "remaining R")
  case Nil
  then show ?thesis using assms by (simp add: MatchEnd_def AtEnd_iff)
next
  case (Cons b bs)
  obtain R' where "Read8 R = Inr (b, R')" "remaining R' = bs" "wf_Reader R'" "\<not> AtEnd R"
    using Read8_Cons [OF assms Cons] by blast
  then show ?thesis using Cons by (auto simp: MatchEnd_def AtEnd_iff)
qed

section \<open>The comparison as a whole\<close>

definition equal_or_absolute :: "IDRole \<Rightarrow> u8 list \<Rightarrow> u8 list \<Rightarrow> bool" where
  "equal_or_absolute role p r \<longleftrightarrow>
     same_name p r \<or> (role \<noteq> NameConstraint \<and> (\<exists>r'. r = r' @ [c_dot] \<and> same_name p r'))"

definition compare_names :: "IDRole \<Rightarrow> u8 list \<Rightarrow> u8 list \<Rightarrow> bool" where
  "compare_names role p r \<longleftrightarrow>
     (if hd p = c_star then after_label r \<noteq> [] \<and> equal_or_absolute role (tl p) (after_label r)
      else equal_or_absolute role p r)"

lemma MatchBytes_MatchEnd:
  assumes "wf_Reader P" and "wf_Reader R" and "remaining P \<noteq> []" and "last (remaining P) \<noteq> c_dot"
  shows "(case MatchBytes P R of Inl e \<Rightarrow> Inl e | Inr (Decided matches) \<Rightarrow> Inr matches
      | Inr (Continue R') \<Rightarrow> MatchEnd role R') = Inr (equal_or_absolute role (remaining P) (remaining R))"
  using MatchBytes_list [OF assms]
proof (elim disjE exE conjE)
  fix rest R'
  assume R: "remaining R = rest @ remaining R'" and same: "same_name (remaining P) rest" and "wf_Reader R'"
    and m: "MatchBytes P R = Inr (Continue R')"
  have "equal_or_absolute role (remaining P) (remaining R) \<longleftrightarrow>
      remaining R' = [] \<or> (role \<noteq> NameConstraint \<and> remaining R' = [c_dot])"
  proof
    assume "equal_or_absolute role (remaining P) (remaining R)"
    then consider "same_name (remaining P) (remaining R)"
      | r' where "role \<noteq> NameConstraint" "remaining R = r' @ [c_dot]" "same_name (remaining P) r'"
      unfolding equal_or_absolute_def by blast
    then show "remaining R' = [] \<or> (role \<noteq> NameConstraint \<and> remaining R' = [c_dot])"
    proof cases
      case 1
      then show ?thesis using same R by (auto dest!: same_name_length)
    next
      case 2
      then have "length r' = length rest" using same by (auto dest!: same_name_length)
      then show ?thesis using 2(1,2) R by simp
    qed
  next
    assume "remaining R' = [] \<or> (role \<noteq> NameConstraint \<and> remaining R' = [c_dot])"
    then show "equal_or_absolute role (remaining P) (remaining R)"
      using same R unfolding equal_or_absolute_def by auto
  qed
  then show ?thesis using m MatchEnd_list [OF \<open>wf_Reader R'\<close>] by simp
next
  assume no: "\<not> (\<exists>rest t. remaining R = rest @ t \<and> same_name (remaining P) rest)"
    and m: "MatchBytes P R = Inr (Decided False)"
  have "\<not> equal_or_absolute role (remaining P) (remaining R)"
    using no unfolding equal_or_absolute_def by (metis append_Nil2)
  then show ?thesis using m by simp
qed

text \<open>A presented name from which leading labels may have been dropped.\<close>

lemma compare_readers:
  assumes P: "wf_Reader P" "remaining P = p" and R: "wf_Reader R" "remaining R = r"
    and p: "p \<noteq> []" "last p \<noteq> c_dot" "hd p = c_star \<Longrightarrow> tl p \<noteq> []"
  shows "(case SkipWildcardLabels P R of Inl e \<Rightarrow> Inl e | Inr (Decided matches) \<Rightarrow> Inr matches
      | Inr (Continue (P, R)) \<Rightarrow> (case MatchBytes P R of Inl e \<Rightarrow> Inl e | Inr (Decided matches) \<Rightarrow> Inr matches
         | Inr (Continue R) \<Rightarrow> MatchEnd role R)) = Inr (compare_names role p r)"
proof (cases "hd p = c_star")
  case False
  then have "\<not> Peek P c_star" using P p(1) Peek_iff [OF P(1)] by (cases p) auto
  then show ?thesis
    using MatchBytes_MatchEnd [OF P(1) R(1), of role] P R p False
    by (simp add: SkipWildcardLabels_def compare_names_def)
next
  case star: True
  then have peek: "Peek P c_star" using P p(1) Peek_iff [OF P(1)] by (cases p) auto
  obtain Q where Q: "Skip P 1 = Inr Q" "wf_Reader Q" "remaining Q = tl p"
    using Skip_spec [OF P(1), of 1] P p(1) by (cases p) auto
  show ?thesis
  proof (cases "after_label r = []")
    case True
    then have "SkipReferenceLabel R = Inr (Decided False)" using SkipReferenceLabel_list [OF R(1)] R(2) by simp
    then show ?thesis using peek Q(1) star True by (simp add: SkipWildcardLabels_def compare_names_def)
  next
    case False
    then obtain S where S: "SkipReferenceLabel R = Inr (Continue S)" "wf_Reader S" "remaining S = after_label r"
      using SkipReferenceLabel_list [OF R(1)] R(2) by auto
    have "last (remaining Q) \<noteq> c_dot" using Q(3) p star by (metis last_tl)
    then show ?thesis
      using MatchBytes_MatchEnd [OF Q(2) S(2), of role] Q S p(3) peek star False
      by (simp add: SkipWildcardLabels_def compare_names_def)
  qed
qed


section \<open>What the comparison decides\<close>

text \<open>The wildcard of \<open>p\<close> stands for one label of \<open>r\<close>. (The test of the first byte is what the
  loop over the reference label does; only a name constraint may start with a dot.)\<close>

definition wildcard_label :: "u8 list \<Rightarrow> u8 list \<Rightarrow> bool" where
  "wildcard_label p r \<longleftrightarrow>
     hd p = c_star \<and> (\<exists>l s. r = l @ s \<and> l \<noteq> [] \<and> c_dot \<notin> set (tl l) \<and> same_name (tl p) s)"

definition same_host :: "u8 list \<Rightarrow> u8 list \<Rightarrow> bool" where
  "same_host p r \<longleftrightarrow> same_name p r \<or> wildcard_label p r"

text \<open>\<open>p\<close> is \<open>r\<close> with labels added on its left.\<close>

definition in_subtree :: "bool \<Rightarrow> u8 list \<Rightarrow> u8 list \<Rightarrow> bool" where
  "in_subtree dotless p r \<longleftrightarrow>
     r = [] \<or> (\<exists>q s. p = q @ s \<and> same_name s r \<and> (q = [] \<or> hd r = c_dot \<or> dotless \<and> last q = c_dot))"

lemma same_name_dot: "same_name (c_dot # a) b \<longleftrightarrow> (\<exists>t. b = c_dot # t \<and> same_name a t)"
proof -
  have "LocaleInsensitveToLower c_dot = LocaleInsensitveToLower x \<longleftrightarrow> x = c_dot" for x
    using lower_dot [of c_dot] lower_dot [of x] by metis
  then show ?thesis by (cases b) auto
qed

lemma after_label_append:
  assumes "l \<noteq> []" and "c_dot \<notin> set (tl l)"
  shows "after_label (l @ c_dot # t) = c_dot # t"
proof -
  have "dropWhile (\<lambda>b. b \<noteq> c_dot) (tl l @ c_dot # t) = dropWhile (\<lambda>b. b \<noteq> c_dot) (c_dot # t)"
    using assms(2) by (intro dropWhile_append2) auto
  then show ?thesis using assms(1) by (simp add: after_label_def)
qed

lemma after_label_split:
  assumes "after_label r \<noteq> []"
  obtains l where "r = l @ after_label r" and "l \<noteq> []" and "c_dot \<notin> set (tl l)"
proof
  have r: "r \<noteq> []" using assms by (auto simp: after_label_def)
  let ?l = "hd r # takeWhile (\<lambda>b. b \<noteq> c_dot) (tl r)"
  show "r = ?l @ after_label r" using r by (simp add: after_label_def)
  show "?l \<noteq> []" by simp
  show "c_dot \<notin> set (tl ?l)" by (auto dest: set_takeWhileD)
qed

lemma wildcard_label_iff:
  assumes "p = [c_star, c_dot] @ bs"
  shows "wildcard_label p r \<longleftrightarrow> after_label r \<noteq> [] \<and> same_name (tl p) (after_label r)"
proof
  assume "wildcard_label p r"
  then obtain l s where l: "r = l @ s" "l \<noteq> []" "c_dot \<notin> set (tl l)" "same_name (tl p) s"
    unfolding wildcard_label_def by blast
  then obtain t where "s = c_dot # t" using assms by (auto simp: same_name_dot)
  then show "after_label r \<noteq> [] \<and> same_name (tl p) (after_label r)"
    using l after_label_append [OF l(2,3), of t] by simp
next
  assume a: "after_label r \<noteq> [] \<and> same_name (tl p) (after_label r)"
  then obtain l where "r = l @ after_label r" "l \<noteq> []" "c_dot \<notin> set (tl l)" using after_label_split by blast
  then show "wildcard_label p r" unfolding wildcard_label_def using a assms by auto
qed

lemma compare_names_NameConstraint:
  assumes "hd p = c_star \<Longrightarrow> \<exists>bs. p = [c_star, c_dot] @ bs" and "r \<noteq> [] \<Longrightarrow> hd r \<noteq> c_star" and "p \<noteq> []"
  shows "compare_names NameConstraint p r \<longleftrightarrow> same_host p r"
proof (cases "hd p = c_star")
  case True
  then obtain bs where p: "p = [c_star, c_dot] @ bs" using assms(1) by blast
  have "\<not> same_name p r"
  proof
    assume s: "same_name p r"
    obtain b t where r: "r = b # t" using s p by (cases r) auto
    have "LocaleInsensitveToLower b = c_star" using s p r by (simp add: LocaleInsensitveToLower_def)
    then have "b = c_star" by (rule lower_star)
    then show False using assms(2) r by simp
  qed
  then show ?thesis
    using True wildcard_label_iff [OF p, of r] by (simp add: compare_names_def equal_or_absolute_def same_host_def)
next
  case False
  then show ?thesis by (simp add: compare_names_def equal_or_absolute_def same_host_def wildcard_label_def)
qed


text \<open>For a reference name, a trailing dot of the reference is passed over.\<close>

lemma compare_names_ReferenceID:
  assumes "hd p = c_star \<Longrightarrow> \<exists>bs. p = [c_star, c_dot] @ bs \<and> bs \<noteq> []" and "r \<noteq> [] \<Longrightarrow> hd r \<noteq> c_star"
    and "p \<noteq> []"
  shows "compare_names ReferenceID p r \<longleftrightarrow> same_host p r \<or> (\<exists>r'. r = r' @ [c_dot] \<and> same_host p r')"
proof (cases "hd p = c_star")
  case True
  then obtain bs where p: "p = [c_star, c_dot] @ bs" "bs \<noteq> []" using assms(1) by blast
  have no: "\<not> same_name p r'" if "r' \<noteq> [] \<Longrightarrow> hd r' \<noteq> c_star" for r'
  proof
    assume s: "same_name p r'"
    obtain b t where r: "r' = b # t" using s p by (cases r') auto
    have "LocaleInsensitveToLower b = c_star" using s p r by (simp add: LocaleInsensitveToLower_def)
    then have "b = c_star" by (rule lower_star)
    then show False using that r by simp
  qed
  have "same_host p r'" if "wildcard_label p r'" for r' using that by (simp add: same_host_def)
  have step: "(\<exists>r'. r = r' @ [c_dot] \<and> wildcard_label p r') \<longleftrightarrow>
      after_label r \<noteq> [] \<and> (\<exists>s'. after_label r = s' @ [c_dot] \<and> same_name (tl p) s')"
  proof
    assume "\<exists>r'. r = r' @ [c_dot] \<and> wildcard_label p r'"
    then obtain l s where l: "r = (l @ s) @ [c_dot]" "l \<noteq> []" "c_dot \<notin> set (tl l)" "same_name (tl p) s"
      unfolding wildcard_label_def by blast
    then obtain t where "s = c_dot # t" using p by (auto simp: same_name_dot)
    then show "after_label r \<noteq> [] \<and> (\<exists>s'. after_label r = s' @ [c_dot] \<and> same_name (tl p) s')"
      using l after_label_append [OF l(2,3), of "t @ [c_dot]"] by auto
  next
    assume a: "after_label r \<noteq> [] \<and> (\<exists>s'. after_label r = s' @ [c_dot] \<and> same_name (tl p) s')"
    then obtain s' where s': "after_label r = s' @ [c_dot]" "same_name (tl p) s'" by blast
    obtain l where l: "r = l @ after_label r" "l \<noteq> []" "c_dot \<notin> set (tl l)" using a after_label_split by blast
    have "r = (l @ s') @ [c_dot]" using l(1) s'(1) by simp
    then show "\<exists>r'. r = r' @ [c_dot] \<and> wildcard_label p r'"
      unfolding wildcard_label_def using True l(2,3) s'(2) by blast
  qed
  have "r' \<noteq> [] \<Longrightarrow> hd r' \<noteq> c_star" if "r = r' @ [c_dot]" for r' using that assms(2) by (cases r') auto
  then show ?thesis
    using True step wildcard_label_iff [of p bs r] p(1) no [OF assms(2)] no
    by (auto simp: compare_names_def equal_or_absolute_def same_host_def)
next
  case False
  then show ?thesis by (auto simp: compare_names_def equal_or_absolute_def same_host_def wildcard_label_def)
qed


lemma presented_bytes:
  assumes wf: "wf_Input p" and valid: "IsValidDNSID p PresentedID aw"
  shows "p \<noteq> []" and "last p \<noteq> c_dot" and "hd p \<noteq> c_dot" and "c_star \<notin> set (tl p)"
    and "hd p = c_star \<Longrightarrow> \<exists>bs. p = [c_star, c_dot] @ bs \<and> bs \<noteq> []"
proof -
  show ne: "p \<noteq> []" using valid unfolding IsValidDNSID_iff [OF wf] by auto
  show "last p \<noteq> c_dot" "hd p \<noteq> c_dot" "c_star \<notin> set (tl p)"
    "hd p = c_star \<Longrightarrow> \<exists>bs. p = [c_star, c_dot] @ bs \<and> bs \<noteq> []"
    using IsValidDNSID_bytes [OF wf valid ne] by auto
qed

lemma reference_bytes:
  assumes "wf_Input r" and "IsValidDNSID r role AllowWildcards_No"
  shows "c_star \<notin> set r"
proof (cases r)
  case (Cons b t)
  then show ?thesis using IsValidDNSID_bytes(3,4) [OF assms] by auto
qed simp

lemma MatchDNSReference:
  assumes p: "wf_Input p" "IsValidDNSID p PresentedID aw"
    and r: "wf_Input r" "IsValidDNSID r ReferenceID AllowWildcards_No"
  shows "MatchPresentedDNSIDWithReferenceDNSID p aw ad ReferenceID r =
    Inr (same_host p r \<or> (\<exists>r'. r = r' @ [c_dot] \<and> same_host p r'))"
proof -
  note b = presented_bytes [OF p]
  have r': "r \<noteq> [] \<Longrightarrow> hd r \<noteq> c_star" using reference_bytes [OF r] by (cases r) auto
  have "hd p = c_star \<Longrightarrow> tl p \<noteq> []" using b(5) by auto
  note c = compare_readers [OF wf_Reader_of [OF p(1)] remaining_Reader_of [OF p(1)]
    wf_Reader_of [OF r(1)] remaining_Reader_of [OF r(1)] b(1,2) this, of ReferenceID]
  have "MatchPresentedDNSIDWithReferenceDNSID p aw ad ReferenceID r = Inr (compare_names ReferenceID p r)"
    unfolding MatchPresentedDNSIDWithReferenceDNSID_def RoleSwitch_def Let_def
    by (simp only: p(2) r(2) not_True_eq_False if_False IDRole.case sum.case decision.case c)
  then show ?thesis using compare_names_ReferenceID [OF b(5) r' b(1)] by simp
qed

lemma not_wildcard_tail:
  assumes "c_star \<notin> set (tl p)" and "p = q @ s" and "q \<noteq> []" and "s \<noteq> []"
  shows "hd s \<noteq> c_star"
  using assms by (cases q; cases s) auto

lemma last_take: "0 < k \<Longrightarrow> k \<le> length p \<Longrightarrow> last (take k p) = p ! (k - 1)"
  by (cases k) (simp_all add: take_Suc_conv_app_nth)

lemma drop_minus_1: "0 < k \<Longrightarrow> k \<le> length p \<Longrightarrow> drop (k - 1) p = p ! (k - 1) # drop k p"
  by (cases k) (simp_all add: Cons_nth_drop_Suc)

lemma in_subtree_longer:
  assumes "length p > length r" and "r \<noteq> []"
  shows "in_subtree dotless p r \<longleftrightarrow> same_name (drop (length p - length r) p) r \<and>
    (hd r = c_dot \<or> dotless \<and> p ! (length p - length r - 1) = c_dot)"
proof
  assume "in_subtree dotless p r"
  then obtain q s where s: "p = q @ s" "same_name s r" "q = [] \<or> hd r = c_dot \<or> dotless \<and> last q = c_dot"
    using assms(2) unfolding in_subtree_def by blast
  have len: "length s = length r" using s(2) by (rule same_name_length)
  then have q: "length q = length p - length r" using s(1) by simp
  then have "q \<noteq> []" using assms(1) by auto
  then have "drop (length q) p = s" "p ! (length q - 1) = last q"
    using s(1) by (simp_all add: nth_append last_conv_nth)
  then show "same_name (drop (length p - length r) p) r \<and>
      (hd r = c_dot \<or> dotless \<and> p ! (length p - length r - 1) = c_dot)"
    using s(2,3) \<open>q \<noteq> []\<close> unfolding q by simp
next
  let ?k = "length p - length r"
  assume a: "same_name (drop ?k p) r \<and> (hd r = c_dot \<or> dotless \<and> p ! (?k - 1) = c_dot)"
  have k: "0 < ?k" "?k \<le> length p" using assms by (simp, cases r) auto
  then have "take ?k p \<noteq> []" "last (take ?k p) = p ! (?k - 1)" by (auto simp: last_take)
  then have "take ?k p = [] \<or> hd r = c_dot \<or> dotless \<and> last (take ?k p) = c_dot" using a by auto
  moreover have "p = take ?k p @ drop ?k p" by simp
  ultimately show "in_subtree dotless p r" unfolding in_subtree_def using a by metis
qed

lemma in_subtree_not_longer:
  assumes "length p \<le> length r" and "r \<noteq> []"
  shows "in_subtree dotless p r \<longleftrightarrow> same_name p r"
proof
  assume "in_subtree dotless p r"
  then obtain q s where s: "p = q @ s" "same_name s r" using assms(2) unfolding in_subtree_def by blast
  then have "q = []" using assms(1) same_name_length [OF s(2)] by auto
  then show "same_name p r" using s by simp
qed (auto simp: in_subtree_def)

lemma wildcard_label_length: "wildcard_label p r \<Longrightarrow> length p \<le> length r"
  unfolding wildcard_label_def by (auto dest!: same_name_length simp: Suc_le_eq neq_Nil_conv)


lemma GetLength_minus:
  assumes "wf_Input p" and "wf_Input r" and "length r < length p"
  shows "GetLength p > GetLength r" and "unat (GetLength p - GetLength r) = length p - length r"
    and "unat (GetLength p - GetLength r - 1) = length p - length r - 1"
proof -
  have u: "unat (GetLength p) = length p" "unat (GetLength r) = length r" using assms by simp_all
  show 1: "GetLength p > GetLength r" using u assms(3) by (simp add: word_less_nat_alt)
  then show 2: "unat (GetLength p - GetLength r) = length p - length r"
    using u by (simp add: unat_sub word_le_nat_alt word_less_nat_alt)
  have "1 \<le> GetLength p - GetLength r" using 2 assms(3) by (simp add: word_le_nat_alt)
  then show "unat (GetLength p - GetLength r - 1) = length p - length r - 1" using 2 by (simp add: unat_sub)
qed

text \<open>What the skipping of the presented name's prefix leaves, when the constraint is shorter.\<close>

lemma SkipSubdomains_longer:
  assumes p: "wf_Input p" and r: "wf_Input r" "r \<noteq> []" and len: "length r < length p"
  shows "if hd r = c_dot \<or> ad = AllowDotless_Yes \<and> p ! (length p - length r - 1) = c_dot
    then \<exists>P. SkipSubdomains p ad r (Reader_of p) (Reader_of r) = Inr (Continue P) \<and> wf_Reader P \<and>
      remaining P = drop (length p - length r) p
    else SkipSubdomains p ad r (Reader_of p) (Reader_of r) =
      Inr (if ad = AllowDotless_Yes then Decided False else Continue (Reader_of p))"
proof -
  let ?k = "length p - length r"
  note g = GetLength_minus [OF p r(1) len]
  have ne: "GetLength r \<noteq> 0" using GetLength_wf [OF r(1)] r(2) by (metis length_0_conv unat_0)
  have peek: "Peek (Reader_of r) c_dot \<longleftrightarrow> hd r = c_dot"
    using r by (cases r) (simp_all add: Peek_iff)
  have skip: "Skip (Reader_of p) n = Inr (advance n (Reader_of p))" if "n \<le> length p" for n
    using that p by (simp add: Skip_spec)
  have rem: "remaining (advance n (Reader_of p)) = drop n p \<and> wf_Reader (advance n (Reader_of p))"
    if "n \<le> length p" for n using that p by simp
  have "drop (?k - 1) p = p ! (?k - 1) # drop ?k p" using len by (intro drop_minus_1) auto
  then have "wf_Reader (advance (?k - 1) (Reader_of p))"
    "remaining (advance (?k - 1) (Reader_of p)) = p ! (?k - 1) # drop ?k p" using rem [of "?k - 1"] by simp_all
  then obtain Q where Q: "Read8 (advance (?k - 1) (Reader_of p)) = Inr (p ! (?k - 1), Q)"
    "remaining Q = drop ?k p" "wf_Reader Q" using Read8_Cons by blast
  show ?thesis
    unfolding SkipSubdomains_def g(2,3)
    using g(1) ne peek skip [of ?k] skip [of "?k - 1"] rem [of ?k] Q by auto
qed


lemma compare_step:
  assumes "wf_Reader P" "remaining P = q" "wf_Reader R" "remaining R = r"
    and "q \<noteq> []" "last q \<noteq> c_dot" "hd q = c_star \<Longrightarrow> \<exists>bs. q = [c_star, c_dot] @ bs" "c_star \<notin> set r"
  shows "(case SkipWildcardLabels P R of Inl e \<Rightarrow> Inl e | Inr (Decided matches) \<Rightarrow> Inr matches
      | Inr (Continue (P, R)) \<Rightarrow> (case MatchBytes P R of Inl e \<Rightarrow> Inl e | Inr (Decided matches) \<Rightarrow> Inr matches
         | Inr (Continue R) \<Rightarrow> MatchEnd NameConstraint R)) = Inr (same_host q r)"
proof -
  have "hd q = c_star \<Longrightarrow> tl q \<noteq> []" using assms(7) by auto
  note c = compare_readers [OF assms(1-6) this, of NameConstraint]
  have "r \<noteq> [] \<Longrightarrow> hd r \<noteq> c_star" using assms(8) by (cases r) auto
  from compare_names_NameConstraint [OF assms(7) this assms(5)] c show ?thesis by simp
qed

lemma MatchDNSConstraint:
  assumes p: "wf_Input p" "IsValidDNSID p PresentedID aw"
    and r: "wf_Input r" "IsValidDNSID r NameConstraint AllowWildcards_No"
  shows "MatchPresentedDNSIDWithReferenceDNSID p aw ad NameConstraint r =
    Inr (in_subtree (ad = AllowDotless_Yes) p r \<or> wildcard_label p r)"
proof -
  note b = presented_bytes [OF p]
  have star: "\<And>bs. hd p = c_star \<Longrightarrow> \<exists>bs. p = [c_star, c_dot] @ bs" using b(5) by blast
  note r_star = reference_bytes [OF r]
  define go where "go = (\<lambda>P. case SkipWildcardLabels P (Reader_of r) of Inl e \<Rightarrow> Inl e | Inr (Decided matches) \<Rightarrow> Inr matches
      | Inr (Continue (P, R)) \<Rightarrow> (case MatchBytes P R of Inl e \<Rightarrow> Inl e | Inr (Decided matches) \<Rightarrow> Inr matches
         | Inr (Continue R) \<Rightarrow> MatchEnd NameConstraint R))"
  have all: "MatchPresentedDNSIDWithReferenceDNSID p aw ad NameConstraint r =
      (case SkipSubdomains p ad r (Reader_of p) (Reader_of r) of Inl e \<Rightarrow> Inl e
       | Inr (Decided matches) \<Rightarrow> Inr matches | Inr (Continue P) \<Rightarrow> go P)"
    unfolding MatchPresentedDNSIDWithReferenceDNSID_def RoleSwitch_def Let_def go_def
    by (simp only: p(2) r(2) not_True_eq_False if_False IDRole.case)
  have start: "go (Reader_of p) = Inr (same_host p r)"
    unfolding go_def by (rule compare_step [OF wf_Reader_of [OF p(1)] remaining_Reader_of [OF p(1)]
      wf_Reader_of [OF r(1)] remaining_Reader_of [OF r(1)] b(1,2) star r_star])
  show ?thesis
  proof (cases "length r < length p")
    case False
    then have "r \<noteq> []" using b(1) by auto
    have "\<not> GetLength p > GetLength r"
      using False GetLength_wf [OF p(1)] GetLength_wf [OF r(1)] by (simp add: word_less_nat_alt)
    then have "SkipSubdomains p ad r (Reader_of p) (Reader_of r) = Inr (Continue (Reader_of p))"
      by (simp add: SkipSubdomains_def)
    then show ?thesis
      using all start False in_subtree_not_longer [OF _ \<open>r \<noteq> []\<close>, of p] by (simp add: same_host_def)
  next
    case len: True
    then have no_wildcard: "\<not> wildcard_label p r" using wildcard_label_length by fastforce
    show ?thesis
    proof (cases "r = []")
      case True
      then show ?thesis using all len GetLength_minus(1) [OF p(1) r(1) len] GetLength_wf [OF r(1)]
        by (simp add: SkipSubdomains_def in_subtree_def word_unat_eq_iff)
    next
      case False
      let ?k = "length p - length r"
      note skip = SkipSubdomains_longer [OF p(1) r(1) False len, of ad]
      show ?thesis
      proof (cases "hd r = c_dot \<or> ad = AllowDotless_Yes \<and> p ! (?k - 1) = c_dot")
        case True
        then obtain P where P: "SkipSubdomains p ad r (Reader_of p) (Reader_of r) = Inr (Continue P)"
          "wf_Reader P" "remaining P = drop ?k p" using skip by auto
        have k: "?k < length p" "0 < ?k" using False len by (cases r, auto)+
        then have q: "drop ?k p \<noteq> []" "take ?k p \<noteq> []" by (simp_all only: drop_eq_Nil take_eq_Nil not_le) auto
        then have "last (drop ?k p) \<noteq> c_dot" "hd (drop ?k p) \<noteq> c_star"
          using b(2) not_wildcard_tail [OF b(4) append_take_drop_id [symmetric] q(2,1)] by (simp_all add: last_drop)
        then have "go P = Inr (same_host (drop ?k p) r)" "\<not> wildcard_label (drop ?k p) r"
          using compare_step [OF P(2,3) wf_Reader_of [OF r(1)] remaining_Reader_of [OF r(1)] q(1) _ _ r_star]
          unfolding go_def by (auto simp: wildcard_label_def)
        then show ?thesis
          using all P(1) True no_wildcard in_subtree_longer [OF len False, of "ad = AllowDotless_Yes"]
          by (auto simp: same_host_def)
      next
        case no: False
        have "\<not> same_name p r" using len same_name_length by fastforce
        then have "\<not> same_host p r" using no_wildcard by (simp add: same_host_def)
        then show ?thesis
          using all start no skip no_wildcard in_subtree_longer [OF len False, of "ad = AllowDotless_Yes"]
          by (auto split: if_splits)
      qed
    qed
  qed
qed


text \<open>Names that agree have as many dots; so a subtree whose name has more dots than a host does not contain it.\<close>

definition dots :: "u8 list \<Rightarrow> nat" where
  "dots bs = length (filter (\<lambda>b. b = c_dot) bs)"

lemma dots_simps [simp]:
  "dots [] = 0" "dots (a @ b) = dots a + dots b" "dots (x # a) = (if x = c_dot then 1 else 0) + dots a"
  by (simp_all add: dots_def)

lemma same_name_dots: "same_name a b \<Longrightarrow> dots a = dots b"
proof (induction a arbitrary: b)
  case (Cons x a)
  then obtain y b' where b: "b = y # b'" "LocaleInsensitveToLower x = LocaleInsensitveToLower y" "same_name a b'"
    by (cases b) auto
  then have "x = c_dot \<longleftrightarrow> y = c_dot" using lower_dot by metis
  then show ?case using b Cons.IH [OF b(3)] by simp
qed simp

lemma in_subtree_dots: "in_subtree dotless p r \<Longrightarrow> dots r \<le> dots p"
  by (auto simp: in_subtree_def dest!: same_name_dots)

lemma no_dots: "c_dot \<notin> set l \<Longrightarrow> dots l = 0"
  by (induction l) auto

lemma wildcard_label_dots:
  assumes "wildcard_label p h" and "p = c_star # c_dot # bs" and "hd h \<noteq> c_dot"
  shows "dots h = Suc (dots bs)"
proof -
  obtain l s where l: "h = l @ s" "l \<noteq> []" "c_dot \<notin> set (tl l)" "same_name (c_dot # bs) s"
    using assms(1,2) unfolding wildcard_label_def by auto
  have "hd l \<noteq> c_dot" using assms(3) l(1,2) by simp
  then have "c_dot \<notin> set l" using l(2,3) by (cases l) auto
  then show ?thesis using l(1) same_name_dots [OF l(4)] by (simp add: no_dots)
qed

section \<open>Properties\<close>

text \<open>C23: The comparison of a presented name with the name that was asked for. It fails with
  \<open>ERROR_BAD_DER\<close> exactly when one of the two is not a valid name of its role. Otherwise there
  is a match exactly when the names agree byte by byte but for the case of ASCII letters, or
  the presented name starts with a wildcard that stands for exactly one whole label of the
  reference; a dot at the end of the reference (an absolute name) is passed over.\<close>

theorem MatchPresentedDNSID_reference:
  assumes "wf_Input p" and "wf_Input r"
  shows "MatchPresentedDNSIDWithReferenceDNSID p allowWildcards allowDotless ReferenceID r =
    (if IsValidDNSID p PresentedID allowWildcards \<and> IsValidDNSID r ReferenceID AllowWildcards_No
     then Inr (same_host p r \<or> (\<exists>r'. r = r' @ [c_dot] \<and> same_host p r'))
     else Inl ERROR_BAD_DER)"
  using MatchDNSReference [OF assms(1) _ assms(2)] by (simp add: MatchPresentedDNSIDWithReferenceDNSID_def)

text \<open>C24: The comparison of a presented name with a name constraint. It fails with \<open>ERROR_BAD_DER\<close>
  exactly when one of the two is not valid. The constraint holds for a name exactly when it
  is empty; or the name is the constraint, or (for a constraint that starts with a dot, or
  if dotless constraints cover subdomains) the constraint with whole labels added on the
  left; or when the name's wildcard can stand for the first label of the constraint.\<close>

theorem MatchPresentedDNSID_constraint:
  assumes "wf_Input p" and "wf_Input r"
  shows "MatchPresentedDNSIDWithReferenceDNSID p allowWildcards allowDotless NameConstraint r =
    (if IsValidDNSID p PresentedID allowWildcards \<and> IsValidDNSID r NameConstraint AllowWildcards_No
     then Inr (in_subtree (allowDotless = AllowDotless_Yes) p r \<or> wildcard_label p r)
     else Inl ERROR_BAD_DER)"
  using MatchDNSConstraint [OF assms(1) _ assms(2)] by (simp add: MatchPresentedDNSIDWithReferenceDNSID_def)

text \<open>\<open>*.a.b\<close>, \<open>.x.a.b\<close>, \<open>y.a.b\<close> and \<open>y.a.b.\<close>\<close>

definition any_a_b :: Input where "any_a_b = [0x2A, 0x2E, 0x61, 0x2E, 0x62]"
definition sub_x_a_b :: Input where "sub_x_a_b = [0x2E, 0x78, 0x2E, 0x61, 0x2E, 0x62]"
definition y_a_b :: Input where "y_a_b = [0x79, 0x2E, 0x61, 0x2E, 0x62]"

lemmas sample_names = any_a_b_def sub_x_a_b_def y_a_b_def

lemma sample_names_wf: "wf_Input any_a_b" "wf_Input sub_x_a_b" "wf_Input y_a_b" "wf_Input (y_a_b @ [c_dot])"
  by (simp_all add: sample_names wf_Input_def MAX_INPUT_def)

lemma sample_names_valid:
  "IsValidDNSID any_a_b PresentedID AllowWildcards_Yes"
  "IsValidDNSID sub_x_a_b NameConstraint AllowWildcards_No"
  "IsValidDNSID y_a_b ReferenceID AllowWildcards_No"
  "IsValidDNSID y_a_b PresentedID AllowWildcards_Yes"
  "IsValidDNSID (y_a_b @ [c_dot]) ReferenceID AllowWildcards_No"
  "IsValidDNSID y_a_b PresentedID AllowWildcards_No"
  unfolding IsValidDNSID_iff [OF sample_names_wf(1)] IsValidDNSID_iff [OF sample_names_wf(2)]
    IsValidDNSID_iff [OF sample_names_wf(3)] IsValidDNSID_iff [OF sample_names_wf(4)]
  by (simp_all add: sample_names dns_name_def Let_def drop_lead_def drop_trail_def valid_label_def
    MAX_LABEL_LENGTH_def is_label_byte_def is_letter_def is_digit_def)

lemma sample_wildcard: "wildcard_label any_a_b (l # c_dot # t) \<longleftrightarrow> same_name (tl any_a_b) (c_dot # t)"
proof -
  have "after_label (l # c_dot # t) = c_dot # t" by (simp add: after_label_def)
  then show ?thesis using wildcard_label_iff [of any_a_b "[0x61, 0x2E, 0x62]"] by (simp add: any_a_b_def)
qed

theorem MatchPresentedDNSID_reference_witness:
  "MatchPresentedDNSIDWithReferenceDNSID any_a_b AllowWildcards_Yes AllowDotless_Yes ReferenceID
     (y_a_b @ [c_dot]) = Inr True"
proof -
  have "wildcard_label any_a_b y_a_b" using sample_wildcard by (simp add: sample_names)
  then show ?thesis
    using MatchPresentedDNSID_reference [OF sample_names_wf(1,4), of AllowWildcards_Yes AllowDotless_Yes]
      sample_names_valid by (simp add: same_host_def)
qed

theorem MatchPresentedDNSID_constraint_witness:
  "MatchPresentedDNSIDWithReferenceDNSID y_a_b AllowWildcards_Yes AllowDotless_Yes NameConstraint
     sub_x_a_b = Inr False"
proof -
  have "\<not> in_subtree True y_a_b sub_x_a_b" "\<not> wildcard_label y_a_b sub_x_a_b"
    using in_subtree_not_longer [of y_a_b sub_x_a_b] by (simp_all add: sample_names wildcard_label_def same_name_def)
  then show ?thesis
    using MatchPresentedDNSID_constraint [OF sample_names_wf(3,2), of AllowWildcards_Yes AllowDotless_Yes]
      sample_names_valid by simp
qed

text \<open>C39: A wildcard name can conform to a constraint although no host that it covers does. Let \<open>*.D\<close> be a valid name
  and \<open>.x.D\<close> a valid constraint, for any domain \<open>D\<close> and label \<open>x\<close>. The name is taken to be in the subtree, as the
  wildcard is compared with the constraint's own first label; but no host that the name matches when it is asked for, for
  instance \<open>y.D\<close>, is in the subtree.\<close>

theorem wildcard_escapes_constraint:
  assumes "wf_Input p" and "p = c_star # c_dot # bs" and "IsValidDNSID p PresentedID AllowWildcards_Yes"
    and "wf_Input r" and "r = c_dot # x @ c_dot # bs" and "c_dot \<notin> set x"
    and "IsValidDNSID r NameConstraint AllowWildcards_No"
  shows "MatchPresentedDNSIDWithReferenceDNSID p AllowWildcards_Yes ad NameConstraint r = Inr True \<and>
    (\<forall>h. wf_Input h \<and> IsValidDNSID h PresentedID AllowWildcards_No \<and> IsValidDNSID h ReferenceID AllowWildcards_No \<and>
       MatchPresentedDNSIDWithReferenceDNSID p AllowWildcards_Yes ad ReferenceID h = Inr True \<longrightarrow>
       MatchPresentedDNSIDWithReferenceDNSID h AllowWildcards_No ad NameConstraint r = Inr False)"
proof (intro conjI allI impI)
  have "same_name (tl p) (c_dot # bs)" using assms(2) by (simp add: same_name_def)
  then have "wildcard_label p r"
    unfolding wildcard_label_def using assms(2,5,6)
    by (intro conjI exI [of _ "c_dot # x"] exI [of _ "c_dot # bs"]) simp_all
  then show "MatchPresentedDNSIDWithReferenceDNSID p AllowWildcards_Yes ad NameConstraint r = Inr True"
    using MatchDNSConstraint [OF assms(1,3,4,7)] by simp
next
  fix h assume "wf_Input h \<and> IsValidDNSID h PresentedID AllowWildcards_No \<and> IsValidDNSID h ReferenceID AllowWildcards_No \<and>
    MatchPresentedDNSIDWithReferenceDNSID p AllowWildcards_Yes ad ReferenceID h = Inr True"
  then have h: "wf_Input h" "IsValidDNSID h PresentedID AllowWildcards_No" "IsValidDNSID h ReferenceID AllowWildcards_No"
    and "MatchPresentedDNSIDWithReferenceDNSID p AllowWildcards_Yes ad ReferenceID h = Inr True"
    by simp_all
  then have m: "same_host p h \<or> (\<exists>r'. h = r' @ [c_dot] \<and> same_host p r')"
    using MatchDNSReference [OF assms(1,3) h(1,3), of ad] by simp
  note b = presented_bytes [OF h(1,2)] and star = reference_bytes [OF h(1,3)]
  have "\<not> same_name p h"
  proof
    assume "same_name p h"
    then obtain y t where "h = y # t" "LocaleInsensitveToLower y = LocaleInsensitveToLower c_star"
      using assms(2) by (cases h) auto
    then show False using lower_star [of y] star by (simp add: LocaleInsensitveToLower_def)
  qed
  then have "wildcard_label p h" using m b(2) by (auto simp: same_host_def)
  then have "dots h < dots r" using wildcard_label_dots [OF _ assms(2) b(3)] assms(5) by simp
  then have "\<not> in_subtree dotless h r" for dotless using in_subtree_dots [of dotless h r] by auto
  moreover have "\<not> wildcard_label h r" using star b(1) hd_in_set [OF b(1)] unfolding wildcard_label_def by metis
  ultimately show "MatchPresentedDNSIDWithReferenceDNSID h AllowWildcards_No ad NameConstraint r = Inr False"
    using MatchDNSConstraint [OF h(1,2) assms(4,7)] by simp
qed

theorem wildcard_escapes_constraint_witness:
  "MatchPresentedDNSIDWithReferenceDNSID any_a_b AllowWildcards_Yes AllowDotless_Yes NameConstraint
     sub_x_a_b = Inr True \<and>
   MatchPresentedDNSIDWithReferenceDNSID any_a_b AllowWildcards_Yes AllowDotless_Yes ReferenceID
     y_a_b = Inr True \<and>
   MatchPresentedDNSIDWithReferenceDNSID y_a_b AllowWildcards_No AllowDotless_Yes NameConstraint
     sub_x_a_b = Inr False"
proof -
  have names: "any_a_b = c_star # c_dot # [0x61, 0x2E, 0x62]" "sub_x_a_b = c_dot # [0x78] @ c_dot # [0x61, 0x2E, 0x62]"
    "c_dot \<notin> set [0x78]"
    by (simp_all add: sample_names)
  have "wildcard_label any_a_b y_a_b" using sample_wildcard by (simp add: sample_names)
  then have "MatchPresentedDNSIDWithReferenceDNSID any_a_b AllowWildcards_Yes AllowDotless_Yes ReferenceID y_a_b = Inr True"
    using MatchDNSReference [OF sample_names_wf(1) sample_names_valid(1) sample_names_wf(3) sample_names_valid(3)]
    by (simp add: same_host_def)
  then show ?thesis
    using wildcard_escapes_constraint [OF sample_names_wf(1) names(1) sample_names_valid(1) sample_names_wf(2) names(2,3)
        sample_names_valid(2), of AllowDotless_Yes] sample_names_wf(3) sample_names_valid(3,6) by blast
qed

end
