(* ===== verification/PkixConstraints.thy ===== *)
theory PkixConstraints
  imports PkixDnsMatch PkixSamples
begin

text \<open>
  Name constraints (theory \<open>PkixNames\<close>): what a presented name must be to conform to the encoded
  constraints of an issuer, with the comparisons of IP addresses and directory names.
\<close>

section \<open>Addresses\<close>

definition masked_equal :: "u8 list \<Rightarrow> u8 list \<Rightarrow> u8 list \<Rightarrow> bool" where
  "masked_equal p a m \<longleftrightarrow> (\<forall>i < length p. (p ! i XOR a ! i) AND m ! i = 0)"

lemma masked_equal_Cons: "masked_equal (x # p) (y # a) (z # m) \<longleftrightarrow> (x XOR y) AND z = 0 \<and> masked_equal p a m"
  by (auto simp: masked_equal_def less_Suc_eq_0_disj)

lemma MatchMaskedBytes_list:
  assumes "wf_Reader p" "wf_Reader a" "wf_Reader m" "remaining p \<noteq> []"
    and "length (remaining a) = length (remaining p)" "length (remaining m) = length (remaining p)"
  shows "MatchMaskedBytes p a m = Inr (masked_equal (remaining p) (remaining a) (remaining m))"
  using assms
proof (induction "remaining p" arbitrary: p a m)
  case (Cons x xs)
  note px = Cons.hyps(2) [symmetric]
  obtain y ys z zs where a: "remaining a = y # ys" and m: "remaining m = z # zs"
    using Cons.prems(5,6) px by (cases "remaining a"; cases "remaining m") auto
  obtain p' where p': "Read8 p = Inr (x, p')" "remaining p' = xs" "wf_Reader p'"
    using Read8_Cons [OF Cons.prems(1) px] by blast
  obtain a' where a': "Read8 a = Inr (y, a')" "remaining a' = ys" "wf_Reader a'"
    using Read8_Cons [OF Cons.prems(2) a] by blast
  obtain m' where m': "Read8 m = Inr (z, m')" "remaining m' = zs" "wf_Reader m'"
    using Read8_Cons [OF Cons.prems(3) m] by blast
  have len: "length ys = length xs" "length zs = length xs" using Cons.prems(5,6) px a m by simp_all
  show ?case
  proof (cases "(x XOR y) AND z = 0 \<and> xs \<noteq> []")
    case True
    then have "MatchMaskedBytes p a m = MatchMaskedBytes p' a' m'"
      using p' a' m' by (subst MatchMaskedBytes.simps) (simp add: AtEnd_iff)
    then show ?thesis
      using Cons.hyps(1) [of p' a' m'] p' a' m' True len by (simp add: px a m masked_equal_Cons)
  next
    case False
    have "MatchMaskedBytes p a m = Inr ((x XOR y) AND z = 0)"
      using p' a' m' False by (subst MatchMaskedBytes.simps) (auto simp: AtEnd_iff)
    then show ?thesis using False by (auto simp: px a m masked_equal_Cons) (simp add: masked_equal_def)
  qed
qed simp

lemma GetLength_iff: "wf_Input i \<Longrightarrow> n < 65536 \<Longrightarrow> GetLength i = of_nat n \<longleftrightarrow> length i = n"
  using GetLength_wf [of i] by (auto simp: word_unat_eq_iff unat_of_nat_u16)

lemma SkipReader_ok:
  assumes wf: "wf_Reader r" and n: "n \<le> length (remaining r)"
  obtains s q where "SkipReader r n = Inr (s, q)" "wf_Reader s" "remaining s = take n (remaining r)"
    "wf_Reader q" "remaining q = drop n (remaining r)"
proof -
  obtain s q where *: "SkipReader r n = Inr (s, q)"
    using n by (auto simp: SkipReader_def EnsureLength_spec [OF wf])
  then show thesis using that SkipReader_spec [OF wf *] wf n by simp
qed

lemma MatchIPAddress_cases:
  assumes p: "wf_Input p" and c: "wf_Input c"
  shows "MatchPresentedIPAddressWithConstraint p c =
    (if length p \<in> {4, 16} \<and> length c \<in> {8, 32}
     then Inr (length c = 2 * length p \<and> masked_equal p (take (length p) c) (drop (length p) c))
     else Inl ERROR_BAD_DER)"
proof -
  have len: "GetLength p = 4 \<longleftrightarrow> length p = 4" "GetLength p = 16 \<longleftrightarrow> length p = 16"
    "GetLength c = 8 \<longleftrightarrow> length c = 8" "GetLength c = 32 \<longleftrightarrow> length c = 32"
    using GetLength_iff [OF p, of 4] GetLength_iff [OF p, of 16] GetLength_iff [OF c, of 8] GetLength_iff [OF c, of 32]
    by simp_all
  have u: "unat (GetLength p) = length p" "unat (GetLength c) = length c" using p c by simp_all
  show ?thesis
  proof (cases "length p \<in> {4, 16} \<and> length c = 2 * length p")
    case True
    then have h: "length c div 2 = length p" "length p \<le> length c" by auto
    obtain a q where a: "SkipReader (Reader_of c) (length p) = Inr (a, q)"
      "wf_Reader a" "remaining a = take (length p) c" "wf_Reader q" "remaining q = drop (length p) c"
      using SkipReader_ok [of "Reader_of c" "length p"] c h by auto
    obtain m q' where m: "SkipReader q (length p) = Inr (m, q')"
      "wf_Reader m" "remaining m = drop (length p) c" "wf_Reader q'" "remaining q' = []"
      using SkipReader_ok [of q "length p"] a True by auto
    have "p \<noteq> []" using True by auto
    have "End q' = Inr ()" using m by (simp add: End_def AtEnd_iff)
    moreover have "MatchMaskedBytes (Reader_of p) a m = Inr (masked_equal p (take (length p) c) (drop (length p) c))"
      using MatchMaskedBytes_list [of "Reader_of p" a m] p a m True \<open>p \<noteq> []\<close> by auto
    ultimately show ?thesis
      using True a m h by (auto simp: MatchPresentedIPAddressWithConstraint_def len u bind_res_def)
  next
    case False
    then show ?thesis by (auto simp: MatchPresentedIPAddressWithConstraint_def len u)
  qed
qed


section \<open>Directory names\<close>

text \<open>A directory name is a list of relative names, each a list of attributes: the type, the tag of
  the value and the value.\<close>

type_synonym ava = "u8 list \<times> u8 \<times> u8 list"

fun encode_ava :: "ava \<Rightarrow> u8 list" where
  "encode_ava (t, g, v) = encode_tlv SEQUENCE (encode_tlv OIDTag t @ encode_tlv g v)"

definition encode_rdn :: "ava list \<Rightarrow> u8 list" where
  "encode_rdn avas = encode_tlv SET (concat (map encode_ava avas))"

definition encode_name :: "ava list list \<Rightarrow> u8 list" where
  "encode_name rdns = encode_tlv SEQUENCE (concat (map encode_rdn rdns))"

fun low_tag :: "ava \<Rightarrow> bool" where
  "low_tag (t, g, v) \<longleftrightarrow> g AND 0x1F \<noteq> 0x1F"

text \<open>Attributes are equal, except that the two kinds of strings are not told apart.\<close>

fun ava_match :: "ava \<Rightarrow> ava \<Rightarrow> bool" where
  "ava_match (t, g, v) (t', g', v') \<longleftrightarrow>
     t = t' \<and> v = v' \<and> (g = g' \<or> {g, g'} = {UTF8String, PrintableString})"

lemma avasMatch_iff:
  "wf_Input t \<Longrightarrow> wf_Input v \<Longrightarrow> wf_Input t' \<Longrightarrow> wf_Input v' \<Longrightarrow>
   avasMatch (t, g, v) (t', g', v') \<longleftrightarrow> ava_match (t, g, v) (t', g', v')"
  by (auto simp: avasMatch_def InputsAreEqual_iff doubleton_eq_iff simp del: tag_values)

lemma wf_Input_prefix: "wf_Reader r \<Longrightarrow> remaining r = encode_tlv t v @ rest \<Longrightarrow> wf_Input v"
proof -
  assume wf: "wf_Reader r" and r: "remaining r = encode_tlv t v @ rest"
  have "length v \<le> length (remaining r)" unfolding r by (simp add: encode_tlv_def)
  then show ?thesis using length_remaining_le [OF wf] by (simp add: wf_Input_def)
qed

lemma tlv_at_start:
  assumes wf: "wf_Reader r" and r: "remaining r = encode_tlv t v @ rest" and t: "t AND 0x1F \<noteq> 0x1F"
  obtains q where "tlv_at r t v q" "remaining q = rest" "wf_Reader q" "wf_Input v"
proof -
  have v: "wf_Input v" by (rule wf_Input_prefix [OF wf r])
  obtain q where q: "tlv_at r t v q" "remaining q = rest" using tlv_at_intro [OF t v r] .
  then show thesis using that v tlv_at_wf [OF q(1) wf] by blast
qed

lemma ReadAVA_front:
  assumes wf: "wf_Reader r" and r: "remaining r = encode_ava x @ rest" and x: "low_tag x"
  obtains q where "ReadAVA r = Inr (x, q)" "remaining q = rest" "wf_Reader q" "wf_Input (fst x)" "wf_Input (snd (snd x))"
proof -
  obtain t g v where x_eq: "x = (t, g, v)" by (cases x)
  let ?w = "encode_tlv OIDTag t @ encode_tlv g v"
  obtain q where q: "tlv_at r SEQUENCE ?w q" "remaining q = rest" "wf_Reader q" "wf_Input ?w"
    using tlv_at_start [OF wf, of SEQUENCE ?w rest] r by (auto simp: x_eq)
  have w: "wf_Reader (Reader_of ?w)" "remaining (Reader_of ?w) = encode_tlv OIDTag t @ encode_tlv g v"
    using q(4) by simp_all
  obtain s where s: "tlv_at (Reader_of ?w) OIDTag t s" "remaining s = encode_tlv g v" "wf_Reader s" "wf_Input t"
    using tlv_at_start [OF w] by auto
  have "g AND 0x1F \<noteq> 0x1F" using x x_eq by simp
  then obtain s' where s': "tlv_at s g v s'" "remaining s' = []" "wf_Reader s'" "wf_Input v"
    using tlv_at_start [OF s(3), of g v "[]"] s(2) by auto
  have "ExpectTagAndGetValue (Reader_of ?w) OIDTag = Inr (t, s)" "ReadTagAndGetValue s = Inr (g, v, s')" "AtEnd s'"
    using s s' w(1) by (simp_all add: ExpectTagAndGetValue_iff ReadTagAndGetValue_iff AtEnd_iff del: tag_values)
  then have "ReadAVA r = Inr (x, q)" unfolding ReadAVA_def Nested_iff [OF wf]
    using q(1) by (intro exI [of _ ?w]) (simp add: whole_def x_eq del: tag_values)
  then show thesis using that q(2,3) s(4) s'(4) x_eq by simp
qed

lemma MatchRDN_list:
  "wf_Reader c \<Longrightarrow> wf_Reader p \<Longrightarrow> remaining c = concat (map encode_ava cs) \<Longrightarrow>
   remaining p = concat (map encode_ava ps) \<Longrightarrow> list_all low_tag cs \<Longrightarrow> list_all low_tag ps \<Longrightarrow>
   MatchRDN c p = Inr (list_all2 ava_match cs ps)"
proof (induction cs arbitrary: c p ps)
  have ne: "encode_ava x \<noteq> []" for x by (cases x) (simp add: encode_tlv_def)
  {
    case Nil
    then show ?case using ne by (cases ps) (simp_all add: MatchRDN.simps AtEnd_iff)
  next
    case (Cons x cs)
    have c: "\<not> AtEnd c" using Cons.prems(1,3) ne by (simp add: AtEnd_iff)
    show ?case
    proof (cases ps)
      case Nil
      then have "AtEnd p" using Cons.prems by (simp add: AtEnd_iff)
      then show ?thesis using c Nil by (simp add: MatchRDN.simps)
    next
      case ps: (Cons y ys)
      then have p: "\<not> AtEnd p" using Cons.prems(2,4) ne by (simp add: AtEnd_iff)
      obtain c' where c': "ReadAVA c = Inr (x, c')" "remaining c' = concat (map encode_ava cs)" "wf_Reader c'"
        "wf_Input (fst x)" "wf_Input (snd (snd x))"
        using ReadAVA_front [OF Cons.prems(1), of x "concat (map encode_ava cs)"] Cons.prems(3,5) by auto
      obtain p' where p': "ReadAVA p = Inr (y, p')" "remaining p' = concat (map encode_ava ys)" "wf_Reader p'"
        "wf_Input (fst y)" "wf_Input (snd (snd y))"
        using ReadAVA_front [OF Cons.prems(2), of y "concat (map encode_ava ys)"] Cons.prems(4,6) ps by auto
      have "avasMatch x y \<longleftrightarrow> ava_match x y" using avasMatch_iff c'(4,5) p'(4,5) by (cases x; cases y) auto
      then show ?thesis
        using Cons.IH [OF c'(3) p'(3) c'(2) p'(2)] Cons.prems(5,6) ps c p c'(1) p'(1)
        by (subst MatchRDN.simps) simp
    qed
  }
qed


lemma ExpectTagAndGetReader_front:
  assumes wf: "wf_Reader r" and r: "remaining r = encode_tlv t v @ rest" and t: "t AND 0x1F \<noteq> 0x1F"
  obtains s q where "ExpectTagAndGetReader r t = Inr (s, q)" "wf_Reader s" "remaining s = v"
    "wf_Reader q" "remaining q = rest"
proof -
  obtain q where q: "tlv_at r t v q" "remaining q = rest" "wf_Reader q" "wf_Input v"
    using tlv_at_start [OF wf r t] .
  then have "ExpectTagAndGetReader r t = Inr (Reader_of v, q)" using ExpectTagAndGetReader_iff [OF wf] by blast
  then show thesis using that q by simp
qed

lemma MatchRDNs_list:
  "wf_Reader c \<Longrightarrow> wf_Reader p \<Longrightarrow> remaining c = concat (map encode_rdn cs) \<Longrightarrow>
   remaining p = concat (map encode_rdn ps) \<Longrightarrow> list_all (list_all low_tag) cs \<Longrightarrow> list_all (list_all low_tag) ps \<Longrightarrow>
   MatchRDNs c p = Inr (list_all2 (list_all2 ava_match) cs (take (length cs) ps))"
proof (induction cs arbitrary: c p ps)
  have ne: "encode_rdn x \<noteq> []" for x by (simp add: encode_rdn_def encode_tlv_def)
  {
    case Nil
    then show ?case by (simp add: MatchRDNs.simps AtEnd_iff)
  next
    case (Cons x cs)
    have c: "\<not> AtEnd c" using Cons.prems(1,3) ne by (simp add: AtEnd_iff)
    show ?case
    proof (cases ps)
      case Nil
      then have "AtEnd p" using Cons.prems by (simp add: AtEnd_iff)
      then show ?thesis using c Nil by (simp add: MatchRDNs.simps)
    next
      case ps: (Cons y ys)
      then have p: "\<not> AtEnd p" using Cons.prems(2,4) ne by (simp add: AtEnd_iff)
      obtain cr c' where c': "ExpectTagAndGetReader c SET = Inr (cr, c')" "wf_Reader cr"
        "remaining cr = concat (map encode_ava x)" "wf_Reader c'" "remaining c' = concat (map encode_rdn cs)"
        using ExpectTagAndGetReader_front [OF Cons.prems(1), of SET "concat (map encode_ava x)" "concat (map encode_rdn cs)"]
          Cons.prems(3) by (auto simp: encode_rdn_def [of x])
      obtain pr p' where p': "ExpectTagAndGetReader p SET = Inr (pr, p')" "wf_Reader pr"
        "remaining pr = concat (map encode_ava y)" "wf_Reader p'" "remaining p' = concat (map encode_rdn ys)"
        using ExpectTagAndGetReader_front [OF Cons.prems(2), of SET "concat (map encode_ava y)" "concat (map encode_rdn ys)"]
          Cons.prems(4) ps by (auto simp: encode_rdn_def [of y])
      have "MatchRDN cr pr = Inr (list_all2 ava_match x y)"
        using MatchRDN_list [OF c'(2) p'(2) c'(3) p'(3)] Cons.prems(5,6) ps by simp
      then show ?thesis
        using Cons.IH [OF c'(4) p'(4) c'(5) p'(5)] Cons.prems(5,6) ps c p c'(1) p'(1)
        by (subst MatchRDNs.simps) (simp del: tag_values)
    qed
  }
qed

lemma encode_name_value:
  assumes "wf_Input (encode_name rdns)"
  obtains s where "ExpectTagAndGetValueAtEnd (encode_name rdns) SEQUENCE = Inr s" "wf_Reader s"
    "remaining s = concat (map encode_rdn rdns)"
proof -
  have r: "wf_Reader (Reader_of (encode_name rdns))"
    "remaining (Reader_of (encode_name rdns)) = encode_tlv SEQUENCE (concat (map encode_rdn rdns)) @ []"
    using assms by (simp_all add: encode_name_def)
  obtain s q where s: "ExpectTagAndGetReader (Reader_of (encode_name rdns)) SEQUENCE = Inr (s, q)" "wf_Reader s"
    "remaining s = concat (map encode_rdn rdns)" "wf_Reader q" "remaining q = []"
    using ExpectTagAndGetReader_front [OF r] by auto
  then have "ExpectTagAndGetValueAtEnd (encode_name rdns) SEQUENCE = Inr s"
    by (simp add: ExpectTagAndGetValueAtEnd_def End_def AtEnd_iff del: tag_values)
  then show thesis using that s by blast
qed

lemma MatchDirectoryName_names:
  assumes "wf_Input (encode_name ps)" "wf_Input (encode_name cs)"
    and "list_all (list_all low_tag) ps" "list_all (list_all low_tag) cs"
  shows "MatchPresentedDirectoryNameWithConstraint permittedSubtrees (encode_name ps) (encode_name cs) =
      Inr (list_all2 (list_all2 ava_match) cs (take (length cs) ps))"
    and "MatchPresentedDirectoryNameWithConstraint excludedSubtrees (encode_name ps) (encode_name cs) =
      (if cs = [] \<and> ps = [] then Inr True else Inl ERROR_CERT_NOT_IN_NAME_SPACE)"
proof -
  obtain p where p: "ExpectTagAndGetValueAtEnd (encode_name ps) SEQUENCE = Inr p" "wf_Reader p"
    "remaining p = concat (map encode_rdn ps)" using encode_name_value [OF assms(1)] .
  obtain c where c: "ExpectTagAndGetValueAtEnd (encode_name cs) SEQUENCE = Inr c" "wf_Reader c"
    "remaining c = concat (map encode_rdn cs)" using encode_name_value [OF assms(2)] .
  have ne: "concat (map encode_rdn xs) = [] \<longleftrightarrow> xs = []" for xs
    by (cases xs) (auto simp: encode_rdn_def encode_tlv_def)
  show "MatchPresentedDirectoryNameWithConstraint permittedSubtrees (encode_name ps) (encode_name cs) =
      Inr (list_all2 (list_all2 ava_match) cs (take (length cs) ps))"
    using p(1) c(1) MatchRDNs_list [OF c(2) p(2) c(3) p(3) assms(4,3)]
    by (simp add: MatchPresentedDirectoryNameWithConstraint_def del: tag_values)
  show "MatchPresentedDirectoryNameWithConstraint excludedSubtrees (encode_name ps) (encode_name cs) =
      (if cs = [] \<and> ps = [] then Inr True else Inl ERROR_CERT_NOT_IN_NAME_SPACE)"
    using p c ne by (auto simp: MatchPresentedDirectoryNameWithConstraint_def AtEnd_iff simp del: tag_values)
qed

text \<open>An excluded directory name is never passed, not even by an empty name.\<close>

lemma excluded_directory_name:
  "MatchPresentedDirectoryNameWithConstraint excludedSubtrees p c \<noteq> Inr False"
  by (auto simp: MatchPresentedDirectoryNameWithConstraint_def split: sum.splits)

section \<open>Subtrees\<close>

text \<open>A subtree is a general name; a list of subtrees is present only if it is not empty.\<close>

definition encode_subtree :: "GeneralNameType \<times> Input \<Rightarrow> u8 list" where
  "encode_subtree st = encode_tlv SEQUENCE (encode_tlv (general_name_tag (fst st)) (snd st))"

definition encode_subtrees :: "NameConstraintsSubtrees \<Rightarrow> (GeneralNameType \<times> Input) list \<Rightarrow> u8 list" where
  "encode_subtrees k sts = (if sts = [] then [] else encode_tlv (subtrees_tag k) (concat (map encode_subtree sts)))"

definition proper_subtree :: "GeneralNameType \<times> Input \<Rightarrow> bool" where
  "proper_subtree st \<longleftrightarrow> fst st \<noteq> GN_nameConstraints \<and> wf_Input (snd st)"

text \<open>The subtrees of the name's own type decide. If some are permitted, the name must be in one of
  them; it must be in none that is excluded; and every comparison must succeed.\<close>

definition permitted_by :: "GeneralNameType \<Rightarrow> Input \<Rightarrow> (GeneralNameType \<times> Input) list \<Rightarrow> bool" where
  "permitted_by t n sts \<longleftrightarrow>
     (\<forall>b. (t, b) \<in> set sts \<longrightarrow> (\<exists>m. MatchConstraint t permittedSubtrees n b = Inr m)) \<and>
     ((\<exists>b. (t, b) \<in> set sts) \<longrightarrow> (\<exists>b. (t, b) \<in> set sts \<and> MatchConstraint t permittedSubtrees n b = Inr True))"

definition not_excluded_by :: "GeneralNameType \<Rightarrow> Input \<Rightarrow> (GeneralNameType \<times> Input) list \<Rightarrow> bool" where
  "not_excluded_by t n sts \<longleftrightarrow> (\<forall>b. (t, b) \<in> set sts \<longrightarrow> MatchConstraint t excludedSubtrees n b = Inr False)"

lemma general_name_tag_low: "t \<noteq> GN_nameConstraints \<Longrightarrow> general_name_tag t AND 0x1F \<noteq> 0x1F"
  by (cases t) simp_all

lemma ReadGeneralName_iff:
  assumes wf: "wf_Reader r"
  shows "ReadGeneralName r = Inr ((t, v), r') \<longleftrightarrow> t \<noteq> GN_nameConstraints \<and> tlv_at r (general_name_tag t) v r'"
proof
  assume "ReadGeneralName r = Inr ((t, v), r')"
  then obtain tag where "ReadTagAndGetValue r = Inr (tag, v, r')" "tag = general_name_tag t" "t \<noteq> GN_nameConstraints"
    by (auto simp: ReadGeneralName_def simp del: general_name_tag.simps split: sum.splits if_splits)
  then show "t \<noteq> GN_nameConstraints \<and> tlv_at r (general_name_tag t) v r'"
    using ReadTagAndGetValue_iff [OF wf] by simp
next
  assume "t \<noteq> GN_nameConstraints \<and> tlv_at r (general_name_tag t) v r'"
  then show "ReadGeneralName r = Inr ((t, v), r')"
    unfolding ReadTagAndGetValue_iff [OF wf, symmetric] by (cases t) (simp_all add: ReadGeneralName_def)
qed

lemma ReadSubtree_iff:
  assumes wf: "wf_Reader r"
  shows "ReadSubtree r = Inr (st, r') \<longleftrightarrow>
    proper_subtree st \<and> tlv_at r SEQUENCE (encode_tlv (general_name_tag (fst st)) (snd st)) r'"
proof -
  obtain t b where st: "st = (t, b)" by force
  have inner: "(\<exists>q. ReadGeneralName (Reader_of v) = Inr ((t, b), q) \<and> End q = Inr ()) \<longleftrightarrow>
      t \<noteq> GN_nameConstraints \<and> wf_Input b \<and> v = encode_tlv (general_name_tag t) b" if v: "wf_Input v" for v
    unfolding ReadGeneralName_iff [OF wf_Reader_of [OF v]]
    using tlv_at_end_iff [OF v, of "general_name_tag t" b] general_name_tag_low [of t]
    by (auto simp: End_def)
  have "ReadSubtree r = Inr (st, r') \<longleftrightarrow>
      (\<exists>v. tlv_at r SEQUENCE v r' \<and> (\<exists>q. ReadGeneralName (Reader_of v) = Inr ((t, b), q) \<and> End q = Inr ()))"
    unfolding ReadSubtree_def case_sum_prod_Inr_iff ExpectTagAndGetReader_iff [OF wf] st
    by (fastforce simp: case_sum_Inr_iff case_sum_prod_Inr_iff simp del: tag_values split: sum.splits)
  then show ?thesis using inner tlv_at_wf [OF _ wf] by (auto simp: st proper_subtree_def simp del: tag_values)
qed


abbreviation check_subtrees where
  "check_subtrees t n k \<equiv> fold_res (\<lambda>flags st. CheckSubtree t n k flags (fst st) (snd st))"

lemma encode_subtree_not_Nil: "encode_subtree st \<noteq> []"
  by (simp add: encode_subtree_def encode_tlv_def)

lemma SEQUENCE_low: "SEQUENCE AND 0x1F \<noteq> 0x1F" "subtrees_tag k AND 0x1F \<noteq> 0x1F"
  by (simp, cases k) simp_all

lemma CheckSubtrees_loop_iff:
  "wf_Reader r \<Longrightarrow>
   CheckSubtrees_loop t n k r flags = Inr flags' \<longleftrightarrow>
     (\<exists>sts. sts \<noteq> [] \<and> list_all proper_subtree sts \<and> remaining r = concat (map encode_subtree sts) \<and>
       check_subtrees t n k flags sts = Inr flags')"
proof (induction t n k r flags rule: CheckSubtrees_loop.induct)
  case (1 t n k r flags)
  note wf = \<open>wf_Reader r\<close>
  let ?P = "\<lambda>r flags sts. list_all proper_subtree sts \<and> remaining r = concat (map encode_subtree sts) \<and>
      check_subtrees t n k flags sts = Inr flags'"
  show ?case
  proof
    assume "CheckSubtrees_loop t n k r flags = Inr flags'"
    then obtain st r1 flags1 where st: "ReadSubtree r = Inr (st, r1)"
      "CheckSubtree t n k flags (fst st) (snd st) = Inr flags1"
      "if AtEnd r1 then flags1 = flags' else CheckSubtrees_loop t n k r1 flags1 = Inr flags'"
      by (subst (asm) CheckSubtrees_loop.simps) (auto split: sum.splits if_splits)
    have at: "proper_subtree st" "tlv_at r SEQUENCE (encode_tlv (general_name_tag (fst st)) (snd st)) r1"
      using st(1) ReadSubtree_iff [OF wf] by blast+
    have wf1: "wf_Reader r1" using tlv_at_wf [OF at(2) wf] by blast
    obtain sts where "?P r1 flags1 sts"
    proof (cases "AtEnd r1")
      case True
      then show ?thesis using that [of "[]"] st(3) wf1 by (simp add: AtEnd_iff)
    next
      case False
      then show ?thesis using that st(3) 1(1) [OF st(1) refl prod.collapse st(2) False wf1] by auto
    qed
    then have "?P r flags (st # sts)" using at(1) tlv_at_split [OF at(2)] st(2) by (simp add: encode_subtree_def)
    then show "\<exists>sts. sts \<noteq> [] \<and> ?P r flags sts" by blast
  next
    assume "\<exists>sts. sts \<noteq> [] \<and> ?P r flags sts"
    then obtain sts' where sts': "sts' \<noteq> []" "?P r flags sts'" by blast
    obtain st sts where "sts' = st # sts" using sts'(1) by (cases sts') auto
    then have P: "?P r flags (st # sts)" using sts'(2) by simp
    then obtain flags1 where f: "CheckSubtree t n k flags (fst st) (snd st) = Inr flags1"
      "check_subtrees t n k flags1 sts = Inr flags'" by (auto split: sum.splits)
    have "remaining r = encode_tlv SEQUENCE (encode_tlv (general_name_tag (fst st)) (snd st)) @ concat (map encode_subtree sts)"
      using P by (simp add: encode_subtree_def [of st])
    then obtain r1 where r1: "tlv_at r SEQUENCE (encode_tlv (general_name_tag (fst st)) (snd st)) r1"
      "remaining r1 = concat (map encode_subtree sts)" "wf_Reader r1"
      using tlv_at_start [OF wf] by (metis SEQUENCE_low)
    then have read: "ReadSubtree r = Inr (st, r1)" using P ReadSubtree_iff [OF wf] by simp
    have end_iff: "AtEnd r1 \<longleftrightarrow> sts = []"
      using r1(2,3) encode_subtree_not_Nil by (cases sts) (simp_all add: AtEnd_iff)
    show "CheckSubtrees_loop t n k r flags = Inr flags'"
    proof (cases "sts = []")
      case True
      then show ?thesis using read f end_iff by (subst CheckSubtrees_loop.simps) (simp add: case_prod_beta)
    next
      case False
      then have "CheckSubtrees_loop t n k r1 flags1 = Inr flags'"
        unfolding 1(1) [OF read refl prod.collapse f(1) _ r1(3), OF iffD2 [OF arg_cong [OF end_iff, of Not] False]]
        using r1(2) f(2) P False by (intro exI [of _ sts]) simp
      then show ?thesis using read f(1) end_iff False
        by (subst CheckSubtrees_loop.simps) (simp add: case_prod_beta)
    qed
  qed
qed

lemma CheckSubtree_other: "u \<noteq> t \<Longrightarrow> CheckSubtree t n k flags u b = Inr flags"
  by (simp add: CheckSubtree_def)

lemma CheckSubtree_permitted:
  "CheckSubtree t n permittedSubtrees (m, mm) t b =
     (case MatchConstraint t permittedSubtrees n b of Inl e \<Rightarrow> Inl e | Inr x \<Rightarrow> Inr (m \<or> x, mm \<or> \<not> x))"
  by (auto simp: CheckSubtree_def split: sum.splits)

lemma CheckSubtree_excluded:
  "CheckSubtree t n excludedSubtrees flags t b = Inr flags' \<longleftrightarrow>
     flags' = flags \<and> MatchConstraint t excludedSubtrees n b = Inr False"
  by (auto simp: CheckSubtree_def split: sum.splits)

lemma check_permitted_iff:
  "check_subtrees t n permittedSubtrees (m, mm) sts = Inr (m', mm') \<longleftrightarrow>
     (\<forall>b. (t, b) \<in> set sts \<longrightarrow> (\<exists>x. MatchConstraint t permittedSubtrees n b = Inr x)) \<and>
     (m' \<longleftrightarrow> m \<or> (\<exists>b. (t, b) \<in> set sts \<and> MatchConstraint t permittedSubtrees n b = Inr True)) \<and>
     (mm' \<longleftrightarrow> mm \<or> (\<exists>b. (t, b) \<in> set sts \<and> MatchConstraint t permittedSubtrees n b = Inr False))"
proof (induction sts arbitrary: m mm)
  case (Cons st sts)
  obtain u b where st: "st = (u, b)" by force
  show ?case
  proof (cases "u = t")
    case False
    then have e: "check_subtrees t n permittedSubtrees (m, mm) (st # sts) = check_subtrees t n permittedSubtrees (m, mm) sts"
      by (simp add: st CheckSubtree_other)
    show ?thesis unfolding e Cons.IH using False by (auto simp: st)
  next
    case True
    show ?thesis
    proof (cases "MatchConstraint t permittedSubtrees n b")
      case (Inl e)
      then have "check_subtrees t n permittedSubtrees (m, mm) (st # sts) = Inl e"
        using True by (simp add: st CheckSubtree_permitted)
      then show ?thesis using Inl True by (auto simp: st)
    next
      case (Inr x)
      then have e: "check_subtrees t n permittedSubtrees (m, mm) (st # sts) =
          check_subtrees t n permittedSubtrees (m \<or> x, mm \<or> \<not> x) sts"
        using True by (simp add: st CheckSubtree_permitted)
      show ?thesis unfolding e Cons.IH using Inr True by (cases x) (auto simp: st)
    qed
  qed
qed auto

lemma check_excluded_iff:
  "check_subtrees t n excludedSubtrees flags sts = Inr flags' \<longleftrightarrow> flags' = flags \<and> not_excluded_by t n sts"
proof (induction sts)
  case (Cons st sts)
  obtain u b where st: "st = (u, b)" by force
  have "check_subtrees t n excludedSubtrees flags (st # sts) = Inr flags' \<longleftrightarrow>
      (\<exists>f. CheckSubtree t n excludedSubtrees flags u b = Inr f \<and> check_subtrees t n excludedSubtrees f sts = Inr flags')"
    by (auto simp: st split: sum.splits)
  also have "\<dots> \<longleftrightarrow> (u = t \<longrightarrow> MatchConstraint t excludedSubtrees n b = Inr False) \<and> flags' = flags \<and> not_excluded_by t n sts"
    using Cons.IH by (cases "u = t") (auto simp: CheckSubtree_excluded CheckSubtree_other)
  also have "\<dots> \<longleftrightarrow> flags' = flags \<and> not_excluded_by t n (st # sts)" by (auto simp: st not_excluded_by_def)
  finally show ?case .
qed (auto simp: not_excluded_by_def)


definition subtrees_allow :: "GeneralNameType \<Rightarrow> Input \<Rightarrow> NameConstraintsSubtrees \<Rightarrow> (GeneralNameType \<times> Input) list \<Rightarrow> bool" where
  "subtrees_allow t n k sts \<longleftrightarrow> (case k of permittedSubtrees \<Rightarrow> permitted_by t n sts | excludedSubtrees \<Rightarrow> not_excluded_by t n sts)"

lemma subtrees_allow_Nil [simp]: "subtrees_allow t n k []"
  by (cases k) (simp_all add: subtrees_allow_def permitted_by_def not_excluded_by_def)

lemma check_subtrees_allow:
  "(\<exists>m mm. check_subtrees t n k (False, False) sts = Inr (m, mm) \<and> \<not> (mm \<and> \<not> m)) \<longleftrightarrow> subtrees_allow t n k sts"
proof (cases k)
  case permittedSubtrees
  let ?A = "\<forall>b. (t, b) \<in> set sts \<longrightarrow> (\<exists>x. MatchConstraint t permittedSubtrees n b = Inr x)"
  let ?M = "\<lambda>x. \<exists>b. (t, b) \<in> set sts \<and> MatchConstraint t permittedSubtrees n b = Inr x"
  have "(\<exists>m mm. check_subtrees t n k (False, False) sts = Inr (m, mm) \<and> \<not> (mm \<and> \<not> m)) \<longleftrightarrow>
      ?A \<and> \<not> (?M False \<and> \<not> ?M True)"
    unfolding permittedSubtrees check_permitted_iff by auto
  moreover have "?A \<Longrightarrow> (\<exists>b. (t, b) \<in> set sts) \<longleftrightarrow> ?M True \<or> ?M False" by (metis (full_types))
  ultimately show ?thesis unfolding permittedSubtrees subtrees_allow_def permitted_by_def
    NameConstraintsSubtrees.case by argo
next
  case excludedSubtrees
  then show ?thesis unfolding excludedSubtrees check_excluded_iff subtrees_allow_def by auto
qed

lemma CheckNameConstraintsSubtrees_iff:
  assumes wf: "wf_Reader r"
  shows "CheckPresentedIDConformsToNameConstraintsSubtrees t n r k = Inr r' \<longleftrightarrow>
    (if Peek r (subtrees_tag k)
     then \<exists>sts. sts \<noteq> [] \<and> list_all proper_subtree sts \<and> subtrees_allow t n k sts \<and>
       tlv_at r (subtrees_tag k) (concat (map encode_subtree sts)) r'
     else r' = r)"
proof (cases "Peek r (subtrees_tag k)")
  case True
  have "CheckPresentedIDConformsToNameConstraintsSubtrees t n r k = Inr r' \<longleftrightarrow>
      (\<exists>v. tlv_at r (subtrees_tag k) v r' \<and>
        (\<exists>m mm. CheckSubtrees_loop t n k (Reader_of v) (False, False) = Inr (m, mm) \<and> \<not> (mm \<and> \<not> m)))"
    using True unfolding CheckPresentedIDConformsToNameConstraintsSubtrees_def
    by (auto simp: case_sum_prod_Inr_iff ExpectTagAndGetReader_iff [OF wf] if_Inl_Inr_iff simp del: subtrees_tag.simps)
  also have "\<dots> \<longleftrightarrow> (\<exists>v. tlv_at r (subtrees_tag k) v r' \<and>
      (\<exists>sts. sts \<noteq> [] \<and> list_all proper_subtree sts \<and> v = concat (map encode_subtree sts) \<and> subtrees_allow t n k sts))"
    (is "(\<exists>v. _ \<and> ?L v) \<longleftrightarrow> (\<exists>v. _ \<and> ?R v)")
  proof -
    have "?L v \<longleftrightarrow> ?R v" if "tlv_at r (subtrees_tag k) v r'" for v
    proof -
      have v: "wf_Input v" using tlv_at_wf [OF that wf] by blast
      show ?thesis
        unfolding CheckSubtrees_loop_iff [OF wf_Reader_of [OF v]] remaining_Reader_of [OF v] check_subtrees_allow [symmetric]
        by blast
    qed
    then show ?thesis by blast
  qed
  finally show ?thesis using True by auto
next
  case False
  then show ?thesis by (auto simp: CheckPresentedIDConformsToNameConstraintsSubtrees_def)
qed


lemma CheckNameConstraintsSubtrees_bytes:
  assumes wf: "wf_Reader r"
  shows "CheckPresentedIDConformsToNameConstraintsSubtrees t n r k = Inr r' \<longleftrightarrow>
    (\<exists>sts. list_all proper_subtree sts \<and> subtrees_allow t n k sts \<and>
      remaining r = encode_subtrees k sts @ remaining r' \<and> r' = advance (length (encode_subtrees k sts)) r \<and>
      (sts = [] \<longrightarrow> \<not> Peek r (subtrees_tag k)))"
proof -
  have at: "tlv_at r (subtrees_tag k) v r' \<longleftrightarrow> remaining r = encode_tlv (subtrees_tag k) v @ remaining r' \<and>
      r' = advance (length (encode_tlv (subtrees_tag k) v)) r" for v
    using wf_Input_prefix [OF wf] SEQUENCE_low(2) tlv_at_split unfolding tlv_at_def by blast
  have peek: "remaining r = encode_tlv (subtrees_tag k) v @ rest \<Longrightarrow> Peek r (subtrees_tag k)" for v rest
    using wf by (simp add: Peek_iff encode_tlv_def)
  show ?thesis
  proof (cases "Peek r (subtrees_tag k)")
    case True
    then show ?thesis unfolding CheckNameConstraintsSubtrees_iff [OF wf] at by (auto simp: encode_subtrees_def)
  next
    case False
    have nil: "encode_subtrees k sts = []" if "remaining r = encode_subtrees k sts @ rest" for sts rest
      using that peek False by (auto simp: encode_subtrees_def split: if_splits)
    show ?thesis
    proof
      assume "CheckPresentedIDConformsToNameConstraintsSubtrees t n r k = Inr r'"
      then have "r' = r" using False by (simp add: CheckNameConstraintsSubtrees_iff [OF wf])
      then show "\<exists>sts. list_all proper_subtree sts \<and> subtrees_allow t n k sts \<and>
          remaining r = encode_subtrees k sts @ remaining r' \<and> r' = advance (length (encode_subtrees k sts)) r \<and>
          (sts = [] \<longrightarrow> \<not> Peek r (subtrees_tag k))"
        using False by (intro exI [of _ "[]"]) (simp add: encode_subtrees_def)
    next
      assume "\<exists>sts. list_all proper_subtree sts \<and> subtrees_allow t n k sts \<and>
          remaining r = encode_subtrees k sts @ remaining r' \<and> r' = advance (length (encode_subtrees k sts)) r \<and>
          (sts = [] \<longrightarrow> \<not> Peek r (subtrees_tag k))"
      then have "r' = r" using nil by (metis advance_0 list.size(3))
      then show "CheckPresentedIDConformsToNameConstraintsSubtrees t n r k = Inr r'"
        using False by (simp add: CheckNameConstraintsSubtrees_iff [OF wf])
    qed
  qed
qed

lemma ConformsToConstraints_iff:
  assumes "wf_Input enc"
  shows "CheckPresentedIDConformsToConstraints t n enc = Inr () \<longleftrightarrow>
    (\<exists>permitted excluded. (permitted \<noteq> [] \<or> excluded \<noteq> []) \<and>
      list_all proper_subtree (permitted @ excluded) \<and>
      permitted_by t n permitted \<and> not_excluded_by t n excluded \<and>
      enc = encode_tlv SEQUENCE (encode_subtrees permittedSubtrees permitted @ encode_subtrees excludedSubtrees excluded))"
  (is "?L \<longleftrightarrow> ?R")
proof
  let ?sub = "CheckPresentedIDConformsToNameConstraintsSubtrees t n"
  assume ?L
  then obtain r r1 r2 where r: "ExpectTagAndGetValueAtEnd enc SEQUENCE = Inr r" "\<not> AtEnd r"
    "?sub r permittedSubtrees = Inr r1" "?sub r1 excludedSubtrees = Inr r2" "AtEnd r2"
    unfolding CheckPresentedIDConformsToConstraints_def
    by (auto simp: bind_res_Inr_iff End_def simp del: tag_values split: if_splits)
  obtain v where v: "wf_Input v" "enc = encode_tlv SEQUENCE v" "r = Reader_of v"
    using r(1) ExpectTagAndGetValueAtEnd_iff [OF assms] by blast
  have wf: "wf_Reader r" "remaining r = v" using v by simp_all
  obtain ps where ps: "list_all proper_subtree ps" "subtrees_allow t n permittedSubtrees ps"
    "remaining r = encode_subtrees permittedSubtrees ps @ remaining r1"
    "r1 = advance (length (encode_subtrees permittedSubtrees ps)) r"
    using r(3) unfolding CheckNameConstraintsSubtrees_bytes [OF wf(1)] by blast
  have "length (encode_subtrees permittedSubtrees ps) \<le> length (remaining r)" unfolding ps(3) by simp
  then have wf1: "wf_Reader r1" using wf(1) ps(4) by simp
  obtain es where es: "list_all proper_subtree es" "subtrees_allow t n excludedSubtrees es"
    "remaining r1 = encode_subtrees excludedSubtrees es @ remaining r2"
    "r2 = advance (length (encode_subtrees excludedSubtrees es)) r1"
    using r(4) unfolding CheckNameConstraintsSubtrees_bytes [OF wf1] by blast
  have "length (encode_subtrees excludedSubtrees es) \<le> length (remaining r1)" unfolding es(3) by simp
  then have "wf_Reader r2" using wf1 es(4) by simp
  then have bytes: "v = encode_subtrees permittedSubtrees ps @ encode_subtrees excludedSubtrees es"
    using ps(3) es(3) r(5) wf(2) by (simp add: AtEnd_iff)
  have "v \<noteq> []" using r(2) wf by (simp add: AtEnd_iff)
  then have "ps \<noteq> [] \<or> es \<noteq> []" using bytes by (auto simp: encode_subtrees_def)
  then show ?R using ps(1,2) es(1,2) bytes v(2) by (auto simp: subtrees_allow_def)
next
  let ?sub = "CheckPresentedIDConformsToNameConstraintsSubtrees t n"
  assume ?R
  then obtain ps es where *: "ps \<noteq> [] \<or> es \<noteq> []" "list_all proper_subtree ps" "list_all proper_subtree es"
    "subtrees_allow t n permittedSubtrees ps" "subtrees_allow t n excludedSubtrees es"
    "enc = encode_tlv SEQUENCE (encode_subtrees permittedSubtrees ps @ encode_subtrees excludedSubtrees es)"
    by (auto simp: subtrees_allow_def)
  let ?p = "encode_subtrees permittedSubtrees ps" and ?e = "encode_subtrees excludedSubtrees es"
  let ?r = "Reader_of (?p @ ?e)"
  have pe: "wf_Input (?p @ ?e)"
    using assms *(6) by (simp add: wf_Input_def encode_tlv_def)
  then have 1: "ExpectTagAndGetValueAtEnd enc SEQUENCE = Inr ?r"
    using ExpectTagAndGetValueAtEnd_iff [OF assms] *(6) SEQUENCE_low(1) by blast
  have wf: "wf_Reader ?r" "remaining ?r = ?p @ ?e" using pe by simp_all
  have 2: "\<not> AtEnd ?r" using wf *(1) by (auto simp: AtEnd_iff encode_subtrees_def encode_tlv_def)
  have 3: "?sub ?r permittedSubtrees = Inr (advance (length ?p) ?r)"
    unfolding CheckNameConstraintsSubtrees_bytes [OF wf(1)]
    using *(2,4) wf by (intro exI [of _ ps]) (auto simp: encode_subtrees_def encode_tlv_def Peek_iff)
  obtain s where s: "s = advance (length ?p) ?r" "wf_Reader s" "remaining s = ?e" using wf by simp
  have 4: "?sub s excludedSubtrees = Inr (advance (length ?e) s)"
    unfolding CheckNameConstraintsSubtrees_bytes [OF s(2)]
    using *(3,5) s(2,3) by (intro exI [of _ es]) (auto simp: encode_subtrees_def Peek_iff)
  have "AtEnd (advance (length ?e) s)" using s(2,3) by (subst AtEnd_iff) simp_all
  then show ?L
    using 1 2 3 4 s(1)
    by (simp add: CheckPresentedIDConformsToConstraints_def fail_if_def End_def del: tag_values)
qed


section \<open>The properties\<close>

text \<open>An IP address conforms to a constraint exactly when the constraint is an address of the same
  size followed by a mask, and the two addresses agree in every bit that is set in the mask. An address
  or a constraint of any other length than the two sizes is malformed.\<close>

lemma MatchPresentedIPAddress_masked:
  assumes "wf_Input address" "wf_Input constraint"
  shows "MatchPresentedIPAddressWithConstraint address constraint =
    (if length address \<in> {4, 16} \<and> length constraint \<in> {8, 32}
     then Inr (length constraint = 2 * length address \<and>
       masked_equal address (take (length address) constraint) (drop (length address) constraint))
     else Inl ERROR_BAD_DER)"
  using assms by (rule MatchIPAddress_cases)

text \<open>A directory name is in a permitted subtree exactly when the relative names of the constraint
  are its first ones: attribute for attribute in the same order, with the same bytes and the same tags, but
  for the two kinds of strings that are not told apart. As an excluded subtree, only the empty name can be
  compared with the empty constraint; everything else is an error.\<close>

lemma MatchPresentedDirectoryName_prefix:
  assumes "wf_Input (encode_name name)" "wf_Input (encode_name constraint)"
    and "list_all (list_all low_tag) name" "list_all (list_all low_tag) constraint"
  shows "MatchPresentedDirectoryNameWithConstraint k (encode_name name) (encode_name constraint) =
    (case k of
       permittedSubtrees \<Rightarrow> Inr (list_all2 (list_all2 ava_match) constraint (take (length constraint) name))
     | excludedSubtrees \<Rightarrow> if constraint = [] \<and> name = [] then Inr True else Inl ERROR_CERT_NOT_IN_NAME_SPACE)"
  using MatchDirectoryName_names [OF assms] by (cases k) simp_all

definition sample_rdn :: "u8 \<Rightarrow> ava list" where
  "sample_rdn tag = [([0x55, 0x04, 0x06], tag, [0x53, 0x45])]"

text \<open>C14: A name conforms to the encoded constraints of an issuer exactly when these are the DER encoding
  of a list of permitted and a list of excluded subtrees, of which at least one is present and none is
  present but empty, and the name is in one of the permitted subtrees of its type, if there are any, and
  in no excluded one, and can be compared with all of them. In particular no subtree has a minimum or a
  maximum, and no constraint other than these two lists is accepted.\<close>

theorem ConformsToConstraints_subtrees:
  assumes "wf_Input constraints"
  shows "CheckPresentedIDConformsToConstraints t name constraints = Inr () \<longleftrightarrow>
    (\<exists>permitted excluded. (permitted \<noteq> [] \<or> excluded \<noteq> []) \<and>
      list_all proper_subtree (permitted @ excluded) \<and>
      permitted_by t name permitted \<and> not_excluded_by t name excluded \<and>
      constraints = encode_tlv SEQUENCE
        (encode_subtrees permittedSubtrees permitted @ encode_subtrees excludedSubtrees excluded))"
  using assms by (rule ConformsToConstraints_iff)

theorem ConformsToConstraints_subtrees_witness:
  "CheckPresentedIDConformsToConstraints GN_iPAddress [10, 1, 2, 3]
     [0x30, 0x1C, 0xA0, 0x0C, 0x30, 0x0A, 0x87, 0x08, 10, 0, 0, 0, 255, 0, 0, 0,
                  0xA1, 0x0C, 0x30, 0x0A, 0x87, 0x08, 10, 2, 0, 0, 255, 255, 0, 0] = Inr ()"
proof -
  let ?p = "[10, 0, 0, 0, 255, 0, 0, 0] :: Input" and ?e = "[10, 2, 0, 0, 255, 255, 0, 0] :: Input"
  let ?n = "[10, 1, 2, 3] :: Input"
  let ?ps = "[(GN_iPAddress, ?p)]" and ?es = "[(GN_iPAddress, ?e)]"
  have "MatchConstraint GN_iPAddress permittedSubtrees ?n ?p = Inr True"
    "MatchConstraint GN_iPAddress excludedSubtrees ?n ?e = Inr False"
    by (simp_all add: MatchConstraint_def MatchIPAddress_cases wf_Input_def MAX_INPUT_def masked_equal_Cons)
      (simp add: masked_equal_def)
  then have "permitted_by GN_iPAddress ?n ?ps" "not_excluded_by GN_iPAddress ?n ?es"
    by (auto simp: permitted_by_def not_excluded_by_def)
  moreover have "list_all proper_subtree (?ps @ ?es)"
    by (simp add: proper_subtree_def wf_Input_def MAX_INPUT_def)
  ultimately show ?thesis
    by (subst ConformsToConstraints_subtrees)
      (simp add: wf_Input_def MAX_INPUT_def, rule exI [of _ ?ps], rule exI [of _ ?es],
        simp add: encode_subtrees_def encode_subtree_def encode_tlv_def encode_length_def wf_Input_def MAX_INPUT_def)
qed

end
