(* ===== verification/PkixIpv6.thy ===== *)
theory PkixIpv6
  imports PkixIp
begin

text \<open>
  The textual form of an IPv6 address, and that \<open>ParseIPv6Address\<close> of theory \<open>PkixIp\<close> accepts exactly
  this form. The buffer that the code writes the address to is not initialised; the address does not
  depend on its contents.
\<close>

section \<open>The textual form\<close>

definition is_hex :: "u8 \<Rightarrow> bool" where
  "is_hex b \<longleftrightarrow> hex_digit b \<noteq> None"

text \<open>A piece of 16 bits is spelled with one to four digits.\<close>

definition hextet :: "u8 list \<Rightarrow> bool" where
  "hextet w \<longleftrightarrow> w \<noteq> [] \<and> length w \<le> 4 \<and> list_all is_hex w"

definition hextet_value :: "u8 list \<Rightarrow> nat" where
  "hextet_value w = foldl (\<lambda>v d. 16 * v + unat (the (hex_digit d))) 0 w"

definition hextet_bytes :: "u8 list \<Rightarrow> u8 list" where
  "hextet_bytes w = [of_nat (hextet_value w div 256), of_nat (hextet_value w mod 256)]"

text \<open>\<open>spells ip4 s n bytes\<close>: the string is a list of pieces that are separated by colons. They stand for
  \<open>n\<close> pieces of 16 bits. If \<open>ip4\<close> holds, the last two may be spelled as an IPv4 address.\<close>

inductive spells :: "bool \<Rightarrow> u8 list \<Rightarrow> nat \<Rightarrow> u8 list \<Rightarrow> bool" where
  hextet: "hextet w \<Longrightarrow> spells ip4 w 1 (hextet_bytes w)"
| ipv4: "ip4 \<Longrightarrow> length a = 4 \<Longrightarrow> spells ip4 (ipv4_text a) 2 a"
| more: "hextet w \<Longrightarrow> spells ip4 s n bytes \<Longrightarrow> spells ip4 (w @ c_colon # s) (n + 1) (hextet_bytes w @ bytes)"

text \<open>The sides of a contraction may be empty.\<close>

definition spells_side :: "bool \<Rightarrow> u8 list \<Rightarrow> nat \<Rightarrow> u8 list \<Rightarrow> bool" where
  "spells_side ip4 s n bytes \<longleftrightarrow> s = [] \<and> n = 0 \<and> bytes = [] \<or> spells ip4 s n bytes"

text \<open>Either all eight pieces are spelled, or two colons stand for the missing ones, at least one, which
  are zero. Two colons alone are not an address here.\<close>

definition ipv6_text :: "u8 list \<Rightarrow> u8 list \<Rightarrow> bool" where
  "ipv6_text s a \<longleftrightarrow> spells True s 8 a \<or>
     (\<exists>l m L r n R. s = l @ [c_colon, c_colon] @ r \<and> spells_side False l m L \<and> spells_side True r n R \<and>
        (l \<noteq> [] \<or> r \<noteq> []) \<and> m + n \<le> 7 \<and> a = L @ replicate (2 * (8 - (m + n))) 0 @ R)"

section \<open>One piece\<close>

lemma not_hex [simp]: "\<not> is_hex c_colon" "\<not> is_hex c_dot"
  by (simp_all add: is_hex_def hex_digit_def)

definition hex_word :: "u16 \<Rightarrow> u8 list \<Rightarrow> u16" where
  "hex_word v ds = foldl (\<lambda>v d. v * 0x10 + ucast (the (hex_digit d))) v ds"

lemma hex_word_Cons: "hex_word v (d # ds) = hex_word (v * 0x10 + ucast (the (hex_digit d))) ds"
  by (simp add: hex_word_def)

lemma component_list:
  "wf_Reader r \<Longrightarrow> n \<le> 4 \<Longrightarrow> ParseIPv6Address_component r v n =
     (let ds = takeWhile is_hex (remaining r) in
      if n + length ds > 4 then Component_Invalid
      else case dropWhile is_hex (remaining r) of
        [] \<Rightarrow> Component_Value (hex_word v ds) (n + length ds) (advance (length ds) r)
      | b # _ \<Rightarrow>
          if b = c_colon then Component_Value (hex_word v ds) (n + length ds) (advance (length ds) r)
          else if b = c_dot then Component_IPv4 (advance (length ds + 1) r)
          else Component_Invalid)"
proof (induction "remaining r" arbitrary: r v n)
  case Nil
  note e = Nil.hyps [symmetric]
  have "AtEnd r" using Nil.prems e by (simp add: AtEnd_iff)
  then show ?case using Nil.prems(2) by (subst ParseIPv6Address_component.simps) (simp add: e hex_word_def)
next
  case (Cons b bs)
  note e = Cons.hyps(2) [symmetric]
  have rd: "Read8 r = Inr (b, advance 1 r)" "\<not> AtEnd r" "\<And>c. Peek r c \<longleftrightarrow> b = c"
    using Cons.prems(1) e by (simp_all add: Read8_spec AtEnd_iff Peek_iff)
  show ?case
  proof (cases "hex_digit b")
    case None
    then have "\<not> is_hex b" by (simp add: is_hex_def)
    then show ?thesis using None rd Cons.prems(2)
      by (subst ParseIPv6Address_component.simps) (auto simp: e Let_def hex_word_def)
  next
    case (Some d)
    then have b: "is_hex b" "b \<noteq> c_colon" by (auto simp: is_hex_def) (simp add: hex_digit_def)
    have step: "ParseIPv6Address_component r v n = (if n \<ge> 4 then Component_Invalid
        else ParseIPv6Address_component (advance 1 r) (v * 0x10 + ucast d) (n + 1))"
      using Some b rd by (subst ParseIPv6Address_component.simps) simp
    have q: "wf_Reader (advance 1 r)" "remaining (advance 1 r) = bs" using Cons.prems(1) e by simp_all
    show ?thesis
    proof (cases "n \<ge> 4")
      case True
      then show ?thesis using b by (simp add: step e Let_def)
    next
      case False
      then show ?thesis
        using Cons.hyps(1) [OF q(2) [symmetric] q(1), of "n + 1" "v * 0x10 + ucast d"] b Some
        by (cases "dropWhile is_hex bs") (simp_all add: step e q(2) hex_word_Cons Let_def del: dropWhile_eq_Nil_conv)
    qed
  qed
qed


lemma hex_digit_less: "hex_digit b = Some d \<Longrightarrow> unat d < 16"
  by (auto simp: hex_digit_def word_le_nat_alt unat_sub word_le_nat_alt unat_word_ariths
      split: if_splits)

lemma hex_word_value:
  "list_all is_hex ds \<Longrightarrow> unat v < 16 ^ k \<Longrightarrow> k + length ds \<le> 4 \<Longrightarrow>
   unat (hex_word v ds) = foldl (\<lambda>v d. 16 * v + unat (the (hex_digit d))) (unat v) ds \<and>
   unat (hex_word v ds) < 16 ^ (k + length ds)"
proof (induction ds arbitrary: v k)
  case Nil
  then show ?case by (simp add: hex_word_def)
next
  case (Cons b ds)
  obtain d where d: "hex_digit b = Some d" using Cons.prems(1) by (auto simp: is_hex_def)
  have "unat d < 16" using d by (rule hex_digit_less)
  have "(16 :: nat) ^ k \<le> 16 ^ 3" using Cons.prems(3) by (intro power_increasing) simp_all
  then have "16 * unat v + unat d < 65536" using Cons.prems(2) \<open>unat d < 16\<close> by simp
  then have v: "unat (v * 0x10 + ucast d) = 16 * unat v + unat d"
    by (simp add: unat_word_ariths unsigned_ucast_eq take_bit_eq_mod)
  then have "unat (v * 0x10 + ucast d) < 16 ^ (k + 1)"
    using Cons.prems(2) \<open>unat d < 16\<close> by simp
  then show ?case
    using Cons.IH [of "v * 0x10 + ucast d" "k + 1"] Cons.prems(1,3) v by (simp add: d hex_word_Cons)
qed

lemma hextet_word:
  assumes "hextet ds"
  shows "[ucast (hex_word 0 ds div 0x100), ucast (hex_word 0 ds mod 0x100)] = hextet_bytes ds"
proof -
  have w: "unat (hex_word 0 ds) = hextet_value ds"
    using hex_word_value [of ds 0 0] assms by (simp add: hextet_def hextet_value_def)
  have "unat (hex_word 0 ds) < 65536" using unsigned_less [of "hex_word 0 ds", where ?'a = nat] by simp
  then have "hextet_value ds div 256 < 256" by (simp add: w)
  then show ?thesis
    by (simp add: hextet_bytes_def word_unat_eq_iff unsigned_ucast_eq take_bit_eq_mod unat_div unat_mod w
        unat_of_nat_u8)
qed

section \<open>The address that is put together\<close>

lemma Finish_plain: "k \<le> 8 \<Longrightarrow> FinishIPv6Address out (int k) (- 1) = (if k = 8 then Some out else None)"
  by (simp add: FinishIPv6Address_def)

lemma Finish_contracted:
  assumes "length out = 16" "c \<le> k" "k \<le> 8"
  shows "FinishIPv6Address out (int k) (int c) =
    (if k \<le> 7 then Some (take (2 * c) out @ replicate (2 * (8 - k)) 0 @ drop (2 * c) (take (2 * k) out)) else None)"
proof (cases "k = 8")
  case False
  let ?n = "2 * (k - c)" and ?z = "2 * (8 - k)"
  have k: "k \<le> 7" "2 * (8 - (k - c)) = 2 * c + ?z" "2 * c + ?z + ?n = 16" using False assms(2,3) by auto
  have moved: "memmove (2 * c + ?z) (2 * c) ?n out = take (2 * c + ?z) out @ take ?n (drop (2 * c) out)"
    using assms(1) k(3) by (simp add: memmove_def)
  have "fill_n (2 * c) ?z 0 (take (2 * c + ?z) out @ take ?n (drop (2 * c) out)) =
      take (2 * c) out @ replicate ?z 0 @ take ?n (drop (2 * c) out)"
    using assms(1) k(3) by (simp add: fill_n_def min_def)
  moreover have "take ?n (drop (2 * c) out) = drop (2 * c) (take (2 * k) out)"
    using assms(2) by (simp add: drop_take diff_mult_distrib2)
  moreover have "nat (int k - int c) = k - c" using assms(2) by simp
  ultimately show ?thesis
    using k assms(2) moved by (simp add: FinishIPv6Address_def Let_def mult.commute)
qed (simp add: FinishIPv6Address_def)


section \<open>One turn of the loop\<close>

definition store_hextet :: "u8 list \<Rightarrow> nat \<Rightarrow> u8 list \<Rightarrow> u8 list" where
  "store_hextet out i ds =
     out[2 * i := ucast (hex_word 0 ds div 0x100), 2 * i + 1 := ucast (hex_word 0 ds mod 0x100)]"

lemma length_store_hextet [simp]: "length (store_hextet out i ds) = length out"
  by (simp add: store_hextet_def)

lemma take_store_hextet:
  assumes "length out = 16" "i < 8" "hextet ds"
  shows "take (2 * (i + 1)) (store_hextet out i ds) = take (2 * i) out @ hextet_bytes ds"
    and "c \<le> i \<Longrightarrow> take (2 * c) (store_hextet out i ds) = take (2 * c) out"
proof -
  have "take (2 * (i + 1)) (store_hextet out i ds) =
      take (2 * i) out @ [ucast (hex_word 0 ds div 0x100), ucast (hex_word 0 ds mod 0x100)]"
    using assms(1,2) by (simp add: store_hextet_def take_update_swap take_Suc_conv_app_nth list_update_append)
  then show "take (2 * (i + 1)) (store_hextet out i ds) = take (2 * i) out @ hextet_bytes ds"
    unfolding hextet_word [OF assms(3)] .
  show "c \<le> i \<Longrightarrow> take (2 * c) (store_hextet out i ds) = take (2 * c) out"
    by (simp add: store_hextet_def)
qed

definition store_ipv4 :: "u8 list \<Rightarrow> nat \<Rightarrow> u8 list \<Rightarrow> u8 list" where
  "store_ipv4 out i ip = take (2 * i) out @ ip @ drop (2 * i + 4) out"

lemma store_ipv4:
  assumes "length out = 16" "i \<le> 6" "length ip = 4"
  shows "length (store_ipv4 out i ip) = 16"
    and "take (2 * (i + 2)) (store_ipv4 out i ip) = take (2 * i) out @ ip"
    and "c \<le> i \<Longrightarrow> take (2 * c) (store_ipv4 out i ip) = take (2 * c) out"
  using assms by (simp_all add: store_ipv4_def)

lemma loop_step:
  assumes wf: "wf_Reader r" and i: "i \<le> 8"
  defines "ds \<equiv> takeWhile is_hex (remaining r)" and "rest \<equiv> dropWhile is_hex (remaining r)"
  shows "ParseIPv6Address_loop r out i c =
    (if length ds > 4 then None
     else case rest of
       [] \<Rightarrow>
         if i = 8 then None
         else if ds = [] then
           if int i = c \<and> c \<noteq> 0 then FinishIPv6Address out (int i) c else None
         else FinishIPv6Address (store_hextet out i ds) (int (i + 1)) c
     | b # s \<Rightarrow>
         if b = c_dot then
           if i > 6 then None
           else (case ParseIPv4Address (remaining r) of
             None \<Rightarrow> None
           | Some ip \<Rightarrow> FinishIPv6Address (store_ipv4 out i ip) (int (i + 2)) c)
         else if b \<noteq> c_colon \<or> i = 8 \<or> ds = [] then None
         else if s = [] \<or> hd s \<noteq> c_colon then
           ParseIPv6Address_loop (advance (length ds + 1) r) (store_hextet out i ds) (i + 1) c
         else if c \<noteq> -1 then None
         else if tl s = [] then FinishIPv6Address (store_hextet out i ds) (int (i + 1)) (int (i + 1))
         else ParseIPv6Address_loop (advance (length ds + 2) r) (store_hextet out i ds) (i + 1) (int (i + 1)))"
proof -
  have rem: "remaining r = ds @ rest" by (simp add: ds_def rest_def)
  note comp = component_list [OF wf, of 0 0, folded ds_def rest_def, unfolded Let_def, simplified]
  let ?q = "advance (length ds) r"
  have len: "length ds \<le> length (remaining r)" by (simp add: rem)
  have q: "wf_Reader ?q" "remaining ?q = rest"
    using wf len by (simp_all add: rem)
  show ?thesis
  proof (cases "length ds > 4")
    case True
    then show ?thesis by (subst ParseIPv6Address_loop.simps) (simp add: comp)
  next
    case short: False
    show ?thesis
    proof (cases rest)
      case Nil
      then have "AtEnd ?q" using q by (simp add: AtEnd_iff)
      then show ?thesis
        using short Nil i by (subst ParseIPv6Address_loop.simps) (auto simp: comp store_hextet_def Let_def)
    next
      case (Cons b s)
      have qb: "Read8 ?q = Inr (b, advance (length ds + 1) r)" "\<not> AtEnd ?q"
        using q Cons by (simp_all add: Read8_spec AtEnd_iff)
      let ?q2 = "advance (length ds + 1) r"
      have len2: "length ds + 1 \<le> length (remaining r)" by (simp add: rem Cons)
      have q2: "wf_Reader ?q2" "remaining ?q2 = s"
        using wf len2 by (simp_all add: rem Cons)
      consider "b = c_dot" | "b \<noteq> c_dot" "b \<noteq> c_colon" | "b = c_colon" by blast
      then show ?thesis
      proof cases
        case 1
        have "SkipToEnd ?q2 = advance (length (remaining r)) r"
          unfolding SkipToEnd_spec [OF q2(1)] q2(2) by (simp add: rem Cons)
        then have "GetInput (SkipToEnd ?q2) (GetMark r) = Inr (remaining r)"
          using GetInput_spec [OF wf order_refl] by simp
        moreover have "ParseIPv6Address_component r 0 0 = Component_IPv4 ?q2" using comp short Cons 1 by simp
        ultimately have "ParseIPv6Address_loop r out i c = (if i > 6 then None
            else case ParseIPv4Address (remaining r) of None \<Rightarrow> None
            | Some ip \<Rightarrow> FinishIPv6Address (store_ipv4 out i ip) (int i + 2) c)"
          by (subst ParseIPv6Address_loop.simps) (simp add: ParseIPv6Address_ipv4_def store_ipv4_def split: option.split)
        then show ?thesis using short Cons 1 by (simp add: add.commute split: option.split)
      next
        case 2
        then show ?thesis using short Cons by (subst ParseIPv6Address_loop.simps) (simp add: comp)
      next
        case 3
        have peek: "Peek ?q2 c_colon \<longleftrightarrow> s \<noteq> [] \<and> hd s = c_colon"
          using q2 by (cases s) (simp_all add: Peek_iff)
        have rd: "s \<noteq> [] \<Longrightarrow> Read8 ?q2 = Inr (hd s, advance (length ds + 2) r)"
          using q2 by (cases s) (simp_all add: Read8_spec)
        have at: "s \<noteq> [] \<Longrightarrow> AtEnd (advance (length ds + 2) r) \<longleftrightarrow> tl s = []"
          using wf by (cases s) (simp_all add: AtEnd_iff rem Cons)
        show ?thesis
          using short Cons 3 i qb peek rd at
          by (subst ParseIPv6Address_loop.simps) (auto simp: comp store_hextet_def Let_def)
      qed
    qed
  qed
qed


section \<open>The first piece of a text\<close>

lemma takeWhile_hex:
  assumes "list_all is_hex w" "s = [] \<or> \<not> is_hex (hd s)"
  shows "takeWhile is_hex (w @ s) = w" "dropWhile is_hex (w @ s) = s"
proof -
  have w: "\<And>x. x \<in> set w \<Longrightarrow> is_hex x" using assms(1) by (simp add: list_all_iff)
  show "takeWhile is_hex (w @ s) = w" using w assms(2) by (cases s) (simp_all add: takeWhile_append2)
  show "dropWhile is_hex (w @ s) = s" using w assms(2) by (cases s) (simp_all add: dropWhile_append2)
qed

lemma hextet_takeWhile:
  assumes "hextet w"
  shows "takeWhile is_hex w = w" "dropWhile is_hex w = []"
    "takeWhile is_hex (w @ c_colon # s) = w" "dropWhile is_hex (w @ c_colon # s) = c_colon # s"
  using takeWhile_hex [of w "[]"] takeWhile_hex [of w "c_colon # s"] assms by (simp_all add: hextet_def)

lemma decimal_hex: "n \<le> 255 \<Longrightarrow> list_all is_hex (decimal n) \<and> decimal n \<noteq> [] \<and> length (decimal n) \<le> 3"
proof -
  assume n: "n \<le> 255"
  have digit: "is_hex (of_nat (48 + d))" if "d < 10" for d
    using that by (auto simp: is_hex_def hex_digit_def word_le_nat_alt unat_of_nat_u8 simp del: of_nat_add)
  have 1: "decimal m = [of_nat (48 + m)]" if "m < 10" for m using that by (subst decimal.simps) simp
  have 2: "decimal m = [of_nat (48 + m div 10), of_nat (48 + m mod 10)]" if "m < 100" "10 \<le> m" for m
    using that by (subst decimal.simps) (simp add: 1)
  have 3: "decimal m = [of_nat (48 + m div 10 div 10), of_nat (48 + m div 10 mod 10), of_nat (48 + m mod 10)]"
    if "m < 1000" "100 \<le> m" for m
    using that by (subst decimal.simps) (simp add: 2)
  consider "n < 10" | "10 \<le> n" "n < 100" | "100 \<le> n" by linarith
  then show ?thesis
    by cases (use n in \<open>simp_all add: 1 2 3 digit del: of_nat_add\<close>)
qed

lemma ipv4_takeWhile:
  assumes "length a = 4"
  shows "takeWhile is_hex (ipv4_text a) = decimal (unat (a ! 0))"
    "\<exists>s. dropWhile is_hex (ipv4_text a) = c_dot # s"
    "takeWhile is_hex (ipv4_text a) \<noteq> []" "length (takeWhile is_hex (ipv4_text a)) \<le> 4"
proof -
  have "unat (a ! 0) \<le> 255" using unat_u8_less [of "a ! 0"] by linarith
  note d = decimal_hex [OF this]
  obtain s where s: "ipv4_text a = decimal (unat (a ! 0)) @ c_dot # s" by (simp add: ipv4_text_def)
  note tw = takeWhile_hex [of "decimal (unat (a ! 0))" "c_dot # s"]
  show "takeWhile is_hex (ipv4_text a) = decimal (unat (a ! 0))"
    "\<exists>s. dropWhile is_hex (ipv4_text a) = c_dot # s"
    "takeWhile is_hex (ipv4_text a) \<noteq> []" "length (takeWhile is_hex (ipv4_text a)) \<le> 4"
    using tw d unfolding s by simp_all
qed

lemma spells_first:
  "spells ip4 s n bytes \<longleftrightarrow>
     (let ds = takeWhile is_hex s in length ds \<le> 4 \<and> ds \<noteq> [] \<and>
       (case dropWhile is_hex s of
          [] \<Rightarrow> n = 1 \<and> bytes = hextet_bytes ds
        | b # s' \<Rightarrow>
            if b = c_dot then ip4 \<and> n = 2 \<and> length bytes = 4 \<and> s = ipv4_text bytes
            else b = c_colon \<and> (\<exists>k bs. spells ip4 s' k bs \<and> n = k + 1 \<and> bytes = hextet_bytes ds @ bs)))"
  (is "_ \<longleftrightarrow> ?R s n bytes")
proof
  assume "spells ip4 s n bytes"
  then show "?R s n bytes"
  proof cases
    case hextet
    then show ?thesis unfolding Let_def hextet_takeWhile(1,2) [OF hextet(3)] by (simp add: hextet_def)
  next
    case ipv4
    then show ?thesis using ipv4_takeWhile [of bytes] by (auto simp: Let_def)
  next
    case (more w s' k bs)
    have "length w \<le> 4" "w \<noteq> []" using more(4) by (simp_all add: hextet_def)
    then show ?thesis using more hextet_takeWhile(3,4) [OF more(4), of s'] by auto
  qed
next
  assume R: "?R s n bytes"
  define ds rest where d: "ds = takeWhile is_hex s" "rest = dropWhile is_hex s"
  have s: "s = ds @ rest" by (simp add: d)
  have ds: "hextet ds" using R unfolding Let_def d [symmetric] by (auto simp: hextet_def list_all_iff d(1) dest: set_takeWhileD)
  show "spells ip4 s n bytes"
  proof (cases rest)
    case Nil
    then have "s = ds" "n = 1" "bytes = hextet_bytes ds" using s R unfolding Let_def d [symmetric] by simp_all
    then show ?thesis using spells.hextet [OF ds] by simp
  next
    case (Cons b s')
    show ?thesis
    proof (cases "b = c_dot")
      case True
      then show ?thesis using R unfolding Let_def d [symmetric] Cons by (auto intro: spells.ipv4)
    next
      case False
      then obtain k bs where "b = c_colon" "spells ip4 s' k bs" "n = k + 1" "bytes = hextet_bytes ds @ bs"
        using R unfolding Let_def d [symmetric] Cons by auto
      then show ?thesis using spells.more [OF ds] s Cons by simp
    qed
  qed
qed


section \<open>The loop\<close>

lemma loop_ipv4:
  assumes wf: "wf_Reader r" and ds: "takeWhile is_hex (remaining r) = []"
  shows "ParseIPv4Address (remaining r) = None"
proof (rule ccontr)
  assume "ParseIPv4Address (remaining r) \<noteq> None"
  moreover have "wf_Input (remaining r)" using length_remaining_le [OF wf] by (simp add: wf_Input_def)
  ultimately obtain ip where "length ip = 4" "remaining r = ipv4_text ip"
    using ParseIPv4Address_iff by blast
  then show False using ipv4_takeWhile(3) ds by simp
qed

lemma Finish_end:
  "length out = 16 \<Longrightarrow> k \<le> 8 \<Longrightarrow> FinishIPv6Address out (int k) (int k) =
     (if k \<le> 7 then Some (take (2 * k) out @ replicate (2 * (8 - k)) 0) else None)"
  by (subst Finish_contracted) simp_all

lemma ipv4_case:
  assumes "wf_Input s"
  shows "(case ParseIPv4Address s of None \<Rightarrow> None | Some ip \<Rightarrow> f ip) = Some a \<longleftrightarrow>
    (\<exists>ip. length ip = 4 \<and> s = ipv4_text ip \<and> f ip = Some a)"
proof (cases "ParseIPv4Address s")
  case None
  then have "\<not> (length ip = 4 \<and> s = ipv4_text ip)" for ip
    using ParseIPv4Address_iff [OF assms, of ip] by simp
  then show ?thesis unfolding None by (metis option.case(1) option.distinct(1))
next
  case (Some ip)
  then have "length ip' = 4 \<and> s = ipv4_text ip' \<longleftrightarrow> ip = ip'" for ip'
    using ParseIPv4Address_iff [OF assms, of ip'] by simp
  then show ?thesis unfolding Some option.case by metis
qed

lemma loop_contracted:
  "wf_Reader r \<Longrightarrow> length out = 16 \<Longrightarrow> i \<le> 8 \<Longrightarrow> c \<le> i \<Longrightarrow>
   ParseIPv6Address_loop r out i (int c) = Some a \<longleftrightarrow>
     (\<exists>n bs. (if remaining r = [] then i = c \<and> c \<noteq> 0 \<and> n = 0 \<and> bs = [] else spells True (remaining r) n bs) \<and>
        i + n \<le> 7 \<and>
        a = take (2 * c) out @ replicate (2 * (8 - (i + n))) 0 @ drop (2 * c) (take (2 * i) out) @ bs)"
proof (induction "length (remaining r)" arbitrary: r out i rule: less_induct)
  case less
  note wf = less.prems(1) and len = less.prems(2) and i = less.prems(3) and c = less.prems(4)
  define ds rest where d: "ds = takeWhile is_hex (remaining r)" "rest = dropWhile is_hex (remaining r)"
  have rem: "remaining r = ds @ rest" by (simp add: d)
  note step = loop_step [OF wf i, of out "int c", folded d]
  note first = spells_first [of True "remaining r", unfolded Let_def, folded d]
  have wfi: "wf_Input (remaining r)" using length_remaining_le [OF wf] by (simp add: wf_Input_def)
  show ?case
  proof (cases "length ds > 4 \<or> ds = []")
    case True
    show ?thesis
    proof (cases "remaining r = []")
      case empty: True
      then show ?thesis using c i len rem by (simp add: step Finish_contracted) auto
    next
      case False
      have "ds = [] \<Longrightarrow> ParseIPv4Address (remaining r) = None" using loop_ipv4 [OF wf] d(1) by simp
      moreover have "ds = [] \<Longrightarrow> rest \<noteq> []" using False rem by simp
      ultimately show ?thesis using True False unfolding step first by (auto split: list.split)
    qed
  next
    case False
    then have ds: "ds \<noteq> []" "length ds \<le> 4" "hextet ds" "remaining r \<noteq> []"
      by (auto simp: hextet_def list_all_iff d(1) dest: set_takeWhileD)
    show ?thesis
    proof (cases rest)
      case Nil
      show ?thesis
      proof (cases "i = 8")
        case False
        then have "i < 8" using i by simp
        then show ?thesis
          using ds Nil len c False take_store_hextet(1) [OF len _ ds(3), of i] take_store_hextet(2) [OF len _ ds(3), of i c]
          by (auto simp: step first Finish_contracted simp del: mult_Suc_right of_nat_Suc of_nat_add)
      next
        case True
        then show ?thesis using ds Nil unfolding step first by simp
      qed
    next
      case (Cons b s)
      consider "b = c_dot" | "b \<noteq> c_dot" "b \<noteq> c_colon" | "b = c_colon" by blast
      then show ?thesis
      proof cases
        case 1
        have finish: "FinishIPv6Address (store_ipv4 out i ip) (int (i + 2)) (int c) = Some a \<longleftrightarrow>
            i + 2 \<le> 7 \<and> a = take (2 * c) out @ replicate (2 * (8 - (i + 2))) 0 @ drop (2 * c) (take (2 * i) out) @ ip"
          if "i \<le> 6" "length ip = 4" for ip
          using store_ipv4 [OF len that] c that(1) len
          by (subst Finish_contracted) (auto simp del: of_nat_add)
        show ?thesis
          using ds 1 Cons finish unfolding step first
          by (auto simp: ipv4_case [OF wfi] simp del: of_nat_add)
      next
        case 2
        then show ?thesis using Cons ds by (simp add: step first)
      next
        case 3
        let ?q = "advance (length ds + 1) r" and ?out = "store_hextet out i ds"
        have q: "wf_Reader ?q" "remaining ?q = s" "length (remaining ?q) < length (remaining r)"
          using wf rem Cons by simp_all
        consider "i = 8" | "i < 8" "s = [] \<or> hd s \<noteq> c_colon" | "i < 8" "s \<noteq> []" "hd s = c_colon"
          using i by linarith
        then show ?thesis
        proof cases
          case 1
          then show ?thesis using ds 3 Cons unfolding step first by auto
        next
          case 2
          have tk: "take (2 * c) ?out = take (2 * c) out"
            "take (2 * (i + 1)) ?out = take (2 * i) out @ hextet_bytes ds"
            using take_store_hextet [OF len _ ds(3)] 2(1) c by blast+
          have "ParseIPv6Address_loop ?q ?out (i + 1) (int c) = Some a \<longleftrightarrow>
              (\<exists>n bs. spells True s n bs \<and> (i + 1) + n \<le> 7 \<and>
                a = take (2 * c) out @ replicate (2 * (8 - ((i + 1) + n))) 0 @
                  drop (2 * c) (take (2 * i) out @ hextet_bytes ds) @ bs)"
            using less.hyps [OF q(3,1), of ?out "i + 1"] 2(1) c len unfolding q(2) tk
            by (auto simp: spells_first [of True "[]"])
          also have "\<dots> \<longleftrightarrow> (\<exists>n bs. spells True s n bs \<and> i + (n + 1) \<le> 7 \<and>
                a = take (2 * c) out @ replicate (2 * (8 - (i + (n + 1)))) 0 @
                  drop (2 * c) (take (2 * i) out) @ hextet_bytes ds @ bs)"
            using c len 2(1) by simp
          finally have IH: "ParseIPv6Address_loop ?q ?out (i + 1) (int c) = Some a \<longleftrightarrow> \<dots>" .
          have turn: "ParseIPv6Address_loop r out i (int c) = ParseIPv6Address_loop ?q ?out (i + 1) (int c)"
            using ds 2 3 Cons unfolding step by auto
          have "spells True (remaining r) n bs \<longleftrightarrow> (\<exists>k bs'. spells True s k bs' \<and> n = k + 1 \<and> bs = hextet_bytes ds @ bs')" for n bs
            using ds 3 Cons unfolding first by simp
          then show ?thesis unfolding turn IH using ds(4) by (simp only: if_False) blast
        next
          case colons: 3
          obtain s' where "s = c_colon # s'" using colons(2,3) by (cases s) auto
          then have "\<not> spells True s k bs" for k bs by (simp add: spells_first)
          then show ?thesis using ds 3 colons Cons unfolding step first by auto
        qed
      qed
    qed
  qed
qed


lemma loop_right_side:
  assumes "wf_Reader r" "length out = 16" "i \<le> 8" "remaining r \<noteq> []"
  shows "ParseIPv6Address_loop r out i (int i) = Some a \<longleftrightarrow>
     (\<exists>n bs. spells True (remaining r) n bs \<and> i + n \<le> 7 \<and>
        a = take (2 * i) out @ replicate (2 * (8 - (i + n))) 0 @ bs)"
  using loop_contracted [OF assms(1-3), of i a] assms(4) by simp

text \<open>A contraction comes directly after the first piece or after further ones.\<close>

lemma contraction_first:
  assumes "ds = takeWhile is_hex t" "rest = dropWhile is_hex t" "hextet ds"
  shows "(\<exists>l m L s. t = l @ [c_colon, c_colon] @ s \<and> spells False l m L \<and> Q m L s) \<longleftrightarrow>
    (\<exists>u. rest = c_colon # u \<and>
      ((\<exists>s. u = c_colon # s \<and> Q 1 (hextet_bytes ds) s) \<or>
       (\<exists>l m L s. u = l @ [c_colon, c_colon] @ s \<and> spells False l m L \<and> Q (m + 1) (hextet_bytes ds @ L) s)))"
  (is "?L \<longleftrightarrow> ?R")
proof
  assume ?L
  then obtain l m L s where l: "t = l @ [c_colon, c_colon] @ s" "spells False l m L" "Q m L s" by blast
  from l(2) show ?R
  proof cases
    case hextet
    have "ds = l" "rest = c_colon # c_colon # s"
      using hextet_takeWhile(3,4) [OF hextet(3), of "c_colon # s"] assms(1,2) l(1) by simp_all
    then show ?thesis using hextet l(3) by simp
  next
    case (more w u k bs)
    have "ds = w" "rest = c_colon # u @ [c_colon, c_colon] @ s"
      using hextet_takeWhile(3,4) [OF more(4), of "u @ [c_colon, c_colon] @ s"] assms(1,2) l(1) more(1) by simp_all
    then show ?thesis using more(2,3,5) l(3) by blast
  qed simp
next
  assume ?R
  then obtain u where u: "t = ds @ c_colon # u"
    "(\<exists>s. u = c_colon # s \<and> Q 1 (hextet_bytes ds) s) \<or>
     (\<exists>l m L s. u = l @ [c_colon, c_colon] @ s \<and> spells False l m L \<and> Q (m + 1) (hextet_bytes ds @ L) s)"
    using assms(1,2) by (metis takeWhile_dropWhile_id)
  from u(2) show ?L
  proof
    assume "\<exists>s. u = c_colon # s \<and> Q 1 (hextet_bytes ds) s"
    then show ?L using u(1) spells.hextet [OF assms(3), of False] by auto
  next
    assume "\<exists>l m L s. u = l @ [c_colon, c_colon] @ s \<and> spells False l m L \<and> Q (m + 1) (hextet_bytes ds @ L) s"
    then obtain l m L s where "t = (ds @ c_colon # l) @ [c_colon, c_colon] @ s" "spells False l m L"
      "Q (m + 1) (hextet_bytes ds @ L) s" using u(1) by auto
    then show ?L using spells.more [OF assms(3)] by blast
  qed
qed

lemma spells_no_colon: "\<not> spells ip4 (c_colon # s) n bs" "\<not> spells ip4 [] n bs"
  by (simp_all add: spells_first)

lemma colon_contraction: "spells ip4 l m L \<Longrightarrow> c_colon # u \<noteq> l @ s"
  using spells_no_colon by (cases l) auto

lemma spells_start:
  assumes "spells False l m L"
  shows "hextet (takeWhile is_hex (l @ c_colon # s))"
  using assms
proof cases
  case hextet
  then show ?thesis using hextet_takeWhile(3) [OF hextet(3)] by simp
next
  case (more w u k bs)
  then show ?thesis using hextet_takeWhile(3) [OF more(4), of "u @ c_colon # s"] by simp
qed simp

lemma loop_plain:
  "wf_Reader r \<Longrightarrow> length out = 16 \<Longrightarrow> i \<le> 8 \<Longrightarrow>
   ParseIPv6Address_loop r out i (- 1) = Some a \<longleftrightarrow>
     (\<exists>n bs. spells True (remaining r) n bs \<and> i + n = 8 \<and> a = take (2 * i) out @ bs) \<or>
     (\<exists>l m L s. remaining r = l @ [c_colon, c_colon] @ s \<and> spells False l m L \<and>
        (\<exists>n R. spells_side True s n R \<and> i + m + n \<le> 7 \<and>
          a = take (2 * i) out @ L @ replicate (2 * (8 - (i + m + n))) 0 @ R))"
proof (induction "length (remaining r)" arbitrary: r out i rule: less_induct)
  case less
  note wf = less.prems(1) and len = less.prems(2) and i = less.prems(3)
  define ds rest where d: "ds = takeWhile is_hex (remaining r)" "rest = dropWhile is_hex (remaining r)"
  have rem: "remaining r = ds @ rest" by (simp add: d)
  note step = loop_step [OF wf i, of out "-1", folded d]
  note first = spells_first [of True "remaining r", unfolded Let_def, folded d]
  have wfi: "wf_Input (remaining r)" using length_remaining_le [OF wf] by (simp add: wf_Input_def)
  show ?case
  proof (cases "length ds > 4 \<or> ds = []")
    case True
    have "ds = [] \<Longrightarrow> ParseIPv4Address (remaining r) = None" using loop_ipv4 [OF wf] d(1) by simp
    then have "ParseIPv6Address_loop r out i (- 1) \<noteq> Some a" using True unfolding step by (auto split: list.split)
    moreover have "\<not> spells True (remaining r) n bs" for n bs using True unfolding first by auto
    moreover have "\<not> spells False l m L" if "remaining r = l @ [c_colon, c_colon] @ s" for l m L s
      using spells_start [of l m L "c_colon # s"] True that unfolding d(1) by (auto simp: hextet_def)
    ultimately show ?thesis by blast
  next
    case False
    then have ds: "ds \<noteq> []" "length ds \<le> 4" "hextet ds"
      by (auto simp: hextet_def list_all_iff d(1) dest: set_takeWhileD)
    note contraction = contraction_first [OF d ds(3)]
    show ?thesis
    proof (cases rest)
      case Nil
      then have "ParseIPv6Address_loop r out i (- 1) = Some a \<longleftrightarrow> i = 7 \<and> a = take (2 * i) out @ hextet_bytes ds"
        using ds i Finish_plain [of "i + 1" "store_hextet out i ds"] len take_store_hextet(1) [OF len _ ds(3), of i]
        unfolding step by auto
      then show ?thesis unfolding first contraction using ds Nil by auto
    next
      case (Cons b t)
      consider "b = c_dot" | "b \<noteq> c_dot" "b \<noteq> c_colon" | "b = c_colon" by blast
      then show ?thesis
      proof cases
        case 1
        have finish: "FinishIPv6Address (store_ipv4 out i ip) (int (i + 2)) (- 1) = Some a \<longleftrightarrow>
            i = 6 \<and> a = take (2 * i) out @ ip" if "i \<le> 6" "length ip = 4" for ip
          using store_ipv4(1,2) [OF len that] that(1) by (subst Finish_plain) auto
        then show ?thesis unfolding contraction step first using ds 1 Cons
          by (auto simp: ipv4_case [OF wfi] simp del: of_nat_add)
      next
        case 2
        then show ?thesis unfolding contraction step first using Cons by auto
      next
        case 3
        let ?q = "advance (length ds + 1) r" and ?out = "store_hextet out i ds"
        have q: "wf_Reader ?q" "remaining ?q = t" "length (remaining ?q) < length (remaining r)"
          using wf rem Cons by simp_all
        have pieces: "spells True (remaining r) n bs \<longleftrightarrow>
            (\<exists>k bs'. spells True t k bs' \<and> n = k + 1 \<and> bs = hextet_bytes ds @ bs')" for n bs
          using ds 3 Cons unfolding first by simp
        have split: "(\<exists>l m L s. remaining r = l @ [c_colon, c_colon] @ s \<and> spells False l m L \<and> Q m L s) \<longleftrightarrow>
            (\<exists>s. t = c_colon # s \<and> Q 1 (hextet_bytes ds) s) \<or>
            (\<exists>l m L s. t = l @ [c_colon, c_colon] @ s \<and> spells False l m L \<and> Q (m + 1) (hextet_bytes ds @ L) s)" for Q
          using contraction [of Q] unfolding Cons 3 by simp
        have plain: "(\<exists>n bs. spells True (remaining r) n bs \<and> Q n bs) \<longleftrightarrow>
            (\<exists>n bs. spells True t n bs \<and> Q (n + 1) (hextet_bytes ds @ bs))" for Q
          unfolding pieces by blast
        consider "i = 8" | "i < 8" "t = [] \<or> hd t \<noteq> c_colon" | s where "i < 8" "t = c_colon # s"
          using i by (cases t) fastforce+
        then show ?thesis
        proof cases
          case 1
          then show ?thesis using ds 3 Cons unfolding pieces step contraction by auto
        next
          case 2
          have "take (2 * (i + 1)) ?out = take (2 * i) out @ hextet_bytes ds"
            using take_store_hextet(1) [OF len _ ds(3)] 2(1) by blast
          then have IH: "ParseIPv6Address_loop ?q ?out (i + 1) (- 1) = Some a \<longleftrightarrow>
              (\<exists>n bs. spells True t n bs \<and> i + (n + 1) = 8 \<and> a = take (2 * i) out @ hextet_bytes ds @ bs) \<or>
              (\<exists>l m L s. t = l @ [c_colon, c_colon] @ s \<and> spells False l m L \<and>
                (\<exists>n R. spells_side True s n R \<and> i + (m + 1) + n \<le> 7 \<and>
                  a = take (2 * i) out @ (hextet_bytes ds @ L) @ replicate (2 * (8 - (i + (m + 1) + n))) 0 @ R))"
            using less.hyps [OF q(3,1), of ?out "i + 1"] 2(1) len unfolding q(2) by simp
          have turn: "ParseIPv6Address_loop r out i (- 1) = ParseIPv6Address_loop ?q ?out (i + 1) (- 1)"
            using ds 2 3 Cons unfolding step by auto
          have "t \<noteq> c_colon # s" for s using 2(2) by auto
          then show ?thesis unfolding turn plain split IH by simp
        next
          case (3 s)
          let ?q2 = "advance (length ds + 2) r"
          have q2: "wf_Reader ?q2" "remaining ?q2 = s" using wf rem Cons 3 by simp_all
          have tk: "take (2 * (i + 1)) ?out = take (2 * i) out @ hextet_bytes ds"
            using take_store_hextet(1) [OF len _ ds(3)] 3(1) by blast
          have "ParseIPv6Address_loop r out i (- 1) = (if s = [] then FinishIPv6Address ?out (int (i + 1)) (int (i + 1))
              else ParseIPv6Address_loop ?q2 ?out (i + 1) (int (i + 1)))"
            using ds 3 \<open>b = c_colon\<close> Cons unfolding step by simp
          also have "\<dots> = Some a \<longleftrightarrow> (\<exists>n R. spells_side True s n R \<and> i + 1 + n \<le> 7 \<and>
              a = take (2 * i) out @ hextet_bytes ds @ replicate (2 * (8 - (i + 1 + n))) 0 @ R)"
          proof (cases "s = []")
            case True
            have side: "spells_side True s n R \<longleftrightarrow> n = 0 \<and> R = []" for n R
              using True by (auto simp: spells_side_def spells_no_colon)
            have "FinishIPv6Address ?out (int (i + 1)) (int (i + 1)) =
                (if i + 1 \<le> 7 then Some (take (2 * i) out @ hextet_bytes ds @ replicate (2 * (8 - (i + 1))) 0) else None)"
              using 3(1) len by (subst Finish_end) (simp_all only: tk length_store_hextet append_assoc)
            then show ?thesis using True unfolding side by auto
          next
            case False
            then show ?thesis using loop_right_side [OF q2(1), of ?out "i + 1" a] 3(1) len
              unfolding tk q2(2) spells_side_def by simp
          qed
          finally have turn: "ParseIPv6Address_loop r out i (- 1) = Some a \<longleftrightarrow> \<dots>" .
          show ?thesis unfolding turn plain split 3(2)
            using spells_no_colon(1) colon_contraction by (simp, blast)
        qed
      qed
    qed
  qed
qed


lemma ParseIPv6Address_iff:
  assumes "wf_Input s" "length out = 16"
  shows "ParseIPv6Address s out = Some a \<longleftrightarrow> ipv6_text s a"
proof -
  have wf: "wf_Reader (Reader_of s)" and r: "remaining (Reader_of s) = s" using assms(1) by simp_all
  have peek: "Peek (Reader_of s) c_colon \<longleftrightarrow> s \<noteq> [] \<and> hd s = c_colon"
    using wf r by (cases s) (simp_all add: Peek_iff)
  consider "s = [] \<or> hd s \<noteq> c_colon" | "s = [c_colon]" | b t where "s = c_colon # b # t" by (cases s rule: list.exhaust; metis list.exhaust list.sel(1))
  then show ?thesis
  proof cases
    case 1
    then have "ParseIPv6Address s out = ParseIPv6Address_loop (Reader_of s) out 0 (- 1)"
      using peek by (auto simp: ParseIPv6Address_def)
    also have "\<dots> = Some a \<longleftrightarrow> spells True s 8 a \<or>
        (\<exists>l m L u. s = l @ [c_colon, c_colon] @ u \<and> spells False l m L \<and>
          (\<exists>n R. spells_side True u n R \<and> m + n \<le> 7 \<and> a = L @ replicate (2 * (8 - (m + n))) 0 @ R))"
      using loop_plain [OF wf assms(2), of 0 a] unfolding r by simp
    also have "\<dots> \<longleftrightarrow> ipv6_text s a"
    proof -
      have "l \<noteq> []" if "s = l @ [c_colon, c_colon] @ u" for l u using 1 that by auto
      then show ?thesis unfolding ipv6_text_def spells_side_def [of False] using spells_no_colon(2) by blast
    qed
    finally show ?thesis .
  next
    case 2
    then have "ParseIPv6Address s out = None"
      using peek wf r by (auto simp: ParseIPv6Address_def Read8_spec)
    then show ?thesis using 2 by (auto simp: ipv6_text_def spells_first Cons_eq_append_conv)
  next
    case (3 b t)
    have left: "s = l @ [c_colon, c_colon] @ u \<and> spells_side False l m L \<longleftrightarrow>
        b = c_colon \<and> l = [] \<and> m = 0 \<and> L = [] \<and> u = t" for l m L u
      using 3 colon_contraction spells_no_colon(2) by (auto simp: spells_side_def)
    let ?q = "advance 2 (Reader_of s)"
    have q: "wf_Reader ?q" "remaining ?q = t" using wf r 3 by simp_all
    have "ParseIPv6Address s out = (if b = c_colon then ParseIPv6Address_loop ?q out 0 0 else None)"
      using peek wf r 3 by (simp add: ParseIPv6Address_def Read8_spec numeral_2_eq_2)
    also have "\<dots> = Some a \<longleftrightarrow> b = c_colon \<and> t \<noteq> [] \<and>
        (\<exists>n R. spells True t n R \<and> n \<le> 7 \<and> a = replicate (2 * (8 - n)) 0 @ R)"
      using loop_contracted [OF q(1) assms(2), of 0 0 a] unfolding q(2) by auto
    also have "\<dots> \<longleftrightarrow> ipv6_text s a"
    proof
      assume *: "b = c_colon \<and> t \<noteq> [] \<and> (\<exists>n R. spells True t n R \<and> n \<le> 7 \<and> a = replicate (2 * (8 - n)) 0 @ R)"
      then have "s = [] @ [c_colon, c_colon] @ t" using 3 by simp
      moreover have "spells_side False [] 0 []" by (simp add: spells_side_def)
      ultimately show "ipv6_text s a" using * unfolding ipv6_text_def spells_side_def [of True] by force
    next
      assume "ipv6_text s a"
      moreover have "\<not> spells True s 8 a" using 3 spells_no_colon(1) by simp
      ultimately obtain l m L u n R where "s = l @ [c_colon, c_colon] @ u" "spells_side False l m L"
        "spells_side True u n R" "l \<noteq> [] \<or> u \<noteq> []" "m + n \<le> 7" "a = L @ replicate (2 * (8 - (m + n))) 0 @ R"
        unfolding ipv6_text_def by blast
      moreover from this have "b = c_colon" "l = []" "m = 0" "L = []" "u = t" using left by blast+
      ultimately show "b = c_colon \<and> t \<noteq> [] \<and> (\<exists>n R. spells True t n R \<and> n \<le> 7 \<and> a = replicate (2 * (8 - n)) 0 @ R)"
        by (auto simp: spells_side_def)
    qed
    finally show ?thesis .
  qed
qed


lemma spells_length: "spells ip4 s n bs \<Longrightarrow> length bs = 2 * n"
  by (induction rule: spells.induct) (simp_all add: hextet_bytes_def)

lemma spells_side_length: "spells_side ip4 s n bs \<Longrightarrow> length bs = 2 * n"
  by (auto simp: spells_side_def spells_length)

lemma ipv6_text_length: "ipv6_text s a \<Longrightarrow> length a = 16"
  unfolding ipv6_text_def by (elim disjE exE conjE; drule spells_length spells_side_length)
    (simp_all, (drule spells_side_length, simp)+)

section \<open>The property\<close>

text \<open>C26: \<open>ParseIPv6Address\<close> accepts exactly the texts of addresses - eight pieces of one to four
  hexadecimal digits, or fewer with a single contraction, the last two of which may be an IPv4 address,
  but not two colons alone - and returns the 16 bytes that the text stands for. It does not return
  anything of the buffer that it writes them to, which is not initialised: indexing and the moves for the
  contraction stay within the address.\<close>

theorem ParseIPv6Address_text:
  assumes "wf_Input s" "length buffer = 16"
  shows "ParseIPv6Address s buffer = Some a \<longleftrightarrow> ipv6_text s a \<and> length a = 16"
  using ParseIPv6Address_iff [OF assms] ipv6_text_length by blast

theorem ParseIPv6Address_text_witness:
  "ParseIPv6Address [0x31, c_colon, c_colon, 0x31, 0x30, c_dot, 0x30, c_dot, 0x30, c_dot, 0x32, 0x35, 0x35]
     (replicate 16 7) = Some ([0, 1] @ replicate 10 0 @ [10, 0, 0, 255])"
proof -
  have "hextet [0x31]" "hextet_bytes [0x31] = [0, 1]"
    by (simp_all add: hextet_def is_hex_def hextet_bytes_def hextet_value_def hex_digit_def)
  then have l: "spells False [0x31] 1 [0, 1]" using spells.hextet [of "[0x31]"] by simp
  have "ipv4_text [10, 0, 0, 255] = [0x31, 0x30, c_dot, 0x30, c_dot, 0x30, c_dot, 0x32, 0x35, 0x35]"
    by (simp add: ipv4_text_def decimal.simps)
  then have r: "spells True [0x31, 0x30, c_dot, 0x30, c_dot, 0x30, c_dot, 0x32, 0x35, 0x35] 2 [10, 0, 0, 255]"
    using spells.ipv4 [of True "[10, 0, 0, 255]"] by simp
  have a: "[0, 1] @ replicate 10 0 @ [10, 0, 0, 255] = [0, 1] @ replicate (2 * (8 - (1 + 2))) 0 @ [10, 0, 0, 255 :: u8]"
    by simp
  show ?thesis unfolding a
    by (subst ParseIPv6Address_text, simp add: wf_Input_def MAX_INPUT_def, simp, unfold ipv6_text_def spells_side_def)
      (intro conjI disjI2 exI [of _ "[0x31]"] exI [of _ 1] exI [of _ "[0, 1]"]
        exI [of _ "[0x31, 0x30, c_dot, 0x30, c_dot, 0x30, c_dot, 0x32, 0x35, 0x35]"]
        exI [of _ 2] exI [of _ "[10, 0, 0, 255]"], use l r in simp_all)
qed

end
