(* ===== verification/PkixSearch.thy ===== *)
theory PkixSearch
  imports PkixConstraints PkixIpv6 PkixCheck
begin

text \<open>
  The search through the names of a certificate (theory \<open>PkixNames\<close>): for the name of a host, and
  for names that do not conform to name constraints.
\<close>

section \<open>The subject alternative names\<close>

definition encode_general_name :: "GeneralNameType \<times> Input \<Rightarrow> u8 list" where
  "encode_general_name g = encode_tlv (general_name_tag (fst g)) (snd g)"

abbreviation conforms :: "GeneralNameType \<Rightarrow> Input \<Rightarrow> Input \<Rightarrow> bool" where
  "conforms t v constraints \<equiv> CheckPresentedIDConformsToConstraints t v constraints = Inr ()"

text \<open>A name of the certificate is the one asked for.\<close>

definition is_name :: "GeneralNameType \<Rightarrow> Input \<Rightarrow> GeneralNameType \<Rightarrow> Input \<Rightarrow> bool" where
  "is_name refType ref t v \<longleftrightarrow> refType \<noteq> GN_nameConstraints \<and>
     MatchPresentedIDWithReferenceID t v refType ref NoNamesOfGivenType = Inr Match"

lemma MatchPresentedID_constraints:
  "MatchPresentedIDWithReferenceID t v GN_nameConstraints ref m = Inr m' \<longleftrightarrow> conforms t v ref \<and> m' = m"
  by (auto simp: MatchPresentedIDWithReferenceID_def split: sum.splits)

lemma MatchPresentedID_reference:
  "refType \<noteq> GN_nameConstraints \<Longrightarrow>
   MatchPresentedIDWithReferenceID t v refType ref m = MatchPresentedIDWithReferenceID t v refType ref m'"
  by (simp add: MatchPresentedIDWithReferenceID_def)

lemma SearchAltNames_loop_found:
  "wf_Reader r \<Longrightarrow> SearchAltNames_loop refType ref r m fb = Inr (Decided m') \<Longrightarrow>
   m' = Match \<and> (\<exists>names t v rest. remaining r = concat (map encode_general_name names) @ rest \<and>
     (t, v) \<in> set names \<and> is_name refType ref t v)"
proof (induction refType ref r m fb rule: SearchAltNames_loop.induct)
  case (1 refType ref r m fb)
  note wf = \<open>wf_Reader r\<close>
  have "\<not> AtEnd r" using 1(3) by (subst (asm) SearchAltNames_loop.simps) (simp split: if_splits)
  moreover obtain t v q m1 where s: "ReadGeneralName r = Inr ((t, v), q)"
    "MatchPresentedIDWithReferenceID t v refType ref m = Inr m1"
    "if refType \<noteq> GN_nameConstraints \<and> m1 = Match then m' = m1
     else SearchAltNames_loop refType ref q m1
       (if t = GN_dNSName \<or> t = GN_iPAddress then FallBack_No else fb) = Inr (Decided m')"
    using 1(3) by (subst (asm) SearchAltNames_loop.simps) (auto split: sum.splits if_splits)
  moreover have at: "tlv_at r (general_name_tag t) v q" using s(1) ReadGeneralName_iff [OF wf] by blast
  have r: "remaining r = encode_general_name (t, v) @ remaining q"
    using tlv_at_split [OF at] by (simp add: encode_general_name_def)
  show ?case
  proof (cases "refType \<noteq> GN_nameConstraints \<and> m1 = Match")
    case True
    then have "is_name refType ref t v"
      using s(2) MatchPresentedID_reference [of refType t v ref m NoNamesOfGivenType] by (simp add: is_name_def)
    moreover have "remaining r = concat (map encode_general_name [(t, v)]) @ remaining q" using r by simp
    ultimately show ?thesis using True s(3) by (metis list.set_intros(1))
  next
    case False
    have "wf_Reader q" using tlv_at_wf [OF at wf] by blast
    moreover have "SearchAltNames_loop refType ref q m1
       (if t = GN_dNSName \<or> t = GN_iPAddress then FallBack_No else fb) = Inr (Decided m')"
      using s(3) False by simp
    ultimately have "m' = Match \<and> (\<exists>names t v rest. remaining q = concat (map encode_general_name names) @ rest \<and>
       (t, v) \<in> set names \<and> is_name refType ref t v)"
      using 1(1) [OF \<open>\<not> AtEnd r\<close> s(1) refl refl s(2) False] by blast
    then obtain names u w rest where "m' = Match" "remaining q = concat (map encode_general_name names) @ rest"
      "(u, w) \<in> set names" "is_name refType ref u w" by blast
    moreover from this have "remaining r = concat (map encode_general_name ((t, v) # names)) @ rest" using r by simp
    ultimately show ?thesis by (metis list.set_intros(2))
  qed
qed


lemma SearchAltNames_loop_exhausted:
  "wf_Reader r \<Longrightarrow> SearchAltNames_loop refType ref r m fb = Inr (Continue (m', fb')) \<Longrightarrow>
   \<exists>names. remaining r = concat (map encode_general_name names) \<and>
     (fb' = FallBack_Yes \<longleftrightarrow> fb = FallBack_Yes \<and> (\<forall>(t, v) \<in> set names. t \<noteq> GN_dNSName \<and> t \<noteq> GN_iPAddress)) \<and>
     (if refType = GN_nameConstraints then m' = m \<and> (\<forall>(t, v) \<in> set names. conforms t v ref) else m' = Match \<longrightarrow> m = Match)"
proof (induction refType ref r m fb rule: SearchAltNames_loop.induct)
  case (1 refType ref r m fb)
  note wf = \<open>wf_Reader r\<close>
  show ?case
  proof (cases "AtEnd r")
    case True
    then have "m' = m" "fb' = fb" using 1(3) by (subst (asm) SearchAltNames_loop.simps, simp)+
    then show ?thesis using True wf by (intro exI [of _ "[]"]) (simp add: AtEnd_iff)
  next
    case False
    obtain t v q m1 where s: "ReadGeneralName r = Inr ((t, v), q)"
      "MatchPresentedIDWithReferenceID t v refType ref m = Inr m1" "\<not> (refType \<noteq> GN_nameConstraints \<and> m1 = Match)"
      "SearchAltNames_loop refType ref q m1
         (if t = GN_dNSName \<or> t = GN_iPAddress then FallBack_No else fb) = Inr (Continue (m', fb'))"
      using 1(3) False by (subst (asm) SearchAltNames_loop.simps) (auto split: sum.splits if_splits)
    have at: "tlv_at r (general_name_tag t) v q" using s(1) ReadGeneralName_iff [OF wf] by blast
    have r: "remaining r = encode_general_name (t, v) @ remaining q"
      using tlv_at_split [OF at] by (simp add: encode_general_name_def)
    have "wf_Reader q" using tlv_at_wf [OF at wf] by blast
    then obtain names where n: "remaining q = concat (map encode_general_name names)"
      "fb' = FallBack_Yes \<longleftrightarrow> (if t = GN_dNSName \<or> t = GN_iPAddress then FallBack_No else fb) = FallBack_Yes \<and>
        (\<forall>(t, v) \<in> set names. t \<noteq> GN_dNSName \<and> t \<noteq> GN_iPAddress)"
      "if refType = GN_nameConstraints then m' = m1 \<and> (\<forall>(t, v) \<in> set names. conforms t v ref) else m' = Match \<longrightarrow> m1 = Match"
      using 1(1) [OF False s(1) refl refl s(2,3) _ s(4)] by blast
    have "remaining r = concat (map encode_general_name ((t, v) # names))" using r n(1) by simp
    moreover have "fb' = FallBack_Yes \<longleftrightarrow> fb = FallBack_Yes \<and>
        (\<forall>(t, v) \<in> set ((t, v) # names). t \<noteq> GN_dNSName \<and> t \<noteq> GN_iPAddress)"
      using n(2) by (auto split: if_splits)
    moreover have "if refType = GN_nameConstraints then m' = m \<and> (\<forall>(t, v) \<in> set ((t, v) # names). conforms t v ref)
        else m' = Match \<longrightarrow> m = Match"
      using n(3) s(2,3) by (auto simp: MatchPresentedID_constraints split: if_splits)
    ultimately show ?thesis by blast
  qed
qed

section \<open>The subject\<close>

fun wf_ava :: "ava \<Rightarrow> bool" where
  "wf_ava (t, g, v) \<longleftrightarrow> wf_Input t \<and> wf_Input v"

abbreviation ava_step where
  "ava_step refType ref fe fc \<equiv> (\<lambda>m (t, g, v). MatchAVA t g v refType ref fe fc m)"

lemma SearchWithinRDN_avas:
  "wf_Reader r \<Longrightarrow> SearchWithinRDN refType ref fe fc m r = Inr (m', r') \<Longrightarrow>
   \<exists>avas. avas \<noteq> [] \<and> list_all wf_ava avas \<and> remaining r = concat (map encode_ava avas) \<and>
     AtEnd r' \<and> fold_res (ava_step refType ref fe fc) m avas = Inr m'"
proof (induction refType ref fe fc m r rule: SearchWithinRDN.induct)
  case (1 refType ref fe fc m r)
  note wf = \<open>wf_Reader r\<close>
  obtain t g v q m1 where s: "ReadAVA r = Inr ((t, g, v), q)" "MatchAVA t g v refType ref fe fc m = Inr m1"
    "if \<not> AtEnd q then SearchWithinRDN refType ref fe fc m1 q = Inr (m', r') else m' = m1 \<and> r' = q"
    using 1(3) by (subst (asm) SearchWithinRDN.simps) (auto split: sum.splits if_splits)
  obtain w where w: "tlv_at r SEQUENCE w q" "whole (\<lambda>ava. case ExpectTagAndGetValue ava OIDTag of Inl e \<Rightarrow> Inl e
        | Inr (type, ava) \<Rightarrow> (case ReadTagAndGetValue ava of Inl e \<Rightarrow> Inl e
            | Inr (valueTag, val, ava) \<Rightarrow> Inr ((type, valueTag, val), ava))) w = Inr (t, g, v)"
    using s(1) unfolding ReadAVA_def Nested_iff [OF wf] by blast
  have wfq: "wf_Reader q" and wfw: "wf_Input w" using tlv_at_wf [OF w(1) wf] by blast+
  obtain q1 q2 where "ExpectTagAndGetValue (Reader_of w) OIDTag = Inr (t, q1)" "ReadTagAndGetValue q1 = Inr (g, v, q2)" "AtEnd q2"
    using w(2) by (auto simp: whole_iff case_sum_prod_Inr_iff simp del: tag_values split: sum.splits)
  moreover from this have at: "tlv_at (Reader_of w) OIDTag t q1" using ExpectTagAndGetValue_iff wfw by simp
  moreover have wf1: "wf_Reader q1" using tlv_at_wf [OF at] wfw by simp
  ultimately have at2: "tlv_at q1 g v q2" "AtEnd q2" using ReadTagAndGetValue_iff by blast+
  have "w = encode_tlv OIDTag t @ encode_tlv g v"
    using tlv_at_split [OF at] tlv_at_split [OF at2(1)] at2(2) tlv_at_wf [OF at2(1) wf1] wfw by (simp add: AtEnd_iff)
  then have r: "remaining r = encode_ava (t, g, v) @ remaining q" using tlv_at_split [OF w(1)] by simp
  have wfa: "wf_ava (t, g, v)" using tlv_at_wf [OF at] tlv_at_wf [OF at2(1) wf1] wfw by simp
  show ?case
  proof (cases "AtEnd q")
    case True
    then show ?thesis using r s(2,3) wfq wfa by (intro exI [of _ "[(t, g, v)]"]) (simp add: AtEnd_iff del: encode_ava.simps)
  next
    case False
    then obtain avas where "list_all wf_ava avas" "AtEnd r'" "remaining q = concat (map encode_ava avas)"
      "fold_res (ava_step refType ref fe fc) m1 avas = Inr m'"
      using 1(1) [OF s(1) refl refl refl s(2)] s(3) wfq by (metis (no_types, lifting))
    then show ?thesis using r s(2) wfa by (intro exI [of _ "(t, g, v) # avas"]) (simp del: encode_ava.simps)
  qed
qed


text \<open>The search through the subject goes through the attributes of all relative names in order.\<close>

lemma SearchSubject_avas:
  assumes wf: "wf_Input subj"
    and found: "NestedOf (Reader_of subj) SEQUENCE SET EmptyAllowed_Yes (SearchWithinRDN refType ref fe fc) m = Inr (m', r')"
  obtains rdns where "subj = encode_name rdns @ remaining r'" "list_all wf_ava (concat rdns)"
    "fold_res (ava_step refType ref fe fc) m (concat rdns) = Inr m'"
proof -
  let ?f = "ava_step refType ref fe fc"
  obtain vs where vs: "tlv_at (Reader_of subj) SEQUENCE (concat (map (encode_tlv SET) vs)) r'"
    "\<forall>v \<in> set vs. wf_Input v" "fold_res (\<lambda>m v. whole (SearchWithinRDN refType ref fe fc m) v) m vs = Inr m'"
    using found unfolding NestedOf_iff [OF wf_Reader_of [OF wf]] by blast
  have "\<exists>rdns. concat (map (encode_tlv SET) vs) = concat (map encode_rdn rdns) \<and>
      list_all wf_ava (concat rdns) \<and> fold_res ?f m (concat rdns) = Inr m'"
    using vs(2,3)
  proof (induction vs arbitrary: m)
    case Nil
    then show ?case by (intro exI [of _ "[]"]) simp
  next
    case (Cons v vs)
    obtain m1 q where m1: "SearchWithinRDN refType ref fe fc m (Reader_of v) = Inr (m1, q)"
      "fold_res (\<lambda>m v. whole (SearchWithinRDN refType ref fe fc m) v) m1 vs = Inr m'"
      using Cons.prems(2) by (auto simp: whole_iff split: sum.splits)
    obtain avas where avas: "list_all wf_ava avas" "v = concat (map encode_ava avas)" "fold_res ?f m avas = Inr m1"
      using SearchWithinRDN_avas [OF _ m1(1)] Cons.prems(1) by auto
    obtain rdns where rdns: "concat (map (encode_tlv SET) vs) = concat (map encode_rdn rdns)"
      "list_all wf_ava (concat rdns)" "fold_res ?f m1 (concat rdns) = Inr m'"
      using Cons.IH [OF _ m1(2)] Cons.prems(1) by auto
    show ?case using avas rdns
      by (intro exI [of _ "avas # rdns"]) (simp add: encode_rdn_def [of avas] fold_res_append del: tag_values)
  qed
  then show thesis using that tlv_at_split [OF vs(1)] wf unfolding encode_name_def by auto
qed

text \<open>Only the last common name counts.\<close>

definition last_common_name :: "ava list \<Rightarrow> (u8 \<times> Input) option" where
  "last_common_name avas = fold (\<lambda>(t, g, v) last. if t = id_at_commonName then Some (g, v) else last) avas None"

lemma last_common_name_snoc:
  "last_common_name (avas @ [(t, g, v)]) = (if t = id_at_commonName then Some (g, v) else last_common_name avas)"
  by (simp add: last_common_name_def)

lemma wf_object_ids [simp]: "wf_Input id_at_commonName" "wf_Input id_emailAddress"
  by (simp_all add: id_at_commonName_def id_emailAddress_def wf_Input_def MAX_INPUT_def)

lemma object_ids_differ [simp]: "id_at_commonName \<noteq> id_emailAddress" "id_emailAddress \<noteq> id_at_commonName"
  by (simp_all add: id_at_commonName_def id_emailAddress_def)

lemma SearchSubject_result:
  assumes "refType \<noteq> GN_rfc822Name" "fe = FallBack_Yes \<longrightarrow> refType = GN_nameConstraints" "list_all wf_ava avas"
    and "fold_res (ava_step refType ref fe fc) m avas = Inr m'"
  shows "m' = (case last_common_name avas of
      Some (g, v) \<Rightarrow> if fc = FallBack_Yes then MatchCommonName g v refType ref else m
    | None \<Rightarrow> m) \<and>
    (fe = FallBack_Yes \<longrightarrow> (\<forall>(t, g, v) \<in> set avas. t = id_emailAddress \<longrightarrow> g = IA5String \<and> conforms GN_rfc822Name v ref))"
  using assms(3,4)
proof (induction avas arbitrary: m' rule: rev_induct)
  case Nil
  then show ?case by (simp add: last_common_name_def)
next
  case (snoc x avas)
  obtain t g v where x: "x = (t, g, v)" by (cases x)
  obtain m1 where m1: "fold_res (ava_step refType ref fe fc) m avas = Inr m1"
    "MatchAVA t g v refType ref fe fc m1 = Inr m'"
    using snoc.prems(2) by (auto simp: fold_res_append x split: sum.splits)
  have wf: "wf_Input t" "list_all wf_ava avas" using snoc.prems(1) by (simp_all add: x)
  note IH = snoc.IH [OF wf(2) m1(1)]
  have step: "m' = (if t = id_at_commonName \<and> fc = FallBack_Yes then MatchCommonName g v refType ref else m1) \<and>
      (fe = FallBack_Yes \<longrightarrow> t = id_emailAddress \<longrightarrow> g = IA5String \<and> conforms GN_rfc822Name v ref)"
    using m1(2) assms(1,2) wf(1)
    by (auto simp: MatchAVA_def InputsAreEqual_iff MatchPresentedID_constraints simp del: tag_values split: if_splits)
  show ?case using IH step
    by (auto simp: x last_common_name_snoc simp del: tag_values split: option.splits if_splits)
qed


section \<open>The name of a host\<close>

text \<open>What it means that a name of a certificate is the name that is asked for, as a DNS name or as an
  IP address.\<close>

definition names_host :: "GeneralNameType \<Rightarrow> Input \<Rightarrow> GeneralNameType \<Rightarrow> Input \<Rightarrow> bool" where
  "names_host refType ref t v \<longleftrightarrow> t = refType \<and>
     (t = GN_dNSName \<and> MatchPresentedDNSIDWithReferenceDNSID v AllowWildcards_Yes AllowDotless_Yes ReferenceID ref = Inr True \<or>
      t = GN_iPAddress \<and> v = ref)"

lemma is_name_host:
  assumes "refType = GN_dNSName \<or> refType = GN_iPAddress" "wf_Input ref" "wf_Input v"
  shows "is_name refType ref t v \<longleftrightarrow> names_host refType ref t v"
  using assms by (auto simp: is_name_def names_host_def MatchPresentedIDWithReferenceID_def InputsAreEqual_iff
      split: sum.splits if_splits)

text \<open>A common name, which is read as a DNS name if it has the form of one.\<close>

definition common_name_of_host :: "GeneralNameType \<Rightarrow> Input \<Rightarrow> u8 \<Rightarrow> Input \<Rightarrow> bool" where
  "common_name_of_host refType ref g v \<longleftrightarrow> g \<in> {PrintableString, UTF8String, TeletexString} \<and>
     (if IsValidPresentedDNSID v then names_host refType ref GN_dNSName v
      else \<exists>ip. ParseIPv4Address v = Some ip \<and> names_host refType ref GN_iPAddress ip)"

lemma wf_ParseIPv4Address: "wf_Input v \<Longrightarrow> ParseIPv4Address v = Some ip \<Longrightarrow> wf_Input ip"
  using ParseIPv4Address_iff by (simp add: wf_Input_def MAX_INPUT_def)

lemma MatchCommonName_host:
  assumes "refType = GN_dNSName \<or> refType = GN_iPAddress" "wf_Input ref" "wf_Input v"
    and "MatchCommonName g v refType ref = Match"
  shows "common_name_of_host refType ref g v"
proof -
  have *: "names_host refType ref t w"
    if "MatchSubjectPresentedIDWithReferenceID t w refType ref NoNamesOfGivenType = Match" "wf_Input w" for t w
    using that assms(1) is_name_host [OF assms(1,2), of w t]
    by (auto simp: MatchSubjectPresentedIDWithReferenceID_def is_name_def split: sum.splits)
  show ?thesis
    using assms(3,4) * wf_ParseIPv4Address
    by (auto simp: MatchCommonName_def common_name_of_host_def Let_def simp del: tag_values
        split: if_splits option.splits)
qed

lemma wf_last_common_name:
  "list_all wf_ava avas \<Longrightarrow> last_common_name avas = Some (g, v) \<Longrightarrow> wf_Input v"
  by (induction avas arbitrary: g v rule: rev_induct)
    (auto simp: last_common_name_snoc last_common_name_def [of "[]"] split: if_splits)

definition encode_san :: "(GeneralNameType \<times> Input) list \<Rightarrow> u8 list" where
  "encode_san names = encode_tlv SEQUENCE (concat (map encode_general_name names))"

text \<open>How a certificate may name a host: by one of the names of the extension, or, if the policy allows
  it and the extension has no DNS name and no IP address, by the last common name of its subject.\<close>

definition alternative_name_of_host :: "Input option \<Rightarrow> GeneralNameType \<Rightarrow> Input \<Rightarrow> bool" where
  "alternative_name_of_host altName refType ref \<longleftrightarrow>
     (\<exists>names t v rest. altName = Some (encode_tlv SEQUENCE (concat (map encode_general_name names) @ rest)) \<and>
        (t, v) \<in> set names \<and> names_host refType ref t v)"

definition no_host_in_alternative_names :: "Input option \<Rightarrow> bool" where
  "no_host_in_alternative_names altName \<longleftrightarrow>
     (\<forall>san. altName = Some san \<longrightarrow>
        (\<exists>names. san = encode_san names \<and> (\<forall>(t, v) \<in> set names. t \<noteq> GN_dNSName \<and> t \<noteq> GN_iPAddress)))"

definition subject_names_host :: "Input \<Rightarrow> GeneralNameType \<Rightarrow> Input \<Rightarrow> bool" where
  "subject_names_host subj refType ref \<longleftrightarrow>
     (\<exists>rdns rest g v. subj = encode_name rdns @ rest \<and> last_common_name (concat rdns) = Some (g, v) \<and>
        common_name_of_host refType ref g v)"

lemma san_reader:
  assumes "wf_Input san" "ExpectTagAndGetValueAtEnd san SEQUENCE = Inr r"
  shows "san = encode_tlv SEQUENCE (remaining r)" "wf_Reader r"
  using assms ExpectTagAndGetValueAtEnd_iff [OF assms(1), of SEQUENCE r] by auto

lemma wf_member:
  assumes "wf_Input (encode_tlv SEQUENCE (concat (map encode_general_name names) @ rest))" "(t, v) \<in> set names"
  shows "wf_Input v"
proof -
  have "length v \<le> length (concat (map encode_general_name names))"
    using assms(2) by (induction names) (auto simp: encode_general_name_def encode_tlv_def)
  then show ?thesis using assms(1) by (simp add: wf_Input_def encode_tlv_def)
qed

lemma SearchNames_host:
  assumes refType: "refType = GN_dNSName \<or> refType = GN_iPAddress" and wf: "wf_Input ref" "wf_Input subj"
    and san: "\<And>san. altName = Some san \<Longrightarrow> wf_Input san"
    and found: "SearchNames altName subj refType ref fc = Inr Match"
  shows "alternative_name_of_host altName refType ref \<or>
    fc = FallBack_Yes \<and> no_host_in_alternative_names altName \<and> subject_names_host subj refType ref"
proof (cases "SearchAltNames altName refType ref fc")
  case (Inr d)
  show ?thesis
  proof (cases d)
    case (Decided m)
    then obtain s r where s: "altName = Some s" "ExpectTagAndGetValueAtEnd s SEQUENCE = Inr r"
      "SearchAltNames_loop refType ref r NoNamesOfGivenType fc = Inr (Decided m)"
      using Inr by (auto simp: SearchAltNames_def split: option.splits sum.splits)
    note r = san_reader [OF san [OF s(1)] s(2)]
    obtain names t v rest where n: "remaining r = concat (map encode_general_name names) @ rest"
      "(t, v) \<in> set names" "is_name refType ref t v"
      using SearchAltNames_loop_found [OF r(2) s(3)] by blast
    have "wf_Input v" using wf_member [OF _ n(2)] san [OF s(1)] r(1) n(1) by simp
    then have "names_host refType ref t v" using n(3) is_name_host [OF refType wf(1)] by simp
    moreover have "altName = Some (encode_tlv SEQUENCE (concat (map encode_general_name names) @ rest))"
      using s(1) r(1) n(1) by simp
    ultimately show ?thesis using n(2) unfolding alternative_name_of_host_def by blast
  next
    case (Continue x)
    obtain m fc' where x: "x = (m, fc')" by force
    have c: "SearchAltNames altName refType ref fc = Inr (Continue (m, fc'))" using Inr Continue x by simp
    have m: "m \<noteq> Match \<and> (fc' = FallBack_Yes \<longrightarrow> fc = FallBack_Yes \<and> no_host_in_alternative_names altName)"
    proof (cases altName)
      case None
      then show ?thesis using c by (auto simp: SearchAltNames_def no_host_in_alternative_names_def)
    next
      case (Some s)
      obtain r where r: "ExpectTagAndGetValueAtEnd s SEQUENCE = Inr r"
        "SearchAltNames_loop refType ref r NoNamesOfGivenType fc = Inr (Continue (m, fc'))"
        using c Some by (auto simp: SearchAltNames_def split: sum.splits)
      note r' = san_reader [OF san [OF Some] r(1)]
      show ?thesis
        using SearchAltNames_loop_exhausted [OF r'(2) r(2)] refType Some r'(1)
        by (auto simp: no_host_in_alternative_names_def encode_san_def)
    qed
    have s: "SearchSubject altName subj refType ref fc' m = Inr Match"
      using found c refType by (auto simp: SearchNames_def)
    then have "fc' = FallBack_Yes" using m refType
      by (cases fc') (auto simp: SearchSubject_def Let_def split: if_splits)
    then obtain r' where "NestedOf (Reader_of subj) SEQUENCE SET EmptyAllowed_Yes
        (SearchWithinRDN refType ref FallBack_No FallBack_Yes) m = Inr (Match, r')"
      using s refType by (auto simp: SearchSubject_def Let_def split: sum.splits if_splits)
    then obtain rdns where rdns: "subj = encode_name rdns @ remaining r'" "list_all wf_ava (concat rdns)"
      "fold_res (ava_step refType ref FallBack_No FallBack_Yes) m (concat rdns) = Inr Match"
      using SearchSubject_avas [OF wf(2)] by blast
    obtain g v where "last_common_name (concat rdns) = Some (g, v)" "MatchCommonName g v refType ref = Match"
      using SearchSubject_result [OF _ _ rdns(2,3)] refType m by (auto split: option.splits)
    moreover from this have "common_name_of_host refType ref g v"
      using MatchCommonName_host [OF refType wf(1) wf_last_common_name [OF rdns(2)]] by blast
    ultimately have "subject_names_host subj refType ref" using rdns(1) unfolding subject_names_host_def by blast
    then show ?thesis using m \<open>fc' = FallBack_Yes\<close> by blast
  qed
qed (use found in \<open>simp add: SearchNames_def\<close>)


text \<open>The name that is asked for: a DNS name, or an IP address in one of its textual forms.\<close>

definition reference_name :: "Input \<Rightarrow> GeneralNameType \<Rightarrow> Input \<Rightarrow> bool" where
  "reference_name hostname refType ref \<longleftrightarrow>
     (if IsValidReferenceDNSID hostname then refType = GN_dNSName \<and> ref = hostname
      else refType = GN_iPAddress \<and> (ipv6_text hostname ref \<or> length ref = 4 \<and> hostname = ipv4_text ref))"

lemma GetSubjectAltName_wf: "wf_cert c \<Longrightarrow> GetSubjectAltName c = Some san \<Longrightarrow> wf_Input san"
proof -
  assume "wf_cert c" "GetSubjectAltName c = Some san"
  then have "deref c Out_subjectAltName = Some san" "\<And>v. deref c Out_subjectAltName = Some v \<Longrightarrow> wf_Input v"
    by (auto simp: GetSubjectAltName_def MaybeInput_def wf_cert_def simp del: deref.simps split: if_splits) simp
  then show "wf_Input san" by blast
qed

lemma only_match:
  "(case m of NoNamesOfGivenType \<Rightarrow> Inl e | Mismatch \<Rightarrow> Inl e | Match \<Rightarrow> Inr ()) = Inr () \<longleftrightarrow> m = Match"
  by (cases m) simp_all

lemma CheckCertHostname_names:
  assumes wf: "wf_Input der" "wf_Input hostname" "length buffer = 16"
    and ok: "CheckCertHostname buffer der hostname policy = Inr ()"
  shows "\<exists>cert notBefore notAfter refType ref. BackCert_Init der MustBeEndEntity = Inr cert \<and>
    ParseValidity (validity cert) = Inr (notBefore, notAfter) \<and> reference_name hostname refType ref \<and>
    (alternative_name_of_host (GetSubjectAltName cert) refType ref \<or>
     FallBackToCommonName policy notBefore = Inr FallBack_Yes \<and> (refType = GN_iPAddress \<longrightarrow> length ref = 4) \<and>
     no_host_in_alternative_names (GetSubjectAltName cert) \<and> subject_names_host (subject cert) refType ref)"
proof -
  obtain cert notBefore notAfter fb where c: "BackCert_Init der MustBeEndEntity = Inr cert"
    "ParseValidity (validity cert) = Inr (notBefore, notAfter)" "FallBackToCommonName policy notBefore = Inr fb"
    using ok by (auto simp: CheckCertHostname_def bind_res_Inr_iff)
  let ?san = "GetSubjectAltName cert" and ?subj = "subject cert"
  have wfc: "wf_cert cert" by (rule BackCert_Init_wf [OF wf(1) c(1)])
  then have subj: "wf_Input ?subj" "\<And>san. ?san = Some san \<Longrightarrow> wf_Input san"
    using GetSubjectAltName_wf [OF wfc] by (simp_all add: wf_cert_def)
  consider "IsValidReferenceDNSID hostname" "SearchNames ?san ?subj GN_dNSName hostname fb = Inr Match"
    | a where "\<not> IsValidReferenceDNSID hostname" "ParseIPv6Address hostname buffer = Some a"
      "SearchNames ?san ?subj GN_iPAddress a FallBack_No = Inr Match"
    | a where "\<not> IsValidReferenceDNSID hostname" "ParseIPv4Address hostname = Some a"
      "SearchNames ?san ?subj GN_iPAddress a fb = Inr Match"
    using ok c by (auto simp: CheckCertHostname_def Let_def bind_res_Inr_iff only_match split: if_splits option.splits)
  then obtain refType ref fb' where ref: "reference_name hostname refType ref" "wf_Input ref"
    "refType = GN_dNSName \<or> refType = GN_iPAddress" "SearchNames ?san ?subj refType ref fb' = Inr Match"
    "fb' = FallBack_Yes \<Longrightarrow> fb = FallBack_Yes \<and> (refType = GN_iPAddress \<longrightarrow> length ref = 4)"
  proof cases
    case 1
    then show ?thesis using that [of GN_dNSName hostname fb] wf(2) by (simp add: reference_name_def)
  next
    case (2 a)
    then have "ipv6_text hostname a" "length a = 16"
      using ParseIPv6Address_iff [OF wf(2,3)] ipv6_text_length by blast+
    then show ?thesis using that [of GN_iPAddress a FallBack_No] 2
      by (simp add: reference_name_def wf_Input_def MAX_INPUT_def)
  next
    case (3 a)
    then have "length a = 4" "hostname = ipv4_text a" using ParseIPv4Address_iff [OF wf(2)] by blast+
    then show ?thesis using that [of GN_iPAddress a fb] 3
      by (simp add: reference_name_def wf_Input_def MAX_INPUT_def)
  qed
  show ?thesis using SearchNames_host [OF ref(3,2) subj ref(4)] ref(1,5) c by blast
qed

text \<open>C6: \<open>CheckCertHostname\<close> succeeds only for an end-entity certificate that names the host: the name
  that is asked for is a DNS name, or an IP address in one of its textual forms, and one of the names of
  the subject-alternative-name extension is a DNS name that matches it or is exactly this address.
  Otherwise the policy has to allow the fall-back for the date on which the certificate became valid, the
  name is not an IPv6 address, the extension has neither a DNS name nor an IP address, and the last common
  name of the subject, of one of three string types, is the name.\<close>

theorem CheckCertHostname_sound:
  assumes "wf_Input der" "wf_Input hostname" "length buffer = 16"
    and "CheckCertHostname buffer der hostname policy = Inr ()"
  shows "\<exists>cert notBefore notAfter refType ref. BackCert_Init der MustBeEndEntity = Inr cert \<and>
    ParseValidity (validity cert) = Inr (notBefore, notAfter) \<and> reference_name hostname refType ref \<and>
    (alternative_name_of_host (GetSubjectAltName cert) refType ref \<or>
     FallBackToCommonName policy notBefore = Inr FallBack_Yes \<and> (refType = GN_iPAddress \<longrightarrow> length ref = 4) \<and>
     no_host_in_alternative_names (GetSubjectAltName cert) \<and> subject_names_host (subject cert) refType ref)"
  using assms by (rule CheckCertHostname_names)

lemma leaf_subject_bytes:
  "subject leaf_cert = [0x30, 0x0C, 0x31, 0x0A, 0x30, 0x08, 0x06, 0x03, 0x55, 0x04, 0x03, 0x13, 0x01, 0x4C]"
  by (simp add: leaf_cert_def)

lemma leaf_host:
  "IsValidReferenceDNSID [0x4C]" "IsValidPresentedDNSID [0x4C]"
  "MatchPresentedDNSIDWithReferenceDNSID [0x4C] AllowWildcards_Yes AllowDotless_Yes ReferenceID [0x4C] = Inr True"
proof -
  have wf: "wf_Input [0x4C]" by (simp add: wf_Input_def MAX_INPUT_def)
  note ev = dns_name_def Let_def drop_lead_def drop_trail_def valid_label_def MAX_LABEL_LENGTH_def
    is_label_byte_def is_letter_def is_digit_def
  show v: "IsValidReferenceDNSID [0x4C]" "IsValidPresentedDNSID [0x4C]"
    unfolding IsValidReferenceDNSID_def IsValidPresentedDNSID_def IsValidDNSID_iff [OF wf] by (simp_all add: ev)
  show "MatchPresentedDNSIDWithReferenceDNSID [0x4C] AllowWildcards_Yes AllowDotless_Yes ReferenceID [0x4C] = Inr True"
    using v MatchDNSReference [OF wf _ wf]
    by (simp add: MatchPresentedDNSIDWithReferenceDNSID_def IsValidReferenceDNSID_def IsValidPresentedDNSID_def
        same_host_def same_name_def)
qed

lemma leaf_rdn:
  "SearchWithinRDN GN_dNSName [0x4C] FallBack_No FallBack_Yes m
     \<lparr>r_buf = [0x30, 0x08, 0x06, 0x03, 0x55, 0x04, 0x03, 0x13, 0x01, 0x4C], r_input = 0, r_end = 10\<rparr> =
   Inr (Match, \<lparr>r_buf = [0x30, 0x08, 0x06, 0x03, 0x55, 0x04, 0x03, 0x13, 0x01, 0x4C], r_input = 10, r_end = 10\<rparr>)"
  by (subst SearchWithinRDN.simps) (simp add: ReadAVA_def MatchAVA_def
        MatchCommonName_def MatchSubjectPresentedIDWithReferenceID_def MatchPresentedIDWithReferenceID_def
        leaf_host id_at_commonName_def InputsAreEqual_def eval_pkix cong: bind_res_weak_cong)

theorem CheckCertHostname_sound_witness:
  "subject_names_host (subject leaf_cert) GN_dNSName [0x4C] \<and> CheckCertHostname (replicate 16 0) leaf_der [0x4C]
     \<lparr>FallBackToCommonName = \<lambda>_. Inr FallBack_Yes\<rparr> = Inr ()"
proof -
  have san: "GetSubjectAltName leaf_cert = None"
    by (simp add: leaf_cert_def GetSubjectAltName_def MaybeInput_def)
  have "NestedOf (Reader_of (subject leaf_cert)) SEQUENCE SET EmptyAllowed_Yes
      (SearchWithinRDN GN_dNSName [0x4C] FallBack_No FallBack_Yes) NoNamesOfGivenType =
      Inr (Match, advance 14 (Reader_of (subject leaf_cert)))"
    by (simp add: leaf_rdn leaf_subject_bytes advance_def eval_pkix)
  then have ok: "CheckCertHostname (replicate 16 0) leaf_der [0x4C] \<lparr>FallBackToCommonName = \<lambda>_. Inr FallBack_Yes\<rparr> = Inr ()"
    by (simp add: CheckCertHostname_def leaf_cert_init leaf_cert_validity san leaf_host
        SearchNames_def SearchAltNames_def SearchSubject_def del: tag_values cong: bind_res_weak_cong)
  show ?thesis using CheckCertHostname_sound [OF _ _ _ ok] ok leaf_cert_init leaf_host(1) san
    by (auto simp: wf_Input_def MAX_INPUT_def leaf_der_def reference_name_def alternative_name_of_host_def)
qed


section \<open>The names of a chain\<close>

definition common_name_conforms :: "Input \<Rightarrow> u8 \<Rightarrow> Input \<Rightarrow> bool" where
  "common_name_conforms constraints g v \<longleftrightarrow> (g \<in> {PrintableString, UTF8String, TeletexString} \<longrightarrow>
     (if IsValidPresentedDNSID v then conforms GN_dNSName v constraints
      else \<forall>ip. ParseIPv4Address v = Some ip \<longrightarrow> conforms GN_iPAddress ip constraints))"

text \<open>The attributes of a subject that count as names: its mail addresses and its last common name.\<close>

definition subject_conforms :: "Input \<Rightarrow> bool \<Rightarrow> bool \<Rightarrow> Input \<Rightarrow> bool" where
  "subject_conforms constraints mail commonName subj \<longleftrightarrow> (mail \<or> commonName \<longrightarrow>
     (\<exists>rdns rest. subj = encode_name rdns @ rest \<and>
       (mail \<longrightarrow> (\<forall>(t, g, v) \<in> set (concat rdns). t = id_emailAddress \<longrightarrow>
          g = IA5String \<and> conforms GN_rfc822Name v constraints)) \<and>
       (commonName \<longrightarrow> (\<forall>g v. last_common_name (concat rdns) = Some (g, v) \<longrightarrow> common_name_conforms constraints g v))))"

definition certificate_conforms :: "Input \<Rightarrow> KeyPurposeId \<Rightarrow> BackCert \<Rightarrow> bool" where
  "certificate_conforms constraints requiredEKU cert \<longleftrightarrow>
     (\<exists>names. (case GetSubjectAltName cert of None \<Rightarrow> names = [] | Some san \<Rightarrow> san = encode_san names) \<and>
       (\<forall>(t, v) \<in> set names. conforms t v constraints) \<and>
       conforms GN_directoryName (subject cert) constraints \<and>
       subject_conforms constraints (GetSubjectAltName cert = None)
         (endEntityOrCA cert = MustBeEndEntity \<and> requiredEKU = id_kp_serverAuth \<and>
          (\<forall>(t, v) \<in> set names. t \<noteq> GN_dNSName \<and> t \<noteq> GN_iPAddress))
         (subject cert))"

lemma MatchCommonName_conforms:
  "MatchCommonName g v GN_nameConstraints ref \<noteq> Mismatch \<Longrightarrow> common_name_conforms ref g v"
proof -
  have *: "MatchSubjectPresentedIDWithReferenceID t w GN_nameConstraints ref NoNamesOfGivenType \<noteq> Mismatch \<Longrightarrow>
      conforms t w ref" for t w
    by (auto simp: MatchSubjectPresentedIDWithReferenceID_def MatchPresentedID_constraints split: sum.splits)
  show "MatchCommonName g v GN_nameConstraints ref \<noteq> Mismatch \<Longrightarrow> common_name_conforms ref g v"
    using * by (auto simp: MatchCommonName_def common_name_conforms_def Let_def simp del: tag_values
        split: if_splits option.splits)
qed

lemma SearchAltNames_constraints:
  assumes "\<And>san. altName = Some san \<Longrightarrow> wf_Input san"
    and "SearchAltNames altName GN_nameConstraints ref fc = Inr d"
  obtains names fc' where "d = Continue (NoNamesOfGivenType, fc')"
    "case altName of None \<Rightarrow> names = [] | Some san \<Rightarrow> san = encode_san names"
    "\<forall>(t, v) \<in> set names. conforms t v ref"
    "fc' = FallBack_Yes \<longleftrightarrow> fc = FallBack_Yes \<and> (\<forall>(t, v) \<in> set names. t \<noteq> GN_dNSName \<and> t \<noteq> GN_iPAddress)"
proof (cases altName)
  case None
  then show ?thesis using that [of fc "[]"] assms(2) by (simp add: SearchAltNames_def)
next
  case (Some san)
  obtain r where r: "ExpectTagAndGetValueAtEnd san SEQUENCE = Inr r"
    "SearchAltNames_loop GN_nameConstraints ref r NoNamesOfGivenType fc = Inr d"
    using assms(2) Some by (auto simp: SearchAltNames_def split: sum.splits)
  note san = san_reader [OF assms(1) [OF Some] r(1)]
  show ?thesis
  proof (cases d)
    case (Decided m)
    then show ?thesis using SearchAltNames_loop_found [OF san(2), of GN_nameConstraints ref NoNamesOfGivenType fc m] r(2)
      by (auto simp: is_name_def)
  next
    case (Continue x)
    then obtain m fc' where d: "d = Continue (m, fc')" by (cases x) auto
    obtain names where n: "remaining r = concat (map encode_general_name names)"
      "fc' = FallBack_Yes \<longleftrightarrow> fc = FallBack_Yes \<and> (\<forall>(t, v) \<in> set names. t \<noteq> GN_dNSName \<and> t \<noteq> GN_iPAddress)"
      "m = NoNamesOfGivenType" "\<forall>(t, v) \<in> set names. conforms t v ref"
      using SearchAltNames_loop_exhausted [OF san(2) r(2) [unfolded d]] unfolding if_P [OF refl] by blast
    show ?thesis
      by (rule that [OF _ _ n(4,2)]) (use d n(1,3) Some san(1) in \<open>simp_all add: encode_san_def\<close>)
  qed
qed

lemma SearchSubject_constraints:
  "SearchSubject altName subj GN_nameConstraints ref fc m =
     (if altName \<noteq> None \<and> fc = FallBack_No then Inr m
      else case NestedOf (Reader_of subj) SEQUENCE SET EmptyAllowed_Yes
          (SearchWithinRDN GN_nameConstraints ref (if altName = None then FallBack_Yes else FallBack_No) fc) m of
        Inl e \<Rightarrow> Inl e
      | Inr (m, _) \<Rightarrow> Inr m)"
  by (cases altName; cases fc) (simp_all add: SearchSubject_def del: tag_values)

lemma SearchNames_constraints:
  assumes wf: "wf_cert cert"
    and found: "SearchNames (GetSubjectAltName cert) (subject cert) GN_nameConstraints ref
      (if endEntityOrCA cert = MustBeEndEntity \<and> eku = id_kp_serverAuth then FallBack_Yes else FallBack_No) = Inr m"
    and "m \<noteq> Mismatch"
  shows "certificate_conforms ref eku cert"
proof -
  let ?san = "GetSubjectAltName cert" and ?subj = "subject cert"
  let ?fc = "if endEntityOrCA cert = MustBeEndEntity \<and> eku = id_kp_serverAuth then FallBack_Yes else FallBack_No"
  obtain d where d: "SearchAltNames ?san GN_nameConstraints ref ?fc = Inr d"
    using found by (auto simp: SearchNames_def split: sum.splits)
  obtain names fc' where n: "d = Continue (NoNamesOfGivenType, fc')"
    "case ?san of None \<Rightarrow> names = [] | Some san \<Rightarrow> san = encode_san names"
    "\<forall>(t, v) \<in> set names. conforms t v ref"
    "fc' = FallBack_Yes \<longleftrightarrow> ?fc = FallBack_Yes \<and> (\<forall>(t, v) \<in> set names. t \<noteq> GN_dNSName \<and> t \<noteq> GN_iPAddress)"
    by (rule SearchAltNames_constraints [OF GetSubjectAltName_wf [OF wf] d])
  have s: "conforms GN_directoryName ?subj ref" "SearchSubject ?san ?subj GN_nameConstraints ref fc' NoNamesOfGivenType = Inr m"
    using found d n(1) by (auto simp: SearchNames_def bind_res_Inr_iff)
  have subj: "subject_conforms ref (?san = None) (fc' = FallBack_Yes) ?subj"
  proof (cases "?san = None \<or> fc' = FallBack_Yes")
    case True
    let ?fe = "if ?san = None then FallBack_Yes else FallBack_No"
    obtain r' where "NestedOf (Reader_of ?subj) SEQUENCE SET EmptyAllowed_Yes
        (SearchWithinRDN GN_nameConstraints ref ?fe fc') NoNamesOfGivenType = Inr (m, r')"
      using s(2) True unfolding SearchSubject_constraints
      by (cases fc') (auto simp del: tag_values split: sum.splits if_splits)
    then obtain rdns where rdns: "?subj = encode_name rdns @ remaining r'" "list_all wf_ava (concat rdns)"
      "fold_res (ava_step GN_nameConstraints ref ?fe fc') NoNamesOfGivenType (concat rdns) = Inr m"
      using SearchSubject_avas wf unfolding wf_cert_def by blast
    note result = SearchSubject_result [OF _ _ rdns(2,3)]
    have "common_name_conforms ref g v" if "fc' = FallBack_Yes" "last_common_name (concat rdns) = Some (g, v)" for g v
      using result that \<open>m \<noteq> Mismatch\<close> by (intro MatchCommonName_conforms) auto
    then show ?thesis using rdns(1) result by (auto simp: subject_conforms_def)
  qed (auto simp: subject_conforms_def)
  have "fc' = FallBack_Yes \<longleftrightarrow> endEntityOrCA cert = MustBeEndEntity \<and> eku = id_kp_serverAuth \<and>
      (\<forall>(t, v) \<in> set names. t \<noteq> GN_dNSName \<and> t \<noteq> GN_iPAddress)"
    using n(4) by (auto split: if_splits)
  then show ?thesis using n(2,3) s(1) subj unfolding certificate_conforms_def by auto
qed

lemma CheckNameConstraints_Cons_iff:
  "CheckNameConstraints constraints (child # rest) eku = Inr () \<longleftrightarrow>
    (\<exists>m. SearchNames (GetSubjectAltName child) (subject child) GN_nameConstraints constraints
      (if endEntityOrCA child = MustBeEndEntity \<and> eku = id_kp_serverAuth then FallBack_Yes else FallBack_No) = Inr m \<and>
      m \<noteq> Mismatch \<and> CheckNameConstraints constraints rest eku = Inr ())"
  by (auto simp: Let_def split: sum.split MatchResult.split)

lemma CheckNameConstraints_conforms:
  "CheckNameConstraints constraints chain eku = Inr () \<Longrightarrow> list_all wf_cert chain \<Longrightarrow>
   list_all (certificate_conforms constraints eku) chain"
proof (induction chain)
  case (Cons child rest)
  then show ?case using SearchNames_constraints unfolding CheckNameConstraints_Cons_iff list.pred_inject by blast
qed simp


text \<open>C13: \<open>CheckNameConstraints\<close> succeeds only if every certificate below the constraining issuer
  conforms to its constraints: each of its alternative names does and so does its subject, as a directory
  name. If there is no such extension, each mail address in the subject is an \<open>IA5String\<close> that conforms; and
  for a TLS server without DNS names and addresses in the extension the last common name of the subject,
  in the form in which \<open>CheckCertHostname\<close> would use it, does.\<close>

theorem CheckNameConstraints_sound:
  assumes "CheckNameConstraints constraints chain requiredEKU = Inr ()" and "list_all wf_cert chain"
  shows "list_all (certificate_conforms constraints requiredEKU) chain"
  using assms by (rule CheckNameConstraints_conforms)

text \<open>Constraints that permit the directory names below the empty one.\<close>

definition sample_constraints :: Input where
  "sample_constraints = [0x30, 0x08, 0xA0, 0x06, 0x30, 0x04, 0xA4, 0x02, 0x30, 0x00]"

lemma sample_constraints_conforms:
  assumes "t = GN_directoryName \<Longrightarrow> MatchConstraint t permittedSubtrees v [0x30, 0x00] = Inr True"
  shows "conforms t v sample_constraints"
proof -
  have "wf_Input sample_constraints" by (simp add: sample_constraints_def wf_Input_def MAX_INPUT_def)
  moreover have "list_all proper_subtree ([(GN_directoryName, [0x30, 0x00])] @ [])"
    by (simp add: proper_subtree_def wf_Input_def MAX_INPUT_def)
  moreover have "permitted_by t v [(GN_directoryName, [0x30, 0x00])]" "not_excluded_by t v []"
    using assms by (auto simp: permitted_by_def not_excluded_by_def)
  moreover have "sample_constraints = encode_tlv SEQUENCE (encode_subtrees permittedSubtrees
      [(GN_directoryName, [0x30, 0x00])] @ encode_subtrees excludedSubtrees [])"
    by (simp add: sample_constraints_def encode_subtrees_def encode_subtree_def encode_tlv_def encode_length_def)
  ultimately show ?thesis using ConformsToConstraints_iff by blast
qed

lemma leaf_subject_conforms: "conforms GN_directoryName (subject leaf_cert) sample_constraints"
  by (rule sample_constraints_conforms)
    (simp add: MatchConstraint_def MatchPresentedDirectoryNameWithConstraint_def leaf_subject_bytes
      MatchRDNs.simps eval_pkix cong: bind_res_weak_cong)

lemma leaf_rdn_constraints:
  "SearchWithinRDN GN_nameConstraints sample_constraints FallBack_Yes FallBack_Yes m
     \<lparr>r_buf = [0x30, 0x08, 0x06, 0x03, 0x55, 0x04, 0x03, 0x13, 0x01, 0x4C], r_input = 0, r_end = 10\<rparr> =
   Inr (NoNamesOfGivenType,
     \<lparr>r_buf = [0x30, 0x08, 0x06, 0x03, 0x55, 0x04, 0x03, 0x13, 0x01, 0x4C], r_input = 10, r_end = 10\<rparr>)"
  using sample_constraints_conforms [of GN_dNSName "[0x4C]"]
  by (subst SearchWithinRDN.simps) (simp add: ReadAVA_def MatchAVA_def
        MatchCommonName_def MatchSubjectPresentedIDWithReferenceID_def MatchPresentedIDWithReferenceID_def
        leaf_host id_at_commonName_def InputsAreEqual_def eval_pkix cong: bind_res_weak_cong)

theorem CheckNameConstraints_sound_witness:
  "CheckNameConstraints sample_constraints [leaf_cert] id_kp_serverAuth = Inr () \<and>
   certificate_conforms sample_constraints id_kp_serverAuth leaf_cert"
proof -
  have "NestedOf (Reader_of (subject leaf_cert)) SEQUENCE SET EmptyAllowed_Yes
      (SearchWithinRDN GN_nameConstraints sample_constraints FallBack_Yes FallBack_Yes) NoNamesOfGivenType =
      Inr (NoNamesOfGivenType, advance 14 (Reader_of (subject leaf_cert)))"
    by (simp add: leaf_rdn_constraints leaf_subject_bytes advance_def eval_pkix)
  moreover have "GetSubjectAltName leaf_cert = None"
    by (simp add: leaf_cert_def GetSubjectAltName_def MaybeInput_def)
  ultimately have ok: "CheckNameConstraints sample_constraints [leaf_cert] id_kp_serverAuth = Inr ()"
    using leaf_subject_conforms
    by (simp add: CheckNameConstraints_Cons_iff SearchNames_def SearchAltNames_def SearchSubject_constraints
        sample_fields del: tag_values CheckNameConstraints.simps(2))
  have "wf_cert leaf_cert" using BackCert_Init_wf [OF _ leaf_cert_init]
    by (simp add: leaf_der_def wf_Input_def MAX_INPUT_def)
  then show ?thesis using CheckNameConstraints_sound [OF ok] ok by simp
qed

end
