(* ===== verification/PsmRevocationSound.thy ===== *)
theory PsmRevocationSound
  imports PsmRevocation PkixSamples
begin

text \<open>
  The properties of \<open>NSSCertDBTrustDomain::CheckRevocation\<close>: what a success rests on, that a reported
  revocation stays, and that a server that fails is not asked again at once.
\<close>

section \<open>Sample services\<close>

text \<open>A server at \<open>a\<close> that always fails; hashes are zeros; everything else is available.\<close>

definition sample_services :: services where
  "sample_services =
     \<lparr>cacheEnv = sample_cache_env, newTempCertificate = (\<lambda>_. Inr ()), certBlocklist = Some (\<lambda>_. Some False),
      getCertTrust = (\<lambda>_. None), authoritativeForEV = (\<lambda>_ _. False), previousTrustLevel = InheritsTrust,
      subjectCertList = (\<lambda>_. Some [(True, root_der)]), imposedNameConstraints = (\<lambda>_. Some None),
      digestBuf = (\<lambda>_ _ n. Inr (replicate n 0)), verifyRSA = (\<lambda>_ _. Inr ()), verifyECDSA = (\<lambda>_ _. Inr ()),
      hasArena = True, arenaAllocates = True,
      decodeAuthInfoAccess = (\<lambda>aia. Some [(True, [(True, aia)])]), hasURLParser = True,
      ParseURL = (\<lambda>url. Some ((0, 4), (4, 1), (5, 0))), ParseAuthority = (\<lambda>_. Some (0, 1, - 1)),
      Base64Encode = Some, createSession = (\<lambda>_ _. Inr ()), httpExchange = (\<lambda>_ _. Inr (500, [])),
      staleTimes = (\<lambda>_. (Time 0, Time 0)), constructCertList = (\<lambda>_. Inr []), sha256_digest = (\<lambda>_. None),
      WhitelistedCNNICHashes = [], ChainHasValidPins = (\<lambda>_ _ _ _. Some True)\<rparr>"

definition sample_config :: "OCSPFetching \<Rightarrow> NSSCertDBTrustDomain" where
  "sample_config fetching =
     \<lparr>mCertDBTrustType = trustSSL, mOCSPFetching = fetching, mCertShortLifetimeInDays = 10,
      mPinningMode = pinningDisabled, mMinRSABits = 2048, mValidityCheckingMode = CheckingOff,
      mSHA1Mode = SHA1_Forbidden, mNetscapeStepUpPolicy = NeverMatch, mFirstPartyDomain = [],
      mOCSPGetEnabled = False, mHostname = None\<rparr>"

definition sample_state :: "Entry list \<Rightarrow> domain_state" where
  "sample_state es =
     \<lparr>mOCSPCache = es, mOCSPStaplingStatus = OCSP_STAPLING_NEVER_CHECKED, mSCTListFromCertificate = None,
      mSCTListFromOCSPStapling = None, requestCount = 0\<rparr>"

definition sample_entry :: "unit res \<Rightarrow> Entry" where
  "sample_entry r = \<lparr>mResult = r, mThisUpdate = Time 5, mValidThrough = Time 9, mIDHash = replicate 48 0x30\<rparr>"

lemma sample_hash:
  "CertIDHash (cacheEnv sample_services) sample_cache_id (mFirstPartyDomain (sample_config f)) =
     Some (replicate 48 0x30)"
  using sample_digest by (simp add: sample_services_def sample_config_def)

lemma sample_wf: "wf_cache (mOCSPCache (sample_state [sample_entry r]))" "wf_cache (mOCSPCache (sample_state []))"
  by (simp_all add: sample_state_def wf_cache_def MaxEntries_def)

lemma sample_statuses: "statuses (mOCSPCache (sample_state [sample_entry r])) (replicate 48 0x30) = Some (r, Time 5, Time 9)"
  by (simp add: sample_state_def statuses_def entry_status_def sample_entry_def)

text \<open>A check that the cache decides.\<close>

lemma CheckRevocation_cached:
  assumes "CheckCachedResponse cfg sv cid time (if eeOrCA = MustBeEndEntity
      then s\<lparr>mOCSPStaplingStatus := OCSP_STAPLING_NONE\<rparr> else s) = (Some rv, r, s')"
  shows "CheckRevocation_NSS cfg sv eeOrCA cid time du None aia s = (rv, s')"
  using assms by (auto simp: CheckRevocation_NSS_def CheckStapledResponse_def split: if_splits)

lemma sample_get:
  "Get (cacheEnv sample_services) [sample_entry r] sample_cache_id [] = (Some (r, Time 9), [sample_entry r])"
  using sample_hash
  by (simp add: Get_def FindInternal_def sample_config_def sample_entry_def MakeMostRecentlyUsed_def)

definition checked_state :: "Entry list \<Rightarrow> domain_state" where
  "checked_state es = (sample_state es)\<lparr>mOCSPStaplingStatus := OCSP_STAPLING_NONE\<rparr>"

lemma sample_cached:
  assumes "r = Inr () \<or> r = Inl ERROR_REVOKED_CERTIFICATE"
  shows "CheckRevocation_NSS (sample_config f) sample_services MustBeEndEntity sample_cache_id (Time 7) du None aia
      (sample_state [sample_entry r]) = (r, checked_state [sample_entry r])"
  using assms sample_get [of r]
  by (intro CheckRevocation_cached [where r = r])
    (auto simp: CheckCachedResponse_def sample_config_def sample_state_def checked_state_def less_eq_Time_def)

lemma checked_state_wf: "\<not> saturated (mOCSPCache (checked_state [e]))" "digest_errors sample_services"
  by (simp_all add: checked_state_def sample_state_def saturated_def MaxEntries_def digest_errors_def sample_services_def)

section \<open>What a good response says\<close>

text \<open>The signature by the issuer or its delegate covers a good status for the certificate, and no revoked
  or outdated one.\<close>

definition says_good :: "TrustDomain \<Rightarrow> CertID \<Rightarrow> Time \<Rightarrow> u16 \<Rightarrow> Input \<Rightarrow> bool" where
  "says_good td cid time life response \<longleftrightarrow>
     (\<exists>vs. verified_responses (ocsp_context td cid time life) response vs \<and>
       (\<exists>v \<in> set vs. \<exists>t u. answers (ocsp_context td cid time life) v Good t u) \<and>
       (\<forall>v \<in> set vs. \<forall>st t u. answers (ocsp_context td cid time life) v st t u \<longrightarrow> st \<noteq> Revoked \<and> time \<le> u))"

lemma verified_says_good:
  assumes "verified cfg sv eeOrCA cid time response = Inr ()" "wf_Input response"
  shows "says_good (OCSPVerificationTrustDomain cfg sv) cid time (maxOCSPLifetimeInDays eeOrCA) response"
proof -
  let ?call = "VerifyEncodedOCSPResponse (OCSPVerificationTrustDomain cfg sv) cid time (maxOCSPLifetimeInDays eeOrCA)
    response []"
  obtain rv ex times ev where v: "?call = (rv, ex, times, ev)" by (cases ?call)
  then have "rv = Inr ()" using assms(1) by (simp add: verified_def)
  from good_response [OF assms(2) v [unfolded this]] show ?thesis unfolding says_good_def .
qed

section \<open>Properties\<close>



text \<open>C9: A revocation that an unstapled check reports stays, if the cache has room. Once a check without a stapled
  response has reported that a certificate is revoked, every later check of it for the same first-party domain and
  without a stapled response does so again, whatever checks of this and of other certificates come between, at whatever
  times, with whatever responses of servers, and even if it is then checked with a configuration that does not fetch
  statuses or tolerates failures. Two conditions are necessary: the cache must not be full of revoked and unknown
  statuses, for then the check reports the revocation but cannot remember it; and the report must not come from a
  stapled response, which is not always remembered.\<close>

theorem CheckRevocation_revoked_stays:
  assumes "wf_cache (mOCSPCache s0)" and "CertIDHash (cacheEnv sv) cid (mFirstPartyDomain cfg) = Some h"
    and "digest_errors sv"
    and "CheckRevocation_NSS cfg sv eeOrCA cid time du None aia (fold (check_step sv) earlier s0) =
      (Inl ERROR_REVOKED_CERTIFICATE, s)"
    and "\<not> saturated (mOCSPCache s)" and "mFirstPartyDomain cfg' = mFirstPartyDomain cfg"
  shows "fst (CheckRevocation_NSS cfg' sv eeOrCA' cid time' du' None aia' (fold (check_step sv) later s)) =
    Inl ERROR_REVOKED_CERTIFICATE"
proof -
  note wf0 = checks.run_ok [OF assms(1), of sv earlier]
  have "remembers_revoked (mOCSPCache s) h" using CheckRevocation_learns [OF assms(4) wf0 assms(2,3)] assms(5) by blast
  moreover have wf: "wf_cache (mOCSPCache s)" using CheckRevocation_keeps(1) [OF assms(4) wf0] .
  ultimately have "remembers_revoked (mOCSPCache (fold (check_step sv) later s)) h" using checks.run_revoked by blast
  then show ?thesis
    using CheckRevocation_remembered(1) [OF prod.collapse [symmetric] checks.run_ok [OF wf]] assms(2,6) by metis
qed


theorem CheckRevocation_revoked_stays_witness:
  "fst (CheckRevocation_NSS (sample_config NeverFetchOCSP) sample_services MustBeEndEntity sample_cache_id (Time 99)
     (Duration 5) None None (fold (check_step sample_services)
       [Check (sample_config FetchOCSPForDVSoftFail) MustBeCA sample_cache_id (Time 50) (Duration 1) None (Some [1])]
       (checked_state [sample_entry (Inl ERROR_REVOKED_CERTIFICATE)]))) = Inl ERROR_REVOKED_CERTIFICATE"
proof (rule CheckRevocation_revoked_stays [OF sample_wf(1) sample_hash checked_state_wf(2) _ checked_state_wf(1)])
  show "CheckRevocation_NSS (sample_config FetchOCSPForEV) sample_services MustBeEndEntity sample_cache_id (Time 7)
      (Duration 1) None None (fold (check_step sample_services) []
        (sample_state [sample_entry (Inl ERROR_REVOKED_CERTIFICATE)])) =
    (Inl ERROR_REVOKED_CERTIFICATE, checked_state [sample_entry (Inl ERROR_REVOKED_CERTIFICATE)])"
    using sample_cached by simp
  show "mFirstPartyDomain (sample_config NeverFetchOCSP) = mFirstPartyDomain (sample_config FetchOCSPForEV)"
    by (simp add: sample_config_def)
qed

text \<open>The state in which a check without a stapled response looks into the cache.\<close>

definition unstapled :: "EndEntityOrCA \<Rightarrow> domain_state \<Rightarrow> domain_state" where
  "unstapled eeOrCA s =
     (if eeOrCA = MustBeEndEntity then s\<lparr>mOCSPStaplingStatus := OCSP_STAPLING_NONE\<rparr> else s)"

lemma unstapled_frame: "mOCSPCache (unstapled eeOrCA s) = mOCSPCache s" "requestCount (unstapled eeOrCA s) = requestCount s"
  by (simp_all add: unstapled_def)

lemma CheckRevocation_unstapled:
  assumes "CheckCachedResponse cfg sv cid time (unstapled eeOrCA s) = (None, c, t)"
    and "hasArena sv" "\<not> no_fetching cfg eeOrCA du" "mOCSPFetching cfg \<noteq> LocalOnlyOCSPForEV"
    and "OCSPAddress sv aia = Inr (Some url)"
  shows "CheckRevocation_NSS cfg sv eeOrCA cid time du None aia s = AskServer cfg sv eeOrCA cid time url (Inr ()) c t"
  using assms by (auto simp: CheckRevocation_NSS_def CheckStapledResponse_def unstapled_def)

lemma CheckCachedResponse_saturated:
  assumes "CheckCachedResponse cfg sv cid time s = (d, c, t)"
  shows "saturated (mOCSPCache t) \<longleftrightarrow> saturated (mOCSPCache s)"
proof -
  have "mOCSPCache t = snd (Get (cacheEnv sv) (mOCSPCache s) cid (mFirstPartyDomain cfg))"
    using assms by (auto simp: CheckCachedResponse_def Let_def split: prod.splits option.splits if_splits)
  then show ?thesis by (simp add: saturated_Get)
qed

text \<open>C36: A responder that fails is not asked again for five minutes, about the same certificate, if nothing was known of
  it. If the cache has no status of the certificate and has room for one, the configuration lets its responder be asked,
  and the responder fails, the check reports the failure, unless it is configured to tolerate it, and exactly
  one request is sent; repeated as the next check and up to five minutes after, the check has the same result and sends no
  request. (For another certificate the responder is asked; and a status in the cache that is too old stays
  there, so that the failure is not remembered.)\<close>

theorem CheckRevocation_failed_server:
  assumes "CertIDHash (cacheEnv sv) cid (mFirstPartyDomain cfg) = Some h" and "wf_cache (mOCSPCache s)"
    and "statuses (mOCSPCache s) h = None" and "\<not> saturated (mOCSPCache s)"
    and "allocates (cacheEnv sv)" and "appends (cacheEnv sv)" and "hasArena sv"
    and "\<not> no_fetching cfg eeOrCA du" and "mOCSPFetching cfg \<noteq> LocalOnlyOCSPForEV"
    and "OCSPAddress sv aia = Inr (Some url)"
    and "CreateEncodedOCSPRequest (OCSPVerificationTrustDomain cfg sv) cid (replicate OCSP_REQUEST_MAX_LENGTH 0) =
      Inr (req, n)"
    and "DoOCSPRequest cfg sv (requestCount s) url (take n req) = Inl e"
    and "e \<notin> {ERROR_REVOKED_CERTIFICATE, ERROR_OCSP_UNKNOWN_CERT, ERROR_OCSP_OLD_RESPONSE}"
    and "AddSeconds time 300 = Inr timeout" and "time' \<le> timeout"
    and "CheckRevocation_NSS cfg sv eeOrCA cid time du None aia s = (rv, s1)"
    and "CheckRevocation_NSS cfg sv eeOrCA cid time' du None aia s1 = (rv', s2)"
  shows "rv = (if mOCSPFetching cfg = FetchOCSPForDVSoftFail then Inr () else Inl e) \<and> rv' = rv \<and>
    requestCount s1 = requestCount s + 1 \<and> requestCount s2 = requestCount s1"
proof -
  let ?answer = "if mOCSPFetching cfg = FetchOCSPForDVSoftFail then Inr () else Inl e"
  have result: "ResultWithoutResponse cfg (Inr ()) c (Inl e) = ?answer" if "c = Inr () \<or> c = Inl e" for c
    using that assms(13) by (auto simp: ResultWithoutResponse_def)
  obtain d c t where t: "CheckCachedResponse cfg sv cid time (unstapled eeOrCA s) = (d, c, t)"
    by (cases "CheckCachedResponse cfg sv cid time (unstapled eeOrCA s)")
  note ca = CheckCachedResponse [OF t, unfolded unstapled_frame, OF assms(2)]
  have c: "d = None" "c = Inr ()" using ca(4) [OF assms(1)] assms(3) by auto
  have free: "\<not> saturated (mOCSPCache t)"
    using CheckCachedResponse_saturated [OF t] assms(4) by (simp add: unstapled_frame)
  let ?t = "t\<lparr>requestCount := requestCount s + 1\<rparr>"
  obtain putRV u where u: "PutOCSP cfg sv cid (Inl e) time timeout ?t = (putRV, u)"
    by (cases "PutOCSP cfg sv cid (Inl e) time timeout ?t")
  have "statuses (mOCSPCache t) h = None" using ca(2) assms(3) by simp
  note put = Put_unknown [OF ca(1) assms(1) this PutOCSP_frame(1) [OF u, simplified]]
  have ok: "putRV = Inr ()" "wf_cache (mOCSPCache u)" "statuses (mOCSPCache u) h = Some (Inl e, time, timeout)"
    using put free assms(5,6) by (auto simp: saturated_def)
  have "FetchResponse cfg sv cid url (Inr ()) t = Inr (Inl e, [], True, ?t)"
    using assms(11,12) ca(3) by (simp add: FetchResponse_def)
  then have "AskServer cfg sv eeOrCA cid time url (Inr ()) (Inr ()) t = (?answer, u)"
    using assms(14) u ok(1) result by (simp add: AskServer_def GetLength_def ServerFailureDelaySeconds_def)
  then have first: "rv = ?answer" "s1 = u"
    using CheckRevocation_unstapled [OF t [unfolded c] assms(7-10)] assms(16) by auto
  obtain d2 c2 t2 where t2: "CheckCachedResponse cfg sv cid time' (unstapled eeOrCA s1) = (d2, c2, t2)"
    by (cases "CheckCachedResponse cfg sv cid time' (unstapled eeOrCA s1)")
  note ca2 = CheckCachedResponse [OF t2, unfolded unstapled_frame first, OF ok(2)]
  have c2: "d2 = None" "c2 = Inl e" using ca2(4) [OF assms(1)] ok(3) assms(13,15) by (auto simp: not_less [symmetric])
  have "FetchResponse cfg sv cid url (Inl e) t2 = Inr (Inl e, [], False, t2)"
    using assms(13) by (simp add: FetchResponse_def)
  then have "AskServer cfg sv eeOrCA cid time' url (Inr ()) (Inl e) t2 = (?answer, t2)"
    using result by (simp add: AskServer_def GetLength_def)
  then have "rv' = ?answer" "s2 = t2"
    using CheckRevocation_unstapled [OF t2 [unfolded c2] assms(7-10)] assms(17) by auto
  then show ?thesis using first ca2(3) PutOCSP_frame(2) [OF u] by simp
qed

text \<open>The responder at \<open>http:/a\<close> fails with the status 500.\<close>

definition sample_url :: "u8 list" where
  "sample_url = [0x68, 0x74, 0x74, 0x70, 0x3A, 0x61]"

lemma sample_request: "DoOCSPRequest (sample_config f) sample_services n sample_url req = Inl ERROR_OCSP_SERVER_ERROR"
  by (simp add: DoOCSPRequest_def ParseOCSPURL_def sample_url_def sample_services_def sample_config_def url_part_def
      to_lower_ascii_def OCSPRequestPath_def)


lemma sample_encode:
  "\<exists>req n. CreateEncodedOCSPRequest (OCSPVerificationTrustDomain (sample_config f) sample_services) sample_cert_id
     (replicate OCSP_REQUEST_MAX_LENGTH 0) = Inr (req, n)"
proof -
  let ?td = "OCSPVerificationTrustDomain (sample_config f) sample_services"
  have d: "digests_fill_buffer ?td"
    by (auto simp: digests_fill_buffer_def OCSPVerificationTrustDomain_def sample_services_def)
  have k: "KeyHash ?td sample_spki 20 = Inr (replicate 20 0)"
    by (simp add: KeyHash_def request_constants sample_spki_def ExpectTagAndGetValueAtEnd_def
        BitStringWithNoUnusedBits_def ExpectTagAndSkipValue_def eval_pkix OCSPVerificationTrustDomain_def
        sample_services_def cong: bind_res_weak_cong)
  show ?thesis using CreateEncodedOCSPRequest_cases [OF d, of sample_cert_id "replicate OCSP_REQUEST_MAX_LENGTH 0"]
      sample_serial k
    by (auto simp: Let_def OCSPVerificationTrustDomain_def sample_services_def)
qed


lemma sample_cert_hash:
  "CertIDHash (cacheEnv sample_services) sample_cert_id (mFirstPartyDomain (sample_config f)) = Some (replicate 48 0x30)"
  by (simp add: CertIDHash_def digest_input_def DigestLength_def sample_services_def sample_cache_env_def sample_config_def
      SHA384_LENGTH_def word_le_nat_alt)

theorem CheckRevocation_failed_server_witness:
  "\<exists>s1 s2. CheckRevocation_NSS (sample_config FetchOCSPForEV) sample_services MustBeEndEntity sample_cert_id (Time 1000)
      (Duration 31536000) None (Some sample_url) (sample_state []) = (Inl ERROR_OCSP_SERVER_ERROR, s1) \<and>
    CheckRevocation_NSS (sample_config FetchOCSPForEV) sample_services MustBeEndEntity sample_cert_id (Time 1200)
      (Duration 31536000) None (Some sample_url) s1 = (Inl ERROR_OCSP_SERVER_ERROR, s2) \<and> requestCount s2 = 1"
proof -
  let ?cfg = "sample_config FetchOCSPForEV"
  let ?check = "\<lambda>t. CheckRevocation_NSS ?cfg sample_services MustBeEndEntity sample_cert_id (Time t)
    (Duration 31536000) None (Some sample_url)"
  obtain rv s1 where 1: "?check 1000 (sample_state []) = (rv, s1)" by (cases "?check 1000 (sample_state [])")
  obtain rv' s2 where 2: "?check 1200 s1 = (rv', s2)" by (cases "?check 1200 s1")
  obtain req n where req: "CreateEncodedOCSPRequest (OCSPVerificationTrustDomain ?cfg sample_services) sample_cert_id
     (replicate OCSP_REQUEST_MAX_LENGTH 0) = Inr (req, n)" using sample_encode by blast
  have "statuses (mOCSPCache (sample_state [])) (replicate 48 0x30) = None" "\<not> saturated (mOCSPCache (sample_state []))"
    by (simp_all add: sample_state_def statuses_def saturated_def MaxEntries_def)
  moreover have "allocates (cacheEnv sample_services)" "appends (cacheEnv sample_services)" "hasArena sample_services"
    by (simp_all add: sample_services_def sample_cache_env_def)
  moreover have "\<not> no_fetching ?cfg MustBeEndEntity (Duration 31536000)" "mOCSPFetching ?cfg \<noteq> LocalOnlyOCSPForEV"
    by (simp_all add: no_fetching_def sample_config_def less_Duration_def ONE_DAY_IN_SECONDS_def)
  moreover have "OCSPAddress sample_services (Some sample_url) = Inr (Some sample_url)"
    by (simp add: OCSPAddress_def GetOCSPAuthorityInfoAccessLocation_def sample_services_def sample_url_def)
  moreover note req sample_request [of FetchOCSPForEV "requestCount (sample_state [])" "take n req"]
  moreover have "ERROR_OCSP_SERVER_ERROR \<notin> {ERROR_REVOKED_CERTIFICATE, ERROR_OCSP_UNKNOWN_CERT, ERROR_OCSP_OLD_RESPONSE}"
    by simp
  moreover have "AddSeconds (Time 1000) 300 = Inr (Time 1300)" "Time 1200 \<le> Time 1300"
    by (simp_all add: AddSeconds_def less_eq_Time_def)
  ultimately have "rv = Inl ERROR_OCSP_SERVER_ERROR \<and> rv' = rv \<and>
      requestCount s1 = requestCount (sample_state []) + 1 \<and> requestCount s2 = requestCount s1"
    using CheckRevocation_failed_server [OF sample_cert_hash sample_wf(2) _ _ _ _ _ _ _ _ _ _ _ _ _ 1 2]
    by (simp add: sample_config_def)
  then show ?thesis using 1 2 by (simp add: sample_state_def)
qed

end
