(* ===== verification/PsmSamples.thy ===== *)
theory PsmSamples
  imports PsmCertVerifier PkixSearch PkixPath PsmRevocationSound
begin

text \<open>
  A server certificate for extended validation and its root, with keys on the curve P-256, and a database that
  trusts the root, for the theories that apply their results at a concrete input. The OCSP cache remembers the
  revocation of another certificate.
\<close>

text \<open>The identifier for OCSP of a certificate of a path, with the certificate of its issuer.\<close>

definition ocsp_id :: "BackCert \<Rightarrow> BackCert \<Rightarrow> CertID" where
  "ocsp_id c i = \<lparr>issuer = bc_issuer c, issuerSubjectPublicKeyInfo = subjectPublicKeyInfo i, serialNumber = bc_serialNumber c\<rparr>"

section \<open>Certificates\<close>

definition server_spki :: Input where
  "server_spki =
    [0x30, 0x59, 0x30, 0x13, 0x06, 0x07, 0x2A, 0x86, 0x48, 0xCE, 0x3D, 0x02, 0x01, 0x06, 0x08,
     0x2A, 0x86, 0x48, 0xCE, 0x3D, 0x03, 0x01, 0x07, 0x03, 0x42, 0x00, 0x04, 0x01, 0x01, 0x01,
     0x01, 0x01, 0x01, 0x01, 0x01, 0x01, 0x01, 0x01, 0x01, 0x01, 0x01, 0x01, 0x01, 0x01, 0x01,
     0x01, 0x01, 0x01, 0x01, 0x01, 0x01, 0x01, 0x01, 0x01, 0x01, 0x01, 0x01, 0x01, 0x01, 0x01,
     0x01, 0x01, 0x01, 0x01, 0x01, 0x01, 0x01, 0x01, 0x01, 0x01, 0x01, 0x01, 0x01, 0x01, 0x01,
     0x01, 0x01, 0x01, 0x01, 0x01, 0x01, 0x01, 0x01, 0x01, 0x01, 0x01, 0x01, 0x01, 0x01, 0x01,
     0x01]"

definition server_algorithm :: Input where
  "server_algorithm = [0x06, 0x08, 0x2A, 0x86, 0x48, 0xCE, 0x3D, 0x04, 0x03, 0x02]"

definition server_validity :: Input where
  "server_validity =
    [0x17, 0x0D, 0x31, 0x35, 0x30, 0x31, 0x30, 0x31, 0x30, 0x30, 0x30, 0x30, 0x30, 0x30, 0x5A,
     0x17, 0x0D, 0x31, 0x37, 0x30, 0x31, 0x30, 0x31, 0x30, 0x30, 0x30, 0x30, 0x30, 0x30, 0x5A]"

text \<open>The policy of the CA/Browser Forum for EV.\<close>

definition server_policies :: Input where
  "server_policies = [0x30, 0x09, 0x30, 0x07, 0x06, 0x05, 0x67, 0x81, 0x0C, 0x01, 0x01]"

definition server_tbs :: Input where
  "server_tbs =
    [0x30, 0x81, 0xC3, 0xA0, 0x03, 0x02, 0x01, 0x02, 0x02, 0x01, 0x07, 0x30, 0x0A, 0x06, 0x08,
     0x2A, 0x86, 0x48, 0xCE, 0x3D, 0x04, 0x03, 0x02, 0x30, 0x0C, 0x31, 0x0A, 0x30, 0x08, 0x06,
     0x03, 0x55, 0x04, 0x03, 0x13, 0x01, 0x52, 0x30, 0x1E, 0x17, 0x0D, 0x31, 0x35, 0x30, 0x31,
     0x30, 0x31, 0x30, 0x30, 0x30, 0x30, 0x30, 0x30, 0x5A, 0x17, 0x0D, 0x31, 0x37, 0x30, 0x31,
     0x30, 0x31, 0x30, 0x30, 0x30, 0x30, 0x30, 0x30, 0x5A, 0x30, 0x0C, 0x31, 0x0A, 0x30, 0x08,
     0x06, 0x03, 0x55, 0x04, 0x03, 0x13, 0x01, 0x4C, 0x30, 0x59, 0x30, 0x13, 0x06, 0x07, 0x2A,
     0x86, 0x48, 0xCE, 0x3D, 0x02, 0x01, 0x06, 0x08, 0x2A, 0x86, 0x48, 0xCE, 0x3D, 0x03, 0x01,
     0x07, 0x03, 0x42, 0x00, 0x04, 0x01, 0x01, 0x01, 0x01, 0x01, 0x01, 0x01, 0x01, 0x01, 0x01,
     0x01, 0x01, 0x01, 0x01, 0x01, 0x01, 0x01, 0x01, 0x01, 0x01, 0x01, 0x01, 0x01, 0x01, 0x01,
     0x01, 0x01, 0x01, 0x01, 0x01, 0x01, 0x01, 0x01, 0x01, 0x01, 0x01, 0x01, 0x01, 0x01, 0x01,
     0x01, 0x01, 0x01, 0x01, 0x01, 0x01, 0x01, 0x01, 0x01, 0x01, 0x01, 0x01, 0x01, 0x01, 0x01,
     0x01, 0x01, 0x01, 0x01, 0x01, 0x01, 0x01, 0x01, 0x01, 0xA3, 0x16, 0x30, 0x14, 0x30, 0x12,
     0x06, 0x03, 0x55, 0x1D, 0x20, 0x04, 0x0B, 0x30, 0x09, 0x30, 0x07, 0x06, 0x05, 0x67, 0x81,
     0x0C, 0x01, 0x01]"

definition server_der :: Input where
  "server_der =
    [0x30, 0x81, 0xD6, 0x30, 0x81, 0xC3, 0xA0, 0x03, 0x02, 0x01, 0x02, 0x02, 0x01, 0x07, 0x30,
     0x0A, 0x06, 0x08, 0x2A, 0x86, 0x48, 0xCE, 0x3D, 0x04, 0x03, 0x02, 0x30, 0x0C, 0x31, 0x0A,
     0x30, 0x08, 0x06, 0x03, 0x55, 0x04, 0x03, 0x13, 0x01, 0x52, 0x30, 0x1E, 0x17, 0x0D, 0x31,
     0x35, 0x30, 0x31, 0x30, 0x31, 0x30, 0x30, 0x30, 0x30, 0x30, 0x30, 0x5A, 0x17, 0x0D, 0x31,
     0x37, 0x30, 0x31, 0x30, 0x31, 0x30, 0x30, 0x30, 0x30, 0x30, 0x30, 0x5A, 0x30, 0x0C, 0x31,
     0x0A, 0x30, 0x08, 0x06, 0x03, 0x55, 0x04, 0x03, 0x13, 0x01, 0x4C, 0x30, 0x59, 0x30, 0x13,
     0x06, 0x07, 0x2A, 0x86, 0x48, 0xCE, 0x3D, 0x02, 0x01, 0x06, 0x08, 0x2A, 0x86, 0x48, 0xCE,
     0x3D, 0x03, 0x01, 0x07, 0x03, 0x42, 0x00, 0x04, 0x01, 0x01, 0x01, 0x01, 0x01, 0x01, 0x01,
     0x01, 0x01, 0x01, 0x01, 0x01, 0x01, 0x01, 0x01, 0x01, 0x01, 0x01, 0x01, 0x01, 0x01, 0x01,
     0x01, 0x01, 0x01, 0x01, 0x01, 0x01, 0x01, 0x01, 0x01, 0x01, 0x01, 0x01, 0x01, 0x01, 0x01,
     0x01, 0x01, 0x01, 0x01, 0x01, 0x01, 0x01, 0x01, 0x01, 0x01, 0x01, 0x01, 0x01, 0x01, 0x01,
     0x01, 0x01, 0x01, 0x01, 0x01, 0x01, 0x01, 0x01, 0x01, 0x01, 0x01, 0x01, 0xA3, 0x16, 0x30,
     0x14, 0x30, 0x12, 0x06, 0x03, 0x55, 0x1D, 0x20, 0x04, 0x0B, 0x30, 0x09, 0x30, 0x07, 0x06,
     0x05, 0x67, 0x81, 0x0C, 0x01, 0x01, 0x30, 0x0A, 0x06, 0x08, 0x2A, 0x86, 0x48, 0xCE, 0x3D,
     0x04, 0x03, 0x02, 0x03, 0x02, 0x00, 0x01]"

definition ca_tbs :: Input where
  "ca_tbs =
    [0x30, 0x81, 0xC0, 0xA0, 0x03, 0x02, 0x01, 0x02, 0x02, 0x01, 0x01, 0x30, 0x0D, 0x06, 0x09,
     0x2A, 0x86, 0x48, 0x86, 0xF7, 0x0D, 0x01, 0x01, 0x0B, 0x05, 0x00, 0x30, 0x0C, 0x31, 0x0A,
     0x30, 0x08, 0x06, 0x03, 0x55, 0x04, 0x03, 0x13, 0x01, 0x52, 0x30, 0x1E, 0x17, 0x0D, 0x31,
     0x35, 0x30, 0x31, 0x30, 0x31, 0x30, 0x30, 0x30, 0x30, 0x30, 0x30, 0x5A, 0x17, 0x0D, 0x33,
     0x35, 0x30, 0x31, 0x30, 0x31, 0x30, 0x30, 0x30, 0x30, 0x30, 0x30, 0x5A, 0x30, 0x0C, 0x31,
     0x0A, 0x30, 0x08, 0x06, 0x03, 0x55, 0x04, 0x03, 0x13, 0x01, 0x52, 0x30, 0x59, 0x30, 0x13,
     0x06, 0x07, 0x2A, 0x86, 0x48, 0xCE, 0x3D, 0x02, 0x01, 0x06, 0x08, 0x2A, 0x86, 0x48, 0xCE,
     0x3D, 0x03, 0x01, 0x07, 0x03, 0x42, 0x00, 0x04, 0x01, 0x01, 0x01, 0x01, 0x01, 0x01, 0x01,
     0x01, 0x01, 0x01, 0x01, 0x01, 0x01, 0x01, 0x01, 0x01, 0x01, 0x01, 0x01, 0x01, 0x01, 0x01,
     0x01, 0x01, 0x01, 0x01, 0x01, 0x01, 0x01, 0x01, 0x01, 0x01, 0x01, 0x01, 0x01, 0x01, 0x01,
     0x01, 0x01, 0x01, 0x01, 0x01, 0x01, 0x01, 0x01, 0x01, 0x01, 0x01, 0x01, 0x01, 0x01, 0x01,
     0x01, 0x01, 0x01, 0x01, 0x01, 0x01, 0x01, 0x01, 0x01, 0x01, 0x01, 0x01, 0xA3, 0x10, 0x30,
     0x0E, 0x30, 0x0C, 0x06, 0x03, 0x55, 0x1D, 0x13, 0x04, 0x05, 0x30, 0x03, 0x01, 0x01, 0xFF]"

definition ca_der :: Input where
  "ca_der =
    [0x30, 0x81, 0xD6, 0x30, 0x81, 0xC0, 0xA0, 0x03, 0x02, 0x01, 0x02, 0x02, 0x01, 0x01, 0x30,
     0x0D, 0x06, 0x09, 0x2A, 0x86, 0x48, 0x86, 0xF7, 0x0D, 0x01, 0x01, 0x0B, 0x05, 0x00, 0x30,
     0x0C, 0x31, 0x0A, 0x30, 0x08, 0x06, 0x03, 0x55, 0x04, 0x03, 0x13, 0x01, 0x52, 0x30, 0x1E,
     0x17, 0x0D, 0x31, 0x35, 0x30, 0x31, 0x30, 0x31, 0x30, 0x30, 0x30, 0x30, 0x30, 0x30, 0x5A,
     0x17, 0x0D, 0x33, 0x35, 0x30, 0x31, 0x30, 0x31, 0x30, 0x30, 0x30, 0x30, 0x30, 0x30, 0x5A,
     0x30, 0x0C, 0x31, 0x0A, 0x30, 0x08, 0x06, 0x03, 0x55, 0x04, 0x03, 0x13, 0x01, 0x52, 0x30,
     0x59, 0x30, 0x13, 0x06, 0x07, 0x2A, 0x86, 0x48, 0xCE, 0x3D, 0x02, 0x01, 0x06, 0x08, 0x2A,
     0x86, 0x48, 0xCE, 0x3D, 0x03, 0x01, 0x07, 0x03, 0x42, 0x00, 0x04, 0x01, 0x01, 0x01, 0x01,
     0x01, 0x01, 0x01, 0x01, 0x01, 0x01, 0x01, 0x01, 0x01, 0x01, 0x01, 0x01, 0x01, 0x01, 0x01,
     0x01, 0x01, 0x01, 0x01, 0x01, 0x01, 0x01, 0x01, 0x01, 0x01, 0x01, 0x01, 0x01, 0x01, 0x01,
     0x01, 0x01, 0x01, 0x01, 0x01, 0x01, 0x01, 0x01, 0x01, 0x01, 0x01, 0x01, 0x01, 0x01, 0x01,
     0x01, 0x01, 0x01, 0x01, 0x01, 0x01, 0x01, 0x01, 0x01, 0x01, 0x01, 0x01, 0x01, 0x01, 0x01,
     0xA3, 0x10, 0x30, 0x0E, 0x30, 0x0C, 0x06, 0x03, 0x55, 0x1D, 0x13, 0x04, 0x05, 0x30, 0x03,
     0x01, 0x01, 0xFF, 0x30, 0x0D, 0x06, 0x09, 0x2A, 0x86, 0x48, 0x86, 0xF7, 0x0D, 0x01, 0x01,
     0x0B, 0x05, 0x00, 0x03, 0x02, 0x00, 0x01]"

definition server_cert :: BackCert where
  "server_cert = leaf_cert\<lparr>bc_der := server_der,
     signedData := \<lparr>sds_data = server_tbs, sds_algorithm = server_algorithm, sds_signature = [1]\<rparr>,
     signature := server_algorithm, validity := server_validity, subjectPublicKeyInfo := server_spki,
     certificatePolicies := Some server_policies\<rparr>"

definition ca_cert :: BackCert where
  "ca_cert = root_cert\<lparr>bc_der := ca_der,
     signedData := (signedData root_cert)\<lparr>sds_data := ca_tbs\<rparr>, subjectPublicKeyInfo := server_spki\<rparr>"

lemmas eval_server = server_spki_def server_validity_def server_policies_def server_algorithm_def server_tbs_def server_der_def ca_tbs_def ca_der_def

lemma server_cert_init: "BackCert_Init server_der MustBeEndEntity = Inr server_cert"
  by (simp add: server_cert_def leaf_cert_def eval_server eval_pkix cong: bind_res_weak_cong)

lemma ca_cert_init: "BackCert_Init ca_der MustBeCA = Inr ca_cert"
  by (simp add: ca_cert_def root_cert_def eval_server eval_pkix cong: bind_res_weak_cong)

section \<open>The database and the verifier\<close>

definition verifier_services :: services where
  "verifier_services = sample_services
     \<lparr>getCertTrust := \<lambda>der. if der = ca_der then Some \<lparr>TRUSTED = False, TRUSTED_CA = True, TERMINAL_RECORD = False\<rparr> else None,
      subjectCertList := \<lambda>_. Some [(True, ca_der)],
      constructCertList := \<lambda>ders. Inr (map (\<lambda>der. \<lparr>derSubject = [], notBefore_PRTime = Some 0, derCert = der,
         derPublicKey = server_spki, builtInRoot = Inr False\<rparr>) (rev ders))\<rparr>"

definition sample_verifier :: CertVerifier where
  "sample_verifier =
     \<lparr>cv_OCSPDownloadConfig = ocspOff, cv_OCSPStrict = False, cv_OCSPGETEnabled = False, cv_CertShortLifetimeInDays = 1000,
      cv_PinningMode = pinningAllowUserCAMITM, cv_SHA1Mode = ImportedRoot, cv_NameMatchingMode = Enforce,
      cv_NetscapeStepUpPolicy = NeverMatch, cv_CTMode = CT_Disabled, cv_CTLogs = []\<rparr>"

definition sample_ev_policy :: CertPolicyId where
  "sample_ev_policy = \<lparr>numBytes = 5, policy_bytes = [0x67, 0x81, 0x0C, 0x01, 0x01] @ replicate 19 0\<rparr>"

definition sample_env :: verifier_env where
  "sample_env =
     \<lparr>env_services = verifier_services,
      env_ev = \<lparr>myTrustedEVInfos = [\<lparr>oid_tag = 8, ev_root_sha256_fingerprint = replicate 32 0\<rparr>], sCABForumEVOIDTag = 7,
                FindOIDByTag = (\<lambda>tag. if tag = 7 then Some [0x67, 0x81, 0x0C, 0x01, 0x01] else None),
                sha256_of = (\<lambda>_. Some (replicate 32 0)), policiesExtensions = (\<lambda>_. [None, Some [3, 7]])\<rparr>,
      env_ct = \<lparr>ct_mem = 1000, ct_vector = 1000, ct_digestBuf = \<lambda>_ _ n. Inr (replicate n 0), ct_verifyRSA = \<lambda>_ _. Inr (),
                ct_verifyECDSA = \<lambda>_ _. Inr ()\<rparr>,
      env_evPolicy = \<lparr>numBytes = 0, policy_bytes = replicate 24 0\<rparr>, env_ipv6 = replicate 16 0\<rparr>"

definition sample_args :: verify_args where
  "sample_args =
     \<lparr>va_time = sample_time, va_hostname = Some ''L'', va_flags = FLAG_MUST_BE_EV, va_stapled = None, va_sctsFromTLS = None,
      va_firstPartyDomain = []\<rparr>"

text \<open>The cache remembers the revocation of some other certificate.\<close>

definition remembered :: Entry where
  "remembered = (sample_entry (Inl ERROR_REVOKED_CERTIFICATE))\<lparr>mIDHash := replicate 48 0x31\<rparr>"

lemma remembered_revoked:
  "wf_cache (mOCSPCache (sample_state [remembered]))"
  "remembers_revoked (mOCSPCache (sample_state [remembered])) (replicate 48 0x31)"
  by (simp_all add: sample_state_def wf_cache_def MaxEntries_def remembers_revoked_def statuses_def entry_status_def
      remembered_def sample_entry_def)

definition sample_verify_state :: verify_state where
  "sample_verify_state =
     \<lparr>vs_domain = sample_state [remembered], vs_builtChain = None, vs_evOidPolicy = Some SEC_OID_UNKNOWN,
      vs_ocspStaplingStatus = None, vs_keySizeStatus = Some KeySize_NeverChecked, vs_sha1ModeResult = None,
      vs_ctInfo = None\<rparr>"

abbreviation sample_sv :: services where
  "sample_sv \<equiv> domain_services sample_env"

abbreviation sample_cfg :: NSSCertDBTrustDomain where
  "sample_cfg \<equiv> EVConfiguration sample_verifier sample_args SHA1_Forbidden"

abbreviation server_domain :: "domain_state \<Rightarrow> TrustDomain" where
  "server_domain \<equiv> NSS_TrustDomain sample_cfg sample_sv"

lemmas server_config = EVConfiguration_def domain_config_def sample_verifier_def sample_args_def evOCSPFetching_def

lemmas server_services = domain_services_def sample_env_def verifier_services_def sample_services_def

lemma server_domain_simps [simp]:
  "FindIssuer (server_domain d) name time = ([(ca_der, None)], Inr ())"
  "CheckSignatureDigestAlgorithm (server_domain d) sha256 e t = Inr ()"
  "VerifyECDSASignedDigest (server_domain d) sd spki = Inr ()"
  "CheckECDSACurveIsAcceptable (server_domain d) e secp256r1 = Inr ()"
  "CheckValidityIsAcceptable (server_domain d) notBefore notAfter MustBeCA eku = Inr ()"
  "CheckValidityIsAcceptable (server_domain d) (Time 63555667200) (Time 63618825600) e eku = Inr ()"
  "DigestBuf (server_domain d) i alg n = Inr (replicate n 0)"
  "GetCertTrust (server_domain d) e sample_ev_policy der = (Inr (), if der = ca_der then TrustAnchor else InheritsTrust)"
  by (simp_all add: NSS_TrustDomain_def server_services server_config FindIssuer_NSS_def ca_der_def
      CheckSignatureDigestAlgorithm_NSS_def CheckECDSACurveIsAcceptable_NSS_def CheckValidityIsAcceptable_NSS_def
      GetCertTrust_NSS_def Let_def MAX_INPUT_def sample_ev_policy_def CertIsAuthoritativeForEVPolicy_def is_policy_def
      Duration_between_def DURATION_27_MONTHS_PLUS_SLOP_def ONE_DAY_IN_SECONDS_def less_Duration_def less_Time_def)

section \<open>The checks\<close>

lemma server_cert_fields:
  "bc_der server_cert = server_der" "endEntityOrCA server_cert = MustBeEndEntity" "GetKeyUsage server_cert = None"
  "GetBasicConstraints server_cert = None" "GetExtKeyUsage server_cert = None" "GetCertificatePolicies server_cert = Some server_policies"
  "GetInhibitAnyPolicy server_cert = None"
  "GetSignedCertificateTimestamps server_cert = None" "GetAuthorityInfoAccess server_cert = None"
  "GetRequiredTLSFeatures server_cert = None" "GetSubjectAltName server_cert = None"
  "subject server_cert = subject leaf_cert" "bc_issuer server_cert = bc_issuer leaf_cert"
  "validity server_cert = server_validity" "signature server_cert = server_algorithm"
  "subjectPublicKeyInfo server_cert = server_spki" "bc_serialNumber server_cert = [7]"
  by (simp_all add: server_cert_def leaf_cert_def eval_getters GetLength_def server_policies_def)

lemma ca_cert_fields:
  "bc_der ca_cert = ca_der" "endEntityOrCA ca_cert = MustBeCA" "GetKeyUsage ca_cert = None"
  "GetBasicConstraints ca_cert = Some [0x30, 0x03, 0x01, 0x01, 0xFF]" "GetExtKeyUsage ca_cert = None"
  "GetCertificatePolicies ca_cert = None" "GetInhibitAnyPolicy ca_cert = None" "GetNameConstraints ca_cert = None" "GetRequiredTLSFeatures ca_cert = None"
  "subject ca_cert = subject root_cert" "bc_issuer ca_cert = bc_issuer root_cert"
  "validity ca_cert = validity root_cert" "subjectPublicKeyInfo ca_cert = server_spki"
  by (simp_all add: ca_cert_def root_cert_def eval_getters GetLength_def)

lemma server_spki_accepted: "CheckSubjectPublicKeyInfo server_spki (server_domain d) e = Inr ()"
  by (simp add: server_spki_def eval_spki eval_pkix select_curve_def secp256r1_oid_def cong: bind_res_weak_cong)

lemma server_signature:
  "CheckSignatureAlgorithm (server_domain d) e t (signedData server_cert) (signature server_cert) = Inr ()"
  by (simp add: server_cert_def leaf_cert_def eval_server eval_signature ecdsa_with_SHA256_def eval_pkix cong: bind_res_weak_cong)

lemma server_digest:
  "DigestSignedData (server_domain d) (signedData server_cert) =
     Inr (ECDSA, \<lparr>sd_digest = replicate 32 0, sd_digestAlgorithm = sha256, sd_signature = [1]\<rparr>)"
  by (simp add: server_cert_def leaf_cert_def DigestSignedData_def eval_server eval_signature ecdsa_with_SHA256_def eval_pkix cong: bind_res_weak_cong)

lemma server_validity_read: "ParseValidity server_validity = Inr (Time 63555667200, Time 63618825600)"
  by (simp add: server_validity_def ParseValidity_def eval_pkix eval_time less_Time_def cong: bind_res_weak_cong)

lemma sample_policy_accepted:
  "CheckCertificatePolicies MustBeEndEntity (Some server_policies) None InheritsTrust sample_ev_policy = Inr ()"
  "CheckCertificatePolicies MustBeCA None None TrustAnchor sample_ev_policy = Inr ()"
proof -
  have "SearchPolicies MustBeEndEntity [0x67, 0x81, 0x0C, 0x01, 0x01] (Some server_policies) False = Inr True"
    by (simp add: SearchPolicies_def CheckPolicies_loop.simps MatchPolicy_def server_policies_def eval_pkix
        cong: bind_res_weak_cong)
  then show "CheckCertificatePolicies MustBeEndEntity (Some server_policies) None InheritsTrust sample_ev_policy = Inr ()"
    by (simp add: CheckCertificatePolicies_def sample_ev_policy_def IsAnyPolicy_def anyPolicy_def
        CertPolicyId_MAX_BYTES_def MAX_INPUT_def)
  show "CheckCertificatePolicies MustBeCA None None TrustAnchor sample_ev_policy = Inr ()"
    by (simp add: CheckCertificatePolicies_def sample_ev_policy_def IsAnyPolicy_def anyPolicy_def
        CertPolicyId_MAX_BYTES_def MAX_INPUT_def SearchPolicies_def)
qed

lemma server_properties:
  "CheckIssuerIndependentProperties (server_domain d) server_cert sample_time digitalSignature id_kp_serverAuth
     sample_ev_policy n = (Inr (), InheritsTrust)"
proof -
  have "server_der \<noteq> ca_der" by (simp add: eval_server)
  then show ?thesis
    by (simp add: CheckIssuerIndependentProperties_def CheckCertificateContents_def Let_def server_cert_fields
        server_validity_read server_spki_accepted server_signature [simplified server_cert_fields] sample_issuer
        sample_policy_accepted CheckTrustedSignature_def AdjustTrustLevel_def CheckKeyUsage_def CheckBasicConstraints_def
        GetBasicConstraintsValue_def CheckExtendedKeyUsage_def SearchEKU_def CheckValidity_def sample_time_def
        less_Time_def cong: bind_res_weak_cong)
qed

lemma ca_properties:
  "CheckIssuerIndependentProperties (server_domain d) ca_cert sample_time keyCertSign id_kp_serverAuth
     sample_ev_policy n = (Inr (), TrustAnchor)"
  by (simp add: CheckIssuerIndependentProperties_def CheckCertificateContents_def Let_def ca_cert_fields
      root_cert_validity server_spki_accepted sample_issuer sample_policy_accepted root_cert_constraints
      CheckTrustedSignature_def AdjustTrustLevel_def CheckKeyUsage_def CheckExtendedKeyUsage_def
      SearchEKU_def CheckValidity_def sample_time_def less_Time_def cong: bind_res_weak_cong)

section \<open>The search\<close>

definition server_chain :: "CERTCertificate list" where
  "server_chain = map (\<lambda>der. \<lparr>derSubject = [], notBefore_PRTime = Some 0, derCert = der,
     derPublicKey = server_spki, builtInRoot = Inr False\<rparr>) [server_der, ca_der]"

lemma server_chain_valid: "IsChainValid_NSS sample_cfg sample_sv [ca_der, server_der] t = Inr server_chain"
  by (simp add: IsChainValid_NSS_def server_services server_config server_chain_def CheckForStartComOrWoSign_def
      OCTOBER_21_2016_def CheckCNNICWhitelist_def CNNIC_ROOT_CA_SUBJECT_DATA_def CNNIC_EV_ROOT_CA_SUBJECT_DATA_def
      CheckPins_def del: One_nat_def)

lemma server_hash:
  "CertIDHash (cacheEnv sample_sv) (ocsp_id server_cert ca_cert) [] = Some (replicate 48 0x30)"
  by (simp add: CertIDHash_def digest_input_def DigestLength_def ocsp_id_def server_cert_fields ca_cert_fields
      leaf_cert_def server_services sample_cache_env_def SHA384_LENGTH_def word_le_nat_alt)

lemma server_not_cached:
  "Get (cacheEnv sample_sv) [remembered] (ocsp_id server_cert ca_cert) [] = (None, [remembered])"
  by (simp add: Get_def FindInternal_def server_hash) (simp add: remembered_def)

lemma server_not_revoked:
  "CheckRevocation_NSS sample_cfg sample_sv MustBeEndEntity (ocsp_id server_cert ca_cert) t
     (Duration_between (Time 63618825600) (Time 63555667200)) None aia (sample_state [remembered]) =
     (Inr (), checked_state [remembered])"
proof -
  have "mFirstPartyDomain sample_cfg = []" by (simp add: server_config)
  then have "CheckCachedResponse sample_cfg sample_sv (ocsp_id server_cert ca_cert) t (checked_state [remembered]) =
      (None, Inr (), checked_state [remembered])"
    by (simp add: CheckCachedResponse_def checked_state_def sample_state_def server_not_cached Let_def
        split: option.splits)
  then show ?thesis
    by (simp add: CheckRevocation_NSS_def CheckStapledResponse_def checked_state_def [symmetric] no_fetching_def
        ResultWithoutFetching_def)
      (simp add: server_config Duration_between_def ONE_DAY_IN_SECONDS_def less_Duration_def less_Time_def)
qed

abbreviation server_found :: td_event where
  "server_found \<equiv> IsChainValid_called [ca_der, server_der] sample_time"

definition server_asked :: td_event where
  "server_asked = CheckRevocation_called MustBeEndEntity (ocsp_id server_cert ca_cert) sample_time
     (Duration_between (Time 63618825600) (Time 63555667200)) None None"

lemma server_answers:
  "IsChainValid (server_domain (sample_state [remembered])) ev [ca_der, server_der] t = Inr ()"
  "CheckRevocation (server_domain (sample_state [remembered])) [server_found] MustBeEndEntity
     (ocsp_id server_cert ca_cert) t (Duration_between (Time 63618825600) (Time 63555667200)) None aia = Inr ()"
  by (simp_all add: NSS_TrustDomain_def server_chain_valid after_calls_def server_not_revoked)

lemma server_candidate:
  "CheckCandidate (path_step td sample_time id_kp_serverAuth sample_ev_policy server_cert [] None n d)
     ca_der None = Candidate_Accepted ca_cert"
proof -
  have "InputsAreEqual (subject root_cert) (bc_issuer leaf_cert)"
    by (simp add: root_cert_def leaf_cert_def InputsAreEqual_def)
  moreover have "\<not> InputsAreEqual (subject root_cert) (subject leaf_cert)"
    by (simp add: root_cert_def leaf_cert_def InputsAreEqual_def GetLength_def)
  ultimately show ?thesis
    by (simp add: CheckCandidate_def path_step_def ca_cert_init CheckPotentialIssuer_def Let_def
        same_key_and_name_def CheckOptionalNameConstraints_def ca_cert_fields server_cert_fields CheckTLSFeatures_def
        fail_if_def)
qed

lemma server_build:
  "BuildCertChain (server_domain (sample_state [remembered])) server_der sample_time MustBeEndEntity digitalSignature
     id_kp_serverAuth sample_ev_policy None [] = (Inr (), [server_found, server_asked])"
proof -
  let ?td = "server_domain (sample_state [remembered])"
  let ?p = "path_step ?td sample_time id_kp_serverAuth sample_ev_policy server_cert [] None 0 (Inr ())"
  have der: "length ca_der \<le> MAX_INPUT" "length server_der \<le> MAX_INPUT"
    by (simp_all add: eval_server MAX_INPUT_def)
  have root: "BuildForward ?td ca_cert [server_cert] sample_time keyCertSign id_kp_serverAuth sample_ev_policy None 0 [] =
      (Inr (), [server_found])"
    using der by (simp add: BuildForward.simps ca_properties DeferError_def AcceptTrustAnchor_def
        DERArray_Append_def NonOwningDERArray_MAX_LENGTH_def ca_cert_fields server_cert_fields server_answers)
  have issued: "\<exists>s. CheckIssuedBy ?p ca_cert initial_step_state [server_found] =
      (Inr False, s, [server_found, server_asked]) \<and> CheckResult s = Inr ()"
    by (simp add: CheckIssuedBy_def GetSubjectSignature_def initial_step_state_def path_step_def
        server_digest VerifySignedDigest_def CheckSubjectRevocation_def server_validity_read Let_def
        NoteEmbeddedSCTs_def server_cert_fields ca_cert_fields RecordResult_def issuer_error_def CheckResult_def
        server_answers [unfolded ocsp_id_def server_cert_fields ca_cert_fields] server_asked_def ocsp_id_def)
  have "\<exists>s. FindIssuer_loop ?p [(ca_der, None)] (Inr ()) initial_step_state [] =
      (Inr (), s, [server_found, server_asked]) \<and> CheckResult s = Inr ()"
  proof -
    obtain s where i: "CheckIssuedBy ?p ca_cert initial_step_state [server_found] =
      (Inr False, s, [server_found, server_asked])" "CheckResult s = Inr ()" using issued by blast
    have "PkixBuild.Check ?p ca_der None initial_step_state [] = (Inr False, s, [server_found, server_asked])"
      using root i(1) by (simp add: PkixBuild.Check.simps server_candidate)
    then show ?thesis using i(2) by (simp add: FindIssuer_loop.simps)
  qed
  then show ?thesis
    by (auto simp: BuildCertChain_def server_cert_init BuildForward.simps [of _ server_cert]
        server_properties DeferError_def NextSubCACount_def server_cert_fields path_step_def)
qed

section \<open>The verification\<close>

definition verified_state :: verify_state where
  "verified_state =
     \<lparr>vs_domain = checked_state [remembered], vs_builtChain = Some server_chain, vs_evOidPolicy = Some 7,
      vs_ocspStaplingStatus = None, vs_keySizeStatus = Some KeySize_NeverChecked, vs_sha1ModeResult = None,
      vs_ctInfo = None\<rparr>"

abbreviation server_certificate :: CERTCertificate where
  "server_certificate \<equiv> hd server_chain"

lemma server_configuration:
  "TryConfiguration sample_verifier sample_env sample_args sample_cfg server_der sample_ev_policy None []
     (note_EV 7 SucceededWithoutSHA1) sample_verify_state = (Inr (), False, verified_state)"
proof -
  have reset: "ResetAccumulatedState (sample_state [remembered]) = sample_state [remembered]"
    by (simp add: ResetAccumulatedState_def sample_state_def)
  have reset': "reset_domain sample_verify_state = sample_verify_state"
    by (simp add: reset_domain_def sample_verify_state_def reset)
  have "BuildCertChain_NSS sample_cfg sample_sv server_der sample_time MustBeEndEntity digitalSignature
      id_kp_serverAuth sample_ev_policy None sample_verify_state =
      (Inr (), sample_verify_state\<lparr>vs_domain := checked_state [remembered], vs_builtChain := Some server_chain\<rparr>)"
    by (simp add: BuildCertChain_NSS_def sample_verify_state_def server_build after_calls_def server_chain_valid
        server_asked_def server_not_revoked)
  then have "BuildCertChainForOneKeyUsage sample_cfg sample_sv server_der sample_time digitalSignature keyEncipherment
      keyAgreement id_kp_serverAuth sample_ev_policy None sample_verify_state =
      (Inr (), sample_verify_state\<lparr>vs_domain := checked_state [remembered], vs_builtChain := Some server_chain\<rparr>)"
    by (simp add: BuildCertChainForOneKeyUsage_def reset' Let_def) (simp add: sample_verify_state_def)
  moreover have "va_time sample_args = sample_time" "mSHA1Mode sample_cfg = SHA1_Forbidden"
    by (simp_all add: server_config)
  ultimately show ?thesis
    by (simp add: TryConfiguration_def reset' VerifySignedCertificateTimestamps_def Let_def)
      (simp add: sample_verifier_def sample_verify_state_def verified_state_def note_EV_def)
qed

lemma server_hostname:
  "CheckCertHostname (replicate 16 0) server_der [0x4C] (BRNameMatchingPolicy DoNotEnforce) = Inr ()"
proof -
  have "NestedOf (Reader_of (subject leaf_cert)) SEQUENCE SET EmptyAllowed_Yes
      (SearchWithinRDN GN_dNSName [0x4C] FallBack_No FallBack_Yes) NoNamesOfGivenType =
      Inr (Match, advance 14 (Reader_of (subject leaf_cert)))"
    by (simp add: leaf_rdn leaf_subject_bytes advance_def eval_pkix)
  then show ?thesis
    by (simp add: CheckCertHostname_def server_cert_init server_validity_read server_cert_fields leaf_host
        BRNameMatchingPolicy_def FallBackToCommonName_BR_def SearchNames_def SearchAltNames_def SearchSubject_def
        del: tag_values cong: bind_res_weak_cong)
qed

lemma server_certificate_der: "derCert server_certificate = server_der" "builtInRoot (last server_chain) = Inr False"
  by (simp_all add: server_chain_def)

lemma server_der_Input: "Input_Init None (Some server_der) = Inr server_der" "Input_Init None (Some [0x4C]) = Inr [0x4C]"
  by (simp_all add: eval_server MAX_INPUT_def)

lemma sample_policy_reported: "vs_evOidPolicy verified_state = Some 7" "(7 :: SECOidTag) \<noteq> SEC_OID_UNKNOWN"
  by (simp_all add: verified_state_def SEC_OID_UNKNOWN_def)

lemma sample_first_policy: "GetFirstEVPolicy (env_ev sample_env) (env_evPolicy sample_env) der = Some (sample_ev_policy, 7)"
  by (simp add: GetFirstEVPolicy_def isEVPolicy_def SEC_OID_UNKNOWN_def CertPolicyId_MAX_BYTES_def sample_env_def
      sample_ev_policy_def)

lemma server_verified_cert:
  "VerifyCert sample_verifier sample_env sample_args certificateUsageSSLServer server_certificate sample_verify_state =
     (Inr (), verified_state)"
proof -
  have args: "va_stapled sample_args = None" "va_sctsFromTLS sample_args = None"
    by (simp_all add: sample_args_def)
  have init: "InitOutParameters certificateUsageSSLServer sample_verify_state = (Inr (), sample_verify_state)"
    by (simp add: InitOutParameters_def sample_verify_state_def)
  have mode: "\<not> SHA1ModeMoreRestrictiveThanGivenMode sample_verifier SHA1_Forbidden"
    by (simp add: SHA1ModeMoreRestrictiveThanGivenMode_def sample_verifier_def)
  have "TryEV sample_verifier sample_env sample_args server_der None [] sample_verify_state = (Inr (), verified_state)"
    by (simp add: TryEV_def sample_first_policy sha1ModeConfigurations_def mode server_configuration)
  then have "VerifyServer sample_verifier sample_env sample_args server_der None [] sample_verify_state =
      (Inr (), verified_state)"
    by (simp add: VerifyServer_def)
  then show ?thesis
    by (simp add: VerifyCert_def init args server_certificate_der server_der_Input StapledInput_def SECItemToInput_def
        VerifyUsage_def del: Input_Init.simps)
qed

lemma server_verified:
  "VerifySSLServerCert sample_verifier sample_env sample_args server_certificate sample_verify_state =
     (Inr (), verified_state)"
proof -
  have init: "sample_verify_state\<lparr>vs_evOidPolicy := map_option (\<lambda>_. SEC_OID_UNKNOWN) (vs_evOidPolicy sample_verify_state)\<rparr> =
      sample_verify_state"
    by (simp add: sample_verify_state_def)
  have tls: "CheckTLSFeaturesAreSatisfied server_der None = Inr ()"
    by (simp add: CheckTLSFeaturesAreSatisfied_def server_cert_init server_cert_fields TLSFeaturesSatisfiedInternal_def)
  have "hostname_bytes ''L'' = [0x4C]" by (simp add: hostname_bytes_def)
  then have "CheckServerName sample_verifier sample_env server_der ''L'' verified_state = Inr ()"
    using server_hostname server_certificate_der(2)
    by (simp add: CheckServerName_def server_der_Input verified_state_def IsCertChainRootBuiltInRoot_def sample_env_def
        server_chain_def del: Input_Init.simps)
  moreover have "va_hostname sample_args = Some ''L''" "va_flags sample_args AND FLAG_TLS_IGNORE_STATUS_REQUEST = 0"
    "va_stapled sample_args = None"
    by (simp_all add: sample_args_def FLAG_MUST_BE_EV_def FLAG_TLS_IGNORE_STATUS_REQUEST_def)
  ultimately show ?thesis
    by (simp add: VerifySSLServerCert_def init server_verified_cert server_certificate_der server_der_Input
        StapledInput_def tls del: Input_Init.simps)
qed

end
