(* ===== verification/PsmCertVerifierSound.thy ===== *)
theory PsmCertVerifierSound
  imports PsmSamples
begin

text \<open>
  What a success of \<open>VerifySSLServerCert\<close> means: the search of mozilla::pkix, the policies and the OCSP memory
  of the trust domain, the order of the configurations and the check of the host name, put together.
\<close>

section \<open>The OCSP memory across calls\<close>

text \<open>The cache stays well-formed, and no revocation is forgotten.\<close>

definition kept :: "domain_state \<Rightarrow> domain_state \<Rightarrow> bool" where
  "kept s t \<longleftrightarrow> (wf_cache (mOCSPCache s) \<longrightarrow> wf_cache (mOCSPCache t) \<and>
     (\<forall>h. remembers_revoked (mOCSPCache s) h \<longrightarrow> remembers_revoked (mOCSPCache t) h))"

lemma kept_refl [simp]: "kept s s"
  by (simp add: kept_def)

lemma kept_trans [trans]: "kept s t \<Longrightarrow> kept t u \<Longrightarrow> kept s u"
  by (simp add: kept_def)

lemma kept_reset [simp]: "kept s (ResetAccumulatedState s)"
  by (simp add: kept_def ResetAccumulatedState_def)

interpretation calls: revocation_memory "\<lambda>s :: domain_state \<times> CERTCertificate list option. wf_cache (mOCSPCache (fst s))"
  "\<lambda>s. remembers_revoked (mOCSPCache (fst s))"
  "td_step cfg sv" for cfg sv
proof
  fix s :: "domain_state \<times> CERTCertificate list option" and k and e :: td_event
  obtain d c where s: "s = (d, c)" by (cases s)
  assume wf: "wf_cache (mOCSPCache (fst s))"
  then show "wf_cache (mOCSPCache (fst (td_step cfg sv e s)))"
    unfolding s by (cases e) (auto intro: CheckRevocation_keeps(1) [OF prod.collapse [symmetric]])
  assume "remembers_revoked (mOCSPCache (fst s)) k"
  with wf show "remembers_revoked (mOCSPCache (fst (td_step cfg sv e s))) k"
    unfolding s by (cases e) (auto intro: CheckRevocation_keeps(2) [OF prod.collapse [symmetric]])
qed

lemma after_calls_kept: "kept d (fst (after_calls cfg sv calls (d, chain)))"
  using calls.run_ok [of "(d, chain)" cfg sv calls] calls.run_revoked [of "(d, chain)" _ cfg sv calls]
  by (simp add: kept_def after_calls_def)

section \<open>The chain that is built\<close>

text \<open>A later call that is not about a chain does not change the chain.\<close>

lemma after_calls_chain:
  "\<forall>x \<in> set calls. \<not> is_chain_call x \<Longrightarrow> snd (after_calls cfg sv calls s) = snd s"
  unfolding after_calls_def
proof (induction calls arbitrary: s)
  case (Cons x calls)
  then show ?case by (cases s; cases x) auto
qed simp

text \<open>A path of certificates for a server: \<open>chain\<close> is what the application made of it when it accepted it, in
  some state of the trust domain.\<close>

definition server_path ::
  "services \<Rightarrow> NSSCertDBTrustDomain \<Rightarrow> domain_state \<Rightarrow> Input \<Rightarrow> Time \<Rightarrow> KeyUsage \<Rightarrow> CertPolicyId \<Rightarrow> Input option \<Rightarrow>
     BackCert \<Rightarrow> BackCert list \<Rightarrow> CERTCertificate list \<Rightarrow> bool" where
  "server_path sv cfg domain der time ku policy stapled c issuers chain \<longleftrightarrow>
     BackCert_Init der MustBeEndEntity = Inr c \<and>
     trusted_path (NSS_TrustDomain cfg sv domain) time id_kp_serverAuth policy c [] ku stapled 0 issuers \<and>
     IsChainValid_NSS cfg sv (map bc_der (rev (c # issuers))) time = Inr chain"

lemma BuildCertChain_NSS_kept:
  "BuildCertChain_NSS cfg sv der time e ku eku policy stapled s = (rv, s') \<Longrightarrow> kept (vs_domain s) (vs_domain s')"
  using after_calls_kept by (auto simp: BuildCertChain_NSS_def split: prod.splits) (metis fst_conv)

lemma BuildCertChain_NSS_found:
  assumes "BuildCertChain_NSS cfg sv der time MustBeEndEntity ku id_kp_serverAuth policy stapled s = (Inr (), s')"
  shows "\<exists>c issuers chain. server_path sv cfg (vs_domain s) der time ku policy stapled c issuers chain \<and>
    vs_builtChain s' = Some chain"
proof -
  let ?td = "NSS_TrustDomain cfg sv (vs_domain s)"
  obtain made where b: "BuildCertChain ?td der time MustBeEndEntity ku id_kp_serverAuth policy stapled [] = (Inr (), made)"
    and chain: "vs_builtChain s' = snd (after_calls cfg sv made (vs_domain s, vs_builtChain s))"
    using assms by (auto simp: BuildCertChain_NSS_def split: prod.splits)
  obtain c issuers earlier later where c: "BackCert_Init der MustBeEndEntity = Inr c"
    and path: "trusted_path ?td time id_kp_serverAuth policy c [] ku stapled 0 issuers"
    and made: "made = earlier @ IsChainValid_called (map bc_der (rev (c # issuers))) time # later"
    and valid: "IsChainValid ?td earlier (map bc_der (rev (c # issuers))) time = Inr ()"
    and later: "\<forall>x \<in> set later. \<not> is_chain_call x"
    using BuildCertChain_found [OF b] unfolding accepted_last_def by blast
  obtain certs where certs: "IsChainValid_NSS cfg sv (map bc_der (rev (c # issuers))) time = Inr certs"
    using valid by (auto simp: NSS_TrustDomain_def split: sum.splits)
  obtain d ch where "after_calls cfg sv earlier (vs_domain s, vs_builtChain s) = (d, ch)" by fastforce
  then have "after_calls cfg sv made (vs_domain s, vs_builtChain s) = after_calls cfg sv later (d, Some certs)"
    using certs by (simp add: after_calls_def made)
  then have "vs_builtChain s' = Some certs" using chain after_calls_chain [OF later] by simp
  with c path certs show ?thesis unfolding server_path_def by blast
qed

section \<open>The configurations\<close>

text \<open>\<open>found\<close>: a server path was found from a state that has kept the revocations of \<open>s\<close>, and its chain is the one of
  \<open>s'\<close>.\<close>

definition found ::
  "services \<Rightarrow> NSSCertDBTrustDomain \<Rightarrow> Input \<Rightarrow> Time \<Rightarrow> KeyUsage \<Rightarrow> CertPolicyId \<Rightarrow> Input option \<Rightarrow> verify_state \<Rightarrow>
     verify_state \<Rightarrow> bool" where
  "found sv cfg der time ku policy stapled s s' \<longleftrightarrow>
     (\<exists>domain c issuers chain. kept (vs_domain s) domain \<and>
        server_path sv cfg domain der time ku policy stapled c issuers chain \<and> vs_builtChain s' = Some chain)"

lemma reset_domain_frame [simp]:
  "vs_domain (reset_domain s) = ResetAccumulatedState (vs_domain s)" "vs_builtChain (reset_domain s) = vs_builtChain s"
  by (simp_all add: reset_domain_def)

lemma found_from: "found sv cfg der time ku policy stapled t s' \<Longrightarrow> kept (vs_domain s) (vs_domain t) \<Longrightarrow>
    found sv cfg der time ku policy stapled s s'"
  unfolding found_def using kept_trans by blast

lemma BuildCertChain_NSS_reset:
  assumes "BuildCertChain_NSS cfg sv der time MustBeEndEntity ku id_kp_serverAuth policy stapled (reset_domain s) = (rv, s')"
  shows "kept (vs_domain s) (vs_domain s')"
    and "rv = Inr () \<Longrightarrow> found sv cfg der time ku policy stapled s s'"
proof -
  have k: "kept (vs_domain s) (vs_domain (reset_domain s))" by simp
  then show "kept (vs_domain s) (vs_domain s')" using BuildCertChain_NSS_kept [OF assms] by (rule kept_trans)
  show "found sv cfg der time ku policy stapled s s'" if "rv = Inr ()"
    using BuildCertChain_NSS_found [OF assms [unfolded that]] k unfolding found_def by blast
qed

definition server_usages :: "KeyUsage set" where
  "server_usages = {digitalSignature, keyEncipherment, keyAgreement}"

lemma BuildCertChainForOneKeyUsage_found:
  assumes "BuildCertChainForOneKeyUsage cfg sv der time digitalSignature keyEncipherment keyAgreement id_kp_serverAuth
    policy stapled s = (rv, s')"
  shows "kept (vs_domain s) (vs_domain s')"
    and "rv = Inr () \<Longrightarrow> \<exists>ku \<in> server_usages. found sv cfg der time ku policy stapled s s'"
proof -
  let ?build = "\<lambda>ku s. BuildCertChain_NSS cfg sv der time MustBeEndEntity ku id_kp_serverAuth policy stapled (reset_domain s)"
  obtain rv1 s1 where 1: "?build digitalSignature s = (rv1, s1)" by fastforce
  obtain rv2 s2 where 2: "?build keyEncipherment s1 = (rv2, s2)" by fastforce
  obtain rv3 s3 where 3: "?build keyAgreement s2 = (rv3, s3)" by fastforce
  note k1 = BuildCertChain_NSS_reset(1) [OF 1] and k2 = kept_trans [OF k1 BuildCertChain_NSS_reset(1) [OF 2]]
  note k3 = kept_trans [OF k2 BuildCertChain_NSS_reset(1) [OF 3]]
  note f1 = BuildCertChain_NSS_reset(2) [OF 1] and f2 = found_from [OF BuildCertChain_NSS_reset(2) [OF 2] k1]
  note f3 = found_from [OF BuildCertChain_NSS_reset(2) [OF 3] k2]
  consider "rv = rv1" "vs_domain s' = vs_domain s1" "vs_builtChain s' = vs_builtChain s1"
    | "rv = rv2" "vs_domain s' = vs_domain s2" "vs_builtChain s' = vs_builtChain s2"
    | "rv = Inr () \<longrightarrow> rv3 = Inr ()" "vs_domain s' = vs_domain s3" "vs_builtChain s' = vs_builtChain s3"
    using assms 1 2 3 by (auto simp: BuildCertChainForOneKeyUsage_def split: if_splits)
  then have "kept (vs_domain s) (vs_domain s') \<and>
      (rv = Inr () \<longrightarrow> (\<exists>ku \<in> server_usages. found sv cfg der time ku policy stapled s s'))"
    by cases (use k1 k2 k3 f1 f2 f3 in \<open>auto simp: server_usages_def found_def\<close>)
  then show "kept (vs_domain s) (vs_domain s')"
    and "rv = Inr () \<Longrightarrow> \<exists>ku \<in> server_usages. found sv cfg der time ku policy stapled s s'" by blast+
qed

text \<open>Setting out-parameters changes neither the domain nor the chain.\<close>

definition only_notes :: "(verify_state \<Rightarrow> verify_state) \<Rightarrow> bool" where
  "only_notes f \<longleftrightarrow> (\<forall>s. vs_domain (f s) = vs_domain s \<and> vs_builtChain (f s) = vs_builtChain s)"

lemma only_notes_note [simp]: "only_notes (note_EV tag result)" "only_notes (note_DV status result)"
  by (simp_all add: only_notes_def note_EV_def note_DV_def)

text \<open>With SHA-1 allowed for imported roots only, the root of the chain is not built in.\<close>

definition sha1_root_ok :: "NSSCertDBTrustDomain \<Rightarrow> verify_state \<Rightarrow> bool" where
  "sha1_root_ok cfg s \<longleftrightarrow> (mSHA1Mode cfg = ImportedRoot \<longrightarrow> IsCertChainRootBuiltInRoot (vs_builtChain s) = Inr False)"

lemma TryConfiguration_found:
  assumes "TryConfiguration cv env args cfg der policy stapled sctList noted s = (rv, leave, s')" and "only_notes noted"
  shows "kept (vs_domain s) (vs_domain s')"
    and "rv = Inr () \<Longrightarrow> \<exists>ku \<in> server_usages.
      found (domain_services env) cfg der (va_time args) ku policy stapled s s' \<and> sha1_root_ok cfg s'"
proof -
  obtain rv1 s1 where b: "BuildCertChainForOneKeyUsage cfg (domain_services env) der (va_time args) digitalSignature
      keyEncipherment keyAgreement id_kp_serverAuth policy stapled (reset_domain s) = (rv1, s1)" by fastforce
  have k: "kept (vs_domain s) (vs_domain (reset_domain s))" by simp
  have s': "vs_domain s' = vs_domain s1" "vs_builtChain s' = vs_builtChain s1"
    and rv: "rv = Inr () \<Longrightarrow> rv1 = Inr () \<and> sha1_root_ok cfg s1"
    using assms b
    by (auto simp: TryConfiguration_def only_notes_def sha1_root_ok_def Let_def split: sum.splits if_splits prod.splits)
  show "kept (vs_domain s) (vs_domain s')"
    unfolding s' using kept_trans [OF k BuildCertChainForOneKeyUsage_found(1) [OF b]] .
  show "\<exists>ku \<in> server_usages. found (domain_services env) cfg der (va_time args) ku policy stapled s s' \<and> sha1_root_ok cfg s'"
    if ok: "rv = Inr ()"
  proof -
    obtain ku where "ku \<in> server_usages" "found (domain_services env) cfg der (va_time args) ku policy stapled (reset_domain s) s1"
      using BuildCertChainForOneKeyUsage_found(2) [OF b] rv [OF ok] by blast
    then have "found (domain_services env) cfg der (va_time args) ku policy stapled s s1" using found_from k by blast
    then have "found (domain_services env) cfg der (va_time args) ku policy stapled s s'" "sha1_root_ok cfg s'"
      using rv [OF ok] s' by (simp_all add: found_def sha1_root_ok_def)
    with \<open>ku \<in> server_usages\<close> show ?thesis by blast
  qed
qed

text \<open>A success of the loops comes from a configuration that the preferences allow.\<close>

definition configured ::
  "CertVerifier \<Rightarrow> verifier_env \<Rightarrow> verify_args \<Rightarrow> (SHA1Mode \<Rightarrow> NSSCertDBTrustDomain) \<Rightarrow> Input \<Rightarrow> CertPolicyId \<Rightarrow>
     Input option \<Rightarrow> verify_state \<Rightarrow> verify_state \<Rightarrow> bool" where
  "configured cv env args config der policy stapled s s' \<longleftrightarrow>
     (\<exists>mode. \<exists>ku \<in> server_usages. \<not> SHA1ModeMoreRestrictiveThanGivenMode cv mode \<and>
        found (domain_services env) (config mode) der (va_time args) ku policy stapled s s' \<and>
        sha1_root_ok (config mode) s')"

lemma configured_from:
  "configured cv env args config der policy stapled t s' \<Longrightarrow> kept (vs_domain s) (vs_domain t) \<Longrightarrow>
   configured cv env args config der policy stapled s s'"
  unfolding configured_def using found_from by blast

lemma TryModes_found:
  assumes "TryModes cv env args config der policy stapled sctList noted modes rv s = (rv', s')"
    and "\<forall>result. only_notes (noted result)"
  shows "kept (vs_domain s) (vs_domain s') \<and>
    (rv \<noteq> Inr () \<and> rv' = Inr () \<longrightarrow> configured cv env args config der policy stapled s s')"
  using assms(1)
proof (induction modes arbitrary: rv s)
  case (Cons m modes)
  obtain mode result where m: "m = (mode, result)" by (cases m)
  obtain rv1 leave s1 where t:
    "TryConfiguration cv env args (config mode) der policy stapled sctList (noted result) s = (rv1, leave, s1)"
    by (cases "TryConfiguration cv env args (config mode) der policy stapled sctList (noted result) s") auto
  note one = TryConfiguration_found [OF t spec [OF assms(2)]]
  have "(if rv = Inr () then (rv, s)
      else if SHA1ModeMoreRestrictiveThanGivenMode cv mode
      then TryModes cv env args config der policy stapled sctList noted modes rv s
      else if leave then (rv1, s1)
      else TryModes cv env args config der policy stapled sctList noted modes rv1 s1) = (rv', s')"
    using Cons.prems unfolding m TryModes.simps t prod.case .
  then consider "rv = Inr ()" "s' = s"
    | "TryModes cv env args config der policy stapled sctList noted modes rv s = (rv', s')"
    | "\<not> SHA1ModeMoreRestrictiveThanGivenMode cv mode" "rv' = rv1" "s' = s1"
    | "\<not> SHA1ModeMoreRestrictiveThanGivenMode cv mode"
      "TryModes cv env args config der policy stapled sctList noted modes rv1 s1 = (rv', s')"
    by (metis prod.inject)
  then show ?case
  proof cases
    case 4
    have "configured cv env args config der policy stapled s s'" if "rv1 = Inr ()" "rv' = Inr ()"
    proof -
      have "s' = s1" using 4(2) that(1) by (cases modes) auto
      then show ?thesis using one(2) that 4(1) unfolding configured_def by blast
    qed
    then show ?thesis using Cons.IH [OF 4(2)] one(1) configured_from kept_trans by blast
  qed (use one Cons.IH in \<open>auto simp: configured_def\<close>)
qed simp

section \<open>A server\<close>

text \<open>The configurations for a server that the preferences, the flags and the certificate allow, with their
  policies: for EV, or for DV with one of two minimal key sizes.\<close>

definition permitted ::
  "CertVerifier \<Rightarrow> verifier_env \<Rightarrow> verify_args \<Rightarrow> Input \<Rightarrow> NSSCertDBTrustDomain \<Rightarrow> CertPolicyId \<Rightarrow> bool" where
  "permitted cv env args der cfg policy \<longleftrightarrow>
     \<not> SHA1ModeMoreRestrictiveThanGivenMode cv (mSHA1Mode cfg) \<and>
     ((\<exists>tag. GetFirstEVPolicy (env_ev env) (env_evPolicy env) der = Some (policy, tag) \<and>
         cfg = EVConfiguration cv args (mSHA1Mode cfg)) \<or>
      va_flags args AND FLAG_MUST_BE_EV = 0 \<and> policy = CertPolicyId_anyPolicy \<and>
        (\<exists>keySize \<in> {MIN_RSA_BITS, MIN_RSA_BITS_WEAK}. cfg = DVConfiguration cv args keySize (mSHA1Mode cfg)))"

definition served ::
  "CertVerifier \<Rightarrow> verifier_env \<Rightarrow> verify_args \<Rightarrow> Input \<Rightarrow> Input option \<Rightarrow> verify_state \<Rightarrow> verify_state \<Rightarrow> bool" where
  "served cv env args der stapled s s' \<longleftrightarrow>
     (\<exists>cfg policy. \<exists>ku \<in> server_usages. permitted cv env args der cfg policy \<and>
        found (domain_services env) cfg der (va_time args) ku policy stapled s s' \<and> sha1_root_ok cfg s')"

lemma configuration_mode [simp]:
  "mSHA1Mode (EVConfiguration cv args mode) = mode" "mSHA1Mode (DVConfiguration cv args keySize mode) = mode"
  by (simp_all add: EVConfiguration_def DVConfiguration_def domain_config_def)

lemma served_from: "served cv env args der stapled t s' \<Longrightarrow> kept (vs_domain s) (vs_domain t) \<Longrightarrow>
    served cv env args der stapled s s'"
  unfolding served_def using found_from by blast

lemma TryEV_found:
  assumes "TryEV cv env args der stapled sctList s = (rv, s')"
  shows "kept (vs_domain s) (vs_domain s')"
    and "rv = Inr () \<Longrightarrow> \<exists>policy tag. GetFirstEVPolicy (env_ev env) (env_evPolicy env) der = Some (policy, tag) \<and>
      configured cv env args (EVConfiguration cv args) der policy stapled s s'"
  using assms TryModes_found [where config = "EVConfiguration cv args"]
  by (auto simp: TryEV_def split: option.splits prod.splits)

lemma configured_served:
  assumes "configured cv env args config der policy stapled s s'"
    and "\<And>mode. \<not> SHA1ModeMoreRestrictiveThanGivenMode cv mode \<Longrightarrow> permitted cv env args der (config mode) policy"
  shows "served cv env args der stapled s s'"
  using assms unfolding configured_def served_def by blast

lemma configured_EV_served:
  "configured cv env args (EVConfiguration cv args) der policy stapled s s' \<Longrightarrow>
   GetFirstEVPolicy (env_ev env) (env_evPolicy env) der = Some (policy, tag) \<Longrightarrow> served cv env args der stapled s s'"
  by (erule configured_served) (simp add: permitted_def)

lemma configured_DV_served:
  "configured cv env args (DVConfiguration cv args keySize) der CertPolicyId_anyPolicy stapled s s' \<Longrightarrow>
   va_flags args AND FLAG_MUST_BE_EV = 0 \<Longrightarrow> keySize \<in> {MIN_RSA_BITS, MIN_RSA_BITS_WEAK} \<Longrightarrow>
   served cv env args der stapled s s'"
  by (erule configured_served) (auto simp: permitted_def)

lemma TryKeySizes_found:
  assumes "TryKeySizes cv env args der stapled sctList keySizes rv s = (rv', s')"
    and "va_flags args AND FLAG_MUST_BE_EV = 0" and "fst ` set keySizes \<subseteq> {MIN_RSA_BITS, MIN_RSA_BITS_WEAK}"
  shows "kept (vs_domain s) (vs_domain s') \<and> (rv \<noteq> Inr () \<and> rv' = Inr () \<longrightarrow> served cv env args der stapled s s')"
  using assms(1,3)
proof (induction keySizes arbitrary: rv s)
  case (Cons k keySizes)
  obtain keySize status where k: "k = (keySize, status)" by (cases k)
  obtain rv1 s1 where t: "TryModes cv env args (DVConfiguration cv args keySize) der CertPolicyId_anyPolicy stapled
      sctList (note_DV status) sha1ModeConfigurations rv s = (rv1, s1)" by fastforce
  note one = TryModes_found [OF t, simplified]
  show ?case
  proof (cases "rv = Inr ()")
    case True
    then show ?thesis using Cons.prems(1) by (simp add: k)
  next
    case False
    then have more: "TryKeySizes cv env args der stapled sctList keySizes rv1 s1 = (rv', s')"
      using Cons.prems(1) t by (simp add: k)
    note two = Cons.IH [OF more]
    have "served cv env args der stapled s s'" if "rv1 = Inr ()"
    proof -
      have "s' = s1" using more that by (cases keySizes) auto
      moreover have "keySize \<in> {MIN_RSA_BITS, MIN_RSA_BITS_WEAK}" using Cons.prems(2) by (simp add: k)
      ultimately show ?thesis using one False that configured_DV_served [OF _ assms(2)] by blast
    qed
    moreover have "kept (vs_domain s1) (vs_domain s') \<and> (rv1 \<noteq> Inr () \<and> rv' = Inr () \<longrightarrow> served cv env args der stapled s1 s')"
      using two Cons.prems(2) by simp
    ultimately show ?thesis using one kept_trans served_from by metis
  qed
qed simp

lemma VerifyServer_found:
  assumes "VerifyServer cv env args der stapled sctList s = (rv, s')"
  shows "kept (vs_domain s) (vs_domain s')" and "rv = Inr () \<Longrightarrow> served cv env args der stapled s s'"
proof -
  obtain rv1 s1 where e: "TryEV cv env args der stapled sctList s = (rv1, s1)" by fastforce
  obtain rv2 s2 where d: "TryKeySizes cv env args der stapled sctList keySizeConfigurations rv1 s1 = (rv2, s2)" by fastforce
  note ev = TryEV_found [OF e]
  have dv: "kept (vs_domain s1) (vs_domain s2) \<and> (rv1 \<noteq> Inr () \<and> rv2 = Inr () \<longrightarrow> served cv env args der stapled s1 s2)"
    if "va_flags args AND FLAG_MUST_BE_EV = 0"
    using TryKeySizes_found [OF d that] by (auto simp: keySizeConfigurations_def)
  consider "rv1 = Inr ()" "rv = rv1" "s' = s1"
    | "rv \<noteq> Inr ()" "s' = s1"
    | "va_flags args AND FLAG_MUST_BE_EV = 0" "rv1 \<noteq> Inr ()" "rv = rv2" "vs_domain s' = vs_domain s2" "rv2 = Inr () \<longrightarrow> s' = s2"
    using assms e d by (auto simp: VerifyServer_def split: if_splits)
  then have "kept (vs_domain s) (vs_domain s') \<and> (rv = Inr () \<longrightarrow> served cv env args der stapled s s')"
  proof cases
    case 1
    then show ?thesis using ev configured_EV_served by blast
  next
    case 2
    then show ?thesis using ev(1) by blast
  next
    case 3
    then show ?thesis using ev(1) dv kept_trans served_from by metis
  qed
  then show "kept (vs_domain s) (vs_domain s')" and "rv = Inr () \<Longrightarrow> served cv env args der stapled s s'" by blast+
qed

lemma StapledInput_Inr: "StapledInput item = Inr stapled \<Longrightarrow> stapled = item"
  by (auto simp: StapledInput_def split: option.splits sum.splits if_splits)

lemma InitOutParameters_frame: "InitOutParameters usage s = (rv, s') \<Longrightarrow>
    vs_domain s' = vs_domain s \<and> vs_evOidPolicy s' = map_option (\<lambda>_. SEC_OID_UNKNOWN) (vs_evOidPolicy s)"
  by (auto simp: InitOutParameters_def Let_def split: if_splits)

lemma VerifyCert_server:
  assumes "VerifyCert cv env args certificateUsageSSLServer cert s = (Inr (), s')"
  shows "served cv env args (derCert cert) (va_stapled args) s s'" and "wf_Input (derCert cert)"
    and "StapledInput (va_stapled args) = Inr (va_stapled args)"
    and "\<exists>s0. VerifyServer cv env args (derCert cert) (va_stapled args) (SECItemToInput (va_sctsFromTLS args)) s0 = (Inr (), s') \<and>
      vs_domain s0 = vs_domain s \<and> vs_evOidPolicy s0 = map_option (\<lambda>_. SEC_OID_UNKNOWN) (vs_evOidPolicy s)"
proof -
  obtain rv0 s0 where i: "InitOutParameters certificateUsageSSLServer s = (rv0, s0)" by fastforce
  have rv0: "rv0 = Inr ()" using assms i by (cases rv0) (simp_all add: VerifyCert_def)
  obtain der where der: "Input_Init None (Some (derCert cert)) = Inr der"
    using assms i rv0 by (cases "Input_Init None (Some (derCert cert))") (simp_all add: VerifyCert_def del: Input_Init.simps)
  obtain stapled where st: "StapledInput (va_stapled args) = Inr stapled"
    using assms i rv0 der by (cases "StapledInput (va_stapled args)") (simp_all add: VerifyCert_def del: Input_Init.simps)
  have v: "VerifyServer cv env args der stapled (SECItemToInput (va_sctsFromTLS args)) s0 = (Inr (), s')"
    using assms i rv0 der st by (simp add: VerifyCert_def VerifyUsage_def del: Input_Init.simps)
  note der' = der [unfolded wf_Input_Init] and st' = StapledInput_Inr [OF st]
  show "wf_Input (derCert cert)" using der' by simp
  show "StapledInput (va_stapled args) = Inr (va_stapled args)" using st st' by simp
  have same: "der = derCert cert" "stapled = va_stapled args" using der' st' by simp_all
  show "\<exists>s0. VerifyServer cv env args (derCert cert) (va_stapled args) (SECItemToInput (va_sctsFromTLS args)) s0 = (Inr (), s') \<and>
      vs_domain s0 = vs_domain s \<and> vs_evOidPolicy s0 = map_option (\<lambda>_. SEC_OID_UNKNOWN) (vs_evOidPolicy s)"
    using v InitOutParameters_frame [OF i] same by blast
  from same show "served cv env args (derCert cert) (va_stapled args) s s'"
    using VerifyServer_found(2) [OF v] InitOutParameters_frame [OF i] by (auto simp: served_def found_def)
qed

section \<open>What a path is for the database and the cache\<close>

text \<open>The certificate is not on the blocklist; the root is a trusted authority of the database, and for EV one for
  the policy.\<close>

definition unblocked :: "services \<Rightarrow> Input \<Rightarrow> bool" where
  "unblocked sv der \<longleftrightarrow> (\<exists>isCertRevoked. certBlocklist sv = Some isCertRevoked \<and> isCertRevoked der = Some False)"

definition database_root :: "services \<Rightarrow> CertPolicyId \<Rightarrow> Input \<Rightarrow> bool" where
  "database_root sv policy der \<longleftrightarrow>
     (\<exists>flags. getCertTrust sv der = Some flags \<and> TRUSTED_CA flags) \<and> (IsAnyPolicy policy \<or> authoritativeForEV sv der policy)"

lemma GetCertTrust_NSS_accepts:
  assumes "GetCertTrust_NSS cfg sv e policy der = (Inr (), trustLevel)" and "mCertDBTrustType cfg = trustSSL"
  shows "unblocked sv der" and "trustLevel = TrustAnchor \<Longrightarrow> database_root sv policy der"
proof -
  obtain isCertRevoked where b: "certBlocklist sv = Some isCertRevoked" "isCertRevoked der = Some False"
    and t: "(case getCertTrust sv der of None \<Rightarrow> InheritsTrust
      | Some flags \<Rightarrow>
          if TERMINAL_RECORD flags \<and> \<not> (if e = MustBeCA then TRUSTED_CA flags else TRUSTED flags) then ActivelyDistrusted
          else if TRUSTED_CA flags \<and> (IsAnyPolicy policy \<or> authoritativeForEV sv der policy) then TrustAnchor
          else InheritsTrust) = trustLevel"
    using assms by (auto simp: GetCertTrust_NSS_def Let_def split: sum.splits option.splits if_splits)
  show "unblocked sv der" using b by (auto simp: unblocked_def)
  show "database_root sv policy der" if "trustLevel = TrustAnchor"
    using t that by (auto simp: database_root_def split: option.splits if_splits)
qed

lemma NSS_TrustDomain_trust [simp]: "GetCertTrust (NSS_TrustDomain cfg sv domain) = GetCertTrust_NSS cfg sv"
  by (simp add: NSS_TrustDomain_def)

lemma CheckIssuerIndependentProperties_trust:
  assumes "CheckIssuerIndependentProperties (NSS_TrustDomain cfg sv domain) c time ku eku policy n = (Inr (), trustLevel)"
    and "mCertDBTrustType cfg = trustSSL"
  shows "unblocked sv (bc_der c)" and "trustLevel = TrustAnchor \<Longrightarrow> database_root sv policy (bc_der c)"
proof -
  obtain tl where g: "GetCertTrust_NSS cfg sv (endEntityOrCA c) policy (bc_der c) = (Inr (), tl)"
    and a: "trustLevel = AdjustTrustLevel tl (endEntityOrCA c) eku"
    using assms(1) by (auto simp: CheckIssuerIndependentProperties_def Let_def split: prod.splits sum.splits)
  show "unblocked sv (bc_der c)" using GetCertTrust_NSS_accepts(1) [OF g assms(2)] .
  show "trustLevel = TrustAnchor \<Longrightarrow> database_root sv policy (bc_der c)"
    using GetCertTrust_NSS_accepts(2) [OF g assms(2)] a by (auto simp: AdjustTrustLevel_def split: if_splits)
qed

lemma server_path_database:
  assumes "server_path sv cfg domain der time ku policy stapled c issuers chain" and "mCertDBTrustType cfg = trustSSL"
  shows "\<forall>x \<in> set (c # issuers). unblocked sv (bc_der x)" and "database_root sv policy (bc_der (last (c # issuers)))"
proof -
  let ?path = "c # issuers"
  have all: "\<exists>trustLevel n ku. CheckIssuerIndependentProperties (NSS_TrustDomain cfg sv domain) (?path ! k) time ku
      id_kp_serverAuth policy n = (Inr (), trustLevel) \<and> (trustLevel = TrustAnchor \<longleftrightarrow> k = length issuers)"
    if "k < length ?path" for k
    using trusted_path_list [of "NSS_TrustDomain cfg sv domain" time id_kp_serverAuth policy c "[]" ku stapled 0 issuers]
      assms(1) that unfolding server_path_def by blast
  show "\<forall>x \<in> set ?path. unblocked sv (bc_der x)"
  proof
    fix x assume "x \<in> set ?path"
    then obtain k where "k < length ?path" "x = ?path ! k" by (metis in_set_conv_nth)
    then show "unblocked sv (bc_der x)" using all CheckIssuerIndependentProperties_trust(1) assms(2) by metis
  qed
  have "last ?path = ?path ! length issuers" by (simp add: last_conv_nth)
  then show "database_root sv policy (bc_der (last ?path))"
    using all [of "length issuers"] CheckIssuerIndependentProperties_trust(2) assms(2) by (metis length_Cons lessI)
qed

text \<open>With the configuration for EV the end entity is not valid for too long.\<close>

lemma server_path_validity:
  assumes "server_path sv cfg domain der time ku policy stapled c issuers chain" and "mValidityCheckingMode cfg = CheckForEV"
  shows "\<exists>notBefore notAfter. ParseValidity (validity c) = Inr (notBefore, notAfter) \<and>
    Duration_between notBefore notAfter \<le> DURATION_27_MONTHS_PLUS_SLOP"
proof -
  let ?td = "NSS_TrustDomain cfg sv domain"
  obtain trustLevel n ku' where "CheckIssuerIndependentProperties ?td ((c # issuers) ! 0) time ku' id_kp_serverAuth policy n =
      (Inr (), trustLevel)"
    using trusted_path_list [of ?td time id_kp_serverAuth policy c "[]" ku stapled 0 issuers] assms(1)
    unfolding server_path_def by blast
  then obtain notBefore notAfter where v: "ParseValidity (validity c) = Inr (notBefore, notAfter)"
    "CheckValidityIsAcceptable ?td notBefore notAfter (endEntityOrCA c) id_kp_serverAuth = Inr ()"
    by (rule CheckIssuerIndependentProperties_parts) simp
  have "endEntityOrCA c = MustBeEndEntity" using assms(1) BackCert_Init_role by (auto simp: server_path_def)
  then have "Duration_between notBefore notAfter \<le> DURATION_27_MONTHS_PLUS_SLOP"
    using v(2) assms(2)
    by (auto simp: NSS_TrustDomain_def CheckValidityIsAcceptable_NSS_def not_less
        split: if_splits)
  with v(1) show ?thesis by blast
qed

text \<open>No revocation that the cache remembers is on a path.\<close>

lemma server_path_not_revoked:
  assumes path: "server_path sv cfg domain der time ku policy stapled c issuers chain" and wf: "wf_cache (mOCSPCache domain)"
    and k: "k < length issuers" "k = 0 \<longrightarrow> stapled = None"
    and h: "CertIDHash (cacheEnv sv) (ocsp_id ((c # issuers) ! k) (issuers ! k)) (mFirstPartyDomain cfg) = Some h"
  shows "\<not> remembers_revoked (mOCSPCache domain) h"
proof
  assume rev: "remembers_revoked (mOCSPCache domain) h"
  let ?td = "NSS_TrustDomain cfg sv domain" and ?below = "rev (take (Suc k) (c # issuers))"
  have "links ?td time id_kp_serverAuth (if k = 0 then stapled else None) ?below (issuers ! k)"
    using trusted_path_list [of ?td time id_kp_serverAuth policy c "[]" ku stapled 0 issuers] path k(1)
    unfolding server_path_def by simp
  moreover have "hd ?below = (c # issuers) ! k"
    using take_Suc_conv_app_nth [of k "c # issuers"] k(1) by (simp add: hd_rev del: take_Suc_Cons)
  moreover have "(if k = 0 then stapled else None) = None" using k(2) by simp
  ultimately obtain made e du aia where ok: "CheckRevocation ?td made e (ocsp_id ((c # issuers) ! k) (issuers ! k)) time du None
      aia = Inr ()"
    unfolding links_def ocsp_id_def by auto
  let ?s = "fst (after_calls cfg sv made (domain, None))"
  have "kept domain ?s" by (rule after_calls_kept)
  then have s: "wf_cache (mOCSPCache ?s)" "remembers_revoked (mOCSPCache ?s) h" using wf rev by (simp_all add: kept_def)
  have "fst (CheckRevocation_NSS cfg sv e (ocsp_id ((c # issuers) ! k) (issuers ! k)) time du None aia ?s) = Inr ()"
    using ok by (simp add: NSS_TrustDomain_def)
  then show False
    using CheckRevocation_remembered(1) [OF prod.collapse [symmetric] s(1) h s(2)] by fastforce
qed

text \<open>A certificate names a host.\<close>

definition certificate_names_host :: "BackCert \<Rightarrow> Input \<Rightarrow> BRMode \<Rightarrow> bool" where
  "certificate_names_host c hostname mode \<longleftrightarrow>
     (\<exists>notBefore notAfter refType ref. ParseValidity (validity c) = Inr (notBefore, notAfter) \<and>
        reference_name hostname refType ref \<and>
        (alternative_name_of_host (GetSubjectAltName c) refType ref \<or>
         FallBackToCommonName_BR mode notBefore = Inr FallBack_Yes \<and> (refType = GN_iPAddress \<longrightarrow> length ref = 4) \<and>
         no_host_in_alternative_names (GetSubjectAltName c) \<and> subject_names_host (subject c) refType ref))"

lemma CheckServerName_names:
  assumes "CheckServerName cv env der hostname s = Inr ()" and "vs_builtChain s = Some chain"
    and "BackCert_Init der MustBeEndEntity = Inr c" and "wf_Input der" and "length (env_ipv6 env) = 16"
  shows "\<exists>isBuiltInRoot. builtInRoot (last chain) = Inr isBuiltInRoot \<and>
    certificate_names_host c (hostname_bytes hostname) (if isBuiltInRoot then cv_NameMatchingMode cv else DoNotEnforce)"
proof -
  let ?mode = "\<lambda>b. if b then cv_NameMatchingMode cv else DoNotEnforce"
  obtain name where n: "Input_Init None (Some (hostname_bytes hostname)) = Inr name"
    using assms(1) by (cases "Input_Init None (Some (hostname_bytes hostname))")
      (simp_all add: CheckServerName_def del: Input_Init.simps)
  obtain b where b: "IsCertChainRootBuiltInRoot (Some chain) = Inr b"
    using assms(1,2) n by (cases "IsCertChainRootBuiltInRoot (Some chain)")
      (simp_all add: CheckServerName_def del: Input_Init.simps)
  have ok: "CheckCertHostname (env_ipv6 env) der name (BRNameMatchingPolicy (?mode b)) = Inr ()"
    using assms(1,2) n b by (cases "CheckCertHostname (env_ipv6 env) der name (BRNameMatchingPolicy (?mode b))")
      (simp_all add: CheckServerName_def del: Input_Init.simps split: if_splits)
  have root: "builtInRoot (last chain) = Inr b"
    using b by (simp add: IsCertChainRootBuiltInRoot_def split: if_splits)
  have name: "name = hostname_bytes hostname" "wf_Input name" using n [unfolded wf_Input_Init] by simp_all
  from CheckCertHostname_names [OF assms(4) name(2) assms(5) ok] show ?thesis
    using root assms(3) name(1) unfolding certificate_names_host_def BRNameMatchingPolicy_def by auto
qed

lemma permitted_config:
  "permitted cv env args der cfg policy \<Longrightarrow>
   mCertDBTrustType cfg = trustSSL \<and> mFirstPartyDomain cfg = va_firstPartyDomain args"
  unfolding permitted_def EVConfiguration_def DVConfiguration_def domain_config_def
  by (metis NSSCertDBTrustDomain.select_convs(1,9))

lemma permitted_policy:
  "permitted cv env args der cfg policy \<Longrightarrow> va_flags args AND FLAG_MUST_BE_EV = 0 \<and> policy = CertPolicyId_anyPolicy \<or>
   (\<exists>tag. GetFirstEVPolicy (env_ev env) (env_evPolicy env) der = Some (policy, tag))"
  unfolding permitted_def by blast

lemma domain_services_frame [simp]:
  "unblocked (domain_services env) der = unblocked (env_services env) der"
  "cacheEnv (domain_services env) = cacheEnv (env_services env)"
  by (simp_all add: unblocked_def domain_services_def)

text \<open>The parts of a verification that succeeds.\<close>

lemma VerifySSLServerCert_parts:
  assumes "VerifySSLServerCert cv env args cert s = (Inr (), s')"
  obtains hostname s0 where "va_hostname args = Some hostname" "vs_domain s0 = vs_domain s"
    and "vs_evOidPolicy s0 = map_option (\<lambda>_. SEC_OID_UNKNOWN) (vs_evOidPolicy s)"
    and "VerifyCert cv env args certificateUsageSSLServer cert s0 = (Inr (), s')"
    and "CheckServerName cv env (derCert cert) hostname s' = Inr ()"
    and "va_flags args AND FLAG_TLS_IGNORE_STATUS_REQUEST = 0 \<Longrightarrow>
      CheckTLSFeaturesAreSatisfied (derCert cert) (va_stapled args) = Inr ()"
proof -
  let ?s = "s\<lparr>vs_evOidPolicy := map_option (\<lambda>_. SEC_OID_UNKNOWN) (vs_evOidPolicy s)\<rparr>"
  obtain hostname where h: "va_hostname args = Some hostname" "hostname \<noteq> []"
    using assms by (auto simp: VerifySSLServerCert_def Let_def split: option.splits if_splits)
  obtain rv s1 where v: "VerifyCert cv env args certificateUsageSSLServer cert ?s = (rv, s1)" by fastforce
  have rv: "rv = Inr ()" "s1 = s'"
    using assms h v by (auto simp: VerifySSLServerCert_def Let_def simp del: Input_Init.simps split: sum.splits)
  note v' = v [unfolded rv]
  have der: "Input_Init None (Some (derCert cert)) = Inr (derCert cert)"
    using VerifyCert_server(2) [OF v'] by (simp add: wf_Input_Init del: Input_Init.simps)
  have "bind_res (if va_flags args AND FLAG_TLS_IGNORE_STATUS_REQUEST = 0
      then CheckTLSFeaturesAreSatisfied (derCert cert) (va_stapled args) else Inr ())
      (\<lambda>_. CheckServerName cv env (derCert cert) hostname s') = Inr ()"
    using assms h v' der VerifyCert_server(3) [OF v']
    by (simp add: VerifySSLServerCert_def Let_def bind_res_def del: Input_Init.simps)
  then show ?thesis
    using that [of hostname ?s] h v' by (auto simp: bind_res_Inr_iff split: if_splits)
qed

section \<open>Extended validation\<close>

text \<open>The timestamps of a chain were checked and the check failed.\<close>

definition timestamps_failed ::
  "CertVerifier \<Rightarrow> verifier_env \<Rightarrow> verify_args \<Rightarrow> Input \<Rightarrow> CERTCertificate list option \<Rightarrow> bool" where
  "timestamps_failed cv env args sctList chain \<longleftrightarrow> cv_CTMode cv \<noteq> CT_Disabled \<and>
     (\<exists>domain info e. fst (VerifySignedCertificateTimestamps cv env domain chain sctList (va_time args) info) = Inl e)"

lemma timestamps_failedI:
  "VerifySignedCertificateTimestamps cv env domain chain sctList (va_time args) info = (Inl e, info') \<Longrightarrow>
   timestamps_failed cv env args sctList chain"
  unfolding timestamps_failed_def
proof (intro conjI notI exI)
  assume v: "VerifySignedCertificateTimestamps cv env domain chain sctList (va_time args) info = (Inl e, info')"
  then show "fst (VerifySignedCertificateTimestamps cv env domain chain sctList (va_time args) info) = Inl e" by simp
  assume "cv_CTMode cv = CT_Disabled"
  then show False using v by (simp add: VerifySignedCertificateTimestamps_def)
qed

text \<open>What a step does to the out-parameter: it is left alone, which is a failure, or updated with \<open>f\<close>. In this case
  a path was found, and the step succeeded but for the timestamps.\<close>

definition path_noted ::
  "CertVerifier \<Rightarrow> verifier_env \<Rightarrow> verify_args \<Rightarrow> (SHA1Mode \<Rightarrow> NSSCertDBTrustDomain) \<Rightarrow> Input \<Rightarrow> CertPolicyId \<Rightarrow>
     Input option \<Rightarrow> Input \<Rightarrow> unit res \<Rightarrow> verify_state \<Rightarrow> verify_state \<Rightarrow> bool" where
  "path_noted cv env args config der policy stapled sctList rv s s' \<longleftrightarrow>
     (\<exists>mode. \<exists>ku \<in> server_usages. found (domain_services env) (config mode) der (va_time args) ku policy stapled s s') \<and>
     (rv = Inr () \<or> timestamps_failed cv env args sctList (vs_builtChain s'))"

definition ev_step ::
  "CertVerifier \<Rightarrow> verifier_env \<Rightarrow> verify_args \<Rightarrow> (SHA1Mode \<Rightarrow> NSSCertDBTrustDomain) \<Rightarrow> Input \<Rightarrow> CertPolicyId \<Rightarrow>
     Input option \<Rightarrow> Input \<Rightarrow> (SECOidTag option \<Rightarrow> SECOidTag option) \<Rightarrow> unit res \<Rightarrow> verify_state \<Rightarrow> verify_state \<Rightarrow> bool" where
  "ev_step cv env args config der policy stapled sctList f rv s s' \<longleftrightarrow>
     rv \<noteq> Inr () \<and> vs_evOidPolicy s' = vs_evOidPolicy s \<or>
     vs_evOidPolicy s' = f (vs_evOidPolicy s) \<and> path_noted cv env args config der policy stapled sctList rv s s'"

lemma path_noted_from:
  "path_noted cv env args config der policy stapled sctList rv t s' \<Longrightarrow> kept (vs_domain s) (vs_domain t) \<Longrightarrow>
   path_noted cv env args config der policy stapled sctList rv s s'"
  unfolding path_noted_def using found_from by blast

lemma BuildCertChainForOneKeyUsage_ev:
  "BuildCertChainForOneKeyUsage cfg sv der time ku1 ku2 ku3 eku policy stapled s = (rv, s') \<Longrightarrow>
   vs_evOidPolicy s' = vs_evOidPolicy s"
  by (auto simp: BuildCertChainForOneKeyUsage_def BuildCertChain_NSS_def reset_domain_def Let_def
      split: prod.splits if_splits)

text \<open>A configuration that fails after the out-parameters were set leaves the loop.\<close>

lemma TryConfiguration_ev:
  assumes "TryConfiguration cv env args (config mode) der policy stapled sctList noted s = (rv, leave, s')"
    and "only_notes noted" and "\<And>s. vs_evOidPolicy (noted s) = f (vs_evOidPolicy s)"
  shows "ev_step cv env args config der policy stapled sctList f rv s s' \<and>
    (\<not> leave \<and> rv \<noteq> Inr () \<longrightarrow> vs_evOidPolicy s' = vs_evOidPolicy s)"
proof -
  obtain rv1 s1 where b: "BuildCertChainForOneKeyUsage (config mode) (domain_services env) der (va_time args)
      digitalSignature keyEncipherment keyAgreement id_kp_serverAuth policy stapled (reset_domain s) = (rv1, s1)"
    by fastforce
  have ev1: "vs_evOidPolicy s1 = vs_evOidPolicy s"
    using BuildCertChainForOneKeyUsage_ev [OF b] by (simp add: reset_domain_def)
  obtain rv2 info where v: "VerifySignedCertificateTimestamps cv env (vs_domain s1) (vs_builtChain s1) sctList
      (va_time args) (vs_ctInfo (noted s1)) = (rv2, info)" by fastforce
  have same: "vs_domain (noted s1) = vs_domain s1" "vs_builtChain (noted s1) = vs_builtChain s1"
    using assms(2) by (simp_all add: only_notes_def)
  consider "rv \<noteq> Inr ()" "s' = s1"
    | "rv1 = Inr ()" "rv = rv2" "leave \<longleftrightarrow> rv2 \<noteq> Inr ()" "s' = (noted s1)\<lparr>vs_ctInfo := info\<rparr>"
    using assms(1) b v same by (auto simp: TryConfiguration_def Let_def split: sum.splits if_splits)
  then show ?thesis
  proof cases
    case 1
    then show ?thesis using ev1 by (simp add: ev_step_def)
  next
    case 2
    have chain: "vs_builtChain s' = vs_builtChain s1" and ev: "vs_evOidPolicy s' = f (vs_evOidPolicy s)"
      using 2(4) same ev1 assms(3) by simp_all
    obtain ku where ku: "ku \<in> server_usages"
      "found (domain_services env) (config mode) der (va_time args) ku policy stapled s s1"
      using BuildCertChainForOneKeyUsage_found(2) [OF b 2(1)] found_from [of _ _ _ _ _ _ _ "reset_domain s" s1 s]
      by auto
    then have "found (domain_services env) (config mode) der (va_time args) ku policy stapled s s'"
      unfolding found_def chain by blast
    moreover have "rv = Inr () \<or> timestamps_failed cv env args sctList (vs_builtChain s')"
      using v timestamps_failedI unfolding 2(2) chain by (cases rv2) auto
    ultimately show ?thesis using ku(1) ev 2(2,3) unfolding ev_step_def path_noted_def by blast
  qed
qed

lemma TryModes_ev:
  assumes "TryModes cv env args config der policy stapled sctList noted modes rv s = (rv', s')"
    and "\<And>result. only_notes (noted result)" and "\<And>result s. vs_evOidPolicy (noted result s) = f (vs_evOidPolicy s)"
    and "rv \<noteq> Inr ()"
  shows "ev_step cv env args config der policy stapled sctList f rv' s s'"
  using assms(1,4)
proof (induction modes arbitrary: rv s)
  case (Cons m modes)
  obtain mode result where m: "m = (mode, result)" by (cases m)
  obtain rv1 leave s1 where t:
    "TryConfiguration cv env args (config mode) der policy stapled sctList (noted result) s = (rv1, leave, s1)"
    by (cases "TryConfiguration cv env args (config mode) der policy stapled sctList (noted result) s") auto
  note one = TryConfiguration_ev [where config = config, OF t assms(2), of f, OF assms(3)]
  have "(if SHA1ModeMoreRestrictiveThanGivenMode cv mode
      then TryModes cv env args config der policy stapled sctList noted modes rv s
      else if leave then (rv1, s1)
      else TryModes cv env args config der policy stapled sctList noted modes rv1 s1) = (rv', s')"
    using Cons.prems unfolding m TryModes.simps t prod.case by simp
  then consider "TryModes cv env args config der policy stapled sctList noted modes rv s = (rv', s')"
    | "rv' = rv1" "s' = s1"
    | "\<not> leave" "TryModes cv env args config der policy stapled sctList noted modes rv1 s1 = (rv', s')"
    by (metis prod.inject)
  then show ?case
  proof cases
    case 1
    then show ?thesis using Cons.IH Cons.prems(2) by blast
  next
    case 2
    then show ?thesis using one by simp
  next
    case 3
    show ?thesis
    proof (cases "rv1 = Inr ()")
      case True
      then have "s' = s1" "rv' = rv1" using 3(2) by (cases modes; auto)+
      then show ?thesis using one by simp
    next
      case False
      then have "vs_evOidPolicy s1 = vs_evOidPolicy s" using one 3(1) by blast
      then show ?thesis
        using Cons.IH [OF 3(2) False] path_noted_from [OF _ TryConfiguration_found(1) [OF t assms(2)]]
        unfolding ev_step_def by metis
    qed
  qed
qed (simp add: ev_step_def)

lemma TryKeySizes_ev:
  assumes "TryKeySizes cv env args der stapled sctList keySizes rv s = (rv', s')"
  shows "vs_evOidPolicy s' = vs_evOidPolicy s"
  using assms
proof (induction keySizes arbitrary: rv s)
  case (Cons k keySizes)
  obtain keySize status where k: "k = (keySize, status)" by (cases k)
  obtain rv1 s1 where t: "TryModes cv env args (DVConfiguration cv args keySize) der CertPolicyId_anyPolicy stapled
      sctList (note_DV status) sha1ModeConfigurations rv s = (rv1, s1)" by fastforce
  show ?case
  proof (cases "rv = Inr ()")
    case False
    have "\<And>result s. vs_evOidPolicy (note_DV status result s) = id (vs_evOidPolicy s)" by (simp add: note_DV_def)
    from TryModes_ev [OF t only_notes_note(2) this False] have "vs_evOidPolicy s1 = vs_evOidPolicy s"
      by (auto simp: ev_step_def)
    moreover have "TryKeySizes cv env args der stapled sctList keySizes rv1 s1 = (rv', s')"
      using Cons.prems t False by (simp add: k)
    ultimately show ?thesis using Cons.IH by metis
  qed (use Cons.prems in \<open>simp add: k\<close>)
qed simp

text \<open>A server for which a policy is reported was found with the configuration for EV; if the chain is another one,
  the timestamps of the one that was found failed.\<close>

lemma VerifyServer_ev:
  assumes "VerifyServer cv env args der stapled sctList s = (Inr (), s')"
  shows "vs_evOidPolicy s' = vs_evOidPolicy s \<or>
    (\<exists>policy tag t rv. GetFirstEVPolicy (env_ev env) (env_evPolicy env) der = Some (policy, tag) \<and>
       vs_evOidPolicy s' = map_option (\<lambda>_. tag) (vs_evOidPolicy s) \<and>
       path_noted cv env args (EVConfiguration cv args) der policy stapled sctList rv s t \<and>
       (rv = Inr () \<longrightarrow> s' = t))"
proof -
  obtain rv1 s1 where e: "TryEV cv env args der stapled sctList s = (rv1, s1)" by fastforce
  obtain rv2 s2 where d: "TryKeySizes cv env args der stapled sctList keySizeConfigurations rv1 s1 = (rv2, s2)" by fastforce
  have s': "vs_evOidPolicy s' = vs_evOidPolicy s1" "rv1 = Inr () \<longrightarrow> s' = s1"
    using assms e d TryKeySizes_ev [OF d] by (auto simp: VerifyServer_def split: if_splits)
  show ?thesis
  proof (cases "GetFirstEVPolicy (env_ev env) (env_evPolicy env) der")
    case None
    then have "s1 = s" using e by (simp add: TryEV_def)
    then show ?thesis using s'(1) by simp
  next
    case (Some found)
    obtain policy tag where tag: "found = (policy, tag)" by (cases found)
    have "TryModes cv env args (EVConfiguration cv args) der policy stapled sctList (note_EV tag) sha1ModeConfigurations
        (Inl ERROR_UNKNOWN_ERROR) s = (rv1, s1)"
      using e Some tag by (simp add: TryEV_def)
    from TryModes_ev [OF this only_notes_note(1), of "map_option (\<lambda>_. tag)"]
    have "vs_evOidPolicy s1 = vs_evOidPolicy s \<or> vs_evOidPolicy s1 = map_option (\<lambda>_. tag) (vs_evOidPolicy s) \<and>
        path_noted cv env args (EVConfiguration cv args) der policy stapled sctList rv1 s s1"
      by (auto simp: ev_step_def note_EV_def)
    then show ?thesis using s' Some tag by metis
  qed
qed

section \<open>Properties\<close>

text \<open>C1: What a successful \<open>VerifySSLServerCert\<close> has established. For a configuration that the preferences, the
  flags and the certificate permit, and one of the three key usages of a server, there is a path from the
  certificate to a root that mozilla::pkix accepts with this configuration, and the chain that is reported is
  the one the trust domain made of this path. No certificate of the path is on the blocklist, and the database trusts the
  root as an authority, for EV for the policy. If SHA-1 is allowed for imported roots, the root is not built in.
  The stapled response satisfies the TLS features of the certificate, unless the flags say not to look, and the
  certificate names the host, by the rules for its kind of root.\<close>

theorem VerifySSLServerCert_sound:
  assumes "VerifySSLServerCert cv env args cert s = (Inr (), s')" and "length (env_ipv6 env) = 16"
  shows "\<exists>cfg policy domain c issuers chain hostname isBuiltInRoot. \<exists>ku \<in> server_usages.
    permitted cv env args (derCert cert) cfg policy \<and>
    server_path (domain_services env) cfg domain (derCert cert) (va_time args) ku policy (va_stapled args) c issuers chain \<and>
    vs_builtChain s' = Some chain \<and>
    (\<forall>x \<in> set (c # issuers). unblocked (env_services env) (bc_der x)) \<and>
    database_root (domain_services env) policy (bc_der (last (c # issuers))) \<and>
    builtInRoot (last chain) = Inr isBuiltInRoot \<and> (mSHA1Mode cfg = ImportedRoot \<longrightarrow> \<not> isBuiltInRoot) \<and>
    (va_flags args AND FLAG_TLS_IGNORE_STATUS_REQUEST = 0 \<longrightarrow>
       TLSFeaturesSatisfiedInternal (GetRequiredTLSFeatures c) (va_stapled args) = Inr ()) \<and>
    va_hostname args = Some hostname \<and>
    certificate_names_host c (hostname_bytes hostname) (if isBuiltInRoot then cv_NameMatchingMode cv else DoNotEnforce)"
proof -
  obtain hostname s0 where h: "va_hostname args = Some hostname" "vs_domain s0 = vs_domain s"
    and v: "VerifyCert cv env args certificateUsageSSLServer cert s0 = (Inr (), s')"
    and name: "CheckServerName cv env (derCert cert) hostname s' = Inr ()"
    and tls: "va_flags args AND FLAG_TLS_IGNORE_STATUS_REQUEST = 0 \<Longrightarrow>
      CheckTLSFeaturesAreSatisfied (derCert cert) (va_stapled args) = Inr ()"
    using VerifySSLServerCert_parts [OF assms(1)] by metis
  obtain cfg policy ku domain c issuers chain where p: "ku \<in> server_usages"
    "permitted cv env args (derCert cert) cfg policy"
    "server_path (domain_services env) cfg domain (derCert cert) (va_time args) ku policy (va_stapled args) c issuers chain"
    "vs_builtChain s' = Some chain" "sha1_root_ok cfg s'"
    using VerifyCert_server(1) [OF v] unfolding served_def found_def by blast
  have c: "BackCert_Init (derCert cert) MustBeEndEntity = Inr c" using p(3) by (simp add: server_path_def)
  obtain b where b: "builtInRoot (last chain) = Inr b"
    "certificate_names_host c (hostname_bytes hostname) (if b then cv_NameMatchingMode cv else DoNotEnforce)"
    using CheckServerName_names [OF name p(4) c VerifyCert_server(2) [OF v] assms(2)] by blast
  have sha1: "mSHA1Mode cfg = ImportedRoot \<longrightarrow> \<not> b"
    using p(4,5) b(1) by (auto simp: sha1_root_ok_def IsCertChainRootBuiltInRoot_def split: if_splits)
  have "va_flags args AND FLAG_TLS_IGNORE_STATUS_REQUEST = 0 \<longrightarrow>
      TLSFeaturesSatisfiedInternal (GetRequiredTLSFeatures c) (va_stapled args) = Inr ()"
    using tls c by (auto simp: CheckTLSFeaturesAreSatisfied_def)
  then show ?thesis
    using p b sha1 h(1) server_path_database [OF p(3)] permitted_config [OF p(2)]
    unfolding domain_services_frame by blast
qed

theorem VerifySSLServerCert_sound_witness:
  "certificate_names_host server_cert [0x4C] DoNotEnforce \<and>
   (\<exists>issuers. database_root (domain_services sample_env) sample_ev_policy (bc_der (last (server_cert # issuers))))"
proof -
  have must: "va_flags sample_args AND FLAG_MUST_BE_EV \<noteq> 0" by (simp add: sample_args_def FLAG_MUST_BE_EV_def)
  have host: "va_hostname sample_args = Some ''L''" "hostname_bytes ''L'' = [0x4C]"
    by (simp_all add: sample_args_def hostname_bytes_def)
  have "length (env_ipv6 sample_env) = 16" by (simp add: sample_env_def)
  from VerifySSLServerCert_sound [OF server_verified this]
  obtain cfg policy domain c issuers chain hostname b ku where p:
    "permitted sample_verifier sample_env sample_args (derCert server_certificate) cfg policy"
    "server_path sample_sv cfg domain (derCert server_certificate) (va_time sample_args) ku policy (va_stapled sample_args)
       c issuers chain"
    "vs_builtChain verified_state = Some chain" "builtInRoot (last chain) = Inr b"
    "database_root sample_sv policy (bc_der (last (c # issuers)))" "va_hostname sample_args = Some hostname"
    "certificate_names_host c (hostname_bytes hostname) (if b then cv_NameMatchingMode sample_verifier else DoNotEnforce)"
    by blast
  have "chain = server_chain" using p(3) by (simp add: verified_state_def)
  then have "\<not> b" using p(4) server_certificate_der(2) by simp
  moreover have "c = server_cert" "hostname = ''L''"
    using p(2,6) server_cert_init host(1) by (simp_all add: server_path_def server_certificate_der)
  moreover have "policy = sample_ev_policy" using permitted_policy [OF p(1)] sample_first_policy must by simp
  ultimately show ?thesis using p(5,7) host(2) by (intro conjI exI [of _ issuers]) simp_all
qed

text \<open>C3: A revocation that the cache remembers is not overlooked. If \<open>VerifySSLServerCert\<close> succeeds, the chain that it
  reports belongs to a path on which no CA certificate, and if no response is stapled no certificate at all, has
  an OCSP identifier for which the cache remembered a revocation at the beginning. (A response that the server
  staples is for the end entity and decides before the cache is read.) Afterwards the cache
  is still well-formed and remembers all these revocations, whatever was tried.\<close>

theorem VerifySSLServerCert_revocation:
  assumes "VerifySSLServerCert cv env args cert s = (Inr (), s')" and "wf_cache (mOCSPCache (vs_domain s))"
  shows "kept (vs_domain s) (vs_domain s') \<and>
    (\<exists>cfg policy domain c issuers chain. \<exists>ku \<in> server_usages.
       permitted cv env args (derCert cert) cfg policy \<and>
       server_path (domain_services env) cfg domain (derCert cert) (va_time args) ku policy (va_stapled args) c issuers chain \<and>
       vs_builtChain s' = Some chain \<and>
       (\<forall>k < length issuers. \<forall>h. (k = 0 \<longrightarrow> va_stapled args = None) \<and>
          CertIDHash (cacheEnv (env_services env)) (ocsp_id ((c # issuers) ! k) (issuers ! k)) (va_firstPartyDomain args) =
            Some h \<longrightarrow>
          \<not> remembers_revoked (mOCSPCache (vs_domain s)) h))"
proof -
  obtain s0 where s0: "vs_domain s0 = vs_domain s"
    and v: "VerifyCert cv env args certificateUsageSSLServer cert s0 = (Inr (), s')"
    using VerifySSLServerCert_parts [OF assms(1)] by metis
  have kept: "kept (vs_domain s) (vs_domain s')"
    using VerifyCert_server(4) [OF v] VerifyServer_found(1) s0 by metis
  obtain cfg policy ku domain c issuers chain where p: "ku \<in> server_usages"
    "permitted cv env args (derCert cert) cfg policy" "kept (vs_domain s) domain"
    "server_path (domain_services env) cfg domain (derCert cert) (va_time args) ku policy (va_stapled args) c issuers chain"
    "vs_builtChain s' = Some chain"
    using VerifyCert_server(1) [OF v] s0 unfolding served_def found_def by metis
  have "\<not> remembers_revoked (mOCSPCache (vs_domain s)) h"
    if "k < length issuers" "k = 0 \<longrightarrow> va_stapled args = None" "CertIDHash (cacheEnv (env_services env))
      (ocsp_id ((c # issuers) ! k) (issuers ! k)) (va_firstPartyDomain args) = Some h" for k h
    using server_path_not_revoked [OF p(4) _ that(1,2)] that(3) p(3) assms(2) permitted_config [OF p(2)]
    by (auto simp: kept_def)
  then show ?thesis using kept p by blast
qed

theorem VerifySSLServerCert_revocation_witness:
  "remembers_revoked (mOCSPCache (vs_domain sample_verify_state)) (replicate 48 0x31) \<and>
   remembers_revoked (mOCSPCache (vs_domain verified_state)) (replicate 48 0x31) \<and>
   (\<exists>issuers chain. vs_builtChain verified_state = Some chain \<and> (\<forall>k < length issuers.
      CertIDHash (cacheEnv (env_services sample_env)) (ocsp_id ((server_cert # issuers) ! k) (issuers ! k)) [] \<noteq>
        Some (replicate 48 0x31)))"
proof -
  have wf: "wf_cache (mOCSPCache (vs_domain sample_verify_state))"
    and rev: "remembers_revoked (mOCSPCache (vs_domain sample_verify_state)) (replicate 48 0x31)"
    using remembered_revoked by (simp_all add: sample_verify_state_def)
  note all = VerifySSLServerCert_revocation [OF server_verified wf]
  obtain cfg domain ku policy c issuers chain where
    p: "server_path sample_sv cfg domain (derCert server_certificate) (va_time sample_args) ku policy (va_stapled sample_args)
       c issuers chain" "vs_builtChain verified_state = Some chain"
    and path: "\<forall>k < length issuers. \<forall>h. (k = 0 \<longrightarrow> va_stapled sample_args = None) \<and>
      CertIDHash (cacheEnv (env_services sample_env)) (ocsp_id ((c # issuers) ! k) (issuers ! k))
        (va_firstPartyDomain sample_args) = Some h \<longrightarrow>
      \<not> remembers_revoked (mOCSPCache (vs_domain sample_verify_state)) h"
    using conjunct2 [OF all] by blast
  have "c = server_cert" using p server_cert_init by (simp add: server_path_def server_certificate_der)
  moreover have "va_stapled sample_args = None" "va_firstPartyDomain sample_args = []" by (simp_all add: sample_args_def)
  ultimately have "\<forall>k < length issuers.
      CertIDHash (cacheEnv (env_services sample_env)) (ocsp_id ((server_cert # issuers) ! k) (issuers ! k)) [] \<noteq>
        Some (replicate 48 0x31)"
    using path rev by auto
  moreover have "remembers_revoked (mOCSPCache (vs_domain verified_state)) (replicate 48 0x31)"
    using conjunct1 [OF all] wf rev by (simp add: kept_def)
  ultimately show ?thesis using rev p(2) by blast
qed



end
