(* ===== verification/Spec2Isabelle.thy ===== *)
theory Spec2Isabelle
  imports PkixBudget PkixRanking PkixTrace PsmCertVerifierSound
begin

text \<open>
  A verification library for the code of this repository that decides, for every TLS connection and signed
  add-on, whether a certificate is trusted: \<^verbatim>\<open>src/security/pkix\<close> (mozilla::pkix) and the browser's side of
  it, \<^verbatim>\<open>src/security/certverifier\<close>. mozilla::pkix decodes DER, parses certificates, checks them one by one and
  against their issuers, searches for a path to a trust anchor, matches host names and name constraints and
  verifies OCSP responses. It calls the application through the class \<open>TrustDomain\<close>, which
  \<open>NSSCertDBTrustDomain\<close> implements with the policies of the browser and with OCSP requests and their cache.
  Beside it, the timestamps of Certificate Transparency that come with a certificate are verified. \<open>CertVerifier\<close>
  puts the parts together: it tries one configuration of the trust domain after the other, for extended validation
  (EV) first.

  \<^bold>\<open>How the code is represented.\<close> A function of the code is a function of the same name. \<open>Result\<close> is a sum
  type: \<open>Inr\<close> is \<open>Success\<close> with the out-parameters, \<open>Inl\<close> carries one of the error codes
  (\<open>'a res\<close>, theory \<open>PkixResult\<close>). An \<open>Input\<close> is a list of bytes, a \<open>Reader\<close> a record of the array and two
  indices (the code's two pointers); \<open>wf_Input\<close> says that the length fits the 16 bits of \<open>Input\<close>, and
  \<open>wf_Reader\<close> that the indices are in bounds. Machine integers are words of their width, so that
  wrap-around is the code's. Loops are recursive functions with a proof of termination; there is no fuel.
  Lambda expressions are function arguments, and the variables that they capture are threaded through. The
  \<open>TrustDomain\<close> is a record of functions: every theorem about mozilla::pkix holds for all of them unless it
  states what it assumes. Where the order of its calls matters, path building appends them to a list of
  events, and the answers may depend on the list. \<open>assert\<close> and \<open>NotReached\<close> are errors that the theorems
  show not to occur where this matters. What is not C++ of this repository - NSS, the network, the
  cryptography, memory - is a record of parameters (\<open>services\<close>, \<open>cache_env\<close>, \<open>ct_services\<close>, \<open>ev_services\<close>).

  \<^bold>\<open>The theories of mozilla::pkix.\<close>
  \<^item> \<open>Prelude\<close>: words, lists, the error monad; \<open>fold_res\<close>.
  \<^item> \<open>PkixResult\<close> (\<^verbatim>\<open>Result.h\<close>), \<open>PkixInput\<close> (\<^verbatim>\<open>Input.h\<close>), \<open>PkixTime\<close> (\<^verbatim>\<open>Time.h\<close>, \<^verbatim>\<open>pkixtime.cpp\<close>),
    \<open>PkixTypes\<close> (\<^verbatim>\<open>pkixtypes.h\<close>). \<open>PkixInput\<close> states what a decoder promises as the locale \<open>decoder\<close> (it only
    moves forward and stays in bounds), which each decoder of the later theories interprets.
  \<^item> \<open>PkixDer\<close>, \<open>PkixDerTypes\<close>, \<open>PkixDerTime\<close> (\<^verbatim>\<open>pkixder.h\<close>, \<^verbatim>\<open>pkixder.cpp\<close>): tags, lengths and nesting; integers,
    Booleans, algorithm identifiers, extensions and signed data; times. The lemmas relate each decoder to
    the encoding that it accepts (\<open>encode_tlv\<close>, \<open>tlv_at\<close>), so that later proofs are about bytes. DER is
    unambiguous here: only shortest lengths, shortest integers and existing dates are accepted.
  \<^item> \<open>PkixCert\<close> (\<^verbatim>\<open>pkixcert.cpp\<close>, \<^verbatim>\<open>pkixutil.h\<close>): \<open>BackCert\<close>; what is remembered of a certificate is what its signed
    bytes say. The chain array of eight is the locale \<open>bounded_array\<close>.
  \<^item> \<open>PkixCheck\<close>, \<open>PkixVerify\<close> (\<^verbatim>\<open>pkixcheck.cpp\<close>, \<^verbatim>\<open>pkixverify.cpp\<close>): the checks of one certificate; \<open>PkixUsage\<close> and
    \<open>PkixPolicy\<close> characterise what they accept. \<open>PkixSamples\<close> has concrete certificates for the witnesses.
  \<^item> \<open>PkixIp\<close>, \<open>PkixIpv6\<close>, \<open>PkixDns\<close>, \<open>PkixDnsSyntax\<close>, \<open>PkixDnsMatch\<close>, \<open>PkixNames\<close>, \<open>PkixConstraints\<close>, \<open>PkixSearch\<close>
    (\<^verbatim>\<open>pkixnames.cpp\<close>): the textual forms of addresses as grammars, the syntax and the comparison of DNS names
    on lists of labels, name constraints on lists of subtrees, and the search through the names of a
    certificate, which decides about host names and about constraints.
  \<^item> \<open>PkixBuild\<close> (\<^verbatim>\<open>pkixbuild.cpp\<close>): the mutually recursive search. \<open>PkixPath\<close> defines trusted paths
    inductively, without the search, and shows that the search finds nothing else, that the chain of the
    path is the last one that the application was asked about, and that for an application
    whose answers do not depend on earlier calls no path is missed. \<open>PkixTrace\<close>: in which order the application
    is asked, and what has been checked before each of its calls. \<open>PkixRanking\<close>: which of several errors is reported.
    \<open>PkixBudget\<close>: how often the application can be asked about chains and revocations.
  \<^item> \<open>PkixOcsp\<close> (\<^verbatim>\<open>pkixocsp.cpp\<close>): requests and responses. \<open>PkixOcspRequest\<close>: the request is the DER encoding
    of what it should be and fits its buffer. \<open>PkixOcspStatus\<close>, \<open>PkixOcspVerify\<close>: what a response must be for
    a good status to be reported, and how its statuses are combined.

  \<^bold>\<open>The theories of the browser's trust domain.\<close>
  \<^item> \<open>PsmOcspCache\<close> (\<^verbatim>\<open>OCSPCache.cpp\<close>): the state is the list of entries, least recently used first. It is
    refined to a map from digests to statuses; a remembered revocation stays.
  \<^item> \<open>PsmTrustDomain\<close> (\<^verbatim>\<open>NSSCertDBTrustDomain.cpp\<close>, \<^verbatim>\<open>OCSPVerificationTrustDomain.cpp\<close>,
    \<^verbatim>\<open>BRNameMatchingPolicy.cpp\<close>, \<^verbatim>\<open>StartComAndWoSignData.inc\<close>): the methods without a state: issuers and trust,
    algorithms, key sizes, dates, chains. The constants of the constructor are the record
    \<open>NSSCertDBTrustDomain\<close>.
  \<^item> \<open>PsmOcspRequestor\<close> (\<^verbatim>\<open>OCSPRequestor.cpp\<close>), \<open>PsmRevocation\<close> (\<open>CheckRevocation\<close>): the state is the record
    \<open>domain_state\<close>: the cache, the stapling status, the timestamp lists that were noted, and the number of
    requests, so that a server may answer each differently. The relation \<open>outcome\<close> collects the ways in
    which a check can end and what it does to the cache.
  \<^item> \<open>PsmRevocationSound\<close>: what a success of \<open>CheckRevocation\<close> rests on; that a reported revocation is
    reported again; that a server that fails is left alone for five minutes. That a step keeps the cache
    well-formed and does not forget a revocation is the locale \<open>revocation_memory\<close>, interpreted for the
    operations of the cache and for whole checks.

  \<^bold>\<open>The theories of the verification of a server.\<close>
  \<^item> \<open>PsmExtendedValidation\<close> (\<^verbatim>\<open>ExtendedValidation.cpp\<close>): which EV policy a certificate asserts, and for which
    policies a root is authoritative. The table of the roots is a parameter.
  \<^item> \<open>PsmCertVerifier\<close> (\<^verbatim>\<open>CertVerifier.cpp\<close>): the configurations, their order, and the out-parameters. The state is the
    record \<open>verify_state\<close>. The object \<open>NSSCertDBTrustDomain\<close> that mozilla::pkix calls, whose state its methods change,
    becomes a \<open>TrustDomain\<close> by letting each answer be that of the state after the calls that were made so far
    (\<open>NSS_TrustDomain\<close>, \<open>after_calls\<close>).
  \<^item> \<open>PsmCertVerifierSound\<close>: what a success of \<open>VerifySSLServerCert\<close> means, by putting the results about path building,
    host names, EV and the memory for revocations together. \<open>PsmSamples\<close> has a concrete server, a database and a
    cache for the witnesses.

  \<^bold>\<open>The theories of Certificate Transparency.\<close>
  \<^item> \<open>CtSerialization\<close> (\<^verbatim>\<open>CTSerialization.cpp\<close>, \<^verbatim>\<open>SignedCertificateTimestamp.h\<close>, \<^verbatim>\<open>SignedTreeHead.h\<close>): structures,
    readers and writers. The contract of a reader with its encoding is the locale \<open>codec\<close>: it accepts
    exactly the encodings, moves behind them, and so no encoding is a prefix of another; its lemmas compose
    codecs. \<open>CtEncoding\<close> interprets it for every field and structure, and shows that lists are read as they
    were written and that the bytes that a log signs stand for one thing.
  \<^item> \<open>CtExtractor\<close> (\<^verbatim>\<open>CTObjectsExtractor.cpp\<close>): the entry that a log signs for an embedded timestamp; the buffer
    of fixed size is the record \<open>Output\<close>.
  \<^item> \<open>CtVerifier\<close> (\<^verbatim>\<open>CTLogVerifier.cpp\<close>, \<^verbatim>\<open>MultiLogCTVerifier.cpp\<close>, \<^verbatim>\<open>CTVerifyResult.cpp\<close>): the keys of the logs and the
    verification of all timestamps; what each status means (\<open>justified\<close>).

  \<^bold>\<open>Bounds.\<close> \<open>MAX_INPUT\<close> is 65535, the largest length of an \<open>Input\<close>; certificates, responses and host names
  of the theorems are within it, as \<open>Input::Init\<close> ensures. \<open>MAX_SUBCA_COUNT\<close> is 6, which makes the search end
  at depth eight; the model counts in 32-bit words as the code does. Dates end with the year 9999, so that
  seconds fit 64 bits by far; the time of a timestamp is any 64-bit number of milliseconds, and its rounding
  can wrap around. The limit of 253 bytes of a DNS name, of 127 bytes of an OCSP request and of 1024 entries
  of the cache are the code's. The memory of a \<open>Vector\<close> is a number of bytes (\<open>ct_mem\<close>) or elements
  (\<open>ct_vector\<close>) beyond which an append fails.

  \<^bold>\<open>Not modelled.\<close> The tables from results to NSS codes and the calls of NSS (\<^verbatim>\<open>pkixresult.cpp\<close>, \<^verbatim>\<open>pkixnss.cpp\<close>)
  are glue over a library that is not in this code base's C++; \<open>Now()\<close> reads the clock. Pointers into the
  caller's arrays are copies here: the code never writes through them while they are shared. The contents of
  the optional out-parameters \<open>thisUpdate\<close> and \<open>validThrough\<close> after an error are not represented by
  \<open>VerifyEncodedOCSPResponse\<close>; where \<open>CheckRevocation\<close> reads them they are a parameter. Of the trust domain,
  the loading of NSS modules, nicknames and the saving of intermediate certificates only call NSS; telemetry
  is left out; the generated list of CNNIC hashes is a parameter. Whether memory can be allocated and a
  digest computed does not change during one check. Of \<^verbatim>\<open>ExtendedValidation.cpp\<close> the table of EV roots and its
  registration with NSS are not modelled, of \<^verbatim>\<open>CertVerifier.cpp\<close> the telemetry of pinning, the look-up that decides
  whether a root is built in (a field of the certificates of a chain here) and the saving of intermediate
  certificates after a success. The data of the known logs (\<^verbatim>\<open>CTKnownLogs.h\<close>) are a parameter. The rest of the
  repository - layout, DOM, script engine, networking, graphics - is outside of this library.
\<close>

end
